(* ===== verification/Prelude.thy ===== *)
theory Prelude
  imports Main "HOL-Library.AList" "HOL-Library.Word"
begin

text \<open>Shared vocabulary of the development: Rust's \<open>Result\<close> as a sum type with the error on the left,
  ASCII string operations of the standard library, \<open>HashMap\<close> as an association list with distinct
  keys (the order of the list stands for the unspecified iteration order), JSON values, and the generic
  lemmas on lists, maps and words that several components use.\<close>

named_theorems inv_intros \<open>introduction rules for component invariants\<close>
named_theorems op_defs \<open>definitions of component operations, unfolded by the component proofs\<close>

section \<open>Results\<close>

type_synonym ('a, 'e) result = "'e + 'a"

abbreviation Ok :: "'a \<Rightarrow> ('a, 'e) result" where "Ok \<equiv> Inr"
abbreviation Err :: "'e \<Rightarrow> ('a, 'e) result" where "Err \<equiv> Inl"

fun is_ok :: "('a, 'e) result \<Rightarrow> bool" where
  "is_ok (Inr _) = True"
| "is_ok (Inl _) = False"

lemma is_ok_iff: "is_ok r \<longleftrightarrow> (\<exists>x. r = Ok x)"
  by (cases r) auto

lemma not_is_ok_iff: "\<not> is_ok r \<longleftrightarrow> (\<exists>e. r = Err e)"
  by (cases r) auto

section \<open>Strings\<close>

text \<open>A Rust string is modelled as the list of its bytes. \<open>to_ascii_uppercase\<close>, \<open>to_lowercase\<close>
  and \<open>trim\<close> act on the ASCII part; every literal the code compares with is ASCII.\<close>

definition ascii_upper_char :: "char \<Rightarrow> char" where
  "ascii_upper_char c =
     (let n = of_char c :: nat in if 97 \<le> n \<and> n \<le> 122 then char_of (n - 32) else c)"

definition ascii_lower_char :: "char \<Rightarrow> char" where
  "ascii_lower_char c =
     (let n = of_char c :: nat in if 65 \<le> n \<and> n \<le> 90 then char_of (n + 32) else c)"

definition ascii_upper :: "string \<Rightarrow> string" where
  "ascii_upper s = map ascii_upper_char s"

definition ascii_lower :: "string \<Rightarrow> string" where
  "ascii_lower s = map ascii_lower_char s"

definition ascii_space :: "char \<Rightarrow> bool" where
  "ascii_space c = (let n = of_char c :: nat in n = 32 \<or> (9 \<le> n \<and> n \<le> 13))"

definition trim :: "string \<Rightarrow> string" where
  "trim s = rev (dropWhile ascii_space (rev (dropWhile ascii_space s)))"

definition starts_with :: "string \<Rightarrow> string \<Rightarrow> bool" where
  "starts_with s p = (take (length p) s = p)"

definition ends_with :: "string \<Rightarrow> string \<Rightarrow> bool" where
  "ends_with s p = (length p \<le> length s \<and> drop (length s - length p) s = p)"

definition strip_prefix :: "string \<Rightarrow> string \<Rightarrow> string option" where
  "strip_prefix s p = (if starts_with s p then Some (drop (length p) s) else None)"

lemma strip_prefix_append [simp]: "strip_prefix (p @ s) p = Some s"
  by (simp add: strip_prefix_def starts_with_def)

text \<open>\<open>contains\<close> on a substring, and the first piece of \<open>split(c)\<close>, which always exists.\<close>

definition contains_str :: "string \<Rightarrow> string \<Rightarrow> bool" where
  "contains_str s sub = list_ex (\<lambda>i. starts_with (drop i s) sub) [0..<Suc (length s)]"

definition first_piece :: "char \<Rightarrow> string \<Rightarrow> string" where
  "first_piece c s = takeWhile (\<lambda>x. x \<noteq> c) s"

text \<open>\<open>str::split(c)\<close>: the pieces between the separators, at least one.\<close>

fun split_on :: "char \<Rightarrow> string \<Rightarrow> string list" where
  "split_on c [] = [[]]"
| "split_on c (x # xs) =
     (if x = c then [] # split_on c xs
      else (case split_on c xs of [] \<Rightarrow> [[x]] | p # ps \<Rightarrow> (x # p) # ps))"

text \<open>\<open>str::as_bytes\<close> and \<open>u64::to_le_bytes\<close>.\<close>

definition bytes_of :: "string \<Rightarrow> 8 word list" where
  "bytes_of s = map of_char s"

definition le_bytes :: "64 word \<Rightarrow> 8 word list" where
  "le_bytes w = map (\<lambda>i. ucast (drop_bit (8 * i) w)) [0..<8]"

text \<open>The decimal text of a number.\<close>

fun nat_dec :: "nat \<Rightarrow> string" where
  "nat_dec n = (if n < 10 then [char_of (48 + n)] else nat_dec (n div 10) @ [char_of (48 + n mod 10)])"

declare nat_dec.simps [simp del]

definition dec_val :: "string \<Rightarrow> nat" where
  "dec_val s = foldl (\<lambda>a c. 10 * a + (of_char c - 48)) 0 s"

lemma dec_val_nat_dec: "dec_val (nat_dec n) = n"
proof (induction n rule: nat_dec.induct)
  case (1 n)
  have digit: "of_char (char_of (48 + k) :: char) - 48 = k" if "k < 10" for k :: nat
    using that by (simp add: take_bit_nat_eq_self)
  show ?case
  proof (cases "n < 10")
    case True
    then show ?thesis using digit by (subst nat_dec.simps) (simp add: dec_val_def)
  next
    case False
    then have "dec_val (nat_dec n) = 10 * dec_val (nat_dec (n div 10)) + (of_char (char_of (48 + n mod 10) :: char) - 48)"
      by (subst nat_dec.simps) (simp add: dec_val_def)
    then show ?thesis using 1 False digit [of "n mod 10"] by simp
  qed
qed

lemma nat_dec_inj: "nat_dec m = nat_dec n \<longleftrightarrow> m = n"
  using dec_val_nat_dec by metis

lemma dec_char_digit: "k < 10 \<Longrightarrow> of_char (char_of (48 + k) :: char) = 48 + k" for k :: nat
  by (simp add: take_bit_nat_eq_self)

lemma nat_dec_digits: "c \<in> set (nat_dec n) \<Longrightarrow> 48 \<le> (of_char c :: nat) \<and> (of_char c :: nat) \<le> 57"
proof (induction n rule: nat_dec.induct)
  case (1 n)
  have digit: "48 \<le> (of_char (char_of (48 + k) :: char) :: nat) \<and> (of_char (char_of (48 + k) :: char) :: nat) \<le> 57"
    if "k < 10" for k :: nat using dec_char_digit [OF that] that by simp
  have "set (nat_dec n) = (if n < 10 then {char_of (48 + n)} else set (nat_dec (n div 10)) \<union> {char_of (48 + n mod 10)})"
    by (subst nat_dec.simps) simp
  then show ?case using 1 digit [of n] digit [of "n mod 10"] by (auto split: if_splits)
qed

text \<open>The decimal text of a signed integer.\<close>

definition int_dec :: "int \<Rightarrow> string" where
  "int_dec n = (if n < 0 then CHR ''-'' # nat_dec (nat (- n)) else nat_dec (nat n))"

lemma nat_dec_no_char: "of_char c < (48 :: nat) \<or> 57 < (of_char c :: nat) \<Longrightarrow> c \<notin> set (nat_dec n)"
  using nat_dec_digits [of c n] by auto

lemma int_dec_inj: "int_dec m = int_dec n \<longleftrightarrow> m = n"
proof
  have minus: "CHR ''-'' \<notin> set (nat_dec k)" for k by (rule nat_dec_no_char) simp
  have ne: "nat_dec k \<noteq> CHR ''-'' # x" for k x using minus [of k] by (metis list.set_intros(1))
  assume "int_dec m = int_dec n"
  then show "m = n" using ne ne [symmetric] by (auto simp: int_dec_def nat_dec_inj split: if_splits)
qed simp

lemma int_dec_no_char:
  "of_char c < (48 :: nat) \<or> 57 < (of_char c :: nat) \<Longrightarrow> c \<noteq> CHR ''-'' \<Longrightarrow> c \<notin> set (int_dec n)"
  using nat_dec_no_char [of c] by (auto simp: int_dec_def)

text \<open>A text is cut in one way only at the first occurrence of a separator.\<close>

lemma separator_unique:
  "c \<notin> set xs \<Longrightarrow> c \<notin> set ys \<Longrightarrow> xs @ c # a = ys @ c # b \<longleftrightarrow> xs = ys \<and> a = b"
proof (induction xs arbitrary: ys)
  case Nil
  then show ?case by (cases ys) auto
next
  case (Cons x xs)
  then show ?case by (cases ys) auto
qed

text \<open>\<open>Iterator::max\<close>.\<close>

definition iter_max :: "'a::linorder list \<Rightarrow> 'a option" where
  "iter_max xs = (if xs = [] then None else Some (Max (set xs)))"

lemma iter_max_None [simp]: "iter_max xs = None \<longleftrightarrow> xs = []"
  by (simp add: iter_max_def)

lemma iter_max_SomeD: "iter_max xs = Some m \<Longrightarrow> m \<in> set xs \<and> (\<forall>x\<in>set xs. x \<le> m)"
  by (auto simp: iter_max_def split: if_splits)

lemma starts_with_append [simp]: "starts_with (p @ s) p"
  by (simp add: starts_with_def)

lemma starts_with_iff: "starts_with s p \<longleftrightarrow> (\<exists>t. s = p @ t)"
  unfolding starts_with_def by (metis append_take_drop_id append_eq_conv_conj)

section \<open>Hash maps\<close>

type_synonym ('k, 'v) hmap = "('k \<times> 'v) list"

abbreviation hget :: "('k, 'v) hmap \<Rightarrow> 'k \<Rightarrow> 'v option" where "hget m k \<equiv> map_of m k"
abbreviation hput :: "'k \<Rightarrow> 'v \<Rightarrow> ('k, 'v) hmap \<Rightarrow> ('k, 'v) hmap" where "hput \<equiv> AList.update"
abbreviation hdel :: "'k \<Rightarrow> ('k, 'v) hmap \<Rightarrow> ('k, 'v) hmap" where "hdel \<equiv> AList.delete"
abbreviation hkeys :: "('k, 'v) hmap \<Rightarrow> 'k list" where "hkeys m \<equiv> map fst m"
abbreviation hvalues :: "('k, 'v) hmap \<Rightarrow> 'v list" where "hvalues m \<equiv> map snd m"

definition hmap_ok :: "('k, 'v) hmap \<Rightarrow> bool" where
  "hmap_ok m = distinct (hkeys m)"

definition hmem :: "('k, 'v) hmap \<Rightarrow> 'k \<Rightarrow> bool" where
  "hmem m k = (map_of m k \<noteq> None)"

lemma hget_hput [simp]: "hget (hput k v m) j = (if j = k then Some v else hget m j)"
  by (simp add: update_conv')

lemma hget_hdel [simp]: "hget (hdel k m) j = (if j = k then None else hget m j)"
  by (simp add: delete_conv')

lemma hmem_hput [simp]: "hmem (hput k v m) j \<longleftrightarrow> j = k \<or> hmem m j"
  by (simp add: hmem_def)

lemma hmem_hdel [simp]: "hmem (hdel k m) j \<longleftrightarrow> j \<noteq> k \<and> hmem m j"
  by (simp add: hmem_def)

lemma hmem_iff: "hmem m k \<longleftrightarrow> k \<in> set (hkeys m)"
  unfolding hmem_def by (induction m) auto

lemma hmap_ok_Nil [simp, intro]: "hmap_ok []"
  by (simp add: hmap_ok_def)

lemma hmap_ok_Cons: "hmap_ok ((k, v) # m) \<longleftrightarrow> k \<notin> set (hkeys m) \<and> hmap_ok m"
  by (simp add: hmap_ok_def)

lemma hmap_ok_hput [simp, inv_intros]: "hmap_ok m \<Longrightarrow> hmap_ok (hput k v m)"
  unfolding hmap_ok_def by (rule distinct_update)

lemma hmap_ok_hdel [simp, inv_intros]: "hmap_ok m \<Longrightarrow> hmap_ok (hdel k m)"
  unfolding hmap_ok_def by (rule distinct_delete)

lemma hmap_ok_filter [simp, inv_intros]: "hmap_ok m \<Longrightarrow> hmap_ok (filter P m)"
  unfolding hmap_ok_def by (rule distinct_map_filter)

lemma hmap_ok_map_values [simp]: "hmap_ok (map (\<lambda>(k, v). (k, f k v)) m) \<longleftrightarrow> hmap_ok m"
  unfolding hmap_ok_def by (simp add: comp_def case_prod_unfold)

lemma hget_in_set: "hget m k = Some v \<Longrightarrow> (k, v) \<in> set m"
  by (rule map_of_SomeD)

lemma in_set_hget: "hmap_ok m \<Longrightarrow> (k, v) \<in> set m \<Longrightarrow> hget m k = Some v"
  unfolding hmap_ok_def by simp

lemma hget_eq_Some_iff: "hmap_ok m \<Longrightarrow> hget m k = Some v \<longleftrightarrow> (k, v) \<in> set m"
  unfolding hmap_ok_def by simp

lemma hget_filter:
  "hmap_ok m \<Longrightarrow> hget (filter P m) k = (case hget m k of None \<Rightarrow> None
     | Some v \<Rightarrow> if P (k, v) then Some v else None)"
  by (induction m) (auto simp: hmap_ok_def map_of_eq_None_iff rev_image_eqI split: option.splits)

lemma hget_map_values:
  "hget (map (\<lambda>(k, v). (k, f k v)) m) k = map_option (f k) (hget m k)"
  by (induction m) auto

lemma length_hput: "length (hput k v m) = (if hmem m k then length m else Suc (length m))"
  by (induction m) (auto simp: hmem_def)

lemma length_hdel: "hmap_ok m \<Longrightarrow> length (hdel k m) = (if hmem m k then length m - 1 else length m)"
proof (induction m)
  case (Cons p m)
  obtain j v where p: "p = (j, v)" by force
  show ?case
  proof (cases "j = k")
    case True
    then have "k \<notin> set (hkeys m)" using Cons.prems p by (simp add: hmap_ok_Cons)
    then have "AList.delete k m = m" by (simp add: delete_id)
    then show ?thesis using True p by (simp add: hmem_def)
  next
    case False
    have ok: "hmap_ok m" using Cons.prems p by (simp add: hmap_ok_Cons)
    have "hmem m k \<Longrightarrow> m \<noteq> []" by (auto simp: hmem_def)
    then show ?thesis using False p Cons.IH [OF ok] by (auto simp: hmem_def)
  qed
qed (simp add: hmem_def)

lemma length_hdel_le: "length (hdel k m) \<le> length m"
  by (rule length_delete_le)

lemma set_hput_subset: "set (hput k v m) \<subseteq> insert (k, v) (set m)"
  by (induction m) auto

lemma set_hdel: "set (hdel k m) = {p \<in> set m. fst p \<noteq> k}"
  unfolding AList.delete_eq by (auto simp: case_prod_unfold)

section \<open>JSON values\<close>

text \<open>\<open>serde_json::Value\<close>; a number is kept as its text.\<close>

datatype json =
    JNull
  | JBool bool
  | JNum string
  | JStr string
  | JArr "json list"
  | JObj "(string \<times> json) list"

fun json_get :: "json \<Rightarrow> string \<Rightarrow> json option" where
  "json_get (JObj kvs) k = map_of kvs k"
| "json_get _ k = None"

fun json_as_str :: "json \<Rightarrow> string option" where
  "json_as_str (JStr s) = Some s"
| "json_as_str _ = None"

section \<open>Lists\<close>

text \<open>\<open>Vec::dedup\<close> removes consecutive repetitions; \<open>remdups_adj\<close> is the same operation.\<close>

lemma sort_key_id: "sorted (map key xs) \<Longrightarrow> sort_key key xs = xs"
proof (induction xs)
  case (Cons x xs)
  then show ?case by (cases xs) auto
qed simp

lemma list_ex_map_key: "list_ex (\<lambda>x. f x = k) xs \<longleftrightarrow> k \<in> set (map f xs)"
  by (induction xs) auto

lemma find_map_same:
  "(\<And>x. P (f x) = P x) \<Longrightarrow> List.find P (map f xs) = map_option f (List.find P xs)"
  by (induction xs) auto

lemma find_append_some: "List.find P xs = Some x \<Longrightarrow> List.find P (xs @ ys) = Some x"
  by (induction xs) auto

lemma length_filter_add_not:
  "length (filter P xs) + length (filter (\<lambda>x. \<not> P x) xs) = length xs"
  by (induction xs) auto

lemma sum_list_filter_split:
  fixes f :: "'a \<Rightarrow> nat"
  shows "sum_list (map f xs) = sum_list (map f (filter P xs)) + sum_list (map f (filter (\<lambda>x. \<not> P x) xs))"
  by (induction xs) auto

lemma map_filter_append [simp]: "List.map_filter f (xs @ ys) = List.map_filter f xs @ List.map_filter f ys"
  by (simp add: List.map_filter_def)

lemma map_filter_agree:
  "(\<forall>x\<in>set xs. f x = g x) \<Longrightarrow> List.map_filter f xs = List.map_filter g xs"
  by (induction xs) (auto simp: List.map_filter_def)

lemma map_filter_single: "List.map_filter f [x] = (case f x of None \<Rightarrow> [] | Some y \<Rightarrow> [y])"
  by (simp add: List.map_filter_def split: option.split)

lemma all_some: "\<forall>x\<in>set xs. \<exists>y. f x = Some y \<Longrightarrow> \<exists>ys. map f xs = map Some ys"
proof (induction xs)
  case (Cons x xs)
  then obtain y ys where "f x = Some y" "map f xs = map Some ys" by auto
  then have "map f (x # xs) = map Some (y # ys)" by simp
  then show ?case by blast
qed simp

lemma find_append: "find P (xs @ ys) = (case find P xs of Some x \<Rightarrow> Some x | None \<Rightarrow> find P ys)"
  by (induction xs) auto

lemma find_SomeD: "find P xs = Some x \<Longrightarrow> x \<in> set xs \<and> P x"
  by (induction xs) (auto split: if_splits)

lemma foldl_invariant:
  assumes "I s" and "\<And>s x. I s \<Longrightarrow> x \<in> set xs \<Longrightarrow> I (f s x)"
  shows "I (foldl f s xs)"
  using assms by (induction xs arbitrary: s) auto

section \<open>Words\<close>

text \<open>Rust's \<open>saturating_add\<close>, \<open>saturating_sub\<close>, \<open>checked_add\<close> and \<open>checked_sub\<close> on unsigned integers.\<close>

definition sat_add :: "'a::len word \<Rightarrow> 'a word \<Rightarrow> 'a word" where
  "sat_add a b = (if unat a + unat b < 2 ^ LENGTH('a) then a + b else - 1)"

definition sat_sub :: "'a::len word \<Rightarrow> 'a word \<Rightarrow> 'a word" where
  "sat_sub a b = (if b \<le> a then a - b else 0)"

definition checked_add :: "'a::len word \<Rightarrow> 'a word \<Rightarrow> 'a word option" where
  "checked_add a b = (if unat a + unat b < 2 ^ LENGTH('a) then Some (a + b) else None)"

definition checked_sub :: "'a::len word \<Rightarrow> 'a word \<Rightarrow> 'a word option" where
  "checked_sub a b = (if b \<le> a then Some (a - b) else None)"

lemma unat_add_exact:
  fixes a b :: "'a::len word"
  assumes "unat a + unat b < 2 ^ LENGTH('a)"
  shows "unat (a + b) = unat a + unat b"
  using assms by (simp add: unat_word_ariths)

lemma unat_sub_exact:
  fixes a b :: "'a::len word"
  assumes "b \<le> a"
  shows "unat (a - b) = unat a - unat b"
  using assms by (rule unat_sub)

lemma unat_sat_add:
  "unat (sat_add a (b :: 'a::len word)) = min (unat a + unat b) (2 ^ LENGTH('a) - 1)"
  by (auto simp: sat_add_def unat_add_exact unsigned_minus_1_eq_mask mask_eq_exp_minus_1)

lemma unat_sat_sub: "unat (sat_sub a (b :: 'a::len word)) = unat a - unat b"
  by (auto simp: sat_sub_def unat_sub_exact word_le_nat_alt)

lemma checked_add_SomeD: "checked_add a (b :: 'a::len word) = Some c \<Longrightarrow> unat c = unat a + unat b"
  by (auto simp: checked_add_def unat_add_exact split: if_splits)

lemma checked_sub_SomeD:
  "checked_sub a (b :: 'a::len word) = Some c \<Longrightarrow> unat c = unat a - unat b \<and> unat b \<le> unat a"
  by (auto simp: checked_sub_def unat_sub_exact word_le_nat_alt split: if_splits)

lemma unat_of_nat_small: "n < 2 ^ LENGTH('a) \<Longrightarrow> unat (of_nat n :: 'a::len word) = n"
  by (simp add: unsigned_of_nat take_bit_nat_eq_self)

lemma unat_of_nat_le: "n \<le> unat (m :: 'a::len word) \<Longrightarrow> unat (of_nat n :: 'a word) = n"
  by (rule unat_of_nat_small) (rule order.strict_trans1 [OF _ unsigned_less])

lemma unat_ucast_up:
  assumes "LENGTH('a) \<le> LENGTH('b)"
  shows "unat (ucast (x :: 'a::len word) :: 'b::len word) = unat x"
proof -
  have "unat x < 2 ^ LENGTH('a)" by (rule unsigned_less)
  also have "\<dots> \<le> 2 ^ LENGTH('b)" using assms by (rule power_increasing) simp
  finally show ?thesis by (simp add: unsigned_ucast_eq take_bit_nat_eq_self)
qed

end
