(* ===== verification/Clearance.thy ===== *)
theory Clearance
  imports Prelude
begin

text \<open>Clearance levels (\<open>src/crates/xavier-core-logic/src/types.rs\<close>) and the access rules on them
  (\<open>src/src/security/clearance.rs\<close>): the total order of levels, the parsers with their different
  defaults for unknown text, the read filters and the enforcer. The process environment is an argument
  of \<open>default_clearance\<close>.\<close>

section \<open>Levels\<close>

datatype clearance = Unclassified | Internal | Restricted | Confidential | Secret | TopSecret

primrec clearance_to_u8 :: "clearance \<Rightarrow> 8 word" where
  "clearance_to_u8 Unclassified = 0"
| "clearance_to_u8 Internal = 1"
| "clearance_to_u8 Restricted = 2"
| "clearance_to_u8 Confidential = 3"
| "clearance_to_u8 Secret = 4"
| "clearance_to_u8 TopSecret = 5"

instantiation clearance :: linorder
begin

definition less_eq_clearance :: "clearance \<Rightarrow> clearance \<Rightarrow> bool" where
  "less_eq_clearance a b = (clearance_to_u8 a \<le> clearance_to_u8 b)"

definition less_clearance :: "clearance \<Rightarrow> clearance \<Rightarrow> bool" where
  "less_clearance a b = (clearance_to_u8 a < clearance_to_u8 b)"

instance
proof
  fix a b c :: clearance
  show "a < b \<longleftrightarrow> a \<le> b \<and> \<not> b \<le> a"
    by (auto simp: less_eq_clearance_def less_clearance_def)
  show "a \<le> a" by (simp add: less_eq_clearance_def)
  show "a \<le> b \<Longrightarrow> b \<le> c \<Longrightarrow> a \<le> c" by (simp add: less_eq_clearance_def)
  show "a \<le> b \<Longrightarrow> b \<le> a \<Longrightarrow> a = b"
    by (cases a; cases b) (simp_all add: less_eq_clearance_def word_le_nat_alt)
  show "a \<le> b \<or> b \<le> a" by (auto simp: less_eq_clearance_def)
qed

end

lemmas clearance_ord_defs = less_eq_clearance_def less_clearance_def word_le_nat_alt word_less_nat_alt

definition clearance_from_u8 :: "8 word \<Rightarrow> clearance" where
  "clearance_from_u8 value =
     (if value = 0 then Unclassified
      else if value = 1 then Internal
      else if value = 2 then Restricted
      else if value = 3 then Confidential
      else if value = 4 then Secret
      else if value = 5 then TopSecret
      else Unclassified)"

definition clearance_from_str :: "string \<Rightarrow> clearance" where
  "clearance_from_str value =
     (let v = ascii_upper value in
      if v = ''UNCLASSIFIED'' then Unclassified
      else if v = ''INTERNAL'' then Internal
      else if v = ''RESTRICTED'' then Restricted
      else if v = ''CONFIDENTIAL'' then Confidential
      else if v = ''SECRET'' then Secret
      else if v = ''TOPSECRET'' \<or> v = ''TOP_SECRET'' then TopSecret
      else Unclassified)"

primrec clearance_as_str :: "clearance \<Rightarrow> string" where
  "clearance_as_str Unclassified = ''unclassified''"
| "clearance_as_str Internal = ''internal''"
| "clearance_as_str Restricted = ''restricted''"
| "clearance_as_str Confidential = ''confidential''"
| "clearance_as_str Secret = ''secret''"
| "clearance_as_str TopSecret = ''top_secret''"

definition clearance_parse :: "string \<Rightarrow> clearance" where
  "clearance_parse s =
     (let v = ascii_lower s in
      if v = ''unclassified'' then Unclassified
      else if v = ''internal'' then Internal
      else if v = ''restricted'' then Restricted
      else if v = ''confidential'' then Confidential
      else if v = ''secret'' then Secret
      else TopSecret)"

section \<open>Access rules\<close>

datatype user_role = Admin | User | Readonly

definition can_access :: "clearance \<Rightarrow> clearance \<Rightarrow> bool" where
  "can_access requester doc = (requester \<ge> doc)"

definition check_write_clearance :: "clearance \<Rightarrow> clearance \<Rightarrow> (unit, string) result" where
  "check_write_clearance effective ceil =
     (if effective > ceil then Err ''Memory clearance exceeds caller clearance'' else Ok ())"

primrec role_clearance :: "user_role \<Rightarrow> clearance" where
  "role_clearance Admin = TopSecret"
| "role_clearance User = Confidential"
| "role_clearance Readonly = Internal"

definition parse_known_level :: "string \<Rightarrow> clearance option" where
  "parse_known_level raw =
     (let v = ascii_upper (trim raw) in
      if v = ''UNCLASSIFIED'' then Some Unclassified
      else if v = ''INTERNAL'' then Some Internal
      else if v = ''RESTRICTED'' then Some Restricted
      else if v = ''CONFIDENTIAL'' then Some Confidential
      else if v = ''SECRET'' then Some Secret
      else if v = ''TOPSECRET'' \<or> v = ''TOP_SECRET'' then Some TopSecret
      else None)"

definition parse_requester_level :: "string \<Rightarrow> clearance" where
  "parse_requester_level raw =
     (case parse_known_level raw of Some l \<Rightarrow> l | None \<Rightarrow> Unclassified)"

definition parse_required_level :: "string \<Rightarrow> clearance" where
  "parse_required_level raw =
     (case parse_known_level raw of Some l \<Rightarrow> l | None \<Rightarrow> TopSecret)"

text \<open>\<open>env\<close> is \<open>std::env::var\<close>.\<close>

definition default_clearance :: "(string \<Rightarrow> string option) \<Rightarrow> clearance" where
  "default_clearance env =
     (case env ''XAVIER_DEFAULT_CLEARANCE'' of
        Some v \<Rightarrow> parse_required_level v
      | None \<Rightarrow> Internal)"

definition can_access_clearance :: "user_role \<Rightarrow> clearance \<Rightarrow> bool" where
  "can_access_clearance role required_level = (role_clearance role \<ge> required_level)"

definition redact_if_needed :: "clearance \<Rightarrow> clearance \<Rightarrow> string \<Rightarrow> string" where
  "redact_if_needed requester doc_level content =
     (if can_access requester doc_level then content
      else ''[REDACTED: requires '' @ ascii_upper (clearance_as_str doc_level) @ '']'')"

definition filter_by_clearance ::
  "clearance \<Rightarrow> (string \<times> clearance \<times> string) list \<Rightarrow> (string \<times> clearance \<times> string) list" where
  "filter_by_clearance requester docs = filter (\<lambda>(_, lvl, _). can_access requester lvl) docs"

definition ALL_LEVELS :: "clearance list" where
  "ALL_LEVELS = [Unclassified, Internal, Restricted, Confidential, Secret, TopSecret]"

definition readable_levels :: "clearance \<Rightarrow> clearance list" where
  "readable_levels requester = filter (\<lambda>level. can_access requester level) ALL_LEVELS"

definition level_from_metadata :: "(string \<Rightarrow> string option) \<Rightarrow> json \<Rightarrow> clearance" where
  "level_from_metadata env metadata =
     (case Option.bind (json_get metadata ''clearance'') json_as_str of
        Some s \<Rightarrow> parse_required_level s
      | None \<Rightarrow> default_clearance env)"

definition intersect_clearance_filter :: "clearance list option \<Rightarrow> clearance \<Rightarrow> clearance list" where
  "intersect_clearance_filter requested requester =
     (let allowed = readable_levels requester in
      case requested of
        None \<Rightarrow> allowed
      | Some levels \<Rightarrow> remdups_adj (sort (filter (\<lambda>level. level \<in> set allowed) levels)))"

definition split_by_clearance :: "clearance \<Rightarrow> 'a list \<Rightarrow> ('a \<Rightarrow> clearance) \<Rightarrow> 'a list \<times> nat" where
  "split_by_clearance requester items level_of =
     foldl (\<lambda>(visible, hidden) item.
              if can_access requester (level_of item) then (visible @ [item], hidden)
              else (visible, hidden + 1))
       ([], 0) items"

record clearance_enforcer =
  requester_level :: clearance

definition enforcer_from_role :: "user_role \<Rightarrow> clearance_enforcer" where
  "enforcer_from_role role = \<lparr> requester_level = role_clearance role \<rparr>"

definition enforcer_can_read :: "clearance_enforcer \<Rightarrow> clearance \<Rightarrow> bool" where
  "enforcer_can_read e doc_level = can_access (requester_level e) doc_level"

definition enforcer_redact :: "clearance_enforcer \<Rightarrow> clearance \<Rightarrow> string \<Rightarrow> string" where
  "enforcer_redact e doc_level content = redact_if_needed (requester_level e) doc_level content"

section \<open>Lemmas\<close>

lemma clearance_le_TopSecret [simp]: "l \<le> TopSecret"
  by (cases l) (simp_all add: less_eq_clearance_def word_le_nat_alt)

lemma Unclassified_le [simp]: "Unclassified \<le> l"
  by (cases l) (simp_all add: less_eq_clearance_def word_le_nat_alt)

lemma le_Unclassified_iff [simp]: "l \<le> Unclassified \<longleftrightarrow> l = Unclassified"
  by (simp add: eq_iff)

lemma set_ALL_LEVELS [simp]: "set ALL_LEVELS = UNIV"
  unfolding ALL_LEVELS_def by (auto intro: clearance.exhaust)

lemma set_readable_levels [simp]: "set (readable_levels r) = {l. l \<le> r}"
  by (auto simp: readable_levels_def can_access_def)

lemma sorted_ALL_LEVELS: "sorted ALL_LEVELS \<and> distinct ALL_LEVELS"
  by (simp add: ALL_LEVELS_def less_eq_clearance_def word_le_nat_alt)

lemma sorted_remdups_adj_distinct:
  fixes xs :: "'a::linorder list"
  shows "sorted xs \<Longrightarrow> distinct (remdups_adj xs)"
  by (induction xs rule: remdups_adj.induct) (auto simp: less_le_not_le)

lemma split_by_clearance_acc:
  "foldl (\<lambda>(visible, hidden) item.
            if can_access r (f item) then (visible @ [item], hidden) else (visible, hidden + 1))
     (vs, n) items =
   (vs @ filter (\<lambda>i. can_access r (f i)) items, n + length (filter (\<lambda>i. \<not> can_access r (f i)) items))"
  by (induction items arbitrary: vs n) auto

lemma split_by_clearance_eq:
  "split_by_clearance r items f =
     (filter (\<lambda>i. can_access r (f i)) items, length (filter (\<lambda>i. \<not> can_access r (f i)) items))"
  by (simp add: split_by_clearance_def split_by_clearance_acc)

lemma can_access_trans: "can_access a b \<Longrightarrow> can_access b c \<Longrightarrow> can_access a c"
  by (simp add: can_access_def)

section \<open>Properties\<close>

text \<open>Text that names no level never grants anything: as the level of a requester it reads
  unclassified documents only, as the level required by a policy or by metadata it is readable by
  \<open>TopSecret\<close> only; text that names a level means that level on both sides.\<close>

theorem unknown_level_fails_closed:
  "can_access (parse_requester_level raw) d =
     (case parse_known_level raw of Some l \<Rightarrow> d \<le> l | None \<Rightarrow> d = Unclassified)
   \<and> can_access r (parse_required_level raw) =
     (case parse_known_level raw of Some l \<Rightarrow> l \<le> r | None \<Rightarrow> r = TopSecret)
   \<and> can_access (parse_requester_level raw) (parse_required_level raw) = (parse_known_level raw \<noteq> None)"
  by (auto simp: can_access_def parse_requester_level_def parse_required_level_def antisym split: option.split)

text \<open>The textual and numeric encodings of a level are read back as that level by every parser
  of the code base.\<close>

theorem clearance_encoding_roundtrip:
  "clearance_from_u8 (clearance_to_u8 l) = l
   \<and> clearance_from_str (clearance_as_str l) = l
   \<and> clearance_parse (clearance_as_str l) = l
   \<and> parse_known_level (clearance_as_str l) = Some l
   \<and> parse_known_level (ascii_upper (clearance_as_str l)) = Some l"
  by (cases l; hypsubst; code_simp)

text \<open>A client's clearance filter can only narrow what the requester may read: the result is the
  requested levels at or below the requester's, each once and in ascending order, and without a request
  it is everything readable; a batch filtered with it and one split by level agree, and the split loses
  no item.\<close>

theorem clearance_filters_never_elevate:
  "set (intersect_clearance_filter (Some levels) r) = {l. l \<in> set levels \<and> l \<le> r}
   \<and> sorted (intersect_clearance_filter (Some levels) r)
   \<and> distinct (intersect_clearance_filter (Some levels) r)
   \<and> intersect_clearance_filter None r = readable_levels r
   \<and> fst (split_by_clearance r items level_of) =
       filter (\<lambda>i. level_of i \<in> set (intersect_clearance_filter None r)) items
   \<and> length (fst (split_by_clearance r items level_of)) + snd (split_by_clearance r items level_of)
       = length items"
  by (auto simp: intersect_clearance_filter_def split_by_clearance_eq can_access_def Let_def
      length_filter_add_not intro: sorted_remdups_adj_distinct sorted_remdups_adj)

end
