(* ===== verification/RoleAcl.thy ===== *)
theory RoleAcl
  imports Prelude
begin

text \<open>Role based access control: the role hierarchy with its cycle check and its reachability search
  (\<open>src/src/security/acl/hierarchy.rs\<close>) and the permission manager, the document levels and the
  group manager (\<open>src/src/security/acl/mod.rs\<close>). A \<open>HashSet\<close> that the code iterates over is a list
  without repetitions.\<close>

section \<open>Roles and the hierarchy\<close>

datatype acl_role = AclAdmin | Colaborador | Viewer

instantiation acl_role :: finite
begin

instance
proof
  have "(UNIV :: acl_role set) = {AclAdmin, Colaborador, Viewer}"
    by (auto intro: acl_role.exhaust)
  then show "finite (UNIV :: acl_role set)" by (metis finite.emptyI finite.insertI)
qed

end

primrec acl_role_display :: "acl_role \<Rightarrow> string" where
  "acl_role_display AclAdmin = ''admin''"
| "acl_role_display Colaborador = ''colaborador''"
| "acl_role_display Viewer = ''viewer''"

type_synonym role_relations = "(acl_role, acl_role list) hmap"

record role_hierarchy =
  relations :: role_relations

definition parents_of :: "role_relations \<Rightarrow> acl_role \<Rightarrow> acl_role list" where
  "parents_of rel n = (case hget rel n of None \<Rightarrow> [] | Some ps \<Rightarrow> ps)"

text \<open>\<open>entry(child).or_default().insert(parent)\<close>.\<close>

definition insert_relation :: "acl_role \<Rightarrow> acl_role \<Rightarrow> role_relations \<Rightarrow> role_relations" where
  "insert_relation child parent rel = hput child (List.insert parent (parents_of rel child)) rel"

text \<open>The depth first search of \<open>cycle_dfs\<close>; it threads the two mutable sets and stops at the first
  node found on the recursion stack.\<close>

function (sequential) cycle_dfs ::
    "role_relations \<Rightarrow> acl_role \<Rightarrow> acl_role set \<Rightarrow> acl_role set \<Rightarrow> bool \<times> acl_role set \<times> acl_role set"
  and cycle_dfs_parents ::
    "role_relations \<Rightarrow> acl_role list \<Rightarrow> acl_role set \<Rightarrow> acl_role set \<Rightarrow> bool \<times> acl_role set \<times> acl_role set"
where
  "cycle_dfs rel node visited rec_stack =
     (if node \<in> rec_stack then (True, visited, rec_stack)
      else if node \<in> visited then (False, visited, rec_stack)
      else (case cycle_dfs_parents rel (parents_of rel node) (insert node visited) (insert node rec_stack) of
              (True, v, r) \<Rightarrow> (True, v, r)
            | (False, v, r) \<Rightarrow> (False, v, r - {node})))"
| "cycle_dfs_parents rel [] visited rec_stack = (False, visited, rec_stack)"
| "cycle_dfs_parents rel (p # ps) visited rec_stack =
     (case cycle_dfs rel p visited rec_stack of
        (True, v, r) \<Rightarrow> (True, v, r)
      | (False, v, r) \<Rightarrow> cycle_dfs_parents rel ps v r)"
  by pat_completeness auto

lemma cycle_dfs_visited_grows:
  "cycle_dfs_cycle_dfs_parents_dom (Inl (rel, n, V, R)) \<Longrightarrow> V \<subseteq> fst (snd (cycle_dfs rel n V R))"
  "cycle_dfs_cycle_dfs_parents_dom (Inr (rel, ps, V, R)) \<Longrightarrow> V \<subseteq> fst (snd (cycle_dfs_parents rel ps V R))"
  by (induction rel n V R and rel ps V R rule: cycle_dfs_cycle_dfs_parents.pinduct)
    (force simp: cycle_dfs.psimps cycle_dfs_parents.psimps split: prod.splits bool.splits if_splits)+

termination cycle_dfs
proof (relation "inv_image (less_than <*lex*> less_than)
    (\<lambda>x. case x of Inl (rel, n, V, R) \<Rightarrow> (card (- V), 0)
                 | Inr (rel, ps, V, R) \<Rightarrow> (card (- V), Suc (length ps)))", goal_cases)
  case (2 rel node visited rec_stack)
  then have "card (- insert node visited) < card (- visited)"
    by (intro psubset_card_mono) auto
  then show ?case by simp
next
  case (4 rel p ps V R t x v' r')
  then have "V \<subseteq> v'"
    using cycle_dfs_visited_grows(1) [of rel p V R] by (metis fst_conv snd_conv)
  then have "card (- v') \<le> card (- V)" by (intro card_mono) auto
  then show ?case by auto
qed auto

declare cycle_dfs.simps [simp del]

definition has_cycle :: "role_relations \<Rightarrow> bool" where
  "has_cycle rel = list_ex (\<lambda>start. fst (cycle_dfs rel start {} {})) [AclAdmin, Colaborador, Viewer]"

definition add_relation :: "role_hierarchy \<Rightarrow> acl_role \<Rightarrow> acl_role \<Rightarrow> (unit, string) result \<times> role_hierarchy" where
  "add_relation h child parent =
     (if child = parent then (Err ''Cannot inherit from self'', h)
      else
        let test_relations = insert_relation child parent (relations h) in
        if has_cycle test_relations then (Err ''Cycle detected in role hierarchy'', h)
        else (Ok (), h\<lparr> relations := test_relations \<rparr>))"

definition role_hierarchy_new :: role_hierarchy where
  "role_hierarchy_new =
     (let h0 = \<lparr> relations = [] \<rparr>;
          h1 = snd (add_relation h0 AclAdmin Colaborador);
          h2 = snd (add_relation h1 Colaborador Viewer) in h2)"

text \<open>The work list of \<open>inherits\<close>; the head of the list is the top of the stack, so pushing the
  parents one by one puts them in reverse order.\<close>

function inherits_loop ::
  "role_relations \<Rightarrow> acl_role \<Rightarrow> acl_role list \<Rightarrow> acl_role set \<Rightarrow> bool"
where
  "inherits_loop rel parent [] visited = False"
| "inherits_loop rel parent (current # stack) visited =
     (if current = parent then True
      else if current \<in> visited then inherits_loop rel parent stack visited
      else inherits_loop rel parent (rev (parents_of rel current) @ stack) (insert current visited))"
  by pat_completeness auto

termination
proof (relation "inv_image (less_than <*lex*> less_than)
    (\<lambda>(rel, parent, stack, V). (card (- V), length stack))", goal_cases)
  case (3 rel parent current stack visited)
  then have "card (- insert current visited) < card (- visited)"
    by (intro psubset_card_mono) auto
  then show ?case by simp
qed auto

definition inherits :: "role_hierarchy \<Rightarrow> acl_role \<Rightarrow> acl_role \<Rightarrow> bool" where
  "inherits h child parent =
     (if child = parent then True else inherits_loop (relations h) parent [child] {})"

section \<open>The searches decide reachability and acyclicity\<close>

definition role_edges :: "role_relations \<Rightarrow> (acl_role \<times> acl_role) set" where
  "role_edges rel = {(c, p). p \<in> set (parents_of rel c)}"

lemma parents_of_insert_relation:
  "set (parents_of (insert_relation c p rel) r) =
     (if r = c then insert p (set (parents_of rel c)) else set (parents_of rel r))"
  by (cases "hget rel c") (auto simp: insert_relation_def parents_of_def)

lemma role_edges_insert: "role_edges (insert_relation c p rel) = insert (c, p) (role_edges rel)"
  by (auto simp: role_edges_def parents_of_insert_relation split: if_splits)

lemma leaves_closed_set:
  assumes "(x, t) \<in> r\<^sup>*" and "x \<in> V" and "t \<notin> V" and "\<And>a b. a \<in> V \<Longrightarrow> (a, b) \<in> r \<Longrightarrow> b \<in> V \<or> b \<in> S"
  shows "\<exists>s\<in>S. (s, t) \<in> r\<^sup>*"
  using assms(1,2)
proof (induction rule: converse_rtrancl_induct)
  case base
  then show ?case using assms(3) by simp
next
  case (step y z)
  show ?case
  proof (cases "z \<in> V")
    case True
    then show ?thesis by (rule step.IH)
  next
    case False
    then have "z \<in> S" using assms(4) step.hyps(1) step.prems by blast
    then show ?thesis using step.hyps(2) by blast
  qed
qed

lemma inherits_loop_iff:
  assumes "parent \<notin> V" and "\<And>a b. a \<in> V \<Longrightarrow> (a, b) \<in> role_edges rel \<Longrightarrow> b \<in> V \<or> b \<in> set stack"
  shows "inherits_loop rel parent stack V \<longleftrightarrow> (\<exists>s\<in>set stack. (s, parent) \<in> (role_edges rel)\<^sup>*)"
  using assms
proof (induction rel parent stack V rule: inherits_loop.induct)
  case (2 rel parent current stack visited)
  let ?E = "role_edges rel"
  consider "current = parent" | "current \<noteq> parent" "current \<in> visited"
    | "current \<noteq> parent" "current \<notin> visited" by blast
  then show ?case
  proof cases
    case 2
    have "(current, parent) \<in> ?E\<^sup>* \<Longrightarrow> \<exists>s\<in>set stack. (s, parent) \<in> ?E\<^sup>*"
      by (rule leaves_closed_set [of _ _ _ visited])
        (use 2 \<open>parent \<notin> visited\<close> "2.prems"(2) in auto)
    moreover have "inherits_loop rel parent stack visited \<longleftrightarrow> (\<exists>s\<in>set stack. (s, parent) \<in> ?E\<^sup>*)"
      using 2 by (intro "2.IH"(1)) (use "2.prems" in auto)
    ultimately show ?thesis using 2 by auto
  next
    case 3
    have "(current, parent) \<in> ?E\<^sup>* \<longleftrightarrow> (\<exists>s\<in>set (parents_of rel current). (s, parent) \<in> ?E\<^sup>*)"
      using 3(1) by (auto simp: role_edges_def elim: converse_rtranclE intro: converse_rtrancl_into_rtrancl)
    moreover have "inherits_loop rel parent (rev (parents_of rel current) @ stack) (insert current visited)
        \<longleftrightarrow> (\<exists>s\<in>set (rev (parents_of rel current) @ stack). (s, parent) \<in> ?E\<^sup>*)"
      using 3 by (intro "2.IH"(2)) (use "2.prems" in \<open>auto simp: role_edges_def\<close>)
    ultimately show ?thesis using 3 by auto
  qed simp
qed simp

lemma inherits_iff: "inherits h c p \<longleftrightarrow> (c, p) \<in> (role_edges (relations h))\<^sup>*"
  using inherits_loop_iff [of p "{}" "relations h" "[c]"]
  by (auto simp: inherits_def simp del: inherits_loop.simps)

text \<open>A set of finished nodes is closed under edges and carries no cycle.\<close>

definition finished :: "role_relations \<Rightarrow> acl_role set \<Rightarrow> bool" where
  "finished rel F \<longleftrightarrow> (\<forall>a b. a \<in> F \<longrightarrow> (a, b) \<in> role_edges rel \<longrightarrow> b \<in> F)
     \<and> (\<forall>a. a \<in> F \<longrightarrow> (a, a) \<notin> (role_edges rel)\<^sup>+)"

lemma finished_trancl: "(a, b) \<in> (role_edges rel)\<^sup>+ \<Longrightarrow> finished rel F \<Longrightarrow> a \<in> F \<Longrightarrow> b \<in> F"
  by (induction rule: trancl_induct) (auto simp: finished_def)

lemma finished_insert:
  assumes "finished rel F" and "n \<notin> F" and "set (parents_of rel n) \<subseteq> F"
  shows "finished rel (insert n F)"
proof -
  have "(n, n) \<notin> (role_edges rel)\<^sup>+"
  proof
    assume "(n, n) \<in> (role_edges rel)\<^sup>+"
    then obtain m where "(n, m) \<in> role_edges rel" "(m, n) \<in> (role_edges rel)\<^sup>*"
      by (blast dest: tranclD)
    then have "m \<in> F" using assms(3) by (auto simp: role_edges_def)
    with \<open>(m, n) \<in> _\<close> have "n \<in> F"
      using assms(1) finished_trancl by (metis rtranclD)
    with assms(2) show False by simp
  qed
  then show ?thesis using assms unfolding finished_def by (auto simp: role_edges_def)
qed

text \<open>What a search that finds nothing leaves behind.\<close>

definition clean_search ::
  "role_relations \<Rightarrow> acl_role list \<Rightarrow> acl_role set \<Rightarrow> acl_role set \<Rightarrow> bool \<times> acl_role set \<times> acl_role set \<Rightarrow> bool"
where
  "clean_search rel ns V R out \<longleftrightarrow>
     (case out of (found, V', R') \<Rightarrow> \<not> found \<longrightarrow> R \<subseteq> V \<longrightarrow> finished rel (V - R) \<longrightarrow>
        R' = R \<and> V \<subseteq> V' \<and> set ns \<subseteq> V' - R \<and> finished rel (V' - R))"

lemma cycle_dfs_clean:
  "clean_search rel [n] V R (cycle_dfs rel n V R)"
  "clean_search rel ps V R (cycle_dfs_parents rel ps V R)"
proof (induction rel n V R and rel ps V R rule: cycle_dfs_cycle_dfs_parents.induct)
  case (1 rel node V R)
  consider "node \<in> R \<or> node \<in> V" | "node \<notin> R" "node \<notin> V" by blast
  then show ?case
  proof cases
    case 2
    obtain f V' R' where out: "cycle_dfs_parents rel (parents_of rel node) (insert node V) (insert node R) = (f, V', R')"
      by (metis prod_cases3)
    have eq: "insert node V - insert node R = V - R" using 2 by auto
    have IH: "\<not> f \<Longrightarrow> R \<subseteq> V \<Longrightarrow> finished rel (V - R) \<Longrightarrow>
        R' = insert node R \<and> insert node V \<subseteq> V' \<and> set (parents_of rel node) \<subseteq> V' - insert node R
        \<and> finished rel (V' - insert node R)"
      using "1.IH" [OF 2] unfolding clean_search_def out eq by auto
    have "finished rel (V' - R)"
      if "\<not> f" "R \<subseteq> V" "finished rel (V - R)"
    proof -
      have "V' - R = insert node (V' - insert node R)" using IH [OF that] 2 by auto
      then show ?thesis using finished_insert [of rel "V' - insert node R" node] IH [OF that] by simp
    qed
    then show ?thesis using 2 out IH by (cases f) (auto simp: clean_search_def cycle_dfs.simps)
  qed (auto simp: clean_search_def cycle_dfs.simps)
next
  case (3 rel p ps V R)
  obtain f V' R' where out: "cycle_dfs rel p V R = (f, V', R')" by (metis prod_cases3)
  show ?case
  proof (cases f)
    case False
    obtain g V2 R2 where out2: "cycle_dfs_parents rel ps V' R' = (g, V2, R2)" by (metis prod_cases3)
    have IH1: "R \<subseteq> V \<Longrightarrow> finished rel (V - R) \<Longrightarrow>
        R' = R \<and> V \<subseteq> V' \<and> p \<in> V' - R \<and> finished rel (V' - R)"
      using "3.IH"(1) False unfolding clean_search_def out by auto
    have IH2: "\<not> g \<Longrightarrow> R' \<subseteq> V' \<Longrightarrow> finished rel (V' - R') \<Longrightarrow>
        R2 = R' \<and> V' \<subseteq> V2 \<and> set ps \<subseteq> V2 - R' \<and> finished rel (V2 - R')"
      using "3.IH"(2) [of f "(V', R')" V' R'] False out out2 unfolding clean_search_def by auto
    show ?thesis using IH1 IH2 out out2 False by (cases g) (auto simp: clean_search_def)
  qed (use out in \<open>auto simp: clean_search_def\<close>)
qed (simp add: clean_search_def)

text \<open>A search that reports a cycle has walked one: every node on the recursion stack reaches the
  node being visited.\<close>

definition on_path :: "role_relations \<Rightarrow> acl_role set \<Rightarrow> acl_role \<Rightarrow> bool" where
  "on_path rel R n \<longleftrightarrow> (\<forall>a. a \<in> R \<longrightarrow> (a, n) \<in> (role_edges rel)\<^sup>+)"

lemma on_path_parent:
  "on_path rel R n \<Longrightarrow> p \<in> set (parents_of rel n) \<Longrightarrow> on_path rel (insert n R) p"
  unfolding on_path_def by (auto simp: role_edges_def intro: trancl_into_trancl)

lemma cycle_dfs_stack_shrinks:
  "\<not> fst (cycle_dfs rel n V R) \<Longrightarrow> snd (snd (cycle_dfs rel n V R)) \<subseteq> R"
  "\<not> fst (cycle_dfs_parents rel ps V R) \<Longrightarrow> snd (snd (cycle_dfs_parents rel ps V R)) \<subseteq> R"
proof (induction rel n V R and rel ps V R rule: cycle_dfs_cycle_dfs_parents.induct)
  case (1 rel node V R)
  then show ?case by (auto simp: cycle_dfs.simps split: prod.splits bool.splits if_splits)
next
  case (3 rel p ps V R)
  obtain f V' R' where out: "cycle_dfs rel p V R = (f, V', R')" by (metis prod_cases3)
  then show ?case
    using 3 "3.IH"(2) [of f "(V', R')" V' R'] by (cases f) (auto split: prod.splits bool.splits)
qed simp

lemma cycle_dfs_sound:
  "fst (cycle_dfs rel n V R) \<Longrightarrow> on_path rel R n \<Longrightarrow> \<exists>a. (a, a) \<in> (role_edges rel)\<^sup>+"
  "fst (cycle_dfs_parents rel ps V R) \<Longrightarrow> \<forall>p\<in>set ps. on_path rel R p \<Longrightarrow> \<exists>a. (a, a) \<in> (role_edges rel)\<^sup>+"
proof (induction rel n V R and rel ps V R rule: cycle_dfs_cycle_dfs_parents.induct)
  case (1 rel node V R)
  show ?case
  proof (cases "node \<in> R")
    case True
    then show ?thesis using 1(3) unfolding on_path_def by auto
  next
    case False
    with "1.prems" have new: "node \<notin> V"
      and "fst (cycle_dfs_parents rel (parents_of rel node) (insert node V) (insert node R))"
      by (auto simp: cycle_dfs.simps split: if_splits prod.splits bool.splits)
    then show ?thesis using "1.IH" [OF False new] "1.prems"(2) by (simp add: on_path_parent)
  qed
next
  case (3 rel p ps V R)
  obtain f V' R' where out: "cycle_dfs rel p V R = (f, V', R')" by (metis prod_cases3)
  show ?case
  proof (cases f)
    case True
    then show ?thesis using 3 out by auto
  next
    case False
    have "\<forall>p\<in>set ps. on_path rel R' p"
    proof -
      have "R' \<subseteq> R" using cycle_dfs_stack_shrinks(1) [of rel p V R] out False by simp
      then show ?thesis using "3.prems"(2) unfolding on_path_def by auto
    qed
    then show ?thesis using "3.IH"(2) [of f "(V', R')" V' R'] "3.prems"(1) False out by auto
  qed
qed simp

lemma has_cycle_iff: "has_cycle rel \<longleftrightarrow> \<not> acyclic (role_edges rel)"
proof
  assume "has_cycle rel"
  then obtain s where "fst (cycle_dfs rel s {} {})" by (auto simp: has_cycle_def)
  then show "\<not> acyclic (role_edges rel)"
    using cycle_dfs_sound(1) [of rel s "{}" "{}"] by (auto simp: on_path_def acyclic_def)
next
  assume "\<not> acyclic (role_edges rel)"
  then obtain a where a: "(a, a) \<in> (role_edges rel)\<^sup>+" by (auto simp: acyclic_def)
  obtain f V' R' where out: "cycle_dfs rel a {} {} = (f, V', R')" by (metis prod_cases3)
  have f using cycle_dfs_clean(1) [of rel a "{}" "{}"] a out
    by (auto simp: clean_search_def finished_def)
  with out have "fst (cycle_dfs rel a {} {})" by simp
  moreover have "a \<in> set [AclAdmin, Colaborador, Viewer]" by (cases a) auto
  ultimately show "has_cycle rel" unfolding has_cycle_def list_ex_iff by blast
qed

section \<open>Permissions\<close>

datatype acl_permission = Read | Write | Delete | Manage

primrec acl_permission_display :: "acl_permission \<Rightarrow> string" where
  "acl_permission_display Read = ''read''"
| "acl_permission_display Write = ''write''"
| "acl_permission_display Delete = ''delete''"
| "acl_permission_display Manage = ''manage''"

record acl_manager =
  hierarchy :: role_hierarchy
  base_permissions :: "(acl_role, acl_permission list) hmap"

definition acl_manager_new :: acl_manager where
  "acl_manager_new =
     (let p0 = [];
          p1 = hput Viewer [Read] p0;
          p2 = hput Colaborador [Write] p1;
          p3 = hput AclAdmin (List.insert Manage (List.insert Delete [])) p2 in
      \<lparr> hierarchy = role_hierarchy_new, base_permissions = p3 \<rparr>)"

definition has_permission :: "acl_manager \<Rightarrow> acl_role \<Rightarrow> acl_permission \<Rightarrow> bool" where
  "has_permission m role permission =
     list_ex (\<lambda>(mapped_role, permissions).
                inherits (hierarchy m) role mapped_role \<and> permission \<in> set permissions)
       (base_permissions m)"

section \<open>Document levels\<close>

text \<open>The second \<open>ClearanceLevel\<close> of the code base, with five levels.\<close>

datatype doc_level = DocPublic | DocInternal | DocConfidential | DocSecret | DocTopSecret

primrec doc_level_rank :: "doc_level \<Rightarrow> nat" where
  "doc_level_rank DocPublic = 0"
| "doc_level_rank DocInternal = 1"
| "doc_level_rank DocConfidential = 2"
| "doc_level_rank DocSecret = 3"
| "doc_level_rank DocTopSecret = 4"

instantiation doc_level :: linorder
begin

definition less_eq_doc_level :: "doc_level \<Rightarrow> doc_level \<Rightarrow> bool" where
  "less_eq_doc_level a b = (doc_level_rank a \<le> doc_level_rank b)"

definition less_doc_level :: "doc_level \<Rightarrow> doc_level \<Rightarrow> bool" where
  "less_doc_level a b = (doc_level_rank a < doc_level_rank b)"

instance
proof
  fix a b :: doc_level
  show "a \<le> b \<Longrightarrow> b \<le> a \<Longrightarrow> a = b"
    by (cases a; cases b) (simp_all add: less_eq_doc_level_def)
qed (auto simp: less_eq_doc_level_def less_doc_level_def)

end

primrec doc_level_display :: "doc_level \<Rightarrow> string" where
  "doc_level_display DocPublic = ''public''"
| "doc_level_display DocInternal = ''internal''"
| "doc_level_display DocConfidential = ''confidential''"
| "doc_level_display DocSecret = ''secret''"
| "doc_level_display DocTopSecret = ''top_secret''"

definition doc_level_from_str :: "string \<Rightarrow> doc_level option" where
  "doc_level_from_str s =
     (let v = ascii_lower s in
      if v = ''public'' then Some DocPublic
      else if v = ''internal'' then Some DocInternal
      else if v = ''confidential'' then Some DocConfidential
      else if v = ''secret'' then Some DocSecret
      else if v = ''top_secret'' \<or> v = ''topsecret'' \<or> v = ''top secret'' then Some DocTopSecret
      else None)"

record clearance_manager =
  role_levels :: "(acl_role, doc_level) hmap"

definition clearance_manager_new :: clearance_manager where
  "clearance_manager_new =
     \<lparr> role_levels = hput AclAdmin DocTopSecret (hput Colaborador DocConfidential (hput Viewer DocPublic [])) \<rparr>"

definition set_clearance :: "clearance_manager \<Rightarrow> acl_role \<Rightarrow> doc_level \<Rightarrow> clearance_manager" where
  "set_clearance m role level = m\<lparr> role_levels := hput role level (role_levels m) \<rparr>"

definition get_clearance :: "clearance_manager \<Rightarrow> acl_role \<Rightarrow> doc_level" where
  "get_clearance m role = (case hget (role_levels m) role of Some l \<Rightarrow> l | None \<Rightarrow> DocPublic)"

definition role_can_access :: "clearance_manager \<Rightarrow> acl_role \<Rightarrow> doc_level \<Rightarrow> bool" where
  "role_can_access m role document_level = (get_clearance m role \<ge> document_level)"

section \<open>Groups of users\<close>

record acl_group =
  grp_name :: string
  grp_permissions :: "acl_permission list"
  grp_max_clearance :: doc_level

record group_manager =
  gm_groups :: "(string, acl_group) hmap"
  gm_memberships :: "(string, string list) hmap"

definition group_manager_new :: group_manager where
  "group_manager_new = \<lparr> gm_groups = [], gm_memberships = [] \<rparr>"

definition create_group ::
  "group_manager \<Rightarrow> string \<Rightarrow> acl_permission list \<Rightarrow> doc_level \<Rightarrow> group_manager" where
  "create_group m name permissions max_clearance =
     m\<lparr> gm_groups := hput name \<lparr> grp_name = name, grp_permissions = permissions,
                                 grp_max_clearance = max_clearance \<rparr> (gm_groups m) \<rparr>"

definition remove_group :: "group_manager \<Rightarrow> string \<Rightarrow> bool \<times> group_manager" where
  "remove_group m name = (hmem (gm_groups m) name, m\<lparr> gm_groups := hdel name (gm_groups m) \<rparr>)"

definition add_member :: "group_manager \<Rightarrow> string \<Rightarrow> string \<Rightarrow> bool \<times> group_manager" where
  "add_member m user_id group_name =
     (if \<not> hmem (gm_groups m) group_name then (False, m)
      else
        let gs = (case hget (gm_memberships m) user_id of Some gs \<Rightarrow> gs | None \<Rightarrow> []) in
        (True, m\<lparr> gm_memberships := hput user_id (List.insert group_name gs) (gm_memberships m) \<rparr>))"

definition remove_member :: "group_manager \<Rightarrow> string \<Rightarrow> string \<Rightarrow> bool \<times> group_manager" where
  "remove_member m user_id group_name =
     (case hget (gm_memberships m) user_id of
        Some gs \<Rightarrow> (group_name \<in> set gs,
                    m\<lparr> gm_memberships := hput user_id (removeAll group_name gs) (gm_memberships m) \<rparr>)
      | None \<Rightarrow> (False, m))"

definition user_groups :: "group_manager \<Rightarrow> string \<Rightarrow> string list" where
  "user_groups m user_id = (case hget (gm_memberships m) user_id of Some gs \<Rightarrow> gs | None \<Rightarrow> [])"

definition user_has_permission :: "group_manager \<Rightarrow> string \<Rightarrow> acl_permission \<Rightarrow> bool" where
  "user_has_permission m user_id permission =
     (case hget (gm_memberships m) user_id of
        Some groups \<Rightarrow>
          list_ex (\<lambda>gname. case hget (gm_groups m) gname of
                     Some g \<Rightarrow> permission \<in> set (grp_permissions g) | None \<Rightarrow> False) groups
      | None \<Rightarrow> False)"

text \<open>\<open>Iterator::max\<close> with the default \<open>Public\<close>.\<close>

definition max_level :: "doc_level list \<Rightarrow> doc_level" where
  "max_level ls = foldl max DocPublic ls"

definition user_max_clearance :: "group_manager \<Rightarrow> string \<Rightarrow> doc_level" where
  "user_max_clearance m user_id =
     (case hget (gm_memberships m) user_id of
        Some gs \<Rightarrow> max_level (map grp_max_clearance (List.map_filter (hget (gm_groups m)) gs))
      | None \<Rightarrow> DocPublic)"

definition user_can_access :: "group_manager \<Rightarrow> string \<Rightarrow> doc_level \<Rightarrow> bool" where
  "user_can_access m user_id document_level = (user_max_clearance m user_id \<ge> document_level)"

definition list_groups :: "group_manager \<Rightarrow> (string \<times> nat \<times> acl_permission list) list" where
  "list_groups m =
     map (\<lambda>g. (grp_name g,
               length (filter (\<lambda>gs. grp_name g \<in> set gs) (hvalues (gm_memberships m))),
               grp_permissions g))
       (hvalues (gm_groups m))"

lemmas group_ops_defs =
  create_group_def remove_group_def add_member_def remove_member_def user_groups_def

section \<open>Facts about the managers\<close>

definition hierarchy_ok :: "role_hierarchy \<Rightarrow> bool" where
  "hierarchy_ok h = acyclic (role_edges (relations h))"

lemma inherits_refl [simp]: "inherits h r r"
  by (simp add: inherits_def)

lemma inherits_trans: "inherits h a b \<Longrightarrow> inherits h b c \<Longrightarrow> inherits h a c"
  by (auto simp: inherits_iff)

lemma hierarchy_ok_empty [simp]: "hierarchy_ok \<lparr> relations = [] \<rparr>"
  by (simp add: hierarchy_ok_def role_edges_def parents_of_def acyclic_def)

lemma foldl_max_ge_iff:
  fixes d :: "'a::linorder"
  shows "d \<le> foldl max a ls \<longleftrightarrow> d \<le> a \<or> (\<exists>l\<in>set ls. d \<le> l)"
  by (induction ls arbitrary: a) (auto simp: le_max_iff_disj)

lemma DocPublic_le [simp]: "DocPublic \<le> l"
  by (simp add: less_eq_doc_level_def)

lemma le_DocPublic_iff [simp]: "l \<le> DocPublic \<longleftrightarrow> l = DocPublic"
  by (simp add: eq_iff)

lemma user_can_access_iff:
  "user_can_access m u d \<longleftrightarrow> d = DocPublic \<or>
     (\<exists>g grp. g \<in> set (user_groups m u) \<and> hget (gm_groups m) g = Some grp \<and> d \<le> grp_max_clearance grp)"
  by (force simp: user_can_access_def user_max_clearance_def user_groups_def max_level_def
      foldl_max_ge_iff List.map_filter_def split: option.split)

lemma user_has_permission_iff:
  "user_has_permission m u p \<longleftrightarrow>
     (\<exists>g grp. g \<in> set (user_groups m u) \<and> hget (gm_groups m) g = Some grp \<and> p \<in> set (grp_permissions grp))"
proof (cases "hget (gm_memberships m) u")
  case (Some gs)
  then show ?thesis
    by (auto simp: user_has_permission_def user_groups_def list_ex_iff split: option.splits)
       (metis option.distinct(1) option.inject)?
qed (simp add: user_has_permission_def user_groups_def)

lemma user_groups_create [simp]: "user_groups (create_group m g ps l) u = user_groups m u"
  by (simp add: group_ops_defs)

lemma user_groups_remove [simp]: "user_groups (snd (remove_group m g)) u = user_groups m u"
  by (simp add: group_ops_defs)

lemma user_groups_add_member:
  "set (user_groups (snd (add_member m u g)) v) =
     (if v = u \<and> hmem (gm_groups m) g then insert g (set (user_groups m u)) else set (user_groups m v))"
  by (auto simp: group_ops_defs Let_def split: option.splits)

lemma gm_groups_add_member [simp]: "gm_groups (snd (add_member m u g)) = gm_groups m"
  by (simp add: group_ops_defs Let_def)

lemma gm_groups_create [simp]:
  "hget (gm_groups (create_group m g ps l)) h =
     (if h = g then Some \<lparr> grp_name = g, grp_permissions = ps, grp_max_clearance = l \<rparr>
      else hget (gm_groups m) h)"
  by (simp add: group_ops_defs)

lemma gm_groups_remove [simp]:
  "hget (gm_groups (snd (remove_group m g))) h = (if h = g then None else hget (gm_groups m) h)"
  by (simp add: group_ops_defs)

section \<open>Properties\<close>

text \<open>C1: adding an inheritance edge to an acyclic hierarchy is refused exactly when the parent
  already inherits from the child, keeps the hierarchy acyclic in either case, and, when accepted,
  makes inheritance the reflexive transitive closure with that edge and nothing more.\<close>

theorem add_relation_spec:
  assumes "hierarchy_ok h"
  shows "hierarchy_ok (snd (add_relation h c p))
    \<and> (is_ok (fst (add_relation h c p)) \<longleftrightarrow> \<not> inherits h p c)
    \<and> (inherits (snd (add_relation h c p)) a b \<longleftrightarrow>
         inherits h a b \<or> (\<not> inherits h p c \<and> inherits h a c \<and> inherits h p b))"
  using assms
  by (auto simp: add_relation_def hierarchy_ok_def inherits_iff has_cycle_iff role_edges_insert
      acyclic_insert rtrancl_insert Let_def)

theorem add_relation_spec_witness:
  "hierarchy_ok role_hierarchy_new
   \<and> fst (add_relation role_hierarchy_new Viewer AclAdmin) = Err ''Cycle detected in role hierarchy''"
proof -
  have "hierarchy_ok (snd (add_relation \<lparr> relations = [] \<rparr> AclAdmin Colaborador))"
    using add_relation_spec [OF hierarchy_ok_empty, of AclAdmin Colaborador] by blast
  then have ok: "hierarchy_ok role_hierarchy_new"
    using add_relation_spec [of "snd (add_relation \<lparr> relations = [] \<rparr> AclAdmin Colaborador)" Colaborador Viewer]
    by (simp add: role_hierarchy_new_def Let_def)
  moreover have "fst (add_relation role_hierarchy_new Viewer AclAdmin) = Err ''Cycle detected in role hierarchy''"
    by code_simp
  ultimately show ?thesis by blast
qed

text \<open>With the hierarchy and the base permissions the code installs, a viewer may read, a
  colaborador may read and write, an admin may do everything.\<close>

theorem default_role_permissions:
  "has_permission acl_manager_new role perm =
     (case role of Viewer \<Rightarrow> perm = Read
      | Colaborador \<Rightarrow> perm = Read \<or> perm = Write
      | AclAdmin \<Rightarrow> True)"
  by (cases role; cases perm; hypsubst; code_simp)

text \<open>Deleting a group withdraws what it granted to its members, but its membership entries stay:
  a group created later under the same name grants its permissions and its clearance to every old
  member, who was never added to it.\<close>

theorem recreated_group_revives_members:
  assumes "fst (add_member m u g)" and "p \<in> set ps"
  shows "user_has_permission (create_group (snd (remove_group (snd (add_member m u g)) g)) g ps l) u p
    \<and> user_can_access (create_group (snd (remove_group (snd (add_member m u g)) g)) g ps l) u l
    \<and> (user_has_permission (snd (remove_group m g)) u q \<longrightarrow> user_has_permission m u q)"
proof -
  have "hmem (gm_groups m) g" using assms(1) by (simp add: add_member_def split: if_splits)
  then have g: "g \<in> set (user_groups (snd (add_member m u g)) u)" by (simp add: user_groups_add_member)
  then show ?thesis using assms(2)
    by (auto simp: user_has_permission_iff user_can_access_iff split: if_splits)
qed

theorem recreated_group_revives_members_witness:
  "user_has_permission
     (create_group (snd (remove_group (snd (add_member
        (create_group group_manager_new ''temp'' [Read] DocInternal) ''carol'' ''temp'')) ''temp''))
        ''temp'' [Manage] DocTopSecret) ''carol'' Manage"
  by (rule recreated_group_revives_members [THEN conjunct1]; code_simp)

end
