(* ===== verification/InfoGroups.thy ===== *)
theory InfoGroups
  imports Clearance
begin

text \<open>Information groups with an access list and an audit trail (\<open>src/src/security/groups.rs\<close>) and the
  laboratory segments of the memory (\<open>src/src/memory/segments.rs\<close>). The JSON file behind a registry is
  the field \<open>gr_storage\<close>; whether a write to it succeeds is the argument \<open>io\<close> of the operations that
  save, and the current time is an argument where the code reads the clock.\<close>

section \<open>State\<close>

definition LAB_SEGMENTS :: "(string \<times> string \<times> clearance) list" where
  "LAB_SEGMENTS =
     [(''seg-admin'', ''Administraci'' @ [CHR 0xC3, CHR 0xB3] @ ''n del laboratorio'', TopSecret),
      (''seg-research'', ''Investigaci'' @ [CHR 0xC3, CHR 0xB3] @ ''n'', Secret),
      (''seg-ops'', ''Operaciones'', Confidential),
      (''seg-legal'', ''Legal y cumplimiento'', Secret)]"

record group_acl =
  acl_read :: bool
  acl_write :: bool
  acl_audit :: bool

record info_group =
  group_id :: string
  group_name :: string
  members :: "string list"
  acl :: group_acl
  clearance_of :: clearance

record audit_entry =
  ae_timestamp :: string
  ae_group :: string
  ae_member :: string
  ae_action :: string
  ae_allowed :: bool

datatype storage_file = NoFile | BlankFile | GroupsFile "(string, info_group) hmap" | BadFile

record group_registry =
  gr_groups :: "(string, info_group) hmap"
  gr_storage :: storage_file
  gr_audit :: "audit_entry list"

section \<open>Operations\<close>

definition registry_load_from :: "storage_file \<Rightarrow> (group_registry, string) result" where
  "registry_load_from file =
     (case file of
        NoFile \<Rightarrow> Ok \<lparr> gr_groups = [], gr_storage = file, gr_audit = [] \<rparr>
      | BlankFile \<Rightarrow> Ok \<lparr> gr_groups = [], gr_storage = file, gr_audit = [] \<rparr>
      | GroupsFile gs \<Rightarrow> Ok \<lparr> gr_groups = gs, gr_storage = file, gr_audit = [] \<rparr>
      | BadFile \<Rightarrow> Err ''Failed to parse groups JSON storage'')"

definition registry_save :: "bool \<Rightarrow> group_registry \<Rightarrow> (unit, string) result \<times> group_registry" where
  "registry_save io r =
     (if io then (Ok (), r\<lparr> gr_storage := GroupsFile (gr_groups r) \<rparr>)
      else (Err ''Failed to write groups storage file'', r))"

definition member_ceiling :: "group_registry \<Rightarrow> string list \<Rightarrow> clearance option" where
  "member_ceiling r member_ids =
     iter_max (map clearance_of
       (filter (\<lambda>g. acl_read (acl g) \<and> list_ex (\<lambda>m. m \<in> set member_ids) (members g))
          (hvalues (gr_groups r))))"

definition lab_group :: "string \<Rightarrow> string \<Rightarrow> clearance \<Rightarrow> info_group" where
  "lab_group gid name level =
     \<lparr> group_id = gid, group_name = name, members = [],
       acl = \<lparr> acl_read = True, acl_write = False, acl_audit = True \<rparr>, clearance_of = level \<rparr>"

definition ensure_lab_segments :: "bool \<Rightarrow> group_registry \<Rightarrow> (string list, string) result \<times> group_registry" where
  "ensure_lab_segments io r =
     (let (created, gs) =
        foldl (\<lambda>(created, gs) (gid, name, level).
                 if hmem gs gid then (created, gs)
                 else (created @ [gid], hput gid (lab_group gid name level) gs))
          ([], gr_groups r) LAB_SEGMENTS;
        r' = r\<lparr> gr_groups := gs \<rparr> in
      if created \<noteq> [] then
        (case registry_save io r' of
           (Inl e, r'') \<Rightarrow> (Err e, r'')
         | (Inr _, r'') \<Rightarrow> (Ok created, r''))
      else (Ok created, r'))"

definition registry_create :: "bool \<Rightarrow> group_registry \<Rightarrow> info_group \<Rightarrow> (unit, string) result \<times> group_registry" where
  "registry_create io r g = registry_save io (r\<lparr> gr_groups := hput (group_id g) g (gr_groups r) \<rparr>)"

definition registry_join :: "bool \<Rightarrow> group_registry \<Rightarrow> string \<Rightarrow> string \<Rightarrow> (bool, string) result \<times> group_registry" where
  "registry_join io r gid member_id =
     (case hget (gr_groups r) gid of
        None \<Rightarrow> (Err (''Group with ID '' @ [CHR 0x27] @ gid @ [CHR 0x27] @ '' not found''), r)
      | Some g \<Rightarrow>
          if member_id \<notin> set (members g) then
            let r' = r\<lparr> gr_groups := hput gid (g\<lparr> members := members g @ [member_id] \<rparr>) (gr_groups r) \<rparr> in
            (case registry_save io r' of
               (Inl e, r'') \<Rightarrow> (Err e, r'')
             | (Inr _, r'') \<Rightarrow> (Ok True, r''))
          else (Ok False, r))"

definition get_group :: "group_registry \<Rightarrow> string \<Rightarrow> info_group option" where
  "get_group r gid = hget (gr_groups r) gid"

definition registry_remove_group :: "bool \<Rightarrow> group_registry \<Rightarrow> string \<Rightarrow> (bool, string) result \<times> group_registry" where
  "registry_remove_group io r gid =
     (if hmem (gr_groups r) gid then
        (case registry_save io (r\<lparr> gr_groups := hdel gid (gr_groups r) \<rparr>) of
           (Inl e, r'') \<Rightarrow> (Err e, r'')
         | (Inr _, r'') \<Rightarrow> (Ok True, r''))
      else (Ok False, r))"

definition check_access :: "group_registry \<Rightarrow> string \<Rightarrow> string \<Rightarrow> string \<Rightarrow> bool" where
  "check_access r gid member_id action =
     (case hget (gr_groups r) gid of
        None \<Rightarrow> False
      | Some g \<Rightarrow>
          if member_id \<notin> set (members g) then False
          else (let a = ascii_lower action in
                if a = ''read'' then acl_read (acl g)
                else if a = ''write'' then acl_write (acl g)
                else if a = ''audit'' then acl_audit (acl g)
                else False))"

definition check_access_audited ::
  "string \<Rightarrow> group_registry \<Rightarrow> string \<Rightarrow> string \<Rightarrow> string \<Rightarrow> bool \<times> group_registry" where
  "check_access_audited now r gid member_id action =
     (let allowed = check_access r gid member_id action in
      (allowed, r\<lparr> gr_audit := gr_audit r @ [\<lparr> ae_timestamp = now, ae_group = gid, ae_member = member_id,
                                             ae_action = action, ae_allowed = allowed \<rparr>] \<rparr>))"

definition was_bypass_attempt :: "group_registry \<Rightarrow> string \<Rightarrow> string \<Rightarrow> bool" where
  "was_bypass_attempt r gid member_id =
     list_ex (\<lambda>e. ae_group e = gid \<and> ae_member e = member_id \<and> \<not> ae_allowed e) (gr_audit r)"

section \<open>Segments\<close>

definition segment_entry :: "string \<Rightarrow> (string \<times> string \<times> clearance) option" where
  "segment_entry path =
     (case (case strip_prefix path ''segments/'' of Some rest \<Rightarrow> Some rest
            | None \<Rightarrow> strip_prefix path ''/segments/'') of
        None \<Rightarrow> None
      | Some rest \<Rightarrow> find (\<lambda>(segment_id, _, _). segment_id = first_piece (CHR ''/'') rest) LAB_SEGMENTS)"

definition segment_level_from_path :: "string \<Rightarrow> clearance option" where
  "segment_level_from_path path = map_option (\<lambda>(_, _, level). level) (segment_entry path)"

definition segment_for_path :: "string \<Rightarrow> string option" where
  "segment_for_path path = map_option (\<lambda>(segment_id, _, _). segment_id) (segment_entry path)"

definition known_segment :: "string \<Rightarrow> bool" where
  "known_segment segment_id = list_ex (\<lambda>(sid, _, _). sid = segment_id) LAB_SEGMENTS"

text \<open>A slug without separators is a single path component; on Unix it is normal unless it is a dot.\<close>

definition document_path :: "string \<Rightarrow> string \<Rightarrow> (string, string) result" where
  "document_path segment_id slug =
     (if \<not> known_segment segment_id then Err (''Unknown segment ID: '' @ segment_id)
      else let trimmed = trim slug in
        if trimmed = [] then Err ''Slug cannot be empty''
        else if CHR ''/'' \<in> set trimmed \<or> CHR 0x5C \<in> set trimmed then
          Err ''Slug cannot contain directory separators''
        else if contains_str trimmed ''..'' then Err ''Path traversal attempt detected in slug''
        else if trimmed = ''.'' then Err ''Invalid path component in slug''
        else Ok (''segments/'' @ segment_id @ ''/'' @ trimmed))"

definition segment_list ::
  "('r \<Rightarrow> string) \<Rightarrow> ('r \<Rightarrow> json) \<Rightarrow> 'r list \<Rightarrow> string \<Rightarrow> nat \<Rightarrow> (json list, string) result" where
  "segment_list path_of to_value all_records segment_id limit =
     (if \<not> known_segment segment_id then Err (''Unknown segment ID: '' @ segment_id)
      else
        let matching = filter (\<lambda>rec. segment_for_path (path_of rec) = Some segment_id) all_records in
        Ok (map to_value (if limit = 0 then matching else take limit matching)))"

section \<open>Lemmas\<close>

lemmas registry_defs =
  registry_save_def registry_create_def registry_join_def registry_remove_group_def

lemma known_segment_iff: "known_segment s \<longleftrightarrow> s \<in> fst ` set LAB_SEGMENTS"
  by (force simp: known_segment_def list_ex_iff)

lemma first_piece_append: "c \<notin> set p \<Longrightarrow> first_piece c (p @ c # rest) = p"
  unfolding first_piece_def by (induction p) auto

lemma find_eq_map_of: "map_option snd (find (\<lambda>(a, _). a = k) xs) = map_of xs k"
  by (induction xs) auto

lemma find_fst_eq: "list_ex (\<lambda>(a, _). a = k) xs \<Longrightarrow> map_option fst (find (\<lambda>(a, _). a = k) xs) = Some k"
  by (induction xs) auto

lemma lab_ids_plain: "s \<in> fst ` set LAB_SEGMENTS \<Longrightarrow> CHR ''/'' \<notin> set s"
  by (auto simp: LAB_SEGMENTS_def)

lemma segment_entry_document:
  assumes "s \<in> fst ` set LAB_SEGMENTS"
  shows "segment_entry (''segments/'' @ s @ CHR ''/'' # rest) = find (\<lambda>(a, _). a = s) LAB_SEGMENTS"
    and "segment_entry (CHR ''/'' # ''segments/'' @ s @ CHR ''/'' # rest) = find (\<lambda>(a, _). a = s) LAB_SEGMENTS"
proof -
  have *: "first_piece (CHR ''/'') (s @ CHR ''/'' # rest) = s"
    using lab_ids_plain [OF assms] by (rule first_piece_append)
  show "segment_entry (''segments/'' @ s @ CHR ''/'' # rest) = find (\<lambda>(a, _). a = s) LAB_SEGMENTS"
    unfolding segment_entry_def strip_prefix_append option.case * by (simp add: case_prod_unfold)
  have no: "strip_prefix (CHR ''/'' # ''segments/'' @ s @ CHR ''/'' # rest) ''segments/'' = None"
    by (simp add: strip_prefix_def starts_with_def)
  have yes: "strip_prefix (CHR ''/'' # ''segments/'' @ s @ CHR ''/'' # rest) ''/segments/''
      = Some (s @ CHR ''/'' # rest)"
    by (simp add: strip_prefix_def starts_with_def)
  show "segment_entry (CHR ''/'' # ''segments/'' @ s @ CHR ''/'' # rest) = find (\<lambda>(a, _). a = s) LAB_SEGMENTS"
    unfolding segment_entry_def no yes option.case * by (simp add: case_prod_unfold)
qed

abbreviation lab_step where
  "lab_step \<equiv> \<lambda>(created, gs) (gid, name, level).
     if hmem gs gid then (created, gs) else (created @ [gid], hput gid (lab_group gid name level) gs)"

lemma lab_fold:
  assumes "distinct (map fst L)" and "foldl lab_step (c, gs) L = (c', gs')"
  shows "c' = c @ filter (\<lambda>gid. \<not> hmem gs gid) (map fst L)
    \<and> (\<forall>k. hget gs' k = (case hget gs k of Some g \<Rightarrow> Some g
                         | None \<Rightarrow> map_option (\<lambda>(name, level). lab_group k name level) (map_of L k)))"
  using assms
proof (induction L arbitrary: c gs)
  case (Cons x L)
  obtain gid name level where x: "x = (gid, name, level)" by (metis prod_cases3)
  have dist: "distinct (map fst L)" "gid \<notin> fst ` set L" using Cons.prems(1) x by auto
  show ?case
  proof (cases "hmem gs gid")
    case True
    then have "foldl lab_step (c, gs) L = (c', gs')" using Cons.prems(2) x by simp
    then show ?thesis using Cons.IH [OF dist(1)] x True by (auto simp: hmem_def split: option.split)
  next
    case False
    let ?gs = "hput gid (lab_group gid name level) gs"
    have "foldl lab_step (c @ [gid], ?gs) L = (c', gs')" using Cons.prems(2) x False by simp
    note IH = Cons.IH [OF dist(1) this]
    have "filter (\<lambda>g. \<not> hmem ?gs g) (map fst L) = filter (\<lambda>g. \<not> hmem gs g) (map fst L)"
      using dist(2) by (intro filter_cong) auto
    then show ?thesis using IH x False by (auto simp: hmem_def split: option.split)
  qed
qed (auto split: option.split)

section \<open>Traces of registry operations\<close>

text \<open>Every operation that changes a registry, with the outcome of its write to the file.\<close>

datatype registry_op =
    RCreate bool info_group
  | RJoin bool string string
  | RRemove bool string
  | REnsure bool
  | RCheck string string string string

primrec registry_step :: "group_registry \<Rightarrow> registry_op \<Rightarrow> group_registry" where
  "registry_step r (RCreate io g) = snd (registry_create io r g)"
| "registry_step r (RJoin io gid m) = snd (registry_join io r gid m)"
| "registry_step r (RRemove io gid) = snd (registry_remove_group io r gid)"
| "registry_step r (REnsure io) = snd (ensure_lab_segments io r)"
| "registry_step r (RCheck now gid m a) = snd (check_access_audited now r gid m a)"

text \<open>The operations that make a member of a group.\<close>

primrec admits :: "string \<Rightarrow> string \<Rightarrow> registry_op \<Rightarrow> bool" where
  "admits gid m (RCreate io g) = (group_id g = gid \<and> m \<in> set (members g))"
| "admits gid m (RJoin io gid' m') = (gid' = gid \<and> m' = m)"
| "admits gid m (RRemove io gid') = False"
| "admits gid m (REnsure io) = False"
| "admits gid m (RCheck now gid' m' a) = False"

definition is_member :: "group_registry \<Rightarrow> string \<Rightarrow> string \<Rightarrow> bool" where
  "is_member r gid m = (case hget (gr_groups r) gid of None \<Rightarrow> False | Some g \<Rightarrow> m \<in> set (members g))"

lemma check_access_member: "check_access r gid m a \<Longrightarrow> is_member r gid m"
  by (auto simp: check_access_def is_member_def split: option.splits if_splits)

lemma gr_groups_save [simp]: "gr_groups (snd (registry_save io r)) = gr_groups r"
  by (simp add: registry_save_def)

lemma gr_audit_save [simp]: "gr_audit (snd (registry_save io r)) = gr_audit r"
  by (simp add: registry_save_def)

lemma ensure_lab_groups:
  "hget (gr_groups (snd (ensure_lab_segments io r))) k =
     (case hget (gr_groups r) k of Some g \<Rightarrow> Some g
      | None \<Rightarrow> map_option (\<lambda>(name, level). lab_group k name level) (map_of LAB_SEGMENTS k))"
  and ensure_lab_audit: "gr_audit (snd (ensure_lab_segments io r)) = gr_audit r"
  and ensure_lab_created: "fst (ensure_lab_segments io r) =
     (let missing = filter (\<lambda>gid. \<not> hmem (gr_groups r) gid) (map fst LAB_SEGMENTS) in
      if missing \<noteq> [] \<and> \<not> io then Err ''Failed to write groups storage file'' else Ok missing)"
proof -
  obtain c gs where fold: "foldl lab_step ([], gr_groups r) LAB_SEGMENTS = (c, gs)" by fastforce
  have "distinct (map fst LAB_SEGMENTS)" by code_simp
  note facts = lab_fold [OF this fold]
  have eq: "ensure_lab_segments io r =
      (if c \<noteq> [] then (case registry_save io (r\<lparr> gr_groups := gs \<rparr>) of
           (Inl e, r'') \<Rightarrow> (Err e, r'') | (Inr _, r'') \<Rightarrow> (Ok c, r''))
       else (Ok c, r\<lparr> gr_groups := gs \<rparr>))"
    by (simp add: ensure_lab_segments_def fold)
  show "hget (gr_groups (snd (ensure_lab_segments io r))) k =
     (case hget (gr_groups r) k of Some g \<Rightarrow> Some g
      | None \<Rightarrow> map_option (\<lambda>(name, level). lab_group k name level) (map_of LAB_SEGMENTS k))"
    using facts by (simp add: eq registry_save_def)
  show "gr_audit (snd (ensure_lab_segments io r)) = gr_audit r"
    by (simp add: eq registry_save_def)
  show "fst (ensure_lab_segments io r) =
     (let missing = filter (\<lambda>gid. \<not> hmem (gr_groups r) gid) (map fst LAB_SEGMENTS) in
      if missing \<noteq> [] \<and> \<not> io then Err ''Failed to write groups storage file'' else Ok missing)"
    using facts by (simp add: eq registry_save_def Let_def)
qed

lemma lab_group_members [simp]: "members (lab_group gid name level) = []"
  by (simp add: lab_group_def)

lemma step_member:
  "is_member (registry_step r oper) gid m \<Longrightarrow> is_member r gid m \<or> admits gid m oper"
  by (cases oper)
    (auto simp: is_member_def ensure_lab_groups registry_create_def registry_join_def
      registry_remove_group_def registry_save_def check_access_audited_def Let_def
      split: option.splits if_splits)

lemma trace_member:
  "is_member (foldl registry_step r ops) gid m \<Longrightarrow> is_member r gid m \<or> list_ex (admits gid m) ops"
  by (induction ops arbitrary: r) (auto dest: step_member)

primrec is_audited :: "registry_op \<Rightarrow> bool" where
  "is_audited (RCreate io g) = False"
| "is_audited (RJoin io gid m) = False"
| "is_audited (RRemove io gid) = False"
| "is_audited (REnsure io) = False"
| "is_audited (RCheck now gid m a) = True"

lemma step_audit:
  "\<exists>more. gr_audit (registry_step r oper) = gr_audit r @ more \<and> length more = length (filter is_audited [oper])"
  by (cases oper)
    (auto simp: ensure_lab_audit registry_create_def registry_join_def registry_remove_group_def registry_save_def
      check_access_audited_def Let_def split: option.splits if_splits)

lemma trace_audit:
  "\<exists>more. gr_audit (foldl registry_step r ops) = gr_audit r @ more \<and> length more = length (filter is_audited ops)"
proof (induction ops arbitrary: r)
  case (Cons oper ops)
  obtain xs where xs: "gr_audit (foldl registry_step r (oper # ops)) = gr_audit (registry_step r oper) @ xs"
    "length xs = length (filter is_audited ops)" using Cons [of "registry_step r oper"] by auto
  obtain ys where ys: "gr_audit (registry_step r oper) = gr_audit r @ ys" "length ys = length (filter is_audited [oper])"
    using step_audit by blast
  show ?case by (rule exI [of _ "ys @ xs"]) (use xs ys in auto)
qed simp

section \<open>Properties\<close>

text \<open>A path built for a segment and a slug stays directly inside that segment: both readers of
  paths find the segment again, with and without a leading slash, the level is the one of the segment
  table, and the file name has no separator and no parent reference.\<close>

theorem document_path_roundtrip:
  assumes "document_path seg slug = Ok p"
  shows "segment_for_path p = Some seg \<and> segment_for_path (CHR ''/'' # p) = Some seg
    \<and> segment_level_from_path p = map_option snd (map_of LAB_SEGMENTS seg)
    \<and> (\<exists>name. p = ''segments/'' @ seg @ ''/'' @ name \<and> name = trim slug \<and> name \<noteq> []
         \<and> CHR ''/'' \<notin> set name \<and> \<not> contains_str name ''..'')"
proof -
  have seg: "seg \<in> fst ` set LAB_SEGMENTS" and name: "trim slug \<noteq> []" "CHR ''/'' \<notin> set (trim slug)"
    "\<not> contains_str (trim slug) ''..''" and p: "p = ''segments/'' @ seg @ ''/'' @ trim slug"
    using assms by (auto simp: document_path_def known_segment_iff Let_def split: if_splits)
  have p': "p = ''segments/'' @ seg @ CHR ''/'' # trim slug" by (simp add: p)
  let ?find = "find (\<lambda>(a, _). a = seg) LAB_SEGMENTS"
  have "segment_entry p = ?find" "segment_entry (CHR ''/'' # p) = ?find"
    unfolding p' using segment_entry_document [OF seg] by blast+
  moreover obtain nm level where found: "?find = Some (seg, nm, level)"
  proof -
    have "list_ex (\<lambda>(a, _). a = seg) LAB_SEGMENTS" using seg by (auto simp: list_ex_iff)
    from find_fst_eq [OF this] show ?thesis using that by fastforce
  qed
  moreover have "map_of LAB_SEGMENTS seg = Some (nm, level)"
    using find_eq_map_of [of seg LAB_SEGMENTS] unfolding found by simp
  ultimately show ?thesis
    using name p by (simp add: segment_for_path_def segment_level_from_path_def)
qed

theorem document_path_roundtrip_witness:
  "document_path ''seg-legal'' '' nda.md '' = Ok ''segments/seg-legal/nda.md''
   \<and> segment_for_path ''segments/seg-legal/nda.md'' = Some ''seg-legal''"
proof -
  have "document_path ''seg-legal'' '' nda.md '' = Ok ''segments/seg-legal/nda.md''" by code_simp
  then show ?thesis using document_path_roundtrip by blast
qed

text \<open>C4: whatever sequence of operations ran, whether or not their writes succeeded, access is only
  ever granted to a member who was one at the start or whom a create or a join of the sequence admitted.
  The audited check answers what the check answers, changes no group, and adds one record with its verdict,
  granted or denied, at the end of the log; no operation takes a record of the log away or changes it.\<close>

theorem access_only_by_admission:
  "(check_access (foldl registry_step r ops) gid m a \<longrightarrow> is_member r gid m \<or> list_ex (admits gid m) ops)
     \<and> check_access_audited now (foldl registry_step r ops) gid m a =
         (check_access (foldl registry_step r ops) gid m a,
          (foldl registry_step r ops)\<lparr> gr_audit := gr_audit (foldl registry_step r ops) @
             [\<lparr> ae_timestamp = now, ae_group = gid, ae_member = m, ae_action = a,
                ae_allowed = check_access (foldl registry_step r ops) gid m a \<rparr>] \<rparr>)
     \<and> (\<exists>more. gr_audit (foldl registry_step r ops) = gr_audit r @ more
          \<and> length more = length (filter is_audited ops))"
  using trace_audit [of r ops]
  by (auto simp: check_access_audited_def Let_def dest: check_access_member trace_member)

theorem access_only_by_admission_witness:
  "is_member \<lparr> gr_groups = [], gr_storage = NoFile, gr_audit = [] \<rparr> ''seg-ops'' ''eve''
   \<or> list_ex (admits ''seg-ops'' ''eve'') [REnsure True, RJoin True ''seg-ops'' ''eve'']"
  using access_only_by_admission [of "\<lparr> gr_groups = [], gr_storage = NoFile, gr_audit = [] \<rparr>"
      "[REnsure True, RJoin True ''seg-ops'' ''eve'']" "''seg-ops''" "''eve''" "''Read''"]
  by (rule conjunct1 [THEN mp]) code_simp

text \<open>Installing the laboratory segments creates exactly the missing ones, empty and with the
  level of the table, leaves every existing group alone, and a second call creates nothing.\<close>

theorem ensure_lab_segments_spec:
  "hget (gr_groups (snd (ensure_lab_segments io r))) k =
     (case hget (gr_groups r) k of Some g \<Rightarrow> Some g
      | None \<Rightarrow> map_option (\<lambda>(name, level). lab_group k name level) (map_of LAB_SEGMENTS k))
   \<and> fst (ensure_lab_segments True r) =
       Ok (filter (\<lambda>gid. \<not> hmem (gr_groups r) gid) (map fst LAB_SEGMENTS))
   \<and> fst (ensure_lab_segments io' (snd (ensure_lab_segments io r))) = Ok []"
proof -
  have "hmem (gr_groups (snd (ensure_lab_segments io r))) gid" if "gid \<in> set (map fst LAB_SEGMENTS)" for gid
  proof -
    from that have "map_of LAB_SEGMENTS gid \<noteq> None" by (simp add: map_of_eq_None_iff)
    then show ?thesis by (auto simp: hmem_def ensure_lab_groups split: option.split)
  qed
  then have "filter (\<lambda>gid. \<not> hmem (gr_groups (snd (ensure_lab_segments io r))) gid) (map fst LAB_SEGMENTS) = []"
    unfolding filter_empty_conv by blast
  then show ?thesis by (simp add: ensure_lab_groups ensure_lab_created Let_def)
qed

text \<open>A join whose write to the file fails reports the failure but has already changed the
  registry in memory: the member passes the access check although the file does not list it.\<close>

theorem failed_join_keeps_member:
  assumes "hget (gr_groups r) gid = Some g" and "m \<notin> set (members g)" and "acl_read (acl g)"
  shows "fst (registry_join False r gid m) = Err ''Failed to write groups storage file''
    \<and> check_access (snd (registry_join False r gid m)) gid m ''read''
    \<and> gr_storage (snd (registry_join False r gid m)) = gr_storage r"
  using assms by (auto simp: registry_join_def registry_save_def check_access_def ascii_lower_def
      ascii_lower_char_def Let_def)

theorem failed_join_keeps_member_witness:
  "check_access (snd (registry_join False
     \<lparr> gr_groups = [(''seg-ops'', lab_group ''seg-ops'' ''Ops'' Confidential)],
       gr_storage = NoFile, gr_audit = [] \<rparr> ''seg-ops'' ''eve'')) ''seg-ops'' ''eve'' ''read''"
  using failed_join_keeps_member
    [of "\<lparr> gr_groups = [(''seg-ops'', lab_group ''seg-ops'' ''Ops'' Confidential)],
           gr_storage = NoFile, gr_audit = [] \<rparr>" "''seg-ops''" "lab_group ''seg-ops'' ''Ops'' Confidential" "''eve''"]
  by (simp add: lab_group_def)

end
