(* ===== verification/RateLimiter.thy ===== *)
theory RateLimiter
  imports Prelude
begin

text \<open>The keyed request limiter of \<open>src/src/security/rate_limiter/sliding_window.rs\<close>. Times are the
  64 bit epoch seconds of the code, read as signed numbers; counters are unsigned. A step is one call of
  \<open>check\<close>, which the per-key mutex makes atomic, so a trace of steps is an interleaving of callers.\<close>

section \<open>State and operations\<close>

record limiter_config =
  window_secs :: "64 word"
  max_requests :: "32 word"
  burst_limit :: "32 word"

definition limiter_config_default :: limiter_config where
  "limiter_config_default = \<lparr> window_secs = 60, max_requests = 100, burst_limit = 10 \<rparr>"

datatype limiter_result = Allowed | BurstAllowed | Denied (retry_after_secs: "64 word")

record window_state =
  window_start :: "64 word"
  win_count :: "64 word"

definition window_state_new :: window_state where
  "window_state_new = \<lparr> window_start = 0, win_count = 0 \<rparr>"

definition check_and_increment_at ::
  "limiter_config \<Rightarrow> 64 word \<Rightarrow> window_state \<Rightarrow> limiter_result \<times> window_state"
where
  "check_and_increment_at config now st =
     (let limit = ucast (max_requests config) :: 64 word;
          burst = limit + ucast (burst_limit config);
          elapsed = now - window_start st in
      if window_start st = 0 \<or> sint elapsed \<ge> sint (window_secs config) then
        (Allowed, \<lparr> window_start = now, win_count = 1 \<rparr>)
      else
        let current = win_count st + 1;
            st' = st\<lparr> win_count := current \<rparr> in
        if current \<le> limit then (Allowed, st')
        else if current \<le> burst then (BurstAllowed, st')
        else
          let left = window_secs config - elapsed;
              retry = (if sint left < 1 then 1 else left) in
          (Denied retry, st'))"

record limiter =
  lim_config :: limiter_config
  lim_counters :: "(string, window_state) hmap"

definition limiter_new :: "limiter_config \<Rightarrow> limiter" where
  "limiter_new config = \<lparr> lim_config = config, lim_counters = [] \<rparr>"

definition get_or_create_counter :: "limiter \<Rightarrow> string \<Rightarrow> window_state \<times> limiter" where
  "get_or_create_counter l key =
     (case hget (lim_counters l) key of
        Some c \<Rightarrow> (c, l)
      | None \<Rightarrow> (window_state_new, l\<lparr> lim_counters := hput key window_state_new (lim_counters l) \<rparr>))"

text \<open>The counter is shared with the map, so its new state is visible there.\<close>

definition limiter_check :: "limiter \<Rightarrow> string \<Rightarrow> 64 word \<Rightarrow> limiter_result \<times> limiter" where
  "limiter_check l key now =
     (let (c, l') = get_or_create_counter l key;
          (res, c') = check_and_increment_at (lim_config l') now c in
      (res, l'\<lparr> lim_counters := hput key c' (lim_counters l') \<rparr>))"

definition check_ip :: "limiter \<Rightarrow> string \<Rightarrow> 64 word \<Rightarrow> limiter_result \<times> limiter" where
  "check_ip l ip now = limiter_check l (''ip:'' @ ip) now"

definition check_token :: "limiter \<Rightarrow> string \<Rightarrow> 64 word \<Rightarrow> limiter_result \<times> limiter" where
  "check_token l token now = limiter_check l (''token:'' @ token) now"

definition limiter_count :: "limiter \<Rightarrow> string \<Rightarrow> 64 word" where
  "limiter_count l key = (case hget (lim_counters l) key of None \<Rightarrow> 0 | Some c \<Rightarrow> win_count c)"

definition limiter_reset :: "limiter \<Rightarrow> string \<Rightarrow> limiter" where
  "limiter_reset l key = l\<lparr> lim_counters := hdel key (lim_counters l) \<rparr>"

definition tracked_keys :: "limiter \<Rightarrow> nat" where
  "tracked_keys l = length (lim_counters l)"

definition limiter_clone :: "limiter \<Rightarrow> limiter" where
  "limiter_clone l = \<lparr> lim_config = lim_config l, lim_counters = [] \<rparr>"

section \<open>Traces of one counter\<close>

fun admitted :: "limiter_result \<Rightarrow> bool" where
  "admitted (Denied _) = False"
| "admitted _ = True"

text \<open>The verdicts on a list of request times, and the requests among them that were admitted.\<close>

fun verdicts :: "limiter_config \<Rightarrow> window_state \<Rightarrow> 64 word list \<Rightarrow> (64 word \<times> limiter_result) list" where
  "verdicts config st [] = []"
| "verdicts config st (t # ts) =
     (t, fst (check_and_increment_at config t st)) # verdicts config (snd (check_and_increment_at config t st)) ts"

definition total_limit :: "limiter_config \<Rightarrow> nat" where
  "total_limit config = unat (max_requests config) + unat (burst_limit config)"

definition admissions :: "limiter_config \<Rightarrow> window_state \<Rightarrow> 64 word list \<Rightarrow> nat" where
  "admissions config st ts = length (filter (\<lambda>(t, r). admitted r) (verdicts config st ts))"

text \<open>A request falls into the window of the counter when no roll-over happens.\<close>

definition in_window :: "limiter_config \<Rightarrow> window_state \<Rightarrow> 64 word \<Rightarrow> bool" where
  "in_window config st t \<longleftrightarrow> window_start st \<noteq> 0 \<and> sint (t - window_start st) < sint (window_secs config)"

lemma burst_no_overflow:
  "unat (ucast (max_requests c) + ucast (burst_limit c) :: 64 word) = total_limit c"
proof -
  have "unat (max_requests c) < 2 ^ 32" "unat (burst_limit c) < 2 ^ 32"
    using unsigned_less [of "max_requests c"] unsigned_less [of "burst_limit c"] by simp_all
  then show ?thesis
    unfolding total_limit_def by (subst unat_add_exact) (simp_all add: unat_ucast_up)
qed

lemma step_in_window:
  assumes "in_window config st t" and "unat (win_count st) + 1 < 2 ^ 64"
  shows "unat (win_count (snd (check_and_increment_at config t st))) = unat (win_count st) + 1"
    and "window_start (snd (check_and_increment_at config t st)) = window_start st"
    and "admitted (fst (check_and_increment_at config t st)) \<longleftrightarrow> unat (win_count st) + 1 \<le> total_limit config"
proof -
  have inc: "unat (win_count st + 1) = unat (win_count st) + 1"
    using assms(2) by (subst unat_add_exact) simp_all
  have le: "limit \<le> limit + ucast (burst_limit config)"
    if "limit = ucast (max_requests config)" for limit :: "64 word"
    unfolding that word_le_nat_alt burst_no_overflow by (simp add: total_limit_def unat_ucast_up)
  show "unat (win_count (snd (check_and_increment_at config t st))) = unat (win_count st) + 1"
    and "window_start (snd (check_and_increment_at config t st)) = window_start st"
    using assms(1) inc by (auto simp: check_and_increment_at_def in_window_def Let_def)
  have "win_count st + 1 \<le> ucast (max_requests config) + ucast (burst_limit config)
      \<longleftrightarrow> unat (win_count st) + 1 \<le> total_limit config"
    by (simp only: word_le_nat_alt inc burst_no_overflow)
  then show "admitted (fst (check_and_increment_at config t st)) \<longleftrightarrow> unat (win_count st) + 1 \<le> total_limit config"
    using assms(1) le [OF refl] order_trans
    by (auto simp: check_and_increment_at_def in_window_def Let_def)
qed

lemma step_rolls:
  assumes "\<not> in_window config st t"
  shows "check_and_increment_at config t st = (Allowed, \<lparr> window_start = t, win_count = 1 \<rparr>)"
  using assms by (auto simp: check_and_increment_at_def in_window_def Let_def not_less)

lemma admissions_Cons:
  "admissions config st (t # ts) =
     (if admitted (fst (check_and_increment_at config t st)) then 1 else 0)
     + admissions config (snd (check_and_increment_at config t st)) ts"
  by (simp add: admissions_def)

text \<open>Within a window exactly the first requests up to the limit pass.\<close>

lemma admissions_in_window:
  assumes "\<forall>t\<in>set ts. in_window config st t" and "unat (win_count st) + length ts < 2 ^ 64"
  shows "admissions config st ts = min (length ts) (total_limit config - unat (win_count st))"
  using assms
proof (induction ts arbitrary: st)
  case (Cons t ts)
  let ?st = "snd (check_and_increment_at config t st)"
  have w: "in_window config st t" and c: "unat (win_count st) + 1 < 2 ^ 64" using Cons.prems by auto
  note step = step_in_window [OF w c]
  have "\<forall>t\<in>set ts. in_window config ?st t" using Cons.prems(1) step(2) by (auto simp: in_window_def)
  then have "admissions config ?st ts = min (length ts) (total_limit config - unat (win_count ?st))"
    by (rule Cons.IH) (use Cons.prems(2) step(1) in simp)
  then show ?case using step by (simp add: admissions_Cons) linarith
qed (simp add: admissions_def)

lemma sint_diff_exact:
  fixes a b :: "64 word"
  assumes "0 \<le> sint a" "0 \<le> sint b"
  shows "sint (a - b) = sint a - sint b"
proof -
  have "sint a < 2 ^ 63" "sint b < 2 ^ 63"
    using sint_less [of a] sint_less [of b] by simp_all
  with assms have "signed_take_bit 63 (sint a - sint b) = sint a - sint b"
    by (intro signed_take_bit_int_eq_self) auto
  then show ?thesis by (simp add: sint_word_ariths)
qed

text \<open>Any interval as long as the window meets at most two windows of the counter.\<close>

lemma admissions_interval:
  assumes "sorted (map sint ts)" and "0 < sint a" and "0 < sint (window_secs config)"
    and "\<forall>t\<in>set ts. sint a \<le> sint t \<and> sint t < sint a + sint (window_secs config)"
    and "0 \<le> sint (window_start st)" and "unat (win_count st) + length ts < 2 ^ 64"
  shows "admissions config st ts \<le>
    (total_limit config - unat (win_count st)) + max 1 (total_limit config)"
  using assms
proof (induction ts arbitrary: st)
  case (Cons t ts)
  let ?st = "snd (check_and_increment_at config t st)"
  show ?case
  proof (cases "in_window config st t")
    case True
    have c: "unat (win_count st) + 1 < 2 ^ 64" using Cons.prems(6) by simp
    note step = step_in_window [OF True c]
    have "admissions config ?st ts \<le>
        (total_limit config - unat (win_count ?st)) + max 1 (total_limit config)"
      by (rule Cons.IH) (use Cons.prems step in auto)
    then show ?thesis using step by (simp add: admissions_Cons) linarith
  next
    case False
    have st: "?st = \<lparr> window_start = t, win_count = 1 \<rparr>" and ok: "admitted (fst (check_and_increment_at config t st))"
      using step_rolls [OF False] by simp_all
    have t0: "0 < sint t" using Cons.prems(2,4) by force
    have "in_window config ?st u" if "u \<in> set ts" for u
    proof -
      have "sint u < sint a + sint (window_secs config)" "sint a \<le> sint t" "0 < sint u"
        using Cons.prems(2,4) that by force+
      then have "sint (u - t) < sint (window_secs config)" using t0 by (simp add: sint_diff_exact)
      then show ?thesis using t0 by (auto simp: in_window_def st)
    qed
    then have "admissions config ?st ts = min (length ts) (total_limit config - unat (win_count ?st))"
      by (intro admissions_in_window) (use Cons.prems(6) st in auto)
    then show ?thesis using ok st by (simp add: admissions_Cons)
  qed
qed (simp add: admissions_def)

lemma verdicts_append:
  "verdicts config st (xs @ ys) =
     verdicts config st xs @ verdicts config (foldl (\<lambda>s t. snd (check_and_increment_at config t s)) st xs) ys"
  by (induction xs arbitrary: st) auto

abbreviation run_counter :: "limiter_config \<Rightarrow> window_state \<Rightarrow> 64 word list \<Rightarrow> window_state" where
  "run_counter config st ts \<equiv> foldl (\<lambda>s t. snd (check_and_increment_at config t s)) st ts"

lemma step_bounds:
  "unat (win_count (snd (check_and_increment_at config t st))) \<le> unat (win_count st) + 1"
  "window_start (snd (check_and_increment_at config t st)) \<in> {t, window_start st}"
proof -
  have "unat (win_count st + 1) \<le> unat (win_count st) + 1"
    by (simp add: unat_word_ariths)
  then show "unat (win_count (snd (check_and_increment_at config t st))) \<le> unat (win_count st) + 1"
    by (auto simp: check_and_increment_at_def Let_def)
  show "window_start (snd (check_and_increment_at config t st)) \<in> {t, window_start st}"
    by (auto simp: check_and_increment_at_def Let_def)
qed

lemma run_bounds:
  assumes "\<forall>t\<in>set ts. 0 < sint t" and "0 \<le> sint (window_start st)"
  shows "unat (win_count (run_counter config st ts)) \<le> unat (win_count st) + length ts"
    and "0 \<le> sint (window_start (run_counter config st ts))"
proof -
  have "unat (win_count (run_counter config st ts)) \<le> unat (win_count st) + length ts
      \<and> 0 \<le> sint (window_start (run_counter config st ts))"
    using assms
  proof (induction ts arbitrary: st)
    case (Cons t ts)
    let ?st = "snd (check_and_increment_at config t st)"
    have "0 \<le> sint (window_start ?st)" using step_bounds(2) [of config t st] Cons.prems by auto
    then show ?case using Cons.IH [of ?st] Cons.prems(1) step_bounds(1) [of config t st] by simp
  qed simp
  then show "unat (win_count (run_counter config st ts)) \<le> unat (win_count st) + length ts"
    and "0 \<le> sint (window_start (run_counter config st ts))" by auto
qed

lemma sorted_split:
  fixes a :: "'b::linorder"
  shows "sorted (map f l) \<Longrightarrow> l = filter (\<lambda>x. f x < a) l @ filter (\<lambda>x. a \<le> f x) l"
proof (induction l)
  case (Cons x l)
  show ?case
  proof (cases "f x < a")
    case False
    then have "filter (\<lambda>y. f y < a) l = []" "filter (\<lambda>y. a \<le> f y) l = l"
      using Cons.prems by (force simp: filter_empty_conv filter_id_conv)+
    then show ?thesis using False by simp
  qed (use Cons in auto)
qed simp

lemma filter_verdicts_none:
  "(\<forall>t\<in>set ts. \<not> P t) \<Longrightarrow> filter (\<lambda>(t, r). admitted r \<and> P t) (verdicts config st ts) = []"
  by (induction ts arbitrary: st) auto

lemma filter_verdicts_all:
  "(\<forall>t\<in>set ts. P t) \<Longrightarrow>
     length (filter (\<lambda>(t, r). admitted r \<and> P t) (verdicts config st ts)) = admissions config st ts"
  by (induction ts arbitrary: st) (auto simp: admissions_def)

text \<open>The counter a key has, a fresh one when it is unknown.\<close>

definition counter_of :: "limiter \<Rightarrow> string \<Rightarrow> window_state" where
  "counter_of l k = (case hget (lim_counters l) k of Some c \<Rightarrow> c | None \<Rightarrow> window_state_new)"

lemma limiter_check_result:
  "fst (limiter_check l k now) = fst (check_and_increment_at (lim_config l) now (counter_of l k))"
  by (cases "hget (lim_counters l) k")
    (simp_all add: limiter_check_def get_or_create_counter_def counter_of_def case_prod_unfold Let_def)

lemma limiter_check_config [simp]: "lim_config (snd (limiter_check l k now)) = lim_config l"
  by (cases "hget (lim_counters l) k")
    (simp_all add: limiter_check_def get_or_create_counter_def case_prod_unfold Let_def)

lemma limiter_check_counters:
  "hget (lim_counters (snd (limiter_check l j now))) k =
     (if k = j then Some (snd (check_and_increment_at (lim_config l) now (counter_of l j)))
      else hget (lim_counters l) k)"
  by (cases "hget (lim_counters l) j")
    (simp_all add: limiter_check_def get_or_create_counter_def counter_of_def case_prod_unfold Let_def)

section \<open>Properties\<close>

text \<open>While no window roll-over happens, a counter admits exactly the requests up to the sum of the
  regular and the burst limit and denies the rest.\<close>

theorem window_admits_exactly_the_limit:
  assumes "\<forall>t\<in>set ts. in_window config st t" and "unat (win_count st) + length ts < 2 ^ 64"
  shows "admissions config st ts = min (length ts) (total_limit config - unat (win_count st))"
  using assms by (rule admissions_in_window)

theorem window_admits_exactly_the_limit_witness:
  "admissions \<lparr> window_secs = 60, max_requests = 2, burst_limit = 1 \<rparr>
     \<lparr> window_start = 100, win_count = 1 \<rparr> [100, 110, 159] = 2"
  by (subst window_admits_exactly_the_limit) (simp_all add: in_window_def total_limit_def)

text \<open>C34: for any ordered sequence of fewer than \<open>2 ^ 64\<close> positive request times on a fresh counter with a positive window,
  every interval as long as the window that starts at a positive time contains at most twice the total limit of admitted
  requests, or two when the limit is 0 (the first request of a window is always admitted), because such an interval
  meets at most two windows of the counter.\<close>

theorem interval_admissions_bound:
  assumes "sorted (map sint ts)" and "\<forall>t\<in>set ts. 0 < sint t" and "0 < sint a"
    and "0 < sint (window_secs config)" and "length ts < 2 ^ 64"
  shows "length (filter (\<lambda>(t, r). admitted r \<and> sint a \<le> sint t \<and> sint t < sint a + sint (window_secs config))
           (verdicts config window_state_new ts)) \<le> 2 * max 1 (total_limit config)"
proof -
  let ?w = "sint (window_secs config)"
  let ?P = "\<lambda>t. sint a \<le> sint t \<and> sint t < sint a + ?w"
  define xs where "xs = filter (\<lambda>t. sint t < sint a) ts"
  define rest where "rest = filter (\<lambda>t. sint a \<le> sint t) ts"
  define ys where "ys = filter (\<lambda>t. sint t < sint a + ?w) rest"
  define zs where "zs = filter (\<lambda>t. sint a + ?w \<le> sint t) rest"
  have rest: "sorted (map sint rest)" unfolding rest_def using assms(1) by (rule sorted_filter)
  have ts: "ts = xs @ ys @ zs"
    using sorted_split [OF assms(1), of "sint a"] sorted_split [OF rest, of "sint a + ?w"]
    unfolding xs_def ys_def zs_def rest_def by simp
  let ?st = "run_counter config window_state_new xs"
  have fresh: "0 \<le> sint (window_start window_state_new)" "unat (win_count window_state_new) = 0"
    by (simp_all add: window_state_new_def)
  have pos: "\<forall>t\<in>set xs. 0 < sint t" using assms(2) ts by auto
  have st: "0 \<le> sint (window_start ?st)" "unat (win_count ?st) \<le> length xs"
    using run_bounds [OF pos fresh(1), of config] fresh(2) by simp_all
  have "length (filter (\<lambda>(t, r). admitted r \<and> ?P t) (verdicts config window_state_new ts))
      = admissions config ?st ys"
  proof -
    have "filter (\<lambda>(t, r). admitted r \<and> ?P t) (verdicts config st' xs) = []" for st'
      by (rule filter_verdicts_none) (auto simp: xs_def)
    moreover have "filter (\<lambda>(t, r). admitted r \<and> ?P t) (verdicts config st' zs) = []" for st'
      by (rule filter_verdicts_none) (auto simp: zs_def)
    moreover have "length (filter (\<lambda>(t, r). admitted r \<and> ?P t) (verdicts config st' ys)) = admissions config st' ys" for st'
      by (rule filter_verdicts_all) (auto simp: ys_def rest_def)
    ultimately show ?thesis by (simp add: ts verdicts_append)
  qed
  also have "\<dots> \<le> (total_limit config - unat (win_count ?st)) + max 1 (total_limit config)"
  proof (rule admissions_interval)
    show "sorted (map sint ys)" unfolding ys_def using rest by (rule sorted_filter)
    show "unat (win_count ?st) + length ys < 2 ^ 64" using st(2) assms(5) ts by simp
  qed (use assms st(1) in \<open>auto simp: ys_def rest_def\<close>)
  finally show ?thesis by linarith
qed

theorem interval_admissions_bound_witness:
  "length (filter (\<lambda>(t, r). admitted r \<and> sint (9 :: 64 word) \<le> sint t
             \<and> sint t < sint (9 :: 64 word) + sint (10 :: 64 word))
     (verdicts \<lparr> window_secs = 10, max_requests = 2, burst_limit = 0 \<rparr> window_state_new [1, 10, 11, 11])) \<le> 4"
  using interval_admissions_bound
    [of "[1, 10, 11, 11]" 9 "\<lparr> window_secs = 10, max_requests = 2, burst_limit = 0 \<rparr>"]
  by (simp add: total_limit_def)

text \<open>The limiter is not a sliding window: with two requests per ten seconds it admits three
  requests within two seconds, at the boundary of two of its windows.\<close>

theorem boundary_exceeds_limit:
  "map snd (verdicts \<lparr> window_secs = 10, max_requests = 2, burst_limit = 0 \<rparr> window_state_new [1, 10, 11, 11])
     = [Allowed, Allowed, Allowed, Allowed]
   \<and> total_limit \<lparr> window_secs = 10, max_requests = 2, burst_limit = 0 \<rparr> = 2"
  by code_simp

text \<open>The counter of one key is not touched by the requests and resets of another, and a reset
  key starts again with a fresh counter.\<close>

theorem keys_are_independent:
  "(k \<noteq> j \<longrightarrow> fst (limiter_check (snd (limiter_check l j now)) k now') = fst (limiter_check l k now')
      \<and> fst (limiter_check (limiter_reset l j) k now') = fst (limiter_check l k now')
      \<and> limiter_count (snd (limiter_check l j now)) k = limiter_count l k)
   \<and> fst (limiter_check (limiter_reset l k) k now) = Allowed
   \<and> limiter_count (snd (limiter_check (limiter_reset l k) k now)) k = 1"
proof -
  have "counter_of (limiter_reset l k) k = window_state_new"
    by (simp add: counter_of_def limiter_reset_def)
  moreover have "check_and_increment_at c now window_state_new = (Allowed, \<lparr> window_start = now, win_count = 1 \<rparr>)" for c
    by (simp add: check_and_increment_at_def window_state_new_def Let_def)
  ultimately show ?thesis
    by (auto simp: limiter_check_result limiter_count_def limiter_check_counters)
      (simp_all add: counter_of_def limiter_check_counters limiter_reset_def)
qed

theorem keys_are_independent_witness:
  "limiter_count (snd (limiter_check (limiter_new limiter_config_default) ''ip:a'' 5)) ''ip:b''
     = limiter_count (limiter_new limiter_config_default) ''ip:b''"
  using keys_are_independent [of "''ip:b''" "''ip:a''" "limiter_new limiter_config_default" 5] by simp

end
