(* ===== verification/WorkingMemory.thy ===== *)
theory WorkingMemory
  imports Prelude
begin

text \<open>The bounded working memory of \<open>src/src/memory/working.rs\<close>: a queue of ids, a map of items and a
  map from ids to queue positions that every removal rebuilds. Times are integers; an operation that
  reads the clock takes the readings as arguments (\<open>now\<close> for the first reading, \<open>now'\<close> for the second
  pass of the eviction). The BM25 search works on floats and is left out, as is the float field of the
  statistics. Serialisation, sealing and the file system around snapshots are the cases of
  \<open>snapshot_file\<close>.\<close>

section \<open>State\<close>

record memory_item =
  item_id :: string
  item_content :: string
  created_at :: int
  last_accessed :: int
  access_count :: "32 word"
  item_metadata :: "json option"

definition memory_item_new :: "int \<Rightarrow> string \<Rightarrow> string \<Rightarrow> memory_item" where
  "memory_item_new now iid content =
     \<lparr> item_id = iid, item_content = content, created_at = now, last_accessed = now,
       access_count = 0, item_metadata = None \<rparr>"

definition with_metadata :: "memory_item \<Rightarrow> json \<Rightarrow> memory_item" where
  "with_metadata item metadata = item\<lparr> item_metadata := Some metadata \<rparr>"

definition record_access :: "int \<Rightarrow> memory_item \<Rightarrow> memory_item" where
  "record_access now item = item\<lparr> last_accessed := now, access_count := access_count item + 1 \<rparr>"

record wm_config =
  wm_capacity :: nat
  lru_exempt_access_threshold :: "32 word"

definition wm_config_default :: wm_config where
  "wm_config_default = \<lparr> wm_capacity = 100, lru_exempt_access_threshold = 2 \<rparr>"

text \<open>\<open>env\<close> is the environment, \<open>parse\<close> the parser of the value's type.\<close>

definition parse_or :: "(string \<Rightarrow> string option) \<Rightarrow> (string \<Rightarrow> 'a option) \<Rightarrow> string \<Rightarrow> 'a \<Rightarrow> ('a \<Rightarrow> bool) \<Rightarrow> 'a" where
  "parse_or env parse key dflt validate =
     (case env key of
        Some val \<Rightarrow> (case parse val of
                      Some parsed \<Rightarrow> if validate parsed then parsed else dflt
                    | None \<Rightarrow> dflt)
      | None \<Rightarrow> dflt)"

definition wm_config_from_env ::
  "(string \<Rightarrow> string option) \<Rightarrow> (string \<Rightarrow> nat option) \<Rightarrow> (string \<Rightarrow> 32 word option) \<Rightarrow> wm_config"
where
  "wm_config_from_env env parse_usize parse_u32 =
     \<lparr> wm_capacity = parse_or env parse_usize ''XAVIER_WORKING_MEMORY_CAPACITY''
                       (wm_capacity wm_config_default) (\<lambda>v. v > 0),
       lru_exempt_access_threshold = parse_or env parse_u32 ''XAVIER_WORKING_LRU_THRESHOLD''
                       (lru_exempt_access_threshold wm_config_default) (\<lambda>v. v > 0) \<rparr>"

record working_memory =
  wm_conf :: wm_config
  items_queue :: "string list"
  wm_items :: "(string, memory_item) hmap"
  position_map :: "(string, nat) hmap"
  dirty :: bool

definition wm_with_config :: "wm_config \<Rightarrow> working_memory" where
  "wm_with_config config =
     \<lparr> wm_conf = config, items_queue = [], wm_items = [], position_map = [], dirty = False \<rparr>"

definition wm_len :: "working_memory \<Rightarrow> nat" where
  "wm_len wm = length (wm_items wm)"

definition wm_get :: "working_memory \<Rightarrow> string \<Rightarrow> memory_item option" where
  "wm_get wm iid = hget (wm_items wm) iid"

section \<open>Operations\<close>

definition wm_access :: "int \<Rightarrow> working_memory \<Rightarrow> string \<Rightarrow> memory_item option \<times> working_memory" where
  "wm_access now wm iid =
     (let wm' = (case hget (wm_items wm) iid of
                   Some item \<Rightarrow> wm\<lparr> wm_items := hput iid (record_access now item) (wm_items wm) \<rparr>
                 | None \<Rightarrow> wm) in
      (hget (wm_items wm') iid, wm'))"

text \<open>\<open>VecDeque::remove\<close>, which does nothing out of range, and the rebuilt position map.\<close>

definition queue_remove :: "nat \<Rightarrow> string list \<Rightarrow> string list" where
  "queue_remove pos q = (if pos < length q then take pos q @ drop (Suc pos) q else q)"

definition rebuild_positions :: "string list \<Rightarrow> (string, nat) hmap" where
  "rebuild_positions q = foldl (\<lambda>m (i, queue_id). hput queue_id i m) [] (enumerate 0 q)"

definition wm_remove :: "working_memory \<Rightarrow> string \<Rightarrow> memory_item option \<times> working_memory" where
  "wm_remove wm0 iid =
     (let wm = wm0\<lparr> dirty := True \<rparr>;
          wm' = (case hget (position_map wm) iid of
                   Some pos \<Rightarrow>
                     let q = queue_remove pos (items_queue wm) in
                     wm\<lparr> items_queue := q, position_map := rebuild_positions q \<rparr>
                 | None \<Rightarrow> wm) in
      (hget (wm_items wm') iid, wm'\<lparr> wm_items := hdel iid (wm_items wm') \<rparr>))"

text \<open>One pass of \<open>evict_oldest\<close>: the first queued item with the smallest stamp below the clock.\<close>

definition scan_step ::
  "(string, memory_item) hmap \<Rightarrow> (memory_item \<Rightarrow> bool) \<Rightarrow> (memory_item \<Rightarrow> int) \<Rightarrow>
     string option \<times> int \<Rightarrow> string \<Rightarrow> string option \<times> int"
where
  "scan_step items eligible stamp acc iid =
     (case hget items iid of
        Some item \<Rightarrow> if eligible item \<and> stamp item < snd acc then (Some iid, stamp item) else acc
      | None \<Rightarrow> acc)"

definition scan_oldest ::
  "(string, memory_item) hmap \<Rightarrow> (memory_item \<Rightarrow> bool) \<Rightarrow> (memory_item \<Rightarrow> int) \<Rightarrow> int \<Rightarrow> string list \<Rightarrow> string option"
where
  "scan_oldest items eligible stamp now q = fst (foldl (scan_step items eligible stamp) (None, now) q)"

definition evict_oldest :: "int \<Rightarrow> int \<Rightarrow> working_memory \<Rightarrow> memory_item option \<times> working_memory" where
  "evict_oldest now now' wm =
     (case scan_oldest (wm_items wm)
             (\<lambda>item. access_count item < lru_exempt_access_threshold (wm_conf wm)) created_at now (items_queue wm) of
        Some iid \<Rightarrow> wm_remove wm iid
      | None \<Rightarrow>
          (case scan_oldest (wm_items wm) (\<lambda>item. True) last_accessed now' (items_queue wm) of
             Some iid \<Rightarrow> wm_remove wm iid
           | None \<Rightarrow> (None, wm)))"

definition wm_push :: "int \<Rightarrow> int \<Rightarrow> working_memory \<Rightarrow> memory_item \<Rightarrow> memory_item option \<times> working_memory" where
  "wm_push now now' wm0 item =
     (let wm = wm0\<lparr> dirty := True \<rparr> in
      if hmem (wm_items wm) (item_id item) then
        (None, wm\<lparr> wm_items := hput (item_id item) (record_access now item) (wm_items wm) \<rparr>)
      else
        let (evicted, wm') =
              (if length (wm_items wm) \<ge> wm_capacity (wm_conf wm) then evict_oldest now now' wm
               else (None, wm));
            position = length (items_queue wm') in
        (evicted, wm'\<lparr> items_queue := items_queue wm' @ [item_id item],
                       position_map := hput (item_id item) position (position_map wm'),
                       wm_items := hput (item_id item) item (wm_items wm') \<rparr>))"

definition wm_clear :: "working_memory \<Rightarrow> working_memory" where
  "wm_clear wm = wm\<lparr> dirty := True, wm_items := [], items_queue := [], position_map := [] \<rparr>"

definition items_in_order :: "working_memory \<Rightarrow> memory_item list" where
  "items_in_order wm = List.map_filter (hget (wm_items wm)) (items_queue wm)"

record working_memory_stats =
  item_count :: nat
  stat_capacity :: nat
  total_accesses :: "32 word"
  eviction_candidates :: nat

definition wm_stats :: "working_memory \<Rightarrow> working_memory_stats" where
  "wm_stats wm =
     \<lparr> item_count = length (wm_items wm),
       stat_capacity = wm_capacity (wm_conf wm),
       total_accesses = sum_list (map access_count (hvalues (wm_items wm))),
       eviction_candidates =
         length (filter (\<lambda>i. access_count i < lru_exempt_access_threshold (wm_conf wm)) (hvalues (wm_items wm))) \<rparr>"

section \<open>Snapshots\<close>

definition SNAPSHOT_VERSION :: "32 word" where
  "SNAPSHOT_VERSION = 1"

text \<open>What reading the snapshot file gives: absent, unreadable, sealed without a usable key, not a
  snapshot, or a snapshot.\<close>

datatype snapshot_file =
    SnapMissing
  | SnapUnreadable
  | SnapSealed
  | SnapCorrupt
  | Snap "32 word" "memory_item list"

text \<open>\<open>io\<close> tells whether sealing and writing succeed; the file is replaced by the final rename only.\<close>

definition save_snapshot ::
  "bool \<Rightarrow> working_memory \<Rightarrow> snapshot_file \<Rightarrow> (unit, string) result \<times> working_memory \<times> snapshot_file"
where
  "save_snapshot io wm file =
     (if io then (Ok (), wm\<lparr> dirty := False \<rparr>, Snap SNAPSHOT_VERSION (items_in_order wm))
      else (Err ''io'', wm, file))"

text \<open>\<open>clk\<close> gives the clock readings of the i-th push.\<close>

definition restore_step ::
  "(nat \<Rightarrow> int \<times> int) \<Rightarrow> nat \<times> working_memory \<Rightarrow> memory_item \<Rightarrow> nat \<times> working_memory"
where
  "restore_step clk acc item =
     (let (restored, wm) = acc in
      if hmem (wm_items wm) (item_id item) then (restored, wm)
      else (restored + 1, snd (wm_push (fst (clk restored)) (snd (clk restored)) wm item)))"

definition restore_snapshot ::
  "(nat \<Rightarrow> int \<times> int) \<Rightarrow> working_memory \<Rightarrow> snapshot_file \<Rightarrow> nat \<times> working_memory"
where
  "restore_snapshot clk wm file =
     (case file of
        Snap version items \<Rightarrow>
          if version = SNAPSHOT_VERSION then
            let skip = length items - wm_capacity (wm_conf wm);
                (restored, wm') = foldl (restore_step clk) (0, wm) (drop skip items) in
            (restored, wm'\<lparr> dirty := False \<rparr>)
          else (0, wm)
      | _ \<Rightarrow> (0, wm))"

definition save_if_dirty :: "bool \<Rightarrow> working_memory \<Rightarrow> snapshot_file \<Rightarrow> working_memory \<times> snapshot_file" where
  "save_if_dirty io wm file = (if dirty wm then snd (save_snapshot io wm file) else (wm, file))"

section \<open>The invariant\<close>

definition positions_of :: "string list \<Rightarrow> (string, nat) hmap \<Rightarrow> bool" where
  "positions_of q m \<longleftrightarrow> (\<forall>iid pos. hget m iid = Some pos \<longleftrightarrow> pos < length q \<and> q ! pos = iid)"

definition wm_ok :: "working_memory \<Rightarrow> bool" where
  "wm_ok wm \<longleftrightarrow> hmap_ok (wm_items wm) \<and> distinct (items_queue wm)
     \<and> set (items_queue wm) = set (hkeys (wm_items wm))
     \<and> positions_of (items_queue wm) (position_map wm)
     \<and> (\<forall>iid item. hget (wm_items wm) iid = Some item \<longrightarrow> item_id item = iid)"

lemma positions_of_snoc:
  assumes "positions_of q m" and "x \<notin> set q"
  shows "positions_of (q @ [x]) (hput x (length q) m)"
proof -
  have "hget m x = None" using assms by (auto simp: positions_of_def in_set_conv_nth) (metis not_Some_eq)
  then show ?thesis using assms
    by (auto simp: positions_of_def nth_append less_Suc_eq in_set_conv_nth)
qed

lemma positions_of_rebuild: "distinct q \<Longrightarrow> positions_of q (rebuild_positions q)"
proof (induction q rule: rev_induct)
  case (snoc x q)
  have "rebuild_positions (q @ [x]) = hput x (length q) (rebuild_positions q)"
    by (simp add: rebuild_positions_def enumerate_append_eq)
  then show ?case using snoc by (simp add: positions_of_snoc)
qed (simp add: positions_of_def rebuild_positions_def)

lemma queue_remove_eq:
  assumes "distinct q" and "pos < length q" and "q ! pos = x"
  shows "queue_remove pos q = removeAll x q"
proof -
  have q: "q = take pos q @ x # drop (Suc pos) q" using assms(2,3) id_take_nth_drop by blast
  have "x \<notin> set (take pos q)" "x \<notin> set (drop (Suc pos) q)"
    using assms(1) by (subst (asm) q; simp)+
  then have "removeAll x (take pos q @ x # drop (Suc pos) q) = take pos q @ drop (Suc pos) q" by simp
  then show ?thesis using q assms(2) by (simp add: queue_remove_def)
qed

lemma wm_length: "wm_ok wm \<Longrightarrow> length (items_queue wm) = length (wm_items wm)"
  unfolding wm_ok_def hmap_ok_def by (metis distinct_card length_map)

lemma wm_remove_result: "fst (wm_remove wm iid) = hget (wm_items wm) iid"
  by (simp add: wm_remove_def Let_def split: option.split)

lemma wm_remove_items: "wm_items (snd (wm_remove wm iid)) = hdel iid (wm_items wm)"
  by (simp add: wm_remove_def Let_def split: option.split)

lemma wm_remove_conf [simp]: "wm_conf (snd (wm_remove wm iid)) = wm_conf wm"
  by (simp add: wm_remove_def Let_def split: option.split)

lemma wm_remove_queue:
  assumes "wm_ok wm"
  shows "items_queue (snd (wm_remove wm iid)) = removeAll iid (items_queue wm)"
    and "positions_of (removeAll iid (items_queue wm)) (position_map (snd (wm_remove wm iid)))"
proof -
  have pos: "positions_of (items_queue wm) (position_map wm)" and dist: "distinct (items_queue wm)"
    using assms by (auto simp: wm_ok_def)
  have "items_queue (snd (wm_remove wm iid)) = removeAll iid (items_queue wm)
      \<and> positions_of (removeAll iid (items_queue wm)) (position_map (snd (wm_remove wm iid)))"
  proof (cases "hget (position_map wm) iid")
    case None
    then have "iid \<notin> set (items_queue wm)" using pos
      by (auto simp: positions_of_def in_set_conv_nth) (metis option.distinct(1))
    then show ?thesis using None pos by (simp add: wm_remove_def)
  next
    case (Some p)
    then have "queue_remove p (items_queue wm) = removeAll iid (items_queue wm)"
      using pos dist by (intro queue_remove_eq) (auto simp: positions_of_def)
    then show ?thesis using Some dist
      by (simp add: wm_remove_def Let_def positions_of_rebuild distinct_removeAll)
  qed
  then show "items_queue (snd (wm_remove wm iid)) = removeAll iid (items_queue wm)"
    and "positions_of (removeAll iid (items_queue wm)) (position_map (snd (wm_remove wm iid)))" by auto
qed

lemma wm_ok_remove [inv_intros]: "wm_ok wm \<Longrightarrow> wm_ok (snd (wm_remove wm iid))"
  using wm_remove_queue [of wm iid]
  by (auto simp: wm_ok_def wm_remove_items set_hdel hmap_ok_hdel distinct_removeAll)

lemma wm_ok_evict [inv_intros]: "wm_ok wm \<Longrightarrow> wm_ok (snd (evict_oldest now now' wm))"
  by (auto simp: evict_oldest_def intro: wm_ok_remove split: option.split)

lemma evict_conf [simp]: "wm_conf (snd (evict_oldest now now' wm)) = wm_conf wm"
  by (simp add: evict_oldest_def split: option.split)

lemma evict_items: "hget (wm_items (snd (evict_oldest now now' wm))) x = Some i \<Longrightarrow> hget (wm_items wm) x = Some i"
  by (auto simp: evict_oldest_def wm_remove_items split: option.splits if_splits)

lemma wm_ok_dirty [simp]: "wm_ok (wm\<lparr> dirty := b \<rparr>) = wm_ok wm"
  by (simp add: wm_ok_def)

lemma wm_ok_insert:
  assumes "wm_ok wm" and "\<not> hmem (wm_items wm) (item_id item)"
  shows "wm_ok (wm\<lparr> items_queue := items_queue wm @ [item_id item],
      position_map := hput (item_id item) (length (items_queue wm)) (position_map wm),
      wm_items := hput (item_id item) item (wm_items wm) \<rparr>)"
proof -
  have "item_id item \<notin> set (items_queue wm)" using assms by (auto simp: wm_ok_def hmem_iff)
  then show ?thesis using assms
    by (auto simp: wm_ok_def positions_of_snoc hmap_ok_hput dom_update)
qed

lemma wm_ok_update:
  assumes "wm_ok wm" and "hmem (wm_items wm) iid" and "item_id item = iid"
  shows "wm_ok (wm\<lparr> wm_items := hput iid item (wm_items wm) \<rparr>)"
  using assms by (auto simp: wm_ok_def hmap_ok_hput hmem_iff dom_update)

lemma wm_ok_push [inv_intros]: "wm_ok wm \<Longrightarrow> wm_ok (snd (wm_push now now' wm item))"
proof -
  assume ok: "wm_ok wm"
  let ?wm = "wm\<lparr> dirty := True \<rparr>"
  let ?evict = "length (wm_items wm) \<ge> wm_capacity (wm_conf wm)"
  obtain wm' where wm': "wm' = (if ?evict then snd (evict_oldest now now' ?wm) else ?wm)" by simp
  then have ok': "wm_ok wm'" using ok by (simp add: wm_ok_evict)
  show ?thesis
  proof (cases "hmem (wm_items wm) (item_id item)")
    case True
    then show ?thesis using ok wm_ok_update [of ?wm "item_id item" "record_access now item"]
      by (simp add: wm_push_def record_access_def)
  next
    case False
    have sub: "hget (wm_items wm') x = Some i \<Longrightarrow> hget (wm_items wm) x = Some i" for x i
      unfolding wm' by (auto dest: evict_items split: if_splits)
    then have "\<not> hmem (wm_items wm') (item_id item)" using False unfolding hmem_def by fastforce
    from wm_ok_insert [OF ok' this] show ?thesis using False
      by (cases ?evict) (simp_all add: wm_push_def Let_def case_prod_unfold wm')
  qed
qed

lemma wm_push_conf [simp]: "wm_conf (snd (wm_push now now' wm item)) = wm_conf wm"
  by (simp add: wm_push_def Let_def case_prod_unfold)

lemma wm_ok_access [inv_intros]: "wm_ok wm \<Longrightarrow> wm_ok (snd (wm_access now wm iid))"
proof (cases "hget (wm_items wm) iid")
  case (Some item)
  assume ok: "wm_ok wm"
  have "item_id (record_access now item) = iid" using ok Some by (simp add: wm_ok_def record_access_def)
  from wm_ok_update [OF ok _ this] Some show ?thesis by (simp add: wm_access_def hmem_def)
qed (simp add: wm_access_def)

lemma wm_ok_clear [inv_intros]: "wm_ok (wm_clear wm)"
  by (simp add: wm_ok_def wm_clear_def positions_of_def)

lemma wm_ok_new [inv_intros]: "wm_ok (wm_with_config c)"
  by (simp add: wm_ok_def wm_with_config_def positions_of_def)

lemma restore_fold_ok: "wm_ok (snd s) \<Longrightarrow> wm_ok (snd (foldl (restore_step clk) s items))"
  by (rule foldl_invariant [where I = "\<lambda>s. wm_ok (snd s)"])
    (auto simp: restore_step_def Let_def intro: wm_ok_push split: prod.splits)

lemma wm_ok_restore [inv_intros]: "wm_ok wm \<Longrightarrow> wm_ok (snd (restore_snapshot clk wm file))"
  using restore_fold_ok [of "(0, wm)"]
  by (auto simp: restore_snapshot_def Let_def case_prod_unfold split: snapshot_file.split)

lemma wm_ok_save [inv_intros]: "wm_ok wm \<Longrightarrow> wm_ok (fst (snd (save_snapshot io wm file)))"
  by (simp add: save_snapshot_def)

section \<open>The eviction scan\<close>

text \<open>The queued items a scan considers.\<close>

definition scanned :: "(string, memory_item) hmap \<Rightarrow> (memory_item \<Rightarrow> bool) \<Rightarrow> string list \<Rightarrow> (string \<times> memory_item) set" where
  "scanned items eligible q = {(iid, item). iid \<in> set q \<and> hget items iid = Some item \<and> eligible item}"

lemma scan_fold:
  assumes "foldl (scan_step items eligible stamp) (c0, t0) q = (c, t)"
  shows "t \<le> t0 \<and> (\<forall>(iid, item)\<in>scanned items eligible q. t \<le> stamp item)
    \<and> (c = c0 \<and> t = t0 \<or> (\<exists>(iid, item)\<in>scanned items eligible q. c = Some iid \<and> stamp item = t \<and> t < t0))"
  using assms
proof (induction q arbitrary: c0 t0)
  case (Cons x q)
  have sub: "scanned items eligible q \<subseteq> scanned items eligible (x # q)" by (auto simp: scanned_def)
  show ?case
  proof (cases "\<exists>item. hget items x = Some item \<and> eligible item \<and> stamp item < t0")
    case True
    then obtain item where item: "hget items x = Some item" "eligible item" "stamp item < t0" by blast
    then have x: "(x, item) \<in> scanned items eligible (x # q)" by (simp add: scanned_def)
    have "scan_step items eligible stamp (c0, t0) x = (Some x, stamp item)"
      using item by (simp add: scan_step_def)
    with Cons.prems have "foldl (scan_step items eligible stamp) (Some x, stamp item) q = (c, t)"
      by simp
    from Cons.IH [OF this]
    have IH: "t \<le> stamp item" "\<forall>(iid, i)\<in>scanned items eligible q. t \<le> stamp i"
      "c = Some x \<and> t = stamp item \<or> (\<exists>(iid, i)\<in>scanned items eligible q. c = Some iid \<and> stamp i = t \<and> t < stamp item)"
      by auto
    have "\<forall>(iid, i)\<in>scanned items eligible (x # q). t \<le> stamp i"
      using IH(1,2) item(1) by (auto simp: scanned_def)
    moreover have "\<exists>(iid, i)\<in>scanned items eligible (x # q). c = Some iid \<and> stamp i = t \<and> t < t0"
      using IH(1,3) item(3) x sub by fastforce
    ultimately show ?thesis using IH(1) item(3) by auto
  next
    case False
    then have "scan_step items eligible stamp (c0, t0) x = (c0, t0)"
      by (auto simp: scan_step_def split: option.split)
    with Cons.prems have "foldl (scan_step items eligible stamp) (c0, t0) q = (c, t)" by simp
    note IH = Cons.IH [OF this]
    have "t \<le> stamp item" if "hget items x = Some item" "eligible item" for item
      using IH False that by (meson not_less order_trans)
    then have "\<forall>(iid, i)\<in>scanned items eligible (x # q). t \<le> stamp i"
      using IH by (auto simp: scanned_def)
    then show ?thesis using IH sub by blast
  qed
qed (auto simp: scanned_def)

lemma scan_oldest_None_iff:
  "scan_oldest items eligible stamp now q = None \<longleftrightarrow> (\<forall>(iid, item)\<in>scanned items eligible q. now \<le> stamp item)"
proof -
  obtain c t where out: "foldl (scan_step items eligible stamp) (None, now) q = (c, t)" by fastforce
  have c: "scan_oldest items eligible stamp now q = c" unfolding scan_oldest_def out by simp
  from scan_fold [OF out] show ?thesis unfolding c by force
qed

lemma scan_oldest_SomeD:
  assumes "scan_oldest items eligible stamp now q = Some iid"
  shows "\<exists>item. (iid, item) \<in> scanned items eligible q \<and> stamp item < now
    \<and> (\<forall>(j, i)\<in>scanned items eligible q. stamp item \<le> stamp i)"
proof -
  obtain c t where out: "foldl (scan_step items eligible stamp) (None, now) q = (c, t)" by fastforce
  have c: "c = Some iid" using assms unfolding scan_oldest_def out by simp
  from scan_fold [OF out] show ?thesis unfolding c by force
qed

lemma scanned_queue:
  assumes "wm_ok wm"
  shows "scanned (wm_items wm) eligible (items_queue wm) = {(iid, item). hget (wm_items wm) iid = Some item \<and> eligible item}"
proof -
  have "hget (wm_items wm) iid = Some item \<Longrightarrow> iid \<in> set (items_queue wm)" for iid item
    using assms by (auto simp: wm_ok_def dest!: map_of_SomeD intro: rev_image_eqI)
  then show ?thesis by (auto simp: scanned_def)
qed

section \<open>Traces of operations\<close>

datatype wm_op =
    WmPush int int memory_item
  | WmAccess int string
  | WmRemove string
  | WmClear
  | WmSave bool snapshot_file
  | WmRestore "nat \<Rightarrow> int \<times> int" snapshot_file

primrec wm_step :: "working_memory \<Rightarrow> wm_op \<Rightarrow> working_memory" where
  "wm_step wm (WmPush now now' item) = snd (wm_push now now' wm item)"
| "wm_step wm (WmAccess now iid) = snd (wm_access now wm iid)"
| "wm_step wm (WmRemove iid) = snd (wm_remove wm iid)"
| "wm_step wm WmClear = wm_clear wm"
| "wm_step wm (WmSave io file) = fst (snd (save_snapshot io wm file))"
| "wm_step wm (WmRestore clk file) = snd (restore_snapshot clk wm file)"

lemma wm_ok_step: "wm_ok wm \<Longrightarrow> wm_ok (wm_step wm oper)"
  by (cases oper) (simp_all add: inv_intros)

lemma wm_ok_trace: "wm_ok wm \<Longrightarrow> wm_ok (foldl wm_step wm ops)"
  by (rule foldl_invariant) (auto intro: wm_ok_step)

lemma evict_length:
  assumes "wm_ok wm" and "fst (evict_oldest now now' wm) = Some item"
  shows "length (wm_items (snd (evict_oldest now now' wm))) = length (wm_items wm) - 1"
  using assms
  by (auto simp: evict_oldest_def wm_remove_result wm_remove_items length_hdel wm_ok_def hmem_def split: option.splits)

text \<open>What an eviction picks.\<close>

definition low_access :: "working_memory \<Rightarrow> memory_item \<Rightarrow> bool" where
  "low_access wm item \<longleftrightarrow> access_count item < lru_exempt_access_threshold (wm_conf wm)"

definition stored :: "working_memory \<Rightarrow> memory_item \<Rightarrow> bool" where
  "stored wm item \<longleftrightarrow> hget (wm_items wm) (item_id item) = Some item"

lemma stored_iff: "wm_ok wm \<Longrightarrow> stored wm item \<longleftrightarrow> (\<exists>iid. hget (wm_items wm) iid = Some item)"
  by (auto simp: stored_def wm_ok_def)

lemma evict_cases:
  assumes ok: "wm_ok wm"
  shows "case evict_oldest now now' wm of (victim, wm') \<Rightarrow>
    (case victim of
       Some v \<Rightarrow> stored wm v \<and> wm_items wm' = hdel (item_id v) (wm_items wm) \<and>
         (if \<exists>i. stored wm i \<and> low_access wm i \<and> created_at i < now
          then low_access wm v \<and> (\<forall>i. stored wm i \<longrightarrow> low_access wm i \<longrightarrow> created_at v \<le> created_at i)
          else (\<forall>i. stored wm i \<longrightarrow> last_accessed v \<le> last_accessed i))
     | None \<Rightarrow> wm' = wm \<and> (\<forall>i. stored wm i \<longrightarrow> now' \<le> last_accessed i \<and> (low_access wm i \<longrightarrow> now \<le> created_at i)))"
proof -
  let ?low = "\<lambda>item. access_count item < lru_exempt_access_threshold (wm_conf wm)"
  let ?fifo = "scan_oldest (wm_items wm) ?low created_at now (items_queue wm)"
  let ?lru = "scan_oldest (wm_items wm) (\<lambda>item. True) last_accessed now' (items_queue wm)"
  have idk: "hget (wm_items wm) iid = Some i \<Longrightarrow> item_id i = iid" for iid i
    using ok by (simp add: wm_ok_def)
  have fifo_none: "?fifo = None \<longleftrightarrow> \<not> (\<exists>i. stored wm i \<and> low_access wm i \<and> created_at i < now)"
    unfolding scan_oldest_None_iff scanned_queue [OF ok]
    by (simp add: stored_iff [OF ok] low_access_def) (meson linorder_not_less)
  have lru_none: "?lru = None \<longleftrightarrow> (\<forall>i. stored wm i \<longrightarrow> now' \<le> last_accessed i)"
    unfolding scan_oldest_None_iff scanned_queue [OF ok] by (auto simp: stored_iff [OF ok])
  have some: "\<exists>v. hget (wm_items wm) iid = Some v \<and> stored wm v \<and> item_id v = iid \<and> elig v
        \<and> (\<forall>i. stored wm i \<longrightarrow> elig i \<longrightarrow> stamp v \<le> stamp i)"
    if "scan_oldest (wm_items wm) elig stamp n (items_queue wm) = Some iid" for elig stamp n iid
    using scan_oldest_SomeD [OF that] unfolding scanned_queue [OF ok]
    by (auto simp: stored_def dest: idk)
  show ?thesis
  proof (cases ?fifo)
    case (Some iid)
    from some [OF Some] obtain v where "hget (wm_items wm) iid = Some v" "stored wm v" "item_id v = iid"
      "?low v" "\<forall>i. stored wm i \<longrightarrow> ?low i \<longrightarrow> created_at v \<le> created_at i" by blast
    moreover have "evict_oldest now now' wm = wm_remove wm iid" by (simp add: evict_oldest_def Some)
    ultimately show ?thesis using fifo_none Some wm_remove_result [of wm iid] wm_remove_items [of wm iid]
      by (auto simp: low_access_def split: prod.split)
  next
    case fifo: None
    show ?thesis
    proof (cases ?lru)
      case (Some iid)
      from some [OF Some] obtain v where "hget (wm_items wm) iid = Some v" "stored wm v" "item_id v = iid"
        "\<forall>i. stored wm i \<longrightarrow> last_accessed v \<le> last_accessed i" by blast
      moreover have "evict_oldest now now' wm = wm_remove wm iid" by (simp add: evict_oldest_def fifo Some)
      ultimately show ?thesis using fifo_none fifo wm_remove_result [of wm iid] wm_remove_items [of wm iid]
        by (auto split: prod.split)
    next
      case None
      then have "evict_oldest now now' wm = (None, wm)" by (simp add: evict_oldest_def fifo)
      then show ?thesis using fifo_none fifo lru_none None by (auto simp: not_less)
    qed
  qed
qed

lemma restore_fresh:
  assumes "\<forall>i\<in>set items. \<not> hmem (wm_items wm) (item_id i)" and "distinct (map item_id items)"
    and "length (wm_items wm) + length items \<le> wm_capacity (wm_conf wm)" and "wm_ok wm"
  shows "case foldl (restore_step clk) (n, wm) items of (n', wm') \<Rightarrow>
     n' = n + length items \<and> items_in_order wm' = items_in_order wm @ items \<and> wm_ok wm'"
  using assms
proof (induction items arbitrary: n wm)
  case (Cons i items)
  let ?wm = "snd (wm_push (fst (clk n)) (snd (clk n)) wm i)"
  have new: "\<not> hmem (wm_items wm) (item_id i)" and room: "length (wm_items wm) < wm_capacity (wm_conf wm)"
    using Cons.prems(1,3) by auto
  have eq: "?wm = wm\<lparr> dirty := True, items_queue := items_queue wm @ [item_id i],
      position_map := hput (item_id i) (length (items_queue wm)) (position_map wm),
      wm_items := hput (item_id i) i (wm_items wm) \<rparr>"
    using new room by (simp add: wm_push_def)
  have ok: "wm_ok ?wm" using Cons.prems(4) by (rule wm_ok_push)
  have out: "item_id i \<notin> set (items_queue wm)" using new Cons.prems(4) by (auto simp: wm_ok_def hmem_iff)
  then have same: "List.map_filter (hget (wm_items ?wm)) (items_queue wm) = items_in_order wm"
    unfolding eq items_in_order_def by (intro map_filter_agree) auto
  have "List.map_filter (hget (wm_items ?wm)) [item_id i] = [i]"
    unfolding eq by (simp add: map_filter_single)
  moreover have "items_queue ?wm = items_queue wm @ [item_id i]" unfolding eq by simp
  ultimately have order: "items_in_order ?wm = items_in_order wm @ [i]"
    using same by (simp only: items_in_order_def map_filter_append)
  have "case foldl (restore_step clk) (Suc n, ?wm) items of (n', wm') \<Rightarrow>
     n' = Suc n + length items \<and> items_in_order wm' = items_in_order ?wm @ items \<and> wm_ok wm'"
  proof (rule Cons.IH)
    show "\<forall>j\<in>set items. \<not> hmem (wm_items ?wm) (item_id j)"
      using Cons.prems(1,2) unfolding eq by (auto simp: image_iff) (metis image_eqI)?
    show "length (wm_items ?wm) + length items \<le> wm_capacity (wm_conf ?wm)"
      using Cons.prems(3) new unfolding eq by (simp add: length_hput)
  qed (use Cons.prems ok in auto)
  moreover have "restore_step clk (n, wm) i = (Suc n, ?wm)" using new by (simp add: restore_step_def)
  ultimately show ?case using order by auto
qed simp

lemma map_filter_section:
  "(\<forall>x\<in>set q. \<exists>i. f x = Some i \<and> g i = x) \<Longrightarrow> map g (List.map_filter f q) = q"
  by (induction q) (auto simp: List.map_filter_simps)

lemma items_in_order_ids:
  assumes "wm_ok wm"
  shows "map item_id (items_in_order wm) = items_queue wm"
  unfolding items_in_order_def
proof (rule map_filter_section, rule)
  fix x assume "x \<in> set (items_queue wm)"
  then have "hmem (wm_items wm) x" using assms by (simp add: wm_ok_def hmem_iff)
  then obtain i where "hget (wm_items wm) x = Some i" by (auto simp: hmem_def)
  then show "\<exists>i. hget (wm_items wm) x = Some i \<and> item_id i = x" using assms by (auto simp: wm_ok_def)
qed

section \<open>Properties\<close>

text \<open>C3: after any sequence of operations on a new working memory the three structures agree: the queue
  lists the stored ids once each, the position map is the inverse of the queue, and every item is stored
  under its own id.\<close>

theorem working_memory_consistent:
  "wm_ok (foldl wm_step (wm_with_config config) ops)"
  by (rule wm_ok_trace [OF wm_ok_new])

text \<open>Pushing a new item onto a full memory evicts, among the items accessed fewer times than the
  threshold and older than the clock, one created first, and when there is none, one accessed longest
  ago; the new item is stored, the victim is gone and every other item stays.\<close>

theorem push_eviction_policy:
  assumes "wm_ok wm" and "\<not> hmem (wm_items wm) (item_id item)"
    and "wm_capacity (wm_conf wm) \<le> wm_len wm" and "fst (wm_push now now' wm item) = Some v"
  shows "stored wm v
    \<and> (if \<exists>i. stored wm i \<and> low_access wm i \<and> created_at i < now
       then low_access wm v \<and> (\<forall>i. stored wm i \<longrightarrow> low_access wm i \<longrightarrow> created_at v \<le> created_at i)
       else (\<forall>i. stored wm i \<longrightarrow> last_accessed v \<le> last_accessed i))
    \<and> wm_get (snd (wm_push now now' wm item)) =
        (\<lambda>x. if x = item_id item then Some item else if x = item_id v then None else wm_get wm x)"
proof -
  let ?wm = "wm\<lparr> dirty := True \<rparr>"
  have same: "stored ?wm = stored wm" "low_access ?wm = low_access wm"
    by (auto simp: stored_def low_access_def fun_eq_iff)
  obtain victim wm' where ev: "evict_oldest now now' ?wm = (victim, wm')" by fastforce
  have push: "wm_push now now' wm item = (victim, wm'\<lparr> items_queue := items_queue wm' @ [item_id item],
      position_map := hput (item_id item) (length (items_queue wm')) (position_map wm'),
      wm_items := hput (item_id item) item (wm_items wm') \<rparr>)"
    using assms(2,3) ev by (simp add: wm_push_def wm_len_def)
  then have "victim = Some v" using assms(4) by simp
  with evict_cases [of ?wm now' now] assms(1) ev
  have facts: "stored wm v" "wm_items wm' = hdel (item_id v) (wm_items wm)"
    "if \<exists>i. stored wm i \<and> low_access wm i \<and> created_at i < now
       then low_access wm v \<and> (\<forall>i. stored wm i \<longrightarrow> low_access wm i \<longrightarrow> created_at v \<le> created_at i)
       else (\<forall>i. stored wm i \<longrightarrow> last_accessed v \<le> last_accessed i)"
    unfolding same by simp_all
  moreover have "wm_get (snd (wm_push now now' wm item)) =
        (\<lambda>x. if x = item_id item then Some item else if x = item_id v then None else wm_get wm x)"
    unfolding push by (auto simp: wm_get_def fun_eq_iff facts(2))
  ultimately show ?thesis by blast
qed

definition two_items :: working_memory where
  "two_items = snd (wm_push 2 2 (snd (wm_push 1 1
     (wm_with_config \<lparr> wm_capacity = 2, lru_exempt_access_threshold = 2 \<rparr>)
     (memory_item_new 1 ''a'' ''x''))) (memory_item_new 2 ''b'' ''y''))"

theorem push_eviction_policy_witness:
  "stored two_items (memory_item_new 1 ''a'' ''x'')"
proof -
  have "wm_ok two_items" unfolding two_items_def by (intro wm_ok_push wm_ok_new)
  moreover have "\<not> hmem (wm_items two_items) (item_id (memory_item_new 3 ''c'' ''z''))"
    "wm_capacity (wm_conf two_items) \<le> wm_len two_items"
    "fst (wm_push 3 3 two_items (memory_item_new 3 ''c'' ''z'')) = Some (memory_item_new 1 ''a'' ''x'')"
    by code_simp+
  ultimately show ?thesis by (rule push_eviction_policy [THEN conjunct1])
qed

text \<open>A memory that respects its positive capacity still does after a push, provided the clock
  has moved past the last access of some stored item.\<close>

theorem push_respects_capacity:
  assumes "wm_ok wm" and "0 < wm_capacity (wm_conf wm)" and "wm_len wm \<le> wm_capacity (wm_conf wm)"
    and "\<exists>i. stored wm i \<and> last_accessed i < now'"
  shows "wm_len (snd (wm_push now now' wm item)) \<le> wm_capacity (wm_conf wm)"
proof (cases "\<not> hmem (wm_items wm) (item_id item) \<and> wm_capacity (wm_conf wm) \<le> wm_len wm")
  case True
  let ?wm = "wm\<lparr> dirty := True \<rparr>"
  have ok: "wm_ok ?wm" using assms(1) by simp
  obtain victim wm' where ev: "evict_oldest now now' ?wm = (victim, wm')" by fastforce
  have "stored ?wm = stored wm" by (auto simp: stored_def fun_eq_iff)
  have "victim \<noteq> None"
  proof
    assume "victim = None"
    then have "\<forall>i. stored ?wm i \<longrightarrow> now' \<le> last_accessed i"
      using evict_cases [OF ok, of now' now] unfolding ev by simp
    then show False using assms(4) \<open>stored ?wm = stored wm\<close> by force
  qed
  then have "length (wm_items wm') = wm_len wm - 1"
    using evict_length [OF ok, of now now'] ev by (auto simp: wm_len_def)
  moreover have "wm_len (snd (wm_push now now' wm item)) \<le> Suc (length (wm_items wm'))"
    using True ev by (simp add: wm_push_def wm_len_def length_hput)
  ultimately show ?thesis using assms(2,3) by linarith
next
  case False
  then show ?thesis using assms(3)
    by (auto simp: wm_push_def wm_len_def length_hput Let_def hmem_def split: if_splits)
qed

theorem push_respects_capacity_witness:
  "wm_len (snd (wm_push 3 3 two_items (memory_item_new 3 ''c'' ''z''))) \<le> 2"
proof -
  have "wm_ok two_items" unfolding two_items_def by (intro wm_ok_push wm_ok_new)
  moreover have "0 < wm_capacity (wm_conf two_items)" "wm_len two_items \<le> wm_capacity (wm_conf two_items)" by code_simp+
  moreover have "stored two_items (memory_item_new 1 ''a'' ''x'')"
    "last_accessed (memory_item_new 1 ''a'' ''x'') < 3" unfolding stored_def by code_simp+
  ultimately have "wm_len (snd (wm_push 3 3 two_items (memory_item_new 3 ''c'' ''z''))) \<le> wm_capacity (wm_conf two_items)"
    by (intro push_respects_capacity) blast+
  also have "wm_capacity (wm_conf two_items) = 2" by code_simp
  finally show ?thesis .
qed

text \<open>When no stored item is older than the clock reading (a coarse or stepped-back clock, or items
  restored with later stamps) the eviction finds no victim and the push exceeds the capacity.\<close>

theorem push_exceeds_capacity_on_stale_clock:
  assumes "wm_ok wm" and "\<not> hmem (wm_items wm) (item_id item)" and "wm_len wm = wm_capacity (wm_conf wm)"
    and "\<And>i. stored wm i \<Longrightarrow> now \<le> created_at i \<and> now' \<le> last_accessed i"
  shows "fst (wm_push now now' wm item) = None
    \<and> wm_len (snd (wm_push now now' wm item)) = wm_capacity (wm_conf wm) + 1"
proof -
  let ?wm = "wm\<lparr> dirty := True \<rparr>"
  have ok: "wm_ok ?wm" using assms(1) by simp
  have same: "stored ?wm = stored wm" by (auto simp: stored_def fun_eq_iff)
  obtain victim wm' where ev: "evict_oldest now now' ?wm = (victim, wm')" by fastforce
  have fifo: "scan_oldest (wm_items ?wm) (\<lambda>i. access_count i < lru_exempt_access_threshold (wm_conf ?wm))
      created_at now (items_queue ?wm) = None"
    and lru: "scan_oldest (wm_items ?wm) (\<lambda>i. True) last_accessed now' (items_queue ?wm) = None"
    unfolding scan_oldest_None_iff scanned_queue [OF ok] using assms(4)
    by (auto simp: stored_iff [OF assms(1)])
  then have "evict_oldest now now' ?wm = (None, ?wm)" by (simp add: evict_oldest_def)
  then show ?thesis using assms(2,3) by (simp add: wm_push_def wm_len_def length_hput)
qed

theorem push_exceeds_capacity_on_stale_clock_witness:
  "wm_len (snd (wm_push 1 1 two_items (memory_item_new 1 ''c'' ''z''))) = 3"
proof -
  have ok: "wm_ok two_items" unfolding two_items_def by (intro wm_ok_push wm_ok_new)
  have items: "wm_items two_items = [(''a'', memory_item_new 1 ''a'' ''x''), (''b'', memory_item_new 2 ''b'' ''y'')]"
    by code_simp
  have "1 \<le> created_at i \<and> 1 \<le> last_accessed i" if "stored two_items i" for i
    using that unfolding stored_def items by (auto simp: memory_item_new_def split: if_splits)
  note old = this
  have new: "\<not> hmem (wm_items two_items) (item_id (memory_item_new 1 ''c'' ''z''))"
    "wm_len two_items = wm_capacity (wm_conf two_items)" by code_simp+
  have "wm_len (snd (wm_push 1 1 two_items (memory_item_new 1 ''c'' ''z''))) = wm_capacity (wm_conf two_items) + 1"
    using push_exceeds_capacity_on_stale_clock [OF ok new old] by blast
  also have "wm_capacity (wm_conf two_items) = 2" by code_simp
  finally show ?thesis by simp
qed

text \<open>A saved snapshot restored into a new memory of at least that capacity brings back the same
  items in the same order, without evicting any, and leaves the memory clean.\<close>

theorem snapshot_roundtrip:
  assumes "wm_ok wm" and "wm_len wm \<le> wm_capacity config"
    and "save_snapshot True wm old = (r, saved, file)"
  shows "fst (restore_snapshot clk (wm_with_config config) file) = wm_len wm
    \<and> items_in_order (snd (restore_snapshot clk (wm_with_config config) file)) = items_in_order wm
    \<and> \<not> dirty (snd (restore_snapshot clk (wm_with_config config) file)) \<and> \<not> dirty saved"
proof -
  have written: "file = Snap SNAPSHOT_VERSION (items_in_order wm)" and saved: "\<not> dirty saved"
    using assms(3) by (auto simp: save_snapshot_def)
  have ids: "map item_id (items_in_order wm) = items_queue wm" by (rule items_in_order_ids [OF assms(1)])
  then have len: "length (items_in_order wm) = wm_len wm"
    using wm_length [OF assms(1)] by (metis length_map wm_len_def)
  obtain n wm' where out: "foldl (restore_step clk) (0, wm_with_config config) (items_in_order wm) = (n, wm')"
    by fastforce
  have "case foldl (restore_step clk) (0, wm_with_config config) (items_in_order wm) of (n', wm') \<Rightarrow>
     n' = 0 + length (items_in_order wm)
     \<and> items_in_order wm' = items_in_order (wm_with_config config) @ items_in_order wm \<and> wm_ok wm'"
  proof (rule restore_fresh)
    show "distinct (map item_id (items_in_order wm))" using ids assms(1) by (simp add: wm_ok_def)
    show "length (wm_items (wm_with_config config)) + length (items_in_order wm)
        \<le> wm_capacity (wm_conf (wm_with_config config))"
      using len assms(2) by (simp add: wm_with_config_def)
  qed (auto simp: wm_with_config_def hmem_def wm_ok_new [unfolded wm_with_config_def])
  then show ?thesis using out len assms(2) saved
    by (simp add: restore_snapshot_def written items_in_order_def wm_with_config_def List.map_filter_def)
qed

theorem snapshot_roundtrip_witness:
  "items_in_order (snd (restore_snapshot (\<lambda>i. (5, 5)) (wm_with_config wm_config_default)
     (snd (snd (save_snapshot True two_items SnapMissing))))) = items_in_order two_items"
proof -
  have "wm_ok two_items" unfolding two_items_def by (intro wm_ok_push wm_ok_new)
  moreover have "wm_len two_items \<le> wm_capacity wm_config_default" by code_simp
  moreover obtain r saved snap where "save_snapshot True two_items SnapMissing = (r, saved, snap)"
    by (metis prod_cases3)
  ultimately show ?thesis using snapshot_roundtrip by fastforce
qed

end
