(* ===== verification/MemoryStore.thy ===== *)
theory MemoryStore
  imports Clearance
begin

text \<open>The durable memory stores: the record types (\<open>src/src/domain/cycle_breaks/w30_12.rs\<close>), the
  in-memory and the file store (\<open>src/src/memory/store.rs\<close>) and the fallback chain
  (\<open>src/src/memory/fallback_store.rs\<close>). A lock-protected state is passed explicitly. An f32 is kept as
  its bit pattern and a time as an integer number of nanoseconds. The contract that users of a store
  rely on is the locale \<open>record_store\<close>, interpreted on both stores.\<close>

section \<open>Records\<close>

datatype memory_level = Raw | Processed | Extracted | Belief

primrec memory_level_as_str :: "memory_level \<Rightarrow> string" where
  "memory_level_as_str Raw = ''raw''"
| "memory_level_as_str Processed = ''processed''"
| "memory_level_as_str Extracted = ''extracted''"
| "memory_level_as_str Belief = ''belief''"

definition memory_level_parse :: "string \<Rightarrow> memory_level" where
  "memory_level_parse s =
     (let v = ascii_lower s in
      if v = ''processed'' then Processed
      else if v = ''extracted'' then Extracted
      else if v = ''belief'' then Belief
      else Raw)"

record relation_kind =
  rk_name :: string
  rk_inverse :: "string option"

record memory_revision =
  rev_number :: "64 word"
  rev_recorded_at :: int
  rev_path :: string
  rev_content :: string
  rev_metadata :: json

record memory_record =
  mr_id :: string
  mr_workspace_id :: string
  mr_path :: string
  mr_content :: string
  mr_metadata :: json
  mr_embedding :: "32 word list"
  mr_created_at :: int
  mr_updated_at :: int
  mr_revision :: "64 word"
  mr_primary :: bool
  mr_parent_id :: "string option"
  mr_cluster_id :: "string option"
  mr_level :: memory_level
  mr_relation :: "relation_kind option"
  mr_clearance :: clearance
  mr_revisions :: "memory_revision list"
  mr_encrypted_dek :: "8 word list option"
  mr_content_iv :: "8 word list option"
  mr_metadata_iv :: "8 word list option"
  mr_score :: "32 word"
  mr_deleted_at :: "int option"
  mr_embedding_status :: string
  mr_embedding_attempts :: "32 word"

record checkpoint =
  cp_task_id :: string
  cp_name :: string
  cp_data :: json

record session_token =
  st_token :: string
  st_created_at :: int
  st_expires_at :: int

text \<open>Belief edges are stored and returned as a whole; they are kept as JSON.\<close>

record workspace_state =
  ws_memories :: "memory_record list"
  ws_beliefs :: "json list"
  ws_session_tokens :: "session_token list"
  ws_checkpoints :: "checkpoint list"
  ws_entity_graph :: "string option"

definition workspace_default :: workspace_state where
  "workspace_default =
     \<lparr> ws_memories = [], ws_beliefs = [], ws_session_tokens = [], ws_checkpoints = [], ws_entity_graph = None \<rparr>"

type_synonym durable_store = "(string, workspace_state) hmap"

definition workspace_of :: "durable_store \<Rightarrow> string \<Rightarrow> workspace_state" where
  "workspace_of st wid = (case hget st wid of Some w \<Rightarrow> w | None \<Rightarrow> workspace_default)"

text \<open>\<open>entry(id).or_default()\<close> followed by a change of the workspace.\<close>

definition workspace_mut :: "string \<Rightarrow> (workspace_state \<Rightarrow> workspace_state) \<Rightarrow> durable_store \<Rightarrow> durable_store" where
  "workspace_mut wid f st = hput wid (f (workspace_of st wid)) st"

definition key_matches :: "string \<Rightarrow> memory_record \<Rightarrow> bool" where
  "key_matches k r = (mr_id r = k \<or> mr_path r = k)"

definition revisioned_record :: "int \<Rightarrow> memory_record \<Rightarrow> memory_record \<Rightarrow> memory_record" where
  "revisioned_record now existing nxt =
     (let revision = mr_revision existing + 1 in
      nxt\<lparr> mr_id := mr_id existing,
           mr_created_at := mr_created_at existing,
           mr_updated_at := now,
           mr_revision := revision,
           mr_revisions := mr_revisions existing @
             [\<lparr> rev_number = revision, rev_recorded_at = now, rev_path = mr_path nxt,
                rev_content = mr_content nxt, rev_metadata = mr_metadata nxt \<rparr>] \<rparr>)"

section \<open>The in-memory store\<close>

definition put_record :: "memory_record \<Rightarrow> workspace_state \<Rightarrow> workspace_state" where
  "put_record r w = w\<lparr> ws_memories := filter (\<lambda>item. mr_id item \<noteq> mr_id r) (ws_memories w) @ [r] \<rparr>"

definition mem_put :: "durable_store \<Rightarrow> memory_record \<Rightarrow> (unit, string) result \<times> durable_store" where
  "mem_put st r = (Ok (), workspace_mut (mr_workspace_id r) (put_record r) st)"

definition mem_get :: "durable_store \<Rightarrow> string \<Rightarrow> string \<Rightarrow> (memory_record option, string) result" where
  "mem_get st wid k =
     Ok (case hget st wid of None \<Rightarrow> None | Some w \<Rightarrow> find (key_matches k) (ws_memories w))"

definition mem_update :: "durable_store \<Rightarrow> memory_record \<Rightarrow> (unit, string) result \<times> durable_store" where
  "mem_update st r = mem_put st r"

text \<open>Both branches on the length return nothing, also when records were removed.\<close>

definition mem_delete ::
  "durable_store \<Rightarrow> string \<Rightarrow> string \<Rightarrow> (memory_record option, string) result \<times> durable_store"
where
  "mem_delete st wid k =
     (case hget st wid of
        None \<Rightarrow> (Ok None, st)
      | Some w \<Rightarrow>
          let kept = filter (\<lambda>item. mr_id item \<noteq> k \<and> mr_path item \<noteq> k) (ws_memories w);
              st' = hput wid (w\<lparr> ws_memories := kept \<rparr>) st in
          if length kept = length (ws_memories w) then (Ok None, st') else (Ok None, st'))"

definition mem_list :: "durable_store \<Rightarrow> string \<Rightarrow> (memory_record list, string) result" where
  "mem_list st wid = Ok (case hget st wid of None \<Rightarrow> [] | Some w \<Rightarrow> ws_memories w)"

definition mem_load_workspace_state :: "durable_store \<Rightarrow> string \<Rightarrow> (workspace_state, string) result" where
  "mem_load_workspace_state st wid = Ok (workspace_of st wid)"

definition mem_save_beliefs :: "durable_store \<Rightarrow> string \<Rightarrow> json list \<Rightarrow> (unit, string) result \<times> durable_store" where
  "mem_save_beliefs st wid beliefs = (Ok (), workspace_mut wid (\<lambda>w. w\<lparr> ws_beliefs := beliefs \<rparr>) st)"

definition mem_save_session_token ::
  "durable_store \<Rightarrow> string \<Rightarrow> session_token \<Rightarrow> (unit, string) result \<times> durable_store"
where
  "mem_save_session_token st wid token =
     (Ok (), workspace_mut wid
        (\<lambda>w. w\<lparr> ws_session_tokens :=
                  filter (\<lambda>t. st_token t \<noteq> st_token token) (ws_session_tokens w) @ [token] \<rparr>) st)"

definition mem_is_session_token_valid :: "int \<Rightarrow> durable_store \<Rightarrow> string \<Rightarrow> string \<Rightarrow> (bool, string) result" where
  "mem_is_session_token_valid now st wid token =
     Ok (case hget st wid of
           None \<Rightarrow> False
         | Some w \<Rightarrow> list_ex (\<lambda>t. st_token t = token \<and> st_expires_at t > now) (ws_session_tokens w))"

definition same_checkpoint :: "string \<Rightarrow> string \<Rightarrow> checkpoint \<Rightarrow> bool" where
  "same_checkpoint task_id name c = (cp_task_id c = task_id \<and> cp_name c = name)"

definition put_checkpoint :: "checkpoint \<Rightarrow> workspace_state \<Rightarrow> workspace_state" where
  "put_checkpoint c w =
     w\<lparr> ws_checkpoints :=
          filter (\<lambda>i. \<not> same_checkpoint (cp_task_id c) (cp_name c) i) (ws_checkpoints w) @ [c] \<rparr>"

definition mem_save_checkpoint ::
  "durable_store \<Rightarrow> string \<Rightarrow> checkpoint \<Rightarrow> (unit, string) result \<times> durable_store"
where
  "mem_save_checkpoint st wid c = (Ok (), workspace_mut wid (put_checkpoint c) st)"

definition mem_load_checkpoint ::
  "durable_store \<Rightarrow> string \<Rightarrow> string \<Rightarrow> string \<Rightarrow> (checkpoint option, string) result"
where
  "mem_load_checkpoint st wid task_id name =
     Ok (case hget st wid of None \<Rightarrow> None | Some w \<Rightarrow> find (same_checkpoint task_id name) (ws_checkpoints w))"

definition mem_list_checkpoints :: "durable_store \<Rightarrow> string \<Rightarrow> string \<Rightarrow> (checkpoint list, string) result" where
  "mem_list_checkpoints st wid task_id =
     Ok (case hget st wid of None \<Rightarrow> [] | Some w \<Rightarrow> filter (\<lambda>c. cp_task_id c = task_id) (ws_checkpoints w))"

definition mem_delete_checkpoint ::
  "durable_store \<Rightarrow> string \<Rightarrow> string \<Rightarrow> string \<Rightarrow> (unit, string) result \<times> durable_store"
where
  "mem_delete_checkpoint st wid task_id name =
     (Ok (), (case hget st wid of
                None \<Rightarrow> st
              | Some w \<Rightarrow> hput wid (w\<lparr> ws_checkpoints :=
                            filter (\<lambda>c. \<not> same_checkpoint task_id name c) (ws_checkpoints w) \<rparr>) st))"

definition mem_list_workspaces :: "durable_store \<Rightarrow> (string list, string) result" where
  "mem_list_workspaces st = Ok (hkeys st)"

definition mem_load_entity_graph :: "durable_store \<Rightarrow> string \<Rightarrow> (string option, string) result" where
  "mem_load_entity_graph st wid = Ok (case hget st wid of None \<Rightarrow> None | Some w \<Rightarrow> ws_entity_graph w)"

definition mem_save_entity_graph :: "durable_store \<Rightarrow> string \<Rightarrow> string \<Rightarrow> (unit, string) result \<times> durable_store" where
  "mem_save_entity_graph st wid data =
     (Ok (), workspace_mut wid (\<lambda>w. w\<lparr> ws_entity_graph := Some data \<rparr>) st)"

section \<open>The file store\<close>

text \<open>The state in memory and the content of the JSON file (\<open>None\<close> when there is none or it cannot be
  parsed); \<open>io\<close> tells whether a write succeeds.\<close>

record file_store =
  fs_state :: durable_store
  fs_disk :: "durable_store option"

definition file_store_new :: "durable_store option \<Rightarrow> file_store" where
  "file_store_new disk =
     \<lparr> fs_state = (case disk of Some st \<Rightarrow> st | None \<Rightarrow> []), fs_disk = disk \<rparr>"

definition persist :: "bool \<Rightarrow> file_store \<Rightarrow> (unit, string) result \<times> file_store" where
  "persist io fs = (if io then (Ok (), fs\<lparr> fs_disk := Some (fs_state fs) \<rparr>) else (Err ''persist failed'', fs))"

definition file_put :: "bool \<Rightarrow> file_store \<Rightarrow> memory_record \<Rightarrow> (unit, string) result \<times> file_store" where
  "file_put io fs r =
     persist io (fs\<lparr> fs_state := workspace_mut (mr_workspace_id r) (put_record r) (fs_state fs) \<rparr>)"

definition file_get :: "file_store \<Rightarrow> string \<Rightarrow> string \<Rightarrow> (memory_record option, string) result" where
  "file_get fs wid k =
     Ok (case hget (fs_state fs) wid of None \<Rightarrow> None | Some w \<Rightarrow> find (key_matches k) (ws_memories w))"

text \<open>Replaces the first record with the same id or path by its next revision.\<close>

fun update_first :: "int \<Rightarrow> memory_record \<Rightarrow> memory_record list \<Rightarrow> memory_record list" where
  "update_first now r [] = [r]"
| "update_first now r (item # items) =
     (if mr_id item = mr_id r \<or> mr_path item = mr_path r then revisioned_record now item r # items
      else item # update_first now r items)"

definition file_update :: "bool \<Rightarrow> int \<Rightarrow> file_store \<Rightarrow> memory_record \<Rightarrow> (unit, string) result \<times> file_store" where
  "file_update io now fs r =
     persist io (fs\<lparr> fs_state := workspace_mut (mr_workspace_id r)
        (\<lambda>w. w\<lparr> ws_memories := update_first now r (ws_memories w) \<rparr>) (fs_state fs) \<rparr>)"

definition remove_first :: "('a \<Rightarrow> bool) \<Rightarrow> 'a list \<Rightarrow> 'a list" where
  "remove_first P xs = takeWhile (\<lambda>x. \<not> P x) xs @ drop 1 (dropWhile (\<lambda>x. \<not> P x) xs)"

definition is_child_of :: "memory_record \<Rightarrow> memory_record \<Rightarrow> bool" where
  "is_child_of parent item = (mr_parent_id item = Some (mr_id parent) \<or> mr_parent_id item = Some (mr_path parent))"

definition file_delete ::
  "bool \<Rightarrow> file_store \<Rightarrow> string \<Rightarrow> string \<Rightarrow> (memory_record option, string) result \<times> file_store"
where
  "file_delete io fs wid k =
     (let w = workspace_of (fs_state fs) wid;
          removed = find (key_matches k) (ws_memories w);
          kept = (case removed of
                    None \<Rightarrow> ws_memories w
                  | Some r \<Rightarrow> filter (\<lambda>item. \<not> is_child_of r item) (remove_first (key_matches k) (ws_memories w)));
          fs' = fs\<lparr> fs_state := workspace_mut wid (\<lambda>w. w\<lparr> ws_memories := kept \<rparr>) (fs_state fs) \<rparr> in
      if removed \<noteq> None then
        (case persist io fs' of (Inl e, fs'') \<Rightarrow> (Err e, fs'') | (Inr _, fs'') \<Rightarrow> (Ok removed, fs''))
      else (Ok removed, fs'))"

definition file_list :: "file_store \<Rightarrow> string \<Rightarrow> (memory_record list, string) result" where
  "file_list fs wid = mem_list (fs_state fs) wid"

definition file_save_beliefs :: "bool \<Rightarrow> file_store \<Rightarrow> string \<Rightarrow> json list \<Rightarrow> (unit, string) result \<times> file_store" where
  "file_save_beliefs io fs wid beliefs =
     persist io (fs\<lparr> fs_state := workspace_mut wid (\<lambda>w. w\<lparr> ws_beliefs := beliefs \<rparr>) (fs_state fs) \<rparr>)"

text \<open>Saving a token also drops the expired ones here.\<close>

definition file_save_session_token ::
  "bool \<Rightarrow> int \<Rightarrow> file_store \<Rightarrow> string \<Rightarrow> session_token \<Rightarrow> (unit, string) result \<times> file_store"
where
  "file_save_session_token io now fs wid token =
     persist io (fs\<lparr> fs_state := workspace_mut wid
        (\<lambda>w. w\<lparr> ws_session_tokens :=
                  filter (\<lambda>t. st_expires_at t > now \<and> st_token t \<noteq> st_token token) (ws_session_tokens w)
                  @ [token] \<rparr>) (fs_state fs) \<rparr>)"

definition file_is_session_token_valid :: "int \<Rightarrow> file_store \<Rightarrow> string \<Rightarrow> string \<Rightarrow> (bool, string) result" where
  "file_is_session_token_valid now fs wid token = mem_is_session_token_valid now (fs_state fs) wid token"

definition file_save_checkpoint :: "bool \<Rightarrow> file_store \<Rightarrow> string \<Rightarrow> checkpoint \<Rightarrow> (unit, string) result \<times> file_store" where
  "file_save_checkpoint io fs wid c =
     persist io (fs\<lparr> fs_state := workspace_mut wid (put_checkpoint c) (fs_state fs) \<rparr>)"

definition file_load_checkpoint ::
  "file_store \<Rightarrow> string \<Rightarrow> string \<Rightarrow> string \<Rightarrow> (checkpoint option, string) result"
where
  "file_load_checkpoint fs wid task_id name = mem_load_checkpoint (fs_state fs) wid task_id name"

definition file_list_checkpoints :: "file_store \<Rightarrow> string \<Rightarrow> string \<Rightarrow> (checkpoint list, string) result" where
  "file_list_checkpoints fs wid task_id = mem_list_checkpoints (fs_state fs) wid task_id"

definition file_delete_checkpoint ::
  "bool \<Rightarrow> file_store \<Rightarrow> string \<Rightarrow> string \<Rightarrow> string \<Rightarrow> (unit, string) result \<times> file_store"
where
  "file_delete_checkpoint io fs wid task_id name =
     persist io (fs\<lparr> fs_state := workspace_mut wid
        (\<lambda>w. w\<lparr> ws_checkpoints := filter (\<lambda>c. \<not> same_checkpoint task_id name c) (ws_checkpoints w) \<rparr>)
        (fs_state fs) \<rparr>)"

definition file_save_entity_graph :: "bool \<Rightarrow> file_store \<Rightarrow> string \<Rightarrow> string \<Rightarrow> (unit, string) result \<times> file_store" where
  "file_save_entity_graph io fs wid data =
     persist io (fs\<lparr> fs_state := workspace_mut wid (\<lambda>w. w\<lparr> ws_entity_graph := Some data \<rparr>) (fs_state fs) \<rparr>)"

definition file_load_workspace_state :: "file_store \<Rightarrow> string \<Rightarrow> (workspace_state, string) result" where
  "file_load_workspace_state fs wid = mem_load_workspace_state (fs_state fs) wid"

definition file_list_workspaces :: "file_store \<Rightarrow> (string list, string) result" where
  "file_list_workspaces fs = mem_list_workspaces (fs_state fs)"

definition file_load_entity_graph :: "file_store \<Rightarrow> string \<Rightarrow> (string option, string) result" where
  "file_load_entity_graph fs wid = mem_load_entity_graph (fs_state fs) wid"

section \<open>The fallback chain\<close>

text \<open>The three loops of the chain over an operation of one store: until the first success, until the
  first success that carries something, and the same for read-only operations.\<close>

definition no_stores :: string where
  "no_stores = ''FallbackMemoryStore: no stores configured''"

fun first_ok :: "('s \<Rightarrow> ('a, string) result \<times> 's) \<Rightarrow> string option \<Rightarrow> 's list \<Rightarrow> ('a, string) result \<times> 's list" where
  "first_ok f last_err [] = (Err (case last_err of Some e \<Rightarrow> e | None \<Rightarrow> no_stores), [])"
| "first_ok f last_err (s # ss) =
     (case f s of
        (Inr a, s') \<Rightarrow> (Ok a, s' # ss)
      | (Inl e, s') \<Rightarrow> (let (r, ss') = first_ok f (Some e) ss in (r, s' # ss')))"

fun first_found ::
  "('s \<Rightarrow> ('a, string) result \<times> 's) \<Rightarrow> ('a \<Rightarrow> bool) \<Rightarrow> 'a \<Rightarrow> string option \<Rightarrow> 's list \<Rightarrow> ('a, string) result \<times> 's list"
where
  "first_found f found nothing last_err [] =
     (case last_err of Some e \<Rightarrow> Err e | None \<Rightarrow> Ok nothing, [])"
| "first_found f found nothing last_err (s # ss) =
     (case f s of
        (Inr a, s') \<Rightarrow>
          if found a then (Ok a, s' # ss)
          else (let (r, ss') = first_found f found nothing last_err ss in (r, s' # ss'))
      | (Inl e, s') \<Rightarrow> (let (r, ss') = first_found f found nothing (Some e) ss in (r, s' # ss')))"

definition first_read ::
  "('s \<Rightarrow> ('a, string) result) \<Rightarrow> ('a \<Rightarrow> bool) \<Rightarrow> 'a \<Rightarrow> 's list \<Rightarrow> ('a, string) result"
where
  "first_read f found nothing ss = fst (first_found (\<lambda>s. (f s, s)) found nothing None ss)"

text \<open>The store trait: what the chain calls on each of its members.\<close>

record 's store_ops =
  op_put :: "'s \<Rightarrow> memory_record \<Rightarrow> (unit, string) result \<times> 's"
  op_get :: "'s \<Rightarrow> string \<Rightarrow> string \<Rightarrow> (memory_record option, string) result"
  op_update :: "'s \<Rightarrow> memory_record \<Rightarrow> (unit, string) result \<times> 's"
  op_delete :: "'s \<Rightarrow> string \<Rightarrow> string \<Rightarrow> (memory_record option, string) result \<times> 's"
  op_list :: "'s \<Rightarrow> string \<Rightarrow> (memory_record list, string) result"
  op_load_workspace_state :: "'s \<Rightarrow> string \<Rightarrow> (workspace_state, string) result"
  op_save_beliefs :: "'s \<Rightarrow> string \<Rightarrow> json list \<Rightarrow> (unit, string) result \<times> 's"
  op_save_session_token :: "'s \<Rightarrow> string \<Rightarrow> session_token \<Rightarrow> (unit, string) result \<times> 's"
  op_is_session_token_valid :: "'s \<Rightarrow> string \<Rightarrow> string \<Rightarrow> (bool, string) result"
  op_save_checkpoint :: "'s \<Rightarrow> string \<Rightarrow> checkpoint \<Rightarrow> (unit, string) result \<times> 's"
  op_load_checkpoint :: "'s \<Rightarrow> string \<Rightarrow> string \<Rightarrow> string \<Rightarrow> (checkpoint option, string) result"
  op_list_checkpoints :: "'s \<Rightarrow> string \<Rightarrow> string \<Rightarrow> (checkpoint list, string) result"
  op_delete_checkpoint :: "'s \<Rightarrow> string \<Rightarrow> string \<Rightarrow> string \<Rightarrow> (unit, string) result \<times> 's"
  op_list_workspaces :: "'s \<Rightarrow> (string list, string) result"
  op_load_entity_graph :: "'s \<Rightarrow> string \<Rightarrow> (string option, string) result"
  op_save_entity_graph :: "'s \<Rightarrow> string \<Rightarrow> string \<Rightarrow> (unit, string) result \<times> 's"

definition fallback_put :: "'s store_ops \<Rightarrow> 's list \<Rightarrow> memory_record \<Rightarrow> (unit, string) result \<times> 's list" where
  "fallback_put ops stores r = first_ok (\<lambda>s. op_put ops s r) None stores"

definition fallback_get :: "'s store_ops \<Rightarrow> 's list \<Rightarrow> string \<Rightarrow> string \<Rightarrow> (memory_record option, string) result" where
  "fallback_get ops stores wid k = first_read (\<lambda>s. op_get ops s wid k) (\<lambda>r. r \<noteq> None) None stores"

definition fallback_update :: "'s store_ops \<Rightarrow> 's list \<Rightarrow> memory_record \<Rightarrow> (unit, string) result \<times> 's list" where
  "fallback_update ops stores r = first_ok (\<lambda>s. op_update ops s r) None stores"

definition fallback_delete ::
  "'s store_ops \<Rightarrow> 's list \<Rightarrow> string \<Rightarrow> string \<Rightarrow> (memory_record option, string) result \<times> 's list"
where
  "fallback_delete ops stores wid k =
     first_found (\<lambda>s. op_delete ops s wid k) (\<lambda>r. r \<noteq> None) None None stores"

definition fallback_list :: "'s store_ops \<Rightarrow> 's list \<Rightarrow> string \<Rightarrow> (memory_record list, string) result" where
  "fallback_list ops stores wid = first_read (\<lambda>s. op_list ops s wid) (\<lambda>l. l \<noteq> []) [] stores"

text \<open>The state of the first store with memories, else the first state that could be loaded.\<close>

fun fallback_load_loop ::
  "('s \<Rightarrow> (workspace_state, string) result) \<Rightarrow> workspace_state option \<Rightarrow> string option \<Rightarrow> 's list \<Rightarrow>
     (workspace_state, string) result"
where
  "fallback_load_loop f fallback_state last_err [] =
     (case fallback_state of
        Some state \<Rightarrow> Ok state
      | None \<Rightarrow> (case last_err of Some e \<Rightarrow> Err e | None \<Rightarrow> Ok workspace_default))"
| "fallback_load_loop f fallback_state last_err (s # ss) =
     (case f s of
        Inr state \<Rightarrow>
          if ws_memories state \<noteq> [] then Ok state
          else fallback_load_loop f (if fallback_state = None then Some state else fallback_state) last_err ss
      | Inl e \<Rightarrow> fallback_load_loop f fallback_state (Some e) ss)"

definition fallback_load_workspace_state ::
  "'s store_ops \<Rightarrow> 's list \<Rightarrow> string \<Rightarrow> (workspace_state, string) result"
where
  "fallback_load_workspace_state ops stores wid =
     fallback_load_loop (\<lambda>s. op_load_workspace_state ops s wid) None None stores"

definition fallback_save_beliefs ::
  "'s store_ops \<Rightarrow> 's list \<Rightarrow> string \<Rightarrow> json list \<Rightarrow> (unit, string) result \<times> 's list"
where
  "fallback_save_beliefs ops stores wid b = first_ok (\<lambda>s. op_save_beliefs ops s wid b) None stores"

definition fallback_save_session_token ::
  "'s store_ops \<Rightarrow> 's list \<Rightarrow> string \<Rightarrow> session_token \<Rightarrow> (unit, string) result \<times> 's list"
where
  "fallback_save_session_token ops stores wid t = first_ok (\<lambda>s. op_save_session_token ops s wid t) None stores"

definition fallback_is_session_token_valid ::
  "'s store_ops \<Rightarrow> 's list \<Rightarrow> string \<Rightarrow> string \<Rightarrow> (bool, string) result"
where
  "fallback_is_session_token_valid ops stores wid t =
     first_read (\<lambda>s. op_is_session_token_valid ops s wid t) (\<lambda>b. b) False stores"

definition fallback_save_checkpoint ::
  "'s store_ops \<Rightarrow> 's list \<Rightarrow> string \<Rightarrow> checkpoint \<Rightarrow> (unit, string) result \<times> 's list"
where
  "fallback_save_checkpoint ops stores wid c = first_ok (\<lambda>s. op_save_checkpoint ops s wid c) None stores"

definition fallback_load_checkpoint ::
  "'s store_ops \<Rightarrow> 's list \<Rightarrow> string \<Rightarrow> string \<Rightarrow> string \<Rightarrow> (checkpoint option, string) result"
where
  "fallback_load_checkpoint ops stores wid task_id name =
     first_read (\<lambda>s. op_load_checkpoint ops s wid task_id name) (\<lambda>c. c \<noteq> None) None stores"

definition fallback_list_checkpoints ::
  "'s store_ops \<Rightarrow> 's list \<Rightarrow> string \<Rightarrow> string \<Rightarrow> (checkpoint list, string) result"
where
  "fallback_list_checkpoints ops stores wid task_id =
     first_read (\<lambda>s. op_list_checkpoints ops s wid task_id) (\<lambda>l. l \<noteq> []) [] stores"

definition fallback_delete_checkpoint ::
  "'s store_ops \<Rightarrow> 's list \<Rightarrow> string \<Rightarrow> string \<Rightarrow> string \<Rightarrow> (unit, string) result \<times> 's list"
where
  "fallback_delete_checkpoint ops stores wid task_id name =
     first_ok (\<lambda>s. op_delete_checkpoint ops s wid task_id name) None stores"

definition fallback_list_workspaces :: "'s store_ops \<Rightarrow> 's list \<Rightarrow> (string list, string) result" where
  "fallback_list_workspaces ops stores = first_read (\<lambda>s. op_list_workspaces ops s) (\<lambda>l. l \<noteq> []) [] stores"

definition fallback_load_entity_graph :: "'s store_ops \<Rightarrow> 's list \<Rightarrow> string \<Rightarrow> (string option, string) result" where
  "fallback_load_entity_graph ops stores wid =
     first_read (\<lambda>s. op_load_entity_graph ops s wid) (\<lambda>g. g \<noteq> None) None stores"

definition fallback_save_entity_graph ::
  "'s store_ops \<Rightarrow> 's list \<Rightarrow> string \<Rightarrow> string \<Rightarrow> (unit, string) result \<times> 's list"
where
  "fallback_save_entity_graph ops stores wid data = first_ok (\<lambda>s. op_save_entity_graph ops s wid data) None stores"

text \<open>The two stores of this theory as members of a chain; the flag of a file store is the outcome of
  its next write and \<open>now\<close> the clock.\<close>

datatype store_impl = MemImpl durable_store | FileImpl bool file_store

primrec impl_put :: "store_impl \<Rightarrow> memory_record \<Rightarrow> (unit, string) result \<times> store_impl" where
  "impl_put (MemImpl st) r = map_prod id MemImpl (mem_put st r)"
| "impl_put (FileImpl io fs) r = map_prod id (FileImpl io) (file_put io fs r)"

primrec impl_get :: "store_impl \<Rightarrow> string \<Rightarrow> string \<Rightarrow> (memory_record option, string) result" where
  "impl_get (MemImpl st) wid k = mem_get st wid k"
| "impl_get (FileImpl io fs) wid k = file_get fs wid k"

primrec impl_update :: "int \<Rightarrow> store_impl \<Rightarrow> memory_record \<Rightarrow> (unit, string) result \<times> store_impl" where
  "impl_update now (MemImpl st) r = map_prod id MemImpl (mem_update st r)"
| "impl_update now (FileImpl io fs) r = map_prod id (FileImpl io) (file_update io now fs r)"

primrec impl_delete :: "store_impl \<Rightarrow> string \<Rightarrow> string \<Rightarrow> (memory_record option, string) result \<times> store_impl" where
  "impl_delete (MemImpl st) wid k = map_prod id MemImpl (mem_delete st wid k)"
| "impl_delete (FileImpl io fs) wid k = map_prod id (FileImpl io) (file_delete io fs wid k)"

primrec impl_state :: "store_impl \<Rightarrow> durable_store" where
  "impl_state (MemImpl st) = st"
| "impl_state (FileImpl io fs) = fs_state fs"

primrec impl_save ::
  "(durable_store \<Rightarrow> (unit, string) result \<times> durable_store) \<Rightarrow>
   (bool \<Rightarrow> file_store \<Rightarrow> (unit, string) result \<times> file_store) \<Rightarrow> store_impl \<Rightarrow> (unit, string) result \<times> store_impl"
where
  "impl_save f g (MemImpl st) = map_prod id MemImpl (f st)"
| "impl_save f g (FileImpl io fs) = map_prod id (FileImpl io) (g io fs)"

definition impl_ops :: "int \<Rightarrow> store_impl store_ops" where
  "impl_ops now =
     \<lparr> op_put = impl_put, op_get = impl_get, op_update = impl_update now, op_delete = impl_delete,
       op_list = (\<lambda>s. mem_list (impl_state s)),
       op_load_workspace_state = (\<lambda>s. mem_load_workspace_state (impl_state s)),
       op_save_beliefs = (\<lambda>s wid b.
         impl_save (\<lambda>st. mem_save_beliefs st wid b) (\<lambda>io fs. file_save_beliefs io fs wid b) s),
       op_save_session_token = (\<lambda>s wid t.
         impl_save (\<lambda>st. mem_save_session_token st wid t) (\<lambda>io fs. file_save_session_token io now fs wid t) s),
       op_is_session_token_valid = (\<lambda>s. mem_is_session_token_valid now (impl_state s)),
       op_save_checkpoint = (\<lambda>s wid c.
         impl_save (\<lambda>st. mem_save_checkpoint st wid c) (\<lambda>io fs. file_save_checkpoint io fs wid c) s),
       op_load_checkpoint = (\<lambda>s. mem_load_checkpoint (impl_state s)),
       op_list_checkpoints = (\<lambda>s. mem_list_checkpoints (impl_state s)),
       op_delete_checkpoint = (\<lambda>s wid task_id name.
         impl_save (\<lambda>st. mem_delete_checkpoint st wid task_id name)
           (\<lambda>io fs. file_delete_checkpoint io fs wid task_id name) s),
       op_list_workspaces = (\<lambda>s. mem_list_workspaces (impl_state s)),
       op_load_entity_graph = (\<lambda>s. mem_load_entity_graph (impl_state s)),
       op_save_entity_graph = (\<lambda>s wid data.
         impl_save (\<lambda>st. mem_save_entity_graph st wid data) (\<lambda>io fs. file_save_entity_graph io fs wid data) s) \<rparr>"

section \<open>The contract of a record store\<close>

text \<open>What a client may rely on: reads see the records of a workspace, a put replaces the records with
  the same id and touches no other workspace, a delete removes records of that workspace only and, when
  one record has the key, that record. Effects are stated for the state whatever the result, because a
  failed write to the file leaves the state in memory changed.\<close>

locale record_store =
  fixes put :: "'s \<Rightarrow> memory_record \<Rightarrow> (unit, string) result \<times> 's"
    and get :: "'s \<Rightarrow> string \<Rightarrow> string \<Rightarrow> (memory_record option, string) result"
    and del :: "'s \<Rightarrow> string \<Rightarrow> string \<Rightarrow> (memory_record option, string) result \<times> 's"
    and records :: "'s \<Rightarrow> string \<Rightarrow> memory_record list"
  assumes get_records: "get s wid k = Ok (find (key_matches k) (records s wid))"
    and put_records: "records (snd (put s r)) wid =
      (if wid = mr_workspace_id r then filter (\<lambda>i. mr_id i \<noteq> mr_id r) (records s wid) @ [r] else records s wid)"
    and del_subset: "set (records (snd (del s wid k)) wid') \<subseteq> set (records s wid')"
    and del_other: "wid' \<noteq> wid \<Longrightarrow> records (snd (del s wid k)) wid' = records s wid'"
    and del_gone: "length (filter (key_matches k) (records s wid)) \<le> 1 \<Longrightarrow>
      find (key_matches k) (records (snd (del s wid k)) wid) = None"
begin

lemma get_after_put:
  assumes "key_matches k r" and "\<forall>i\<in>set (records s (mr_workspace_id r)). key_matches k i \<longrightarrow> mr_id i = mr_id r"
  shows "get (snd (put s r)) (mr_workspace_id r) k = Ok (Some r)"
proof -
  have "find (key_matches k) (filter (\<lambda>i. mr_id i \<noteq> mr_id r) (records s (mr_workspace_id r))) = None"
    using assms(2) by (auto simp: find_None_iff)
  then have "find (key_matches k) (filter (\<lambda>i. mr_id i \<noteq> mr_id r) (records s (mr_workspace_id r)) @ [r]) = Some r"
    using assms(1) by (simp add: find_append)
  then show ?thesis by (simp add: get_records put_records)
qed

lemma get_other_workspace_put: "wid \<noteq> mr_workspace_id r \<Longrightarrow> get (snd (put s r)) wid k = get s wid k"
  by (simp add: get_records put_records)

lemma get_after_del:
  "length (filter (key_matches k) (records s wid)) \<le> 1 \<Longrightarrow> get (snd (del s wid k)) wid k = Ok None"
  by (simp add: get_records del_gone)

lemma get_found: "get s wid k = Ok (Some r) \<Longrightarrow> r \<in> set (records s wid) \<and> key_matches k r"
  by (auto simp: get_records find_Some_iff)

lemma put_members: "r' \<in> set (records (snd (put s r)) wid) \<Longrightarrow> r' = r \<or> r' \<in> set (records s wid)"
  by (auto simp: put_records split: if_splits)

end

section \<open>The stores keep the contract\<close>

abbreviation mem_records :: "durable_store \<Rightarrow> string \<Rightarrow> memory_record list" where
  "mem_records st wid \<equiv> ws_memories (workspace_of st wid)"

lemma workspace_of_mut [simp]:
  "workspace_of (workspace_mut wid f st) wid' = (if wid' = wid then f (workspace_of st wid) else workspace_of st wid')"
  by (simp add: workspace_of_def workspace_mut_def)

lemma workspace_of_hput [simp]:
  "workspace_of (hput wid w st) wid' = (if wid' = wid then w else workspace_of st wid')"
  by (simp add: workspace_of_def)

lemma workspace_of_Some: "hget st wid = Some w \<Longrightarrow> workspace_of st wid = w"
  by (simp add: workspace_of_def)

lemma workspace_of_None: "hget st wid = None \<Longrightarrow> workspace_of st wid = workspace_default"
  by (simp add: workspace_of_def)

lemma memories_default [simp]: "ws_memories workspace_default = []" "ws_checkpoints workspace_default = []"
  by (simp_all add: workspace_default_def)

lemma put_record_memories [simp]:
  "ws_memories (put_record r w) = filter (\<lambda>i. mr_id i \<noteq> mr_id r) (ws_memories w) @ [r]"
  by (simp add: put_record_def)

lemma mem_get_eq: "mem_get st wid k = Ok (find (key_matches k) (mem_records st wid))"
  by (simp add: mem_get_def workspace_of_def split: option.split)

lemma mem_delete_records:
  "mem_records (snd (mem_delete st wid k)) wid' =
     (if wid' = wid then filter (\<lambda>i. \<not> key_matches k i) (mem_records st wid) else mem_records st wid')"
  by (cases "hget st wid")
    (auto simp: mem_delete_def Let_def key_matches_def workspace_of_Some workspace_of_None)

lemma set_remove_first: "set (remove_first P xs) \<subseteq> set xs"
  unfolding remove_first_def by (auto dest: set_takeWhileD in_set_dropD set_dropWhileD)

lemma remove_first_unique: "length (filter P xs) \<le> 1 \<Longrightarrow> filter P (remove_first P xs) = []"
  unfolding remove_first_def by (induction xs) (auto split: if_splits)

lemma file_state_persist [simp]: "fs_state (snd (persist io fs)) = fs_state fs"
  by (simp add: persist_def)

lemma file_delete_state:
  "fs_state (snd (file_delete io fs wid k)) = workspace_mut wid (\<lambda>w. w\<lparr> ws_memories :=
     (case find (key_matches k) (mem_records (fs_state fs) wid) of
        None \<Rightarrow> mem_records (fs_state fs) wid
      | Some r \<Rightarrow> filter (\<lambda>item. \<not> is_child_of r item) (remove_first (key_matches k) (mem_records (fs_state fs) wid))) \<rparr>)
     (fs_state fs)"
  by (simp add: file_delete_def Let_def persist_def split: option.split)

lemma file_get_eq: "file_get fs wid k = Ok (find (key_matches k) (mem_records (fs_state fs) wid))"
  by (simp add: file_get_def workspace_of_def split: option.split)

interpretation mem_store: record_store mem_put mem_get mem_delete mem_records
proof (unfold_locales, goal_cases)
  case (5 k s wid)
  then show ?case by (auto simp: mem_delete_records find_None_iff)
qed (auto simp: mem_get_eq mem_put_def mem_delete_records)

interpretation disk_store: record_store "file_put io" file_get "file_delete io" "\<lambda>fs. mem_records (fs_state fs)"
proof (unfold_locales, goal_cases)
  case (3 s wid k wid')
  then show ?case
    using set_remove_first [of "key_matches k" "mem_records (fs_state s) wid"]
    by (auto simp: file_delete_state split: option.split)
next
  case (5 k s wid)
  then show ?case
    using remove_first_unique [of "key_matches k" "mem_records (fs_state s) wid"]
    by (auto simp: file_delete_state find_None_iff filter_empty_conv split: option.split)
qed (auto simp: file_get_eq file_put_def file_delete_state)

section \<open>Properties\<close>

text \<open>A record put into the in-memory store is found under its id and its path when no other record
  uses that key, other workspaces are unaffected, and a delete makes the key unreadable.\<close>

theorem memory_store_read_your_writes:
  assumes "key_matches k r" and "\<forall>i\<in>set (mem_records st (mr_workspace_id r)). key_matches k i \<longrightarrow> mr_id i = mr_id r"
  shows "mem_get (snd (mem_put st r)) (mr_workspace_id r) k = Ok (Some r)
    \<and> (wid \<noteq> mr_workspace_id r \<longrightarrow> mem_get (snd (mem_put st r)) wid j = mem_get st wid j)
    \<and> mem_get (snd (mem_delete st wid j)) wid j = Ok None"
proof -
  have "mem_get (snd (mem_delete st wid j)) wid j = Ok None"
    by (auto simp: mem_get_eq mem_delete_records find_None_iff)
  then show ?thesis
    using mem_store.get_after_put [OF assms] mem_store.get_other_workspace_put by blast
qed

text \<open>A record used by the witnesses.\<close>

definition sample_record :: "string \<Rightarrow> string \<Rightarrow> memory_record" where
  "sample_record rid path =
     \<lparr> mr_id = rid, mr_workspace_id = ''ws'', mr_path = path, mr_content = ''text'', mr_metadata = JObj [],
       mr_embedding = [], mr_created_at = 0, mr_updated_at = 0, mr_revision = 1, mr_primary = True,
       mr_parent_id = None, mr_cluster_id = None, mr_level = Raw, mr_relation = None,
       mr_clearance = Unclassified, mr_revisions = [], mr_encrypted_dek = None, mr_content_iv = None,
       mr_metadata_iv = None, mr_score = 0, mr_deleted_at = None, mr_embedding_status = ''pending'',
       mr_embedding_attempts = 0 \<rparr>"

theorem memory_store_read_your_writes_witness:
  "mem_get (snd (mem_put (snd (mem_put [] (sample_record ''a'' ''p''))) (sample_record ''b'' ''q''))) ''ws'' ''q''
     = Ok (Some (sample_record ''b'' ''q''))"
  using memory_store_read_your_writes
    [of "''q''" "sample_record ''b'' ''q''" "snd (mem_put [] (sample_record ''a'' ''p''))" "''x''" "''y''"]
  by (simp add: sample_record_def key_matches_def mem_put_def workspace_of_def workspace_mut_def
      workspace_default_def put_record_def)

text \<open>The two stores disagree on what a delete returns: the file store returns the record it removed,
  the in-memory store always returns nothing although the record is gone.\<close>

theorem delete_results_differ:
  assumes "mem_get st wid k = Ok (Some r)"
  shows "fst (mem_delete st wid k) = Ok None \<and> mem_get (snd (mem_delete st wid k)) wid k = Ok None
    \<and> fst (file_delete True \<lparr> fs_state = st, fs_disk = d \<rparr> wid k) = Ok (Some r)"
proof -
  have "find (key_matches k) (mem_records st wid) = Some r" using assms by (simp add: mem_get_eq)
  moreover have "fst (mem_delete st wid k) = Ok None"
    by (simp add: mem_delete_def Let_def split: option.split)
  moreover have "mem_get (snd (mem_delete st wid k)) wid k = Ok None"
    by (auto simp: mem_get_eq mem_delete_records find_None_iff)
  ultimately show ?thesis by (simp add: file_delete_def persist_def Let_def)
qed

theorem delete_results_differ_witness:
  "fst (mem_delete (snd (mem_put [] (sample_record ''a'' ''p''))) ''ws'' ''p'') = Ok None"
proof -
  have "mem_get (snd (mem_put [] (sample_record ''a'' ''p''))) ''ws'' ''p'' = Ok (Some (sample_record ''a'' ''p''))"
    by code_simp
  then show ?thesis using delete_results_differ by blast
qed

text \<open>Every successful write of the file store leaves a file from which a new store starts in the same
  state; a failed one has changed the state but not the file.\<close>

theorem file_store_durability:
  "fs_disk (snd (file_put io fs r)) = (if io then Some (fs_state (snd (file_put io fs r))) else fs_disk fs)
   \<and> fs_disk (snd (file_update io now fs r)) = (if io then Some (fs_state (snd (file_update io now fs r))) else fs_disk fs)
   \<and> fs_state (file_store_new (fs_disk (snd (file_save_checkpoint True fs wid c))))
       = fs_state (snd (file_save_checkpoint True fs wid c))
   \<and> (is_ok (fst (file_put io fs r)) \<longleftrightarrow> io)
   \<and> r \<in> set (mem_records (fs_state (snd (file_put io fs r))) (mr_workspace_id r))"
  by (simp add: file_put_def file_update_def file_save_checkpoint_def persist_def file_store_new_def)

text \<open>A put through the fallback chain succeeds exactly when some member accepts it, and the first
  member that accepts it is the last one touched; a read returns the record of the first member that has
  one.\<close>

theorem fallback_put_get_spec:
  "(is_ok (fst (fallback_put ops stores r)) \<longleftrightarrow> (\<exists>s\<in>set stores. is_ok (fst (op_put ops s r))))
   \<and> (is_ok (fst (op_put ops s r)) \<longrightarrow>
        fallback_put ops (s # ss) r = (Ok (), snd (op_put ops s r) # ss))
   \<and> (fallback_get ops stores wid k = Ok (Some x) \<longrightarrow> (\<exists>s\<in>set stores. op_get ops s wid k = Ok (Some x)))
   \<and> (op_get ops s wid k = Ok (Some x) \<longrightarrow> fallback_get ops (s # ss) wid k = Ok (Some x))"
proof -
  have put: "is_ok (fst (first_ok f e stores)) \<longleftrightarrow> (\<exists>s\<in>set stores. is_ok (fst (f s)))"
    for f :: "'a \<Rightarrow> (unit, string) result \<times> 'a" and e
    by (induction stores arbitrary: e) (auto simp: case_prod_unfold Let_def split: sum.split)
  have get: "fst (first_found f (\<lambda>r. r \<noteq> None) None e stores) = Ok (Some x) \<Longrightarrow> \<exists>s\<in>set stores. fst (f s) = Ok (Some x)"
    for f :: "'a \<Rightarrow> (memory_record option, string) result \<times> 'a" and e
    by (induction stores arbitrary: e)
      (auto simp: case_prod_unfold Let_def split: sum.splits if_splits option.splits)
  show ?thesis
    using put [of "\<lambda>s. op_put ops s r" None] get [of "\<lambda>s. (op_get ops s wid k, s)" None]
    by (auto simp: fallback_put_def fallback_get_def first_read_def is_ok_iff split: prod.split)
qed

theorem fallback_put_get_spec_witness:
  "fst (fallback_put (impl_ops 0) [MemImpl []] (sample_record ''a'' ''p'')) = Ok ()"
proof -
  have "is_ok (fst (op_put (impl_ops 0) (MemImpl []) (sample_record ''a'' ''p'')))" by code_simp
  then show ?thesis
    using fallback_put_get_spec [of "impl_ops 0" "[]" "sample_record ''a'' ''p''" "MemImpl []" "[]"] by simp
qed

text \<open>A record that reached a later member of the chain while the file store could not write is
  still readable after the chain has reported its deletion: the delete stops at the first member that
  had a copy.\<close>

theorem fallback_delete_leaves_copies:
  assumes "mr_workspace_id r = wid" and "mem_records (fs_state fs) wid = []" and "mem_records st wid = []"
    and "fallback_put (impl_ops now) [FileImpl False fs, MemImpl st] r = (res, [FileImpl False fs', MemImpl st'])"
  shows "res = Ok ()
    \<and> fst (fallback_delete (impl_ops now) [FileImpl True fs', MemImpl st'] wid (mr_path r)) = Ok (Some r)
    \<and> fallback_get (impl_ops now)
        (snd (fallback_delete (impl_ops now) [FileImpl True fs', MemImpl st'] wid (mr_path r))) wid (mr_path r)
      = Ok (Some r)"
proof -
  have res: "res = Ok ()"
    and fs': "fs' = snd (file_put False fs r)" and st': "st' = snd (mem_put st r)"
    using assms(4) by (auto simp: fallback_put_def impl_ops_def file_put_def persist_def mem_put_def)
  have recs: "mem_records (fs_state fs') wid = [r]" "mem_records st' wid = [r]"
    using assms(1-3) by (simp_all add: fs' st' file_put_def mem_put_def)
  have key: "key_matches (mr_path r) r" by (simp add: key_matches_def)
  obtain fs2 where del: "file_delete True fs' wid (mr_path r) = (Ok (Some r), fs2)"
    using recs key by (auto simp: file_delete_def persist_def Let_def)
  have "mem_records (fs_state fs2) wid = []"
    using file_delete_state [of True fs' wid "mr_path r"] recs key unfolding del by (simp add: remove_first_def)
  then show ?thesis
    using res del recs key
    by (simp add: fallback_delete_def fallback_get_def first_read_def impl_ops_def file_get_eq mem_get_eq)
qed

theorem fallback_delete_leaves_copies_witness:
  "\<exists>fs' st'. fallback_get (impl_ops 0)
     (snd (fallback_delete (impl_ops 0) [FileImpl True fs', MemImpl st'] ''ws'' ''p'')) ''ws'' ''p''
       = Ok (Some (sample_record ''a'' ''p''))"
proof -
  have w: "mr_workspace_id (sample_record ''a'' ''p'') = ''ws''" "mr_path (sample_record ''a'' ''p'') = ''p''"
    by (simp_all add: sample_record_def)
  have e: "mem_records (fs_state (file_store_new None)) ''ws'' = []" "mem_records [] ''ws'' = []" by code_simp+
  show ?thesis
    using fallback_delete_leaves_copies [OF w(1) e, of 0 "Ok ()" "snd (file_put False (file_store_new None) (sample_record ''a'' ''p''))"
        "snd (mem_put [] (sample_record ''a'' ''p''))"] w(2)
    by (auto simp: fallback_put_def impl_ops_def file_put_def persist_def mem_put_def)
qed

end
