(* ===== verification/MemorySync.thy ===== *)
theory MemorySync
  imports MemoryStore "HOL-Library.List_Lexorder" "HOL-Library.Char_ord" "HOL-Library.Multiset"
begin

text \<open>Synchronisation of memories between peers: manifests and their difference
  (\<open>src/src/memory/sync/manifest.rs\<close>, \<open>diff.rs\<close>), the last-writer-wins merge with its validation
  (\<open>merge.rs\<close>) and the entry point that joins them (\<open>mod.rs\<close>). SHA-256 with its hexadecimal form, the
  JSON decoder of records and the normalisation of metadata are arguments. The merge is proved in the
  locale of record stores and used through its interpretations.\<close>

section \<open>Types\<close>

datatype diff_action = ActAdd | ActUpdate | ActDelete

record chunk_diff =
  cd_hash :: string
  cd_namespace :: string
  cd_action :: diff_action
  cd_data :: "8 word list option"
  cd_timestamp :: int
  cd_record_path :: "string option"

record manifest_entry =
  me_hash :: string
  me_namespace :: string
  me_revision :: "64 word"
  me_updated_at :: int
  me_size_bytes :: "64 word"
  me_record_path :: "string option"

type_synonym manifest = "manifest_entry list"

section \<open>Manifests\<close>

text \<open>\<open>timestamp()\<close> is the number of whole seconds.\<close>

definition chunk_hash :: "(8 word list \<Rightarrow> string) \<Rightarrow> memory_record \<Rightarrow> string" where
  "chunk_hash sha_hex r =
     sha_hex (bytes_of (mr_path r) @ le_bytes (mr_revision r) @ le_bytes (word_of_int (mr_updated_at r div 1000000000)))"

definition manifest_step ::
  "(8 word list \<Rightarrow> string) \<Rightarrow> string list \<times> manifest \<Rightarrow> memory_record \<Rightarrow> string list \<times> manifest"
where
  "manifest_step sha_hex acc r =
     (let (seen, entries) = acc; h = chunk_hash sha_hex r in
      if h \<in> set seen then (seen, entries)
      else (h # seen, entries @ [\<lparr> me_hash = h, me_namespace = mr_workspace_id r, me_revision = mr_revision r,
                                   me_updated_at = mr_updated_at r, me_size_bytes = of_nat (length (mr_content r)),
                                   me_record_path = Some (mr_path r) \<rparr>]))"

text \<open>\<open>workspaces\<close> and \<open>list\<close> are the two store operations used.\<close>

fun build_manifest_loop ::
  "(8 word list \<Rightarrow> string) \<Rightarrow> (string \<Rightarrow> (memory_record list, string) result) \<Rightarrow>
     string list \<times> manifest \<Rightarrow> string list \<Rightarrow> (manifest, string) result"
where
  "build_manifest_loop sha_hex lst acc [] = Ok (snd acc)"
| "build_manifest_loop sha_hex lst acc (wid # wids) =
     (case lst wid of
        Inl e \<Rightarrow> Err e
      | Inr records \<Rightarrow> build_manifest_loop sha_hex lst (foldl (manifest_step sha_hex) acc records) wids)"

definition build_manifest ::
  "(8 word list \<Rightarrow> string) \<Rightarrow> (string list, string) result \<Rightarrow> (string \<Rightarrow> (memory_record list, string) result) \<Rightarrow>
     (manifest, string) result"
where
  "build_manifest sha_hex workspaces lst =
     (case workspaces of Inl e \<Rightarrow> Err e | Inr wids \<Rightarrow> build_manifest_loop sha_hex lst ([], []) wids)"

text \<open>Later entries of a manifest replace earlier ones with the same hash.\<close>

definition by_hash :: "manifest \<Rightarrow> (string, manifest_entry) hmap" where
  "by_hash m = foldl (\<lambda>h e. hput (me_hash e) e h) [] m"

definition missing_or_older :: "(string, manifest_entry) hmap \<Rightarrow> manifest_entry \<Rightarrow> bool" where
  "missing_or_older other e =
     (case hget other (me_hash e) of None \<Rightarrow> True | Some o' \<Rightarrow> me_revision o' < me_revision e)"

definition diff_manifests :: "manifest \<Rightarrow> manifest \<Rightarrow> manifest \<times> manifest" where
  "diff_manifests loc remote =
     (let local_by_hash = by_hash loc; remote_by_hash = by_hash remote in
      (filter (missing_or_older remote_by_hash) loc, filter (missing_or_older local_by_hash) remote))"

definition deletions_from_diff :: "int \<Rightarrow> manifest \<Rightarrow> manifest \<Rightarrow> chunk_diff list" where
  "deletions_from_diff now loc remote =
     map (\<lambda>e. \<lparr> cd_hash = me_hash e, cd_namespace = me_namespace e, cd_action = ActDelete, cd_data = None,
                cd_timestamp = now, cd_record_path = me_record_path e \<rparr>)
       (filter (\<lambda>e. me_hash e \<notin> set (map me_hash remote)) loc)"

section \<open>Merge\<close>

definition lww_node_id :: "memory_record \<Rightarrow> string" where
  "lww_node_id r =
     (case Option.bind (json_get (mr_metadata r) ''node_id'') json_as_str of
        Some s \<Rightarrow> s
      | None \<Rightarrow> mr_id r)"

definition is_path_inside_workspace :: "string \<Rightarrow> bool" where
  "is_path_inside_workspace path =
     (let trimmed = trim path in
      if trimmed = [] then False
      else if starts_with trimmed ''/'' then False
      else if ''..'' \<in> set (split_on (CHR ''/'') trimmed) then False
      else if starts_with trimmed ''/'' \<or> starts_with trimmed [CHR 0x5C]
           \<or> list_ex (\<lambda>s. s = ''..'') (split_on (CHR ''/'') trimmed)
           \<or> list_ex (\<lambda>s. s = ''..'') (split_on (CHR 0x5C) trimmed) then False
      else True)"

text \<open>One received change. \<open>deser\<close> decodes a record, \<open>put\<close>, \<open>get\<close> and \<open>del\<close> are the store.\<close>

definition apply_change ::
  "(8 word list \<Rightarrow> memory_record option) \<Rightarrow>
   ('s \<Rightarrow> memory_record \<Rightarrow> (unit, string) result \<times> 's) \<Rightarrow>
   ('s \<Rightarrow> string \<Rightarrow> string \<Rightarrow> (memory_record option, string) result) \<Rightarrow>
   ('s \<Rightarrow> string \<Rightarrow> string \<Rightarrow> (memory_record option, string) result \<times> 's) \<Rightarrow>
   chunk_diff \<Rightarrow> 's \<times> 64 word \<Rightarrow> (unit, string) result \<times> 's \<times> 64 word"
where
  "apply_change deser put get del d acc =
     (let (s, conflicts) = acc in
      case cd_action d of
        ActDelete \<Rightarrow>
          (case cd_record_path d of
             None \<Rightarrow> (Ok (), s, conflicts)
           | Some path \<Rightarrow>
               (case del s (cd_namespace d) path of
                  (Inl e, s') \<Rightarrow> (Err e, s', conflicts)
                | (Inr _, s') \<Rightarrow> (Ok (), s', conflicts)))
      | _ \<Rightarrow>
          (case cd_data d of
             None \<Rightarrow> (Ok (), s, conflicts)
           | Some bytes \<Rightarrow>
               (case deser bytes of
                  None \<Rightarrow> (Ok (), s, conflicts)
                | Some incoming \<Rightarrow>
                    (case get s (mr_workspace_id incoming) (mr_path incoming) of
                       Inl e \<Rightarrow> (Err e, s, conflicts)
                     | Inr None \<Rightarrow> (let (r, s') = put s incoming in (r, s', conflicts))
                     | Inr (Some loc) \<Rightarrow>
                         if mr_updated_at incoming > mr_updated_at loc then
                           (let (r, s') = put s (incoming\<lparr> mr_id := mr_id loc \<rparr>) in (r, s', conflicts + 1))
                         else if mr_updated_at incoming = mr_updated_at loc
                                 \<and> lww_node_id incoming > lww_node_id loc then
                           (let (r, s') = put s (incoming\<lparr> mr_id := mr_id loc \<rparr>) in (r, s', conflicts + 1))
                         else (Ok (), s, conflicts)))))"

fun apply_changes_received ::
  "(8 word list \<Rightarrow> memory_record option) \<Rightarrow>
   ('s \<Rightarrow> memory_record \<Rightarrow> (unit, string) result \<times> 's) \<Rightarrow>
   ('s \<Rightarrow> string \<Rightarrow> string \<Rightarrow> (memory_record option, string) result) \<Rightarrow>
   ('s \<Rightarrow> string \<Rightarrow> string \<Rightarrow> (memory_record option, string) result \<times> 's) \<Rightarrow>
   chunk_diff list \<Rightarrow> 's \<times> 64 word \<Rightarrow> (unit, string) result \<times> 's \<times> 64 word"
where
  "apply_changes_received deser put get del [] acc = (Ok (), acc)"
| "apply_changes_received deser put get del (d # ds) acc =
     (case apply_change deser put get del d acc of
        (Inl e, acc') \<Rightarrow> (Err e, acc')
      | (Inr _, acc') \<Rightarrow> apply_changes_received deser put get del ds acc')"

section \<open>Validation\<close>

text \<open>\<open>normalized_of path metadata workspace\<close> is \<open>schema::normalize_metadata\<close>, \<open>env\<close> the environment.\<close>

definition metadata_level ::
  "(string \<Rightarrow> json \<Rightarrow> string \<Rightarrow> json option) \<Rightarrow> (string \<Rightarrow> string option) \<Rightarrow> string \<Rightarrow> json \<Rightarrow> string \<Rightarrow> clearance"
where
  "metadata_level normalized_of env path metadata wid =
     (case normalized_of path metadata wid of
        Some normalized \<Rightarrow> level_from_metadata env normalized
      | None \<Rightarrow> TopSecret)"

definition validate_change ::
  "(8 word list \<Rightarrow> memory_record option) \<Rightarrow> (string \<Rightarrow> json \<Rightarrow> string \<Rightarrow> json option) \<Rightarrow> (string \<Rightarrow> string option) \<Rightarrow>
     clearance \<Rightarrow> chunk_diff \<Rightarrow> (unit, string) result"
where
  "validate_change deser normalized_of env ceil d =
     (case cd_action d of
        ActDelete \<Rightarrow>
          if trim (cd_namespace d) = [] then Err ''Delete path outside workspace''
          else
            (case cd_record_path d of
               None \<Rightarrow> Err ''Delete path outside workspace''
             | Some path \<Rightarrow>
                 if \<not> is_path_inside_workspace path then Err ''Delete path outside workspace''
                 else
                   (case cd_data d of
                      Some bytes \<Rightarrow>
                        (case deser bytes of
                           None \<Rightarrow> Err ''Memory clearance exceeds caller clearance''
                         | Some incoming \<Rightarrow>
                             if \<not> is_path_inside_workspace (mr_path incoming) then Err ''Delete path outside workspace''
                             else check_write_clearance
                               (max (metadata_level normalized_of env (mr_path incoming) (mr_metadata incoming)
                                       (mr_workspace_id incoming)) (mr_clearance incoming)) ceil)
                    | None \<Rightarrow>
                        check_write_clearance (metadata_level normalized_of env path (JObj []) (cd_namespace d)) ceil))
      | _ \<Rightarrow>
          (case cd_data d of
             None \<Rightarrow> Ok ()
           | Some bytes \<Rightarrow>
               (case deser bytes of
                  None \<Rightarrow> Err ''Memory clearance exceeds caller clearance''
                | Some incoming \<Rightarrow>
                    check_write_clearance
                      (max (metadata_level normalized_of env (mr_path incoming) (mr_metadata incoming)
                              (mr_workspace_id incoming)) (mr_clearance incoming)) ceil)))"

fun validate_changes_received ::
  "(8 word list \<Rightarrow> memory_record option) \<Rightarrow> (string \<Rightarrow> json \<Rightarrow> string \<Rightarrow> json option) \<Rightarrow> (string \<Rightarrow> string option) \<Rightarrow>
     clearance \<Rightarrow> chunk_diff list \<Rightarrow> (unit, string) result"
where
  "validate_changes_received deser normalized_of env ceil [] = Ok ()"
| "validate_changes_received deser normalized_of env ceil (d # ds) =
     (case validate_change deser normalized_of env ceil d of
        Inl e \<Rightarrow> Err e
      | Inr _ \<Rightarrow> validate_changes_received deser normalized_of env ceil ds)"

definition apply_received_diffs ::
  "(8 word list \<Rightarrow> memory_record option) \<Rightarrow> (string \<Rightarrow> json \<Rightarrow> string \<Rightarrow> json option) \<Rightarrow> (string \<Rightarrow> string option) \<Rightarrow>
   ('s \<Rightarrow> memory_record \<Rightarrow> (unit, string) result \<times> 's) \<Rightarrow>
   ('s \<Rightarrow> string \<Rightarrow> string \<Rightarrow> (memory_record option, string) result) \<Rightarrow>
   ('s \<Rightarrow> string \<Rightarrow> string \<Rightarrow> (memory_record option, string) result \<times> 's) \<Rightarrow>
   clearance \<Rightarrow> chunk_diff list \<Rightarrow> 's \<times> 64 word \<Rightarrow> (unit, string) result \<times> 's \<times> 64 word"
where
  "apply_received_diffs deser normalized_of env put get del ceil diffs acc =
     (case validate_changes_received deser normalized_of env ceil diffs of
        Inl e \<Rightarrow> (Err e, acc)
      | Inr _ \<Rightarrow>
          (case apply_changes_received deser put get del diffs acc of
             (Inl _, acc') \<Rightarrow> (Err ''failed to apply changes'', acc')
           | (Inr _, acc') \<Rightarrow> (Ok (), acc')))"

section \<open>Validation facts\<close>

lemma check_write_ok_iff: "check_write_clearance e c = Ok u \<longleftrightarrow> e \<le> c"
  by (auto simp: check_write_clearance_def not_le not_less)

lemma validate_all:
  "validate_changes_received deser nrm env ceil ds = Ok () \<Longrightarrow> d \<in> set ds \<Longrightarrow>
     validate_change deser nrm env ceil d = Ok ()"
  by (induction ds) (auto split: sum.splits)

text \<open>The record a change carries when it is an addition or an update.\<close>

definition carried :: "(8 word list \<Rightarrow> memory_record option) \<Rightarrow> chunk_diff \<Rightarrow> memory_record option" where
  "carried deser d = (if cd_action d = ActDelete then None else Option.bind (cd_data d) deser)"

lemma validated_carried:
  assumes "validate_change deser nrm env ceil d = Ok ()" and "carried deser d = Some r"
  shows "mr_clearance r \<le> ceil"
    and "metadata_level nrm env (mr_path r) (mr_metadata r) (mr_workspace_id r) \<le> ceil"
  using assms
  by (auto simp: validate_change_def carried_def check_write_ok_iff split: diff_action.splits option.splits
      if_splits bind_splits)

lemma validated_write:
  assumes "carried deser d = Some r"
    and "max (metadata_level nrm env (mr_path r) (mr_metadata r) (mr_workspace_id r)) (mr_clearance r) \<le> ceil"
  shows "validate_change deser nrm env ceil d = Ok ()"
proof -
  have "check_write_clearance (max (metadata_level nrm env (mr_path r) (mr_metadata r) (mr_workspace_id r)) (mr_clearance r))
          ceil = Ok ()"
    using assms(2) by (simp add: check_write_ok_iff del: max.bounded_iff)
  then show ?thesis using assms(1)
    by (cases "cd_action d") (auto simp: validate_change_def carried_def split: option.splits bind_splits)
qed

lemma validated_delete:
  assumes "validate_change deser nrm env ceil d = Ok ()" and "cd_action d = ActDelete"
  shows "\<exists>p. cd_record_path d = Some p \<and> is_path_inside_workspace p \<and> trim (cd_namespace d) \<noteq> []"
  using assms by (auto simp: validate_change_def split: option.splits if_splits)







section \<open>The abstract register\<close>

text \<open>What the merge promises for one path: a last-writer-wins register, ordered by time and then by
  node, that keeps the local id.\<close>

definition newer :: "memory_record \<Rightarrow> memory_record \<Rightarrow> bool" where
  "newer a b \<longleftrightarrow> mr_updated_at b < mr_updated_at a \<or> mr_updated_at a = mr_updated_at b \<and> lww_node_id b < lww_node_id a"

definition lww_merge :: "memory_record option \<Rightarrow> memory_record \<Rightarrow> memory_record option" where
  "lww_merge cur r =
     (case cur of None \<Rightarrow> Some r
      | Some old \<Rightarrow> Some (if newer r old then r\<lparr> mr_id := mr_id old \<rparr> else old))"

definition has_node :: "memory_record \<Rightarrow> bool" where
  "has_node r \<longleftrightarrow> Option.bind (json_get (mr_metadata r) ''node_id'') json_as_str \<noteq> None"

definition forget_id :: "memory_record \<Rightarrow> memory_record" where
  "forget_id r = r\<lparr> mr_id := [] \<rparr>"

lemma node_of_update [simp]: "has_node r \<Longrightarrow> lww_node_id (r\<lparr> mr_id := i \<rparr>) = lww_node_id r"
  by (auto simp: has_node_def lww_node_id_def)

lemma has_node_update [simp]: "has_node (r\<lparr> mr_id := i \<rparr>) = has_node r"
  by (simp add: has_node_def)

lemma forget_id_update [simp]: "forget_id (r\<lparr> mr_id := i \<rparr>) = forget_id r"
  by (simp add: forget_id_def)

lemma newer_update [simp]:
  "has_node r \<Longrightarrow> newer (r\<lparr> mr_id := i \<rparr>) b = newer r b"
  "has_node r \<Longrightarrow> newer b (r\<lparr> mr_id := i \<rparr>) = newer b r"
  by (simp_all add: newer_def)

lemma newer_total: "\<not> newer a b \<Longrightarrow> \<not> newer b a \<Longrightarrow> mr_updated_at a = mr_updated_at b \<and> lww_node_id a = lww_node_id b"
  by (auto simp: newer_def)

lemma newer_trans': "newer a b \<Longrightarrow> \<not> newer c b \<Longrightarrow> \<not> newer c a"
  by (auto simp: newer_def)

lemma newer_irrefl [simp]: "\<not> newer a a"
  by (simp add: newer_def)

text \<open>The register ends with one of the candidates, up to the id, and no candidate is newer.\<close>

lemma lww_fold:
  assumes "\<forall>r\<in>set rs. has_node r" and "has_node x"
  shows "\<exists>y. foldl lww_merge (Some x) rs = Some y \<and> has_node y \<and> (\<forall>r\<in>set (x # rs). \<not> newer r y)
    \<and> (\<exists>r\<in>set (x # rs). forget_id y = forget_id r)"
  using assms
proof (induction rs arbitrary: x)
  case (Cons r rs)
  let ?x = "if newer r x then r\<lparr> mr_id := mr_id x \<rparr> else x"
  have "has_node ?x" using Cons.prems by simp
  with Cons.IH [of ?x] Cons.prems(1) obtain y where y: "foldl lww_merge (Some ?x) rs = Some y" "has_node y"
    "\<forall>r\<in>set (?x # rs). \<not> newer r y" "\<exists>r\<in>set (?x # rs). forget_id y = forget_id r" by auto
  have "\<not> newer ?x y" using y(3) by simp
  then have "\<not> newer r y" "\<not> newer x y"
    using Cons.prems by (auto simp: newer_def split: if_splits)
  moreover have "\<exists>r'\<in>set (x # r # rs). forget_id y = forget_id r'" using y(4) by (auto split: if_splits)
  moreover have "foldl lww_merge (Some x) (r # rs) = Some y" using y(1) by (simp add: lww_merge_def)
  ultimately show ?case using y(2,3) by auto
qed (auto simp: forget_id_def)

definition best_of :: "memory_record set \<Rightarrow> memory_record \<Rightarrow> bool" where
  "best_of C y \<longleftrightarrow> has_node y \<and> (\<forall>r\<in>C. \<not> newer r y) \<and> (\<exists>r\<in>C. forget_id y = forget_id r)"

lemma lww_fold_best:
  assumes "\<forall>r\<in>set rs \<union> set_option start. has_node r"
  shows "case foldl lww_merge start rs of None \<Rightarrow> set rs \<union> set_option start = {}
    | Some y \<Rightarrow> best_of (set rs \<union> set_option start) y"
proof (cases start)
  case (Some x)
  then show ?thesis using lww_fold [of rs x] assms by (auto simp: best_of_def)
next
  case None
  show ?thesis
  proof (cases rs)
    case (Cons r rs')
    have "foldl lww_merge None rs = foldl lww_merge (Some r) rs'" by (simp add: Cons lww_merge_def)
    then show ?thesis using lww_fold [of rs' r] assms None Cons by (auto simp: best_of_def)
  qed (simp add: None)
qed

lemma forget_id_stamp:
  assumes "has_node u" and "has_node v" and "forget_id u = forget_id v"
  shows "mr_updated_at u = mr_updated_at v \<and> lww_node_id u = lww_node_id v"
proof -
  have "mr_updated_at (forget_id w) = mr_updated_at w" for w by (simp add: forget_id_def)
  moreover have "has_node w \<Longrightarrow> lww_node_id (forget_id w) = lww_node_id w" for w by (simp add: forget_id_def)
  ultimately show ?thesis using assms by metis
qed

lemma best_of_unique:
  assumes "best_of C y" and "best_of C z" and "\<forall>r\<in>C. has_node r"
    and "\<forall>a\<in>C. \<forall>b\<in>C. mr_updated_at a = mr_updated_at b \<and> lww_node_id a = lww_node_id b \<longrightarrow> forget_id a = forget_id b"
  shows "forget_id y = forget_id z"
proof -
  obtain a b where a: "a \<in> C" "forget_id y = forget_id a" and b: "b \<in> C" "forget_id z = forget_id b"
    using assms(1,2) unfolding best_of_def by blast
  have "\<not> newer b a" "\<not> newer a b"
    using assms(1-3) a b forget_id_stamp [of y a] forget_id_stamp [of z b] unfolding best_of_def newer_def by auto
  then have "forget_id a = forget_id b" using assms(4) a(1) b(1) newer_total by blast
  then show ?thesis using a b by simp
qed

lemma filter_swap: "filter P (filter Q xs) = filter Q (filter P xs)"
  by (induction xs) auto

lemma filter_single:
  "length (filter P xs) \<le> 1 \<Longrightarrow> filter P xs = (case find P xs of None \<Rightarrow> [] | Some a \<Rightarrow> [a])"
  by (induction xs) auto

section \<open>The merge on any record store\<close>

context record_store
begin

lemma apply_change_upsert:
  assumes "carried deser d = Some r"
  shows "fst (snd (apply_change deser put get del d (s, n))) =
    (case find (key_matches (mr_path r)) (records s (mr_workspace_id r)) of
       None \<Rightarrow> snd (put s r)
     | Some old \<Rightarrow>
         if mr_updated_at old < mr_updated_at r \<or> mr_updated_at r = mr_updated_at old \<and> lww_node_id old < lww_node_id r
         then snd (put s (r\<lparr> mr_id := mr_id old \<rparr>)) else s)"
  using assms
  by (cases "cd_action d")
    (auto simp: apply_change_def carried_def get_records case_prod_unfold Let_def split: option.splits bind_splits)

lemma apply_change_idle:
  assumes "cd_action d \<noteq> ActDelete" and "carried deser d = None"
  shows "apply_change deser put get del d acc = (Ok (), acc)"
  using assms by (cases "cd_action d")
    (auto simp: apply_change_def carried_def split: option.splits prod.splits bind_splits)

lemma apply_change_delete:
  assumes "cd_action d = ActDelete"
  shows "fst (snd (apply_change deser put get del d (s, n))) =
    (case cd_record_path d of None \<Rightarrow> s | Some p \<Rightarrow> snd (del s (cd_namespace d) p))"
  using assms by (auto simp: apply_change_def split: option.splits prod.splits sum.splits)

lemma apply_change_members:
  assumes "x \<in> set (records (fst (snd (apply_change deser put get del d (s, n)))) wid)"
  shows "x \<in> set (records s wid) \<or> (\<exists>r i. carried deser d = Some r \<and> x = r\<lparr> mr_id := i \<rparr>)"
proof (cases "cd_action d = ActDelete")
  case True
  then show ?thesis using assms del_subset [THEN subsetD]
    by (auto simp: apply_change_delete split: option.splits)
next
  case False
  show ?thesis
  proof (cases "carried deser d")
    case None
    then show ?thesis using assms by (simp add: apply_change_idle [OF False])
  next
    case (Some r)
    obtain i where "fst (snd (apply_change deser put get del d (s, n))) \<in> {s, snd (put s (r\<lparr> mr_id := i \<rparr>))}"
    proof (cases "find (key_matches (mr_path r)) (records s (mr_workspace_id r))")
      case None
      then show ?thesis using that [of "mr_id r"] by (simp add: apply_change_upsert [OF Some])
    next
      case (Some old)
      then show ?thesis using that [of "mr_id old"] by (simp add: apply_change_upsert [OF \<open>carried deser d = Some r\<close>])
    qed
    then consider "x \<in> set (records s wid)" | "x \<in> set (records (snd (put s (r\<lparr> mr_id := i \<rparr>))) wid)"
      using assms by fastforce
    then show ?thesis
    proof cases
      case 2
      then show ?thesis using put_members Some by blast
    qed simp
  qed
qed

lemma apply_changes_members:
  assumes "x \<in> set (records (fst (snd (apply_changes_received deser put get del ds (s, n)))) wid)"
  shows "x \<in> set (records s wid) \<or> (\<exists>d\<in>set ds. \<exists>r i. carried deser d = Some r \<and> x = r\<lparr> mr_id := i \<rparr>)"
  using assms
proof (induction ds arbitrary: s n)
  case (Cons d ds)
  obtain res s' n' where step: "apply_change deser put get del d (s, n) = (res, s', n')" by (metis prod_cases3)
  have first: "y \<in> set (records s' wid) \<Longrightarrow>
      y \<in> set (records s wid) \<or> (\<exists>r i. carried deser d = Some r \<and> y = r\<lparr> mr_id := i \<rparr>)" for y
    using apply_change_members [of y deser d s n wid] step by simp
  show ?case
  proof (cases res)
    case (Inl e)
    then show ?thesis using Cons.prems first step by (simp, blast)
  next
    case (Inr u)
    then have "x \<in> set (records (fst (snd (apply_changes_received deser put get del ds (s', n')))) wid)"
      using Cons.prems step by simp
    then show ?thesis using Cons.IH first by (auto, blast+)
  qed
qed simp

text \<open>What leaves the store, when a deletion takes only what its path names.\<close>

lemma apply_change_gone:
  assumes keeps: "\<And>s k. x \<in> set (records s wid) \<Longrightarrow> \<not> key_matches k x \<Longrightarrow> x \<in> set (records (snd (del s wid k)) wid)"
    and x: "x \<in> set (records s wid)" "x \<notin> set (records (fst (snd (apply_change deser put get del d (s, n)))) wid)"
  shows "(\<exists>r. carried deser d = Some r \<and> mr_workspace_id r = wid)
    \<or> cd_action d = ActDelete \<and> cd_namespace d = wid \<and> (\<exists>p. cd_record_path d = Some p \<and> key_matches p x)"
proof (cases "cd_action d = ActDelete")
  case True
  then obtain p where p: "cd_record_path d = Some p" "x \<notin> set (records (snd (del s (cd_namespace d) p)) wid)"
    using x by (auto simp: apply_change_delete split: option.splits)
  then have "cd_namespace d = wid" using del_other [of wid "cd_namespace d" s p] x(1) by metis
  then show ?thesis using keeps [OF x(1), of p] p True by blast
next
  case False
  show ?thesis
  proof (cases "carried deser d")
    case None
    then show ?thesis using x by (simp add: apply_change_idle [OF False])
  next
    case (Some r)
    have "mr_workspace_id r = wid"
    proof (rule ccontr)
      assume "mr_workspace_id r \<noteq> wid"
      then have "records (snd (put s (r\<lparr> mr_id := i \<rparr>))) wid = records s wid" "records (snd (put s r)) wid = records s wid" for i
        by (simp_all add: put_records)
      then show False using x unfolding apply_change_upsert [OF Some] by (simp split: option.splits if_splits)
    qed
    then show ?thesis using Some by blast
  qed
qed

lemma apply_changes_gone:
  assumes keeps: "\<And>s k. x \<in> set (records s wid) \<Longrightarrow> \<not> key_matches k x \<Longrightarrow> x \<in> set (records (snd (del s wid k)) wid)"
    and "x \<in> set (records s wid)" "x \<notin> set (records (fst (snd (apply_changes_received deser put get del ds (s, n)))) wid)"
  shows "\<exists>d\<in>set ds. (\<exists>r. carried deser d = Some r \<and> mr_workspace_id r = wid)
    \<or> cd_action d = ActDelete \<and> cd_namespace d = wid \<and> (\<exists>p. cd_record_path d = Some p \<and> key_matches p x)"
  using assms(2,3)
proof (induction ds arbitrary: s n)
  case (Cons d ds)
  obtain res s' n' where step: "apply_change deser put get del d (s, n) = (res, s', n')" by (metis prod_cases3)
  show ?case
  proof (cases "x \<in> set (records s' wid)")
    case True
    then have "res \<noteq> Inl e" for e using Cons.prems(2) step by auto
    then obtain u where "res = Inr u" by (cases res) auto
    then have "x \<notin> set (records (fst (snd (apply_changes_received deser put get del ds (s', n')))) wid)"
      using Cons.prems(2) step by simp
    then show ?thesis using Cons.IH [OF True] by (metis list.set_intros(2))
  next
    case False
    then show ?thesis using apply_change_gone [OF keeps Cons.prems(1), of deser d n] step by (metis fst_conv snd_conv list.set_intros(1))
  qed
qed simp

text \<open>One addition or update acts on its path like the register.\<close>

lemma apply_change_register:
  assumes d: "carried deser d = Some r"
    and one: "length (filter (key_matches (mr_path r)) (records s (mr_workspace_id r))) \<le> 1"
  shows "find (key_matches (mr_path r)) (records (fst (snd (apply_change deser put get del d (s, n)))) (mr_workspace_id r))
      = lww_merge (find (key_matches (mr_path r)) (records s (mr_workspace_id r))) r
    \<and> length (filter (key_matches (mr_path r))
        (records (fst (snd (apply_change deser put get del d (s, n)))) (mr_workspace_id r))) \<le> 1"
proof -
  let ?P = "key_matches (mr_path r)" and ?xs = "records s (mr_workspace_id r)"
  have key: "?P (r\<lparr> mr_id := i \<rparr>)" "?P r" for i by (simp_all add: key_matches_def)
  have unwrap: "filter ?P (filter Q ?xs) = filter Q (filter ?P ?xs)" for Q by (rule filter_swap)
  show ?thesis
  proof (cases "find ?P ?xs")
    case None
    then have "filter ?P ?xs = []" using filter_single [OF one] by simp
    then have "filter ?P (filter (\<lambda>i. mr_id i \<noteq> mr_id r) ?xs) = []" unfolding unwrap by simp
    then have "find ?P (filter (\<lambda>i. mr_id i \<noteq> mr_id r) ?xs) = None" by (auto simp: find_None_iff filter_empty_conv)
    then show ?thesis using None key \<open>filter ?P (filter _ ?xs) = []\<close>
      unfolding apply_change_upsert [OF d] by (simp add: put_records find_append lww_merge_def)
  next
    case (Some old)
    then have "filter ?P ?xs = [old]" using filter_single [OF one] by simp
    then have gone: "filter ?P (filter (\<lambda>i. mr_id i \<noteq> mr_id old) ?xs) = []" unfolding unwrap by simp
    then have "find ?P (filter (\<lambda>i. mr_id i \<noteq> mr_id old) ?xs) = None" by (auto simp: find_None_iff filter_empty_conv)
    then show ?thesis using Some key gone one
      unfolding apply_change_upsert [OF d] by (auto simp: put_records find_append lww_merge_def newer_def)
  qed
qed

lemma apply_changes_register:
  assumes "is_ok (fst (apply_changes_received deser put get del ds (s, n)))"
    and "map (carried deser) ds = map Some rs" and "\<forall>r\<in>set rs. mr_workspace_id r = wid \<and> mr_path r = p"
    and "length (filter (key_matches p) (records s wid)) \<le> 1"
  shows "find (key_matches p) (records (fst (snd (apply_changes_received deser put get del ds (s, n)))) wid)
    = foldl lww_merge (find (key_matches p) (records s wid)) rs"
  using assms
proof (induction ds arbitrary: s n rs)
  case (Cons d ds)
  obtain r rs' where rs: "rs = r # rs'" and d: "carried deser d = Some r" and tl: "map (carried deser) ds = map Some rs'"
    using Cons.prems(2) by (cases rs) auto
  have rp: "mr_workspace_id r = wid" "mr_path r = p" using Cons.prems(3) rs by auto
  obtain res s' n' where step: "apply_change deser put get del d (s, n) = (res, s', n')" by (metis prod_cases3)
  from Cons.prems(1) step obtain u where res: "res = Inr u" by (cases res) auto
  have reg: "find (key_matches p) (records s' wid) = lww_merge (find (key_matches p) (records s wid)) r"
    "length (filter (key_matches p) (records s' wid)) \<le> 1"
    using apply_change_register [OF d, of s n] Cons.prems(4) rp step by auto
  show ?case
    using Cons.IH [of s' n' rs'] Cons.prems(1,3) reg step res tl rs by simp
qed simp

end

section \<open>Manifest facts\<close>

lemma hget_by_hash: "hget (by_hash m) h = find (\<lambda>e. me_hash e = h) (rev m)"
  by (induction m rule: rev_induct) (auto simp: by_hash_def)

lemma missing_or_older_iff:
  assumes "distinct (map me_hash m)"
  shows "missing_or_older (by_hash m) e \<longleftrightarrow> (\<forall>o'\<in>set m. me_hash o' = me_hash e \<longrightarrow> me_revision o' < me_revision e)"
proof (cases "find (\<lambda>o'. me_hash o' = me_hash e) (rev m)")
  case None
  then have "hget (by_hash m) (me_hash e) = None" by (simp add: hget_by_hash)
  moreover have "\<forall>o'\<in>set m. me_hash o' \<noteq> me_hash e" using None by (simp add: find_None_iff)
  ultimately show ?thesis by (simp add: missing_or_older_def)
next
  case (Some o')
  then have mem: "o' \<in> set m" "me_hash o' = me_hash e" by (auto dest!: find_SomeD)
  have uniq: "x = o'" if "x \<in> set m" "me_hash x = me_hash e" for x
    using assms mem that inj_onD [of me_hash "set m" x o'] by (simp add: distinct_map)
  have "(\<forall>x\<in>set m. me_hash x = me_hash e \<longrightarrow> me_revision x < me_revision e) \<longleftrightarrow> me_revision o' < me_revision e"
    using mem uniq by blast
  moreover have "hget (by_hash m) (me_hash e) = Some o'" using Some by (simp add: hget_by_hash)
  ultimately show ?thesis unfolding missing_or_older_def by simp
qed

lemma mem_apply_ok: "is_ok (fst (apply_changes_received deser mem_put mem_get mem_delete ds (s, n)))"
proof (induction ds arbitrary: s n)
  case (Cons d ds)
  have "is_ok (fst (apply_change deser mem_put mem_get mem_delete d (s, n)))"
    by (auto simp: apply_change_def mem_put_def mem_get_def mem_delete_def Let_def split: diff_action.split option.split)
  then show ?case using Cons by (auto simp: is_ok_iff split: prod.splits sum.splits)
qed simp

section \<open>Properties\<close>


text \<open>C2: two replicas that start with the same store, with at most one record at a path, and receive the same additions
  and updates for that path, in any order and with any repetitions, end with the same record there up to its local
  id, provided every record names its node in its metadata and records of one time and node are the same.\<close>

theorem lww_convergence:
  assumes "set ds = set ds'"
    and "\<forall>d\<in>set ds. \<exists>r. carried deser d = Some r \<and> mr_workspace_id r = wid \<and> mr_path r = p \<and> has_node r"
    and "length (filter (key_matches p) (mem_records st wid)) \<le> 1"
    and "\<forall>x\<in>set (mem_records st wid). key_matches p x \<longrightarrow> has_node x"
    and "\<forall>a\<in>{r. \<exists>d\<in>set ds. carried deser d = Some r} \<union> set (mem_records st wid).
         \<forall>b\<in>{r. \<exists>d\<in>set ds. carried deser d = Some r} \<union> set (mem_records st wid).
           mr_updated_at a = mr_updated_at b \<and> lww_node_id a = lww_node_id b \<longrightarrow> forget_id a = forget_id b"
  shows "map_option forget_id (find (key_matches p) (mem_records
           (fst (snd (apply_changes_received deser mem_put mem_get mem_delete ds (st, n)))) wid))
       = map_option forget_id (find (key_matches p) (mem_records
           (fst (snd (apply_changes_received deser mem_put mem_get mem_delete ds' (st, n)))) wid))"
proof -
  define start where "start = find (key_matches p) (mem_records st wid)"
  define C where "C = {r. \<exists>d\<in>set ds. carried deser d = Some r} \<union> set_option start"
  have start: "set_option start \<subseteq> set (mem_records st wid) \<inter> {x. key_matches p x}"
    unfolding start_def by (auto simp: elem_set find_Some_iff)
  have nodes: "\<forall>r\<in>C. has_node r" using assms(2,4) start unfolding C_def by fastforce
  have same: "\<forall>a\<in>C. \<forall>b\<in>C. mr_updated_at a = mr_updated_at b \<and> lww_node_id a = lww_node_id b \<longrightarrow> forget_id a = forget_id b"
    using assms(5) start unfolding C_def by blast
  have view: "case find (key_matches p) (mem_records
        (fst (snd (apply_changes_received deser mem_put mem_get mem_delete es (st, n)))) wid) of
      None \<Rightarrow> C = {} | Some y \<Rightarrow> best_of C y" if "set es = set ds" for es
  proof -
    have "\<forall>d\<in>set es. \<exists>r. carried deser d = Some r" using assms(2) that by blast
    then obtain rs where rs: "map (carried deser) es = map Some rs" using all_some by blast
    have "Some r \<in> set (map Some rs) \<longleftrightarrow> Some r \<in> set (map (carried deser) es)" for r
      by (simp only: rs)
    then have carried: "set rs = {r. \<exists>d\<in>set ds. carried deser d = Some r}"
      using that by (auto simp: image_iff) metis+
    then have "\<forall>r\<in>set rs. mr_workspace_id r = wid \<and> mr_path r = p" using assms(2) by fastforce
    from mem_store.apply_changes_register [OF mem_apply_ok rs this assms(3)]
    show ?thesis using lww_fold_best [of rs start] nodes
      unfolding C_def carried [symmetric] start_def [symmetric] by simp
  qed
  show ?thesis
    using view [of ds] view [of ds'] assms(1) best_of_unique [OF _ _ nodes same]
    by (auto simp: best_of_def split: option.splits)
qed

text \<open>Data used by the witnesses: a decoder that reads three one-byte chunks, and a record with a node.\<close>

definition node_record :: "string \<Rightarrow> int \<Rightarrow> string \<Rightarrow> memory_record" where
  "node_record node t content =
     (sample_record ''id'' ''p'')\<lparr> mr_updated_at := t, mr_content := content,
        mr_metadata := JObj [(''node_id'', JStr node)] \<rparr>"

definition sample_deser :: "8 word list \<Rightarrow> memory_record option" where
  "sample_deser bytes =
     (if bytes = [1] then Some (node_record ''n1'' 10 ''one'')
      else if bytes = [2] then Some (node_record ''n2'' 10 ''two'')
      else None)"

definition add_diff :: "8 word list \<Rightarrow> chunk_diff" where
  "add_diff bytes = \<lparr> cd_hash = ''h'', cd_namespace = ''ws'', cd_action = ActAdd, cd_data = Some bytes,
     cd_timestamp = 0, cd_record_path = Some ''p'' \<rparr>"

definition delete_diff :: "string \<Rightarrow> 8 word list option \<Rightarrow> chunk_diff" where
  "delete_diff path data = \<lparr> cd_hash = ''h'', cd_namespace = ''ws'', cd_action = ActDelete, cd_data = data,
     cd_timestamp = 0, cd_record_path = Some path \<rparr>"


theorem lww_convergence_witness:
  "map_option forget_id (find (key_matches ''p'') (mem_records
      (fst (snd (apply_changes_received sample_deser mem_put mem_get mem_delete [add_diff [1], add_diff [2]] ([], 0)))) ''ws''))
   = map_option forget_id (find (key_matches ''p'') (mem_records
      (fst (snd (apply_changes_received sample_deser mem_put mem_get mem_delete
         [add_diff [2], add_diff [1], add_diff [2]] ([], 0)))) ''ws''))"
proof (rule lww_convergence)
  have c: "carried sample_deser (add_diff [1]) = Some (node_record ''n1'' 10 ''one'')"
    "carried sample_deser (add_diff [2]) = Some (node_record ''n2'' 10 ''two'')" by code_simp+
  show "\<forall>d\<in>set [add_diff [1], add_diff [2]]. \<exists>r. carried sample_deser d = Some r \<and> mr_workspace_id r = ''ws''
      \<and> mr_path r = ''p'' \<and> has_node r"
    by (simp add: c) (simp add: node_record_def sample_record_def has_node_def)
  have e: "mem_records [] ''ws'' = []" by code_simp
  show "length (filter (key_matches ''p'') (mem_records [] ''ws'')) \<le> 1" by (simp add: e)
  show "\<forall>x\<in>set (mem_records [] ''ws''). key_matches ''p'' x \<longrightarrow> has_node x" by (simp add: e)
  have n: "lww_node_id (node_record ''n1'' 10 ''one'') \<noteq> lww_node_id (node_record ''n2'' 10 ''two'')" by code_simp
  show "\<forall>a\<in>{r. \<exists>d\<in>set [add_diff [1], add_diff [2]]. carried sample_deser d = Some r} \<union> set (mem_records [] ''ws'').
      \<forall>b\<in>{r. \<exists>d\<in>set [add_diff [1], add_diff [2]]. carried sample_deser d = Some r} \<union> set (mem_records [] ''ws'').
        mr_updated_at a = mr_updated_at b \<and> lww_node_id a = lww_node_id b \<longrightarrow> forget_id a = forget_id b"
    using n by (auto simp: e c)
qed auto

text \<open>A deletion leaves no tombstone: a record that was deleted comes back with the next addition of
  it, however old, so the outcome depends on the order of a deletion and an addition.\<close>

theorem delete_leaves_no_tombstone:
  assumes "carried deser d = Some r" and "cd_action del_d = ActDelete" and "cd_record_path del_d = Some (mr_path r)"
    and "cd_namespace del_d = mr_workspace_id r"
  shows "mem_get (fst (snd (apply_changes_received deser mem_put mem_get mem_delete [del_d, d] (st, n))))
           (mr_workspace_id r) (mr_path r) = Ok (Some r)
    \<and> mem_get (fst (snd (apply_changes_received deser mem_put mem_get mem_delete [d, del_d] (st, n))))
           (mr_workspace_id r) (mr_path r) = Ok None"
proof -
  have two: "fst (snd (apply_changes_received deser mem_put mem_get mem_delete [a, b] (st, n))) =
      fst (snd (apply_change deser mem_put mem_get mem_delete b
        (snd (apply_change deser mem_put mem_get mem_delete a (st, n)))))" for a b
    using mem_apply_ok [of deser "[a]" st n] mem_apply_ok [of deser "[a, b]" st n]
    by (auto simp: is_ok_iff split: prod.splits sum.splits)
  let ?s1 = "snd (mem_delete st (mr_workspace_id r) (mr_path r))"
  have gone: "find (key_matches (mr_path r)) (mem_records (snd (mem_delete s (mr_workspace_id r) (mr_path r))) (mr_workspace_id r)) = None" for s
    by (auto simp: mem_delete_records find_None_iff)
  obtain x1 s1 n1 where s1: "apply_change deser mem_put mem_get mem_delete del_d (st, n) = (x1, s1, n1)" by (metis prod_cases3)
  obtain x2 s2 n2 where s2: "apply_change deser mem_put mem_get mem_delete d (st, n) = (x2, s2, n2)" by (metis prod_cases3)
  have "s1 = ?s1" using mem_store.apply_change_delete [OF assms(2), of deser st n] s1 assms(3,4) by simp
  then have none: "find (key_matches (mr_path r)) (mem_records s1 (mr_workspace_id r)) = None" using gone by simp
  then have "filter (key_matches (mr_path r)) (mem_records s1 (mr_workspace_id r)) = []"
    by (simp add: find_None_iff filter_empty_conv)
  then have "length (filter (key_matches (mr_path r)) (mem_records s1 (mr_workspace_id r))) \<le> 1" by simp
  from mem_store.apply_change_register [OF assms(1) this, of n1]
  have "find (key_matches (mr_path r)) (mem_records
      (fst (snd (apply_change deser mem_put mem_get mem_delete d (s1, n1)))) (mr_workspace_id r)) = Some r"
    unfolding none lww_merge_def by simp
  moreover have "find (key_matches (mr_path r)) (mem_records
      (fst (snd (apply_change deser mem_put mem_get mem_delete del_d (s2, n2)))) (mr_workspace_id r)) = None"
    using mem_store.apply_change_delete [OF assms(2), of deser s2 n2] assms(3,4) gone by simp
  ultimately show ?thesis unfolding two s1 s2 by (simp add: mem_get_eq)
qed

theorem delete_leaves_no_tombstone_witness:
  "mem_get (fst (snd (apply_changes_received sample_deser mem_put mem_get mem_delete
      [delete_diff ''p'' None, add_diff [1]] ([], 0)))) ''ws'' ''p'' = Ok (Some (node_record ''n1'' 10 ''one''))"
proof -
  have "carried sample_deser (add_diff [1]) = Some (node_record ''n1'' 10 ''one'')" by code_simp
  moreover have "mr_workspace_id (node_record ''n1'' 10 ''one'') = ''ws''" "mr_path (node_record ''n1'' 10 ''one'') = ''p''"
    by (simp_all add: node_record_def sample_record_def)
  ultimately show ?thesis
    using delete_leaves_no_tombstone [of sample_deser "add_diff [1]" _ "delete_diff ''p'' None" "[]" 0]
    by (simp add: delete_diff_def)
qed

text \<open>Validation of a deletion looks only at the change itself: a record of any clearance is deleted
  by a caller with any ceiling who attaches some record within the ceiling to the deletion.\<close>

theorem delete_ignores_stored_clearance:
  assumes "mem_get st wid path = Ok (Some secret)" and "mr_clearance secret = TopSecret"
    and "deser bytes = Some harmless" and "mr_clearance harmless \<le> ceil" and "is_path_inside_workspace (mr_path harmless)"
    and "metadata_level nrm env (mr_path harmless) (mr_metadata harmless) (mr_workspace_id harmless) \<le> ceil"
    and "cd_action d = ActDelete" and "cd_namespace d = wid" and "cd_record_path d = Some path"
    and "cd_data d = Some bytes" and "trim wid \<noteq> []" and "is_path_inside_workspace path"
  shows "fst (apply_received_diffs deser nrm env mem_put mem_get mem_delete ceil [d] (st, n)) = Ok ()
    \<and> mem_get (fst (snd (apply_received_diffs deser nrm env mem_put mem_get mem_delete ceil [d] (st, n)))) wid path = Ok None"
proof -
  have "check_write_clearance (max (metadata_level nrm env (mr_path harmless) (mr_metadata harmless)
      (mr_workspace_id harmless)) (mr_clearance harmless)) ceil = Ok ()"
    using assms(4,6) by (simp add: check_write_ok_iff)
  then have v: "validate_changes_received deser nrm env ceil [d] = Ok ()"
    using assms by (simp add: validate_change_def)
  obtain x s' n' where step: "apply_change deser mem_put mem_get mem_delete d (st, n) = (x, s', n')" by (metis prod_cases3)
  have ok: "x = Ok ()" using mem_apply_ok [of deser "[d]" st n] step by (cases x) auto
  have "s' = snd (mem_delete st wid path)"
    using mem_store.apply_change_delete [OF assms(7), of deser st n] step assms(8,9) by simp
  then have "mem_get s' wid path = Ok None" by (auto simp: mem_get_eq mem_delete_records find_None_iff)
  then show ?thesis using v step ok by (simp add: apply_received_diffs_def)
qed

theorem delete_ignores_stored_clearance_witness:
  "mem_get (fst (snd (apply_received_diffs (\<lambda>b. Some (sample_record ''x'' ''q'')) (\<lambda>p m w. Some (JObj [(''clearance'', JStr ''UNCLASSIFIED'')]))
      (\<lambda>k. None) mem_put mem_get mem_delete Unclassified [delete_diff ''p'' (Some [])]
      (snd (mem_put [] ((sample_record ''a'' ''p'')\<lparr> mr_clearance := TopSecret \<rparr>)), 0)))) ''ws'' ''p'' = Ok None"
  by (rule conjunct2 [OF delete_ignores_stored_clearance [where secret = "(sample_record ''a'' ''p'')\<lparr> mr_clearance := TopSecret \<rparr>"
        and harmless = "sample_record ''x'' ''q''" and bytes = "[]"]]; code_simp)

text \<open>For manifests without repeated hashes the difference is symmetric, transfers exactly the entries
  the other side lacks or has in an older revision, never the same hash in both directions, and after
  the exchange both sides know the same hashes.\<close>

theorem diff_manifests_spec:
  assumes "distinct (map me_hash loc)" and "distinct (map me_hash remote)"
    and "diff_manifests loc remote = (to_push, to_pull)"
  shows "diff_manifests remote loc = (to_pull, to_push)
    \<and> (e \<in> set to_push \<longleftrightarrow> e \<in> set loc \<and> (\<forall>o'\<in>set remote. me_hash o' = me_hash e \<longrightarrow> me_revision o' < me_revision e))
    \<and> set (map me_hash to_push) \<inter> set (map me_hash to_pull) = {}
    \<and> set (map me_hash (loc @ to_pull)) = set (map me_hash (remote @ to_push))"
proof -
  have push: "to_push = filter (missing_or_older (by_hash remote)) loc"
    and pull: "to_pull = filter (missing_or_older (by_hash loc)) remote"
    using assms(3) by (auto simp: diff_manifests_def Let_def)
  note miss = missing_or_older_iff [OF assms(1)] missing_or_older_iff [OF assms(2)]
  have "diff_manifests remote loc = (to_pull, to_push)" by (simp add: diff_manifests_def Let_def push pull)
  moreover have "e \<in> set to_push \<longleftrightarrow> e \<in> set loc \<and> (\<forall>o'\<in>set remote. me_hash o' = me_hash e \<longrightarrow> me_revision o' < me_revision e)"
    by (simp add: push miss)
  moreover have "set (map me_hash to_push) \<inter> set (map me_hash to_pull) = {}"
    by (force simp: push pull miss)
  moreover have "set (map me_hash (loc @ to_pull)) = set (map me_hash (remote @ to_push))"
    by (simp add: push pull miss image_iff set_eq_iff) metis
  ultimately show ?thesis by blast
qed

definition entry :: "string \<Rightarrow> 64 word \<Rightarrow> manifest_entry" where
  "entry h rv = \<lparr> me_hash = h, me_namespace = ''ws'', me_revision = rv, me_updated_at = 0, me_size_bytes = 0,
     me_record_path = Some ''p'' \<rparr>"

theorem diff_manifests_spec_witness:
  "set (map me_hash ([entry ''a'' 1, entry ''b'' 2] @ snd (diff_manifests [entry ''a'' 1, entry ''b'' 2] [entry ''b'' 3, entry ''c'' 1])))
   = set (map me_hash ([entry ''b'' 3, entry ''c'' 1] @ fst (diff_manifests [entry ''a'' 1, entry ''b'' 2] [entry ''b'' 3, entry ''c'' 1])))"
  by (rule diff_manifests_spec [OF _ _ prod.collapse [symmetric], THEN conjunct2, THEN conjunct2, THEN conjunct2])
    (simp_all add: entry_def)

text \<open>Two records of different workspaces and contents that agree on path, revision and second of
  update share one manifest entry, so the second one is never offered to a peer.\<close>

theorem manifest_hides_twin_record:
  assumes "mr_path r1 = mr_path r2" and "mr_revision r1 = mr_revision r2"
    and "mr_updated_at r1 div 1000000000 = mr_updated_at r2 div 1000000000"
    and "lst w1 = Ok [r1]" and "lst w2 = Ok [r2]"
  shows "\<exists>e. build_manifest sha_hex (Ok [w1, w2]) lst = Ok [e] \<and> me_namespace e = mr_workspace_id r1"
  using assms by (simp add: build_manifest_def manifest_step_def chunk_hash_def Let_def)

theorem manifest_hides_twin_record_witness:
  "\<exists>e. build_manifest (\<lambda>b. ''digest'') (Ok [''ws'', ''other''])
     (\<lambda>w. Ok [(sample_record ''a'' ''p'')\<lparr> mr_workspace_id := w, mr_content := w \<rparr>]) = Ok [e] \<and> me_namespace e = ''ws''"
  using manifest_hides_twin_record
    [of "(sample_record ''a'' ''p'')\<lparr> mr_workspace_id := ''ws'', mr_content := ''ws'' \<rparr>"
        "(sample_record ''a'' ''p'')\<lparr> mr_workspace_id := ''other'', mr_content := ''other'' \<rparr>"
        "\<lambda>w. Ok [(sample_record ''a'' ''p'')\<lparr> mr_workspace_id := w, mr_content := w \<rparr>]" "''ws''" "''other''" "\<lambda>b. ''digest''"]
  by simp

end
