(* ===== verification/Consent.thy ===== *)
theory Consent
  imports MemorySync
begin

text \<open>Consent of the local node to share data: the consent manager with its persisted tokens
  (\<open>src/src/mesh/data_consent.rs\<close>) and the filter around peer synchronisation with its per-peer
  overrides (\<open>src/src/mesh/p2p/sync_filter.rs\<close>). The digest of the node id is an argument.\<close>

section \<open>Consent levels\<close>

datatype consent_level = NoConsent | MetadataOnly | Anonymized | FullConsent

record consent_manager =
  cm_node_id :: string
  cm_consent_map :: "(string, consent_level) hmap"

definition consent_manager_new :: "string \<Rightarrow> consent_manager" where
  "consent_manager_new node_id = \<lparr> cm_node_id = node_id, cm_consent_map = [] \<rparr>"

definition set_consent :: "consent_manager \<Rightarrow> string \<Rightarrow> consent_level \<Rightarrow> consent_manager" where
  "set_consent cm data_type level = cm\<lparr> cm_consent_map := hput data_type level (cm_consent_map cm) \<rparr>"

definition get_consent :: "consent_manager \<Rightarrow> string \<Rightarrow> consent_level" where
  "get_consent cm data_type =
     (case hget (cm_consent_map cm) data_type of Some l \<Rightarrow> l | None \<Rightarrow> NoConsent)"

definition metadata_fields :: "string \<Rightarrow> string list" where
  "metadata_fields data_type =
     (if data_type = ''cpu_usage'' \<or> data_type = ''memory_usage'' \<or> data_type = ''disk_usage'' then
        [''metric_name'', ''value'', ''timestamp'']
      else if data_type = ''error_report'' then [''event_kind'', ''sanitized_message'', ''timestamp'']
      else [''timestamp''])"

text \<open>\<open>sha_hex\<close> is the hexadecimal SHA-256 digest of a string.\<close>

definition hash_node_id :: "(string \<Rightarrow> string) \<Rightarrow> consent_manager \<Rightarrow> string" where
  "hash_node_id sha_hex cm = ''anon-'' @ take 16 (sha_hex (cm_node_id cm))"

text \<open>\<open>to_value\<close> is \<open>serde_json::to_value\<close> of the payload, which can fail.\<close>

definition sanitize_payload ::
  "(string \<Rightarrow> string) \<Rightarrow> consent_manager \<Rightarrow> string \<Rightarrow> (json, string) result \<Rightarrow> (json option, string) result"
where
  "sanitize_payload sha_hex cm data_type to_value =
     (case get_consent cm data_type of
        NoConsent \<Rightarrow> Ok None
      | MetadataOnly \<Rightarrow>
          (case to_value of
             Inl e \<Rightarrow> Err e
           | Inr raw \<Rightarrow>
               Ok (Some (case raw of
                           JObj kvs \<Rightarrow> JObj (filter (\<lambda>(k, _). k \<in> set (metadata_fields data_type)) kvs)
                         | _ \<Rightarrow> raw)))
      | Anonymized \<Rightarrow>
          (case to_value of
             Inl e \<Rightarrow> Err e
           | Inr raw \<Rightarrow>
               Ok (Some (case raw of
                           JObj kvs \<Rightarrow>
                             if hmem kvs ''node_id'' then JObj (hput ''node_id'' (JStr (hash_node_id sha_hex cm)) kvs)
                             else raw
                         | _ \<Rightarrow> raw)))
      | FullConsent \<Rightarrow> (case to_value of Inl e \<Rightarrow> Err e | Inr raw \<Rightarrow> Ok (Some raw)))"

section \<open>Consent tokens\<close>

text \<open>The two JSON files of the configuration directory; \<open>io\<close> tells whether reading and writing succeed.
  A file that cannot be parsed reads as an empty list, like a missing one.\<close>

record active_consent =
  ac_token_id :: string
  ac_workspace_id :: string
  ac_expires_at :: "64 word"
  ac_token :: string

record consent_files =
  cf_consents :: "active_consent list"
  cf_revocations :: "string list"

definition register_active_consent :: "bool \<Rightarrow> consent_files \<Rightarrow> active_consent \<Rightarrow> (unit, string) result \<times> consent_files" where
  "register_active_consent io cf c =
     (if io then (Ok (), cf\<lparr> cf_consents := cf_consents cf @ [c] \<rparr>) else (Err ''io'', cf))"

definition revoke_consent :: "bool \<Rightarrow> consent_files \<Rightarrow> string \<Rightarrow> (unit, string) result \<times> consent_files" where
  "revoke_consent io cf token_id =
     (if \<not> io then (Err ''io'', cf)
      else if token_id \<notin> set (cf_revocations cf) then
        (Ok (), cf\<lparr> cf_revocations := cf_revocations cf @ [token_id] \<rparr>)
      else (Ok (), cf))"

definition is_token_revoked :: "bool \<Rightarrow> consent_files \<Rightarrow> string \<Rightarrow> (bool, string) result" where
  "is_token_revoked io cf token_id = (if io then Ok (token_id \<in> set (cf_revocations cf)) else Err ''io'')"

definition list_active_consents :: "bool \<Rightarrow> 64 word \<Rightarrow> consent_files \<Rightarrow> (active_consent list, string) result" where
  "list_active_consents io now cf =
     (if io then
        Ok (filter (\<lambda>c. ac_token_id c \<notin> set (cf_revocations cf) \<and> ac_expires_at c \<ge> now) (cf_consents cf))
      else Err ''io'')"

section \<open>The synchronisation filter\<close>

record sync_filter =
  sf_manager :: consent_manager
  sf_overrides :: "(string, (string, consent_level) hmap) hmap"

definition sync_filter_new :: "consent_manager \<Rightarrow> sync_filter" where
  "sync_filter_new cm = \<lparr> sf_manager = cm, sf_overrides = [] \<rparr>"

definition sync_filter_with_overrides ::
  "consent_manager \<Rightarrow> (string, (string, consent_level) hmap) hmap \<Rightarrow> sync_filter"
where
  "sync_filter_with_overrides cm overrides = \<lparr> sf_manager = cm, sf_overrides = overrides \<rparr>"

definition filter_get_consent :: "sync_filter \<Rightarrow> string \<Rightarrow> string option \<Rightarrow> consent_level" where
  "filter_get_consent f data_type peer_id =
     (case Option.bind (Option.bind peer_id (hget (sf_overrides f))) (\<lambda>ov. hget ov data_type) of
        Some level \<Rightarrow> level
      | None \<Rightarrow> get_consent (sf_manager f) data_type)"

definition is_allowed :: "sync_filter \<Rightarrow> string \<Rightarrow> string \<Rightarrow> bool" where
  "is_allowed f data_type peer_id = (filter_get_consent f data_type (Some peer_id) \<noteq> NoConsent)"

definition filter_out_unconsented :: "sync_filter \<Rightarrow> chunk_diff list \<Rightarrow> string \<Rightarrow> chunk_diff list" where
  "filter_out_unconsented f diffs peer_id =
     List.map_filter (\<lambda>diff.
        case filter_get_consent f (cd_namespace diff) (Some peer_id) of
          NoConsent \<Rightarrow> None
        | MetadataOnly \<Rightarrow> Some (diff\<lparr> cd_data := None \<rparr>)
        | _ \<Rightarrow> Some diff) diffs"

definition filter_incoming :: "sync_filter \<Rightarrow> chunk_diff list \<Rightarrow> string \<Rightarrow> chunk_diff list" where
  "filter_incoming f diffs peer_id =
     filter (\<lambda>diff. filter_get_consent f (cd_namespace diff) (Some peer_id) \<noteq> NoConsent) diffs"

definition filter_manifest :: "sync_filter \<Rightarrow> manifest \<Rightarrow> string \<Rightarrow> manifest" where
  "filter_manifest f m peer_id = filter (\<lambda>entry. is_allowed f (me_namespace entry) peer_id) m"

definition filter_sanitize_payload ::
  "(string \<Rightarrow> string) \<Rightarrow> sync_filter \<Rightarrow> string \<Rightarrow> (json, string) result \<Rightarrow> string \<Rightarrow> (json option, string) result"
where
  "filter_sanitize_payload sha_hex f namespace to_value peer_id =
     (case filter_get_consent f namespace (Some peer_id) of
        NoConsent \<Rightarrow> Ok None
      | _ \<Rightarrow> sanitize_payload sha_hex (sf_manager f) namespace to_value)"

record filter_summary =
  fs_total :: nat
  fs_kept :: nat
  fs_dropped :: nat

definition summarize_diffs :: "chunk_diff list \<Rightarrow> chunk_diff list \<Rightarrow> filter_summary" where
  "summarize_diffs original filtered =
     \<lparr> fs_total = length original, fs_kept = length filtered, fs_dropped = length original - length filtered \<rparr>"

record filtered_session =
  session_filter :: sync_filter
  session_peer :: string

definition session_outgoing :: "filtered_session \<Rightarrow> chunk_diff list \<Rightarrow> chunk_diff list" where
  "session_outgoing s diffs = filter_out_unconsented (session_filter s) diffs (session_peer s)"

definition session_incoming :: "filtered_session \<Rightarrow> chunk_diff list \<Rightarrow> chunk_diff list" where
  "session_incoming s diffs = filter_incoming (session_filter s) diffs (session_peer s)"

definition session_manifest :: "filtered_session \<Rightarrow> manifest \<Rightarrow> manifest" where
  "session_manifest s m = filter_manifest (session_filter s) m (session_peer s)"

section \<open>Properties\<close>

lemma set_map_filter_iff: "y \<in> set (List.map_filter f xs) \<longleftrightarrow> (\<exists>x\<in>set xs. f x = Some y)"
  by (induction xs) (auto simp: List.map_filter_simps split: option.split)

lemma filter_out_iff:
  "d \<in> set (filter_out_unconsented f diffs peer) \<longleftrightarrow>
     (\<exists>o'\<in>set diffs. is_allowed f (cd_namespace o') peer \<and>
        d = (if filter_get_consent f (cd_namespace o') (Some peer) = MetadataOnly then o'\<lparr> cd_data := None \<rparr> else o'))"
proof -
  have "(case filter_get_consent f (cd_namespace o') (Some peer) of
          NoConsent \<Rightarrow> None | MetadataOnly \<Rightarrow> Some (o'\<lparr> cd_data := None \<rparr>) | _ \<Rightarrow> Some o') = Some d
      \<longleftrightarrow> is_allowed f (cd_namespace o') peer \<and>
        d = (if filter_get_consent f (cd_namespace o') (Some peer) = MetadataOnly then o'\<lparr> cd_data := None \<rparr> else o')" for o'
    by (auto simp: is_allowed_def split: consent_level.split)
  then show ?thesis by (simp add: filter_out_unconsented_def set_map_filter_iff)
qed

lemma filter_incoming_iff:
  "d \<in> set (filter_incoming f diffs peer) \<longleftrightarrow> d \<in> set diffs \<and> is_allowed f (cd_namespace d) peer"
  by (simp add: filter_incoming_def is_allowed_def)

text \<open>Nothing leaves the node without consent: every outgoing change belongs to a namespace the peer
  may see, carries data only under anonymised or full consent, and is otherwise one of the given ones
  unchanged; changes of an allowed namespace are never dropped, and the incoming and manifest filters
  use the same rule.\<close>

theorem sync_filter_respects_consent:
  "d \<in> set (filter_out_unconsented f diffs peer) \<longleftrightarrow>
     (\<exists>o'\<in>set diffs. is_allowed f (cd_namespace o') peer \<and>
        d = (if filter_get_consent f (cd_namespace o') (Some peer) = MetadataOnly then o'\<lparr> cd_data := None \<rparr> else o'))
   \<and> (d' \<in> set (filter_incoming f diffs peer) \<longleftrightarrow> d' \<in> set diffs \<and> is_allowed f (cd_namespace d') peer)
   \<and> (e \<in> set (filter_manifest f m peer) \<longleftrightarrow> e \<in> set m \<and> is_allowed f (me_namespace e) peer)"
  by (simp add: filter_out_iff filter_incoming_iff filter_manifest_def)

text \<open>At the metadata level an object payload keeps only the listed fields of its data type, with
  their values, and no payload leaves without consent.\<close>

theorem sanitize_metadata_allowlist:
  "(get_consent cm ty = MetadataOnly \<longrightarrow>
      sanitize_payload sha cm ty (Ok (JObj kvs)) = Ok (Some (JObj (filter (\<lambda>(k, _). k \<in> set (metadata_fields ty)) kvs))))
   \<and> (get_consent cm ty = NoConsent \<longrightarrow> sanitize_payload sha cm ty v = Ok None)
   \<and> (get_consent cm ty = Anonymized \<longrightarrow> hmem kvs ''node_id'' \<longrightarrow>
      (\<exists>out. sanitize_payload sha cm ty (Ok (JObj kvs)) = Ok (Some (JObj out))
         \<and> hget out ''node_id'' = Some (JStr (hash_node_id sha cm)) \<and> (\<forall>k. k \<noteq> ''node_id'' \<longrightarrow> hget out k = hget kvs k)))"
  by (auto simp: sanitize_payload_def)

theorem sanitize_metadata_allowlist_witness:
  "sanitize_payload (\<lambda>s. s) (set_consent (consent_manager_new ''n'') ''cpu_usage'' MetadataOnly) ''cpu_usage''
     (Ok (JObj [(''value'', JNum ''1''), (''host'', JStr ''h'')])) = Ok (Some (JObj [(''value'', JNum ''1'')]))"
  using sanitize_metadata_allowlist
    [of "set_consent (consent_manager_new ''n'') ''cpu_usage'' MetadataOnly" "''cpu_usage''" "\<lambda>s. s"
        "[(''value'', JNum ''1''), (''host'', JStr ''h'')]"]
  by (simp add: get_consent_def set_consent_def consent_manager_new_def metadata_fields_def)

text \<open>The payload filter of a peer session consults the peer's override only to decide whether
  anything is sent: with full consent as the default and a stricter override for the peer, the whole
  payload is sent.\<close>

theorem override_does_not_restrict_payload:
  assumes "get_consent (sf_manager f) ns = FullConsent"
    and "filter_get_consent f ns (Some peer) = MetadataOnly \<or> filter_get_consent f ns (Some peer) = Anonymized"
  shows "filter_sanitize_payload sha f ns (Ok v) peer = Ok (Some v)"
  using assms by (auto simp: filter_sanitize_payload_def sanitize_payload_def)

theorem override_does_not_restrict_payload_witness:
  "filter_sanitize_payload (\<lambda>s. s)
     (sync_filter_with_overrides (set_consent (consent_manager_new ''n'') ''error_report'' FullConsent)
        [(''peer'', [(''error_report'', MetadataOnly)])])
     ''error_report'' (Ok (JObj [(''stack'', JStr ''private'')])) ''peer'' = Ok (Some (JObj [(''stack'', JStr ''private'')]))"
  by (rule override_does_not_restrict_payload)
    (simp_all add: get_consent_def filter_get_consent_def set_consent_def consent_manager_new_def sync_filter_with_overrides_def)

section \<open>Revocation\<close>

datatype consent_op = RegisterConsent bool active_consent | RevokeConsent bool string

primrec consent_step :: "consent_files \<Rightarrow> consent_op \<Rightarrow> consent_files" where
  "consent_step cf (RegisterConsent io c) = snd (register_active_consent io cf c)"
| "consent_step cf (RevokeConsent io t) = snd (revoke_consent io cf t)"

lemma revocations_grow: "set (cf_revocations cf) \<subseteq> set (cf_revocations (foldl consent_step cf ops))"
proof (induction ops arbitrary: cf)
  case (Cons oper ops)
  have "set (cf_revocations cf) \<subseteq> set (cf_revocations (consent_step cf oper))"
    by (cases oper) (auto simp: register_active_consent_def revoke_consent_def)
  then show ?case using Cons by (simp, blast)
qed simp

text \<open>A token that was revoked once is never listed as active again, whatever is registered or revoked
  later.\<close>

theorem revocation_is_final:
  assumes "fst (revoke_consent io cf t) = Ok ()"
    and "list_active_consents io' now (foldl consent_step (snd (revoke_consent io cf t)) ops) = Ok cs"
  shows "\<forall>c\<in>set cs. ac_token_id c \<noteq> t \<and> ac_expires_at c \<ge> now"
proof -
  have "t \<in> set (cf_revocations (snd (revoke_consent io cf t)))"
    using assms(1) by (auto simp: revoke_consent_def split: if_splits)
  then have "t \<in> set (cf_revocations (foldl consent_step (snd (revoke_consent io cf t)) ops))"
    using revocations_grow by blast
  then show ?thesis using assms(2) by (auto simp: list_active_consents_def split: if_splits)
qed

theorem revocation_is_final_witness:
  "let c = (\<lambda>tok. \<lparr> ac_token_id = tok, ac_workspace_id = ''w'', ac_expires_at = 9, ac_token = ''x'' \<rparr>);
       cf = foldl consent_step (snd (revoke_consent True \<lparr> cf_consents = [], cf_revocations = [] \<rparr> ''t''))
              [RegisterConsent True (c ''t''), RegisterConsent True (c ''u'')] in
   list_active_consents True 5 cf = Ok [c ''u''] \<and> ac_token_id (c ''u'') \<noteq> ''t''"
proof -
  let ?c = "\<lambda>tok. \<lparr> ac_token_id = tok, ac_workspace_id = ''w'', ac_expires_at = 9, ac_token = ''x'' \<rparr> :: active_consent"
  have r: "fst (revoke_consent True \<lparr> cf_consents = [], cf_revocations = [] \<rparr> ''t'') = Ok ()" by code_simp
  have l: "list_active_consents True 5 (foldl consent_step (snd (revoke_consent True \<lparr> cf_consents = [], cf_revocations = [] \<rparr> ''t''))
      [RegisterConsent True (?c ''t''), RegisterConsent True (?c ''u'')]) = Ok [?c ''u'']"
    by (simp add: revoke_consent_def register_active_consent_def list_active_consents_def)
  show ?thesis using revocation_is_final [OF r l] l by simp
qed

end
