(* ===== verification/SecretLeases.thy ===== *)
theory SecretLeases
  imports Prelude
begin

text \<open>Lending of secrets to agents: the rate guard and the simple engine of \<open>src/src/secrets/lending.rs\<close>,
  and the engine of \<open>src/src/coordination/secrets.rs\<close> with its lease table
  (\<open>src/src/secrets/audit.rs\<close>). Times are integers in nanoseconds since the epoch. What an operation takes
  from outside is an argument: the time, a fresh token, whether the database answers, SHA-256 in
  hexadecimal, chrono's text of a time and its addition of a number of seconds to a time, which is \<open>None\<close> where chrono panics.
  The results of a panic are errors whose text starts with \<open>panic\<close>. Log lines are not modelled, audit
  records and bus events are.\<close>

definition nanos :: int where
  "nanos = 1000000000"

datatype secret_error =
    NotFound string
  | ProviderError string
  | ApprovalDenied string

definition secret_error_text :: "secret_error \<Rightarrow> string" where
  "secret_error_text err =
     (case err of
        NotFound s \<Rightarrow> ''Secret not found: '' @ s
      | ProviderError s \<Rightarrow> ''Provider error: '' @ s
      | ApprovalDenied s \<Rightarrow> ''Approval denied for operation: '' @ s)"

section \<open>The rate guard\<close>

record anti_exfil =
  max_lends_per_minute :: "32 word"
  block_external_ips :: bool
  recent_lends :: "(string \<times> int) list"

definition anti_exfil_new :: "32 word \<Rightarrow> anti_exfil" where
  "anti_exfil_new max_per_min =
     \<lparr> max_lends_per_minute = max_per_min, block_external_ips = True, recent_lends = [] \<rparr>"

text \<open>\<open>duration_since\<close> fails for a time in the future, which counts as 999 seconds.\<close>

definition within_minute :: "int \<Rightarrow> int \<Rightarrow> bool" where
  "within_minute now t = ((if t \<le> now then (now - t) div nanos else 999) < 60)"

definition check_and_record :: "int \<Rightarrow> anti_exfil \<Rightarrow> string \<Rightarrow> (unit, secret_error) result \<times> anti_exfil" where
  "check_and_record now d agent_id =
     (let d' = d\<lparr> recent_lends := filter (\<lambda>(_, t). within_minute now t) (recent_lends d) \<rparr>;
          count = length (filter (\<lambda>(a, _). a = agent_id) (recent_lends d')) in
      if (of_nat count :: 32 word) \<ge> max_lends_per_minute d' then
        (Err (ApprovalDenied (''Vault anti-exfil: agent '' @ agent_id @ '' exceeded '' @
           nat_dec (unat (max_lends_per_minute d')) @ '' lends/min'')), d')
      else (Ok (), d'\<lparr> recent_lends := recent_lends d' @ [(agent_id, now)] \<rparr>))"

definition is_allowed_ip :: "anti_exfil \<Rightarrow> string \<Rightarrow> bool" where
  "is_allowed_ip d ip =
     (if \<not> block_external_ips d then True
      else starts_with ip ''127.'' \<or> starts_with ip ''10.'' \<or> starts_with ip ''192.168.'' \<or> ip = ''::1'')"

section \<open>The simple engine\<close>

datatype audit_event =
    LogLend string string string "64 word"
  | LogRevoke string string string
  | LogDeny string string string

record ephemeral_lease =
  el_session_token :: string
  el_real_secret_id :: string
  el_agent_id :: string
  el_expires_at :: int

record simple_engine =
  se_leases :: "(string, ephemeral_lease) hmap"
  se_audit :: "audit_event list"

text \<open>\<open>SystemTime\<close> counts seconds in an \<open>i64\<close>; its addition panics above.\<close>

definition simple_lend ::
  "int \<Rightarrow> string \<Rightarrow> simple_engine \<Rightarrow> string \<Rightarrow> string \<Rightarrow> 64 word \<Rightarrow> (string, secret_error) result \<times> simple_engine"
where
  "simple_lend now session_token e agent_id secret_id ttl_secs =
     (let expires_at = now + uint ttl_secs * nanos in
      if expires_at div nanos \<ge> 2 ^ 63 then (Err (ProviderError ''panic: overflow when adding duration to instant''), e)
      else
        (Ok session_token,
         e\<lparr> se_leases := hput session_token
              \<lparr> el_session_token = session_token, el_real_secret_id = secret_id, el_agent_id = agent_id,
                el_expires_at = expires_at \<rparr> (se_leases e),
            se_audit := se_audit e @ [LogLend agent_id secret_id session_token ttl_secs] \<rparr>))"

definition simple_revoke :: "simple_engine \<Rightarrow> string \<Rightarrow> string \<Rightarrow> (unit, secret_error) result \<times> simple_engine" where
  "simple_revoke e session_token reason =
     (case hget (se_leases e) session_token of
        Some lease \<Rightarrow> (Ok (), e\<lparr> se_leases := hdel session_token (se_leases e),
                               se_audit := se_audit e @ [LogRevoke (el_agent_id lease) session_token reason] \<rparr>)
      | None \<Rightarrow> (Err (NotFound (''Lease '' @ session_token @ '' not found'')), e))"

definition simple_resolve :: "int \<Rightarrow> simple_engine \<Rightarrow> string \<Rightarrow> (string, secret_error) result" where
  "simple_resolve now e session_token =
     (case hget (se_leases e) session_token of
        Some lease \<Rightarrow>
          if now > el_expires_at lease then Err (ApprovalDenied ''Session token expired'')
          else Ok (el_real_secret_id lease)
      | None \<Rightarrow> Err (NotFound ''Session token invalid or revoked''))"

definition simple_cleanup_expired :: "int \<Rightarrow> simple_engine \<Rightarrow> simple_engine" where
  "simple_cleanup_expired now e =
     (let expired_tokens = map fst (filter (\<lambda>(token, lease). now > el_expires_at lease) (se_leases e)) in
      foldl (\<lambda>e token.
               case hget (se_leases e) token of
                 Some lease \<Rightarrow> e\<lparr> se_leases := hdel token (se_leases e),
                                se_audit := se_audit e @ [LogRevoke (el_agent_id lease) token ''TTL Expired''] \<rparr>
               | None \<Rightarrow> e) e expired_tokens)"

section \<open>Leases and the lease table\<close>

record secret_lease =
  sl_token :: string
  sl_secret_name :: string
  sl_secret_value :: "string option"
  sl_agent_id :: string
  sl_expires_at :: int
  sl_created_at :: int

definition lease_is_expired :: "int \<Rightarrow> secret_lease \<Rightarrow> bool" where
  "lease_is_expired now lease = (now > sl_expires_at lease)"

text \<open>The columns of times hold RFC 3339 text, which chrono writes (\<open>to_rfc3339\<close>) and reads (\<open>parse_from_rfc3339\<close>).
  It writes every time it can represent and reads back those whose year has four digits; a time that is
  read back as it was is \<open>exact\<close>.\<close>

record time_text =
  tt_write :: "int \<Rightarrow> string"
  tt_read :: "string \<Rightarrow> int option"

definition exact :: "time_text \<Rightarrow> int \<Rightarrow> bool" where
  "exact T t = (tt_read T (tt_write T t) = Some t)"

text \<open>A row of the table, and a row as it is read.\<close>

record lease_row =
  lr_secret_name :: string
  lr_agent_id :: string
  lr_created_at :: string
  lr_expires_at :: string
  lr_revoked :: bool

record loaded_row =
  ld_secret_name :: string
  ld_agent_id :: string
  ld_created_at :: int
  ld_expires_at :: int

type_synonym lease_table = "(string, lease_row) hmap"

definition insert_lease :: "time_text \<Rightarrow> string \<Rightarrow> string \<Rightarrow> string \<Rightarrow> int \<Rightarrow> int \<Rightarrow> lease_table \<Rightarrow> lease_table" where
  "insert_lease T token name agent_id created_at expires_at tab =
     hput token \<lparr> lr_secret_name = name, lr_agent_id = agent_id, lr_created_at = tt_write T created_at,
                  lr_expires_at = tt_write T expires_at, lr_revoked = False \<rparr> tab"

definition update_row :: "string \<Rightarrow> (lease_row \<Rightarrow> lease_row) \<Rightarrow> lease_table \<Rightarrow> lease_table" where
  "update_row token f tab = (case hget tab token of None \<Rightarrow> tab | Some r \<Rightarrow> hput token (f r) tab)"

definition mark_lease_revoked :: "string \<Rightarrow> lease_table \<Rightarrow> lease_table" where
  "mark_lease_revoked token tab = update_row token (\<lambda>r. r\<lparr> lr_revoked := True \<rparr>) tab"

definition update_lease_expiry :: "time_text \<Rightarrow> string \<Rightarrow> int \<Rightarrow> lease_table \<Rightarrow> lease_table" where
  "update_lease_expiry T token expires_at tab = update_row token (\<lambda>r. r\<lparr> lr_expires_at := tt_write T expires_at \<rparr>) tab"

definition load_row :: "time_text \<Rightarrow> lease_row \<Rightarrow> loaded_row option" where
  "load_row T r =
     (case tt_read T (lr_created_at r) of
        None \<Rightarrow> None
      | Some c \<Rightarrow>
          (case tt_read T (lr_expires_at r) of
             None \<Rightarrow> None
           | Some x \<Rightarrow> Some \<lparr> ld_secret_name = lr_secret_name r, ld_agent_id = lr_agent_id r, ld_created_at = c,
                             ld_expires_at = x \<rparr>))"

text \<open>The rows not revoked; one time that cannot be read makes the whole query fail.\<close>

fun load_rows :: "time_text \<Rightarrow> (string \<times> lease_row) list \<Rightarrow> (string \<times> loaded_row) list option" where
  "load_rows T [] = Some []"
| "load_rows T ((token, r) # rows) =
     (case load_row T r of
        None \<Rightarrow> None
      | Some x \<Rightarrow> map_option ((#) (token, x)) (load_rows T rows))"

definition active_leases :: "time_text \<Rightarrow> lease_table \<Rightarrow> (string \<times> loaded_row) list option" where
  "active_leases T tab = load_rows T (filter (\<lambda>(_, r). \<not> lr_revoked r) tab)"

section \<open>Leak detection\<close>

type_synonym leak_detector = "(string, string) hmap"

definition register_key :: "(string \<Rightarrow> string) \<Rightarrow> string \<Rightarrow> string \<Rightarrow> leak_detector \<Rightarrow> leak_detector" where
  "register_key sha secret_value agent_id hashes = hput (sha secret_value) agent_id hashes"

text \<open>\<open>str::split\<close> with a predicate, and \<open>trim_start_matches\<close>, which strips a non-empty prefix as often as
  it occurs.\<close>

definition leak_delimiter :: "char \<Rightarrow> bool" where
  "leak_delimiter c = (ascii_space c \<or> c = CHR 0x22 \<or> c = CHR 0x27 \<or> c = CHR '','' \<or> c = CHR '':'')"

fun split_where :: "(char \<Rightarrow> bool) \<Rightarrow> string \<Rightarrow> string list" where
  "split_where P [] = [[]]"
| "split_where P (x # xs) =
     (if P x then [] # split_where P xs
      else (case split_where P xs of [] \<Rightarrow> [[x]] | p # ps \<Rightarrow> (x # p) # ps))"

function trim_start_matches :: "string \<Rightarrow> string \<Rightarrow> string" where
  "trim_start_matches p s =
     (if p \<noteq> [] \<and> starts_with s p then trim_start_matches p (drop (length p) s) else s)"
  by pat_completeness auto

termination trim_start_matches
  by (relation "measure (\<lambda>(p, s). length s)") (auto simp: starts_with_iff)

declare trim_start_matches.simps [simp del]

definition clean_token :: "string \<Rightarrow> string" where
  "clean_token tok =
     trim_start_matches ''token'' (trim_start_matches ''token ''
       (trim_start_matches ''Bearer'' (trim_start_matches ''Bearer '' tok)))"

definition check_leak :: "(string \<Rightarrow> string) \<Rightarrow> leak_detector \<Rightarrow> string \<Rightarrow> (string \<times> string) option" where
  "check_leak sha hashes content =
     (if hashes = [] then None
      else
        List.find (\<lambda>_. True)
          (List.map_filter
             (\<lambda>tok. let h = sha (clean_token tok) in map_option (\<lambda>agent_id. (agent_id, h)) (hget hashes h))
             (filter (\<lambda>tok. tok \<noteq> []) (split_where leak_delimiter content))))"

section \<open>The engine\<close>

text \<open>An operation reads the clock once; \<open>le_events\<close> lists what the event bus receives when there is one.
  \<open>env_plus_secs t s\<close> is \<open>t + Duration::seconds(s as i64)\<close>.\<close>

record lease_env =
  env_now :: int
  env_db :: bool
  env_token :: string
  env_plus_secs :: "int \<Rightarrow> 64 word \<Rightarrow> int option"
  env_sha :: "string \<Rightarrow> string"
  env_text :: time_text

record lease_engine =
  le_leases :: "(string, secret_lease) hmap"
  le_audit :: "audit_event list"
  le_leak :: leak_detector
  le_events :: "(string \<times> string) list"
  le_anti_exfil :: "anti_exfil option"
  le_restored :: bool
  le_table :: lease_table

definition lease_engine_new :: "anti_exfil option \<Rightarrow> lease_table \<Rightarrow> lease_engine" where
  "lease_engine_new exfil tab =
     \<lparr> le_leases = [], le_audit = [], le_leak = [], le_events = [], le_anti_exfil = exfil,
       le_restored = False, le_table = tab \<rparr>"

definition persist_table :: "lease_env \<Rightarrow> (lease_table \<Rightarrow> lease_table) \<Rightarrow> lease_engine \<Rightarrow> lease_engine" where
  "persist_table env f e = (if env_db env then e\<lparr> le_table := f (le_table e) \<rparr> else e)"

definition lease_of_row :: "string \<Rightarrow> loaded_row \<Rightarrow> secret_lease" where
  "lease_of_row token r =
     \<lparr> sl_token = token, sl_secret_name = ld_secret_name r, sl_secret_value = None,
       sl_agent_id = ld_agent_id r, sl_expires_at = ld_expires_at r, sl_created_at = ld_created_at r \<rparr>"

definition restore_leases :: "lease_env \<Rightarrow> lease_engine \<Rightarrow> lease_engine" where
  "restore_leases env e =
     (case (if env_db env then active_leases (env_text env) (le_table e) else None) of
        None \<Rightarrow> e
      | Some rows \<Rightarrow>
        let live = filter (\<lambda>(_, r). ld_expires_at r > env_now env) rows;
            lapsed = filter (\<lambda>(_, r). \<not> ld_expires_at r > env_now env) rows;
            e1 = e\<lparr> le_leases := foldl (\<lambda>m (token, r). hput token (lease_of_row token r) m) (le_leases e) live \<rparr> in
        foldl (\<lambda>e (token, r).
                 persist_table env (mark_lease_revoked token)
                   (e\<lparr> le_audit := le_audit e @ [LogRevoke (ld_agent_id r) token ''restored-expired''] \<rparr>))
          e1 lapsed)"

definition ensure_restored :: "lease_env \<Rightarrow> lease_engine \<Rightarrow> lease_engine" where
  "ensure_restored env e =
     (if le_restored e then e else (restore_leases env e)\<lparr> le_restored := True \<rparr>)"

definition check_anti_exfil :: "lease_env \<Rightarrow> lease_engine \<Rightarrow> string \<Rightarrow> string \<Rightarrow> (unit, string) result \<times> lease_engine" where
  "check_anti_exfil env e agent_id name =
     (case le_anti_exfil e of
        None \<Rightarrow> (Ok (), e)
      | Some d \<Rightarrow>
          (case check_and_record (env_now env) d agent_id of
             (Inl err, d') \<Rightarrow>
               (Err (secret_error_text err),
                e\<lparr> le_anti_exfil := Some d',
                   le_audit := le_audit e @ [LogDeny agent_id name (secret_error_text err)] \<rparr>)
           | (Inr _, d') \<Rightarrow> (Ok (), e\<lparr> le_anti_exfil := Some d' \<rparr>)))"

definition lend_unchecked ::
  "lease_env \<Rightarrow> lease_engine \<Rightarrow> string \<Rightarrow> string option \<Rightarrow> string \<Rightarrow> 64 word \<Rightarrow>
     (secret_lease, string) result \<times> lease_engine"
where
  "lend_unchecked env e0 name val agent_id ttl_secs =
     (let e = ensure_restored env e0; token = env_token env; now = env_now env in
      case env_plus_secs env now ttl_secs of
        None \<Rightarrow> (Err ''panic'', e)
      | Some expires_at \<Rightarrow>
          let lease = \<lparr> sl_token = token, sl_secret_name = name, sl_secret_value = val, sl_agent_id = agent_id,
                        sl_expires_at = expires_at, sl_created_at = now \<rparr>;
              e1 = e\<lparr> le_leases := hput token lease (le_leases e),
                      le_leak := (case val of Some v \<Rightarrow> register_key (env_sha env) v agent_id (le_leak e)
                                  | None \<Rightarrow> le_leak e),
                      le_audit := le_audit e @ [LogLend agent_id name token ttl_secs] \<rparr> in
          (Ok lease, persist_table env (insert_lease (env_text env) token name agent_id now expires_at) e1))"

definition lend ::
  "lease_env \<Rightarrow> lease_engine \<Rightarrow> string \<Rightarrow> string option \<Rightarrow> string \<Rightarrow> 64 word \<Rightarrow>
     (secret_lease, string) result \<times> lease_engine"
where
  "lend env e name val agent_id ttl_secs =
     (case check_anti_exfil env e agent_id name of
        (Inl err, e') \<Rightarrow> (Err err, e')
      | (Inr _, e') \<Rightarrow> lend_unchecked env e' name val agent_id ttl_secs)"

text \<open>\<open>vault name\<close> is what the hardware vault answers.\<close>

definition lend_from_vault ::
  "(string \<Rightarrow> (string, string) result) \<Rightarrow> lease_env \<Rightarrow> lease_engine \<Rightarrow> string \<Rightarrow> string \<Rightarrow> 64 word \<Rightarrow> bool \<Rightarrow>
     (secret_lease, string) result \<times> lease_engine"
where
  "lend_from_vault vault env e name agent_id ttl_secs redact =
     (case check_anti_exfil env e agent_id name of
        (Inl err, e') \<Rightarrow> (Err err, e')
      | (Inr _, e') \<Rightarrow>
          (case vault name of
             Inl err \<Rightarrow> (Err err, e')
           | Inr val \<Rightarrow>
               (case lend_unchecked env e' name (Some val) agent_id ttl_secs of
                  (Inl err, e'') \<Rightarrow> (Err err, e'')
                | (Inr lease, e'') \<Rightarrow>
                    (Ok (if redact then lease\<lparr> sl_secret_value := None \<rparr> else lease), e''))))"

definition revoke :: "lease_env \<Rightarrow> lease_engine \<Rightarrow> string \<Rightarrow> string \<Rightarrow> (unit, string) result \<times> lease_engine" where
  "revoke env e0 token reason =
     (let e = ensure_restored env e0 in
      case hget (le_leases e) token of
        Some lease \<Rightarrow>
          (Ok (), persist_table env (mark_lease_revoked token)
             (e\<lparr> le_leases := hdel token (le_leases e),
                 le_audit := le_audit e @ [LogRevoke (sl_agent_id lease) token reason],
                 le_events := le_events e @ [(sl_agent_id lease, token)] \<rparr>))
      | None \<Rightarrow> (Err ''Lease token not found'', e))"

definition renew_for_agent ::
  "lease_env \<Rightarrow> lease_engine \<Rightarrow> string \<Rightarrow> 64 word \<Rightarrow> (nat, string) result \<times> lease_engine"
where
  "renew_for_agent env e0 agent_id ttl_secs =
     (let e = ensure_restored env e0 in
      case env_plus_secs env (env_now env) ttl_secs of
        None \<Rightarrow> (Err ''panic'', e)
      | Some new_expiry \<Rightarrow>
          let renewed = map (\<lambda>(_, lease). sl_token lease)
                (filter (\<lambda>(_, lease). sl_agent_id lease = agent_id) (le_leases e));
              e1 = e\<lparr> le_leases := map (\<lambda>(token, lease).
                       (token, if sl_agent_id lease = agent_id then lease\<lparr> sl_expires_at := new_expiry \<rparr> else lease))
                     (le_leases e) \<rparr> in
          (Ok (length renewed),
           foldl (\<lambda>e token. persist_table env (update_lease_expiry (env_text env) token new_expiry) e) e1 renewed))"

text \<open>The loop that \<open>revoke_for_agent\<close> and \<open>cleanup_expired\<close> share: take out the leases with \<open>P\<close>, then note
  each and mark it in the table.\<close>

definition drop_leases ::
  "lease_env \<Rightarrow> (secret_lease \<Rightarrow> bool) \<Rightarrow> (secret_lease \<Rightarrow> lease_engine \<Rightarrow> lease_engine) \<Rightarrow> lease_engine \<Rightarrow> nat \<times> lease_engine"
where
  "drop_leases env P note_removed e =
     (let removed = map snd (filter (\<lambda>(_, lease). P lease) (le_leases e));
          e1 = e\<lparr> le_leases := filter (\<lambda>(_, lease). \<not> P lease) (le_leases e) \<rparr> in
      (length removed,
       foldl (\<lambda>e lease. persist_table env (mark_lease_revoked (sl_token lease)) (note_removed lease e)) e1 removed))"

definition revoke_for_agent :: "lease_env \<Rightarrow> lease_engine \<Rightarrow> string \<Rightarrow> string \<Rightarrow> nat \<times> lease_engine" where
  "revoke_for_agent env e agent_id reason =
     drop_leases env (\<lambda>lease. sl_agent_id lease = agent_id)
       (\<lambda>lease e. e\<lparr> le_audit := le_audit e @ [LogRevoke agent_id (sl_token lease) reason],
                     le_events := le_events e @ [(agent_id, sl_token lease)] \<rparr>)
       (ensure_restored env e)"

definition get_lease :: "lease_env \<Rightarrow> lease_engine \<Rightarrow> string \<Rightarrow> secret_lease option \<times> lease_engine" where
  "get_lease env e0 token = (let e = ensure_restored env e0 in (hget (le_leases e) token, e))"

definition lease_id_for_token :: "(string \<Rightarrow> string) \<Rightarrow> string \<Rightarrow> string" where
  "lease_id_for_token sha token = sha (''xavier-lease-id:v1:'' @ token)"

record lease_view =
  lv_lease_id :: string
  lv_secret_name :: string
  lv_agent_id :: string
  lv_expires_at :: int
  lv_created_at :: int

definition view_from_lease :: "(string \<Rightarrow> string) \<Rightarrow> secret_lease \<Rightarrow> lease_view" where
  "view_from_lease sha lease =
     \<lparr> lv_lease_id = lease_id_for_token sha (sl_token lease), lv_secret_name = sl_secret_name lease,
       lv_agent_id = sl_agent_id lease, lv_expires_at = sl_expires_at lease, lv_created_at = sl_created_at lease \<rparr>"

definition token_for_lease_id :: "lease_env \<Rightarrow> lease_engine \<Rightarrow> string \<Rightarrow> string option \<times> lease_engine" where
  "token_for_lease_id env e0 lease_id =
     (let e = ensure_restored env e0 in
      (map_option sl_token
         (List.find (\<lambda>lease. lease_id_for_token (env_sha env) (sl_token lease) = lease_id) (hvalues (le_leases e))), e))"

definition get_lease_view :: "lease_env \<Rightarrow> lease_engine \<Rightarrow> string \<Rightarrow> lease_view option \<times> lease_engine" where
  "get_lease_view env e lease_id =
     (case token_for_lease_id env e lease_id of
        (None, e') \<Rightarrow> (None, e')
      | (Some token, e') \<Rightarrow>
          (let (lease, e'') = get_lease env e' token in (map_option (view_from_lease (env_sha env)) lease, e'')))"

definition revoke_by_lease_id ::
  "lease_env \<Rightarrow> lease_engine \<Rightarrow> string \<Rightarrow> string \<Rightarrow> (unit, string) result \<times> lease_engine"
where
  "revoke_by_lease_id env e lease_id reason =
     (case token_for_lease_id env e lease_id of
        (Some token, e') \<Rightarrow> revoke env e' token reason
      | (None, e') \<Rightarrow> (Err ''Lease not found'', e'))"

definition renew :: "lease_env \<Rightarrow> lease_engine \<Rightarrow> string \<Rightarrow> 64 word \<Rightarrow> (unit, string) result \<times> lease_engine" where
  "renew env e0 token ttl_secs =
     (let e = ensure_restored env e0 in
      case hget (le_leases e) token of
        Some lease \<Rightarrow>
          (case env_plus_secs env (env_now env) ttl_secs of
             None \<Rightarrow> (Err ''panic'', e)
           | Some new_expiry \<Rightarrow>
               (Ok (), persist_table env (update_lease_expiry (env_text env) token new_expiry)
                  (e\<lparr> le_leases := hput token (lease\<lparr> sl_expires_at := new_expiry \<rparr>) (le_leases e) \<rparr>)))
      | None \<Rightarrow> (Err ''Lease token not found'', e))"

definition backoff :: "lease_env \<Rightarrow> lease_engine \<Rightarrow> string \<Rightarrow> 64 word \<Rightarrow> (unit, string) result \<times> lease_engine" where
  "backoff env e0 token seconds =
     (let e = ensure_restored env e0 in
      case hget (le_leases e) token of
        Some lease \<Rightarrow>
          (let base = (if lease_is_expired (env_now env) lease then env_now env else sl_expires_at lease) in
           case env_plus_secs env base seconds of
             None \<Rightarrow> (Err ''panic'', e)
           | Some new_expiry \<Rightarrow>
               (Ok (), persist_table env (update_lease_expiry (env_text env) token new_expiry)
                  (e\<lparr> le_leases := hput token (lease\<lparr> sl_expires_at := new_expiry \<rparr>) (le_leases e) \<rparr>)))
      | None \<Rightarrow> (Err ''Lease token not found'', e))"

definition list_leases :: "lease_env \<Rightarrow> lease_engine \<Rightarrow> secret_lease list \<times> lease_engine" where
  "list_leases env e0 = (let e = ensure_restored env e0 in (hvalues (le_leases e), e))"

definition list_lease_views :: "lease_env \<Rightarrow> lease_engine \<Rightarrow> lease_view list \<times> lease_engine" where
  "list_lease_views env e =
     (let (leases, e') = list_leases env e in (map (view_from_lease (env_sha env)) leases, e'))"

definition cleanup_expired :: "lease_env \<Rightarrow> lease_engine \<Rightarrow> nat \<times> lease_engine" where
  "cleanup_expired env e =
     drop_leases env (lease_is_expired (env_now env))
       (\<lambda>lease e. e\<lparr> le_audit := le_audit e @ [LogRevoke (sl_agent_id lease) (sl_token lease) ''TTL Expired''] \<rparr>)
       (ensure_restored env e)"

section \<open>The guard bounds the lends of every minute\<close>

fun guard_run :: "anti_exfil \<Rightarrow> (int \<times> string) list \<Rightarrow> (string \<times> int) list \<times> anti_exfil" where
  "guard_run d [] = ([], d)"
| "guard_run d ((now, a) # reqs) =
     (let (r, d') = check_and_record now d a; (acc, d'') = guard_run d' reqs in
      (if is_ok r then (a, now) # acc else acc, d''))"

definition lends_between :: "(string \<times> int) list \<Rightarrow> string \<Rightarrow> int \<Rightarrow> int \<Rightarrow> nat" where
  "lends_between acc a lo hi = length (filter (\<lambda>(b, t). b = a \<and> lo \<le> t \<and> t < hi) acc)"

lemma zdiv_less_iff:
  assumes "0 < c"
  shows "x div c < k \<longleftrightarrow> x < k * (c :: int)"
proof
  assume "x div c < k"
  then have "x div c + 1 \<le> k" by simp
  then have "(x div c + 1) * c \<le> k * c" using assms by (intro mult_right_mono) auto
  moreover have "x < (x div c + 1) * c"
    using pos_mod_bound [OF assms, of x] div_mult_mod_eq [of x c] distrib_right [of "x div c" 1 c] by linarith
  ultimately show "x < k * c" by simp
next
  assume "x < k * c"
  moreover have "(x div c) * c \<le> x"
    using pos_mod_sign [OF assms, of x] div_mult_mod_eq [of x c] by linarith
  ultimately have "(x div c) * c < k * c" by simp
  then show "x div c < k" using assms by (simp add: mult_less_cancel_right)
qed

lemma within_minute_iff: "t \<le> now \<Longrightarrow> within_minute now t \<longleftrightarrow> now - t < 60 * nanos"
  by (simp add: within_minute_def zdiv_less_iff nanos_def)

lemma not_within_future: "now < t \<Longrightarrow> \<not> within_minute now t"
  by (simp add: within_minute_def)

lemma guard_run_snoc:
  "guard_run d (reqs @ [(now, a)]) =
     (let (acc, d') = guard_run d reqs; (r, d'') = check_and_record now d' a in
      (if is_ok r then acc @ [(a, now)] else acc, d''))"
  by (induction d reqs rule: guard_run.induct) (auto simp: Let_def split: prod.splits)

lemma check_and_record_recent:
  "recent_lends (snd (check_and_record now d a)) =
     filter (\<lambda>(_, t). within_minute now t) (recent_lends d) @
     (if is_ok (fst (check_and_record now d a)) then [(a, now)] else [])"
  by (simp add: check_and_record_def Let_def)

lemma check_and_record_ok_iff:
  "is_ok (fst (check_and_record now d a)) \<longleftrightarrow>
     (of_nat (length (filter (\<lambda>(b, t). b = a \<and> within_minute now t) (recent_lends d))) :: 32 word)
       < max_lends_per_minute d"
  by (auto simp: check_and_record_def Let_def not_le not_less case_prod_unfold conj_commute)

lemma check_and_record_max [simp]:
  "max_lends_per_minute (snd (check_and_record now d a)) = max_lends_per_minute d"
  by (simp add: check_and_record_def Let_def)

lemma guard_run_max [simp]: "max_lends_per_minute (snd (guard_run d reqs)) = max_lends_per_minute d"
proof (induction reqs rule: rev_induct)
  case (snoc req reqs)
  obtain now a where req: "req = (now, a)" by force
  have "snd (guard_run d (reqs @ [(now, a)])) = snd (check_and_record now (snd (guard_run d reqs)) a)"
    unfolding guard_run_snoc by (simp add: Let_def case_prod_unfold)
  then show ?case using snoc req by simp
qed simp

lemma guard_run_snoc_fst:
  "fst (guard_run d (reqs @ [(now, a)])) =
     fst (guard_run d reqs) @ (if is_ok (fst (check_and_record now (snd (guard_run d reqs)) a)) then [(a, now)] else [])"
  unfolding guard_run_snoc by (simp add: Let_def case_prod_unfold)

lemma guard_run_snoc_snd:
  "snd (guard_run d (reqs @ [(now, a)])) = snd (check_and_record now (snd (guard_run d reqs)) a)"
  unfolding guard_run_snoc by (simp add: Let_def case_prod_unfold)

lemma guard_run_times: "(a, t) \<in> set (fst (guard_run d reqs)) \<Longrightarrow> t \<in> set (map fst reqs)"
proof (induction reqs rule: rev_induct)
  case (snoc req reqs)
  obtain now b where req: "req = (now, b)" by force
  show ?case using snoc unfolding req guard_run_snoc_fst by (auto split: if_splits)
qed simp

lemma guard_recent:
  assumes "sorted (map fst reqs)" "\<forall>t\<in>set (map fst reqs). t \<le> now"
  shows "filter (\<lambda>(_, t). within_minute now t) (recent_lends (snd (guard_run (anti_exfil_new m) reqs))) =
         filter (\<lambda>(_, t). within_minute now t) (fst (guard_run (anti_exfil_new m) reqs))"
  using assms
proof (induction reqs arbitrary: now rule: rev_induct)
  case Nil
  show ?case by (simp add: anti_exfil_new_def)
next
  case (snoc req reqs)
  obtain n a where req: "req = (n, a)" by force
  let ?d = "snd (guard_run (anti_exfil_new m) reqs)"
  have le: "\<forall>t\<in>set (map fst reqs). t \<le> n" "sorted (map fst reqs)" "n \<le> now"
    using snoc.prems req by (auto simp: sorted_append)
  have IH: "filter (\<lambda>(_, t). within_minute n t) (recent_lends ?d) =
            filter (\<lambda>(_, t). within_minute n t) (fst (guard_run (anti_exfil_new m) reqs))"
    by (rule snoc.IH [OF le(2,1)])
  have sub: "within_minute now t \<Longrightarrow> t \<le> n \<Longrightarrow> within_minute n t" for t
    using le(3) by (simp add: within_minute_iff)
  have *: "filter (\<lambda>(_, t). within_minute now t) (filter (\<lambda>(_, t). within_minute n t) xs) =
        filter (\<lambda>(_, t). within_minute now t) xs" if "\<forall>(b, t)\<in>set xs. t \<le> n" for xs :: "(string \<times> int) list"
    using that by (induction xs) (auto dest: sub)
  have "\<forall>(b, t)\<in>set (fst (guard_run (anti_exfil_new m) reqs)). t \<le> n"
    using guard_run_times le(1) by fastforce
  from * [OF this] show ?case
    unfolding req guard_run_snoc_fst guard_run_snoc_snd check_and_record_recent IH by simp
qed

text \<open>A request is granted exactly when fewer than the limit were granted in the 60 seconds before it.\<close>

lemma guard_count:
  assumes "sorted (map fst reqs)" "\<forall>t\<in>set (map fst reqs). t \<le> now"
  shows "length (filter (\<lambda>(b, t). b = a \<and> within_minute now t)
           (recent_lends (snd (guard_run (anti_exfil_new m) reqs)))) =
         lends_between (fst (guard_run (anti_exfil_new m) reqs)) a (now - 60 * nanos + 1) (now + 1)"
    (is "length (filter ?P ?r) = _")
proof -
  have split: "filter ?P xs = filter (\<lambda>(b, t). b = a) (filter (\<lambda>(_, t). within_minute now t) xs)"
    for xs :: "(string \<times> int) list"
    by (simp add: case_prod_unfold conj_commute)
  have "filter ?P ?r = filter ?P (fst (guard_run (anti_exfil_new m) reqs))"
    unfolding split guard_recent [OF assms] ..
  also have "\<dots> = filter (\<lambda>(b, t). b = a \<and> now - 60 * nanos + 1 \<le> t \<and> t < now + 1)
                 (fst (guard_run (anti_exfil_new m) reqs))"
    using assms(2) guard_run_times by (intro filter_cong refl) (fastforce simp: within_minute_iff)
  finally show ?thesis by (simp add: lends_between_def)
qed

lemma guard_window_end:
  "lends_between xs a lo (lo + 60 * nanos) \<le> n \<Longrightarrow> lo = now - 60 * nanos + 1 \<Longrightarrow>
   lends_between xs a (now - 60 * nanos + 1) (now + 1) \<le> n"
  by (simp add: algebra_simps)

lemma lends_between_append:
  "lends_between (xs @ ys) a lo hi = lends_between xs a lo hi + lends_between ys a lo hi"
  by (simp add: lends_between_def)

lemma lends_between_mono:
  "lo \<le> lo' \<Longrightarrow> hi' \<le> hi \<Longrightarrow> lends_between xs a lo' hi' \<le> lends_between xs a lo hi"
  unfolding lends_between_def by (induction xs) auto

lemma guard_window:
  assumes "sorted (map fst reqs)"
  shows "lends_between (fst (guard_run (anti_exfil_new m) reqs)) a lo (lo + 60 * nanos) \<le> unat m"
  using assms
proof (induction reqs arbitrary: a lo rule: rev_induct)
  case Nil
  show ?case by (simp add: lends_between_def)
next
  case (snoc req reqs)
  obtain now b where req: "req = (now, b)" by force
  let ?acc = "fst (guard_run (anti_exfil_new m) reqs)"
  have s: "sorted (map fst reqs)" "\<forall>t\<in>set (map fst reqs). t \<le> now"
    using snoc.prems req by (auto simp: sorted_append)
  let ?n = "lends_between ?acc b (now - 60 * nanos + 1) (now + 1)"
  have small: "?n \<le> unat m"
    by (rule guard_window_end [OF snoc.IH [OF s(1)] refl])
  show ?case
  proof (cases "is_ok (fst (check_and_record now (snd (guard_run (anti_exfil_new m) reqs)) b)) \<and> a = b
                 \<and> lo \<le> now \<and> now < lo + 60 * nanos")
    case True
    have "(of_nat ?n :: 32 word) < m"
      using True unfolding check_and_record_ok_iff guard_count [OF s] by (simp add: anti_exfil_new_def)
    moreover have "unat (of_nat ?n :: 32 word) = ?n"
      using small by (rule unat_of_nat_le)
    ultimately have lt: "?n < unat m" by (simp add: word_less_nat_alt)
    have "lends_between ?acc b lo (lo + 60 * nanos) = lends_between ?acc b lo (now + 1)"
      unfolding lends_between_def using True s(2) guard_run_times
      by (intro arg_cong [where f = length] filter_cong refl) fastforce
    also have "\<dots> \<le> ?n" using True by (intro lends_between_mono) auto
    finally show ?thesis using True lt
      unfolding req guard_run_snoc_fst lends_between_append by (simp add: lends_between_def)
  next
    case False
    then have "lends_between (fst (guard_run (anti_exfil_new m) (reqs @ [req]))) a lo (lo + 60 * nanos) =
               lends_between ?acc a lo (lo + 60 * nanos)"
      unfolding req guard_run_snoc_fst lends_between_append by (auto simp: lends_between_def)
    then show ?thesis using snoc.IH [OF s(1)] by simp
  qed
qed

text \<open>With a clock that does not go back, a request is granted exactly when the agent got fewer than
  the limit in the 60 seconds before it, and so no window of 60 seconds, wherever it starts, holds more
  granted requests of one agent than the limit.\<close>

theorem lends_per_minute_bound:
  assumes "sorted (map fst reqs)"
  shows "lends_between (fst (guard_run (anti_exfil_new m) reqs)) a lo (lo + 60 * nanos) \<le> unat m
    \<and> ((\<forall>t\<in>set (map fst reqs). t \<le> now) \<longrightarrow>
         (is_ok (fst (check_and_record now (snd (guard_run (anti_exfil_new m) reqs)) a)) \<longleftrightarrow>
          lends_between (fst (guard_run (anti_exfil_new m) reqs)) a (now - 60 * nanos + 1) (now + 1) < unat m))"
proof (intro conjI impI)
  show "lends_between (fst (guard_run (anti_exfil_new m) reqs)) a lo (lo + 60 * nanos) \<le> unat m"
    by (rule guard_window [OF assms])
  assume late: "\<forall>t\<in>set (map fst reqs). t \<le> now"
  let ?n = "lends_between (fst (guard_run (anti_exfil_new m) reqs)) a (now - 60 * nanos + 1) (now + 1)"
  have "?n \<le> unat m" using guard_window [OF assms, of m a "now - 60 * nanos + 1"] by simp
  then have "unat (of_nat ?n :: 32 word) = ?n"
    by (rule unat_of_nat_le)
  then show "is_ok (fst (check_and_record now (snd (guard_run (anti_exfil_new m) reqs)) a)) \<longleftrightarrow> ?n < unat m"
    unfolding check_and_record_ok_iff guard_count [OF assms late]
    by (simp add: anti_exfil_new_def word_less_nat_alt)
qed

lemma lends_per_minute_bound_witness:
  "lends_between (fst (guard_run (anti_exfil_new 1) [(0, ''a''), (5, ''a''), (60000000000, ''a'')])) ''a'' 0 (60 * nanos) \<le> 1
   \<and> fst (guard_run (anti_exfil_new 1) [(0, ''a''), (5, ''a''), (60000000000, ''a'')]) = [(''a'', 0), (''a'', 60000000000)]"
proof -
  have "lends_between (fst (guard_run (anti_exfil_new 1) [(0, ''a''), (5, ''a''), (60000000000, ''a'')])) ''a'' 0 (0 + 60 * nanos)
          \<le> unat (1 :: 32 word)"
    by (rule conjunct1 [OF lends_per_minute_bound]) simp
  moreover have "fst (guard_run (anti_exfil_new 1) [(0, ''a''), (5, ''a''), (60000000000, ''a'')])
     = [(''a'', 0), (''a'', 60000000000)]"
    by (simp add: check_and_record_def anti_exfil_new_def within_minute_def nanos_def Let_def)
  ultimately show ?thesis by simp
qed

section \<open>The engine and its table\<close>

definition active :: "lease_table \<Rightarrow> string \<Rightarrow> lease_row option" where
  "active tab token = (case hget tab token of None \<Rightarrow> None | Some r \<Rightarrow> if lr_revoked r then None else Some r)"

definition row_of_lease :: "time_text \<Rightarrow> secret_lease \<Rightarrow> lease_row" where
  "row_of_lease T l = \<lparr> lr_secret_name = sl_secret_name l, lr_agent_id = sl_agent_id l,
     lr_created_at = tt_write T (sl_created_at l), lr_expires_at = tt_write T (sl_expires_at l), lr_revoked = False \<rparr>"

lemma active_insert [simp]:
  "active (insert_lease T token n a c x tab) tok =
     (if tok = token then Some \<lparr> lr_secret_name = n, lr_agent_id = a, lr_created_at = tt_write T c, lr_expires_at = tt_write T x,
                                lr_revoked = False \<rparr> else active tab tok)"
  by (simp add: active_def insert_lease_def)

lemma active_mark [simp]: "active (mark_lease_revoked token tab) tok = (if tok = token then None else active tab tok)"
  by (auto simp: active_def mark_lease_revoked_def update_row_def split: option.splits)

lemma active_update [simp]:
  "active (update_lease_expiry T token x tab) tok =
     (if tok = token then map_option (\<lambda>r. r\<lparr> lr_expires_at := tt_write T x \<rparr>) (active tab tok) else active tab tok)"
  by (auto simp: active_def update_lease_expiry_def update_row_def split: option.splits)

lemma hmap_ok_table [simp]:
  "hmap_ok tab \<Longrightarrow> hmap_ok (insert_lease T token n a c x tab)"
  "hmap_ok tab \<Longrightarrow> hmap_ok (mark_lease_revoked token tab)"
  "hmap_ok tab \<Longrightarrow> hmap_ok (update_lease_expiry T token x tab)"
  by (simp_all add: insert_lease_def mark_lease_revoked_def update_lease_expiry_def update_row_def split: option.split)

lemma load_rows_keys: "load_rows T rows = Some xs \<Longrightarrow> hkeys xs = hkeys rows"
  by (induction T rows arbitrary: xs rule: load_rows.induct) (auto split: option.splits)

lemma load_rows_hget: "load_rows T rows = Some xs \<Longrightarrow> hget xs tok = Option.bind (hget rows tok) (load_row T)"
  by (induction T rows arbitrary: xs rule: load_rows.induct) (auto split: option.splits)

lemma load_rows_None_iff: "load_rows T rows = None \<longleftrightarrow> (\<exists>(tok, r)\<in>set rows. load_row T r = None)"
  by (induction T rows rule: load_rows.induct) (auto split: option.split)

lemma hget_active_leases:
  assumes "hmap_ok tab" and "active_leases T tab = Some rows"
  shows "hget rows tok = Option.bind (active tab tok) (load_row T)"
  using load_rows_hget [of T _ rows tok] assms
  by (simp add: active_leases_def active_def hget_filter split: option.split)

lemma hmap_ok_active_leases: "hmap_ok tab \<Longrightarrow> active_leases T tab = Some rows \<Longrightarrow> hmap_ok rows"
  using load_rows_keys [of T _ rows] hmap_ok_filter [of tab "\<lambda>(_, r). \<not> lr_revoked r"]
  by (simp add: active_leases_def hmap_ok_def del: hmap_ok_filter)

lemma active_leases_None_iff:
  "hmap_ok tab \<Longrightarrow> active_leases T tab = None \<longleftrightarrow> (\<exists>tok r. active tab tok = Some r \<and> load_row T r = None)"
proof -
  assume ok: "hmap_ok tab"
  have "(tok, r) \<in> set tab \<and> \<not> lr_revoked r \<longleftrightarrow> active tab tok = Some r" for tok r
    using hget_eq_Some_iff [OF ok, of tok r] by (auto simp: active_def split: option.split)
  then show ?thesis by (auto simp: active_leases_def load_rows_None_iff)
qed

lemma active_foldl_mark:
  "active (foldl (\<lambda>t x. mark_lease_revoked (f x) t) tab xs) tok = (if tok \<in> f ` set xs then None else active tab tok)"
  by (induction xs arbitrary: tab) auto

lemma hmap_ok_foldl_mark: "hmap_ok tab \<Longrightarrow> hmap_ok (foldl (\<lambda>t x. mark_lease_revoked (f x) t) tab xs)"
  by (induction xs arbitrary: tab) auto

lemma active_foldl_update:
  "active (foldl (\<lambda>t tok. update_lease_expiry T tok x t) tab toks) tok =
     (if tok \<in> set toks then map_option (\<lambda>r. r\<lparr> lr_expires_at := tt_write T x \<rparr>) (active tab tok) else active tab tok)"
  by (induction toks arbitrary: tab) (auto simp: option.map_comp comp_def)

lemma hmap_ok_foldl_update: "hmap_ok tab \<Longrightarrow> hmap_ok (foldl (\<lambda>t tok. update_lease_expiry T tok x t) tab toks)"
  by (induction toks arbitrary: tab) auto

lemma persist_table_simps [simp]:
  "le_leases (persist_table env f e) = le_leases e"
  "le_restored (persist_table env f e) = le_restored e"
  "le_anti_exfil (persist_table env f e) = le_anti_exfil e"
  "le_leak (persist_table env f e) = le_leak e"
  "le_table (persist_table env f e) = (if env_db env then f (le_table e) else le_table e)"
  by (simp_all add: persist_table_def)

text \<open>A loop that marks or updates rows and notes each step changes the table alone.\<close>

lemma foldl_persist:
  assumes "\<And>x e. le_leases (g x e) = le_leases e \<and> le_restored (g x e) = le_restored e \<and> le_table (g x e) = le_table e
             \<and> le_anti_exfil (g x e) = le_anti_exfil e \<and> le_leak (g x e) = le_leak e"
  shows "le_leases (foldl (\<lambda>e x. persist_table env (f x) (g x e)) e xs) = le_leases e"
    and "le_restored (foldl (\<lambda>e x. persist_table env (f x) (g x e)) e xs) = le_restored e"
    and "le_table (foldl (\<lambda>e x. persist_table env (f x) (g x e)) e xs) =
           (if env_db env then foldl (\<lambda>t x. f x t) (le_table e) xs else le_table e)"
    and "le_leak (foldl (\<lambda>e x. persist_table env (f x) (g x e)) e xs) = le_leak e"
  by (induction xs arbitrary: e) (simp_all add: assms)

lemma hget_foldl_hput:
  "hmap_ok rows \<Longrightarrow> hget (foldl (\<lambda>m (tok, r). hput tok (F tok r) m) m rows) tok =
     (case hget rows tok of Some r \<Rightarrow> Some (F tok r) | None \<Rightarrow> hget m tok)"
proof (induction rows arbitrary: m)
  case (Cons p rows)
  obtain k r where p: "p = (k, r)" by force
  have ok: "hmap_ok rows" using Cons.prems p by (auto simp: hmap_ok_Cons)
  have no: "hget rows k = None" using Cons.prems p by (simp add: hmap_ok_Cons map_of_eq_None_iff)
  show ?case using Cons.IH [OF ok, of "hput k (F k r) m"] p no by (cases "tok = k") (auto split: option.split)
qed simp

lemma hmap_ok_foldl_hput:
  "hmap_ok m \<Longrightarrow> hmap_ok (foldl (\<lambda>m (tok, r). hput tok (F tok r) m) m rows)"
  by (induction rows arbitrary: m) (auto simp: case_prod_unfold)

definition leases_ok :: "lease_engine \<Rightarrow> bool" where
  "leases_ok e = (hmap_ok (le_leases e) \<and> hmap_ok (le_table e) \<and> (\<forall>(tok, l)\<in>set (le_leases e). sl_token l = tok)
     \<and> (le_restored e \<or> le_leases e = []))"

lemma leases_ok_token: "leases_ok e \<Longrightarrow> hget (le_leases e) tok = Some l \<Longrightarrow> sl_token l = tok"
  by (auto simp: leases_ok_def dest: hget_in_set)

text \<open>What there is to restore: nothing when the database does not answer or a row cannot be read.\<close>

definition restored_rows :: "lease_env \<Rightarrow> lease_table \<Rightarrow> (string \<times> loaded_row) list" where
  "restored_rows env tab =
     (case (if env_db env then active_leases (env_text env) tab else None) of None \<Rightarrow> [] | Some rows \<Rightarrow> rows)"

lemma restore_leases_table:
  "le_table (restore_leases env e) =
     foldl (\<lambda>t (tok, _). mark_lease_revoked tok t) (le_table e)
       (filter (\<lambda>(_, r). \<not> ld_expires_at r > env_now env) (restored_rows env (le_table e)))"
  unfolding restore_leases_def restored_rows_def
  by (auto simp: Let_def case_prod_unfold foldl_persist(3) [where f = "\<lambda>x. mark_lease_revoked (fst x)" and
        g = "\<lambda>x e. e\<lparr> le_audit := le_audit e @ [LogRevoke (ld_agent_id (snd x)) (fst x) ''restored-expired''] \<rparr>"]
      split: option.split)

lemma restore_leases_leases:
  "le_leases (restore_leases env e) =
     foldl (\<lambda>m (tok, r). hput tok (lease_of_row tok r) m) (le_leases e)
       (filter (\<lambda>(_, r). ld_expires_at r > env_now env) (restored_rows env (le_table e)))"
  unfolding restore_leases_def restored_rows_def
  by (auto simp: Let_def case_prod_unfold foldl_persist(1) [where f = "\<lambda>x. mark_lease_revoked (fst x)" and
        g = "\<lambda>x e. e\<lparr> le_audit := le_audit e @ [LogRevoke (ld_agent_id (snd x)) (fst x) ''restored-expired''] \<rparr>"]
      split: option.split)

lemma restored_rows_ok: "hmap_ok tab \<Longrightarrow> hmap_ok (restored_rows env tab)"
  by (auto simp: restored_rows_def hmap_ok_active_leases split: option.split)

lemma hget_restored_rows:
  "hmap_ok tab \<Longrightarrow> hget (restored_rows env tab) tok =
     (if env_db env \<and> active_leases (env_text env) tab \<noteq> None then Option.bind (active tab tok) (load_row (env_text env)) else None)"
  by (auto simp: restored_rows_def hget_active_leases split: option.split)

lemma restore_leases_active:
  assumes "hmap_ok (le_table e)"
  shows "active (le_table (restore_leases env e)) tok =
     (case hget (restored_rows env (le_table e)) tok of None \<Rightarrow> active (le_table e) tok
      | Some r \<Rightarrow> if ld_expires_at r \<le> env_now env then None else active (le_table e) tok)"
proof -
  let ?lapsed = "filter (\<lambda>(_, r). \<not> ld_expires_at r > env_now env) (restored_rows env (le_table e))"
  have "tok \<in> fst ` set ?lapsed \<longleftrightarrow> (\<exists>r. hget (restored_rows env (le_table e)) tok = Some r \<and> ld_expires_at r \<le> env_now env)"
    using restored_rows_ok [OF assms, of env] by (force simp: hget_eq_Some_iff)
  then show ?thesis
    unfolding restore_leases_table
    using active_foldl_mark [of fst "le_table e" ?lapsed tok]
    by (auto simp: case_prod_unfold split: option.split)
qed

lemma restore_leases_hget:
  assumes "hmap_ok (le_table e)" "le_leases e = []"
  shows "hget (le_leases (restore_leases env e)) tok =
     (case hget (restored_rows env (le_table e)) tok of None \<Rightarrow> None
      | Some r \<Rightarrow> if ld_expires_at r > env_now env then Some (lease_of_row tok r) else None)"
  unfolding restore_leases_leases using assms restored_rows_ok [OF assms(1), of env]
  by (auto simp: hget_foldl_hput hget_filter split: option.split)

lemma restore_leases_ok:
  assumes "leases_ok e" "le_leases e = []"
  shows "hmap_ok (le_leases (restore_leases env e)) \<and> hmap_ok (le_table (restore_leases env e)) \<and>
         (\<forall>(tok, l)\<in>set (le_leases (restore_leases env e)). sl_token l = tok)"
proof -
  have tab: "hmap_ok (le_table e)" using assms by (simp add: leases_ok_def)
  have ok: "hmap_ok (le_leases (restore_leases env e))"
    unfolding restore_leases_leases using assms by (auto intro: hmap_ok_foldl_hput)
  have "hmap_ok (le_table (restore_leases env e))"
    unfolding restore_leases_table using tab by (auto simp: case_prod_unfold intro!: hmap_ok_foldl_mark)
  moreover have "\<forall>(tok, l)\<in>set (le_leases (restore_leases env e)). sl_token l = tok"
    using restore_leases_hget [OF tab assms(2)] ok
    by (fastforce simp: hget_eq_Some_iff [symmetric] lease_of_row_def split: option.splits if_splits)
  ultimately show ?thesis using ok by simp
qed

lemma leases_ok_restored:
  assumes "leases_ok e"
  shows "leases_ok (ensure_restored env e)" "le_restored (ensure_restored env e)"
  using assms restore_leases_ok [OF assms] by (auto simp: leases_ok_def ensure_restored_def)

text \<open>The operations as the steps of a machine; a restart keeps the table alone.\<close>

datatype lease_op =
    OpLend string "string option" string "64 word"
  | OpLendVault "(string, string) result" string string "64 word" bool
  | OpRevoke string string
  | OpRevokeAgent string string
  | OpRevokeId string string
  | OpRenew string "64 word"
  | OpRenewAgent string "64 word"
  | OpBackoff string "64 word"
  | OpGet string
  | OpList
  | OpCleanup
  | OpRestart "anti_exfil option"

fun lease_step :: "lease_env \<times> lease_op \<Rightarrow> lease_engine \<Rightarrow> lease_engine" where
  "lease_step (env, OpLend name val agent_id ttl) e = snd (lend env e name val agent_id ttl)"
| "lease_step (env, OpLendVault answer name agent_id ttl redact) e =
     snd (lend_from_vault (\<lambda>_. answer) env e name agent_id ttl redact)"
| "lease_step (env, OpRevoke tok reason) e = snd (revoke env e tok reason)"
| "lease_step (env, OpRevokeAgent agent_id reason) e = snd (revoke_for_agent env e agent_id reason)"
| "lease_step (env, OpRevokeId lease_id reason) e = snd (revoke_by_lease_id env e lease_id reason)"
| "lease_step (env, OpRenew tok ttl) e = snd (renew env e tok ttl)"
| "lease_step (env, OpRenewAgent agent_id ttl) e = snd (renew_for_agent env e agent_id ttl)"
| "lease_step (env, OpBackoff tok secs) e = snd (backoff env e tok secs)"
| "lease_step (env, OpGet tok) e = snd (get_lease env e tok)"
| "lease_step (env, OpList) e = snd (list_leases env e)"
| "lease_step (env, OpCleanup) e = snd (cleanup_expired env e)"
| "lease_step (env, OpRestart exfil) e = lease_engine_new exfil (le_table e)"

definition lease_run :: "(lease_env \<times> lease_op) list \<Rightarrow> lease_engine \<Rightarrow> lease_engine" where
  "lease_run steps e = foldl (\<lambda>e s. lease_step s e) e steps"

text \<open>What an operation does to the leases and the table once they are restored: at most one of five
  changes.\<close>

inductive lease_change :: "lease_env \<Rightarrow> lease_engine \<Rightarrow> lease_engine \<Rightarrow> bool" for env where
  same: "le_leases e' = le_leases e \<Longrightarrow> le_table e' = le_table e \<Longrightarrow> lease_change env e e'"
| lent: "l = \<lparr> sl_token = env_token env, sl_secret_name = n, sl_secret_value = v, sl_agent_id = a,
              sl_expires_at = x, sl_created_at = env_now env \<rparr> \<Longrightarrow>
     le_leases e' = hput (env_token env) l (le_leases e) \<Longrightarrow>
     le_table e' = (if env_db env then insert_lease (env_text env) (env_token env) n a (env_now env) x (le_table e) else le_table e) \<Longrightarrow>
     lease_change env e e'"
| removed: "le_leases e' = hdel tok (le_leases e) \<Longrightarrow>
     le_table e' = (if env_db env then mark_lease_revoked tok (le_table e) else le_table e) \<Longrightarrow>
     lease_change env e e'"
| dropped: "le_leases e' = filter (\<lambda>(_, l). \<not> P l) (le_leases e) \<Longrightarrow>
     le_table e' = (if env_db env then foldl (\<lambda>t l. mark_lease_revoked (sl_token l) t) (le_table e)
                                         (map snd (filter (\<lambda>(_, l). P l) (le_leases e))) else le_table e) \<Longrightarrow>
     lease_change env e e'"
| renewed: "le_leases e' = map (\<lambda>(tok, l). (tok, if P l then l\<lparr> sl_expires_at := x \<rparr> else l)) (le_leases e) \<Longrightarrow>
     le_table e' = (if env_db env then foldl (\<lambda>t tok. update_lease_expiry (env_text env) tok x t) (le_table e)
                                         (map (\<lambda>(_, l). sl_token l) (filter (\<lambda>(_, l). P l) (le_leases e))) else le_table e) \<Longrightarrow>
     lease_change env e e'"
| extended: "hget (le_leases e) tok = Some l \<Longrightarrow>
     le_leases e' = hput tok (l\<lparr> sl_expires_at := x \<rparr>) (le_leases e) \<Longrightarrow>
     le_table e' = (if env_db env then update_lease_expiry (env_text env) tok x (le_table e) else le_table e) \<Longrightarrow>
     lease_change env e e'"

lemma drop_leases_change:
  assumes "\<And>l e. le_leases (g l e) = le_leases e \<and> le_restored (g l e) = le_restored e \<and> le_table (g l e) = le_table e
             \<and> le_anti_exfil (g l e) = le_anti_exfil e \<and> le_leak (g l e) = le_leak e"
  shows "lease_change env e (snd (drop_leases env P g e))"
    and "le_restored (snd (drop_leases env P g e)) = le_restored e"
proof -
  note fp = foldl_persist [of g, where f = "\<lambda>l. mark_lease_revoked (sl_token l)", OF assms]
  show "lease_change env e (snd (drop_leases env P g e))"
    by (rule lease_change.dropped [where P = P]) (simp_all add: drop_leases_def Let_def fp)
  show "le_restored (snd (drop_leases env P g e)) = le_restored e"
    by (simp add: drop_leases_def Let_def fp)
qed

definition steps_to :: "lease_env \<Rightarrow> lease_engine \<Rightarrow> lease_engine \<Rightarrow> bool" where
  "steps_to env e e' = (lease_change env (ensure_restored env e) e' \<and> le_restored e')"

lemma steps_to_ensure: "steps_to env e (ensure_restored env e)"
  by (auto simp: steps_to_def ensure_restored_def intro: lease_change.same)

lemma ensure_twice [simp]: "ensure_restored env' (ensure_restored env e) = ensure_restored env e"
  by (simp add: ensure_restored_def)

lemma restored_ensure [simp]: "le_restored (ensure_restored env e)"
  by (simp add: ensure_restored_def)

lemma revoke_steps: "steps_to env e (snd (revoke env e tok reason))"
  unfolding revoke_def Let_def
  by (auto simp: steps_to_def intro: lease_change.same lease_change.removed split: option.split)

lemma revoke_by_lease_id_steps: "steps_to env e (snd (revoke_by_lease_id env e lease_id reason))"
  unfolding revoke_by_lease_id_def token_for_lease_id_def Let_def
  using revoke_steps [of env "ensure_restored env e"] steps_to_ensure
  by (auto simp: steps_to_def split: option.split)

lemma revoke_for_agent_steps: "steps_to env e (snd (revoke_for_agent env e a reason))"
  unfolding revoke_for_agent_def steps_to_def by (subst drop_leases_change(2)) (auto intro!: drop_leases_change(1))

lemma cleanup_expired_steps: "steps_to env e (snd (cleanup_expired env e))"
  unfolding cleanup_expired_def steps_to_def by (subst drop_leases_change(2)) (auto intro!: drop_leases_change(1))

lemma renew_steps: "steps_to env e (snd (renew env e tok ttl))"
  unfolding renew_def Let_def
  by (auto simp: steps_to_def intro: lease_change.same lease_change.extended split: option.split)

lemma backoff_steps: "steps_to env e (snd (backoff env e tok ttl))"
  unfolding backoff_def Let_def
  by (auto simp: steps_to_def intro: lease_change.same lease_change.extended split: option.split)

lemma renew_for_agent_steps: "steps_to env e (snd (renew_for_agent env e a ttl))"
proof (cases "env_plus_secs env (env_now env) ttl")
  case None
  then show ?thesis using steps_to_ensure by (simp add: renew_for_agent_def Let_def)
next
  case (Some x)
  note fp = foldl_persist [where g = "\<lambda>x e. e" and f = "\<lambda>tok. update_lease_expiry (env_text env) tok x", simplified]
  show ?thesis unfolding renew_for_agent_def Let_def Some steps_to_def
    by (auto simp: fp intro!: lease_change.renewed [where P = "\<lambda>l. sl_agent_id l = a"])
qed

lemma lend_unchecked_steps: "steps_to env e (snd (lend_unchecked env e name val a ttl))"
proof (cases "env_plus_secs env (env_now env) ttl")
  case None
  then show ?thesis using steps_to_ensure by (simp add: lend_unchecked_def Let_def)
next
  case (Some x)
  show ?thesis unfolding lend_unchecked_def Let_def Some steps_to_def
    by (auto intro!: lease_change.lent [OF refl])
qed

definition same_leases :: "lease_engine \<Rightarrow> lease_engine \<Rightarrow> bool" where
  "same_leases e e' = (le_leases e' = le_leases e \<and> le_table e' = le_table e \<and> le_restored e' = le_restored e)"

lemma check_anti_exfil_same: "same_leases e (snd (check_anti_exfil env e a name))"
  by (auto simp: check_anti_exfil_def same_leases_def split: option.split prod.split sum.split)

lemma ensure_restored_same: "same_leases e e' \<Longrightarrow> same_leases (ensure_restored env e) (ensure_restored env e')"
  by (simp add: same_leases_def ensure_restored_def restore_leases_leases restore_leases_table)

lemma lease_change_same:
  assumes "lease_change env e e'" "same_leases e1 e"
  shows "lease_change env e1 e'"
proof -
  have eq: "le_leases e = le_leases e1" "le_table e = le_table e1" using assms(2) by (simp_all add: same_leases_def)
  show ?thesis using assms(1)
  proof cases
    case same
    then show ?thesis unfolding eq by (rule lease_change.same)
  next
    case (lent l n v a x)
    then show ?thesis unfolding eq by (rule lease_change.lent)
  next
    case (removed tok)
    then show ?thesis unfolding eq by (rule lease_change.removed)
  next
    case (dropped P)
    then show ?thesis unfolding eq by (rule lease_change.dropped)
  next
    case (renewed P x)
    then show ?thesis unfolding eq by (rule lease_change.renewed)
  next
    case (extended tok l x)
    then show ?thesis unfolding eq by (rule lease_change.extended)
  qed
qed

lemma steps_to_same: "steps_to env e' e'' \<Longrightarrow> same_leases e e' \<Longrightarrow> steps_to env e e''"
  unfolding steps_to_def using lease_change_same ensure_restored_same by blast

lemma lend_steps:
  "same_leases e (snd (lend env e name val a ttl)) \<or> steps_to env e (snd (lend env e name val a ttl))"
proof -
  obtain r e' where c: "check_anti_exfil env e a name = (r, e')" by force
  then have s: "same_leases e e'" using check_anti_exfil_same [of e env a name] by simp
  show ?thesis using c s steps_to_same [OF lend_unchecked_steps s]
    by (cases r) (simp_all add: lend_def)
qed

lemma lend_from_vault_steps:
  "same_leases e (snd (lend_from_vault v env e name a ttl redact))
   \<or> steps_to env e (snd (lend_from_vault v env e name a ttl redact))"
proof -
  obtain r e' where c: "check_anti_exfil env e a name = (r, e')" by force
  then have s: "same_leases e e'" using check_anti_exfil_same [of e env a name] by simp
  have *: "steps_to env e (snd (lend_unchecked env e' name val a ttl))" for val
    by (rule steps_to_same [OF lend_unchecked_steps s])
  show ?thesis
  proof (cases r)
    case (Inl err)
    then show ?thesis using c s by (simp add: lend_from_vault_def)
  next
    case (Inr u)
    show ?thesis using c s * [of "Some (projr (v name))"] Inr
      by (auto simp: lend_from_vault_def split: sum.split prod.split)
  qed
qed

lemma lease_step_cases:
  assumes "\<forall>exfil. op \<noteq> OpRestart exfil"
  shows "same_leases e (lease_step (env, op) e) \<or> steps_to env e (lease_step (env, op) e)"
  using assms
  by (cases op)
     (auto simp: get_lease_def list_leases_def Let_def lend_steps lend_from_vault_steps revoke_steps
        revoke_by_lease_id_steps revoke_for_agent_steps cleanup_expired_steps renew_steps backoff_steps
        renew_for_agent_steps steps_to_ensure)

text \<open>The two invariants: leases and table are maps whose leases carry their own token, and, as long as the
  database answers, the rows not revoked are exactly the leases.\<close>

lemma lease_change_ok:
  assumes "lease_change env e e'" "leases_ok e" "le_restored e'"
  shows "leases_ok e'"
  using assms(1)
proof cases
  case (lent l n v a x)
  then show ?thesis using assms(2,3) set_hput_subset [of "env_token env" l "le_leases e"]
    by (fastforce simp: leases_ok_def)
next
  case (removed tok)
  then show ?thesis using assms(2,3) by (auto simp: leases_ok_def set_hdel)
next
  case (dropped P)
  then show ?thesis using assms(2,3) by (auto simp: leases_ok_def intro!: hmap_ok_foldl_mark)
next
  case (renewed P x)
  have "hmap_ok (le_leases e')"
    using renewed(1) assms(2) hmap_ok_map_values [of "\<lambda>_ l. if P l then l\<lparr> sl_expires_at := x \<rparr> else l" "le_leases e"]
    by (simp add: leases_ok_def)
  then show ?thesis using renewed assms(2,3) by (auto simp: leases_ok_def intro!: hmap_ok_foldl_update)
next
  case (extended tok l x)
  have "sl_token l = tok" using extended(1) assms(2) by (rule leases_ok_token [rotated])
  then show ?thesis using extended assms(2,3) set_hput_subset [of tok "l\<lparr> sl_expires_at := x \<rparr>" "le_leases e"]
    by (fastforce simp: leases_ok_def)
qed (use assms in \<open>auto simp: leases_ok_def\<close>)

lemma leases_ok_step: "leases_ok e \<Longrightarrow> leases_ok (lease_step s e)"
proof -
  assume ok: "leases_ok e"
  obtain env op where s: "s = (env, op)" by force
  show ?thesis
  proof (cases "\<exists>exfil. op = OpRestart exfil")
    case True
    then show ?thesis using ok s by (auto simp: leases_ok_def lease_engine_new_def)
  next
    case False
    then consider "same_leases e (lease_step s e)" | "steps_to env e (lease_step s e)"
      using lease_step_cases s by blast
    then show ?thesis
    proof cases
      case 1
      then show ?thesis using ok by (simp add: same_leases_def leases_ok_def)
    next
      case 2
      then show ?thesis using lease_change_ok [OF _ leases_ok_restored(1) [OF ok]] by (auto simp: steps_to_def)
    qed
  qed
qed

lemma leases_ok_run: "leases_ok e \<Longrightarrow> leases_ok (lease_run steps e)"
  unfolding lease_run_def by (rule foldl_invariant) (simp_all add: leases_ok_step)

lemma leases_ok_new [simp]: "hmap_ok tab \<Longrightarrow> leases_ok (lease_engine_new exfil tab)"
  by (simp add: leases_ok_def lease_engine_new_def)

text \<open>The times of the leases, and those whose text the rows hold, are read back as they were.\<close>

definition leases_exact :: "time_text \<Rightarrow> lease_engine \<Rightarrow> bool" where
  "leases_exact T e = list_all (\<lambda>(_, l). exact T (sl_created_at l) \<and> exact T (sl_expires_at l)) (le_leases e)"

definition rows_exact :: "time_text \<Rightarrow> lease_table \<Rightarrow> bool" where
  "rows_exact T tab = (\<forall>tok r. active tab tok = Some r \<longrightarrow>
     (\<exists>c x. exact T c \<and> exact T x \<and> lr_created_at r = tt_write T c \<and> lr_expires_at r = tt_write T x))"

definition synced :: "time_text \<Rightarrow> lease_engine \<Rightarrow> bool" where
  "synced T e = (leases_ok e \<and> leases_exact T e \<and> rows_exact T (le_table e) \<and>
     (le_restored e \<longrightarrow> (\<forall>tok. active (le_table e) tok = map_option (row_of_lease T) (hget (le_leases e) tok))))"

lemma leases_exactD:
  "leases_exact T e \<Longrightarrow> hget (le_leases e) tok = Some l \<Longrightarrow> exact T (sl_created_at l) \<and> exact T (sl_expires_at l)"
  by (auto simp: leases_exact_def list_all_iff dest: hget_in_set)

lemma load_row_exact:
  assumes "rows_exact T tab" and "active tab tok = Some r"
  obtains ld where "load_row T r = Some ld" "row_of_lease T (lease_of_row tok ld) = r"
    "exact T (ld_created_at ld)" "exact T (ld_expires_at ld)"
proof -
  from assms obtain c x where t: "exact T c" "exact T x" "lr_created_at r = tt_write T c" "lr_expires_at r = tt_write T x"
    unfolding rows_exact_def by blast
  moreover have "\<not> lr_revoked r" using assms(2) by (auto simp: active_def split: option.splits if_splits)
  ultimately show ?thesis using that by (simp add: load_row_def exact_def row_of_lease_def lease_of_row_def)
qed

lemma load_row_of_lease:
  "exact T (sl_created_at l) \<Longrightarrow> exact T (sl_expires_at l) \<Longrightarrow> load_row T (row_of_lease T l)
     = Some \<lparr> ld_secret_name = sl_secret_name l, ld_agent_id = sl_agent_id l, ld_created_at = sl_created_at l,
              ld_expires_at = sl_expires_at l \<rparr>"
  by (simp add: load_row_def row_of_lease_def exact_def)

lemma rows_exact_readable:
  assumes "hmap_ok tab" and "rows_exact T tab"
  shows "active_leases T tab \<noteq> None"
proof
  assume "active_leases T tab = None"
  then obtain tok r where "active tab tok = Some r" "load_row T r = None" using active_leases_None_iff [OF assms(1)] by blast
  with load_row_exact [OF assms(2)] show False by (metis option.distinct(1))
qed

lemma synced_ensure:
  assumes "synced T e" "env_db env" "env_text env = T"
  shows "synced T (ensure_restored env e)"
proof (cases "le_restored e")
  case True
  then show ?thesis using assms by (simp add: ensure_restored_def)
next
  case False
  then have nil: "le_leases e = []" "hmap_ok (le_table e)" and ex: "rows_exact T (le_table e)"
    using assms(1) by (auto simp: synced_def leases_ok_def)
  note rows = hget_restored_rows [OF nil(2), of env] rows_exact_readable [OF nil(2) ex]
  have hg: "hget (restored_rows env (le_table e)) tok = Option.bind (active (le_table e) tok) (load_row T)" for tok
    using rows assms(2,3) by simp
  have sync: "active (le_table (restore_leases env e)) tok =
        map_option (row_of_lease T) (hget (le_leases (restore_leases env e)) tok)" for tok
  proof (cases "active (le_table e) tok")
    case None
    then show ?thesis by (simp add: restore_leases_active [OF nil(2)] restore_leases_hget [OF nil(2,1)] hg)
  next
    case (Some r)
    show ?thesis by (rule load_row_exact [OF ex Some])
      (simp add: Some restore_leases_active [OF nil(2)] restore_leases_hget [OF nil(2,1)] hg)
  qed
  have ok: "leases_ok (ensure_restored env e)"
    using assms(1) by (intro leases_ok_restored(1)) (simp add: synced_def)
  have en: "ensure_restored env e = restore_leases env e\<lparr> le_restored := True \<rparr>"
    using False by (simp add: ensure_restored_def)
  have "exact T (sl_created_at l) \<and> exact T (sl_expires_at l)" if "(tok, l) \<in> set (le_leases (restore_leases env e))" for tok l
  proof -
    have "hget (le_leases (restore_leases env e)) tok = Some l"
      using ok that by (simp add: en leases_ok_def hget_eq_Some_iff)
    then obtain r where r: "hget (restored_rows env (le_table e)) tok = Some r" "l = lease_of_row tok r"
      by (auto simp: restore_leases_hget [OF nil(2,1)] split: option.splits if_splits)
    then obtain row where row: "active (le_table e) tok = Some row" "load_row T row = Some r"
      by (auto simp: hg bind_eq_Some_conv)
    show ?thesis by (rule load_row_exact [OF ex row(1)]) (use row(2) r(2) in \<open>simp add: lease_of_row_def\<close>)
  qed
  then have "leases_exact T (ensure_restored env e)" by (auto simp: en leases_exact_def list_all_iff)
  moreover have "rows_exact T (le_table (restore_leases env e))"
    using ex by (auto simp: rows_exact_def restore_leases_active [OF nil(2)] split: option.splits if_splits)
  ultimately show ?thesis using ok sync by (simp add: synced_def en)
qed

lemma hget_in_values: "hget m k = Some v \<Longrightarrow> P (k, v) \<Longrightarrow> v \<in> set (map snd (filter P m))"
  by (force dest: hget_in_set)

lemma tokens_of_leases:
  assumes "leases_ok e"
  shows "tok \<in> sl_token ` set (map snd (filter (\<lambda>(_, l). P l) (le_leases e))) \<longleftrightarrow>
         (\<exists>l. hget (le_leases e) tok = Some l \<and> P l)"
proof -
  have "hmap_ok (le_leases e)" and tok: "\<forall>(tok, l)\<in>set (le_leases e). sl_token l = tok"
    using assms by (auto simp: leases_ok_def)
  then have "hget (le_leases e) tok = Some l \<longleftrightarrow> (tok, l) \<in> set (le_leases e)" for l
    by (simp add: hget_eq_Some_iff)
  moreover have "(k, l) \<in> set (le_leases e) \<Longrightarrow> sl_token l = k" for k l using tok by blast
  ultimately show ?thesis by (auto simp: image_iff) metis
qed

lemma lease_change_synced:
  assumes "lease_change env e e'" "synced T e" "le_restored e" "le_restored e'" "env_db env" "env_text env = T"
    and new: "leases_exact T e'"
  shows "synced T e'"
proof -
  have ok: "leases_ok e" and sy: "\<And>tok. active (le_table e) tok = map_option (row_of_lease T) (hget (le_leases e) tok)"
    using assms(2,3) by (auto simp: synced_def)
  have m: "hmap_ok (le_leases e)" using ok by (simp add: leases_ok_def)
  have sync: "active (le_table e') tok = map_option (row_of_lease T) (hget (le_leases e') tok)" for tok
    using assms(1)
  proof cases
    case same
    then show ?thesis using sy by simp
  next
    case (lent l n v a x)
    then show ?thesis using sy assms(5,6) by (simp add: row_of_lease_def)
  next
    case (removed tok')
    then show ?thesis using sy assms(5) by simp
  next
    case (dropped P)
    then show ?thesis using sy assms(5) m tokens_of_leases [OF ok, of tok P]
      by (auto simp: active_foldl_mark hget_filter split: option.split)
  next
    case (renewed P x)
    have "hget (le_leases e') tok = map_option (\<lambda>l. if P l then l\<lparr> sl_expires_at := x \<rparr> else l) (hget (le_leases e) tok)"
      unfolding renewed(1) by (rule hget_map_values)
    moreover have "set (map (\<lambda>(_, l). sl_token l) (filter (\<lambda>(_, l). P l) (le_leases e))) =
                   sl_token ` set (map snd (filter (\<lambda>(_, l). P l) (le_leases e)))"
      by (force simp: case_prod_unfold)
    ultimately show ?thesis using renewed(2) sy assms(5,6) tokens_of_leases [OF ok, of tok P]
      by (cases "hget (le_leases e) tok") (auto simp: active_foldl_update row_of_lease_def)
  next
    case (extended tok' l x)
    then show ?thesis using sy [of tok'] sy [of tok] assms(5,6) by (simp add: row_of_lease_def)
  qed
  moreover have "rows_exact T (le_table e')"
    using leases_exactD [OF new] by (fastforce simp: rows_exact_def sync row_of_lease_def)
  ultimately show ?thesis using lease_change_ok [OF assms(1) ok assms(4)] new by (simp add: synced_def)
qed

lemma synced_step:
  assumes "synced T e" "env_db (fst s)" "env_text (fst s) = T" and new: "leases_exact T (lease_step s e)"
  shows "synced T (lease_step s e)"
proof -
  obtain env op where s: "s = (env, op)" by force
  show ?thesis
  proof (cases "\<exists>exfil. op = OpRestart exfil")
    case True
    then show ?thesis using assms s by (auto simp: synced_def leases_ok_def lease_engine_new_def leases_exact_def)
  next
    case False
    then consider "same_leases e (lease_step s e)" | "steps_to env e (lease_step s e)"
      using lease_step_cases s by blast
    then show ?thesis
    proof cases
      case 1
      then show ?thesis using assms by (simp add: same_leases_def synced_def leases_ok_def leases_exact_def)
    next
      case 2
      have db: "env_db env" "env_text env = T" using assms(2,3) s by simp_all
      have "lease_change env (ensure_restored env e) (lease_step s e)" "le_restored (lease_step s e)"
        using 2 by (simp_all add: steps_to_def)
      then show ?thesis using synced_ensure [OF assms(1) db] db new by (blast intro: lease_change_synced restored_ensure)
    qed
  qed
qed

text \<open>A run with the database answering, in which no lease is ever given a time that is not read back.\<close>

fun exact_run :: "time_text \<Rightarrow> (lease_env \<times> lease_op) list \<Rightarrow> lease_engine \<Rightarrow> bool" where
  "exact_run T [] e = leases_exact T e"
| "exact_run T ((env, op) # steps) e =
     (leases_exact T e \<and> env_db env \<and> env_text env = T \<and> exact_run T steps (lease_step (env, op) e))"

lemma exact_run_now: "exact_run T steps e \<Longrightarrow> leases_exact T e"
  by (cases steps) auto

lemma synced_run: "synced T e \<Longrightarrow> exact_run T steps e \<Longrightarrow> synced T (lease_run steps e)"
proof (induction T steps e rule: exact_run.induct)
  case (2 T env op steps e)
  then show ?case using synced_step [of T e "(env, op)"] exact_run_now by (simp add: lease_run_def)
qed (simp add: lease_run_def)

lemma synced_new [simp]: "hmap_ok tab \<Longrightarrow> rows_exact T tab \<Longrightarrow> synced T (lease_engine_new exfil tab)"
  by (simp add: synced_def leases_exact_def) (simp add: lease_engine_new_def)

lemma rows_exact_Nil [simp]: "rows_exact T []"
  by (simp add: rows_exact_def active_def)

lemma get_lease_after_restart:
  assumes "synced T e" "le_restored e" "env_db env" "env_text env = T"
  shows "fst (get_lease env (lease_engine_new exfil (le_table e)) tok) =
         (case hget (le_leases e) tok of None \<Rightarrow> None
          | Some l \<Rightarrow> if sl_expires_at l > env_now env then Some (l\<lparr> sl_secret_value := None \<rparr>) else None)"
proof -
  let ?new = "lease_engine_new exfil (le_table e)"
  have ok: "hmap_ok (le_table e)" and ex: "rows_exact T (le_table e)" using assms(1) by (simp_all add: synced_def leases_ok_def)
  have new: "le_table ?new = le_table e" "le_leases ?new = []" "\<not> le_restored ?new" by (simp_all add: lease_engine_new_def)
  have "hget (restored_rows env (le_table e)) tok = Option.bind (active (le_table e) tok) (load_row T)"
    using assms(3,4) by (simp add: hget_restored_rows [OF ok] rows_exact_readable [OF ok ex])
  also have "\<dots> = map_option (\<lambda>l. \<lparr> ld_secret_name = sl_secret_name l, ld_agent_id = sl_agent_id l,
      ld_created_at = sl_created_at l, ld_expires_at = sl_expires_at l \<rparr>) (hget (le_leases e) tok)"
    using assms(1,2) leases_exactD [of T e tok]
    by (cases "hget (le_leases e) tok") (auto simp: synced_def load_row_of_lease)
  finally have rows: "hget (restored_rows env (le_table e)) tok = \<dots>" .
  show ?thesis
    using assms(1) leases_ok_token [of e tok] restore_leases_hget [of ?new env tok] ok
    by (auto simp: get_lease_def ensure_restored_def new rows synced_def lease_of_row_def split: option.split)
qed

text \<open>C5: As long as the database answers and no lease is given a time whose text is not read back, an engine that is
  created again over the same table has exactly the leases that had not run out, with the same holder and
  times and without the secret.\<close>

theorem restart_restores_leases:
  assumes "exact_run T steps (lease_engine_new exfil [])" and "env_db env" and "env_text env = T"
    and "e = lease_run steps (lease_engine_new exfil [])"
  shows "fst (get_lease env (lease_engine_new exfil' (le_table e)) tok) =
         (case fst (get_lease env e tok) of None \<Rightarrow> None
          | Some l \<Rightarrow> if sl_expires_at l > env_now env then Some (l\<lparr> sl_secret_value := None \<rparr>) else None)"
proof -
  have sy: "synced T e" using assms(1,4) synced_run [of T "lease_engine_new exfil []" steps] by simp
  show ?thesis
  proof (cases "le_restored e")
    case True
    then show ?thesis using get_lease_after_restart [OF sy True assms(2,3)]
      by (simp add: get_lease_def ensure_restored_def)
  next
    case False
    let ?new = "lease_engine_new exfil' (le_table e)"
    have nil: "le_leases e = []" "hmap_ok (le_table e)" using False sy by (auto simp: synced_def leases_ok_def)
    have new: "le_table ?new = le_table e" "le_leases ?new = []" "\<not> le_restored ?new" by (simp_all add: lease_engine_new_def)
    show ?thesis using False nil restore_leases_hget [of ?new env tok]
      by (auto simp: get_lease_def Let_def ensure_restored_def restore_leases_hget new lease_of_row_def split: option.split)
  qed
qed

text \<open>Texts for the witnesses: the decimal number, read back up to the end of the year 9999.\<close>

definition sample_text :: time_text where
  "sample_text = \<lparr> tt_write = int_dec,
     tt_read = (\<lambda>s. let t = int (dec_val s) in if t < 253402300800 * nanos then Some t else None) \<rparr>"

lemma sample_text_exact [simp]: "0 \<le> t \<Longrightarrow> exact sample_text t \<longleftrightarrow> t < 253402300800 * nanos"
  by (simp add: exact_def sample_text_def int_dec_def dec_val_nat_dec Let_def)

abbreviation env_at :: "bool \<Rightarrow> int \<Rightarrow> string \<Rightarrow> lease_env" where
  "env_at db now tok \<equiv> \<lparr> env_now = now, env_db = db, env_token = tok,
     env_plus_secs = (\<lambda>t s. Some (t + sint s * nanos)), env_sha = id, env_text = sample_text \<rparr>"

lemmas lease_eval = lease_run_def lend_def check_anti_exfil_def lend_unchecked_def ensure_restored_def
  restore_leases_def lease_engine_new_def active_leases_def Let_def persist_table_def insert_lease_def
  revoke_def mark_lease_revoked_def update_row_def nanos_def get_lease_def leases_exact_def

lemma restart_restores_leases_witness:
  "let e = lease_run [(env_at True 0 ''t1'', OpLend ''k'' (Some ''v'') ''a'' 10), (env_at True 0 ''t2'', OpLend ''k'' None ''a'' 99)]
             (lease_engine_new None []) in
   fst (get_lease (env_at True (11 * nanos) ''x'') (lease_engine_new None (le_table e)) ''t1'') = None
   \<and> fst (get_lease (env_at True (11 * nanos) ''x'') e ''t1'') \<noteq> None
   \<and> fst (get_lease (env_at True (11 * nanos) ''x'') (lease_engine_new None (le_table e)) ''t2'') \<noteq> None"
proof -
  let ?s = "[(env_at True 0 ''t1'', OpLend ''k'' (Some ''v'') ''a'' 10), (env_at True 0 ''t2'', OpLend ''k'' None ''a'' 99)]"
  have run: "exact_run sample_text ?s (lease_engine_new None [])"
    using sample_text_exact [of 0] sample_text_exact [of 10000000000] sample_text_exact [of 99000000000]
    by (simp add: lease_eval del: sample_text_exact)
  have up: "env_db (env_at True (11 * nanos) ''x'')" "env_text (env_at True (11 * nanos) ''x'') = sample_text" by simp_all
  note r = restart_restores_leases [OF run up refl, of None]
  have g: "get_lease (env_at True (11 * nanos) ''x'') (lease_run ?s (lease_engine_new None [])) tok =
      (hget (le_leases (lease_run ?s (lease_engine_new None []))) tok, lease_run ?s (lease_engine_new None []))" for tok
    by (simp add: lease_eval)
  show ?thesis unfolding Let_def r g by (simp add: lease_eval)
qed

text \<open>One row with a time that is not read back keeps every lease of every agent out of a new engine, for good: the
  restore is not tried again, and neither the table nor the leases of the engine change.\<close>

lemma unreadable_row_blocks_restore:
  assumes "hmap_ok tab" and "active tab tok = Some r" and "load_row (env_text env) r = None"
    and e: "e = snd (get_lease env (lease_engine_new exfil tab) tok')"
  shows "le_leases e = [] \<and> le_table e = tab \<and> le_restored e"
    and "fst (get_lease env'' e tok'') = None"
proof -
  have "active_leases (env_text env) tab = None" using active_leases_None_iff [OF assms(1)] assms(2,3) by blast
  then show "le_leases e = [] \<and> le_table e = tab \<and> le_restored e"
    by (simp add: e get_lease_def ensure_restored_def restore_leases_def lease_engine_new_def Let_def)
  then show "fst (get_lease env'' e tok'') = None" by (simp add: get_lease_def ensure_restored_def)
qed

text \<open>Nothing bounds the time to live: an agent that asks for ten thousand years takes the leases of the others away at
  the next restart.\<close>

lemma long_lease_blocks_restart:
  "fst (get_lease (env_at True 1 ''x'') (lease_engine_new None (le_table (lease_run
      [(env_at True 0 ''t1'', OpLend ''k'' None ''good'' 99), (env_at True 0 ''t2'', OpLend ''k'' None ''bad'' 315360000000)]
      (lease_engine_new None [])))) ''t1'') = None"
proof -
  have "tt_read sample_text (tt_write sample_text 315360000000000000000) = None"
    using sample_text_exact [of 315360000000000000000]
    by (simp add: sample_text_def int_dec_def dec_val_nat_dec Let_def nanos_def)
  moreover have "sint (315360000000 :: 64 word) = 315360000000" by simp
  ultimately show ?thesis by (simp add: lease_eval load_row_def split: option.split)
qed

section \<open>Revocation\<close>

definition dead :: "string \<Rightarrow> lease_engine \<Rightarrow> bool" where
  "dead tok e = (leases_ok e \<and> hget (le_leases e) tok = None \<and> active (le_table e) tok = None)"

lemma dead_ensure:
  assumes "dead tok e"
  shows "dead tok (ensure_restored env e)"
proof (cases "le_restored e")
  case True
  then show ?thesis using assms by (simp add: ensure_restored_def)
next
  case False
  have ok: "leases_ok e" and none: "active (le_table e) tok = None" using assms by (simp_all add: dead_def)
  then have nil: "le_leases e = []" "hmap_ok (le_table e)" using False by (auto simp: leases_ok_def)
  have "hget (le_leases (restore_leases env e)) tok = None" "active (le_table (restore_leases env e)) tok = None"
    by (simp_all add: restore_leases_hget [OF nil(2,1)] restore_leases_active [OF nil(2)] hget_restored_rows [OF nil(2)] none)
  moreover have "ensure_restored env e = restore_leases env e\<lparr> le_restored := True \<rparr>"
    using False by (simp add: ensure_restored_def)
  ultimately show ?thesis using leases_ok_restored(1) [OF ok, of env] by (simp add: dead_def)
qed

lemma dead_change:
  assumes "lease_change env e e'" "dead tok e" "le_restored e'" "env_token env \<noteq> tok"
  shows "dead tok e'"
proof -
  have ok: "leases_ok e" and none: "hget (le_leases e) tok = None" "active (le_table e) tok = None"
    using assms(2) by (simp_all add: dead_def)
  have m: "hmap_ok (le_leases e)" using ok by (simp add: leases_ok_def)
  have "hget (le_leases e') tok = None \<and> active (le_table e') tok = None"
    using assms(1)
  proof cases
    case (dropped P)
    then show ?thesis using none m by (simp add: hget_filter active_foldl_mark)
  next
    case (renewed P x)
    have "hget (le_leases e') tok = map_option (\<lambda>l. if P l then l\<lparr> sl_expires_at := x \<rparr> else l) (hget (le_leases e) tok)"
      unfolding renewed(1) by (rule hget_map_values)
    then show ?thesis using renewed(2) none by (simp add: active_foldl_update)
  qed (use none assms(4) in auto)
  then show ?thesis using lease_change_ok [OF assms(1) ok assms(3)] by (simp add: dead_def)
qed

lemma dead_step:
  assumes "dead tok e" "env_token (fst s) \<noteq> tok"
  shows "dead tok (lease_step s e)"
proof -
  obtain env op where s: "s = (env, op)" by force
  show ?thesis
  proof (cases "\<exists>exfil. op = OpRestart exfil")
    case True
    then show ?thesis using assms(1) s by (auto simp: dead_def leases_ok_def lease_engine_new_def)
  next
    case False
    then consider "same_leases e (lease_step s e)" | "steps_to env e (lease_step s e)"
      using lease_step_cases s by blast
    then show ?thesis
    proof cases
      case 1
      then show ?thesis using assms by (simp add: same_leases_def dead_def leases_ok_def)
    next
      case 2
      have tok: "env_token env \<noteq> tok" using assms(2) s by simp
      have "lease_change env (ensure_restored env e) (lease_step s e)" "le_restored (lease_step s e)"
        using 2 by (simp_all add: steps_to_def)
      then show ?thesis using dead_ensure [OF assms(1)] tok by (blast intro: dead_change)
    qed
  qed
qed

lemma dead_run:
  assumes "dead tok e" "\<forall>(env, _)\<in>set steps. env_token env \<noteq> tok"
  shows "dead tok (lease_run steps e)"
  unfolding lease_run_def
proof (rule foldl_invariant [where I = "dead tok"])
  show "dead tok (lease_step s e)" if "dead tok e" "s \<in> set steps" for e s
    using that assms(2) by (intro dead_step) auto
qed (rule assms(1))

lemma dead_get_lease: "dead tok e \<Longrightarrow> fst (get_lease env e tok) = None"
  using dead_ensure [of tok e env] by (simp add: get_lease_def Let_def dead_def)

lemma revoke_ok_cases:
  assumes "revoke env e tok reason = (Ok (), e')"
  obtains l where "hget (le_leases (ensure_restored env e)) tok = Some l"
    "le_leases e' = hdel tok (le_leases (ensure_restored env e))" "le_restored e'"
    "le_table e' = (if env_db env then mark_lease_revoked tok (le_table (ensure_restored env e))
                    else le_table (ensure_restored env e))"
  using assms by (auto simp: revoke_def Let_def split: option.splits)

text \<open>C28: A token whose revocation reached the table is never readable again, whatever operations, failures of
  the database and restarts follow; fresh tokens are assumed to differ from it.\<close>

theorem revocation_survives:
  assumes "e = lease_run before (lease_engine_new exfil [])"
    and "revoke env e tok reason = (Ok (), e')" and "env_db env"
    and "\<forall>(env', _)\<in>set later. env_token env' \<noteq> tok"
  shows "fst (get_lease env' (lease_run later e') tok) = None"
proof (rule dead_get_lease [OF dead_run [OF _ assms(4)]])
  have ok: "leases_ok e" using assms(1) by (simp add: leases_ok_run)
  have ok': "leases_ok e'"
    using leases_ok_step [OF ok, of "(env, OpRevoke tok reason)"] assms(2) by simp
  show "dead tok e'" using assms(2)
    by (rule revoke_ok_cases) (use ok' assms(3) in \<open>simp add: dead_def\<close>)
qed

lemma revocation_survives_witness:
  "fst (get_lease (env_at True 2 ''x'')
     (lease_run [(env_at True 2 ''t2'', OpLend ''k'' None ''a'' 9), (env_at True 2 ''t3'', OpRestart None)]
        (snd (revoke (env_at True 1 ''x'')
           (lease_run [(env_at True 0 ''t1'', OpLend ''k'' None ''a'' 9)] (lease_engine_new None [])) ''t1'' ''r'')))
     ''t1'') = None"
proof (rule revocation_survives [OF refl])
  let ?e = "lease_run [(env_at True 0 ''t1'', OpLend ''k'' None ''a'' 9)] (lease_engine_new None [])"
  show "revoke (env_at True 1 ''x'') ?e ''t1'' ''r'' = (Ok (), snd (revoke (env_at True 1 ''x'') ?e ''t1'' ''r''))"
    by (simp add: lease_eval)
qed simp_all

text \<open>When the table cannot be written, \<open>revoke\<close> reports success as well, and after a restart the lease is
  readable again until it runs out.\<close>

theorem unwritten_revocation_is_undone:
  assumes "e = lease_run before (lease_engine_new exfil [])" and "exact_run T before (lease_engine_new exfil [])"
    and "le_restored e" and "hget (le_leases e) tok = Some l"
    and "\<not> env_db env" and "env_db env'" and "sl_expires_at l > env_now env'" and "env_text env' = T"
  shows "fst (revoke env e tok reason) = Ok ()
    \<and> fst (get_lease env' (snd (revoke env e tok reason)) tok) = None
    \<and> fst (get_lease env' (lease_engine_new exfil' (le_table (snd (revoke env e tok reason)))) tok)
         = Some (l\<lparr> sl_secret_value := None \<rparr>)"
proof -
  have sy: "synced T e" using assms(1,2) synced_run [of T "lease_engine_new exfil []" before] by simp
  have en: "ensure_restored env e = e" using assms(3) by (simp add: ensure_restored_def)
  have r: "fst (revoke env e tok reason) = Ok ()" "le_table (snd (revoke env e tok reason)) = le_table e"
    "le_leases (snd (revoke env e tok reason)) = hdel tok (le_leases e)" "le_restored (snd (revoke env e tok reason))"
    using assms(3,4,5) by (simp_all add: revoke_def en Let_def)
  have "fst (get_lease env' (snd (revoke env e tok reason)) tok) = None"
    using r(3,4) by (simp add: get_lease_def ensure_restored_def)
  moreover have "fst (get_lease env' (lease_engine_new exfil' (le_table e)) tok) = Some (l\<lparr> sl_secret_value := None \<rparr>)"
    using get_lease_after_restart [OF sy assms(3,6,8)] assms(4,7) by simp
  ultimately show ?thesis unfolding r(2) using r(1) by blast
qed

lemma unwritten_revocation_is_undone_witness:
  "let e = lease_run [(env_at True 0 ''t1'', OpLend ''k'' (Some ''v'') ''a'' 9)] (lease_engine_new None []);
       e' = snd (revoke (env_at False 1 ''x'') e ''t1'' ''r'') in
   map_option sl_secret_name (fst (get_lease (env_at True 2 ''x'') (lease_engine_new None (le_table e')) ''t1'')) = Some ''k''"
proof -
  let ?b = "[(env_at True 0 ''t1'', OpLend ''k'' (Some ''v'') ''a'' 9)]"
  let ?l = "\<lparr> sl_token = ''t1'', sl_secret_name = ''k'', sl_secret_value = Some ''v'', sl_agent_id = ''a'',
              sl_expires_at = 9000000000, sl_created_at = 0 \<rparr>"
  have run: "exact_run sample_text ?b (lease_engine_new None [])"
    using sample_text_exact [of 0] sample_text_exact [of 9000000000] by (simp add: lease_eval del: sample_text_exact)
  have pre: "le_restored (lease_run ?b (lease_engine_new None []))"
    "hget (le_leases (lease_run ?b (lease_engine_new None []))) ''t1'' = Some ?l"
    "\<not> env_db (env_at False 1 ''x'')" "env_db (env_at True 2 ''x'')"
    "sl_expires_at ?l > env_now (env_at True 2 ''x'')" "env_text (env_at True 2 ''x'') = sample_text"
    by (simp_all add: lease_eval)
  show ?thesis unfolding Let_def
    using unwritten_revocation_is_undone [OF refl run pre, of "''r''" None] by simp
qed

section \<open>What leak detection finds\<close>

lemma split_where_not_Nil [simp]: "split_where P s \<noteq> []"
  by (cases s) (auto split: list.split)

lemma split_where_append: "P c \<Longrightarrow> split_where P (a @ c # b) = split_where P a @ split_where P b"
  by (induction a) (auto split: list.split simp: append_eq_Cons_conv)

lemma split_where_single: "\<forall>c\<in>set s. \<not> P c \<Longrightarrow> split_where P s = [s]"
  by (induction s) auto

lemma split_where_piece:
  assumes "\<forall>c\<in>set tok. \<not> P c" "pre = [] \<or> P (last pre)" "post = [] \<or> P (hd post)"
  shows "tok \<in> set (split_where P (pre @ tok @ post))"
proof -
  have right: "tok \<in> set (split_where P (tok @ post))"
    using assms(1,3) split_where_append [of P "hd post" tok "tl post"]
    by (cases post) (auto simp: split_where_single)
  show ?thesis
  proof (cases "pre = []")
    case False
    then have "pre @ tok @ post = butlast pre @ last pre # (tok @ post)" by simp
    then have "split_where P (pre @ tok @ post) = split_where P (butlast pre) @ split_where P (tok @ post)"
      using split_where_append [of P "last pre" "butlast pre" "tok @ post"] False assms(2) by metis
    then show ?thesis using right by simp
  qed (use right in simp)
qed

lemma split_where_free: "p \<in> set (split_where P s) \<Longrightarrow> c \<in> set p \<Longrightarrow> \<not> P c"
proof (induction s arbitrary: p)
  case (Cons x s)
  obtain q qs where q: "split_where P s = q # qs" by (cases "split_where P s") auto
  show ?case using Cons.prems Cons.IH [of q] Cons.IH [of p] q by (auto split: if_splits)
qed simp

lemma trim_start_matches_no: "\<not> starts_with s p \<Longrightarrow> trim_start_matches p s = s"
  by (subst trim_start_matches.simps) simp

lemma trim_start_matches_done: "p \<noteq> [] \<Longrightarrow> \<not> starts_with (trim_start_matches p s) p"
proof (induction p s rule: trim_start_matches.induct)
  case (1 p s)
  show ?case
  proof (cases "starts_with s p")
    case True
    then have "trim_start_matches p s = trim_start_matches p (drop (length p) s)"
      using 1(2) by (subst trim_start_matches.simps) simp
    then show ?thesis using 1 True by simp
  next
    case False
    then show ?thesis by (simp add: trim_start_matches_no)
  qed
qed

lemma trim_start_matches_set: "set (trim_start_matches p s) \<subseteq> set s"
proof (induction p s rule: trim_start_matches.induct)
  case (1 p s)
  then show ?case using set_drop_subset [of "length p" s] by (subst trim_start_matches.simps) auto
qed

lemma clean_token_set: "set (clean_token s) \<subseteq> set s"
  unfolding clean_token_def using trim_start_matches_set by (meson order_trans)

lemma clean_token_id:
  "\<not> starts_with s ''Bearer'' \<Longrightarrow> \<not> starts_with s ''token'' \<Longrightarrow> clean_token s = s"
proof -
  assume no: "\<not> starts_with s ''Bearer''" "\<not> starts_with s ''token''"
  have "\<not> starts_with s ''Bearer ''" using no(1) by (auto simp: starts_with_iff)
  moreover have "\<not> starts_with s ''token ''" using no(2) by (auto simp: starts_with_iff)
  ultimately show ?thesis using no by (simp add: clean_token_def trim_start_matches_no)
qed

lemma find_True_None: "List.find (\<lambda>_. True) xs = None \<longleftrightarrow> xs = []"
  by (cases xs) auto

lemma map_filter_Nil: "List.map_filter f xs = [] \<longleftrightarrow> (\<forall>x\<in>set xs. f x = None)"
  by (induction xs) (auto simp: List.map_filter_def simp del: not_None_eq)

lemma check_leak_None_iff:
  "check_leak sha hashes content = None \<longleftrightarrow>
     (\<forall>tok\<in>set (split_where leak_delimiter content). tok \<noteq> [] \<longrightarrow> hget hashes (sha (clean_token tok)) = None)"
  by (auto simp: check_leak_def find_True_None map_filter_Nil Let_def)

text \<open>A registered secret that stands in a text between delimiters or at its ends is reported, when it has
  no delimiter itself and starts neither with \<open>Bearer\<close> nor with \<open>token\<close>; a secret that has a
  delimiter, such as a colon, or starts with \<open>token\<close> is reported in no text at all.\<close>

theorem leak_detection_spec:
  "(hget hashes (sha secret) \<noteq> None \<and> secret \<noteq> [] \<and> (\<forall>c\<in>set secret. \<not> leak_delimiter c)
     \<and> \<not> starts_with secret ''Bearer'' \<and> \<not> starts_with secret ''token''
     \<and> (pre = [] \<or> leak_delimiter (last pre)) \<and> (post = [] \<or> leak_delimiter (hd post)) \<longrightarrow>
     check_leak sha hashes (pre @ secret @ post) \<noteq> None)
   \<and> (inj sha \<and> ((\<exists>c\<in>set secret. leak_delimiter c) \<or> starts_with secret ''token'') \<longrightarrow>
     check_leak sha (register_key sha secret agent_id []) content = None)"
proof (intro conjI impI; elim conjE)
  assume reg: "hget hashes (sha secret) \<noteq> None" "secret \<noteq> []"
    and free: "\<forall>c\<in>set secret. \<not> leak_delimiter c"
    and heads: "\<not> starts_with secret ''Bearer''" "\<not> starts_with secret ''token''"
    and ends: "pre = [] \<or> leak_delimiter (last pre)" "post = [] \<or> leak_delimiter (hd post)"
  show "check_leak sha hashes (pre @ secret @ post) \<noteq> None"
    using reg clean_token_id [OF heads] split_where_piece [OF free ends]
    unfolding check_leak_None_iff by metis
next
  assume "inj sha" and bad: "(\<exists>c\<in>set secret. leak_delimiter c) \<or> starts_with secret ''token''"
  show "check_leak sha (register_key sha secret agent_id []) content = None"
  proof -
    have "clean_token tok \<noteq> secret" if "tok \<in> set (split_where leak_delimiter content)" for tok
    proof
      assume eq: "clean_token tok = secret"
      have "\<not> starts_with secret ''token''"
        using trim_start_matches_done [of "''token''"] by (simp add: eq [symmetric] clean_token_def)
      moreover have "\<forall>c\<in>set secret. \<not> leak_delimiter c"
        using clean_token_set [of tok] split_where_free [OF that] eq by blast
      ultimately show False using bad by blast
    qed
    then show ?thesis using injD [OF \<open>inj sha\<close>] unfolding check_leak_None_iff register_key_def by auto
  qed
qed

lemma leak_detection_spec_witness:
  "check_leak id (register_key id ''s3cret'' ''a'' []) (''key='' @ '': '' @ ''s3cret'' @ []) \<noteq> None
   \<and> check_leak id (register_key id ''user:pass'' ''a'' []) ''user:pass'' = None"
proof
  have d: "\<forall>c\<in>set ''s3cret''. \<not> leak_delimiter c" "leak_delimiter (last (''key='' @ '': ''))"
    "\<exists>c\<in>set ''user:pass''. leak_delimiter c"
    by (simp_all add: leak_delimiter_def ascii_space_def)
  show "check_leak id (register_key id ''s3cret'' ''a'' []) (''key='' @ '': '' @ ''s3cret'' @ []) \<noteq> None"
    using leak_detection_spec [of "register_key id ''s3cret'' ''a'' []" id "''s3cret''" "''key='' @ '': ''" "[]"] d
    by (simp add: register_key_def starts_with_def)
  show "check_leak id (register_key id ''user:pass'' ''a'' []) ''user:pass'' = None"
    by (rule mp [OF conjunct2 [OF leak_detection_spec]]) (use d in auto)
qed

end
