(* ===== verification/Governance.thy ===== *)
theory Governance
  imports Prelude
begin

unbundle bit_operations_syntax

text \<open>Votes: the proposals of \<open>src/src/governance/dao.rs\<close> and the quadratic voting engine of
  \<open>src/src/governance/quadratic_voting.rs\<close> with its integer square root on 128-bit words. The clock (in
  seconds, or the mock time) is an argument. \<open>next_id\<close> wraps as a 64-bit word.\<close>

definition quoted :: "string \<Rightarrow> string" where
  "quoted s = [CHR 0x27] @ s @ [CHR 0x27]"

section \<open>Proposals\<close>

datatype proposal_status = ProposalActive | ProposalExecuted | ProposalCanceled

record proposal =
  pr_id :: string
  pr_title :: string
  pr_description :: string
  pr_options :: "string list"
  pr_deadline :: "64 word"
  pr_creator :: string
  pr_status :: proposal_status
  pr_votes :: "(string, string \<times> 64 word) hmap"

record dao =
  dao_proposals :: "(string, proposal) hmap"
  dao_current_user :: string
  dao_next_id :: "64 word"
  dao_mock_time :: "64 word option"

definition dao_new :: dao where
  "dao_new = \<lparr> dao_proposals = [], dao_current_user = ''creator_1'', dao_next_id = 1, dao_mock_time = None \<rparr>"

definition set_user :: "dao \<Rightarrow> string \<Rightarrow> dao" where
  "set_user d user = d\<lparr> dao_current_user := user \<rparr>"

definition set_mock_time :: "dao \<Rightarrow> 64 word \<Rightarrow> dao" where
  "set_mock_time d time = d\<lparr> dao_mock_time := Some time \<rparr>"

definition clear_mock_time :: "dao \<Rightarrow> dao" where
  "clear_mock_time d = d\<lparr> dao_mock_time := None \<rparr>"

text \<open>\<open>clock\<close> is the system time.\<close>

definition get_now :: "64 word \<Rightarrow> dao \<Rightarrow> 64 word" where
  "get_now clock d = (case dao_mock_time d of Some t \<Rightarrow> t | None \<Rightarrow> clock)"

definition create_proposal_by ::
  "64 word \<Rightarrow> dao \<Rightarrow> string \<Rightarrow> string \<Rightarrow> string list \<Rightarrow> 64 word \<Rightarrow> string \<Rightarrow> (string, string) result \<times> dao"
where
  "create_proposal_by clock d title description options deadline creator =
     (if options = [] then (Err ''Options list cannot be empty'', d)
      else
        let now = get_now clock d in
        if deadline \<le> now then (Err ''Deadline must be in the future'', d)
        else
          let proposal_id = ''prop_'' @ nat_dec (unat (dao_next_id d));
              p = \<lparr> pr_id = proposal_id, pr_title = title, pr_description = description, pr_options = options,
                    pr_deadline = deadline, pr_creator = creator, pr_status = ProposalActive, pr_votes = [] \<rparr> in
          (Ok proposal_id, d\<lparr> dao_next_id := dao_next_id d + 1, dao_proposals := hput proposal_id p (dao_proposals d) \<rparr>))"

definition create_proposal ::
  "64 word \<Rightarrow> dao \<Rightarrow> string \<Rightarrow> string \<Rightarrow> string list \<Rightarrow> 64 word \<Rightarrow> (string, string) result \<times> dao"
where
  "create_proposal clock d title description options deadline =
     create_proposal_by clock d title description options deadline (dao_current_user d)"

definition vote ::
  "64 word \<Rightarrow> dao \<Rightarrow> string \<Rightarrow> string \<Rightarrow> string \<Rightarrow> 64 word \<Rightarrow> (unit, string) result \<times> dao"
where
  "vote clock d proposal_id voter option credits =
     (let now = get_now clock d in
      case hget (dao_proposals d) proposal_id of
        None \<Rightarrow> (Err ''Proposal not found'', d)
      | Some p \<Rightarrow>
          if pr_status p \<noteq> ProposalActive then (Err ''Proposal is not active'', d)
          else if now \<ge> pr_deadline p then (Err ''Voting deadline has passed'', d)
          else if option \<notin> set (pr_options p) then (Err ''Invalid voting option'', d)
          else if credits = 0 then (Err ''Credits must be greater than zero'', d)
          else if hmem (pr_votes p) voter then (Err ''Double vote rejected'', d)
          else (Ok (), d\<lparr> dao_proposals :=
                         hput proposal_id (p\<lparr> pr_votes := hput voter (option, credits) (pr_votes p) \<rparr>) (dao_proposals d) \<rparr>))"

definition execute_proposal :: "64 word \<Rightarrow> dao \<Rightarrow> string \<Rightarrow> (unit, string) result \<times> dao" where
  "execute_proposal clock d proposal_id =
     (let now = get_now clock d in
      case hget (dao_proposals d) proposal_id of
        None \<Rightarrow> (Err ''Proposal not found'', d)
      | Some p \<Rightarrow>
          if pr_status p \<noteq> ProposalActive then (Err ''Proposal is not active'', d)
          else if now < pr_deadline p then (Err ''Cannot execute proposal before deadline'', d)
          else (Ok (), d\<lparr> dao_proposals := hput proposal_id (p\<lparr> pr_status := ProposalExecuted \<rparr>) (dao_proposals d) \<rparr>))"

definition cancel_proposal_by :: "64 word \<Rightarrow> dao \<Rightarrow> string \<Rightarrow> string \<Rightarrow> (unit, string) result \<times> dao" where
  "cancel_proposal_by clock d proposal_id caller =
     (let now = get_now clock d in
      case hget (dao_proposals d) proposal_id of
        None \<Rightarrow> (Err ''Proposal not found'', d)
      | Some p \<Rightarrow>
          if pr_status p \<noteq> ProposalActive then (Err ''Proposal is not active'', d)
          else if caller \<noteq> pr_creator p then (Err ''Only the creator can cancel this proposal'', d)
          else if now \<ge> pr_deadline p then (Err ''Cannot cancel after deadline'', d)
          else (Ok (), d\<lparr> dao_proposals := hput proposal_id (p\<lparr> pr_status := ProposalCanceled \<rparr>) (dao_proposals d) \<rparr>))"

definition cancel_proposal :: "64 word \<Rightarrow> dao \<Rightarrow> string \<Rightarrow> (unit, string) result \<times> dao" where
  "cancel_proposal clock d proposal_id = cancel_proposal_by clock d proposal_id (dao_current_user d)"

section \<open>Quadratic voting\<close>

datatype identity_tier = TierUnverified | TierBasic | TierVerified | TierValidator | TierSovereign

fun multiplier_bps :: "identity_tier \<Rightarrow> 64 word" where
  "multiplier_bps TierUnverified = 1000"
| "multiplier_bps TierBasic = 5000"
| "multiplier_bps TierVerified = 10000"
| "multiplier_bps TierValidator = 15000"
| "multiplier_bps TierSovereign = 20000"

record voter_profile =
  vp_voter_id :: string
  vp_karma :: "64 word"
  vp_identity_tier :: identity_tier
  vp_is_sybil_flagged :: bool
  vp_credit_balance :: "64 word"

definition voter_profile_new :: "string \<Rightarrow> 64 word \<Rightarrow> identity_tier \<Rightarrow> 64 word \<Rightarrow> voter_profile" where
  "voter_profile_new voter_id karma tier balance =
     \<lparr> vp_voter_id = voter_id, vp_karma = karma, vp_identity_tier = tier, vp_is_sybil_flagged = False,
       vp_credit_balance = balance \<rparr>"

definition with_sybil_flag :: "voter_profile \<Rightarrow> bool \<Rightarrow> voter_profile" where
  "with_sybil_flag v flagged = v\<lparr> vp_is_sybil_flagged := flagged \<rparr>"

text \<open>\<open>128 - leading_zeros\<close> is the number of binary digits.\<close>

fun bit_len :: "nat \<Rightarrow> nat" where
  "bit_len n = (if n = 0 then 0 else Suc (bit_len (n div 2)))"

declare bit_len.simps [simp del]

function isqrt_loop :: "128 word \<Rightarrow> 128 word \<Rightarrow> 128 word" where
  "isqrt_loop n x =
     (let y = drop_bit 1 (x + n div x) in
      if y \<ge> x then x else isqrt_loop n y)"
  by pat_completeness auto

termination isqrt_loop
  by (relation "measure (\<lambda>(n, x). unat x)") (auto simp: word_less_nat_alt not_le)

declare isqrt_loop.simps [simp del]

definition integer_sqrt :: "128 word \<Rightarrow> 64 word" where
  "integer_sqrt n =
     (if n = 0 then 0
      else
        let x = push_bit ((bit_len (unat n) + 1) div 2) 1;
            x' = (if x = 0 then 1 else x) in
        ucast (isqrt_loop n x'))"

definition sat_mul :: "'a::len word \<Rightarrow> 'a word \<Rightarrow> 'a word" where
  "sat_mul a b = (if unat a * unat b < 2 ^ LENGTH('a) then a * b else - 1)"

definition calculate_effective_votes :: "64 word \<Rightarrow> 64 word \<Rightarrow> identity_tier \<Rightarrow> bool \<Rightarrow> 64 word" where
  "calculate_effective_votes credits karma tier is_sybil_flagged =
     (if is_sybil_flagged \<or> credits = 0 \<or> karma = 0 then 0
      else
        let karma_weight = sat_mul (ucast karma) (ucast (multiplier_bps tier)) div (10000 :: 128 word) in
        if karma_weight = 0 then 0
        else integer_sqrt (sat_mul (ucast credits) karma_weight))"

record ballot =
  bl_voter_id :: string
  bl_allocations :: "(string, 64 word) hmap"

record quadratic_proposal =
  qp_id :: string
  qp_options :: "string list"
  qp_ballots :: "(string, ballot) hmap"
  qp_quorum :: "64 word"

record tally_result =
  tr_proposal_id :: string
  tr_option_tallies :: "(string, 64 word) hmap"
  tr_total_voters :: nat
  tr_sybil_votes_rejected :: nat
  tr_winning_option :: "string option"
  tr_quorum_reached :: bool

record vote_engine =
  ve_voters :: "(string, voter_profile) hmap"
  ve_proposals :: "(string, quadratic_proposal) hmap"
  ve_default_quorum :: "64 word"

definition vote_engine_new :: "64 word \<Rightarrow> vote_engine" where
  "vote_engine_new quorum = \<lparr> ve_voters = [], ve_proposals = [], ve_default_quorum = quorum \<rparr>"

definition register_voter :: "vote_engine \<Rightarrow> voter_profile \<Rightarrow> vote_engine" where
  "register_voter e v = e\<lparr> ve_voters := hput (vp_voter_id v) v (ve_voters e) \<rparr>"

definition get_voter :: "vote_engine \<Rightarrow> string \<Rightarrow> voter_profile option" where
  "get_voter e voter_id = hget (ve_voters e) voter_id"

definition create_proposal_with_quorum ::
  "vote_engine \<Rightarrow> string \<Rightarrow> string list \<Rightarrow> 64 word \<Rightarrow> (unit, string) result \<times> vote_engine"
where
  "create_proposal_with_quorum e pid options quorum =
     (if options = [] then (Err ''Proposal options cannot be empty'', e)
      else if hmem (ve_proposals e) pid then (Err (''Proposal with ID '' @ quoted pid @ '' already exists''), e)
      else (Ok (), e\<lparr> ve_proposals :=
                     hput pid \<lparr> qp_id = pid, qp_options = options, qp_ballots = [], qp_quorum = quorum \<rparr> (ve_proposals e) \<rparr>))"

definition engine_create_proposal :: "vote_engine \<Rightarrow> string \<Rightarrow> string list \<Rightarrow> (unit, string) result \<times> vote_engine" where
  "engine_create_proposal e pid options = create_proposal_with_quorum e pid options (ve_default_quorum e)"

text \<open>The loop that checks the allocations and adds up the credits.\<close>

fun spend_credits ::
  "string \<Rightarrow> string list \<Rightarrow> 64 word \<Rightarrow> (string \<times> 64 word) list \<Rightarrow> (64 word, string) result"
where
  "spend_credits pid options spent [] = Ok spent"
| "spend_credits pid options spent ((option, credits) # rest) =
     (if option \<notin> set options then Err (''Invalid option '' @ quoted option @ '' for proposal '' @ quoted pid)
      else if credits = 0 then
        Err (''Credits allocated to option '' @ quoted option @ '' must be greater than zero'')
      else
        (case checked_add spent credits of
           None \<Rightarrow> Err ''Credit sum overflow''
         | Some spent' \<Rightarrow> spend_credits pid options spent' rest))"

definition cast_multi_choice_ballot ::
  "vote_engine \<Rightarrow> string \<Rightarrow> string \<Rightarrow> (string, 64 word) hmap \<Rightarrow>
     ((string, 64 word) hmap, string) result \<times> vote_engine"
where
  "cast_multi_choice_ballot e pid voter_id allocations =
     (case hget (ve_voters e) voter_id of
        None \<Rightarrow> (Err (''Voter '' @ quoted voter_id @ '' is not registered''), e)
      | Some voter \<Rightarrow>
          (case hget (ve_proposals e) pid of
             None \<Rightarrow> (Err (''Proposal '' @ quoted pid @ '' not found''), e)
           | Some p \<Rightarrow>
               if hmem (qp_ballots p) voter_id then
                 (Err (''Voter '' @ quoted voter_id @ '' has already voted on proposal '' @ quoted pid), e)
               else if allocations = [] then (Err ''Ballot allocations cannot be empty'', e)
               else
                 (case spend_credits pid (qp_options p) 0 allocations of
                    Inl err \<Rightarrow> (Err err, e)
                  | Inr spent \<Rightarrow>
                      if spent > vp_credit_balance voter then
                        (Err (''Insufficient credits: voter '' @ quoted voter_id @ '' spent '' @ nat_dec (unat spent) @
                              '' credits but has balance of '' @ nat_dec (unat (vp_credit_balance voter))), e)
                      else
                        (Ok (map (\<lambda>(option, credits).
                                (option, calculate_effective_votes credits (vp_karma voter) (vp_identity_tier voter)
                                           (vp_is_sybil_flagged voter))) allocations),
                         e\<lparr> ve_proposals := hput pid
                              (p\<lparr> qp_ballots := hput voter_id \<lparr> bl_voter_id = voter_id, bl_allocations = allocations \<rparr>
                                                 (qp_ballots p) \<rparr>) (ve_proposals e) \<rparr>))))"

definition cast_vote ::
  "vote_engine \<Rightarrow> string \<Rightarrow> string \<Rightarrow> string \<Rightarrow> 64 word \<Rightarrow> (64 word, string) result \<times> vote_engine"
where
  "cast_vote e pid voter_id option credits =
     (case cast_multi_choice_ballot e pid voter_id [(option, credits)] of
        (Inl err, e') \<Rightarrow> (Err err, e')
      | (Inr res_map, e') \<Rightarrow> (Ok (case hget res_map option of Some v \<Rightarrow> v | None \<Rightarrow> 0), e'))"

text \<open>The tally: per option, voters, rejected voters, total.\<close>

record tally_state =
  ts_tallies :: "(string, 64 word) hmap"
  ts_voters :: nat
  ts_rejected :: nat
  ts_total :: "64 word"

definition tally_allocation :: "voter_profile option \<Rightarrow> tally_state \<Rightarrow> string \<times> 64 word \<Rightarrow> tally_state" where
  "tally_allocation voter ts alloc =
     (let (option, credits) = alloc;
          (karma, tier) = (case voter of None \<Rightarrow> (0, TierUnverified) | Some v \<Rightarrow> (vp_karma v, vp_identity_tier v));
          eff = calculate_effective_votes credits karma tier False;
          ts' = (case hget (ts_tallies ts) option of
                   Some current \<Rightarrow> ts\<lparr> ts_tallies := hput option (sat_add current eff) (ts_tallies ts) \<rparr>
                 | None \<Rightarrow> ts) in
      ts'\<lparr> ts_total := sat_add (ts_total ts') eff \<rparr>)"

definition tally_ballot :: "(string, voter_profile) hmap \<Rightarrow> tally_state \<Rightarrow> string \<times> ballot \<Rightarrow> tally_state" where
  "tally_ballot voters ts vb =
     (let (voter_id, b) = vb;
          ts' = ts\<lparr> ts_voters := ts_voters ts + 1 \<rparr>;
          voter = hget voters voter_id in
      if (case voter of Some v \<Rightarrow> vp_is_sybil_flagged v | None \<Rightarrow> False) then
        ts'\<lparr> ts_rejected := ts_rejected ts' + 1 \<rparr>
      else foldl (tally_allocation voter) ts' (bl_allocations b))"

definition best_option :: "(string, 64 word) hmap \<Rightarrow> 64 word \<times> string option" where
  "best_option tallies =
     foldl (\<lambda>(max_votes, w) (opt, votes). if votes > max_votes then (votes, Some opt) else (max_votes, w))
       (0, None) tallies"

definition tally :: "vote_engine \<Rightarrow> string \<Rightarrow> (tally_result, string) result" where
  "tally e pid =
     (case hget (ve_proposals e) pid of
        None \<Rightarrow> Err (''Proposal '' @ quoted pid @ '' not found'')
      | Some p \<Rightarrow>
          (let ts0 = \<lparr> ts_tallies = foldl (\<lambda>m opt. hput opt 0 m) [] (qp_options p), ts_voters = 0, ts_rejected = 0,
                      ts_total = 0 \<rparr>;
               ts = foldl (tally_ballot (ve_voters e)) ts0 (qp_ballots p) in
           Ok \<lparr> tr_proposal_id = pid, tr_option_tallies = ts_tallies ts, tr_total_voters = ts_voters ts,
                tr_sybil_votes_rejected = ts_rejected ts, tr_winning_option = snd (best_option (ts_tallies ts)),
                tr_quorum_reached = (ts_total ts \<ge> qp_quorum p) \<rparr>))"

section \<open>The integer square root\<close>

lemma bit_len_bounds: "n < 2 ^ bit_len n \<and> (0 < n \<longrightarrow> 2 ^ bit_len n \<le> 2 * n)"
proof (induction n rule: bit_len.induct)
  case (1 n)
  show ?case
  proof (cases "n = 0")
    case True
    then show ?thesis by (subst bit_len.simps) simp
  next
    case False
    then have IH: "n div 2 < 2 ^ bit_len (n div 2)" "0 < n div 2 \<longrightarrow> 2 ^ bit_len (n div 2) \<le> 2 * (n div 2)"
      using 1 by simp_all
    have e: "bit_len n = Suc (bit_len (n div 2))" using False by (subst bit_len.simps) simp
    have z: "bit_len 0 = 0" by (subst bit_len.simps) simp
    show ?thesis
    proof (cases "n div 2 = 0")
      case True
      then have "n = 1" using False by simp
      then show ?thesis using e z by simp
    next
      case F: False
      then show ?thesis using IH unfolding e power_Suc by arith
    qed
  qed
qed

lemma unat_push_one:
  assumes "k \<le> 64"
  shows "unat (push_bit k 1 :: 128 word) = 2 ^ k"
  using assms unfolding unsigned_push_bit_eq by (simp add: push_bit_eq_mult take_bit_nat_eq_self)

text \<open>One Newton step from above stays above the root, and stops at it.\<close>

lemma newton_above:
  fixes n x :: nat
  assumes "0 < x"
  shows "n < ((x + n div x) div 2 + 1)\<^sup>2"
proof -
  let ?q = "n div x" and ?y = "(x + n div x) div 2"
  have lt: "n < x * (?q + 1)" using dividend_less_times_div [OF assms] by (simp add: algebra_simps)
  have "int (x * (?q + 1)) * 4 \<le> (int x + int (?q + 1))\<^sup>2"
  proof -
    have "0 \<le> (int x - int (?q + 1))\<^sup>2" by simp
    then show ?thesis by (simp add: power2_eq_square algebra_simps)
  qed
  moreover have "(int x + int (?q + 1))\<^sup>2 \<le> (2 * int (?y + 1))\<^sup>2"
    by (rule power_mono) auto
  moreover have "int n < int (x * (?q + 1))" using lt by (simp only: of_nat_less_iff)
  ultimately have "int n * 4 < (2 * int (?y + 1))\<^sup>2" by linarith
  then have "int n * 4 < int ((?y + 1)\<^sup>2) * 4" by (simp only: power_mult_distrib of_nat_power) simp
  then have "int n < int ((?y + 1)\<^sup>2)" by linarith
  then show ?thesis by (simp only: of_nat_less_iff)
qed

lemma newton_stop:
  fixes n x :: nat
  assumes "0 < x" "x \<le> (x + n div x) div 2"
  shows "x\<^sup>2 \<le> n"
proof -
  have "x \<le> n div x" using assms(2) by simp
  then have "x * x \<le> x * (n div x)" by simp
  also have "\<dots> \<le> n" by simp
  finally show ?thesis by (simp add: power2_eq_square)
qed

lemma isqrt_loop_spec:
  assumes "0 < unat x" "unat x \<le> 2 ^ 64" "unat n < (unat x + 1)\<^sup>2" "n \<noteq> 0"
  shows "(unat (isqrt_loop n x))\<^sup>2 \<le> unat n \<and> unat n < (unat (isqrt_loop n x) + 1)\<^sup>2 \<and> unat (isqrt_loop n x) \<le> 2 ^ 64"
  using assms
proof (induction n x rule: isqrt_loop.induct)
  case (1 n x)
  let ?y = "drop_bit 1 (x + n div x)"
  have "unat n div unat x \<le> unat x + 2"
  proof -
    have "unat n \<le> unat x * (unat x + 2)" using 1(4) by (simp add: power2_eq_square algebra_simps)
    then have "unat n div unat x \<le> unat x * (unat x + 2) div unat x" by (rule div_le_mono)
    then show ?thesis using 1(2) by simp
  qed
  then have "unat x + unat (n div x) < 2 ^ LENGTH(128)" using 1(3) by (simp add: unat_div)
  then have "unat (x + n div x) = unat x + unat n div unat x"
    by (subst unat_add_exact) (simp_all add: unat_div)
  then have y: "unat ?y = (unat x + unat n div unat x) div 2"
    by (simp add: unat_drop_bit_eq drop_bit_eq_div unat_div)
  show ?case
  proof (cases "?y \<ge> x")
    case True
    then have "unat x \<le> (unat x + unat n div unat x) div 2" using y by (simp add: word_le_nat_alt)
    then show ?thesis using True newton_stop [OF 1(2)] 1(3,4) by (subst (1 2 3) isqrt_loop.simps) (simp add: Let_def)
  next
    case False
    have less: "unat ?y < unat x" using False by (simp add: word_le_nat_alt)
    have n0: "0 < unat n" using 1(5) by (simp add: unat_gt_0)
    have pos: "0 < unat ?y"
    proof (rule ccontr)
      assume "\<not> 0 < unat ?y"
      then have "unat n < 1" using newton_above [OF 1(2), of "unat n"] y by simp
      then show False using n0 by simp
    qed
    have "(unat (isqrt_loop n ?y))\<^sup>2 \<le> unat n \<and> unat n < (unat (isqrt_loop n ?y) + 1)\<^sup>2 \<and> unat (isqrt_loop n ?y) \<le> 2 ^ 64"
      using 1(1) [OF refl False pos] less 1(3,5) newton_above [OF 1(2), of "unat n"] y by simp
    then show ?thesis using False by (subst (1 2 3) isqrt_loop.simps) (simp add: Let_def)
  qed
qed

lemma integer_sqrt_bounds:
  "(unat (integer_sqrt n))\<^sup>2 \<le> unat n \<and> unat n < (unat (integer_sqrt n) + 1)\<^sup>2"
proof (cases "n = 0")
  case True
  then show ?thesis by (simp add: integer_sqrt_def)
next
  case False
  let ?b = "bit_len (unat n)" and ?k = "(bit_len (unat n) + 1) div 2"
  have pos: "0 < unat n" using False by (simp add: unat_gt_0)
  have lt: "unat n < 2 ^ 128" using unsigned_less [of n] by simp
  have "2 ^ ?b \<le> 2 * unat n" using bit_len_bounds pos by blast
  also have "\<dots> < 2 ^ 129" using lt by simp
  finally have "(2::nat) ^ ?b < 2 ^ 129" .
  then have "?b < 129" by (rule power_less_imp_less_exp [rotated]) simp
  then have k: "?k \<le> 64" by simp
  have x: "unat (push_bit ?k 1 :: 128 word) = 2 ^ ?k"
    using k by (rule unat_push_one)
  have le: "(2::nat) ^ ?k \<le> 2 ^ 64" using k by (rule power_increasing) simp
  have "unat n < 2 ^ ?b" using bit_len_bounds by blast
  also have "\<dots> \<le> 2 ^ (?k * 2)" by (rule power_increasing) simp_all
  also have "\<dots> = (2 ^ ?k)\<^sup>2" by (rule power_mult)
  also have "\<dots> < (2 ^ ?k + 1)\<^sup>2" by (rule power_strict_mono) simp_all
  finally have above: "unat n < (2 ^ ?k + 1)\<^sup>2" .
  have nz: "(push_bit ?k 1 :: 128 word) \<noteq> 0" using x by (metis unsigned_0 power_not_zero zero_neq_numeral)
  have run: "(unat (isqrt_loop n (push_bit ?k 1)))\<^sup>2 \<le> unat n \<and> unat n < (unat (isqrt_loop n (push_bit ?k 1)) + 1)\<^sup>2"
    using isqrt_loop_spec [of "push_bit ?k 1" n] x le above False by simp
  have "unat (isqrt_loop n (push_bit ?k 1)) < 2 ^ 64"
  proof (rule ccontr)
    assume "\<not> unat (isqrt_loop n (push_bit ?k 1)) < 2 ^ 64"
    then have "(2 ^ 64)\<^sup>2 \<le> (unat (isqrt_loop n (push_bit ?k 1)))\<^sup>2" by (intro power_mono) simp_all
    then have "(2 ^ 64)\<^sup>2 \<le> unat n" using run by linarith
    then show False using lt by simp
  qed
  then have "unat (ucast (isqrt_loop n (push_bit ?k 1)) :: 64 word) = unat (isqrt_loop n (push_bit ?k 1))"
    by (simp add: unsigned_ucast_eq take_bit_nat_eq_self)
  then show ?thesis using run False nz by (simp add: integer_sqrt_def Let_def)
qed

text \<open>C37: The integer square root of a 128-bit number is the largest number whose square is at most it; the
  Newton iteration ends for every input and its result fits 64 bits.\<close>

theorem integer_sqrt_correct:
  "(unat (integer_sqrt n))\<^sup>2 \<le> unat n \<and> (\<forall>m. m\<^sup>2 \<le> unat n \<longrightarrow> m \<le> unat (integer_sqrt n))"
proof (intro conjI allI impI)
  show "(unat (integer_sqrt n))\<^sup>2 \<le> unat n" using integer_sqrt_bounds by blast
  fix m :: nat
  assume "m\<^sup>2 \<le> unat n"
  then have "m\<^sup>2 < (unat (integer_sqrt n) + 1)\<^sup>2" using integer_sqrt_bounds [of n] by linarith
  then have "m < unat (integer_sqrt n) + 1" by (rule power_less_imp_less_base) simp
  then show "m \<le> unat (integer_sqrt n)" by simp
qed

lemma integer_sqrt_correct_witness: "3\<^sup>2 \<le> (10 :: nat) \<and> 3 \<le> unat (integer_sqrt 10) \<and> (unat (integer_sqrt 10))\<^sup>2 \<le> 10"
  using integer_sqrt_correct [of 10] by simp

section \<open>Effective votes\<close>

lemma unat_sat_mul: "unat (sat_mul a (b :: 'a::len word)) = min (unat a * unat b) (2 ^ LENGTH('a) - 1)"
  by (auto simp: sat_mul_def unat_word_ariths unsigned_minus_1_eq_mask mask_eq_exp_minus_1)

lemma multiplier_le: "unat (multiplier_bps t) \<le> 20000"
  by (cases t) simp_all

lemma effective_product:
  "unat (sat_mul (ucast credits) (sat_mul (ucast karma) (ucast (multiplier_bps t)) div 10000 :: 128 word)) =
     min (unat (credits :: 64 word) * (unat (karma :: 64 word) * unat (multiplier_bps t) div 10000)) (2 ^ 128 - 1)"
proof -
  have "unat karma * unat (multiplier_bps t) \<le> 2 ^ 64 * 20000"
    by (rule mult_mono) (use multiplier_le less_imp_le [OF unsigned_less [of karma]] in auto)
  then have "unat karma * unat (multiplier_bps t) < 2 ^ 128" by simp
  then have "unat (sat_mul (ucast karma) (ucast (multiplier_bps t)) :: 128 word) = unat karma * unat (multiplier_bps t)"
    by (simp add: unat_sat_mul unat_ucast_up)
  then show ?thesis by (simp add: unat_sat_mul unat_ucast_up unat_div)
qed

text \<open>A ballot of \<open>credits\<close> counts the integer square root of credits times weighted karma, a product that
  is cut off at 128 bits, and nothing for a flagged voter.\<close>

theorem effective_votes_spec:
  "let r = unat (calculate_effective_votes credits karma tier sybil);
       P = (if sybil then 0
            else min (unat credits * (unat karma * unat (multiplier_bps tier) div 10000)) (2 ^ 128 - 1)) in
   r\<^sup>2 \<le> P \<and> P < (r + 1)\<^sup>2"
proof (cases "sybil \<or> credits = 0 \<or> karma = 0")
  case True
  then show ?thesis by (auto simp: calculate_effective_votes_def)
next
  case False
  let ?w = "sat_mul (ucast karma) (ucast (multiplier_bps tier)) div (10000 :: 128 word)"
  show ?thesis
  proof (cases "?w = 0")
    case True
    then have "min (unat credits * (unat karma * unat (multiplier_bps tier) div 10000)) (2 ^ 128 - 1) = 0"
      using effective_product [of credits karma tier] by (simp add: sat_mul_def)
    then show ?thesis using False True by (simp add: calculate_effective_votes_def Let_def)
  next
    case w: False
    then have "calculate_effective_votes credits karma tier sybil = integer_sqrt (sat_mul (ucast credits) ?w)"
      using False by (simp add: calculate_effective_votes_def Let_def)
    then show ?thesis
      using integer_sqrt_bounds [of "sat_mul (ucast credits) ?w"] False
      unfolding effective_product Let_def by simp
  qed
qed

section \<open>Ballots\<close>

lemma spend_credits_ok_iff:
  "is_ok (spend_credits pid options spent allocs) \<longleftrightarrow>
     (\<forall>(opt, c)\<in>set allocs. opt \<in> set options \<and> c \<noteq> 0) \<and>
     (allocs = [] \<or> unat spent + sum_list (map (\<lambda>(_, c). unat c) allocs) < 2 ^ 64)"
proof (induction allocs arbitrary: spent)
  case (Cons a allocs)
  obtain opt c where a: "a = (opt, c)" by force
  show ?case
  proof (cases "opt \<in> set options \<and> c \<noteq> 0 \<and> unat spent + unat c < 2 ^ 64")
    case True
    then have add: "checked_add spent c = Some (spent + c)" "unat (spent + c) = unat spent + unat c"
      by (simp_all add: checked_add_def unat_add_exact)
    show ?thesis using True Cons.IH [of "spent + c"] add a by (auto simp: add.assoc)
  next
    case False
    then show ?thesis using a by (auto simp: checked_add_def)
  qed
qed simp

lemma spend_credits_total:
  "spend_credits pid options spent allocs = Ok n \<Longrightarrow>
     unat n = unat spent + sum_list (map (\<lambda>(_, c). unat c) allocs)"
  by (induction allocs arbitrary: spent)
     (auto split: if_splits option.splits dest!: checked_add_SomeD)

text \<open>C38: A ballot is accepted exactly when the voter is registered, the proposal exists, the voter has not voted on
  it, and the ballot gives positive credits to options of the proposal, in all no more than the balance; the ballot
  is then recorded as given, the balance of the voter stays as it was, and a refused ballot changes nothing.\<close>

theorem cast_ballot_spec:
  "(is_ok (fst (cast_multi_choice_ballot e pid voter allocs)) \<longleftrightarrow>
      (\<exists>v p. hget (ve_voters e) voter = Some v \<and> hget (ve_proposals e) pid = Some p
         \<and> hget (qp_ballots p) voter = None \<and> allocs \<noteq> []
         \<and> list_all (\<lambda>(opt, c). opt \<in> set (qp_options p) \<and> c \<noteq> 0) allocs
         \<and> sum_list (map (\<lambda>(_, c). unat c) allocs) \<le> unat (vp_credit_balance v)))
   \<and> ve_voters (snd (cast_multi_choice_ballot e pid voter allocs)) = ve_voters e
   \<and> hget (ve_proposals (snd (cast_multi_choice_ballot e pid voter allocs))) q =
       (if is_ok (fst (cast_multi_choice_ballot e pid voter allocs)) \<and> q = pid then
          map_option (\<lambda>p. p\<lparr> qp_ballots := hput voter \<lparr> bl_voter_id = voter, bl_allocations = allocs \<rparr> (qp_ballots p) \<rparr>)
            (hget (ve_proposals e) pid)
        else hget (ve_proposals e) q)"
proof (cases "hget (ve_voters e) voter")
  case None
  then show ?thesis by (simp add: cast_multi_choice_ballot_def)
next
  case v: (Some v)
  show ?thesis
  proof (cases "hget (ve_proposals e) pid")
    case None
    then show ?thesis using v by (simp add: cast_multi_choice_ballot_def)
  next
    case p: (Some p)
    have bal: "unat (vp_credit_balance v) < 2 ^ 64" using unsigned_less [of "vp_credit_balance v"] by simp
    show ?thesis
    proof (cases "spend_credits pid (qp_options p) 0 allocs")
      case (Inl err)
      then show ?thesis using v p bal spend_credits_ok_iff [of pid "qp_options p" 0 allocs]
        by (auto simp: cast_multi_choice_ballot_def hmem_def list_all_iff)
    next
      case (Inr n)
      then show ?thesis using v p spend_credits_ok_iff [of pid "qp_options p" 0 allocs]
          spend_credits_total [OF Inr]
        by (auto simp: cast_multi_choice_ballot_def hmem_def list_all_iff word_le_nat_alt not_less word_less_nat_alt)
    qed
  qed
qed

section \<open>The tally\<close>

definition flagged :: "(string, voter_profile) hmap \<Rightarrow> string \<times> ballot \<Rightarrow> bool" where
  "flagged voters vb = (case hget voters (fst vb) of Some v \<Rightarrow> vp_is_sybil_flagged v | None \<Rightarrow> False)"

definition eff_votes :: "voter_profile option \<Rightarrow> 64 word \<Rightarrow> 64 word" where
  "eff_votes voter credits =
     (case voter of None \<Rightarrow> 0
      | Some v \<Rightarrow> calculate_effective_votes credits (vp_karma v) (vp_identity_tier v) False)"

text \<open>What is counted: the effective votes of every allocation of every voter that is not flagged.\<close>

definition counted :: "(string, voter_profile) hmap \<Rightarrow> (string \<times> ballot) list \<Rightarrow> (string \<times> 64 word) list" where
  "counted voters ballots =
     concat (map (\<lambda>vb. if flagged voters vb then []
                       else map (\<lambda>(opt, c). (opt, eff_votes (hget voters (fst vb)) c)) (bl_allocations (snd vb))) ballots)"

definition option_votes :: "vote_engine \<Rightarrow> quadratic_proposal \<Rightarrow> string \<Rightarrow> nat" where
  "option_votes e p opt =
     min (sum_list (map (unat \<circ> snd) (filter (\<lambda>x. fst x = opt) (counted (ve_voters e) (qp_ballots p))))) (2 ^ 64 - 1)"

definition total_votes :: "vote_engine \<Rightarrow> quadratic_proposal \<Rightarrow> nat" where
  "total_votes e p = min (sum_list (map (unat \<circ> snd) (counted (ve_voters e) (qp_ballots p)))) (2 ^ 64 - 1)"

definition add_tally :: "(string, 64 word) hmap \<Rightarrow> string \<times> 64 word \<Rightarrow> (string, 64 word) hmap" where
  "add_tally m x = (case hget m (fst x) of Some current \<Rightarrow> hput (fst x) (sat_add current (snd x)) m | None \<Rightarrow> m)"

lemma tally_allocation_eq:
  "ts_tallies (tally_allocation voter ts (opt, c)) = add_tally (ts_tallies ts) (opt, eff_votes voter c)"
  "ts_total (tally_allocation voter ts (opt, c)) = sat_add (ts_total ts) (eff_votes voter c)"
  "ts_voters (tally_allocation voter ts (opt, c)) = ts_voters ts"
  "ts_rejected (tally_allocation voter ts (opt, c)) = ts_rejected ts"
  by (auto simp: tally_allocation_def Let_def add_tally_def eff_votes_def calculate_effective_votes_def
      split: option.split)

lemma tally_allocations_eq:
  "ts_tallies (foldl (tally_allocation voter) ts allocs) =
     foldl add_tally (ts_tallies ts) (map (\<lambda>(opt, c). (opt, eff_votes voter c)) allocs)"
  "ts_total (foldl (tally_allocation voter) ts allocs) =
     foldl sat_add (ts_total ts) (map (\<lambda>(opt, c). eff_votes voter c) allocs)"
  "ts_voters (foldl (tally_allocation voter) ts allocs) = ts_voters ts"
  "ts_rejected (foldl (tally_allocation voter) ts allocs) = ts_rejected ts"
  by (induction allocs arbitrary: ts) (auto simp: tally_allocation_eq)

lemma tally_ballots_eq:
  "ts_tallies (foldl (tally_ballot voters) ts bs) = foldl add_tally (ts_tallies ts) (counted voters bs)"
  "ts_total (foldl (tally_ballot voters) ts bs) = foldl sat_add (ts_total ts) (map snd (counted voters bs))"
  "ts_voters (foldl (tally_ballot voters) ts bs) = ts_voters ts + length bs"
  "ts_rejected (foldl (tally_ballot voters) ts bs) = ts_rejected ts + length (filter (flagged voters) bs)"
  by (induction bs arbitrary: ts)
     (auto simp: tally_ballot_def counted_def flagged_def tally_allocations_eq Let_def comp_def case_prod_unfold)

lemma foldl_sat_add:
  "unat (foldl sat_add (a :: 64 word) xs) = min (unat a + sum_list (map unat xs)) (2 ^ 64 - 1)"
proof (induction xs arbitrary: a)
  case Nil
  have "unat a < 2 ^ LENGTH(64)" by (rule unsigned_less)
  then show ?case by simp
next
  case (Cons x xs)
  then show ?case by (simp add: unat_sat_add)
qed

lemma hget_add_tallies:
  "hget (foldl add_tally m xs) opt =
     map_option (\<lambda>a. foldl sat_add a (map snd (filter (\<lambda>x. fst x = opt) xs))) (hget m opt)"
proof (induction xs arbitrary: m)
  case Nil
  then show ?case by (simp add: option.map_ident)
next
  case (Cons x xs)
  have "hget (add_tally m x) opt = (if fst x = opt then map_option (\<lambda>a. sat_add a (snd x)) (hget m opt) else hget m opt)"
    by (auto simp: add_tally_def split: option.split)
  then show ?case using Cons by (simp add: option.map_comp comp_def)
qed

lemma hmap_ok_add_tallies: "hmap_ok m \<Longrightarrow> hmap_ok (foldl add_tally m xs)"
  by (rule foldl_invariant) (auto simp: add_tally_def split: option.split)

lemma zero_tallies:
  "hget (foldl (\<lambda>m opt. hput opt 0 m) m opts) opt = (if opt \<in> set opts then Some 0 else hget m opt)"
  by (induction opts arbitrary: m) auto

lemma hmap_ok_zero_tallies: "hmap_ok (foldl (\<lambda>m opt. hput opt 0 m) [] opts)"
  by (rule foldl_invariant) auto

lemma best_option_spec:
  "(\<forall>(opt, v)\<in>set ts. v \<le> fst (best_option ts)) \<and> (snd (best_option ts) = None \<longleftrightarrow> fst (best_option ts) = 0)
   \<and> (\<forall>opt. snd (best_option ts) = Some opt \<longrightarrow> (opt, fst (best_option ts)) \<in> set ts)"
proof (induction ts rule: rev_induct)
  case Nil
  then show ?case by (simp add: best_option_def)
next
  case (snoc x ts)
  obtain opt v where x: "x = (opt, v)" by force
  have step: "best_option (ts @ [x]) = (if v > fst (best_option ts) then (v, Some opt) else best_option ts)"
    by (simp add: best_option_def x case_prod_unfold)
  show ?case
  proof (cases "v > fst (best_option ts)")
    case True
    then have "v \<noteq> 0" by (metis word_not_simps(1))
    moreover have "u \<le> v" if "(o', u) \<in> set ts" for o' u using snoc that True by fastforce
    ultimately show ?thesis using True step x by auto
  next
    case False
    then show ?thesis using snoc step x by auto
  qed
qed

text \<open>The tally of a proposal gives each option the sum, cut off at 64 bits, of the effective votes of the
  voters that are not flagged; it counts all ballots and the flagged ones, names a winner exactly when some
  option has votes, and that winner has the most; the quorum is compared with the sum over all options.\<close>

theorem tally_spec:
  assumes "hget (ve_proposals e) pid = Some p" and "tally e pid = Ok t"
  shows "map_option unat (hget (tr_option_tallies t) opt) = (if opt \<in> set (qp_options p) then Some (option_votes e p opt) else None)
    \<and> tr_total_voters t = length (qp_ballots p)
    \<and> tr_sybil_votes_rejected t = length (filter (flagged (ve_voters e)) (qp_ballots p))
    \<and> (tr_winning_option t = None \<longleftrightarrow> (\<forall>opt'\<in>set (qp_options p). option_votes e p opt' = 0))
    \<and> (tr_winning_option t = Some w \<longrightarrow> w \<in> set (qp_options p) \<and>
         (\<forall>opt'\<in>set (qp_options p). option_votes e p opt' \<le> option_votes e p w))
    \<and> (tr_quorum_reached t \<longleftrightarrow> unat (qp_quorum p) \<le> total_votes e p)"
proof -
  let ?m0 = "foldl (\<lambda>m opt. hput opt 0 m) [] (qp_options p)"
  let ?ts = "foldl (tally_ballot (ve_voters e))
     \<lparr> ts_tallies = ?m0, ts_voters = 0, ts_rejected = 0, ts_total = 0 \<rparr> (qp_ballots p)"
  let ?m = "ts_tallies ?ts"
  have t: "tr_option_tallies t = ?m" "tr_total_voters t = ts_voters ?ts" "tr_sybil_votes_rejected t = ts_rejected ?ts"
    "tr_winning_option t = snd (best_option ?m)" "tr_quorum_reached t = (ts_total ?ts \<ge> qp_quorum p)"
    using assms by (auto simp: tally_def Let_def)
  have get: "map_option unat (hget ?m opt') = (if opt' \<in> set (qp_options p) then Some (option_votes e p opt') else None)" for opt'
    by (simp add: tally_ballots_eq hget_add_tallies zero_tallies foldl_sat_add option_votes_def)
  have ok: "hmap_ok ?m" by (simp add: tally_ballots_eq hmap_ok_add_tallies hmap_ok_zero_tallies)
  have all: "\<exists>v. (opt', v) \<in> set ?m \<and> unat v = option_votes e p opt'" if "opt' \<in> set (qp_options p)" for opt'
    using get [of opt'] that hget_in_set by fastforce
  have only: "opt' \<in> set (qp_options p) \<and> unat v = option_votes e p opt'" if "(opt', v) \<in> set ?m" for opt' v
    using get [of opt'] in_set_hget [OF ok that] by (auto split: if_splits)
  note best = best_option_spec [of ?m]
  have none: "snd (best_option ?m) = None \<longleftrightarrow> (\<forall>opt'\<in>set (qp_options p). option_votes e p opt' = 0)"
  proof
    assume "snd (best_option ?m) = None"
    then have "v = 0" if "(opt', v) \<in> set ?m" for opt' v using best that by fastforce
    then show "\<forall>opt'\<in>set (qp_options p). option_votes e p opt' = 0" using all by fastforce
  next
    assume zero: "\<forall>opt'\<in>set (qp_options p). option_votes e p opt' = 0"
    show "snd (best_option ?m) = None"
    proof (rule ccontr)
      assume "snd (best_option ?m) \<noteq> None"
      then obtain w' where "(w', fst (best_option ?m)) \<in> set ?m" "fst (best_option ?m) \<noteq> 0" using best by auto
      then show False using only zero by (metis unsigned_eq_0_iff)
    qed
  qed
  have win: "w \<in> set (qp_options p) \<and> (\<forall>opt'\<in>set (qp_options p). option_votes e p opt' \<le> option_votes e p w)"
    if "snd (best_option ?m) = Some w"
  proof -
    have w: "(w, fst (best_option ?m)) \<in> set ?m" using best that by blast
    have "option_votes e p opt' \<le> option_votes e p w" if o': "opt' \<in> set (qp_options p)" for opt'
    proof -
      obtain v where v: "(opt', v) \<in> set ?m" "unat v = option_votes e p opt'" using all [OF o'] by blast
      then have "v \<le> fst (best_option ?m)" using best by fastforce
      then show ?thesis using v(2) only [OF w] by (simp add: word_le_nat_alt)
    qed
    then show ?thesis using only [OF w] by blast
  qed
  have q: "ts_total ?ts \<ge> qp_quorum p \<longleftrightarrow> unat (qp_quorum p) \<le> total_votes e p"
    by (simp add: word_le_nat_alt tally_ballots_eq foldl_sat_add total_votes_def)
  show ?thesis using get none win q unfolding t by (simp add: tally_ballots_eq)
qed

definition sample_engine :: vote_engine where
  "sample_engine =
     \<lparr> ve_voters = [(''a'', voter_profile_new ''a'' 1 TierVerified 9), (''b'', with_sybil_flag (voter_profile_new ''b'' 9 TierVerified 9) True)],
       ve_proposals = [(''q'', \<lparr> qp_id = ''q'', qp_options = [''x'', ''y''],
          qp_ballots = [(''a'', \<lparr> bl_voter_id = ''a'', bl_allocations = [(''x'', 5)] \<rparr>),
                        (''b'', \<lparr> bl_voter_id = ''b'', bl_allocations = [(''y'', 9)] \<rparr>)], qp_quorum = 2 \<rparr>)],
       ve_default_quorum = 0 \<rparr>"

lemma sample_eff: "calculate_effective_votes 5 1 TierVerified False = 2"
proof -
  let ?r = "unat (integer_sqrt 5)"
  have b: "?r\<^sup>2 \<le> 5" "5 < (?r + 1)\<^sup>2" using integer_sqrt_bounds [of 5] by simp_all
  have "?r < 3"
  proof (rule ccontr)
    assume "\<not> ?r < 3"
    then have "3\<^sup>2 \<le> ?r\<^sup>2" by (intro power_mono) simp_all
    then show False using b(1) by simp
  qed
  moreover have "2 \<le> ?r"
  proof (rule ccontr)
    assume "\<not> 2 \<le> ?r"
    then have "(?r + 1)\<^sup>2 \<le> 2\<^sup>2" by (intro power_mono) simp_all
    then show False using b(2) by simp
  qed
  ultimately have "?r = unat (2 :: 64 word)" by simp
  then have "integer_sqrt 5 = 2" by (simp only: word_unat_eq_iff)
  then show ?thesis by (simp add: calculate_effective_votes_def sat_mul_def Let_def)
qed

lemmas tally_eval = tally_def sample_engine_def tally_ballot_def tally_allocation_def best_option_def sat_add_def
  with_sybil_flag_def voter_profile_new_def sample_eff Let_def

lemma tally_spec_witness:
  "option_votes sample_engine (the (hget (ve_proposals sample_engine) ''q'')) ''x'' = 2
   \<and> tr_winning_option (projr (tally sample_engine ''q'')) = Some ''x''
   \<and> tr_sybil_votes_rejected (projr (tally sample_engine ''q'')) = 1"
proof -
  let ?p = "the (hget (ve_proposals sample_engine) ''q'')" and ?t = "projr (tally sample_engine ''q'')"
  have p: "hget (ve_proposals sample_engine) ''q'' = Some ?p" by (simp add: sample_engine_def)
  have t: "tally sample_engine ''q'' = Ok ?t" by (simp add: tally_def sample_engine_def Let_def)
  have win: "tr_winning_option ?t = Some ''x''" by (simp add: tally_eval)
  have votes: "map_option unat (hget (tr_option_tallies ?t) ''x'') = Some 2" by (simp add: tally_eval)
  have x: "''x'' \<in> set (qp_options ?p)" by (simp add: sample_engine_def)
  have rej: "length (filter (flagged (ve_voters sample_engine)) (qp_ballots ?p)) = 1"
    by (simp add: sample_engine_def flagged_def with_sybil_flag_def voter_profile_new_def)
  show ?thesis using tally_spec [OF p t, of "''x''"] win votes x rej by simp
qed

section \<open>The life of a proposal\<close>

datatype dao_op =
    DaoUser string
  | DaoMock "64 word option"
  | DaoCreate string string "string list" "64 word" "string option"
  | DaoVote string string string "64 word"
  | DaoExecute string
  | DaoCancel string "string option"

fun dao_step :: "64 word \<times> dao_op \<Rightarrow> dao \<Rightarrow> dao" where
  "dao_step (clock, DaoUser u) d = set_user d u"
| "dao_step (clock, DaoMock None) d = clear_mock_time d"
| "dao_step (clock, DaoMock (Some t)) d = set_mock_time d t"
| "dao_step (clock, DaoCreate title description options deadline None) d =
     snd (create_proposal clock d title description options deadline)"
| "dao_step (clock, DaoCreate title description options deadline (Some creator)) d =
     snd (create_proposal_by clock d title description options deadline creator)"
| "dao_step (clock, DaoVote pid voter option credits) d = snd (vote clock d pid voter option credits)"
| "dao_step (clock, DaoExecute pid) d = snd (execute_proposal clock d pid)"
| "dao_step (clock, DaoCancel pid None) d = snd (cancel_proposal clock d pid)"
| "dao_step (clock, DaoCancel pid (Some caller)) d = snd (cancel_proposal_by clock d pid caller)"

definition dao_run :: "(64 word \<times> dao_op) list \<Rightarrow> dao \<Rightarrow> dao" where
  "dao_run steps d = foldl (\<lambda>d s. dao_step s d) d steps"

text \<open>How a proposal may change, what its votes look like, and that its number has been given out.\<close>

definition advances :: "proposal \<Rightarrow> proposal \<Rightarrow> bool" where
  "advances p p' = (pr_deadline p' = pr_deadline p \<and> pr_options p' = pr_options p \<and> pr_creator p' = pr_creator p
     \<and> (pr_status p = ProposalActive \<or> p' = p)
     \<and> (\<forall>v x. hget (pr_votes p) v = Some x \<longrightarrow> hget (pr_votes p') v = Some x))"

definition votes_valid :: "proposal \<Rightarrow> bool" where
  "votes_valid p = (\<forall>v opt c. hget (pr_votes p) v = Some (opt, c) \<longrightarrow> opt \<in> set (pr_options p) \<and> c \<noteq> 0)"

definition dao_ok :: "nat \<Rightarrow> dao \<Rightarrow> bool" where
  "dao_ok n d = (unat (dao_next_id d) \<le> n + 1 \<and>
     (\<forall>pid p. hget (dao_proposals d) pid = Some p \<longrightarrow>
        votes_valid p \<and> (\<exists>k<unat (dao_next_id d). pid = ''prop_'' @ nat_dec k)))"

lemma advances_refl [simp]: "advances p p"
  by (simp add: advances_def)

lemma advances_trans: "advances p q \<Longrightarrow> advances q r \<Longrightarrow> advances p r"
  by (auto simp: advances_def)

definition dao_grows :: "dao \<Rightarrow> dao \<Rightarrow> bool" where
  "dao_grows d d' = (\<forall>pid p. hget (dao_proposals d) pid = Some p \<longrightarrow>
     (\<exists>p'. hget (dao_proposals d') pid = Some p' \<and> advances p p'))"

lemma dao_grows_refl [simp]: "dao_grows d d"
  by (simp add: dao_grows_def)

lemma dao_grows_trans: "dao_grows d e \<Longrightarrow> dao_grows e f \<Longrightarrow> dao_grows d f"
  unfolding dao_grows_def by (meson advances_trans)

lemma dao_update:
  assumes "dao_ok n d" "hget (dao_proposals d) pid = Some p" "advances p p'" "votes_valid p'"
  shows "dao_ok (Suc n) (d\<lparr> dao_proposals := hput pid p' (dao_proposals d) \<rparr>)"
    and "dao_grows d (d\<lparr> dao_proposals := hput pid p' (dao_proposals d) \<rparr>)"
  using assms by (auto simp: dao_ok_def dao_grows_def)

lemma dao_same_proposals:
  assumes "dao_ok n d" "dao_proposals d' = dao_proposals d" "dao_next_id d' = dao_next_id d"
  shows "dao_ok (Suc n) d'" "dao_grows d d'"
  using assms by (auto simp: dao_ok_def dao_grows_def)

lemma create_grows:
  assumes "dao_ok n d" "Suc n < 2 ^ 64 - 1"
  shows "dao_ok (Suc n) (snd (create_proposal_by clock d title description options deadline creator))
    \<and> dao_grows d (snd (create_proposal_by clock d title description options deadline creator))"
proof (cases "options = [] \<or> deadline \<le> get_now clock d")
  case True
  then have "snd (create_proposal_by clock d title description options deadline creator) = d"
    by (auto simp: create_proposal_by_def Let_def)
  then show ?thesis using dao_same_proposals [OF assms(1)] by simp
next
  case False
  let ?pid = "''prop_'' @ nat_dec (unat (dao_next_id d))"
  have next_id: "unat (dao_next_id d + 1) = unat (dao_next_id d) + 1"
    using assms by (subst unat_add_exact) (simp_all add: dao_ok_def)
  have "hget (dao_proposals d) ?pid = None"
  proof (rule ccontr)
    assume "hget (dao_proposals d) ?pid \<noteq> None"
    then obtain p where "hget (dao_proposals d) ?pid = Some p" by blast
    then obtain k where "k < unat (dao_next_id d)" "?pid = ''prop_'' @ nat_dec k"
      using assms(1) unfolding dao_ok_def by blast
    then show False by (simp add: nat_dec_inj)
  qed
  then have fresh: "hget (dao_proposals d) pid = Some p \<Longrightarrow> pid \<noteq> ?pid" for pid p by auto
  let ?p = "\<lparr> pr_id = ?pid, pr_title = title, pr_description = description, pr_options = options,
             pr_deadline = deadline, pr_creator = creator, pr_status = ProposalActive, pr_votes = [] \<rparr>"
  have new: "snd (create_proposal_by clock d title description options deadline creator) =
      d\<lparr> dao_next_id := dao_next_id d + 1, dao_proposals := hput ?pid ?p (dao_proposals d) \<rparr>"
    using False by (simp add: create_proposal_by_def Let_def)
  have "votes_valid ?p" by (simp add: votes_valid_def)
  then have "dao_ok (Suc n) (d\<lparr> dao_next_id := dao_next_id d + 1, dao_proposals := hput ?pid ?p (dao_proposals d) \<rparr>)"
    using assms(1) next_id unfolding dao_ok_def by auto (meson less_SucI)
  moreover have "dao_grows d (d\<lparr> dao_next_id := dao_next_id d + 1, dao_proposals := hput ?pid ?p (dao_proposals d) \<rparr>)"
    using fresh by (auto simp: dao_grows_def)
  ultimately show ?thesis unfolding new by blast
qed

lemma dao_step_ok:
  assumes "dao_ok n d" "Suc n < 2 ^ 64 - 1"
  shows "dao_ok (Suc n) (dao_step s d) \<and> dao_grows d (dao_step s d)"
proof -
  have upd: "dao_ok (Suc n) (d\<lparr> dao_proposals := hput pid p' (dao_proposals d) \<rparr>)
      \<and> dao_grows d (d\<lparr> dao_proposals := hput pid p' (dao_proposals d) \<rparr>)"
    if "hget (dao_proposals d) pid = Some p" "advances p p'" "votes_valid p'" for pid p p'
    using dao_update [OF assms(1) that] by blast
  have idle: "dao_ok (Suc n) d" using dao_same_proposals [OF assms(1) refl refl] by blast
  have valid: "hget (dao_proposals d) pid = Some p \<Longrightarrow> votes_valid p" for pid p
    using assms(1) by (simp add: dao_ok_def)
  have vote: "dao_ok (Suc n) (snd (vote c d pid v opt cr)) \<and> dao_grows d (snd (vote c d pid v opt cr))" for c pid v opt cr
  proof (cases "is_ok (fst (vote c d pid v opt cr))")
    case True
    then obtain p where p: "hget (dao_proposals d) pid = Some p" "pr_status p = ProposalActive" "opt \<in> set (pr_options p)"
      "cr \<noteq> 0" "\<not> hmem (pr_votes p) v"
      by (auto simp: vote_def Let_def split: option.splits if_splits)
    moreover have "snd (vote c d pid v opt cr) =
        d\<lparr> dao_proposals := hput pid (p\<lparr> pr_votes := hput v (opt, cr) (pr_votes p) \<rparr>) (dao_proposals d) \<rparr>"
      using True p by (auto simp: vote_def Let_def split: if_splits)
    ultimately show ?thesis
      using upd [OF p(1), of "p\<lparr> pr_votes := hput v (opt, cr) (pr_votes p) \<rparr>"] valid [OF p(1)]
      by (simp add: advances_def votes_valid_def hmem_def)
  next
    case False
    then have "snd (vote c d pid v opt cr) = d" by (auto simp: vote_def Let_def split: option.splits if_splits)
    then show ?thesis using idle by simp
  qed
  have status: "advances p (p\<lparr> pr_status := st \<rparr>) \<and> votes_valid (p\<lparr> pr_status := st \<rparr>)"
    if "pr_status p = ProposalActive" "votes_valid p" for p st
    using that by (simp add: advances_def votes_valid_def)
  have exec: "dao_ok (Suc n) (snd (execute_proposal c d pid)) \<and> dao_grows d (snd (execute_proposal c d pid))" for c pid
    using idle upd status valid by (auto simp: execute_proposal_def Let_def split: option.split)
  have cancel: "dao_ok (Suc n) (snd (cancel_proposal_by c d pid u)) \<and> dao_grows d (snd (cancel_proposal_by c d pid u))" for c pid u
    using idle upd status valid by (auto simp: cancel_proposal_by_def Let_def split: option.split)
  obtain c op where s: "s = (c, op)" by force
  show ?thesis
  proof (cases op)
    case (DaoUser u)
    then show ?thesis using s dao_same_proposals [OF assms(1)] by (simp add: set_user_def)
  next
    case (DaoMock t)
    then show ?thesis using s dao_same_proposals [OF assms(1)] by (cases t) (simp_all add: set_mock_time_def clear_mock_time_def)
  next
    case (DaoCreate title description options deadline cr)
    then show ?thesis using s create_grows [OF assms] by (cases cr) (simp_all add: create_proposal_def)
  next
    case (DaoCancel pid cr)
    then show ?thesis using s cancel by (cases cr) (simp_all add: cancel_proposal_def)
  qed (use s vote exec in simp_all)
qed

lemma dao_run_ok:
  "dao_ok n d \<Longrightarrow> n + length steps < 2 ^ 64 - 1 \<Longrightarrow>
     dao_ok (n + length steps) (dao_run steps d) \<and> dao_grows d (dao_run steps d)"
proof (induction steps arbitrary: n d)
  case Nil
  then show ?case by (simp add: dao_run_def)
next
  case (Cons s steps)
  have one: "dao_ok (Suc n) (dao_step s d)" "dao_grows d (dao_step s d)"
    using dao_step_ok [OF Cons.prems(1), of s] Cons.prems(2) by simp_all
  then show ?case using Cons.IH [OF one(1)] Cons.prems(2) dao_grows_trans by (auto simp: dao_run_def)
qed

text \<open>Over fewer than \<open>2 ^ 64 - 1\<close> operations a proposal keeps its options, deadline and creator, an executed or
  canceled one never changes again, a recorded vote is never changed or lost, and every vote gives positive credits
  to one of the options.\<close>

theorem proposal_life:
  assumes "d = dao_run before dao_new" and "d' = dao_run later d" and "length before + length later < 2 ^ 64 - 1"
    and "hget (dao_proposals d) pid = Some p"
  shows "\<exists>p'. hget (dao_proposals d') pid = Some p'
    \<and> pr_options p' = pr_options p \<and> pr_deadline p' = pr_deadline p \<and> pr_creator p' = pr_creator p
    \<and> (pr_status p = ProposalActive \<or> p' = p)
    \<and> (\<forall>v x. hget (pr_votes p) v = Some x \<longrightarrow> hget (pr_votes p') v = Some x)
    \<and> (\<forall>v opt c. hget (pr_votes p') v = Some (opt, c) \<longrightarrow> opt \<in> set (pr_options p) \<and> c \<noteq> 0)"
proof -
  have "dao_ok 0 dao_new" by (simp add: dao_ok_def dao_new_def)
  then have d: "dao_ok (length before) d" using dao_run_ok [of 0 dao_new before] assms(1,3) by simp
  have "dao_ok (length before + length later) d'" "dao_grows d d'"
    using dao_run_ok [OF d, of later] assms(2,3) by simp_all
  then obtain p' where p': "hget (dao_proposals d') pid = Some p'" "advances p p'" "votes_valid p'"
    using assms(4) unfolding dao_grows_def dao_ok_def by blast
  then show ?thesis by (auto simp: advances_def votes_valid_def)
qed

lemma proposal_life_witness:
  "let d = dao_run [(0, DaoCreate ''t'' ''d'' [''yes'', ''no''] 9 None), (1, DaoVote ''prop_1'' ''v'' ''yes'' 3)] dao_new;
       d' = dao_run [(2, DaoVote ''prop_1'' ''v'' ''no'' 5), (9, DaoExecute ''prop_1'')] d in
   (\<exists>p'. hget (dao_proposals d') ''prop_1'' = Some p' \<and> hget (pr_votes p') ''v'' = Some (''yes'', 3))"
proof -
  let ?b = "[(0, DaoCreate ''t'' ''d'' [''yes'', ''no''] 9 None), (1, DaoVote ''prop_1'' ''v'' ''yes'' 3)]"
  let ?l = "[(2, DaoVote ''prop_1'' ''v'' ''no'' 5), (9, DaoExecute ''prop_1'')]"
  have id: "nat_dec (Suc 0) = ''1''" by (subst nat_dec.simps) code_simp
  let ?p = "\<lparr> pr_id = ''prop_1'', pr_title = ''t'', pr_description = ''d'', pr_options = [''yes'', ''no''], pr_deadline = 9,
     pr_creator = ''creator_1'', pr_status = ProposalActive, pr_votes = [(''v'', ''yes'', 3)] \<rparr>"
  have p: "hget (dao_proposals (dao_run ?b dao_new)) ''prop_1'' = Some ?p"
    by (simp add: dao_run_def dao_new_def create_proposal_def create_proposal_by_def get_now_def vote_def Let_def id hmem_def word_le_nat_alt)
  show ?thesis unfolding Let_def using proposal_life [OF refl refl _ p, of ?l] by auto
qed

end
