(* ===== verification/MerkleProofs.thy ===== *)
theory MerkleProofs
  imports Prelude
begin

text \<open>The Merkle trees of the market (\<open>src/crates/xavier-market/src/merkle.rs\<close>): roots, inclusion proofs and the
  plan of an anchor. SHA-256 (\<open>sha\<close>) and the hexadecimal encoder and decoder (\<open>enc\<close>, \<open>dec\<close>) are arguments.\<close>

definition DEFAULT_CHAIN_ID :: "64 word" where
  "DEFAULT_CHAIN_ID = 80002"

type_synonym digest = "8 word list"

definition leaf_hash :: "(8 word list \<Rightarrow> digest) \<Rightarrow> (string \<Rightarrow> 8 word list option) \<Rightarrow> string \<Rightarrow> digest option" where
  "leaf_hash sha dec leaf_hex =
     (case dec leaf_hex of
        None \<Rightarrow> None
      | Some leaf_bytes \<Rightarrow> Some (sha (bytes_of ''swal-merkle-leaf-v1:'' @ leaf_bytes)))"

definition leaf_hash_hex ::
  "(8 word list \<Rightarrow> digest) \<Rightarrow> (digest \<Rightarrow> string) \<Rightarrow> (string \<Rightarrow> 8 word list option) \<Rightarrow> string \<Rightarrow> string option"
where
  "leaf_hash_hex sha enc dec leaf_hex = map_option enc (leaf_hash sha dec leaf_hex)"

definition node_hash :: "(8 word list \<Rightarrow> digest) \<Rightarrow> digest \<Rightarrow> digest \<Rightarrow> digest" where
  "node_hash sha left right = sha (bytes_of ''swal-merkle-node-v1:'' @ left @ right)"

text \<open>One round of the loop over \<open>chunks(2)\<close>; a last chunk of one is paired with itself.\<close>

fun next_level :: "(8 word list \<Rightarrow> digest) \<Rightarrow> digest list \<Rightarrow> digest list" where
  "next_level sha [] = []"
| "next_level sha [x] = [node_hash sha x x]"
| "next_level sha (x # y # rest) = node_hash sha x y # next_level sha rest"

lemma length_next_level: "length (next_level sha level) = (length level + 1) div 2"
  by (induction sha level rule: next_level.induct) auto

function root_loop :: "(8 word list \<Rightarrow> digest) \<Rightarrow> digest list \<Rightarrow> digest list" where
  "root_loop sha level = (if length level > 1 then root_loop sha (next_level sha level) else level)"
  by pat_completeness auto

termination root_loop
  by (relation "measure (\<lambda>(sha, level). length level)") (auto simp: length_next_level)

declare root_loop.simps [simp del]

definition merkle_root ::
  "(8 word list \<Rightarrow> digest) \<Rightarrow> (digest \<Rightarrow> string) \<Rightarrow> (string \<Rightarrow> 8 word list option) \<Rightarrow> string list \<Rightarrow> string option"
where
  "merkle_root sha enc dec leaves =
     (if leaves = [] then None
      else
        (case those (map (leaf_hash sha dec) leaves) of
           None \<Rightarrow> None
         | Some level \<Rightarrow>
             (case root_loop sha level of
                [] \<Rightarrow> None
              | root # _ \<Rightarrow> Some (enc root))))"

record proof_step =
  ps_sibling :: string
  ps_sibling_is_left :: bool

definition sibling_index :: "nat \<Rightarrow> nat \<Rightarrow> nat" where
  "sibling_index len i = (if even i then (if i + 1 < len then i + 1 else i) else i - 1)"

function proof_loop :: "(8 word list \<Rightarrow> digest) \<Rightarrow> (digest \<Rightarrow> string) \<Rightarrow> digest list \<Rightarrow> nat \<Rightarrow> proof_step list" where
  "proof_loop sha enc level i =
     (if length level > 1 then
        \<lparr> ps_sibling = enc (level ! sibling_index (length level) i), ps_sibling_is_left = odd i \<rparr>
          # proof_loop sha enc (next_level sha level) (i div 2)
      else [])"
  by pat_completeness auto

termination proof_loop
  by (relation "measure (\<lambda>(sha, enc, level, i). length level)") (auto simp: length_next_level)

declare proof_loop.simps [simp del]

definition merkle_proof ::
  "(8 word list \<Rightarrow> digest) \<Rightarrow> (digest \<Rightarrow> string) \<Rightarrow> (string \<Rightarrow> 8 word list option) \<Rightarrow> string list \<Rightarrow> nat \<Rightarrow>
     proof_step list option"
where
  "merkle_proof sha enc dec leaves index =
     (if index \<ge> length leaves \<or> leaves = [] then None
      else map_option (\<lambda>level. proof_loop sha enc level index) (those (map (leaf_hash sha dec) leaves)))"

definition decode_32_bytes :: "(string \<Rightarrow> 8 word list option) \<Rightarrow> string \<Rightarrow> digest option" where
  "decode_32_bytes dec hex_str =
     (case dec hex_str of None \<Rightarrow> None | Some bytes \<Rightarrow> if length bytes = 32 then Some bytes else None)"

fun climb ::
  "(8 word list \<Rightarrow> digest) \<Rightarrow> (string \<Rightarrow> 8 word list option) \<Rightarrow> digest \<Rightarrow> proof_step list \<Rightarrow> digest option"
where
  "climb sha dec current_hash [] = Some current_hash"
| "climb sha dec current_hash (step # steps) =
     (case decode_32_bytes dec (ps_sibling step) of
        None \<Rightarrow> None
      | Some sibling \<Rightarrow>
          climb sha dec
            (if ps_sibling_is_left step then node_hash sha sibling current_hash else node_hash sha current_hash sibling)
            steps)"

definition verify_proof ::
  "(8 word list \<Rightarrow> digest) \<Rightarrow> (string \<Rightarrow> 8 word list option) \<Rightarrow> string \<Rightarrow> proof_step list \<Rightarrow> string \<Rightarrow> bool"
where
  "verify_proof sha dec leaf_hex steps root_hex =
     (case leaf_hash sha dec leaf_hex of
        None \<Rightarrow> False
      | Some h \<Rightarrow>
          (case decode_32_bytes dec root_hex of
             None \<Rightarrow> False
           | Some target_root \<Rightarrow> climb sha dec h steps = Some target_root))"

record anchor_plan =
  ap_root :: string
  ap_leaf_count :: nat
  ap_chain_id :: "64 word"
  ap_dry_run :: bool
  ap_tx :: "string option"

definition dry_run_plan ::
  "(8 word list \<Rightarrow> digest) \<Rightarrow> (digest \<Rightarrow> string) \<Rightarrow> (string \<Rightarrow> 8 word list option) \<Rightarrow> string list \<Rightarrow> anchor_plan option"
where
  "dry_run_plan sha enc dec leaves =
     map_option (\<lambda>root. \<lparr> ap_root = root, ap_leaf_count = length leaves, ap_chain_id = DEFAULT_CHAIN_ID,
                         ap_dry_run = True, ap_tx = None \<rparr>)
       (merkle_root sha enc dec leaves)"

section \<open>Proofs of inclusion\<close>

lemma next_level_nth:
  "j < length (next_level sha level) \<Longrightarrow>
     next_level sha level ! j =
       node_hash sha (level ! (2 * j)) (if 2 * j + 1 < length level then level ! (2 * j + 1) else level ! (2 * j))"
proof (induction sha level arbitrary: j rule: next_level.induct)
  case (3 sha x y rest)
  then show ?case by (cases j) auto
qed auto

lemma next_level_parent:
  assumes "i < length level"
  shows "next_level sha level ! (i div 2) =
     (if odd i then node_hash sha (level ! sibling_index (length level) i) (level ! i)
      else node_hash sha (level ! i) (level ! sibling_index (length level) i))"
proof -
  have lt: "i div 2 < length (next_level sha level)" using assms by (simp add: length_next_level)
  show ?thesis
  proof (cases "odd i")
    case True
    then obtain k where "i = 2 * k + 1" by (rule oddE)
    then show ?thesis using assms unfolding next_level_nth [OF lt] by (simp add: sibling_index_def)
  next
    case False
    then obtain k where "i = 2 * k" by (auto elim: evenE)
    then show ?thesis using assms unfolding next_level_nth [OF lt] by (simp add: sibling_index_def)
  qed
qed

lemma sibling_in_range: "i < len \<Longrightarrow> 1 < len \<Longrightarrow> sibling_index len i < len"
  by (auto simp: sibling_index_def)

lemma digests_next_level:
  assumes "\<And>b. length (sha b) = 32"
  shows "\<forall>h\<in>set (next_level sha level). length h = 32"
proof -
  have "\<forall>b. length (sha b) = 32" using assms by blast
  then show ?thesis by (induction sha level rule: next_level.induct) (auto simp: node_hash_def)
qed

lemma climb_proof_loop:
  assumes "\<And>b. length b = 32 \<Longrightarrow> dec (enc b) = Some b" and sha: "\<And>b. length (sha b) = 32"
    and "\<forall>h\<in>set level. length h = 32" and "i < length level"
  shows "climb sha dec (level ! i) (proof_loop sha enc level i) = Some (hd (root_loop sha level))"
  using assms(3,4)
proof (induction "length level" arbitrary: level i rule: less_induct)
  case less
  show ?case
  proof (cases "1 < length level")
    case False
    then have "level = [level ! i]" using less.prems(2) by (cases level) auto
    then have "root_loop sha level = [level ! i]" by (subst root_loop.simps) (metis False)
    then show ?thesis using False by (subst proof_loop.simps) simp
  next
    case True
    let ?s = "level ! sibling_index (length level) i"
    have "length ?s = 32" using less.prems True sibling_in_range by (metis nth_mem)
    then have "decode_32_bytes dec (enc ?s) = Some ?s" by (simp add: decode_32_bytes_def assms(1))
    then have step: "climb sha dec (level ! i) (proof_loop sha enc level i) =
        climb sha dec (next_level sha level ! (i div 2)) (proof_loop sha enc (next_level sha level) (i div 2))"
      using True by (subst proof_loop.simps) (simp add: next_level_parent [OF less.prems(2)])
    have "root_loop sha level = root_loop sha (next_level sha level)" using True by (subst root_loop.simps) simp
    moreover have "length (next_level sha level) < length level" "i div 2 < length (next_level sha level)"
      using True less.prems(2) by (simp_all add: length_next_level)
    ultimately show ?thesis using step less.hyps digests_next_level [OF sha] by simp
  qed
qed

lemma root_loop_single: "level \<noteq> [] \<Longrightarrow> \<exists>h. root_loop sha level = [h]"
proof (induction sha level rule: root_loop.induct)
  case (1 sha level)
  show ?case
  proof (cases "1 < length level")
    case True
    then have "next_level sha level \<noteq> []" using length_next_level [of sha level] by auto
    then show ?thesis using 1(1) [OF True] True by (subst root_loop.simps) simp
  next
    case False
    then show ?thesis using 1(2) by (subst root_loop.simps) (cases level, auto)
  qed
qed

lemma root_loop_digest:
  assumes "\<And>b. length (sha b) = 32"
  shows "\<forall>h\<in>set level. length h = 32 \<Longrightarrow> \<forall>h\<in>set (root_loop sha level). length h = 32"
proof (induction "length level" arbitrary: level rule: less_induct)
  case less
  show ?case
  proof (cases "1 < length level")
    case True
    then have "length (next_level sha level) < length level" by (simp add: length_next_level)
    then show ?thesis using True less.hyps digests_next_level [OF assms] by (subst root_loop.simps) simp
  next
    case False
    then show ?thesis using less.prems by (subst root_loop.simps) simp
  qed
qed

lemma those_Some: "those xs = Some ys \<longleftrightarrow> xs = map Some ys"
proof (induction xs arbitrary: ys)
  case (Cons x xs)
  then show ?case by (cases x; cases ys) (auto split: option.split)
qed auto

text \<open>C35: For every list of leaves that decode, the proof of any position is found and is accepted for its leaf
  against the root, provided the hexadecimal decoder undoes the encoder on digests of 32 bytes.\<close>

theorem merkle_proof_accepted:
  assumes "\<forall>b. length b = 32 \<longrightarrow> dec (enc b) = Some b" and "\<forall>b. length (sha b) = 32"
    and "\<forall>l\<in>set leaves. dec l \<noteq> None" and "i < length leaves"
  shows "\<exists>root steps. merkle_root sha enc dec leaves = Some root \<and> merkle_proof sha enc dec leaves i = Some steps
     \<and> verify_proof sha dec (leaves ! i) steps root"
proof -
  have "\<forall>l\<in>set leaves. \<exists>h. leaf_hash sha dec l = Some h" using assms(3) by (auto simp: leaf_hash_def)
  then obtain level where level: "map (leaf_hash sha dec) leaves = map Some level"
    using all_some by blast
  then have t: "those (map (leaf_hash sha dec) leaves) = Some level" by (simp add: those_Some)
  have len: "length level = length leaves" using level by (metis length_map)
  have ith: "leaf_hash sha dec (leaves ! i) = Some (level ! i)"
    using level assms(4) len by (metis nth_map)
  have "length (level ! j) = 32" if "j < length level" for j
  proof -
    have "leaf_hash sha dec (leaves ! j) = Some (level ! j)" using level that len by (metis nth_map)
    then have "\<exists>b. sha b = level ! j" by (auto simp: leaf_hash_def split: option.splits)
    then obtain b where "level ! j = sha b" by metis
    then show ?thesis using assms(2) by simp
  qed
  then have dig: "\<forall>h\<in>set level. length h = 32" by (metis in_set_conv_nth)
  have sha: "\<And>b. length (sha b) = 32" using assms(2) by blast
  have "level \<noteq> []" using len assms(4) by auto
  then obtain h where h: "root_loop sha level = [h]" using root_loop_single by blast
  then have "length h = 32" using root_loop_digest [of sha level] sha dig by simp
  then have "decode_32_bytes dec (enc h) = Some h" using assms(1) by (simp add: decode_32_bytes_def)
  then have "verify_proof sha dec (leaves ! i) (proof_loop sha enc level i) (enc h)"
    using climb_proof_loop [of dec enc sha level i] sha dig assms(1,4) len ith h by (simp add: verify_proof_def)
  moreover have "merkle_root sha enc dec leaves = Some (enc h)" using t h assms(4) by (auto simp: merkle_root_def)
  moreover have "merkle_proof sha enc dec leaves i = Some (proof_loop sha enc level i)"
    using t assms(4) by (auto simp: merkle_proof_def)
  ultimately show ?thesis by blast
qed

text \<open>Decoders for the witnesses: a text is its bytes.\<close>

definition raw_enc :: "digest \<Rightarrow> string" where
  "raw_enc b = map (\<lambda>w. char_of (unat w)) b"

definition raw_dec :: "string \<Rightarrow> 8 word list option" where
  "raw_dec s = Some (map (\<lambda>c. of_nat (of_char c)) s)"

lemma raw_dec_enc: "raw_dec (raw_enc b) = Some b"
proof -
  have "of_nat (of_char (char_of (unat w) :: char)) = w" for w :: "8 word"
  proof -
    have "unat w < 2 ^ LENGTH(8)" by (rule unsigned_less)
    then show ?thesis by (simp add: take_bit_nat_eq_self)
  qed
  then show ?thesis by (simp add: raw_dec_def raw_enc_def comp_def map_idI)
qed

lemma raw_dec_some: "raw_dec s \<noteq> None"
  by (simp add: raw_dec_def)

lemma merkle_proof_accepted_witness:
  "\<exists>root steps. merkle_root (\<lambda>b. replicate 32 (last b)) raw_enc raw_dec [''a'', ''b'', ''c''] = Some root
     \<and> merkle_proof (\<lambda>b. replicate 32 (last b)) raw_enc raw_dec [''a'', ''b'', ''c''] 2 = Some steps
     \<and> verify_proof (\<lambda>b. replicate 32 (last b)) raw_dec ([''a'', ''b'', ''c''] ! 2) steps root"
  by (rule merkle_proof_accepted) (simp_all add: raw_dec_enc raw_dec_some)

lemma next_level_append:
  "even (length xs) \<Longrightarrow> next_level sha (xs @ ys) = next_level sha xs @ next_level sha ys"
  by (induction sha xs rule: next_level.induct) auto

text \<open>The root does not determine the leaves: repeating the last of an odd number of at least three leaves
  leaves the root, and with it the anchored commitment, as it was.\<close>

theorem repeated_last_leaf_same_root:
  assumes "leaves \<noteq> []" and "even (length leaves)"
  shows "merkle_root sha enc dec (leaves @ [l]) = merkle_root sha enc dec (leaves @ [l, l])"
proof (cases "those (map (leaf_hash sha dec) (leaves @ [l]))")
  case None
  have "those (map (leaf_hash sha dec) (leaves @ [l, l])) = None"
  proof (rule ccontr)
    assume "those (map (leaf_hash sha dec) (leaves @ [l, l])) \<noteq> None"
    then obtain ys where "map (leaf_hash sha dec) (leaves @ [l, l]) = map Some ys" by (auto simp: those_Some)
    then have "map (leaf_hash sha dec) (leaves @ [l]) = map Some (butlast ys)"
      by (metis append.assoc append_Cons append_Nil butlast_snoc map_butlast)
    then show False using None by (metis option.distinct(1) those_Some)
  qed
  then show ?thesis using None by (simp add: merkle_root_def)
next
  case (Some ys)
  then have ys: "map (leaf_hash sha dec) (leaves @ [l]) = map Some ys" by (simp add: those_Some)
  then obtain zs h where zs: "ys = zs @ [h]" "length zs = length leaves" "leaf_hash sha dec l = Some h"
    "map (leaf_hash sha dec) leaves = map Some zs"
    by (cases ys rule: rev_cases) (auto dest: map_eq_imp_length_eq)
  then have two: "those (map (leaf_hash sha dec) (leaves @ [l, l])) = Some (zs @ [h, h])" by (simp add: those_Some)
  have ne: "zs \<noteq> []" using assms(1) zs(2) by auto
  have "next_level sha (zs @ [h]) = next_level sha (zs @ [h, h])"
    using assms(2) zs(2) by (simp add: next_level_append)
  then have "root_loop sha (zs @ [h]) = root_loop sha (zs @ [h, h])"
    using ne by (subst (1 2) root_loop.simps) (cases zs, auto)
  then show ?thesis using Some two zs(1) by (simp add: merkle_root_def)
qed

lemma repeated_last_leaf_same_root_witness:
  "merkle_root (\<lambda>b. replicate 32 (last b)) raw_enc raw_dec ([''a'', ''b''] @ [''c'']) =
   merkle_root (\<lambda>b. replicate 32 (last b)) raw_enc raw_dec ([''a'', ''b''] @ [''c'', ''c''])"
  by (rule repeated_last_leaf_same_root) simp_all

end
