(* ===== verification/TextCodes.thy ===== *)
theory TextCodes
  imports Prelude
begin

text \<open>The text forms of bytes: \<open>src/crates/xavier-crypto/src/lib.rs\<close> (hexadecimal and base64),
  \<open>src/src/utils/crypto.rs\<close> (a second hexadecimal codec) and the node identifiers of
  \<open>src/src/domain/cycle_breaks/w30_05.rs\<close> (base32 of a hash). Shown: decoding inverts encoding, where the
  two hexadecimal decoders differ, and that the identifier of a key is one the parser returns unchanged.
  SHA-256 is an argument.\<close>

unbundle bit_operations_syntax

section \<open>Hexadecimal\<close>

text \<open>\<open>HEX_CHARS\<close>.\<close>

definition hex_chars :: string where
  "hex_chars = ''0123456789abcdef''"

definition hex_encode :: "8 word list \<Rightarrow> string" where
  "hex_encode bytes = concat (map (\<lambda>b. [hex_chars ! unat (drop_bit 4 b), hex_chars ! unat (b AND 0x0f)]) bytes)"

definition hex_val :: "char \<Rightarrow> 8 word option" where
  "hex_val c = (let b = of_char c :: nat in
     if 48 \<le> b \<and> b \<le> 57 then Some (of_nat (b - 48))
     else if 97 \<le> b \<and> b \<le> 102 then Some (of_nat (b - 97 + 10))
     else if 65 \<le> b \<and> b \<le> 70 then Some (of_nat (b - 65 + 10))
     else None)"

fun hex_decode_loop :: "string \<Rightarrow> (8 word list, string) result" where
  "hex_decode_loop (c # d # rest) =
     (case hex_val c of
        None \<Rightarrow> Err (''invalid hex char '' @ [CHR 0x27, c, CHR 0x27])
      | Some hi \<Rightarrow> (case hex_val d of
          None \<Rightarrow> Err (''invalid hex char '' @ [CHR 0x27, d, CHR 0x27])
        | Some lo \<Rightarrow> (case hex_decode_loop rest of
            Err e \<Rightarrow> Err e
          | Ok out \<Rightarrow> Ok ((push_bit 4 hi OR lo) # out))))"
| "hex_decode_loop _ = Ok []"

definition hex_decode :: "string \<Rightarrow> (8 word list, string) result" where
  "hex_decode hex_str =
     (if odd (length hex_str) then Err ''hex string must have even length'' else hex_decode_loop hex_str)"

text \<open>The codec of \<open>utils::crypto\<close>: the encoder pushes character by character, the decoder trims first and
  reports every bad character in the same way.\<close>

definition utils_hex_encode :: "8 word list \<Rightarrow> string" where
  "utils_hex_encode bytes = foldl (\<lambda>result byte.
     (result @ [hex_chars ! unat (drop_bit 4 byte)]) @ [hex_chars ! unat (byte AND 0xf)]) [] bytes"

definition char_to_nibble :: "char \<Rightarrow> (8 word, string) result" where
  "char_to_nibble c = (let b = of_char c :: nat in
     if 48 \<le> b \<and> b \<le> 57 then Ok (of_nat (b - 48))
     else if 97 \<le> b \<and> b \<le> 102 then Ok (of_nat (b - 97 + 10))
     else if 65 \<le> b \<and> b \<le> 70 then Ok (of_nat (b - 65 + 10))
     else Err ''invalid hex character'')"

fun utils_hex_pairs :: "string \<Rightarrow> (8 word list, string) result" where
  "utils_hex_pairs (c # d # rest) =
     (case char_to_nibble c of
        Err e \<Rightarrow> Err e
      | Ok high \<Rightarrow> (case char_to_nibble d of
          Err e \<Rightarrow> Err e
        | Ok low \<Rightarrow> (case utils_hex_pairs rest of
            Err e \<Rightarrow> Err e
          | Ok bytes \<Rightarrow> Ok ((push_bit 4 high OR low) # bytes))))"
| "utils_hex_pairs _ = Ok []"

definition utils_hex_decode :: "string \<Rightarrow> (8 word list, string) result" where
  "utils_hex_decode s = (let hex_str = trim s in
     if odd (length hex_str) then Err ''hex string must have even length'' else utils_hex_pairs hex_str)"

definition sha256_hex :: "(8 word list \<Rightarrow> 8 word list) \<Rightarrow> 8 word list \<Rightarrow> string" where
  "sha256_hex sha256 data = utils_hex_encode (sha256 data)"

lemma hex_val_chars: "n < 16 \<Longrightarrow> hex_val (hex_chars ! n) = Some (of_nat n)"
proof -
  have "list_all (\<lambda>n. hex_val (hex_chars ! n) = Some (of_nat n)) [0..<16]" by code_simp
  then show "n < 16 \<Longrightarrow> hex_val (hex_chars ! n) = Some (of_nat n)" by (simp add: list_all_iff)
qed

lemma char_to_nibble_eq:
  "char_to_nibble c = (case hex_val c of Some v \<Rightarrow> Ok v | None \<Rightarrow> Err ''invalid hex character'')"
  by (simp add: char_to_nibble_def hex_val_def Let_def)

lemma nibble_bounds: "unat (drop_bit 4 b) < 16" "unat (b AND 0x0f) < 16" for b :: "8 word"
proof -
  have "unat b < 2 ^ 8" using unsigned_less [of b] by simp
  then have "unat b div 16 < 16" by simp
  then show "unat (drop_bit 4 b) < 16" by (simp add: drop_bit_eq_div unat_div)
  show "unat (b AND 0x0f) < 16"
    using word_and_le1 [of b "0x0f"] by (simp add: word_le_nat_alt)
qed

lemma nibbles_join: "push_bit 4 (drop_bit 4 b) OR (b AND 0x0f) = b" for b :: "8 word"
proof -
  have "(0x0f :: 8 word) = mask 4" by (simp add: mask_eq_exp_minus_1)
  then show ?thesis by (auto simp: bit_eq_iff bit_simps)
qed

lemma nibble_words: "word_of_nat (unat (drop_bit 4 b)) = drop_bit 4 b"
  "word_of_nat (unat (b AND 0x0f)) = b AND 0x0f" for b :: "8 word"
  by simp_all

lemma bytes_of_inject: "bytes_of a = bytes_of b \<longleftrightarrow> a = b"
proof -
  have "inj (of_char :: char \<Rightarrow> 8 word)"
  proof (rule injI)
    fix c d :: char
    assume "(of_char c :: 8 word) = of_char d"
    then have "unat (of_nat (of_char c) :: 8 word) = unat (of_nat (of_char d) :: 8 word)"
      by (simp only: of_nat_of_char)
    then have "(of_char c :: nat) = of_char d"
      by (subst (asm) (1 2) unat_of_nat_small) simp_all
    then show "c = d" by simp
  qed
  then show ?thesis by (simp add: bytes_of_def inj_map_eq_map)
qed

lemma length_hex_encode [simp]: "length (hex_encode bs) = 2 * length bs"
  by (induction bs) (simp_all add: hex_encode_def)

lemma hex_encode_Cons:
  "hex_encode (b # bs) = hex_chars ! unat (drop_bit 4 b) # hex_chars ! unat (b AND 0x0f) # hex_encode bs"
  by (simp add: hex_encode_def)

lemma hex_decode_loop_encode: "hex_decode_loop (hex_encode bs) = Ok bs"
proof (induction bs)
  case (Cons b bs)
  then show ?case
    by (simp only: hex_encode_Cons hex_decode_loop.simps hex_val_chars [OF nibble_bounds(1)]
        hex_val_chars [OF nibble_bounds(2)] nibble_words option.case sum.case nibbles_join)
qed (simp add: hex_encode_def)

lemma utils_hex_encode_eq: "utils_hex_encode bs = hex_encode bs"
proof -
  have "foldl (\<lambda>result byte. (result @ [hex_chars ! unat (drop_bit 4 byte)]) @ [hex_chars ! unat (byte AND 0xf)]) acc bs
    = acc @ hex_encode bs" for acc
    by (induction bs arbitrary: acc) (simp_all add: hex_encode_def)
  from this [of "[]"] show ?thesis by (simp add: utils_hex_encode_def)
qed

lemma pairs_agree: "utils_hex_pairs s = Ok v \<longleftrightarrow> hex_decode_loop s = Ok v"
proof (induction s arbitrary: v rule: induct_list012)
  case (3 c d rest)
  have "utils_hex_pairs rest = Err e \<Longrightarrow> \<exists>e. hex_decode_loop rest = Err e" for e
    using "3.IH"(1) by (cases "hex_decode_loop rest") auto
  moreover have "hex_decode_loop rest = Err e \<Longrightarrow> \<exists>e. utils_hex_pairs rest = Err e" for e
    using "3.IH"(1) by (cases "utils_hex_pairs rest") auto
  ultimately show ?case
    using "3.IH"(1) by (fastforce simp: char_to_nibble_eq split: option.splits sum.splits)
qed simp_all

lemma trim_id: "list_all (\<lambda>c. \<not> ascii_space c) s \<Longrightarrow> trim s = s"
proof -
  assume a: "list_all (\<lambda>c. \<not> ascii_space c) s"
  have id: "dropWhile ascii_space t = t" if "set t \<subseteq> set s" for t
    using that a by (cases t) (auto simp: list_all_iff)
  show ?thesis by (simp add: trim_def id)
qed

lemma hex_encode_set: "set (hex_encode bs) \<subseteq> set hex_chars"
proof -
  have "n < 16 \<Longrightarrow> hex_chars ! n \<in> set hex_chars" for n by (rule nth_mem) (simp add: hex_chars_def)
  then show ?thesis using nibble_bounds by (induction bs) (auto simp: hex_encode_def)
qed

lemma hex_encode_no_space: "list_all (\<lambda>c. \<not> ascii_space c) (hex_encode bs)"
proof -
  have "list_all (\<lambda>c. \<not> ascii_space c) hex_chars" by code_simp
  then show ?thesis using hex_encode_set [of bs] by (auto simp: list_all_iff)
qed

text \<open>Both hexadecimal codecs write the same text and read it back to the bytes; the second decoder accepts
  exactly what the first accepts once white space at the ends is removed.\<close>

theorem hex_roundtrip:
  "hex_decode (hex_encode bs) = Ok bs \<and> utils_hex_encode bs = hex_encode bs
   \<and> utils_hex_decode (hex_encode bs) = Ok bs
   \<and> (utils_hex_decode s = Ok v \<longleftrightarrow> hex_decode (trim s) = Ok v)"
proof -
  have agree: "utils_hex_decode s = Ok v \<longleftrightarrow> hex_decode (trim s) = Ok v" for s v
    by (simp add: utils_hex_decode_def hex_decode_def Let_def pairs_agree)
  have "hex_decode (hex_encode bs) = Ok bs"
    by (simp add: hex_decode_def hex_decode_loop_encode)
  then show ?thesis by (simp add: agree utils_hex_encode_eq trim_id [OF hex_encode_no_space])
qed

section \<open>Base64\<close>

text \<open>\<open>slice::chunks\<close>.\<close>

function chunks :: "nat \<Rightarrow> 'a list \<Rightarrow> 'a list list" where
  "chunks n xs = (if xs = [] \<or> n = 0 then [] else take n xs # chunks n (drop n xs))"
  by pat_completeness auto
termination by (relation "measure (length \<circ> snd)") auto

declare chunks.simps [simp del]

lemma chunks_Nil [simp]: "chunks n [] = []"
  by (simp add: chunks.simps)

lemma chunks_append: "length xs = n \<Longrightarrow> 0 < n \<Longrightarrow> chunks n (xs @ ys) = xs # chunks n ys"
  by (subst chunks.simps) auto

lemma chunks_short: "0 < length xs \<Longrightarrow> length xs \<le> n \<Longrightarrow> chunks n xs = [xs]"
  by (subst chunks.simps) (cases n; auto)

definition b64_chars :: string where
  "b64_chars = ''ABCDEFGHIJKLMNOPQRSTUVWXYZabcdefghijklmnopqrstuvwxyz0123456789+/''"

text \<open>One round of the encoder, on up to three bytes.\<close>

definition b64_group :: "8 word list \<Rightarrow> string" where
  "b64_group chunk =
     (let b0 = chunk ! 0;
          b1 = (if 1 < length chunk then chunk ! 1 else 0);
          b2 = (if 2 < length chunk then chunk ! 2 else 0)
      in [b64_chars ! unat (drop_bit 2 b0 AND 0x3f),
          b64_chars ! unat ((push_bit 4 b0 OR drop_bit 4 b1) AND 0x3f),
          if 1 < length chunk then b64_chars ! unat ((push_bit 2 b1 OR drop_bit 6 b2) AND 0x3f) else CHR ''='',
          if 2 < length chunk then b64_chars ! unat (b2 AND 0x3f) else CHR ''=''])"

definition base64_encode :: "8 word list \<Rightarrow> string" where
  "base64_encode data = (if data = [] then [] else concat (map b64_group (chunks 3 data)))"

definition trim_end_char :: "char \<Rightarrow> string \<Rightarrow> string" where
  "trim_end_char c s = rev (dropWhile (\<lambda>x. x = c) (rev s))"

definition b64_val :: "char \<Rightarrow> 8 word option" where
  "b64_val c = (let b = of_char c :: nat in
     if 65 \<le> b \<and> b \<le> 90 then Some (of_nat (b - 65))
     else if 97 \<le> b \<and> b \<le> 122 then Some (of_nat (b - 97 + 26))
     else if 48 \<le> b \<and> b \<le> 57 then Some (of_nat (b - 48 + 52))
     else if c = CHR ''+'' then Some 62
     else if c = CHR ''/'' then Some 63
     else None)"

text \<open>One round of the decoder, on up to four characters.\<close>

definition b64_quad :: "string \<Rightarrow> 8 word list option" where
  "b64_quad chunk =
     (if length chunk < 2 then None
      else case those (map b64_val chunk) of
        None \<Rightarrow> None
      | Some buf \<Rightarrow>
          if length chunk = 4 then
            (let triple = push_bit 18 (ucast (buf ! 0)) OR push_bit 12 (ucast (buf ! 1))
                            OR push_bit 6 (ucast (buf ! 2)) OR (ucast (buf ! 3) :: 32 word)
             in Some [ucast (drop_bit 16 triple), ucast (drop_bit 8 triple), ucast triple])
          else if length chunk = 3 then
            Some [push_bit 2 (buf ! 0) OR drop_bit 4 (buf ! 1), push_bit 4 (buf ! 1 AND 0x0f) OR drop_bit 2 (buf ! 2)]
          else Some [push_bit 2 (buf ! 0) OR drop_bit 4 (buf ! 1)])"

fun b64_loop :: "string list \<Rightarrow> 8 word list option" where
  "b64_loop [] = Some []"
| "b64_loop (chunk # rest) =
     (case b64_quad chunk of
        None \<Rightarrow> None
      | Some bytes \<Rightarrow> (case b64_loop rest of None \<Rightarrow> None | Some out \<Rightarrow> Some (bytes @ out)))"

definition base64_decode :: "string \<Rightarrow> 8 word list option" where
  "base64_decode s = (let input = trim_end_char CHR ''='' s in
     if input = [] then Some [] else b64_loop (chunks 4 input))"

lemma b64_val_chars: "n < 64 \<Longrightarrow> b64_val (b64_chars ! n) = Some (of_nat n)"
proof -
  have "map b64_val b64_chars = map (\<lambda>n. Some (of_nat n)) [0..<64]"
    by (simp add: b64_chars_def b64_val_def upt_rec)
  moreover have "length b64_chars = 64" by (simp add: b64_chars_def)
  ultimately show "n < 64 \<Longrightarrow> b64_val (b64_chars ! n) = Some (of_nat n)"
    by (metis (no_types, lifting) add_0 diff_zero length_upt nth_map nth_upt)
qed

lemma six_bits: "unat (b AND 0x3f) < 64" for b :: "8 word"
  using word_and_le1 [of b "0x3f"] by (simp add: word_le_nat_alt)

lemma b64_val_six: "b64_val (b64_chars ! unat (b AND 0x3f)) = Some (b AND 0x3f)" for b :: "8 word"
  by (subst b64_val_chars [OF six_bits]) simp

lemma b64_char_no_pad: "b64_chars ! unat (b AND 0x3f) \<noteq> CHR ''=''" for b :: "8 word"
proof
  assume "b64_chars ! unat (b AND 0x3f) = CHR ''=''"
  then have "b64_val CHR ''='' = Some (b AND 0x3f)" using b64_val_six [of b] by simp
  then show False by (simp add: b64_val_def)
qed

lemma mask_words: "(0x3f :: 8 word) = mask 6" "(0x0f :: 8 word) = mask 4"
  by (simp_all add: mask_eq_exp_minus_1)

lemma byte_eqI:
  fixes a b :: "8 word"
  assumes "bit a 0 = bit b 0" "bit a 1 = bit b 1" "bit a 2 = bit b 2" "bit a 3 = bit b 3"
    "bit a 4 = bit b 4" "bit a 5 = bit b 5" "bit a 6 = bit b 6" "bit a 7 = bit b 7"
  shows "a = b"
proof (rule bit_word_eqI)
  fix n assume "n < LENGTH(8)"
  then have "n \<in> {0, 1, 2, 3, 4, 5, 6, 7}" by auto
  then show "bit a n = bit b n" using assms by auto
qed

text \<open>The bits a group writes, joined again.\<close>

lemma one_byte: "push_bit 2 (drop_bit 2 a AND 0x3f) OR drop_bit 4 ((push_bit 4 a OR drop_bit 4 b) AND 0x3f) = a"
  for a b :: "8 word"
  unfolding mask_words by (rule byte_eqI) (simp_all add: bit_simps)

lemma two_bytes: "push_bit 4 (((push_bit 4 a OR drop_bit 4 b) AND 0x3f) AND 0x0f)
    OR drop_bit 2 ((push_bit 2 b OR drop_bit 6 c) AND 0x3f) = b"
  for a b c :: "8 word"
  unfolding mask_words by (rule byte_eqI) (simp_all add: bit_simps)

lemma quad_two: "b64_val c = Some x \<Longrightarrow> b64_val d = Some y \<Longrightarrow>
    b64_quad [c, d] = Some [push_bit 2 x OR drop_bit 4 y]"
  by (simp add: b64_quad_def)

lemma quad_three: "b64_val c = Some x \<Longrightarrow> b64_val d = Some y \<Longrightarrow> b64_val e = Some z \<Longrightarrow>
    b64_quad [c, d, e] = Some [push_bit 2 x OR drop_bit 4 y, push_bit 4 (y AND 0x0f) OR drop_bit 2 z]"
  by (simp add: b64_quad_def)

lemma byte_high_bits: "8 \<le> n \<Longrightarrow> \<not> bit b n" for b :: "8 word"
  by (auto dest: bit_imp_le_length)

definition b64_triple :: "8 word \<Rightarrow> 8 word \<Rightarrow> 8 word \<Rightarrow> 8 word \<Rightarrow> 32 word" where
  "b64_triple x y z w = push_bit 18 (ucast x) OR push_bit 12 (ucast y) OR push_bit 6 (ucast z) OR ucast w"

lemma triple_bytes:
  fixes a b c :: "8 word"
  defines "triple \<equiv> b64_triple (drop_bit 2 a AND 0x3f) ((push_bit 4 a OR drop_bit 4 b) AND 0x3f)
     ((push_bit 2 b OR drop_bit 6 c) AND 0x3f) (c AND 0x3f)"
  shows "ucast (drop_bit 16 triple) = a" and "ucast (drop_bit 8 triple) = b" and "ucast triple = c"
  unfolding triple_def mask_words b64_triple_def
  by (rule byte_eqI; simp add: bit_simps byte_high_bits; fail)+

lemma quad_four: "b64_val c = Some x \<Longrightarrow> b64_val d = Some y \<Longrightarrow> b64_val e = Some z \<Longrightarrow> b64_val f = Some w \<Longrightarrow>
    b64_quad [c, d, e, f] = Some [ucast (drop_bit 16 (b64_triple x y z w)), ucast (drop_bit 8 (b64_triple x y z w)),
      ucast (b64_triple x y z w)]"
  by (simp add: b64_quad_def b64_triple_def Let_def)

lemma quad_group_three: "b64_quad (b64_group [a, b, c]) = Some [a, b, c]"
proof -
  have "b64_group [a, b, c] = [b64_chars ! unat (drop_bit 2 a AND 0x3f),
      b64_chars ! unat ((push_bit 4 a OR drop_bit 4 b) AND 0x3f),
      b64_chars ! unat ((push_bit 2 b OR drop_bit 6 c) AND 0x3f), b64_chars ! unat (c AND 0x3f)]"
    by (simp add: b64_group_def Let_def)
  then show ?thesis
    by (simp only: quad_four [OF b64_val_six b64_val_six b64_val_six b64_val_six] triple_bytes)
qed

text \<open>The last group, with the padding taken off.\<close>

lemma trim_end_char_snoc: "trim_end_char c (s @ [x]) = (if x = c then trim_end_char c s else s @ [x])"
  by (simp add: trim_end_char_def)

lemma trim_end_char_append:
  assumes "list_all (\<lambda>x. x \<noteq> c) xs"
  shows "trim_end_char c (xs @ ys) = xs @ trim_end_char c ys"
proof (induction ys rule: rev_induct)
  case Nil
  show ?case using assms
    by (cases xs rule: rev_cases) (simp_all add: trim_end_char_snoc, simp_all add: trim_end_char_def)
next
  case (snoc y ys)
  then show ?case
    using trim_end_char_snoc [of c "xs @ ys" y] trim_end_char_snoc [of c ys y] by simp
qed

lemma trim_end_pads [simp]: "trim_end_char c [] = []" "trim_end_char c [c] = []" "trim_end_char c [c, c] = []"
  by (simp_all add: trim_end_char_def)

lemma quad_group_last:
  "trim_end_char CHR ''='' (b64_group [a]) = take 2 (b64_group [a])"
  "b64_quad (take 2 (b64_group [a])) = Some [a]"
  "trim_end_char CHR ''='' (b64_group [a, b]) = take 3 (b64_group [a, b])"
  "b64_quad (take 3 (b64_group [a, b])) = Some [a, b]"
proof -
  have one: "b64_group [a] = [b64_chars ! unat (drop_bit 2 a AND 0x3f),
      b64_chars ! unat ((push_bit 4 a OR drop_bit 4 0) AND 0x3f)] @ [CHR ''='', CHR ''='']"
    by (simp add: b64_group_def Let_def)
  show "trim_end_char CHR ''='' (b64_group [a]) = take 2 (b64_group [a])"
    unfolding one by (subst trim_end_char_append) (simp_all add: b64_char_no_pad)
  have take2: "take 2 ([x, y] @ zs) = [x, y]" for x y :: char and zs by simp
  show "b64_quad (take 2 (b64_group [a])) = Some [a]"
    unfolding one take2 quad_two [OF b64_val_six b64_val_six] by (simp only: one_byte)
  have two: "b64_group [a, b] = [b64_chars ! unat (drop_bit 2 a AND 0x3f),
      b64_chars ! unat ((push_bit 4 a OR drop_bit 4 b) AND 0x3f),
      b64_chars ! unat ((push_bit 2 b OR drop_bit 6 0) AND 0x3f)] @ [CHR ''='']"
    by (simp add: b64_group_def Let_def)
  show "trim_end_char CHR ''='' (b64_group [a, b]) = take 3 (b64_group [a, b])"
    unfolding two by (subst trim_end_char_append) (simp_all add: b64_char_no_pad)
  have take3: "take 3 ([x, y, z] @ zs) = [x, y, z]" for x y z :: char and zs by simp
  show "b64_quad (take 3 (b64_group [a, b])) = Some [a, b]"
    unfolding two take3 quad_three [OF b64_val_six b64_val_six b64_val_six] by (simp only: one_byte two_bytes)
qed

lemma length_b64_group [simp]: "length (b64_group xs) = 4"
  by (simp add: b64_group_def Let_def)

lemma b64_group_three_no_pad: "list_all (\<lambda>x. x \<noteq> CHR ''='') (b64_group [a, b, c])"
  by (simp add: b64_group_def Let_def b64_char_no_pad)

lemma bytes_by_three:
  assumes "P []" and "\<And>a. P [a]" and "\<And>a b. P [a, b]" and "\<And>a b c bs. P bs \<Longrightarrow> P (a # b # c # bs)"
  shows "P (bs :: 'a list)"
proof (induction bs rule: length_induct)
  case (1 bs)
  then show ?case using assms
    by (cases bs rule: list.exhaust [OF _ list.exhaust]) (metis length_Cons lessI less_SucI list.exhaust)+
qed

lemma base64_encode_by_three:
  "base64_encode (a # b # c # bs) = b64_group [a, b, c] @ base64_encode bs"
  using chunks_append [of "[a, b, c]" 3 bs] by (simp add: base64_encode_def)

lemma base64_encode_short:
  "base64_encode [] = []" "base64_encode [a] = b64_group [a]" "base64_encode [a, b] = b64_group [a, b]"
  by (simp_all add: base64_encode_def chunks_short)

lemma b64_loop_encode: "b64_loop (chunks 4 (trim_end_char CHR ''='' (base64_encode bs))) = Some bs"
proof (induction bs rule: bytes_by_three)
  case (4 a b c bs)
  then show ?case
    by (simp add: base64_encode_by_three trim_end_char_append [OF b64_group_three_no_pad] chunks_append
        quad_group_three)
qed (simp_all add: base64_encode_short quad_group_last chunks_short)

text \<open>Base64 decoding inverts the encoding, with and without the padding, and the text has four characters for
  every three bytes begun.\<close>

theorem base64_roundtrip:
  "base64_decode (base64_encode bs) = Some bs
   \<and> base64_decode (trim_end_char CHR ''='' (base64_encode bs)) = Some bs
   \<and> length (base64_encode bs) = 4 * ((length bs + 2) div 3)"
proof -
  have trim2: "trim_end_char c (trim_end_char c s) = trim_end_char c s" for c s
    by (induction s rule: rev_induct) (simp_all add: trim_end_char_snoc)
  have len: "length (base64_encode bs) = 4 * ((length bs + 2) div 3)"
    by (induction bs rule: bytes_by_three)
      (simp_all add: base64_encode_short base64_encode_by_three, presburger)
  have "trim_end_char CHR ''='' (base64_encode bs) = [] \<Longrightarrow> bs = []"
    using b64_loop_encode [of bs] by simp
  then show ?thesis
    using len b64_loop_encode [of bs] by (auto simp: base64_decode_def Let_def trim2)
qed

section \<open>Node identifiers\<close>

definition base32_alphabet :: string where
  "base32_alphabet = ''0123456789abcdefghjkmnpqrstvwxyz''"

text \<open>The inner loop: write a character for every five bits in the buffer.\<close>

fun base32_drain :: "64 word \<Rightarrow> nat \<Rightarrow> string \<Rightarrow> nat \<times> string" where
  "base32_drain buffer bits_in_buffer output =
     (if 5 \<le> bits_in_buffer then
        (let bits = bits_in_buffer - 5; idx = unat (drop_bit bits buffer AND 0x1F)
         in base32_drain buffer bits (output @ [base32_alphabet ! idx]))
      else (bits_in_buffer, output))"

declare base32_drain.simps [simp del]

definition base32_byte :: "64 word \<times> nat \<times> string \<Rightarrow> 8 word \<Rightarrow> 64 word \<times> nat \<times> string" where
  "base32_byte st byte =
     (let (buffer0, bits0, output0) = st;
          buffer = push_bit 8 buffer0 OR ucast byte;
          (bits, output) = base32_drain buffer (bits0 + 8) output0
      in (buffer, bits, output))"

definition base32_finish :: "64 word \<times> nat \<times> string \<Rightarrow> string" where
  "base32_finish st =
     (let (buffer, bits, output) = st
      in if 0 < bits then output @ [base32_alphabet ! unat (push_bit (5 - bits) buffer AND 0x1F)] else output)"

definition base32_encode :: "8 word list \<Rightarrow> string" where
  "base32_encode input = base32_finish (foldl base32_byte (0, 0, []) input)"

definition node_id_parse :: "string \<Rightarrow> (string, string) result" where
  "node_id_parse s0 = (let s = trim s0 in
     if \<not> starts_with s ''xv1-'' then
       Err (''Invalid NodeID: must start with '' @ [CHR 0x27] @ ''xv1-'' @ [CHR 0x27] @ ''. Got: '' @ s)
     else if length s < 10 then Err (''Invalid NodeID: too short ('' @ nat_dec (length s) @ '')'')
     else Ok s)"

definition node_id_from_public_key :: "(8 word list \<Rightarrow> 8 word list) \<Rightarrow> 8 word list \<Rightarrow> string" where
  "node_id_from_public_key sha256 pk_bytes = ''xv1-'' @ ascii_lower (base32_encode (take 15 (sha256 pk_bytes)))"

text \<open>The reference: the bits of the bytes, first bit highest, in groups of five, the last group filled with zeros.\<close>

definition byte_bits :: "8 word \<Rightarrow> bool list" where
  "byte_bits b = map (bit b) (rev [0..<8])"

definition bits_value :: "bool list \<Rightarrow> nat" where
  "bits_value bs = foldl (\<lambda>n b. 2 * n + of_bool b) 0 bs"

definition base32_digit :: "bool list \<Rightarrow> char" where
  "base32_digit g = base32_alphabet ! bits_value (g @ replicate (5 - length g) False)"

definition base32_reference :: "bool list \<Rightarrow> string" where
  "base32_reference bs = map base32_digit (chunks 5 bs)"

text \<open>The bits the buffer holds.\<close>

definition buffer_bits :: "64 word \<Rightarrow> nat \<Rightarrow> bool list" where
  "buffer_bits buffer k = map (bit buffer) (rev [0..<k])"

lemma length_buffer_bits [simp]: "length (buffer_bits w k) = k"
  by (simp add: buffer_bits_def)

lemma buffer_bits_five: "buffer_bits w 5 = [bit w 4, bit w 3, bit w 2, bit w 1, bit w 0]"
  by (simp add: buffer_bits_def eval_nat_numeral)

lemma value_of_five: "unat (w AND 0x1F) = bits_value (buffer_bits w 5)" for w :: "64 word"
proof -
  have m: "(0x1F :: 64 word) = mask 5" by (simp add: mask_eq_exp_minus_1)
  have "unat (w AND 0x1F) = take_bit 5 (unat w)"
    unfolding m by (simp flip: take_bit_eq_mask add: unsigned_take_bit_eq)
  also have "\<dots> = bits_value [bit w 4, bit w 3, bit w 2, bit w 1, bit w 0]"
    by (simp add: bits_value_def eval_nat_numeral take_bit_Suc_from_most bit_unsigned_iff)
  finally show ?thesis by (simp only: buffer_bits_five)
qed

lemma base32_reference_Nil [simp]: "base32_reference [] = []"
  by (simp add: base32_reference_def)

lemma base32_reference_group: "length g = 5 \<Longrightarrow> base32_reference (g @ bs) = base32_digit g # base32_reference bs"
  by (simp add: base32_reference_def chunks_append)

lemma buffer_bits_split:
  assumes "5 \<le> k"
  shows "buffer_bits w k = buffer_bits (drop_bit (k - 5) w) 5 @ buffer_bits w (k - 5)"
proof -
  have "[0..<k] = [0..<k - 5] @ [k - 5..<k]" using upt_add_eq_append [of 0 "k - 5" 5] assms by simp
  moreover have "map (bit w) (rev [k - 5..<k]) = buffer_bits (drop_bit (k - 5) w) 5"
    using assms by (intro nth_equalityI) (auto simp: buffer_bits_def rev_nth bit_drop_bit_eq)
  ultimately show ?thesis by (simp add: buffer_bits_def)
qed

lemma buffer_bits_byte:
  "k + 8 \<le> 64 \<Longrightarrow> buffer_bits (push_bit 8 w OR ucast b) (k + 8) = buffer_bits w k @ byte_bits b"
  by (intro nth_equalityI)
    (auto simp: buffer_bits_def byte_bits_def rev_nth nth_append bit_simps byte_high_bits)

lemma drain_reference:
  "base32_drain w k out = (r, out') \<Longrightarrow>
    r < 5 \<and> out' @ base32_reference (buffer_bits w r @ bs) = out @ base32_reference (buffer_bits w k @ bs)"
proof (induction w k out arbitrary: r out' rule: base32_drain.induct)
  case (1 w k out)
  show ?case
  proof (cases "5 \<le> k")
    case True
    let ?c = "base32_alphabet ! unat (drop_bit (k - 5) w AND 0x1F)"
    have c: "?c = base32_digit (buffer_bits (drop_bit (k - 5) w) 5)"
      by (simp add: value_of_five base32_digit_def)
    have "base32_drain w (k - 5) (out @ [?c]) = (r, out')"
      using "1.prems" True by (subst (asm) base32_drain.simps) (simp add: Let_def)
    from "1.IH" [OF True refl refl this]
    show ?thesis
      using True by (simp add: c buffer_bits_split [OF True] base32_reference_group)
  next
    case False
    then show ?thesis using "1.prems" by (subst (asm) base32_drain.simps) simp
  qed
qed

lemma finish_reference:
  assumes "k < 5"
  shows "base32_finish (w, k, out) = out @ base32_reference (buffer_bits w k)"
proof (cases "k = 0")
  case True
  then show ?thesis by (simp add: base32_finish_def buffer_bits_def)
next
  case False
  have "buffer_bits (push_bit (5 - k) w) 5 = buffer_bits w k @ replicate (5 - k) False"
    using assms by (intro nth_equalityI) (auto simp: buffer_bits_def rev_nth nth_append bit_push_bit_iff)
  then have "bits_value (buffer_bits w k @ replicate (5 - k) False) = unat (push_bit (5 - k) w AND 0x1F)"
    by (simp add: value_of_five)
  moreover have "base32_reference (buffer_bits w k) = [base32_digit (buffer_bits w k)]"
    using False assms by (simp add: base32_reference_def chunks_short buffer_bits_def)
  ultimately show ?thesis using False by (simp add: base32_finish_def base32_digit_def)
qed

lemma foldl_base32_reference:
  "k < 5 \<Longrightarrow> base32_finish (foldl base32_byte (w, k, out) input) =
     out @ base32_reference (buffer_bits w k @ concat (map byte_bits input))"
proof (induction input arbitrary: w k out)
  case Nil
  then show ?case by (simp add: finish_reference)
next
  case (Cons b input)
  let ?w = "push_bit 8 w OR ucast b"
  obtain r out' where d: "base32_drain ?w (k + 8) out = (r, out')" by force
  have step: "base32_byte (w, k, out) b = (?w, r, out')" by (simp add: base32_byte_def d Let_def)
  note dr = drain_reference [OF d, of "concat (map byte_bits input)"]
  have "k + 8 \<le> 64" using Cons.prems by simp
  then show ?case using Cons.IH [of r ?w out'] dr by (simp add: step buffer_bits_byte)
qed

lemma base32_encode_reference: "base32_encode input = base32_reference (concat (map byte_bits input))"
  using foldl_base32_reference [of 0 0 "[]" input] by (simp add: base32_encode_def buffer_bits_def)

text \<open>A digit determines its five bits, so the text determines the bits.\<close>

lemma bits_value_snoc: "bits_value (xs @ [b]) = 2 * bits_value xs + of_bool b"
  by (simp add: bits_value_def)

lemma bits_value_less: "bits_value xs < 2 ^ length xs"
  by (induction xs rule: rev_induct) (auto simp: bits_value_snoc bits_value_def of_bool_def)

lemma bits_value_inj: "length xs = length ys \<Longrightarrow> bits_value xs = bits_value ys \<Longrightarrow> xs = ys"
proof (induction xs arbitrary: ys rule: rev_induct)
  case (snoc x xs)
  then obtain y ys' where ys: "ys = ys' @ [y]" by (cases ys rule: rev_cases) auto
  have "2 * bits_value xs + of_bool x = 2 * bits_value ys' + of_bool y"
    using snoc.prems ys by (simp add: bits_value_snoc)
  then have "x = y \<and> bits_value xs = bits_value ys'"
    by (cases x; cases y) (simp_all, presburger+)
  then show ?case using snoc ys by simp
qed simp

lemma alphabet_facts: "distinct base32_alphabet" "length base32_alphabet = 32"
  "list_all (\<lambda>c. ascii_lower_char c = c \<and> \<not> ascii_space c) base32_alphabet"
  by (simp add: base32_alphabet_def, simp add: base32_alphabet_def, code_simp)

lemma base32_digit_index:
  assumes "length g = 5"
  shows "base32_digit g = base32_alphabet ! bits_value g" and "bits_value g < 32"
  using assms bits_value_less [of g] by (simp_all add: base32_digit_def)

lemma base32_digit_inj: "length g = 5 \<Longrightarrow> length h = 5 \<Longrightarrow> base32_digit g = base32_digit h \<Longrightarrow> g = h"
  by (rule bits_value_inj)
    (simp_all add: base32_digit_index nth_eq_iff_index_eq [OF alphabet_facts(1)] alphabet_facts(2))

lemma base32_digit_lower:
  "length g = 5 \<Longrightarrow> ascii_lower_char (base32_digit g) = base32_digit g \<and> \<not> ascii_space (base32_digit g)"
  using alphabet_facts(2,3) by (auto simp: base32_digit_index list_all_length)

text \<open>For a number of bits that is a multiple of five.\<close>

lemma base32_reference_facts:
  assumes "length bs = 5 * n"
  shows "length (base32_reference bs) = n"
    and "list_all (\<lambda>c. ascii_lower_char c = c \<and> \<not> ascii_space c) (base32_reference bs)"
    and "length cs = 5 * n \<Longrightarrow> base32_reference bs = base32_reference cs \<longleftrightarrow> bs = cs"
  using assms
proof (induction n arbitrary: bs cs)
  case (Suc n)
  have split: "\<exists>g r. x = g @ r \<and> length g = 5 \<and> length r = 5 * n" if "length x = 5 * Suc n" for x :: "bool list"
    using that by (intro exI [of _ "take 5 x"] exI [of _ "drop 5 x"]) simp
  {
    case 1
    then show ?case using split [of bs] Suc.IH(1) by (auto simp: base32_reference_group)
  next
    case 2
    then show ?case using split [of bs] Suc.IH(2) base32_digit_lower by (auto simp: base32_reference_group)
  next
    case 3
    then obtain g r h s where "bs = g @ r" "length g = 5" "length r = 5 * n"
        "cs = h @ s" "length h = 5" "length s = 5 * n"
      using split [of bs] split [of cs] by blast
    then show ?case using Suc.IH(3) [of s r] base32_digit_inj [of g h] by (auto simp: base32_reference_group)
  }
qed simp_all

lemma byte_bits_inj: "byte_bits a = byte_bits b \<longleftrightarrow> a = b"
proof
  assume "byte_bits a = byte_bits b"
  then have "\<forall>n\<in>{0..<8}. bit a n = bit b n" by (simp add: byte_bits_def)
  then show "a = b" by (intro byte_eqI) simp_all
qed simp

lemma length_byte_bits [simp]: "length (byte_bits b) = 8"
  by (simp add: byte_bits_def)

lemma concat_byte_bits_inj: "length xs = length ys \<Longrightarrow>
    concat (map byte_bits xs) = concat (map byte_bits ys) \<longleftrightarrow> xs = ys"
  by (induction xs ys rule: list_induct2) (simp_all add: byte_bits_inj)

lemma length_concat_byte_bits: "length (concat (map byte_bits xs)) = 8 * length xs"
  by (induction xs) simp_all

lemma node_id_facts:
  assumes sha: "\<And>x. length (sha256 x) = 32"
  shows "length (node_id_from_public_key sha256 pk) = 28"
    and "node_id_parse (node_id_from_public_key sha256 pk) = Ok (node_id_from_public_key sha256 pk)"
    and "node_id_from_public_key sha256 pk = node_id_from_public_key sha256 pk'
         \<longleftrightarrow> take 15 (sha256 pk) = take 15 (sha256 pk')"
proof -
  let ?bits = "\<lambda>pk. concat (map byte_bits (take 15 (sha256 pk)))"
  have len: "length (?bits pk) = 5 * 24" for pk using sha [of pk] by (simp only: length_concat_byte_bits length_take)
  note facts = base32_reference_facts [OF len]
  have lower: "ascii_lower (base32_encode (take 15 (sha256 pk))) = base32_encode (take 15 (sha256 pk))" for pk
    using facts(2) [of pk] unfolding base32_encode_reference ascii_lower_def by (intro map_idI) (simp add: list_all_iff)
  have id: "node_id_from_public_key sha256 pk = ''xv1-'' @ base32_reference (?bits pk)" for pk
    by (simp add: node_id_from_public_key_def lower) (simp add: base32_encode_reference)
  have "list_all (\<lambda>c. \<not> ascii_space c) (node_id_from_public_key sha256 pk)"
    using facts(2) [of pk] by (auto simp: id list_all_iff ascii_space_def)
  then have tr: "trim (node_id_from_public_key sha256 pk) = node_id_from_public_key sha256 pk" by (rule trim_id)
  show len28: "length (node_id_from_public_key sha256 pk) = 28" using facts(1) [of pk] by (simp add: id)
  show "node_id_from_public_key sha256 pk = node_id_from_public_key sha256 pk'
      \<longleftrightarrow> take 15 (sha256 pk) = take 15 (sha256 pk')"
    using facts(3) [OF len, of pk pk'] sha by (simp add: id concat_byte_bits_inj)
  have "starts_with (node_id_from_public_key sha256 pk) ''xv1-''"
    by (simp only: id starts_with_append)
  then show "node_id_parse (node_id_from_public_key sha256 pk) = Ok (node_id_from_public_key sha256 pk)"
    using len28 by (simp add: node_id_parse_def Let_def tr)
qed

text \<open>The identifier of a public key has 28 characters and the parser returns it unchanged; two keys share it
  exactly when their hashes agree on the first fifteen bytes. (The documentation of \<open>src/src/mesh/node.rs\<close> speaks of BLAKE3
  and of twenty bytes.)\<close>

theorem node_id_spec:
  assumes sha: "\<And>x. length (sha256 x) = 32"
  shows "length (node_id_from_public_key sha256 pk) = 28
    \<and> node_id_parse (node_id_from_public_key sha256 pk) = Ok (node_id_from_public_key sha256 pk)
    \<and> (node_id_from_public_key sha256 pk = node_id_from_public_key sha256 pk'
         \<longleftrightarrow> take 15 (sha256 pk) = take 15 (sha256 pk'))"
  by (intro conjI node_id_facts sha)

lemma node_id_spec_witness:
  "node_id_parse (node_id_from_public_key (\<lambda>x. take 32 (x @ replicate 32 0)) [7])
     = Ok (node_id_from_public_key (\<lambda>x. take 32 (x @ replicate 32 0)) [7])
   \<and> node_id_from_public_key (\<lambda>x. take 32 (x @ replicate 32 0)) [7]
     \<noteq> node_id_from_public_key (\<lambda>x. take 32 (x @ replicate 32 0)) [8]"
  using node_id_spec [of "\<lambda>x. take 32 (x @ replicate 32 0)" "[7]" "[8]"] by simp

end
