(* ===== verification/OneTimeTokens.thy ===== *)
theory OneTimeTokens
  imports TextCodes
begin

text \<open>Tokens that a node of the mesh accepts once: the claims of \<open>src/src/mesh/replay_store.rs\<close>, the pairing
  secrets of \<open>pairing_registry.rs\<close>, the challenges of \<open>wallet_ownership.rs\<close> and of \<open>challenge.rs\<close>. What they
  have in common is the locale \<open>one_time\<close>: a token that was accepted is refused until it is issued again. All
  four interpret it. SHA-256, signatures, the clock and fresh identifiers are arguments; a database is a
  table whose transactions run alone.\<close>

section \<open>The contract of one-time tokens\<close>

text \<open>The states after a sequence of actions.\<close>

definition after :: "('s \<Rightarrow> 'a \<Rightarrow> 'k option \<times> 's) \<Rightarrow> 's \<Rightarrow> 'a list \<Rightarrow> 's" where
  "after act s as = foldl (\<lambda>s a. snd (act s a)) s as"

lemma after_simps [simp]: "after act s [] = s" "after act s (a # as) = after act (snd (act s a)) as"
  "after act s (as @ bs) = after act (after act s as) bs"
  by (simp_all add: after_def)

text \<open>An action answers with the token it accepted, if it accepted one. A token covers those that must not be
  accepted after it.\<close>

locale one_time =
  fixes act :: "'s \<Rightarrow> 'a \<Rightarrow> 'k option \<times> 's"
    and covers :: "'k \<Rightarrow> 'k \<Rightarrow> bool"
    and spent :: "'s \<Rightarrow> 'k \<Rightarrow> bool"
    and renews :: "'a \<Rightarrow> 'k \<Rightarrow> bool"
  assumes accepted_spends: "act s a = (Some k, s') \<Longrightarrow> covers k k' \<Longrightarrow> spent s' k'"
    and spent_refused: "spent s k \<Longrightarrow> fst (act s a) \<noteq> Some k"
    and spent_stays: "spent s k \<Longrightarrow> \<not> renews a k \<Longrightarrow> spent (snd (act s a)) k"
begin

lemma spent_after: "spent s k \<Longrightarrow> \<forall>a\<in>set as. \<not> renews a k \<Longrightarrow> spent (after act s as) k"
  by (induction as arbitrary: s) (simp_all add: spent_stays)

lemma reuse_needs_renewal:
  assumes "fst (act s a) = Some k" and "covers k k'" and "fst (act (after act s (a # as)) b) = Some k'"
  shows "\<exists>c\<in>set as. renews c k'"
proof (rule ccontr)
  assume "\<not> ?thesis"
  then have "\<forall>c\<in>set as. \<not> renews c k'" by blast
  moreover have "spent (snd (act s a)) k'"
    using accepted_spends [of s a k "snd (act s a)" k'] assms(1,2) by (cases "act s a") simp
  ultimately have "spent (after act s (a # as)) k'" by (simp add: spent_after)
  then show False using spent_refused assms(3) by blast
qed

end

section \<open>Replay store\<close>

datatype claim = Fresh | Replayed | Stale | Full

text \<open>The tables \<open>seen\<close>, with its primary key, and \<open>meta\<close>. Time stamps are \<open>i64\<close>.\<close>

record replay_db =
  seen :: "(string \<times> string, int) hmap"
  floor_ts :: int

definition replay_db_open :: replay_db where
  "replay_db_open = \<lparr> seen = [], floor_ts = 0 \<rparr>"

definition i64_sat_sub :: "int \<Rightarrow> int \<Rightarrow> int" where
  "i64_sat_sub a b = max (- (2 ^ 63)) (min (2 ^ 63 - 1) (a - b))"

text \<open>\<open>claim\<close>: every return but the last leaves the transaction uncommitted. \<open>db\<close> says whether the database
  answers.\<close>

definition claim_request ::
  "bool \<Rightarrow> string \<Rightarrow> string \<Rightarrow> int \<Rightarrow> int \<Rightarrow> replay_db \<Rightarrow> (claim, string) result \<times> replay_db" where
  "claim_request db sender nonce ts now st =
     (if sender = [] \<or> 128 < length sender then (Err ''invalid sender'', st)
      else if nonce = [] \<or> 64 < length nonce then (Err ''invalid nonce'', st)
      else if 300 < \<bar>now - ts\<bar> then (Ok Stale, st)
      else if \<not> db then (Err ''database'', st)
      else
        let current_floor = floor_ts st;
            effective_floor = max current_floor (i64_sat_sub now 301)
        in if ts < effective_floor then (Ok Stale, st)
           else if hmem (seen st) (sender, nonce) then (Ok Replayed, st)
           else
             let st1 = (if current_floor < effective_floor
                        then \<lparr> seen = filter (\<lambda>(k, t). \<not> t < effective_floor) (seen st), floor_ts = effective_floor \<rparr>
                        else st);
                 sender_count = length (filter (\<lambda>(k, t). fst k = sender) (seen st1))
             in if 10000 \<le> sender_count then (Ok Full, st)
                else (Ok Fresh, st1\<lparr> seen := hput (sender, nonce) ts (seen st1) \<rparr>))"

record claim_args =
  ca_db :: bool
  ca_sender :: string
  ca_nonce :: string
  ca_ts :: int
  ca_now :: int

definition claim_act :: "replay_db \<Rightarrow> claim_args \<Rightarrow> (string \<times> string \<times> int) option \<times> replay_db" where
  "claim_act st a =
     (let (res, st') = claim_request (ca_db a) (ca_sender a) (ca_nonce a) (ca_ts a) (ca_now a) st
      in (if res = Ok Fresh then Some (ca_sender a, ca_nonce a, ca_ts a) else None, st'))"

text \<open>A claim is used up when it is older than the floor or a row of its sender and nonce is at least as new.\<close>

definition claim_spent :: "replay_db \<Rightarrow> string \<times> string \<times> int \<Rightarrow> bool" where
  "claim_spent st k = (let (sender, nonce, ts) = k in
     ts < floor_ts st \<or> list_ex (\<lambda>(j, t). j = (sender, nonce) \<and> ts \<le> t) (seen st))"

definition claim_covers :: "string \<times> string \<times> int \<Rightarrow> string \<times> string \<times> int \<Rightarrow> bool" where
  "claim_covers k k' = (let (s, n, t) = k; (s', n', t') = k' in s' = s \<and> n' = n \<and> t' \<le> t)"

lemma hput_new: "\<not> hmem m k \<Longrightarrow> hput k v m = m @ [(k, v)]"
  by (induction m) (auto simp: hmem_def)

lemma claim_request_cases:
  assumes "claim_request db sender nonce ts now st = (res, st')"
  obtains (unchanged) "res \<noteq> Ok Fresh" "st' = st"
  | (fresh) f where "res = Ok Fresh" "floor_ts st \<le> f" "f \<le> ts" "\<not> hmem (seen st) (sender, nonce)"
      "\<bar>now - ts\<bar> \<le> 300"
      "st' = \<lparr> seen = filter (\<lambda>(k, t). \<not> t < f \<or> f = floor_ts st) (seen st) @ [((sender, nonce), ts)], floor_ts = f \<rparr>"
proof (cases "res = Ok Fresh")
  case False
  then show ?thesis using assms unchanged
    by (auto simp: claim_request_def Let_def split: if_splits)
next
  case True
  let ?f = "max (floor_ts st) (i64_sat_sub now 301)"
  have nk: "\<not> hmem (seen st) (sender, nonce)" using assms True
    by (auto simp: claim_request_def Let_def split: if_splits)
  then have "\<not> hmem (filter P (seen st)) (sender, nonce)" for P by (auto simp: hmem_iff)
  then show ?thesis using assms True nk
    by (intro fresh [of ?f]) (auto simp: claim_request_def Let_def hput_new max_def split: if_splits)
qed

lemma claim_act_cases:
  obtains (refused) "claim_act st a = (None, st)"
  | (fresh) f where "claim_act st a = (Some (ca_sender a, ca_nonce a, ca_ts a),
        \<lparr> seen = filter (\<lambda>(k, t). \<not> t < f \<or> f = floor_ts st) (seen st) @ [((ca_sender a, ca_nonce a), ca_ts a)],
          floor_ts = f \<rparr>)"
      "floor_ts st \<le> f" "f \<le> ca_ts a" "\<not> hmem (seen st) (ca_sender a, ca_nonce a)"
proof -
  obtain res st' where r: "claim_request (ca_db a) (ca_sender a) (ca_nonce a) (ca_ts a) (ca_now a) st = (res, st')"
    by force
  then show ?thesis
  proof (cases rule: claim_request_cases)
    case unchanged
    then show ?thesis using r by (intro refused) (simp add: claim_act_def)
  next
    case (fresh f)
    then show ?thesis using r by (intro that(2) [of f]) (simp_all add: claim_act_def)
  qed
qed

interpretation replay: one_time claim_act claim_covers claim_spent "\<lambda>_ _. False"
proof
  fix s a k s' k' assume "claim_act s a = (Some k, s')" and "claim_covers k k'"
  then show "claim_spent s' k'"
    by (cases rule: claim_act_cases [of s a]) (auto simp: claim_covers_def claim_spent_def)
next
  fix s k a assume "claim_spent s k"
  then show "fst (claim_act s a) \<noteq> Some k"
    by (cases rule: claim_act_cases [of s a])
      (auto simp: claim_spent_def hmem_iff list_ex_iff image_iff split: prod.splits)
next
  fix s k a assume "claim_spent s k"
  then show "claim_spent (snd (claim_act s a)) k"
    by (cases rule: claim_act_cases [of s a])
      (auto simp: claim_spent_def list_ex_iff split: prod.splits)
qed

text \<open>C29: Two claims of a sender with the same nonce are both fresh only if the second has a later time stamp,
  whatever happens between them and however the clock moves.\<close>

theorem replay_accepts_once:
  assumes "claim_act st a = (Some (sender, nonce, ts), st1)"
    and "fst (claim_act (after claim_act st1 between) b) = Some (sender, nonce, ts')"
  shows "ts < ts'"
proof (rule ccontr)
  assume "\<not> ?thesis"
  then have "claim_covers (sender, nonce, ts) (sender, nonce, ts')" by (simp add: claim_covers_def)
  moreover have "fst (claim_act (after claim_act st (a # between)) b) = Some (sender, nonce, ts')"
    using assms by simp
  ultimately show False using replay.reuse_needs_renewal [of st a] assms(1) by fastforce
qed

text \<open>The table keeps its primary key, no row older than the floor, and at most 10000 rows for a sender.\<close>

definition replay_wf :: "replay_db \<Rightarrow> bool" where
  "replay_wf st = (hmap_ok (seen st) \<and> list_all (\<lambda>(k, t). floor_ts st \<le> t) (seen st)
     \<and> (\<forall>sender. length (filter (\<lambda>(k, t). fst k = sender) (seen st)) \<le> 10000))"

lemma claim_request_count:
  assumes "claim_request db sender nonce ts now st = (Ok Fresh, st')"
  shows "length (filter (\<lambda>(k, t). fst k = sender) (seen st')) \<le> 10000"
proof -
  have "\<not> hmem (filter P (seen st)) (sender, nonce)" if "\<not> hmem (seen st) (sender, nonce)" for P
    using that by (auto simp: hmem_iff)
  then show ?thesis using assms
    by (auto simp: claim_request_def Let_def hput_new split: if_splits)
qed

text \<open>The replay table keeps its primary key, no row below its floor and at most 10000 rows for a sender, after any
  claims on a new database.\<close>

theorem replay_table_wf: "replay_wf (after claim_act replay_db_open as)"
proof -
  have step: "replay_wf (snd (claim_act s a))" if wf: "replay_wf s" for s a
  proof -
    obtain res st' where r: "claim_request (ca_db a) (ca_sender a) (ca_nonce a) (ca_ts a) (ca_now a) s = (res, st')"
      by force
    then show ?thesis
    proof (cases rule: claim_request_cases)
      case unchanged
      then show ?thesis using r wf by (simp add: claim_act_def)
    next
      case (fresh f)
      have "length (filter (\<lambda>(k, t). fst k = x) (seen st')) \<le> 10000" for x
      proof (cases "x = ca_sender a")
        case True
        then show ?thesis using claim_request_count r fresh(1) by blast
      next
        case False
        have "length (filter (\<lambda>(k, t). fst k = x) (seen st')) \<le> length (filter (\<lambda>(k, t). fst k = x) (seen s))"
          using False fresh(6) by (simp add: length_filter_conv_card filter_filter case_prod_unfold)
            (intro card_mono, auto)
        then show ?thesis using wf by (auto simp: replay_wf_def intro: order_trans)
      qed
      moreover have "hmap_ok (seen st')" using fresh wf
        by (auto simp: replay_wf_def hmap_ok_def hmem_iff distinct_map_filter)
      moreover have "list_all (\<lambda>(k, t). floor_ts st' \<le> t) (seen st')"
        using fresh wf by (auto simp: replay_wf_def list_all_iff)
      ultimately show ?thesis using r by (simp add: claim_act_def replay_wf_def)
    qed
  qed
  have "replay_wf s \<Longrightarrow> replay_wf (after claim_act s as)" for s
    by (induction as arbitrary: s) (simp_all add: step)
  then show ?thesis by (simp add: replay_wf_def replay_db_open_def)
qed

text \<open>C39: A sender at its limit is served again: once the rows it has are out of date, its next timely claim with a new
  nonce is accepted.\<close>

theorem expired_rows_free_the_sender:
  assumes wf: "replay_wf st" and old: "\<forall>(k, t)\<in>set (seen st). fst k = sender \<longrightarrow> t < now - 301"
    and args: "sender \<noteq> []" "length sender \<le> 128" "nonce \<noteq> []" "length nonce \<le> 64" "\<not> hmem (seen st) (sender, nonce)"
    and time: "\<bar>now - ts\<bar> \<le> 300" "floor_ts st \<le> ts" "- (2 ^ 63) + 301 \<le> now" "now < 2 ^ 63"
  shows "fst (claim_request True sender nonce ts now st) = Ok Fresh"
proof -
  have now': "i64_sat_sub now 301 = now - 301" using time by (simp add: i64_sat_sub_def)
  have none: "filter (\<lambda>(k, t). fst k = sender) (filter (\<lambda>(k, t). now - 301 \<le> t) (seen st)) = []"
    using old by (auto simp: filter_empty_conv)
  have none': "filter (\<lambda>(k, t). fst k = sender) (seen st) = []" if "now - 301 \<le> floor_ts st"
    using old wf that by (fastforce simp: filter_empty_conv list_all_iff replay_wf_def)
  show ?thesis
    using args time none none' now' by (auto simp: claim_request_def Let_def max_def not_less)
qed

lemma expired_rows_free_the_sender_witness:
  "fst (claim_request True ''a'' ''n'' 1000 1000 (replay_db_open\<lparr> seen := [((''a'', ''m''), 100)] \<rparr>)) = Ok Fresh"
  by (rule expired_rows_free_the_sender)
    (auto simp: replay_wf_def replay_db_open_def hmap_ok_def hmem_def intro: order_trans [OF length_filter_le])

lemma replay_accepts_once_witness:
  "claim_act replay_db_open \<lparr> ca_db = True, ca_sender = ''a'', ca_nonce = ''n'', ca_ts = 100, ca_now = 100 \<rparr>
     = (Some (''a'', ''n'', 100), \<lparr> seen = [((''a'', ''n''), 100)], floor_ts = 0 \<rparr>)
   \<and> (100 :: int) < 500"
proof -
  let ?c = "\<lambda>ts. \<lparr> ca_db = True, ca_sender = ''a'', ca_nonce = ''n'', ca_ts = ts, ca_now = ts \<rparr>"
  have 1: "claim_act replay_db_open (?c 100) = (Some (''a'', ''n'', 100), \<lparr> seen = [((''a'', ''n''), 100)], floor_ts = 0 \<rparr>)"
    by code_simp
  have 2: "fst (claim_act (after claim_act \<lparr> seen = [((''a'', ''n''), 100)], floor_ts = 0 \<rparr>
      [(?c 450)\<lparr> ca_nonce := ''m'' \<rparr>]) (?c 500)) = Some (''a'', ''n'', 500)"
    by (simp add: after_def) code_simp
  show ?thesis using 1 replay_accepts_once [OF 1 2] by simp
qed

section \<open>Pairing secrets\<close>

record pairing_metadata =
  pm_expires_at :: "64 word"
  pm_created_at :: int

type_synonym pairing_map = "(string, pairing_metadata) hmap"

record pairing_registry =
  pr_secrets :: pairing_map

text \<open>The file of the registry. Reading or parsing it may fail.\<close>

datatype pairing_file = NoFile | Stored pairing_map | Unreadable string

text \<open>The result of writing the file is an argument.\<close>

type_synonym write_result = "(unit, string) result"

definition hash_pairing_secret :: "(8 word list \<Rightarrow> 8 word list) \<Rightarrow> string \<Rightarrow> string" where
  "hash_pairing_secret sha256 secret = utils_hex_encode (sha256 (bytes_of secret))"

definition pairing_load_from :: "pairing_file \<Rightarrow> (pairing_registry, string) result" where
  "pairing_load_from file = (case file of
     NoFile \<Rightarrow> Ok \<lparr> pr_secrets = [] \<rparr>
   | Unreadable e \<Rightarrow> Err e
   | Stored m \<Rightarrow> Ok \<lparr> pr_secrets = m \<rparr>)"

definition pairing_save :: "write_result \<Rightarrow> pairing_registry \<Rightarrow> pairing_file \<Rightarrow> (unit, string) result \<times> pairing_file" where
  "pairing_save w reg file = (case w of Err e \<Rightarrow> (Err e, file) | Ok _ \<Rightarrow> (Ok (), Stored (pr_secrets reg)))"

definition pairing_register :: "(8 word list \<Rightarrow> 8 word list) \<Rightarrow> write_result \<Rightarrow> int \<Rightarrow> string \<Rightarrow> 64 word
    \<Rightarrow> pairing_registry \<times> pairing_file \<Rightarrow> (unit, string) result \<times> pairing_registry \<times> pairing_file" where
  "pairing_register sha256 w now secret expires_at st =
     (let (reg, file) = st;
          key = hash_pairing_secret sha256 secret;
          reg' = reg\<lparr> pr_secrets := hput key \<lparr> pm_expires_at = expires_at, pm_created_at = now \<rparr> (pr_secrets reg) \<rparr>;
          (res, file') = pairing_save w reg' file
      in (res, reg', file'))"

text \<open>The entry a presented secret selects: by its hash, else by itself, for files written before secrets were hashed.\<close>

definition pairing_key :: "(8 word list \<Rightarrow> 8 word list) \<Rightarrow> string \<Rightarrow> pairing_registry \<Rightarrow> string option" where
  "pairing_key sha256 secret reg = (let hashed = hash_pairing_secret sha256 secret in
     if hmem (pr_secrets reg) hashed then Some hashed
     else if hmem (pr_secrets reg) secret then Some secret
     else None)"

definition pairing_verify_and_remove :: "(8 word list \<Rightarrow> 8 word list) \<Rightarrow> write_result \<Rightarrow> 64 word \<Rightarrow> string
    \<Rightarrow> pairing_registry \<times> pairing_file \<Rightarrow> (bool, string) result \<times> pairing_registry \<times> pairing_file" where
  "pairing_verify_and_remove sha256 w now secret st =
     (let (reg, file) = st in
      case pairing_key sha256 secret reg of
        None \<Rightarrow> (Ok False, reg, file)
      | Some k \<Rightarrow> (case hget (pr_secrets reg) k of
          None \<Rightarrow> (Ok False, reg, file)
        | Some metadata \<Rightarrow>
            (let reg' = reg\<lparr> pr_secrets := hdel k (pr_secrets reg) \<rparr>;
                 (res, file') = pairing_save w reg' file
             in case res of
                  Err e \<Rightarrow> (Err e, reg', file')
                | Ok _ \<Rightarrow> (Ok (now \<le> pm_expires_at metadata), reg', file'))))"

definition pairing_cleanup_expired :: "write_result \<Rightarrow> 64 word
    \<Rightarrow> pairing_registry \<times> pairing_file \<Rightarrow> (unit, string) result \<times> pairing_registry \<times> pairing_file" where
  "pairing_cleanup_expired w now st =
     (let (reg, file) = st;
          reg' = reg\<lparr> pr_secrets := filter (\<lambda>(_, meta). now \<le> pm_expires_at meta) (pr_secrets reg) \<rparr>
      in if length (pr_secrets reg') < length (pr_secrets reg) then
           (let (res, file') = pairing_save w reg' file in (res, reg', file'))
         else (Ok (), reg', file))"

text \<open>What the handlers do with the registry: each loads it, applies one operation, and drops it.\<close>

datatype pairing_action =
    Present write_result "64 word" string
  | Register write_result int string "64 word"
  | Cleanup write_result "64 word"

definition pairing_act :: "(8 word list \<Rightarrow> 8 word list) \<Rightarrow> pairing_file \<Rightarrow> pairing_action \<Rightarrow> string option \<times> pairing_file" where
  "pairing_act sha256 file a = (case pairing_load_from file of
     Err e \<Rightarrow> (None, file)
   | Ok reg \<Rightarrow> (case a of
       Present w now secret \<Rightarrow>
         (let (res, _, file') = pairing_verify_and_remove sha256 w now secret (reg, file)
          in (if res = Ok True then pairing_key sha256 secret reg else None, file'))
     | Register w now secret expires_at \<Rightarrow> (None, snd (snd (pairing_register sha256 w now secret expires_at (reg, file))))
     | Cleanup w now \<Rightarrow> (None, snd (snd (pairing_cleanup_expired w now (reg, file))))))"

definition pairing_spent :: "pairing_file \<Rightarrow> string \<Rightarrow> bool" where
  "pairing_spent file k = (case pairing_load_from file of Err _ \<Rightarrow> True | Ok reg \<Rightarrow> \<not> hmem (pr_secrets reg) k)"

definition pairing_renews :: "(8 word list \<Rightarrow> 8 word list) \<Rightarrow> pairing_action \<Rightarrow> string \<Rightarrow> bool" where
  "pairing_renews sha256 a k = (case a of Register _ _ secret _ \<Rightarrow> k = hash_pairing_secret sha256 secret | _ \<Rightarrow> False)"

lemmas pairing_defs = pairing_act_def pairing_verify_and_remove_def pairing_register_def pairing_cleanup_expired_def
  pairing_save_def pairing_spent_def pairing_load_from_def pairing_renews_def

lemma hmem_Nil: "hmem ((j, v) # m) k \<longleftrightarrow> k = j \<or> hmem m k" "\<not> hmem [] k"
  by (auto simp: hmem_def)

lemma hmem_filter: "hmem (filter P m) k \<Longrightarrow> hmem m k"
  by (auto simp: hmem_iff)

interpretation pairing: one_time "pairing_act sha256" "(=)" pairing_spent "pairing_renews sha256" for sha256
proof
  fix s a k s' k' assume "pairing_act sha256 s a = (Some k, s')" and "k = k'"
  then show "pairing_spent s' k'"
    by (auto simp: pairing_defs Let_def hmem_def
        split: pairing_file.splits pairing_action.splits option.splits sum.splits if_splits prod.splits)
next
  fix s k a assume "pairing_spent s k"
  then show "fst (pairing_act sha256 s a) \<noteq> Some k"
    by (auto simp: pairing_defs pairing_key_def Let_def
        split: pairing_file.splits pairing_action.splits option.splits sum.splits if_splits prod.splits)
next
  fix s k a assume "pairing_spent s k" "\<not> pairing_renews sha256 a k"
  then show "pairing_spent (snd (pairing_act sha256 s a)) k"
    by (auto simp: pairing_defs Let_def hmem_Nil dest: hmem_filter
        split: pairing_file.splits pairing_action.splits option.splits sum.splits if_splits prod.splits)
qed

text \<open>Requests that run one after the other accept a stored pairing secret at most once: a second acceptance of the
  entry requires a registration of the same secret in between, whatever else happens and whichever writes fail.\<close>

theorem pairing_secret_accepted_once:
  assumes "fst (pairing_act sha256 file a) = Some k"
    and "fst (pairing_act sha256 (after (pairing_act sha256) file (a # between)) b) = Some k"
  shows "\<exists>w now secret expires. Register w now secret expires \<in> set between
           \<and> k = hash_pairing_secret sha256 secret"
proof -
  obtain c where "c \<in> set between" "pairing_renews sha256 c k"
    using pairing.reuse_needs_renewal [OF assms(1) refl assms(2)] by blast
  moreover from this(2) obtain w now secret expires
    where "c = Register w now secret expires" "k = hash_pairing_secret sha256 secret"
    by (simp add: pairing_renews_def split: pairing_action.splits)
  ultimately show ?thesis by blast
qed

text \<open>Two requests that both read the file before either writes it both accept the same secret: nothing holds the
  file between the reading and the writing.\<close>

theorem concurrent_pairing_accepts_twice:
  assumes "pairing_load_from file = Ok reg"
    and "hget (pr_secrets reg) (hash_pairing_secret sha256 secret) = Some meta" and "now \<le> pm_expires_at meta"
  shows "\<exists>reg1 file1 file2.
      pairing_verify_and_remove sha256 (Ok ()) now secret (reg, file) = (Ok True, reg1, file1)
    \<and> pairing_verify_and_remove sha256 (Ok ()) now secret (reg, file1) = (Ok True, reg1, file2)
    \<and> pairing_spent file1 (hash_pairing_secret sha256 secret)"
  using assms by (auto simp: pairing_verify_and_remove_def pairing_key_def hmem_def pairing_save_def Let_def
      pairing_spent_def pairing_load_from_def)

text \<open>The text the file keeps for a secret is accepted as a secret itself, so that reading the file is enough to
  pair.\<close>

theorem stored_hash_is_accepted:
  fixes sha256 :: "8 word list \<Rightarrow> 8 word list"
  defines "h \<equiv> hash_pairing_secret sha256"
  assumes "\<not> hmem (pr_secrets reg) (h (h secret))" and "h (h secret) \<noteq> h secret" and "t \<le> expires"
  shows "fst (pairing_verify_and_remove sha256 (Ok ()) t (h secret)
      (snd (pairing_register sha256 (Ok ()) now secret expires (reg, file)))) = Ok True"
  using assms by (auto simp: pairing_verify_and_remove_def pairing_register_def pairing_key_def hmem_def
      pairing_save_def Let_def)

text \<open>A hash used by the witnesses: 32 bytes, not constant on short texts.\<close>

definition sample_sha :: "8 word list \<Rightarrow> 8 word list" where
  "sample_sha x = of_nat (length x) # replicate 31 (foldl (+) 0 x)"

lemma concurrent_pairing_accepts_twice_witness:
  "\<exists>reg1 file1 file2. pairing_verify_and_remove sample_sha (Ok ()) 5 ''s''
      (\<lparr> pr_secrets = [(hash_pairing_secret sample_sha ''s'', \<lparr> pm_expires_at = 9, pm_created_at = 0 \<rparr>)] \<rparr>,
       Stored [(hash_pairing_secret sample_sha ''s'', \<lparr> pm_expires_at = 9, pm_created_at = 0 \<rparr>)]) = (Ok True, reg1, file1)
    \<and> pairing_verify_and_remove sample_sha (Ok ()) 5 ''s''
      (\<lparr> pr_secrets = [(hash_pairing_secret sample_sha ''s'', \<lparr> pm_expires_at = 9, pm_created_at = 0 \<rparr>)] \<rparr>, file1)
      = (Ok True, reg1, file2)
    \<and> pairing_spent file1 (hash_pairing_secret sample_sha ''s'')"
  by (rule concurrent_pairing_accepts_twice [where meta = "\<lparr> pm_expires_at = 9, pm_created_at = 0 \<rparr>"]) (simp_all add: pairing_load_from_def)

lemma stored_hash_is_accepted_witness:
  "fst (pairing_verify_and_remove sample_sha (Ok ()) 5 (hash_pairing_secret sample_sha ''s'')
      (snd (pairing_register sample_sha (Ok ()) 0 ''s'' 9 (\<lparr> pr_secrets = [] \<rparr>, NoFile)))) = Ok True"
proof (rule stored_hash_is_accepted)
  show "\<not> hmem (pr_secrets \<lparr> pr_secrets = [] \<rparr>) (hash_pairing_secret sample_sha (hash_pairing_secret sample_sha ''s''))"
    by (simp add: hmem_def)
  show "hash_pairing_secret sample_sha (hash_pairing_secret sample_sha ''s'') \<noteq> hash_pairing_secret sample_sha ''s''"
    by code_simp
qed simp

lemma pairing_secret_accepted_once_witness:
  "\<exists>w now secret expires. Register w now secret expires \<in> {Register (Ok ()) 0 ''s'' 9}
     \<and> hash_pairing_secret sample_sha ''s'' = hash_pairing_secret sample_sha secret"
proof -
  let ?f = "Stored [(hash_pairing_secret sample_sha ''s'', \<lparr> pm_expires_at = 9, pm_created_at = 0 \<rparr>)]"
  let ?p = "Present (Ok ()) 5 ''s''"
  have 1: "fst (pairing_act sample_sha ?f ?p) = Some (hash_pairing_secret sample_sha ''s'')"
    by (simp add: pairing_defs pairing_key_def hmem_def Let_def)
  have 2: "fst (pairing_act sample_sha (after (pairing_act sample_sha) ?f [?p, Register (Ok ()) 0 ''s'' 9]) ?p)
      = Some (hash_pairing_secret sample_sha ''s'')"
    by (simp add: pairing_defs pairing_key_def hmem_def Let_def)
  from pairing_secret_accepted_once [OF 1 2] show ?thesis by simp
qed

section \<open>Wallet challenges\<close>

record node_identity =
  ni_node_id :: string
  ni_public_key :: "8 word list"
  ni_private_key :: "8 word list"
  ni_ml_dsa_commitment :: "8 word list option"

definition ml_dsa_commitment_hex :: "node_identity \<Rightarrow> string option" where
  "ml_dsa_commitment_hex identity = map_option hex_encode (ni_ml_dsa_commitment identity)"

record wallet_challenge =
  wc_challenge_id :: string
  wc_wallet_id :: string
  wc_nonce_hex :: string
  wc_expires_at :: "64 word"

record wallet_proof =
  wp_challenge_id :: string
  wp_public_key_hex :: string
  wp_signature_hex :: string

type_synonym wallet_pending = "(string, wallet_challenge) hmap"

definition derive_wallet_id :: "(8 word list \<Rightarrow> 8 word list) \<Rightarrow> 8 word list \<Rightarrow> string" where
  "derive_wallet_id sha256 pubkey = hex_encode (sha256 pubkey)"

text \<open>\<open>issue_wallet_challenge\<close>: the identifier and the nonce are drawn by the caller of the model.\<close>

definition issue_wallet_challenge :: "64 word \<Rightarrow> string \<Rightarrow> 8 word list \<Rightarrow> string \<Rightarrow> wallet_pending
    \<Rightarrow> (wallet_challenge, string) result \<times> wallet_pending" where
  "issue_wallet_challenge now uuid nonce wallet_id pending0 =
     (let pending1 = filter (\<lambda>(_, c). now \<le> wc_expires_at c) pending0
      in if 1024 \<le> length pending1 then (Err ''too many pending wallet challenges'', pending1)
         else
           let challenge = \<lparr> wc_challenge_id = uuid, wc_wallet_id = wallet_id, wc_nonce_hex = hex_encode nonce,
                             wc_expires_at = now + 60 \<rparr>
           in (Ok challenge, hput (wc_challenge_id challenge) challenge pending1))"

definition bar_join :: "string list \<Rightarrow> string" where
  "bar_join parts = (case parts of [] \<Rightarrow> [] | p # ps \<Rightarrow> p @ concat (map (\<lambda>q. CHR ''|'' # q) ps))"

definition wallet_registration_payload :: "wallet_challenge \<Rightarrow> string \<Rightarrow> 8 word list" where
  "wallet_registration_payload c node_id = bytes_of (bar_join [''swal-private-mesh-wallet-register-v1'',
     wc_challenge_id c, wc_nonce_hex c, wc_wallet_id c, node_id, nat_dec (unat (wc_expires_at c))])"

definition wallet_action_payload :: "wallet_challenge \<Rightarrow> string \<Rightarrow> string \<Rightarrow> 8 word list" where
  "wallet_action_payload c action scope = bytes_of (bar_join [''swal-private-mesh-wallet-action-v1'',
     wc_challenge_id c, wc_nonce_hex c, wc_wallet_id c, action, scope, nat_dec (unat (wc_expires_at c))])"

definition sign_wallet_registration ::
  "(node_identity \<Rightarrow> 8 word list \<Rightarrow> 8 word list) \<Rightarrow> node_identity \<Rightarrow> wallet_challenge \<Rightarrow> string \<Rightarrow> wallet_proof" where
  "sign_wallet_registration sign wallet_key c node_id = (let payload = wallet_registration_payload c node_id in
     \<lparr> wp_challenge_id = wc_challenge_id c, wp_public_key_hex = hex_encode (ni_public_key wallet_key),
       wp_signature_hex = hex_encode (sign wallet_key payload) \<rparr>)"

definition sign_wallet_action ::
  "(node_identity \<Rightarrow> 8 word list \<Rightarrow> 8 word list) \<Rightarrow> node_identity \<Rightarrow> wallet_challenge \<Rightarrow> string \<Rightarrow> string \<Rightarrow> wallet_proof" where
  "sign_wallet_action sign wallet_key c action scope = (let payload = wallet_action_payload c action scope in
     \<lparr> wp_challenge_id = wc_challenge_id c, wp_public_key_hex = hex_encode (ni_public_key wallet_key),
       wp_signature_hex = hex_encode (sign wallet_key payload) \<rparr>)"

definition consume_challenge :: "(8 word list \<Rightarrow> 8 word list) \<Rightarrow> 64 word \<Rightarrow> wallet_proof \<Rightarrow> string \<Rightarrow> wallet_pending
    \<Rightarrow> (wallet_challenge \<times> 8 word list, string) result \<times> wallet_pending" where
  "consume_challenge sha256 now pf wallet_id pending0 =
     (case hget pending0 (wp_challenge_id pf) of
        None \<Rightarrow> (Err ''unknown or already-used challenge'', pending0)
      | Some challenge \<Rightarrow>
          let pending1 = hdel (wp_challenge_id pf) pending0 in
          if wc_expires_at challenge < now then (Err ''challenge expired'', pending1)
          else if wc_wallet_id challenge \<noteq> wallet_id then (Err ''challenge was issued for a different wallet'', pending1)
          else (case hex_decode (wp_public_key_hex pf) of
            Err e \<Rightarrow> (Err e, pending1)
          | Ok public_key \<Rightarrow>
              if derive_wallet_id sha256 public_key \<noteq> wallet_id
              then (Err ''public key does not match wallet id'', pending1)
              else (Ok (challenge, public_key), pending1)))"

definition verify_wallet_registration :: "(8 word list \<Rightarrow> 8 word list) \<Rightarrow>
    (8 word list \<Rightarrow> 8 word list \<Rightarrow> 8 word list \<Rightarrow> bool) \<Rightarrow> 64 word \<Rightarrow> wallet_proof \<Rightarrow> string \<Rightarrow> string
    \<Rightarrow> wallet_pending \<Rightarrow> (unit, string) result \<times> wallet_pending" where
  "verify_wallet_registration sha256 verify now pf wallet_id node_id pending0 =
     (case consume_challenge sha256 now pf wallet_id pending0 of
        (Err e, p) \<Rightarrow> (Err e, p)
      | (Ok (challenge, public_key), p) \<Rightarrow> (case hex_decode (wp_signature_hex pf) of
          Err e \<Rightarrow> (Err e, p)
        | Ok signature \<Rightarrow>
            let payload = wallet_registration_payload challenge node_id in
            if \<not> verify public_key payload signature then (Err ''invalid registration signature'', p)
            else (Ok (), p)))"

definition verify_wallet_action :: "(8 word list \<Rightarrow> 8 word list) \<Rightarrow>
    (8 word list \<Rightarrow> 8 word list \<Rightarrow> 8 word list \<Rightarrow> bool) \<Rightarrow> 64 word \<Rightarrow> wallet_proof \<Rightarrow> string \<Rightarrow> string \<Rightarrow> string
    \<Rightarrow> wallet_pending \<Rightarrow> (unit, string) result \<times> wallet_pending" where
  "verify_wallet_action sha256 verify now pf wallet_id action scope pending0 =
     (case consume_challenge sha256 now pf wallet_id pending0 of
        (Err e, p) \<Rightarrow> (Err e, p)
      | (Ok (challenge, public_key), p) \<Rightarrow> (case hex_decode (wp_signature_hex pf) of
          Err e \<Rightarrow> (Err e, p)
        | Ok signature \<Rightarrow>
            let payload = wallet_action_payload challenge action scope in
            if \<not> verify public_key payload signature then (Err ''invalid action signature'', p)
            else (Ok (), p)))"

datatype wallet_act =
    IssueWallet "64 word" string "8 word list" string
  | VerifyRegistration "64 word" wallet_proof string string
  | VerifyAction "64 word" wallet_proof string string string

text \<open>The step of the pending map; an accepted proof uses up its challenge.\<close>

definition wallet_step :: "(8 word list \<Rightarrow> 8 word list) \<Rightarrow> (8 word list \<Rightarrow> 8 word list \<Rightarrow> 8 word list \<Rightarrow> bool)
    \<Rightarrow> wallet_pending \<Rightarrow> wallet_act \<Rightarrow> string option \<times> wallet_pending" where
  "wallet_step sha256 verify p a = (case a of
     IssueWallet now uuid nonce wallet_id \<Rightarrow> (None, snd (issue_wallet_challenge now uuid nonce wallet_id p))
   | VerifyRegistration now pf wallet_id node_id \<Rightarrow>
       (let (res, p') = verify_wallet_registration sha256 verify now pf wallet_id node_id p
        in (if res = Ok () then Some (wp_challenge_id pf) else None, p'))
   | VerifyAction now pf wallet_id action scope \<Rightarrow>
       (let (res, p') = verify_wallet_action sha256 verify now pf wallet_id action scope p
        in (if res = Ok () then Some (wp_challenge_id pf) else None, p')))"

definition wallet_renews :: "wallet_act \<Rightarrow> string \<Rightarrow> bool" where
  "wallet_renews a k = (case a of IssueWallet _ uuid _ _ \<Rightarrow> k = uuid | _ \<Rightarrow> False)"

lemma hdel_absent: "hget m k = None \<Longrightarrow> hdel k m = m"
  by (rule delete_id) (simp add: map_of_eq_None_iff)

lemma consume_challenge_pending [simp]:
  "snd (consume_challenge sha256 now pf wallet_id p) = hdel (wp_challenge_id pf) p"
  by (simp add: consume_challenge_def Let_def hdel_absent split: option.split sum.split)

lemma consume_challenge_Ok:
  "fst (consume_challenge sha256 now pf wallet_id p) = Ok (c, pk) \<longleftrightarrow>
     hget p (wp_challenge_id pf) = Some c \<and> now \<le> wc_expires_at c \<and> wc_wallet_id c = wallet_id
     \<and> hex_decode (wp_public_key_hex pf) = Ok pk \<and> derive_wallet_id sha256 pk = wallet_id"
  by (auto simp: consume_challenge_def Let_def not_less split: option.split sum.split)

lemma verify_registration_pending [simp]:
  "snd (verify_wallet_registration sha256 verify now pf wallet_id node_id p) = hdel (wp_challenge_id pf) p"
  using consume_challenge_pending [of sha256 now pf wallet_id p]
  by (auto simp: verify_wallet_registration_def Let_def simp del: consume_challenge_pending split: prod.split sum.split)

lemma verify_action_pending [simp]:
  "snd (verify_wallet_action sha256 verify now pf wallet_id action scope p) = hdel (wp_challenge_id pf) p"
  using consume_challenge_pending [of sha256 now pf wallet_id p]
  by (auto simp: verify_wallet_action_def Let_def simp del: consume_challenge_pending split: prod.split sum.split)

lemma verify_registration_Ok:
  "fst (verify_wallet_registration sha256 verify now pf wallet_id node_id p) = Ok () \<longleftrightarrow>
     (\<exists>c pk sg. fst (consume_challenge sha256 now pf wallet_id p) = Ok (c, pk)
        \<and> hex_decode (wp_signature_hex pf) = Ok sg \<and> verify pk (wallet_registration_payload c node_id) sg)"
  by (auto simp: verify_wallet_registration_def Let_def split: prod.split sum.split)

lemma verify_action_Ok:
  "fst (verify_wallet_action sha256 verify now pf wallet_id action scope p) = Ok () \<longleftrightarrow>
     (\<exists>c pk sg. fst (consume_challenge sha256 now pf wallet_id p) = Ok (c, pk)
        \<and> hex_decode (wp_signature_hex pf) = Ok sg \<and> verify pk (wallet_action_payload c action scope) sg)"
  by (auto simp: verify_wallet_action_def Let_def split: prod.split sum.split)

lemma wallet_step_simps:
  "wallet_step sha256 verify p (IssueWallet t uuid nonce w) = (None, snd (issue_wallet_challenge t uuid nonce w p))"
  "wallet_step sha256 verify p (VerifyRegistration t pf w node_id) =
     (if fst (verify_wallet_registration sha256 verify t pf w node_id p) = Ok () then Some (wp_challenge_id pf) else None,
      hdel (wp_challenge_id pf) p)"
  "wallet_step sha256 verify p (VerifyAction t pf w action scope) =
     (if fst (verify_wallet_action sha256 verify t pf w action scope p) = Ok () then Some (wp_challenge_id pf) else None,
      hdel (wp_challenge_id pf) p)"
  using verify_registration_pending [of sha256 verify t pf w node_id p]
    verify_action_pending [of sha256 verify t pf w action scope p]
  by (simp_all add: wallet_step_def case_prod_unfold del: verify_registration_pending verify_action_pending)

interpretation wallet: one_time "wallet_step sha256 verify" "(=)" "\<lambda>p k. \<not> hmem p k" wallet_renews for sha256 verify
proof
  fix s a k s' k' assume "wallet_step sha256 verify s a = (Some k, s')" and "k = k'"
  then show "\<not> hmem s' k'" by (cases a) (auto simp: wallet_step_simps split: if_splits)
next
  fix s :: wallet_pending and k a assume "\<not> hmem s k"
  then show "fst (wallet_step sha256 verify s a) \<noteq> Some k"
    by (cases a) (auto simp: wallet_step_simps verify_registration_Ok verify_action_Ok consume_challenge_Ok hmem_def)
next
  fix s :: wallet_pending and k a assume "\<not> hmem s k" "\<not> wallet_renews a k"
  then show "\<not> hmem (snd (wallet_step sha256 verify s a)) k"
    by (cases a) (auto simp: wallet_step_simps wallet_renews_def issue_wallet_challenge_def Let_def dest: hmem_filter)
qed

text \<open>A wallet proof that is accepted, for a registration or an action, answers an unexpired challenge of that wallet,
  with a key that hashes to the wallet and signed exactly that request; its challenge is used up whatever the
  answer is, and no registration proof has the signed text of an action.\<close>

theorem wallet_proof_sound:
  "(fst (verify_wallet_registration sha256 verify now pf w node_id p) = Ok () \<longleftrightarrow>
      (\<exists>c pk sg. hget p (wp_challenge_id pf) = Some c \<and> now \<le> wc_expires_at c \<and> wc_wallet_id c = w
        \<and> hex_decode (wp_public_key_hex pf) = Ok pk \<and> hex_encode (sha256 pk) = w
        \<and> hex_decode (wp_signature_hex pf) = Ok sg \<and> verify pk (wallet_registration_payload c node_id) sg))
   \<and> (fst (verify_wallet_action sha256 verify now pf w action scope p) = Ok () \<longleftrightarrow>
      (\<exists>c pk sg. hget p (wp_challenge_id pf) = Some c \<and> now \<le> wc_expires_at c \<and> wc_wallet_id c = w
        \<and> hex_decode (wp_public_key_hex pf) = Ok pk \<and> hex_encode (sha256 pk) = w
        \<and> hex_decode (wp_signature_hex pf) = Ok sg \<and> verify pk (wallet_action_payload c action scope) sg))
   \<and> hget (snd (verify_wallet_registration sha256 verify now pf w node_id p)) (wp_challenge_id pf) = None
   \<and> hget (snd (verify_wallet_action sha256 verify now pf w action scope p)) (wp_challenge_id pf) = None
   \<and> wallet_registration_payload c1 node_id \<noteq> wallet_action_payload c2 action scope"
proof -
  have "wallet_registration_payload c1 node_id ! 25 \<noteq> wallet_action_payload c2 action scope ! 25"
    by (simp add: wallet_registration_payload_def wallet_action_payload_def bar_join_def bytes_of_def)
  then have "wallet_registration_payload c1 node_id \<noteq> wallet_action_payload c2 action scope" by metis
  then show ?thesis
    by (auto simp: verify_registration_Ok verify_action_Ok consume_challenge_Ok derive_wallet_id_def)
qed

text \<open>The holder of a wallet's key who signs the challenge it was issued registers in time, and no proof for this
  challenge is accepted afterwards unless its identifier is issued again.\<close>

theorem wallet_registration_once:
  fixes node_id :: string
  assumes verify: "\<And>m. verify (ni_public_key key) m (sign key m)"
    and issued: "fst (issue_wallet_challenge t0 uuid nonce (hex_encode (sha256 (ni_public_key key))) p) = Ok c"
    and time: "t \<le> t0 + 60"
  defines "p1 \<equiv> snd (issue_wallet_challenge t0 uuid nonce (hex_encode (sha256 (ni_public_key key))) p)"
    and "pf \<equiv> sign_wallet_registration sign key c node_id"
    and "w \<equiv> hex_encode (sha256 (ni_public_key key))"
  shows "verify_wallet_registration sha256 verify t pf w node_id p1 = (Ok (), hdel uuid p1)
    \<and> (list_all (\<lambda>a. \<not> wallet_renews a uuid) later
         \<longrightarrow> fst (wallet_step sha256 verify (after (wallet_step sha256 verify) (hdel uuid p1) later) b) \<noteq> Some uuid)"
proof -
  have c: "c = \<lparr> wc_challenge_id = uuid, wc_wallet_id = w, wc_nonce_hex = hex_encode nonce, wc_expires_at = t0 + 60 \<rparr>"
    and p1: "hget p1 uuid = Some c"
    using issued by (auto simp: issue_wallet_challenge_def p1_def w_def Let_def split: if_splits)
  have id: "wp_challenge_id pf = uuid" and dec: "hex_decode (wp_public_key_hex pf) = Ok (ni_public_key key)"
    "hex_decode (wp_signature_hex pf) = Ok (sign key (wallet_registration_payload c node_id))"
    using hex_decode_loop_encode
    by (simp_all add: pf_def sign_wallet_registration_def Let_def c hex_decode_def)
  have "fst (verify_wallet_registration sha256 verify t pf w node_id p1) = Ok ()"
    using p1 time dec verify
    by (simp add: verify_registration_Ok consume_challenge_Ok id c derive_wallet_id_def w_def)
  then have ok: "verify_wallet_registration sha256 verify t pf w node_id p1 = (Ok (), hdel uuid p1)"
    using verify_registration_pending [of sha256 verify t pf w node_id p1] id by (metis prod.collapse)
  have "\<not> hmem (hdel uuid p1) uuid" by simp
  then show ?thesis
    using ok wallet.spent_after [of "hdel uuid p1" uuid later] wallet.spent_refused by (auto simp: list_all_iff)
qed

lemma wallet_registration_once_witness:
  "fst (verify_wallet_registration sample_sha (\<lambda>pk m sg. sg = pk @ m) 50
     (sign_wallet_registration (\<lambda>k m. ni_public_key k @ m) \<lparr> ni_node_id = ''xv1'', ni_public_key = [7], ni_private_key = [], ni_ml_dsa_commitment = None \<rparr>
        \<lparr> wc_challenge_id = ''u'', wc_wallet_id = hex_encode (sample_sha [7]), wc_nonce_hex = hex_encode [1], wc_expires_at = 60 \<rparr> ''xv1'')
     (hex_encode (sample_sha [7])) ''xv1''
     [(''u'', \<lparr> wc_challenge_id = ''u'', wc_wallet_id = hex_encode (sample_sha [7]), wc_nonce_hex = hex_encode [1], wc_expires_at = 60 \<rparr>)])
   = Ok ()"
proof -
  let ?k = "\<lparr> ni_node_id = ''xv1'', ni_public_key = [7], ni_private_key = [], ni_ml_dsa_commitment = None \<rparr>"
  let ?c = "\<lparr> wc_challenge_id = ''u'', wc_wallet_id = hex_encode (sample_sha [7]), wc_nonce_hex = hex_encode [1], wc_expires_at = 60 \<rparr>"
  have i: "issue_wallet_challenge 0 ''u'' [1] (hex_encode (sample_sha (ni_public_key ?k))) [] = (Ok ?c, [(''u'', ?c)])"
    by (simp add: issue_wallet_challenge_def Let_def)
  have "fst (issue_wallet_challenge 0 ''u'' [1] (hex_encode (sample_sha (ni_public_key ?k))) []) = Ok ?c" using i by simp
  from wallet_registration_once [where key = ?k and ?sha256.0 = sample_sha and p = "[]" and uuid = "''u''" and nonce = "[1]"
      and ?t0.0 = 0 and c = ?c and verify = "\<lambda>pk m sg. sg = pk @ m" and sign = "\<lambda>k m. ni_public_key k @ m"
      and t = 50 and node_id = "''xv1''", OF _ this]
  show ?thesis using i by simp
qed

text \<open>The pending map stays within 1024 entries, and the identifiers are its keys.\<close>

lemma issue_wallet_bounded:
  assumes "length p \<le> 1024"
  shows "length (snd (issue_wallet_challenge t uuid nonce w p)) \<le> 1024"
proof -
  have "length (filter (\<lambda>(_, c). t \<le> wc_expires_at c) p) \<le> 1024"
    using assms by (rule order_trans [OF length_filter_le])
  then show ?thesis by (auto simp: issue_wallet_challenge_def Let_def length_hput not_le Suc_le_eq)
qed

section \<open>Node challenges\<close>

record nonce_challenge =
  nc_challenge_id :: string
  nc_nonce_hex :: string
  nc_issued_at :: "64 word"
  nc_expires_at :: "64 word"

record nonce_response =
  nr_challenge_id :: string
  nr_nonce_hex :: string
  nr_node_id :: string
  nr_public_key_hex :: string
  nr_ml_dsa_commitment_hex :: "string option"
  nr_signature_hex :: string
  nr_timestamp :: "64 word"

type_synonym nonce_pending = "(string, nonce_challenge) hmap"

definition challenge_sign_payload :: "nonce_challenge \<Rightarrow> string \<Rightarrow> 8 word list" where
  "challenge_sign_payload c node_id = bytes_of (bar_join [''swal-mesh-signed-nonce-v1'', nc_challenge_id c,
     nc_nonce_hex c, nat_dec (unat (nc_issued_at c)), nat_dec (unat (nc_expires_at c)), node_id])"

definition create_signed_nonce_challenge :: "64 word \<Rightarrow> string \<Rightarrow> 8 word list \<Rightarrow> 64 word option \<Rightarrow> nonce_pending
    \<Rightarrow> nonce_challenge \<times> nonce_pending" where
  "create_signed_nonce_challenge now uuid nonce ttl_secs p =
     (let ttl = (case ttl_secs of None \<Rightarrow> 60 | Some t \<Rightarrow> t);
          challenge = \<lparr> nc_challenge_id = uuid, nc_nonce_hex = hex_encode nonce, nc_issued_at = now,
                        nc_expires_at = now + ttl \<rparr>
      in (challenge, hput (nc_challenge_id challenge) challenge p))"

definition sign_nonce_challenge :: "(node_identity \<Rightarrow> 8 word list \<Rightarrow> 8 word list) \<Rightarrow> 64 word \<Rightarrow> 64 word
    \<Rightarrow> node_identity \<Rightarrow> nonce_challenge \<Rightarrow> (nonce_response, string) result" where
  "sign_nonce_challenge sign now later identity challenge =
     (if nc_expires_at challenge < now then Err ''challenge expired''
      else
        let payload = challenge_sign_payload challenge (ni_node_id identity);
            signature_hex = hex_encode (sign identity payload)
        in Ok \<lparr> nr_challenge_id = nc_challenge_id challenge, nr_nonce_hex = nc_nonce_hex challenge,
                nr_node_id = ni_node_id identity, nr_public_key_hex = hex_encode (ni_public_key identity),
                nr_ml_dsa_commitment_hex = ml_dsa_commitment_hex identity, nr_signature_hex = signature_hex,
                nr_timestamp = later \<rparr>)"

definition verify_nonce_response :: "(8 word list \<Rightarrow> 8 word list) \<Rightarrow>
    (8 word list \<Rightarrow> 8 word list \<Rightarrow> 8 word list \<Rightarrow> bool) \<Rightarrow> 64 word \<Rightarrow> nonce_response \<Rightarrow> nonce_pending
    \<Rightarrow> (string, string) result \<times> nonce_pending" where
  "verify_nonce_response sha256 verify now r p =
     (case hget p (nr_challenge_id r) of
        None \<Rightarrow> (Err ''unknown or already-used challenge'', p)
      | Some challenge \<Rightarrow>
          let p' = hdel (nr_challenge_id r) p in
          if nc_expires_at challenge < now then (Err ''challenge expired'', p')
          else if nr_nonce_hex r \<noteq> nc_nonce_hex challenge then (Err ''nonce mismatch'', p')
          else (case node_id_parse (nr_node_id r) of
            Err e \<Rightarrow> (Err e, p')
          | Ok node_id \<Rightarrow> (case hex_decode (nr_public_key_hex r) of
              Err e \<Rightarrow> (Err e, p')
            | Ok pk \<Rightarrow>
                let expected_id = node_id_from_public_key sha256 pk in
                if expected_id \<noteq> node_id then (Err ''node_id does not match public key'', p')
                else (case hex_decode (nr_signature_hex r) of
                  Err e \<Rightarrow> (Err e, p')
                | Ok sig \<Rightarrow>
                    let payload = challenge_sign_payload challenge node_id in
                    if \<not> verify pk payload sig then (Err ''invalid challenge signature'', p')
                    else (Ok node_id, p')))))"

datatype nonce_act = CreateChallenge "64 word" string "8 word list" "64 word option" | VerifyResponse "64 word" nonce_response

definition nonce_step :: "(8 word list \<Rightarrow> 8 word list) \<Rightarrow> (8 word list \<Rightarrow> 8 word list \<Rightarrow> 8 word list \<Rightarrow> bool)
    \<Rightarrow> nonce_pending \<Rightarrow> nonce_act \<Rightarrow> string option \<times> nonce_pending" where
  "nonce_step sha256 verify p a = (case a of
     CreateChallenge now uuid nonce ttl \<Rightarrow> (None, snd (create_signed_nonce_challenge now uuid nonce ttl p))
   | VerifyResponse now r \<Rightarrow>
       (let (res, p') = verify_nonce_response sha256 verify now r p
        in (if is_ok res then Some (nr_challenge_id r) else None, p')))"

definition nonce_renews :: "nonce_act \<Rightarrow> string \<Rightarrow> bool" where
  "nonce_renews a k = (case a of CreateChallenge _ uuid _ _ \<Rightarrow> k = uuid | _ \<Rightarrow> False)"

lemma verify_response_pending [simp]:
  "snd (verify_nonce_response sha256 verify now r p) = hdel (nr_challenge_id r) p"
  by (simp add: verify_nonce_response_def Let_def hdel_absent split: option.split sum.split)

lemma verify_response_Ok:
  "fst (verify_nonce_response sha256 verify now r p) = Ok n \<longleftrightarrow>
     (\<exists>c pk sig. hget p (nr_challenge_id r) = Some c \<and> now \<le> nc_expires_at c \<and> nr_nonce_hex r = nc_nonce_hex c
        \<and> node_id_parse (nr_node_id r) = Ok n \<and> hex_decode (nr_public_key_hex r) = Ok pk
        \<and> node_id_from_public_key sha256 pk = n \<and> hex_decode (nr_signature_hex r) = Ok sig
        \<and> verify pk (challenge_sign_payload c n) sig)"
  by (auto simp: verify_nonce_response_def Let_def not_less split: option.split sum.split)

lemma nonce_step_simps:
  "nonce_step sha256 verify p (CreateChallenge t uuid nonce ttl) = (None, snd (create_signed_nonce_challenge t uuid nonce ttl p))"
  "nonce_step sha256 verify p (VerifyResponse t r) =
     (if is_ok (fst (verify_nonce_response sha256 verify t r p)) then Some (nr_challenge_id r) else None,
      hdel (nr_challenge_id r) p)"
  using verify_response_pending [of sha256 verify t r p]
  by (simp_all add: nonce_step_def case_prod_unfold del: verify_response_pending)

interpretation node: one_time "nonce_step sha256 verify" "(=)" "\<lambda>p k. \<not> hmem p k" nonce_renews for sha256 verify
proof
  fix s a k s' k' assume "nonce_step sha256 verify s a = (Some k, s')" and "k = k'"
  then show "\<not> hmem s' k'" by (cases a) (auto simp: nonce_step_simps split: if_splits)
next
  fix s :: nonce_pending and k a assume "\<not> hmem s k"
  then show "fst (nonce_step sha256 verify s a) \<noteq> Some k"
    by (cases a) (auto simp: nonce_step_simps is_ok_iff verify_response_Ok hmem_def)
next
  fix s :: nonce_pending and k a assume "\<not> hmem s k" "\<not> nonce_renews a k"
  then show "\<not> hmem (snd (nonce_step sha256 verify s a)) k"
    by (cases a) (auto simp: nonce_step_simps nonce_renews_def create_signed_nonce_challenge_def Let_def)
qed

text \<open>A node that answers a challenge in time with the key its identifier is derived from is recognised as that
  node; an answer recognised as a node carries a key that hashes to the node's identifier and a signature over the
  challenge; and no second answer to the challenge is accepted unless its identifier is issued again.\<close>

theorem node_challenge_once:
  assumes sha: "\<And>x. length (sha256 x) = 32"
    and verify: "\<And>m. verify (ni_public_key key) m (sign key m)"
    and own: "ni_node_id key = node_id_from_public_key sha256 (ni_public_key key)"
    and created: "create_signed_nonce_challenge t0 uuid nonce ttl p = (c, p1)"
    and signed: "sign_nonce_challenge sign t1 t2 key c = Ok r" and time: "t \<le> nc_expires_at c"
  shows "verify_nonce_response sha256 verify t r p1 = (Ok (ni_node_id key), hdel uuid p1)
    \<and> (fst (verify_nonce_response sha256 verify t r' p1) = Ok n \<longrightarrow>
         (\<exists>pk sg c'. hget p1 (nr_challenge_id r') = Some c' \<and> n = node_id_from_public_key sha256 pk
            \<and> verify pk (challenge_sign_payload c' n) sg))
    \<and> (list_all (\<lambda>a. \<not> nonce_renews a uuid) later
         \<longrightarrow> fst (nonce_step sha256 verify (after (nonce_step sha256 verify) (hdel uuid p1) later) b) \<noteq> Some uuid)"
proof -
  have c: "nc_challenge_id c = uuid" and p1: "hget p1 uuid = Some c"
    using created by (auto simp: create_signed_nonce_challenge_def Let_def)
  have r: "nr_challenge_id r = uuid" "nr_nonce_hex r = nc_nonce_hex c" "nr_node_id r = ni_node_id key"
    "hex_decode (nr_public_key_hex r) = Ok (ni_public_key key)"
    "hex_decode (nr_signature_hex r) = Ok (sign key (challenge_sign_payload c (ni_node_id key)))"
    using signed hex_decode_loop_encode c
    by (auto simp: sign_nonce_challenge_def Let_def hex_decode_def split: if_splits)
  have "node_id_parse (ni_node_id key) = Ok (ni_node_id key)"
    using node_id_facts(2) [of sha256 "ni_public_key key"] sha own by simp
  then have "fst (verify_nonce_response sha256 verify t r p1) = Ok (ni_node_id key)"
    using p1 time verify own by (simp add: verify_response_Ok r)
  then have ok: "verify_nonce_response sha256 verify t r p1 = (Ok (ni_node_id key), hdel uuid p1)"
    using verify_response_pending [of sha256 verify t r p1] r(1) by (metis prod.collapse)
  have "\<not> hmem (hdel uuid p1) uuid" by simp
  then show ?thesis
    using ok node.spent_after [of "hdel uuid p1" uuid later] node.spent_refused
    by (auto simp: list_all_iff verify_response_Ok)
qed

lemma node_challenge_once_witness:
  "\<exists>r p1. fst (verify_nonce_response sample_sha (\<lambda>pk m sg. sg = pk @ m) 50 r p1)
     = Ok (node_id_from_public_key sample_sha [7])"
proof -
  let ?k = "\<lparr> ni_node_id = node_id_from_public_key sample_sha [7], ni_public_key = [7], ni_private_key = [], ni_ml_dsa_commitment = None \<rparr>"
  let ?create = "create_signed_nonce_challenge 0 ''u'' [1] None []"
  let ?r = "case sign_nonce_challenge (\<lambda>k m. ni_public_key k @ m) 10 11 ?k (fst ?create) of Ok r \<Rightarrow> r | Err e \<Rightarrow> undefined"
  have s: "sign_nonce_challenge (\<lambda>k m. ni_public_key k @ m) 10 11 ?k (fst ?create) = Ok ?r"
    by (simp add: sign_nonce_challenge_def create_signed_nonce_challenge_def Let_def)
  have "fst (verify_nonce_response sample_sha (\<lambda>pk m sg. sg = pk @ m) 50 ?r (snd ?create)) = Ok (ni_node_id ?k)"
    using node_challenge_once [where key = ?k and ?sha256.0 = sample_sha and verify = "\<lambda>pk m sg. sg = pk @ m"
        and sign = "\<lambda>k m. ni_public_key k @ m" and c = "fst ?create" and ?p1.0 = "snd ?create" and r = ?r and t = 50,
        OF _ _ _ prod.collapse [symmetric] s]
    by (simp add: sample_sha_def create_signed_nonce_challenge_def Let_def)
  then show ?thesis by auto
qed

end
