(* ===== verification/RequestClearance.thy ===== *)
theory RequestClearance
  imports InfoGroups TextCodes
begin

text \<open>The level a request gets and the routes it may use:
  \<open>src/src/adapters/inbound/http/middleware/clearance.rs\<close>, the route policy of
  \<open>src/src/security/route_policy.rs\<close>, the cached group registry of \<open>src/src/security/groups.rs\<close> and the audit
  entries of \<open>src/src/security/clearance_audit.rs\<close>. Arguments: the process environment, what the file system
  answers, the JSON decoder, SHA-256, and the headers, where a lookup gives the text of the value if it has one.\<close>

section \<open>Identity\<close>

record claims =
  cl_sub :: string
  cl_email :: string
  cl_role :: user_role
  cl_exp :: int
  cl_iat :: int

type_synonym headers = "string \<Rightarrow> string option option"

definition trusts_clearance_header :: "(string \<Rightarrow> string option) \<Rightarrow> bool" where
  "trusts_clearance_header env =
     (env ''XAVIER_CLEARANCE_TRUST_HEADER'' \<in> {Some ''1'', Some ''true'', Some ''TRUE'', Some ''yes''})"

definition clearance_from_claims :: "claims option \<Rightarrow> clearance" where
  "clearance_from_claims c = (case c of None \<Rightarrow> Unclassified | Some c \<Rightarrow> role_clearance (cl_role c))"

definition resolve_requester_clearance :: "(string \<Rightarrow> string option) \<Rightarrow> headers \<Rightarrow> claims option \<Rightarrow> clearance" where
  "resolve_requester_clearance env hs c = (case c of
     Some claims \<Rightarrow> role_clearance (cl_role claims)
   | None \<Rightarrow>
       if trusts_clearance_header env then
         (case hs ''x-clearance'' of
            Some (Some s) \<Rightarrow> parse_requester_level s
          | _ \<Rightarrow> Unclassified)
       else Unclassified)"

definition effective_clearance_with ::
  "clearance \<Rightarrow> string list \<Rightarrow> (string list \<Rightarrow> clearance option) \<Rightarrow> clearance" where
  "effective_clearance_with base member_ids ceiling_lookup = (case ceiling_lookup member_ids of
     Some segment_level \<Rightarrow> max base segment_level
   | None \<Rightarrow> base)"

section \<open>Files read through a cache\<close>

text \<open>A file: its modification time, if the system has one, its size and its content.\<close>

record 'a disk_file =
  df_mtime :: "nat option"
  df_len :: nat
  df_content :: 'a

text \<open>\<open>shared_registry_at\<close>, with the cache of the last registry read.\<close>

type_synonym group_cache = "(string \<times> nat \<times> nat \<times> group_registry) option"

definition shared_registry_at ::
  "(string \<Rightarrow> storage_file disk_file option) \<Rightarrow> string \<Rightarrow> group_cache \<Rightarrow> group_registry option \<times> group_cache" where
  "shared_registry_at fs path cache = (case fs path of
     None \<Rightarrow> (None, cache)
   | Some meta \<Rightarrow> (case df_mtime meta of
       None \<Rightarrow> (None, cache)
     | Some stamp \<Rightarrow>
         (case (case cache of
                  None \<Rightarrow> None
                | Some (cached_path, cached_stamp, cached_len, registry) \<Rightarrow>
                    if cached_path = path \<and> cached_stamp = stamp \<and> cached_len = df_len meta then Some registry else None) of
            Some registry \<Rightarrow> (Some registry, cache)
          | None \<Rightarrow> (case registry_load_from (df_content meta) of
              Err _ \<Rightarrow> (None, cache)
            | Ok registry \<Rightarrow> (Some registry, Some (path, stamp, df_len meta, registry))))))"

definition shared_member_ceiling_at :: "(string \<Rightarrow> storage_file disk_file option) \<Rightarrow> string \<Rightarrow> string list
    \<Rightarrow> group_cache \<Rightarrow> clearance option \<times> group_cache" where
  "shared_member_ceiling_at fs path member_ids cache =
     (case shared_registry_at fs path cache of
        (None, c) \<Rightarrow> (None, c)
      | (Some registry, c) \<Rightarrow> (member_ceiling registry member_ids, c))"

definition GROUPS_STORAGE_PATH :: string where
  "GROUPS_STORAGE_PATH = ''data/security/groups.json''"

definition shared_member_ceiling ::
  "(string \<Rightarrow> storage_file disk_file option) \<Rightarrow> string list \<Rightarrow> group_cache \<Rightarrow> clearance option \<times> group_cache" where
  "shared_member_ceiling fs member_ids cache = shared_member_ceiling_at fs GROUPS_STORAGE_PATH member_ids cache"

definition resolve_effective_clearance :: "(string \<Rightarrow> string option) \<Rightarrow> (string \<Rightarrow> storage_file disk_file option)
    \<Rightarrow> headers \<Rightarrow> claims option \<Rightarrow> group_cache \<Rightarrow> clearance \<times> group_cache" where
  "resolve_effective_clearance env fs hs c cache =
     (let base = resolve_requester_clearance env hs c in
      case c of
        None \<Rightarrow> (base, cache)
      | Some claims \<Rightarrow>
          (let (ceil, cache') = shared_member_ceiling fs [cl_sub claims, cl_email claims] cache
           in (effective_clearance_with base [cl_sub claims, cl_email claims] (\<lambda>_. ceil), cache')))"

section \<open>Route policy\<close>

record route_rule =
  rr_prefix :: string
  rr_required :: string
  rr_enabled :: bool

type_synonym route_policy = "route_rule list"

definition default_rules :: route_policy where
  "default_rules =
     [\<lparr> rr_prefix = ''/memory/export'', rr_required = ''INTERNAL'', rr_enabled = True \<rparr>,
      \<lparr> rr_prefix = ''/v1/memory/export-markdown'', rr_required = ''INTERNAL'', rr_enabled = True \<rparr>]"

text \<open>\<open>Iterator::max_by_key\<close> keeps the last of the largest.\<close>

definition max_by_key :: "('a \<Rightarrow> nat) \<Rightarrow> 'a list \<Rightarrow> 'a option" where
  "max_by_key f xs = foldl (\<lambda>acc x. case acc of None \<Rightarrow> Some x | Some y \<Rightarrow> if f y \<le> f x then Some x else Some y) None xs"

definition required_for :: "route_policy \<Rightarrow> string \<Rightarrow> clearance option" where
  "required_for routes path =
     map_option (\<lambda>rule. parse_required_level (rr_required rule))
       (max_by_key (\<lambda>rule. length (rr_prefix rule))
         (filter (\<lambda>rule. rr_enabled rule \<and> starts_with path (rr_prefix rule)) routes))"

text \<open>The policy file: its text, if it can be read.\<close>

type_synonym policy_cache = "(string \<times> nat \<times> nat \<times> route_policy) option"

definition load_from_file :: "(string \<Rightarrow> route_policy option) \<Rightarrow> string option disk_file \<Rightarrow> route_policy option" where
  "load_from_file from_json file = (case df_content file of None \<Rightarrow> None | Some raw \<Rightarrow> from_json raw)"

definition active_policy :: "(string \<Rightarrow> route_policy option) \<Rightarrow> (string \<Rightarrow> string option)
    \<Rightarrow> (string \<Rightarrow> string option disk_file option) \<Rightarrow> policy_cache \<Rightarrow> route_policy \<times> policy_cache" where
  "active_policy from_json env fs cache =
     (case Option.bind (env ''XAVIER_REQUIRED_CLEARANCE_ROUTES'') from_json of
        Some policy \<Rightarrow> (policy, cache)
      | None \<Rightarrow>
          let path = ''data/security/route_clearance.json'' in
          (case fs path of
             None \<Rightarrow> (default_rules, cache)
           | Some meta \<Rightarrow>
               let stamp = (case df_mtime meta of Some t \<Rightarrow> t | None \<Rightarrow> 0); len = df_len meta in
               (case (case cache of
                        None \<Rightarrow> None
                      | Some (cached_path, cached_stamp, cached_len, policy) \<Rightarrow>
                          if cached_path = path \<and> cached_stamp = stamp \<and> cached_len = len then Some policy else None) of
                  Some policy \<Rightarrow> (policy, cache)
                | None \<Rightarrow> (case load_from_file from_json meta of
                    Some policy \<Rightarrow> (policy, Some (path, stamp, len, policy))
                  | None \<Rightarrow> (default_rules, cache)))))"

definition required_for_path :: "(string \<Rightarrow> route_policy option) \<Rightarrow> (string \<Rightarrow> string option)
    \<Rightarrow> (string \<Rightarrow> string option disk_file option) \<Rightarrow> string \<Rightarrow> policy_cache \<Rightarrow> clearance option \<times> policy_cache" where
  "required_for_path from_json env fs path cache =
     (let (policy, cache') = active_policy from_json env fs cache in (required_for policy path, cache'))"

section \<open>Audit and enforcement\<close>

record read_audit =
  ra_timestamp :: string
  ra_subject :: string
  ra_role :: string
  ra_requester_level :: string
  ra_route :: string
  ra_action :: string
  ra_query_hash :: string
  ra_visible :: nat
  ra_hidden_by_clearance :: nat
  ra_allowed :: bool

definition query_hash :: "(8 word list \<Rightarrow> 8 word list) \<Rightarrow> string \<Rightarrow> string" where
  "query_hash sha256 query = hex_encode (take 8 (sha256 (bytes_of query)))"

definition read_audit_new :: "(8 word list \<Rightarrow> 8 word list) \<Rightarrow> string \<Rightarrow> string \<Rightarrow> string \<Rightarrow> clearance \<Rightarrow> string \<Rightarrow> string
    \<Rightarrow> string \<Rightarrow> nat \<Rightarrow> nat \<Rightarrow> bool \<Rightarrow> read_audit" where
  "read_audit_new sha256 now subject role level route action query visible hidden allowed =
     \<lparr> ra_timestamp = now, ra_subject = subject, ra_role = role,
       ra_requester_level = ascii_upper (clearance_as_str level), ra_route = route, ra_action = action,
       ra_query_hash = query_hash sha256 query, ra_visible = visible, ra_hidden_by_clearance = hidden,
       ra_allowed = allowed \<rparr>"

text \<open>The \<open>Debug\<close> texts of roles and levels.\<close>

primrec role_debug :: "user_role \<Rightarrow> string" where
  "role_debug Admin = ''Admin''"
| "role_debug User = ''User''"
| "role_debug Readonly = ''Readonly''"

primrec clearance_debug :: "clearance \<Rightarrow> string" where
  "clearance_debug Unclassified = ''Unclassified''"
| "clearance_debug Internal = ''Internal''"
| "clearance_debug Restricted = ''Restricted''"
| "clearance_debug Confidential = ''Confidential''"
| "clearance_debug Secret = ''Secret''"
| "clearance_debug TopSecret = ''TopSecret''"

definition subject_and_role :: "claims option \<Rightarrow> string \<times> string" where
  "subject_and_role c = (case c of
     Some claims \<Rightarrow> (if cl_sub claims \<noteq> [] then cl_sub claims else cl_email claims, role_debug (cl_role claims))
   | None \<Rightarrow> (''anonymous'', ''none''))"

text \<open>The audit file is the list of its lines; \<open>io\<close> says whether a line can be appended.\<close>

definition record_denied :: "(8 word list \<Rightarrow> 8 word list) \<Rightarrow> string \<Rightarrow> bool \<Rightarrow> claims option \<Rightarrow> clearance \<Rightarrow> string
    \<Rightarrow> string \<Rightarrow> read_audit list \<Rightarrow> read_audit \<times> read_audit list" where
  "record_denied sha256 now io c level route action log =
     (let (subject, role) = subject_and_role c;
          entry = read_audit_new sha256 now subject role level route action [] 0 0 False
      in (entry, if io then log @ [entry] else log))"

record response =
  rs_status :: nat
  rs_message :: string

record gate_state =
  gs_groups :: group_cache
  gs_policy :: policy_cache
  gs_audit :: "read_audit list"

text \<open>What a request meets: environment, files, decoder, hash, clock and the audit file.\<close>

record surroundings =
  sr_env :: "string \<Rightarrow> string option"
  sr_groups_fs :: "string \<Rightarrow> storage_file disk_file option"
  sr_policy_fs :: "string \<Rightarrow> string option disk_file option"
  sr_from_json :: "string \<Rightarrow> route_policy option"
  sr_sha256 :: "8 word list \<Rightarrow> 8 word list"
  sr_now :: string
  sr_audit_io :: bool

definition enforce_route_policy ::
  "surroundings \<Rightarrow> string \<Rightarrow> clearance \<Rightarrow> claims option \<Rightarrow> gate_state \<Rightarrow> response option \<times> gate_state" where
  "enforce_route_policy env path level c st =
     (case required_for_path (sr_from_json env) (sr_env env) (sr_policy_fs env) path (gs_policy st) of
        (None, pc) \<Rightarrow> (None, st\<lparr> gs_policy := pc \<rparr>)
      | (Some required, pc) \<Rightarrow>
          if can_access level required then (None, st\<lparr> gs_policy := pc \<rparr>)
          else
            let (_, log) = record_denied (sr_sha256 env) (sr_now env) (sr_audit_io env) c level path
                             ''route_denied'' (gs_audit st)
            in (Some \<lparr> rs_status = 403, rs_message = ''Forbidden: route requires '' @ clearance_debug required
                   @ '' (requester has '' @ clearance_debug level @ '')'' \<rparr>,
                st\<lparr> gs_policy := pc, gs_audit := log \<rparr>))"

record requester_identity =
  ri_subject :: string
  ri_role :: string

datatype gate_result = Denied response | Forwarded clearance clearance_enforcer requester_identity

definition clearance_session_middleware ::
  "surroundings \<Rightarrow> headers \<Rightarrow> string \<Rightarrow> claims option \<Rightarrow> gate_state \<Rightarrow> gate_result \<times> gate_state" where
  "clearance_session_middleware env hs path c st =
     (let (level, gc) = resolve_effective_clearance (sr_env env) (sr_groups_fs env) hs c (gs_groups st);
          st1 = st\<lparr> gs_groups := gc \<rparr>
      in case enforce_route_policy env path level c st1 of
           (Some denied, st2) \<Rightarrow> (Denied denied, st2)
         | (None, st2) \<Rightarrow>
             (let (subject, role) = subject_and_role c
              in (Forwarded level \<lparr> requester_level = level \<rparr> \<lparr> ri_subject = subject, ri_role = role \<rparr>, st2)))"

text \<open>\<open>clearance_middleware\<close> has the same steps.\<close>

definition clearance_middleware ::
  "surroundings \<Rightarrow> headers \<Rightarrow> string \<Rightarrow> claims option \<Rightarrow> gate_state \<Rightarrow> gate_result \<times> gate_state" where
  "clearance_middleware = clearance_session_middleware"

section \<open>Lemmas\<close>

lemma max_by_key_foldl:
  fixes f :: "'a \<Rightarrow> nat"
  shows
  "\<exists>z. foldl (\<lambda>acc x. case acc of None \<Rightarrow> Some x | Some y \<Rightarrow> if f y \<le> f x then Some x else Some y) (Some a) xs = Some z
     \<and> z \<in> insert a (set xs) \<and> (\<forall>x\<in>insert a (set xs). f x \<le> f z)"
proof (induction xs arbitrary: a)
  case (Cons x xs)
  let ?b = "if f a \<le> f x then x else a"
  obtain z where z: "foldl (\<lambda>acc x. case acc of None \<Rightarrow> Some x | Some y \<Rightarrow> if f y \<le> f x then Some x else Some y) (Some ?b) xs = Some z"
    "z \<in> insert ?b (set xs)" "\<forall>x\<in>insert ?b (set xs). f x \<le> f z"
    using Cons.IH [of ?b] by blast
  have "f a \<le> f ?b" "f x \<le> f ?b" by auto
  moreover have "f ?b \<le> f z" using z(3) by simp
  ultimately have "f a \<le> f z" "f x \<le> f z" by (blast intro: order_trans)+
  then show ?case using z by (intro exI [of _ z]) (auto split: if_splits)
qed simp

lemma max_by_key_spec:
  "max_by_key f xs = None \<longleftrightarrow> xs = []"
  "max_by_key f xs = Some z \<Longrightarrow> z \<in> set xs \<and> (\<forall>x\<in>set xs. f x \<le> f z)"
  using max_by_key_foldl [of f "hd xs" "tl xs"] by (cases xs; force simp: max_by_key_def)+

lemma required_for_None:
  "required_for routes path = None \<longleftrightarrow> \<not> (\<exists>rule\<in>set routes. rr_enabled rule \<and> starts_with path (rr_prefix rule))"
  by (auto simp: required_for_def max_by_key_spec(1) filter_empty_conv)

lemma required_for_Some:
  assumes "required_for routes path = Some l"
  shows "\<exists>rule\<in>set routes. rr_enabled rule \<and> starts_with path (rr_prefix rule) \<and> l = parse_required_level (rr_required rule)
    \<and> (\<forall>other\<in>set routes. rr_enabled other \<and> starts_with path (rr_prefix other)
         \<longrightarrow> length (rr_prefix other) \<le> length (rr_prefix rule))"
proof -
  let ?fs = "filter (\<lambda>rule. rr_enabled rule \<and> starts_with path (rr_prefix rule)) routes"
  obtain rule where r: "max_by_key (\<lambda>rule. length (rr_prefix rule)) ?fs = Some rule"
    "l = parse_required_level (rr_required rule)"
    using assms by (auto simp: required_for_def)
  from max_by_key_spec(2) [OF r(1)] r(2) show ?thesis by auto
qed

lemma member_ceiling_SomeD:
  assumes "member_ceiling r ids = Some l"
  shows "\<exists>gid g. (gid, g) \<in> set (gr_groups r) \<and> acl_read (acl g) \<and> (\<exists>m\<in>set ids. m \<in> set (members g)) \<and> clearance_of g = l"
  using iter_max_SomeD [OF assms [unfolded member_ceiling_def]] by (fastforce simp: list_ex_iff)

text \<open>The longest enabled prefix of the path decides what a route requires, with the highest level when its text is
  not a level; nothing is required exactly when no enabled prefix matches.\<close>

theorem required_for_spec:
  "(required_for routes path = None \<longleftrightarrow> (\<forall>rule\<in>set routes. \<not> (rr_enabled rule \<and> starts_with path (rr_prefix rule))))
   \<and> (required_for routes path = Some l \<longrightarrow>
       (\<exists>rule\<in>set routes. rr_enabled rule \<and> starts_with path (rr_prefix rule)
          \<and> l = (case parse_known_level (rr_required rule) of Some k \<Rightarrow> k | None \<Rightarrow> TopSecret)
          \<and> (\<forall>other\<in>set routes. rr_enabled other \<and> starts_with path (rr_prefix other)
               \<longrightarrow> length (rr_prefix other) \<le> length (rr_prefix rule))))"
  using required_for_None [of routes path] required_for_Some [of routes path l]
  by (auto simp: parse_required_level_def)

lemma required_for_spec_witness:
  "required_for [\<lparr> rr_prefix = ''/a'', rr_required = ''INTERNAL'', rr_enabled = True \<rparr>,
     \<lparr> rr_prefix = ''/a/b'', rr_required = ''secret'', rr_enabled = True \<rparr>] ''/a/b/c'' = Some Secret
   \<and> (\<exists>rule\<in>{\<lparr> rr_prefix = ''/a'', rr_required = ''INTERNAL'', rr_enabled = True \<rparr>,
       \<lparr> rr_prefix = ''/a/b'', rr_required = ''secret'', rr_enabled = True \<rparr>}. parse_known_level (rr_required rule) = Some Secret)"
proof -
  let ?rs = "[\<lparr> rr_prefix = ''/a'', rr_required = ''INTERNAL'', rr_enabled = True \<rparr>,
     \<lparr> rr_prefix = ''/a/b'', rr_required = ''secret'', rr_enabled = True \<rparr>]"
  have r: "required_for ?rs ''/a/b/c'' = Some Secret" by code_simp
  then show ?thesis using required_for_spec [of ?rs "''/a/b/c''" Secret] by (fastforce split: option.splits)
qed

text \<open>C30: A request that is let through has the level of its role, raised at most to the level of a group with read
  permission that lists its subject or e-mail; without an identity it has the lowest level unless the operator
  trusts the header; its level reaches what the active policy requires of the route; and what reads on its behalf
  gets exactly that level.\<close>

theorem forwarded_request_level:
  assumes fwd: "fst (clearance_session_middleware env hs path c st) = Forwarded level enforcer identity"
  shows "enforcer = \<lparr> requester_level = level \<rparr>
    \<and> (case c of
         None \<Rightarrow> level = Unclassified \<or> trusts_clearance_header (sr_env env)
       | Some claims \<Rightarrow> level = role_clearance (cl_role claims)
           \<or> role_clearance (cl_role claims) < level
             \<and> (\<exists>r gid g. fst (shared_registry_at (sr_groups_fs env) GROUPS_STORAGE_PATH (gs_groups st)) = Some r
                 \<and> (gid, g) \<in> set (gr_groups r) \<and> acl_read (acl g) \<and> clearance_of g = level
                 \<and> (cl_sub claims \<in> set (members g) \<or> cl_email claims \<in> set (members g))))
    \<and> (\<forall>l. required_for (fst (active_policy (sr_from_json env) (sr_env env) (sr_policy_fs env) (gs_policy st))) path = Some l
         \<longrightarrow> l \<le> level)"
proof -
  let ?pol = "fst (active_policy (sr_from_json env) (sr_env env) (sr_policy_fs env) (gs_policy st))"
  have level: "level = fst (resolve_effective_clearance (sr_env env) (sr_groups_fs env) hs c (gs_groups st))"
    and enf: "enforcer = \<lparr> requester_level = level \<rparr>"
    using fwd by (auto simp: clearance_session_middleware_def Let_def split: prod.splits option.splits)
  have pass: "required_for ?pol path = None \<or> (\<exists>l. required_for ?pol path = Some l \<and> l \<le> level)"
    using fwd level
    by (auto simp: clearance_session_middleware_def enforce_route_policy_def required_for_path_def can_access_def
        Let_def split: prod.splits option.splits if_splits)
  have "case c of
         None \<Rightarrow> level = Unclassified \<or> trusts_clearance_header (sr_env env)
       | Some claims \<Rightarrow> level = role_clearance (cl_role claims)
           \<or> role_clearance (cl_role claims) < level
             \<and> (\<exists>r gid g. fst (shared_registry_at (sr_groups_fs env) GROUPS_STORAGE_PATH (gs_groups st)) = Some r
                 \<and> (gid, g) \<in> set (gr_groups r) \<and> acl_read (acl g) \<and> clearance_of g = level
                 \<and> (cl_sub claims \<in> set (members g) \<or> cl_email claims \<in> set (members g)))"
  proof (cases c)
    case None
    then show ?thesis using level
      by (auto simp: resolve_effective_clearance_def resolve_requester_clearance_def)
  next
    case (Some claims)
    let ?reg = "shared_registry_at (sr_groups_fs env) GROUPS_STORAGE_PATH (gs_groups st)"
    let ?ceil = "case fst ?reg of None \<Rightarrow> None | Some r \<Rightarrow> member_ceiling r [cl_sub claims, cl_email claims]"
    have "level = effective_clearance_with (role_clearance (cl_role claims)) [cl_sub claims, cl_email claims] (\<lambda>_. ?ceil)"
      using level Some
      by (auto simp: resolve_effective_clearance_def resolve_requester_clearance_def shared_member_ceiling_def
          shared_member_ceiling_at_def split: prod.splits option.splits)
    then show ?thesis
      using Some member_ceiling_SomeD [of _ "[cl_sub claims, cl_email claims]"]
      by (fastforce simp: effective_clearance_with_def max_def not_le split: option.splits if_splits)
  qed
  then show ?thesis using enf pass by auto
qed

lemma forwarded_request_level_witness:
  "\<exists>env. (case fst (clearance_session_middleware env (\<lambda>h. None) ''/memory/export''
        (Some \<lparr> cl_sub = ''ana'', cl_email = ''ana@x'', cl_role = Readonly, cl_exp = 0, cl_iat = 0 \<rparr>)
        \<lparr> gs_groups = None, gs_policy = None, gs_audit = [] \<rparr>) of Forwarded level _ _ \<Rightarrow> role_clearance Readonly < level | _ \<Rightarrow> False)"
proof -
  let ?g = "\<lparr> group_id = ''g'', group_name = ''g'', members = [''ana''],
     acl = \<lparr> acl_read = True, acl_write = False, acl_audit = True \<rparr>, clearance_of = Secret \<rparr>"
  let ?env = "\<lparr> sr_env = (\<lambda>k. None), sr_groups_fs = (\<lambda>p. Some \<lparr> df_mtime = Some 1, df_len = 1, df_content = GroupsFile [(''g'', ?g)] \<rparr>),
     sr_policy_fs = (\<lambda>p. None), sr_from_json = (\<lambda>s. None), sr_sha256 = id, sr_now = [], sr_audit_io = True \<rparr>"
  let ?c = "\<lparr> cl_sub = ''ana'', cl_email = ''ana@x'', cl_role = Readonly, cl_exp = 0, cl_iat = 0 \<rparr>"
  let ?st = "\<lparr> gs_groups = None, gs_policy = None, gs_audit = [] \<rparr>"
  have run: "fst (clearance_session_middleware ?env (\<lambda>h. None) ''/memory/export'' (Some ?c) ?st)
      = Forwarded Secret \<lparr> requester_level = Secret \<rparr> \<lparr> ri_subject = ''ana'', ri_role = ''Readonly'' \<rparr>"
    by code_simp
  from forwarded_request_level [OF run] have "role_clearance Readonly < Secret" by auto
  then show ?thesis using run by (intro exI [of _ ?env]) simp
qed

text \<open>What the caches hold after the file systems of a list of requests.\<close>

definition groups_after :: "(string \<Rightarrow> storage_file disk_file option) list \<Rightarrow> string \<Rightarrow> group_cache" where
  "groups_after fss path = foldl (\<lambda>c fs. snd (shared_registry_at fs path c)) None fss"

definition policy_after :: "(string \<Rightarrow> route_policy option) \<Rightarrow> (string \<Rightarrow> string option)
    \<Rightarrow> (string \<Rightarrow> string option disk_file option) list \<Rightarrow> policy_cache" where
  "policy_after from_json env fss = foldl (\<lambda>c fs. snd (active_policy from_json env fs c)) None fss"

lemma bex_subset: "A \<subseteq> B \<Longrightarrow> Bex A P \<Longrightarrow> Bex B P"
  by blast

lemma groups_after_cases:
  "groups_after fss path = None \<or>
   (\<exists>fs\<in>set fss. \<exists>m t r. fs path = Some m \<and> df_mtime m = Some t \<and> registry_load_from (df_content m) = Ok r
      \<and> groups_after fss path = Some (path, t, df_len m, r))"
proof (induction fss rule: rev_induct)
  case (snoc fs fss)
  have step: "snd (shared_registry_at fs path c) = c \<or> (\<exists>m t r. fs path = Some m \<and> df_mtime m = Some t
      \<and> registry_load_from (df_content m) = Ok r \<and> snd (shared_registry_at fs path c) = Some (path, t, df_len m, r))" for c
    by (auto simp: shared_registry_at_def split: option.split sum.split)
  have eq: "groups_after (fss @ [fs]) path = snd (shared_registry_at fs path (groups_after fss path))"
    by (simp add: groups_after_def)
  have fs: "fs \<in> set (fss @ [fs])" and sub: "set fss \<subseteq> set (fss @ [fs])" by auto
  from step [of "groups_after fss path"] show ?case
  proof
    assume same: "snd (shared_registry_at fs path (groups_after fss path)) = groups_after fss path"
    show ?thesis unfolding eq same using snoc
      by (elim disjE) (rule disjI1, assumption, rule disjI2, erule bex_subset [OF sub])
  next
    assume "\<exists>m t r. fs path = Some m \<and> df_mtime m = Some t \<and> registry_load_from (df_content m) = Ok r
      \<and> snd (shared_registry_at fs path (groups_after fss path)) = Some (path, t, df_len m, r)"
    then show ?thesis unfolding eq using fs by blast
  qed
qed (simp add: groups_after_def)

lemma policy_after_cases:
  "policy_after from_json env fss = None \<or>
   (\<exists>fs\<in>set fss. \<exists>m p. fs ''data/security/route_clearance.json'' = Some m \<and> load_from_file from_json m = Some p
      \<and> policy_after from_json env fss = Some (''data/security/route_clearance.json'',
           (case df_mtime m of Some t \<Rightarrow> t | None \<Rightarrow> 0), df_len m, p))"
proof (induction fss rule: rev_induct)
  case (snoc fs fss)
  have step: "snd (active_policy from_json env fs c) = c
      \<or> (\<exists>m p. fs ''data/security/route_clearance.json'' = Some m \<and> load_from_file from_json m = Some p
           \<and> snd (active_policy from_json env fs c) = Some (''data/security/route_clearance.json'',
               (case df_mtime m of Some t \<Rightarrow> t | None \<Rightarrow> 0), df_len m, p))" for c
    by (auto simp: active_policy_def Let_def split: option.split)
  have eq: "policy_after from_json env (fss @ [fs]) = snd (active_policy from_json env fs (policy_after from_json env fss))"
    by (simp add: policy_after_def)
  have fs: "fs \<in> set (fss @ [fs])" and sub: "set fss \<subseteq> set (fss @ [fs])" by auto
  from step [of "policy_after from_json env fss"] show ?case
  proof
    assume same: "snd (active_policy from_json env fs (policy_after from_json env fss)) = policy_after from_json env fss"
    show ?thesis unfolding eq same using snoc
      by (elim disjE) (rule disjI1, assumption, rule disjI2, erule bex_subset [OF sub])
  next
    assume "\<exists>m p. fs ''data/security/route_clearance.json'' = Some m \<and> load_from_file from_json m = Some p
           \<and> snd (active_policy from_json env fs (policy_after from_json env fss)) = Some (''data/security/route_clearance.json'',
               (case df_mtime m of Some t \<Rightarrow> t | None \<Rightarrow> 0), df_len m, p)"
    then show ?thesis unfolding eq using fs by blast
  qed
qed (simp add: policy_after_def)

text \<open>Reading the group registry and the route policy through their caches gives what reading the files gives, after
  any earlier requests, as long as a file that keeps its modification time and size keeps its content.\<close>

theorem caches_are_transparent:
  assumes groups: "\<And>g m m'. g \<in> set gss \<Longrightarrow> g path = Some m \<Longrightarrow> gfs path = Some m' \<Longrightarrow> df_mtime m = df_mtime m'
      \<Longrightarrow> df_len m = df_len m' \<Longrightarrow> df_content m = df_content m'"
    and policy: "\<And>f m m'. f \<in> set pss \<Longrightarrow> f ''data/security/route_clearance.json'' = Some m
      \<Longrightarrow> pfs ''data/security/route_clearance.json'' = Some m'
      \<Longrightarrow> (case df_mtime m of Some t \<Rightarrow> t | None \<Rightarrow> 0) = (case df_mtime m' of Some t \<Rightarrow> t | None \<Rightarrow> 0)
      \<Longrightarrow> df_len m = df_len m' \<Longrightarrow> df_content m = df_content m'"
  shows "fst (shared_registry_at gfs path (groups_after gss path)) = fst (shared_registry_at gfs path None)
    \<and> fst (active_policy from_json env pfs (policy_after from_json env pss)) = fst (active_policy from_json env pfs None)"
proof
  show "fst (shared_registry_at gfs path (groups_after gss path)) = fst (shared_registry_at gfs path None)"
    using groups_after_cases [of gss path]
  proof (elim disjE bexE exE conjE)
    fix g m t r assume g: "g \<in> set gss" "g path = Some m" "df_mtime m = Some t" "registry_load_from (df_content m) = Ok r"
      "groups_after gss path = Some (path, t, df_len m, r)"
    have "registry_load_from (df_content m') = Ok r" if "gfs path = Some m'" "df_mtime m' = Some t" "df_len m' = df_len m" for m'
      using groups [OF g(1,2) that(1)] that g(3,4) by simp
    then show ?thesis by (auto simp: shared_registry_at_def g(5) split: option.split sum.split)
  qed simp
  show "fst (active_policy from_json env pfs (policy_after from_json env pss)) = fst (active_policy from_json env pfs None)"
    using policy_after_cases [of from_json env pss]
  proof (elim disjE bexE exE conjE)
    fix f m p assume f: "f \<in> set pss" "f ''data/security/route_clearance.json'' = Some m" "load_from_file from_json m = Some p"
      "policy_after from_json env pss = Some (''data/security/route_clearance.json'',
         (case df_mtime m of Some t \<Rightarrow> t | None \<Rightarrow> 0), df_len m, p)"
    have "load_from_file from_json m' = Some p"
      if "pfs ''data/security/route_clearance.json'' = Some m'" "df_len m' = df_len m"
        "(case df_mtime m' of Some t \<Rightarrow> t | None \<Rightarrow> 0) = (case df_mtime m of Some t \<Rightarrow> t | None \<Rightarrow> 0)" for m'
      using policy [OF f(1,2) that(1)] that f(3) by (simp add: load_from_file_def)
    then show ?thesis by (auto simp: active_policy_def f(4) Let_def split: option.split)
  qed simp
qed

text \<open>A policy file that cannot be read as a policy opens what it used to protect: every route outside the two
  built-in rules then requires nothing, whatever the cache still holds.\<close>

theorem unreadable_policy_opens_routes:
  assumes "Option.bind (env ''XAVIER_REQUIRED_CLEARANCE_ROUTES'') from_json = None"
    and "fs ''data/security/route_clearance.json'' = Some m" and "load_from_file from_json m = None"
    and "\<forall>(p, t, l, _)\<in>set_option cache. (t, l) \<noteq> (case df_mtime m of Some t \<Rightarrow> t | None \<Rightarrow> 0, df_len m)"
    and "\<not> starts_with path ''/memory/export''" and "\<not> starts_with path ''/v1/memory/export-markdown''"
  shows "fst (required_for_path from_json env fs path cache) = None"
proof -
  have "fst (active_policy from_json env fs cache) = default_rules"
    using assms(1-4) by (auto simp: active_policy_def Let_def split: option.split)
  then show ?thesis using assms(5,6)
    by (auto simp: required_for_path_def required_for_None default_rules_def split: prod.split)
qed

lemma unreadable_policy_opens_routes_witness:
  "let from_json = (\<lambda>s. if s = ''ok'' then Some [\<lparr> rr_prefix = ''/secrets'', rr_required = ''SECRET'', rr_enabled = True \<rparr>] else None);
       file = (\<lambda>content. (\<lambda>p. Some \<lparr> df_mtime = Some (length content), df_len = length content, df_content = Some content \<rparr>));
       (before, cache) = required_for_path from_json (\<lambda>k. None) (file ''ok'') ''/secrets/list'' None
   in before = Some Secret \<and> fst (required_for_path from_json (\<lambda>k. None) (file ''broken'') ''/secrets/list'' cache) = None"
proof -
  let ?j = "\<lambda>s. if s = ''ok'' then Some [\<lparr> rr_prefix = ''/secrets'', rr_required = ''SECRET'', rr_enabled = True \<rparr>] else None"
  let ?file = "\<lambda>content p. Some \<lparr> df_mtime = Some (length content), df_len = length content, df_content = Some content \<rparr>"
  have b: "required_for_path ?j (\<lambda>k. None) (?file ''ok'') ''/secrets/list'' None
     = (Some Secret, Some (''data/security/route_clearance.json'', 2, 2, [\<lparr> rr_prefix = ''/secrets'', rr_required = ''SECRET'', rr_enabled = True \<rparr>]))"
    by code_simp
  have "fst (required_for_path ?j (\<lambda>k. None) (?file ''broken'') ''/secrets/list''
     (Some (''data/security/route_clearance.json'', 2, 2, [\<lparr> rr_prefix = ''/secrets'', rr_required = ''SECRET'', rr_enabled = True \<rparr>]))) = None"
    by (rule unreadable_policy_opens_routes [where m = "\<lparr> df_mtime = Some 6, df_len = 6, df_content = Some ''broken'' \<rparr>"]) (simp_all add: load_from_file_def starts_with_def)
  then show ?thesis using b by simp
qed

lemma caches_are_transparent_witness:
  "fst (shared_registry_at (\<lambda>p. Some \<lparr> df_mtime = Some 2, df_len = 1, df_content = NoFile \<rparr>) ''g''
      (groups_after [\<lambda>p. Some \<lparr> df_mtime = Some 1, df_len = 1, df_content = BlankFile \<rparr>] ''g''))
    = Some \<lparr> gr_groups = [], gr_storage = NoFile, gr_audit = [] \<rparr>"
proof -
  have "fst (shared_registry_at (\<lambda>p. Some \<lparr> df_mtime = Some 2, df_len = 1, df_content = NoFile \<rparr>) ''g''
      (groups_after [\<lambda>p. Some \<lparr> df_mtime = Some 1, df_len = 1, df_content = BlankFile \<rparr>] ''g''))
    = fst (shared_registry_at (\<lambda>p. Some \<lparr> df_mtime = Some 2, df_len = 1, df_content = NoFile \<rparr>) ''g'' None)"
    by (rule caches_are_transparent [where pss = "[]" and pfs = "\<lambda>_. None", THEN conjunct1]) auto
  also have "\<dots> = Some \<lparr> gr_groups = [], gr_storage = NoFile, gr_audit = [] \<rparr>"
    by (simp add: shared_registry_at_def registry_load_from_def)
  finally show ?thesis .
qed

end
