(* ===== verification/MessageBus.thy ===== *)
theory MessageBus
  imports Prelude
begin

text \<open>The message bus of the agents (\<open>src/src/coordination/message_bus/\<close>: \<open>mod.rs\<close>, \<open>core.rs\<close>, \<open>agents.rs\<close>,
  \<open>routing.rs\<close>, \<open>handlers.rs\<close>, \<open>dlq.rs\<close>, \<open>metrics.rs\<close>). A channel of the run-time library is a value of an
  arbitrary type; \<open>send m q\<close> is \<open>None\<close> when the call waits for ever, and otherwise tells whether the channel took
  the message and what it is afterwards. Time and identifiers are arguments. The operations take and release several locks
  one after the other: what happens between taking and releasing is a section, a definition of its own, and an
  operation as defined here is its sections with no other task between them. \<open>BusSections\<close> lets the sections of any
  number of tasks interleave.\<close>

section \<open>Messages\<close>

datatype message_priority = Low | Normal | High | Critical

primrec priority_value :: "message_priority \<Rightarrow> 8 word" where
  "priority_value Low = 1"
| "priority_value Normal = 2"
| "priority_value High = 3"
| "priority_value Critical = 4"

datatype message_type = TaskMsg | ResultMsg | ErrorMsg | HeartbeatMsg | RegisterMsg | UnregisterMsg | ShutdownMsg

record agent_message =
  am_id :: string
  am_sender :: string
  am_receiver :: "string option"
  am_topic :: "string option"
  am_type :: message_type
  am_content :: json
  am_priority :: message_priority
  am_timestamp :: int
  am_correlation_id :: "string option"
  am_reply_to :: "string option"
  am_metadata :: "(string, string) hmap"
  am_retries :: nat
  am_max_retries :: nat

definition message_new :: "string \<Rightarrow> int \<Rightarrow> string \<Rightarrow> message_type \<Rightarrow> json \<Rightarrow> agent_message" where
  "message_new ulid now sender msg_type content =
     \<lparr> am_id = ulid, am_sender = sender, am_receiver = None, am_topic = None, am_type = msg_type, am_content = content,
       am_priority = Normal, am_timestamp = now, am_correlation_id = None, am_reply_to = None, am_metadata = [],
       am_retries = 0, am_max_retries = 3 \<rparr>"

definition message_task :: "string \<Rightarrow> int \<Rightarrow> string \<Rightarrow> json \<Rightarrow> agent_message" where
  "message_task ulid now sender content = message_new ulid now sender TaskMsg content"

definition message_to :: "string \<Rightarrow> agent_message \<Rightarrow> agent_message" where
  "message_to receiver m = m\<lparr> am_receiver := Some receiver \<rparr>"

definition with_correlation :: "string \<Rightarrow> agent_message \<Rightarrow> agent_message" where
  "with_correlation correlation_id m = m\<lparr> am_correlation_id := Some correlation_id \<rparr>"

definition reply_to_channel :: "string \<Rightarrow> agent_message \<Rightarrow> agent_message" where
  "reply_to_channel channel_id m = m\<lparr> am_reply_to := Some channel_id \<rparr>"

section \<open>State\<close>

datatype bus_error =
    AgentNotFound string
  | AgentAlreadyRegistered string
  | RequestTimeout nat
  | ChannelClosed
  | SendFailed string
  | SerializationError string

datatype agent_status = Registered | Active | Idle | Offline

record agent_info =
  ai_id :: string
  ai_name :: string
  ai_capabilities :: "string list"
  ai_registered_at :: int
  ai_last_heartbeat :: int
  ai_status :: agent_status

record dlq_entry =
  dq_message :: agent_message
  dq_failed_at :: int
  dq_failure_reason :: string
  dq_retry_count :: nat

record bus_metrics =
  bm_messages_sent :: "64 word"
  bm_messages_received :: "64 word"
  bm_messages_failed :: "64 word"
  bm_dlq_size :: nat
  bm_registered_agents :: nat
  bm_topic_subscriptions :: "(string, nat) hmap"
  bm_queue_sizes :: "(string, nat) hmap"
  bm_stale_agents :: nat
  bm_heartbeats_received :: "64 word"

record heartbeat_config =
  hc_timeout_secs :: nat
  hc_check_interval_secs :: nat

definition heartbeat_default :: heartbeat_config where
  "heartbeat_default = \<lparr> hc_timeout_secs = 30, hc_check_interval_secs = 10 \<rparr>"

text \<open>A \<open>HashSet\<close> is a list of distinct elements. The broadcast channel is the list of what was handed to it.\<close>

record 'q bus =
  bs_queues :: "(string, 'q) hmap"
  bs_topics :: "(string, string list) hmap"
  bs_broadcast :: "agent_message list"
  bs_responses :: "(string, 'q) hmap"
  bs_dlq :: "dlq_entry list"
  bs_metrics :: bus_metrics
  bs_agents :: "(string, agent_info) hmap"
  bs_config :: heartbeat_config

type_synonym 'q send = "agent_message \<Rightarrow> 'q \<Rightarrow> (bool \<times> 'q) option"

definition metrics_default :: bus_metrics where
  "metrics_default = \<lparr> bm_messages_sent = 0, bm_messages_received = 0, bm_messages_failed = 0, bm_dlq_size = 0,
     bm_registered_agents = 0, bm_topic_subscriptions = [], bm_queue_sizes = [], bm_stale_agents = 0,
     bm_heartbeats_received = 0 \<rparr>"

definition bus_with_config :: "heartbeat_config \<Rightarrow> 'q bus" where
  "bus_with_config config = \<lparr> bs_queues = [], bs_topics = [], bs_broadcast = [], bs_responses = [], bs_dlq = [],
     bs_metrics = metrics_default, bs_agents = [], bs_config = config \<rparr>"

abbreviation upd_metrics :: "(bus_metrics \<Rightarrow> bus_metrics) \<Rightarrow> 'q bus \<Rightarrow> 'q bus" where
  "upd_metrics f b \<equiv> b\<lparr> bs_metrics := f (bs_metrics b) \<rparr>"

section \<open>Agents\<close>

definition register_queue :: "'q \<Rightarrow> string \<Rightarrow> 'q bus \<Rightarrow> 'q bus option" where
  "register_queue channel agent_id b =
     (if hmem (bs_queues b) agent_id then None else Some (b\<lparr> bs_queues := hput agent_id channel (bs_queues b) \<rparr>))"

definition register_info :: "int \<Rightarrow> string \<Rightarrow> string \<Rightarrow> string list \<Rightarrow> 'q bus \<Rightarrow> 'q bus" where
  "register_info now agent_id name capabilities b =
     b\<lparr> bs_agents := hput agent_id \<lparr> ai_id = agent_id, ai_name = name, ai_capabilities = capabilities,
          ai_registered_at = now, ai_last_heartbeat = now, ai_status = Active \<rparr> (bs_agents b) \<rparr>"

definition count_agents :: "'q bus \<Rightarrow> 'q bus" where
  "count_agents b = upd_metrics (\<lambda>m. m\<lparr> bm_registered_agents := length (bs_agents b) \<rparr>) b"

definition register_agent :: "'q \<Rightarrow> int \<Rightarrow> string \<Rightarrow> string \<Rightarrow> string list \<Rightarrow> 'q bus \<Rightarrow> (unit, bus_error) result \<times> 'q bus" where
  "register_agent channel now agent_id name capabilities b =
     (case register_queue channel agent_id b of
        None \<Rightarrow> (Err (AgentAlreadyRegistered agent_id), b)
      | Some b1 \<Rightarrow> (Ok (), count_agents (register_info now agent_id name capabilities b1)))"

definition unregister_queue :: "string \<Rightarrow> 'q bus \<Rightarrow> 'q bus" where
  "unregister_queue agent_id b = b\<lparr> bs_queues := hdel agent_id (bs_queues b) \<rparr>"

definition unregister_info :: "string \<Rightarrow> 'q bus \<Rightarrow> 'q bus" where
  "unregister_info agent_id b = b\<lparr> bs_agents := hdel agent_id (bs_agents b) \<rparr>"

definition unregister_topics :: "string \<Rightarrow> 'q bus \<Rightarrow> 'q bus" where
  "unregister_topics agent_id b =
     b\<lparr> bs_topics := map (\<lambda>(t, subscribers). (t, removeAll agent_id subscribers)) (bs_topics b) \<rparr>"

definition unregister_agent :: "string \<Rightarrow> 'q bus \<Rightarrow> (unit, bus_error) result \<times> 'q bus" where
  "unregister_agent agent_id b =
     (Ok (), count_agents (unregister_topics agent_id (unregister_info agent_id (unregister_queue agent_id b))))"

definition heartbeat_agent :: "int \<Rightarrow> string \<Rightarrow> 'q bus \<Rightarrow> 'q bus option" where
  "heartbeat_agent now agent_id b = map_option (\<lambda>agent.
     b\<lparr> bs_agents := hput agent_id (agent\<lparr> ai_last_heartbeat := now, ai_status := Active \<rparr>) (bs_agents b) \<rparr>)
     (hget (bs_agents b) agent_id)"

definition heartbeat_metrics :: "'q bus \<Rightarrow> 'q bus" where
  "heartbeat_metrics b =
     upd_metrics (\<lambda>m. m\<lparr> bm_heartbeats_received := bm_heartbeats_received m + 1, bm_stale_agents := 0 \<rparr>) b"

definition bus_heartbeat :: "int \<Rightarrow> string \<Rightarrow> 'q bus \<Rightarrow> (unit, bus_error) result \<times> 'q bus" where
  "bus_heartbeat now agent_id b = (case heartbeat_agent now agent_id b of
     None \<Rightarrow> (Err (AgentNotFound agent_id), b)
   | Some b1 \<Rightarrow> (Ok (), heartbeat_metrics b1))"

definition get_stale_agents :: "int \<Rightarrow> 'q bus \<Rightarrow> agent_info list" where
  "get_stale_agents now b =
     filter (\<lambda>a. int (hc_timeout_secs (bs_config b)) < now - ai_last_heartbeat a) (hvalues (bs_agents b))"

definition mark_offline :: "agent_info \<Rightarrow> (string, agent_info) hmap \<times> nat \<Rightarrow> (string, agent_info) hmap \<times> nat" where
  "mark_offline agent st = (let (agents, count) = st in
     case hget agents (ai_id agent) of
       None \<Rightarrow> (agents, count)
     | Some a \<Rightarrow> (hput (ai_id agent) (a\<lparr> ai_status := Offline \<rparr>) agents, count + 1))"

definition mark_agents_offline :: "agent_info list \<Rightarrow> 'q bus \<Rightarrow> nat \<times> 'q bus" where
  "mark_agents_offline stale b =
     (let (agents, count) = fold mark_offline stale (bs_agents b, 0) in (count, b\<lparr> bs_agents := agents \<rparr>))"

definition count_stale :: "nat \<Rightarrow> 'q bus \<Rightarrow> 'q bus" where
  "count_stale count b = upd_metrics (\<lambda>m. m\<lparr> bm_stale_agents := count \<rparr>) b"

definition mark_stale_offline :: "int \<Rightarrow> 'q bus \<Rightarrow> nat \<times> 'q bus" where
  "mark_stale_offline now b =
     (let (count, b1) = mark_agents_offline (get_stale_agents now b) b in (count, count_stale count b1))"

definition is_heartbeat_stale :: "int \<Rightarrow> string \<Rightarrow> 'q bus \<Rightarrow> bool" where
  "is_heartbeat_stale now agent_id b = (case hget (bs_agents b) agent_id of
     None \<Rightarrow> False
   | Some agent \<Rightarrow> int (hc_timeout_secs (bs_config b)) < now - ai_last_heartbeat agent)"

section \<open>Topics and routing\<close>

definition topic_counts :: "(string, string list) hmap \<Rightarrow> (string, nat) hmap" where
  "topic_counts topics = map (\<lambda>(k, v). (k, length v)) topics"

definition subscribe_topic :: "string \<Rightarrow> string \<Rightarrow> 'q bus \<Rightarrow> 'q bus" where
  "subscribe_topic agent_id topic b =
     (let subscribers = (case hget (bs_topics b) topic of None \<Rightarrow> [] | Some s \<Rightarrow> s);
          topics = hput topic (List.insert agent_id subscribers) (bs_topics b)
      in upd_metrics (\<lambda>m. m\<lparr> bm_topic_subscriptions := topic_counts topics \<rparr>) (b\<lparr> bs_topics := topics \<rparr>))"

definition bus_subscribe :: "string \<Rightarrow> string \<Rightarrow> 'q bus \<Rightarrow> (unit, bus_error) result \<times> 'q bus" where
  "bus_subscribe agent_id topic b =
     (if \<not> hmem (bs_agents b) agent_id then (Err (AgentNotFound agent_id), b)
      else (Ok (), subscribe_topic agent_id topic b))"

definition bus_unsubscribe :: "string \<Rightarrow> string \<Rightarrow> 'q bus \<Rightarrow> (unit, bus_error) result \<times> 'q bus" where
  "bus_unsubscribe agent_id topic b =
     (let topics = (case hget (bs_topics b) topic of
                      None \<Rightarrow> bs_topics b
                    | Some subscribers \<Rightarrow> hput topic (removeAll agent_id subscribers) (bs_topics b))
      in (Ok (), upd_metrics (\<lambda>m. m\<lparr> bm_topic_subscriptions := topic_counts topics \<rparr>) (b\<lparr> bs_topics := topics \<rparr>)))"

text \<open>The receivers a message names, itself or by a topic that has an entry; otherwise it goes to every queue.\<close>

definition named_receivers :: "agent_message \<Rightarrow> 'q bus \<Rightarrow> string list option" where
  "named_receivers message b = (case am_receiver message of
     Some receiver \<Rightarrow> Some [receiver]
   | None \<Rightarrow> Option.bind (am_topic message) (hget (bs_topics b)))"

definition determine_receivers :: "agent_message \<Rightarrow> 'q bus \<Rightarrow> string list" where
  "determine_receivers message b = (case named_receivers message b of
     Some receivers \<Rightarrow> receivers
   | None \<Rightarrow> hkeys (bs_queues b))"

text \<open>A round of a loop of \<open>publish\<close>: \<open>failed\<close> says whether a send that the channel refuses is counted too.\<close>

definition send_one :: "'q send \<Rightarrow> bool \<Rightarrow> agent_message \<Rightarrow> string \<Rightarrow> nat \<times> (string, 'q) hmap
    \<Rightarrow> (nat \<times> (string, 'q) hmap) option" where
  "send_one send failed m receiver_id st = (let (sent_count, queues) = st in
     case hget queues receiver_id of
        None \<Rightarrow> Some (sent_count, queues)
      | Some tx \<Rightarrow> (case send m tx of
          None \<Rightarrow> None
        | Some (ok, tx') \<Rightarrow> Some (if ok \<or> failed then sent_count + 1 else sent_count, hput receiver_id tx' queues)))"

lemma send_one_eq [simp]:
  "send_one send failed m receiver_id (sent_count, queues) =
     (case hget queues receiver_id of
        None \<Rightarrow> Some (sent_count, queues)
      | Some tx \<Rightarrow> (case send m tx of
          None \<Rightarrow> None
        | Some (ok, tx') \<Rightarrow> Some (if ok \<or> failed then sent_count + 1 else sent_count, hput receiver_id tx' queues)))"
  by (simp add: send_one_def)

fun send_to_all :: "'q send \<Rightarrow> bool \<Rightarrow> agent_message \<Rightarrow> string list \<Rightarrow> nat \<times> (string, 'q) hmap
    \<Rightarrow> (nat \<times> (string, 'q) hmap) option" where
  "send_to_all send failed m [] st = Some st"
| "send_to_all send failed m (receiver_id # rest) st =
     (case send_one send failed m receiver_id st of None \<Rightarrow> None | Some st' \<Rightarrow> send_to_all send failed m rest st')"

definition count_sent :: "'q bus \<Rightarrow> 'q bus" where
  "count_sent b = upd_metrics (\<lambda>m. m\<lparr> bm_messages_sent := bm_messages_sent m + 1 \<rparr>) b"

definition hand_to_broadcast :: "agent_message \<Rightarrow> 'q bus \<Rightarrow> 'q bus" where
  "hand_to_broadcast message b = b\<lparr> bs_broadcast := bs_broadcast b @ [message] \<rparr>"

definition other_subscribers :: "string \<Rightarrow> string list \<Rightarrow> 'q bus \<Rightarrow> string list" where
  "other_subscribers topic receivers b = (case hget (bs_topics b) topic of
     None \<Rightarrow> []
   | Some subscribers \<Rightarrow> filter (\<lambda>s. s \<notin> set receivers) subscribers)"

text \<open>\<open>None\<close>: a full queue whose owner does not read holds the publisher for ever.\<close>

definition bus_publish :: "'q send \<Rightarrow> agent_message \<Rightarrow> 'q bus \<Rightarrow> ((nat, bus_error) result \<times> 'q bus) option" where
  "bus_publish send message b =
     (let b1 = count_sent b;
          receivers = determine_receivers message b1
      in if receivers = [] then Some (Ok 0, b1)
         else (case send_to_all send True message receivers (0, bs_queues b1) of
           None \<Rightarrow> None
         | Some (sent, queues) \<Rightarrow>
             let b2 = b1\<lparr> bs_queues := queues \<rparr>
             in (case am_topic message of
               None \<Rightarrow> Some (Ok sent, b2)
             | Some topic \<Rightarrow>
                 (case send_to_all send False message (other_subscribers topic receivers b2) (sent, queues) of
                     None \<Rightarrow> None
                   | Some (sent', queues') \<Rightarrow> Some (Ok sent', (hand_to_broadcast message b2)\<lparr> bs_queues := queues' \<rparr>)))))"

definition send_direct :: "'q send \<Rightarrow> string \<Rightarrow> int \<Rightarrow> string \<Rightarrow> string \<Rightarrow> json \<Rightarrow> 'q bus
    \<Rightarrow> ((string, bus_error) result \<times> 'q bus) option" where
  "send_direct send ulid now sender receiver content b =
     (let message = message_to receiver (message_task ulid now sender content)
      in map_option (\<lambda>(res, b'). (case res of Err e \<Rightarrow> Err e | Ok _ \<Rightarrow> Ok (am_id message), b'))
           (bus_publish send message b))"

definition bus_broadcast :: "'q send \<Rightarrow> string \<Rightarrow> int \<Rightarrow> string \<Rightarrow> json \<Rightarrow> string option \<Rightarrow> 'q bus
    \<Rightarrow> ((string, bus_error) result \<times> 'q bus) option" where
  "bus_broadcast send ulid now sender content topic b =
     (let message = (message_new ulid now sender TaskMsg content)\<lparr> am_topic := topic \<rparr>
      in map_option (\<lambda>(res, b'). (case res of Err e \<Rightarrow> Err e | Ok _ \<Rightarrow> Ok (am_id message), b'))
           (bus_publish send message b))"

definition bus_shutdown :: "'q bus \<Rightarrow> 'q bus" where
  "bus_shutdown b = b\<lparr> bs_queues := [], bs_agents := [] \<rparr>"

section \<open>Requests\<close>

text \<open>\<open>request\<close>: what the others do while it waits, and what comes of the wait, is the argument \<open>meanwhile\<close>.\<close>

datatype wait_result = TimedOut | Closed | Received agent_message

definition bus_request :: "'q send \<Rightarrow> 'q \<Rightarrow> string \<Rightarrow> string \<Rightarrow> int \<Rightarrow> string \<Rightarrow> string \<Rightarrow> json \<Rightarrow> nat
    \<Rightarrow> ('q bus \<Rightarrow> wait_result \<times> 'q bus) \<Rightarrow> 'q bus \<Rightarrow> ((agent_message, bus_error) result \<times> 'q bus) option" where
  "bus_request send channel correlation_id ulid now sender receiver content timeout_secs meanwhile b =
     (let b1 = b\<lparr> bs_responses := hput correlation_id channel (bs_responses b) \<rparr>;
          message = reply_to_channel correlation_id (with_correlation correlation_id
                      (message_to receiver (message_task ulid now sender content)))
      in case bus_publish send message b1 of
           None \<Rightarrow> None
         | Some (Err e, b2) \<Rightarrow> Some (Err e, b2)
         | Some (Ok _, b2) \<Rightarrow>
             (case meanwhile b2 of
                (TimedOut, b3) \<Rightarrow> Some (Err (RequestTimeout timeout_secs), b3)
              | (Closed, b3) \<Rightarrow> Some (Err ChannelClosed, b3)
              | (Received r, b3) \<Rightarrow> Some (Ok r, b3\<lparr> bs_responses := hdel correlation_id (bs_responses b3) \<rparr>)))"

definition handle_response :: "'q send \<Rightarrow> agent_message \<Rightarrow> 'q bus \<Rightarrow> ((unit, bus_error) result \<times> 'q bus) option" where
  "handle_response send message b = (case am_correlation_id message of
     None \<Rightarrow> Some (Ok (), b)
   | Some correlation_id \<Rightarrow> (case hget (bs_responses b) correlation_id of
       None \<Rightarrow> Some (Ok (), b)
     | Some tx \<Rightarrow> (case send message tx of
         None \<Rightarrow> None
       | Some (_, tx') \<Rightarrow> Some (Ok (), b\<lparr> bs_responses := hput correlation_id tx' (bs_responses b) \<rparr>))))"

definition bus_receive :: "string \<Rightarrow> nat option \<Rightarrow> 'q bus \<Rightarrow> (agent_message option, bus_error) result" where
  "bus_receive agent_id timeout b = (if hmem (bs_queues b) agent_id then Ok None else Err (AgentNotFound agent_id))"

section \<open>Dead letters and metrics\<close>

definition dlq_entry_new :: "int \<Rightarrow> agent_message \<Rightarrow> string \<Rightarrow> dlq_entry" where
  "dlq_entry_new now message reason =
     \<lparr> dq_message = message, dq_failed_at = now, dq_failure_reason = reason, dq_retry_count = 0 \<rparr>"

definition dlq_push :: "dlq_entry \<Rightarrow> 'q bus \<Rightarrow> 'q bus" where
  "dlq_push entry b =
     (let b1 = b\<lparr> bs_dlq := bs_dlq b @ [entry] \<rparr>
      in upd_metrics (\<lambda>m. m\<lparr> bm_messages_failed := bm_messages_failed m + 1, bm_dlq_size := length (bs_dlq b1) \<rparr>) b1)"

definition send_to_dlq :: "int \<Rightarrow> agent_message \<Rightarrow> string \<Rightarrow> 'q bus \<Rightarrow> (unit, bus_error) result \<times> 'q bus" where
  "send_to_dlq now message reason b = (Ok (), dlq_push (dlq_entry_new now message reason) b)"

definition send_to_dlq_with_retry ::
  "int \<Rightarrow> agent_message \<Rightarrow> string \<Rightarrow> nat \<Rightarrow> 'q bus \<Rightarrow> (unit, bus_error) result \<times> 'q bus" where
  "send_to_dlq_with_retry now message reason retry_count b =
     (Ok (), dlq_push ((dlq_entry_new now message reason)\<lparr> dq_retry_count := retry_count \<rparr>) b)"

definition clear_dlq :: "'q bus \<Rightarrow> nat \<times> 'q bus" where
  "clear_dlq b = (length (bs_dlq b), upd_metrics (\<lambda>m. m\<lparr> bm_dlq_size := 0 \<rparr>) (b\<lparr> bs_dlq := [] \<rparr>))"

fun remove_letter :: "string \<Rightarrow> dlq_entry list \<Rightarrow> (dlq_entry \<times> dlq_entry list) option" where
  "remove_letter message_id [] = None"
| "remove_letter message_id (e # es) =
     (if am_id (dq_message e) = message_id then Some (e, es)
      else map_option (\<lambda>(x, rest). (x, e # rest)) (remove_letter message_id es))"

definition reprocess_dlq_message :: "string \<Rightarrow> 'q bus \<Rightarrow> agent_message option \<times> 'q bus" where
  "reprocess_dlq_message message_id b = (case remove_letter message_id (bs_dlq b) of
     None \<Rightarrow> (None, b)
   | Some (entry, rest) \<Rightarrow>
       (Some (dq_message entry), upd_metrics (\<lambda>m. m\<lparr> bm_dlq_size := length rest \<rparr>) (b\<lparr> bs_dlq := rest \<rparr>)))"

text \<open>\<open>get_metrics\<close>: the sizes of the queues are their capacities.\<close>

definition get_metrics :: "('q \<Rightarrow> nat) \<Rightarrow> 'q bus \<Rightarrow> bus_metrics \<times> 'q bus" where
  "get_metrics capacity b =
     (let b1 = upd_metrics (\<lambda>m. m\<lparr> bm_queue_sizes := map (\<lambda>(k, v). (k, capacity v)) (bs_queues b) \<rparr>) b
      in (bs_metrics b1, b1))"

lemmas publish_sections = count_sent_def hand_to_broadcast_def other_subscribers_def
lemmas register_sections = register_queue_def register_info_def count_agents_def
lemmas receiver_sections = determine_receivers_def named_receivers_def

section \<open>The loop over receivers\<close>

text \<open>What sending to the registered ones among \<open>ids\<close> makes of the queues, and how many are counted.\<close>

definition sent_queue :: "'q send \<Rightarrow> agent_message \<Rightarrow> string list \<Rightarrow> (string, 'q) hmap \<Rightarrow> string \<Rightarrow> 'q option" where
  "sent_queue send m ids queues k =
     (if k \<in> set ids then Option.bind (hget queues k) (\<lambda>q. map_option snd (send m q)) else hget queues k)"

definition sent_number :: "'q send \<Rightarrow> bool \<Rightarrow> agent_message \<Rightarrow> string list \<Rightarrow> (string, 'q) hmap \<Rightarrow> nat" where
  "sent_number send failed m ids queues =
     length (filter (\<lambda>k. \<exists>q ok q'. hget queues k = Some q \<and> send m q = Some (ok, q') \<and> (ok \<or> failed)) ids)"

lemma send_to_all_keys:
  "send_to_all send failed m ids (n, qs) = Some (n', qs') \<Longrightarrow> hkeys qs' = hkeys qs"
proof (induction ids arbitrary: n qs)
  case (Cons k ids)
  have "hkeys (hput k q' qs) = hkeys qs" if "hget qs k = Some q" for q q'
    using that by (simp add: update_keys) (metis hmem_def hmem_iff list.set_map option.discI)
  then show ?case using Cons by (auto split: option.splits prod.splits)
qed simp

lemma send_to_all_spec:
  assumes "distinct ids" and "send_to_all send failed m ids (n, qs) = Some (n', qs')"
  shows "(\<forall>k. hget qs' k = sent_queue send m ids qs k) \<and> n' = n + sent_number send failed m ids qs"
  using assms
proof (induction ids arbitrary: n qs)
  case Nil
  then show ?case by (simp add: sent_queue_def sent_number_def)
next
  case (Cons r ids)
  show ?case
  proof (cases "hget qs r")
    case None
    then have "(\<forall>k. hget qs' k = sent_queue send m ids qs k) \<and> n' = n + sent_number send failed m ids qs"
      using Cons by simp
    then show ?thesis using None by (auto simp: sent_queue_def sent_number_def)
  next
    case (Some q)
    obtain ok q' where s: "send m q = Some (ok, q')" using Cons.prems(2) Some by (cases "send m q") auto
    let ?qs = "hput r q' qs" and ?n = "if ok \<or> failed then n + 1 else n"
    have ih: "(\<forall>k. hget qs' k = sent_queue send m ids ?qs k) \<and> n' = ?n + sent_number send failed m ids ?qs"
      using Cons Some s by simp
    have "filter (\<lambda>k. \<exists>q ok q'. hget ?qs k = Some q \<and> send m q = Some (ok, q') \<and> (ok \<or> failed)) ids
        = filter (\<lambda>k. \<exists>q ok q'. hget qs k = Some q \<and> send m q = Some (ok, q') \<and> (ok \<or> failed)) ids"
      using Cons.prems(1) by (intro filter_cong) auto
    then have "sent_number send failed m (r # ids) qs = (if ok \<or> failed then 1 else 0) + sent_number send failed m ids ?qs"
      using Some s by (simp add: sent_number_def)
    moreover have "sent_queue send m ids ?qs k = sent_queue send m (r # ids) qs k" for k
      using Cons.prems(1) Some s by (auto simp: sent_queue_def)
    ultimately show ?thesis using ih by simp
  qed
qed

section \<open>Invariant\<close>

definition bus_wf :: "'q bus \<Rightarrow> bool" where
  "bus_wf b \<longleftrightarrow> hmap_ok (bs_queues b) \<and> hmap_ok (bs_agents b) \<and> hmap_ok (bs_topics b)
     \<and> set (hkeys (bs_queues b)) = set (hkeys (bs_agents b))
     \<and> (\<forall>(k, a)\<in>set (bs_agents b). ai_id a = k)
     \<and> (\<forall>(t, s)\<in>set (bs_topics b). distinct s \<and> set s \<subseteq> set (hkeys (bs_agents b)))
     \<and> bm_registered_agents (bs_metrics b) = length (bs_agents b)
     \<and> bm_dlq_size (bs_metrics b) = length (bs_dlq b)"

lemma bus_wfD:
  assumes "bus_wf b"
  shows "hmap_ok (bs_queues b)" "hmap_ok (bs_agents b)" "hmap_ok (bs_topics b)"
    "set (hkeys (bs_queues b)) = set (hkeys (bs_agents b))" "\<forall>(k, a)\<in>set (bs_agents b). ai_id a = k"
    "\<forall>(t, s)\<in>set (bs_topics b). distinct s \<and> set s \<subseteq> set (hkeys (bs_agents b))"
    "bm_registered_agents (bs_metrics b) = length (bs_agents b)" "bm_dlq_size (bs_metrics b) = length (bs_dlq b)"
  using assms by (simp_all add: bus_wf_def)

lemma determine_receivers_distinct: "bus_wf b \<Longrightarrow> distinct (determine_receivers m b)"
  using bus_wfD(6) [of b] bus_wfD(1) [of b]
  by (auto simp: receiver_sections hmap_ok_def bind_eq_Some_conv split: option.split dest!: hget_in_set)

text \<open>Who gets a message: the receivers, and with a topic its subscribers too.\<close>

definition publish_others :: "agent_message \<Rightarrow> 'q bus \<Rightarrow> string list" where
  "publish_others m b = (if determine_receivers m b = [] then []
     else case Option.bind (am_topic m) (hget (bs_topics b)) of
       None \<Rightarrow> []
     | Some subscribers \<Rightarrow> filter (\<lambda>s. s \<notin> set (determine_receivers m b)) subscribers)"

lemma publish_spec:
  assumes wf: "bus_wf b" and pub: "bus_publish send m b = Some (res, b')"
  shows "(\<forall>k. hget (bs_queues b') k = sent_queue send m (determine_receivers m b @ publish_others m b) (bs_queues b) k)
    \<and> res = Ok (sent_number send True m (determine_receivers m b) (bs_queues b)
                + sent_number send False m (publish_others m b) (bs_queues b))
    \<and> bs_topics b' = bs_topics b \<and> bs_agents b' = bs_agents b \<and> bs_dlq b' = bs_dlq b"
proof -
  let ?b1 = "upd_metrics (\<lambda>m. m\<lparr> bm_messages_sent := bm_messages_sent m + 1 \<rparr>) b"
  have rec: "determine_receivers m ?b1 = determine_receivers m b"
    by (simp add: receiver_sections split: option.split)
  have dr: "distinct (determine_receivers m b)" by (rule determine_receivers_distinct [OF wf])
  have do: "distinct (publish_others m b)"
    using bus_wfD(6) [OF wf]
    by (auto simp: publish_others_def bind_eq_Some_conv split: option.split dest!: hget_in_set)
  show ?thesis
  proof (cases "determine_receivers m b = []")
    case True
    then show ?thesis using pub rec
      by (auto simp: bus_publish_def publish_sections Let_def publish_others_def sent_queue_def sent_number_def)
  next
    case False
    obtain n qs where first: "send_to_all send True m (determine_receivers m b) (0, bs_queues b) = Some (n, qs)"
      using pub False rec by (auto simp: bus_publish_def publish_sections Let_def split: option.splits)
    note f = send_to_all_spec [OF dr first]
    obtain n' qs' where second: "send_to_all send False m (publish_others m b) (n, qs) = Some (n', qs')"
      and res: "res = Ok n'" "bs_queues b' = qs'" "bs_topics b' = bs_topics b" "bs_agents b' = bs_agents b" "bs_dlq b' = bs_dlq b"
      using pub False rec first
      by (auto simp: bus_publish_def publish_sections Let_def publish_others_def split: option.splits)
    note s = send_to_all_spec [OF do second]
    have disj: "k \<in> set (publish_others m b) \<Longrightarrow> k \<notin> set (determine_receivers m b)" for k
      by (auto simp: publish_others_def split: option.splits if_splits)
    have "sent_number send False m (publish_others m b) qs = sent_number send False m (publish_others m b) (bs_queues b)"
      using f disj by (auto simp: sent_number_def sent_queue_def intro!: arg_cong [of _ _ length] filter_cong)
    moreover have "sent_queue send m (publish_others m b) qs k
        = sent_queue send m (determine_receivers m b @ publish_others m b) (bs_queues b) k" for k
      using f disj by (auto simp: sent_queue_def)
    ultimately show ?thesis using f s res by simp
  qed
qed

text \<open>A published message is handed once to the queue of every receiver and of every other subscriber of its topic
  that is registered, and to no other queue; the answer counts the receivers whose queue exists, also when the queue
  refuses the message, and the other subscribers whose queue takes it.\<close>

theorem publish_delivers:
  assumes wf: "bus_wf b" and pub: "bus_publish send m b = Some (res, b')"
  shows "(\<forall>k. hget (bs_queues b') k = sent_queue send m (determine_receivers m b @ publish_others m b) (bs_queues b) k)
    \<and> res = Ok (sent_number send True m (determine_receivers m b) (bs_queues b)
                + sent_number send False m (publish_others m b) (bs_queues b))
    \<and> bs_topics b' = bs_topics b \<and> bs_agents b' = bs_agents b \<and> bs_dlq b' = bs_dlq b"
  using publish_spec [OF wf pub] .

text \<open>A message for a topic without an entry goes to the queue of every registered agent, while one for a topic whose
  last subscriber left goes to nobody.\<close>

theorem topic_without_entry_reaches_everyone:
  assumes "bus_wf b" and "am_receiver m = None" and "am_topic m = Some topic"
    and "bus_publish send m b = Some (res, b')"
  shows "(hget (bs_topics b) topic = None \<longrightarrow>
       (\<forall>k q. hget (bs_queues b) k = Some q \<longrightarrow> hget (bs_queues b') k = map_option snd (send m q)))
    \<and> (hget (bs_topics b) topic = Some [] \<longrightarrow> res = Ok 0 \<and> bs_queues b' = bs_queues b)"
proof (intro conjI impI allI)
  fix k q assume none: "hget (bs_topics b) topic = None" and q: "hget (bs_queues b) k = Some q"
  then have "k \<in> set (determine_receivers m b)"
    using assms(2,3) by (auto simp: receiver_sections intro: rev_image_eqI dest: hget_in_set)
  then show "hget (bs_queues b') k = map_option snd (send m q)"
    using publish_spec [OF assms(1,4)] q by (simp add: sent_queue_def)
next
  assume "hget (bs_topics b) topic = Some []"
  then have "determine_receivers m (upd_metrics (\<lambda>m. m\<lparr> bm_messages_sent := bm_messages_sent m + 1 \<rparr>) b) = []"
    using assms(2,3) by (simp add: receiver_sections)
  then show "res = Ok 0" "bs_queues b' = bs_queues b" using assms(4) by (auto simp: bus_publish_def publish_sections Let_def)
qed

lemma hkeys_hput_old: "hmem m k \<Longrightarrow> hkeys (hput k v m) = hkeys m"
  unfolding hmem_iff by (simp add: update_keys)

lemma in_set_hput: "p \<in> set (hput k v m) \<Longrightarrow> p = (k, v) \<or> p \<in> set m"
  using set_hput_subset [of k v m] by auto

lemma mark_offline_keys:
  assumes "fold mark_offline stale (agents, n) = (agents', n')" and "\<forall>(k, a)\<in>set agents. ai_id a = k"
  shows "hkeys agents' = hkeys agents \<and> (\<forall>(k, a)\<in>set agents'. ai_id a = k)"
  using assms
proof (induction stale arbitrary: agents n)
  case (Cons s stale)
  show ?case
  proof (cases "hget agents (ai_id s)")
    case None
    then show ?thesis using Cons by (simp add: mark_offline_def)
  next
    case (Some a)
    let ?ag = "hput (ai_id s) (a\<lparr> ai_status := Offline \<rparr>) agents"
    have "ai_id a = ai_id s" using Some Cons.prems(2) hget_in_set by fastforce
    then have "\<forall>(k, a)\<in>set ?ag. ai_id a = k" using Cons.prems(2) by (auto dest!: in_set_hput)
    moreover have "hkeys ?ag = hkeys agents" using Some by (simp add: hkeys_hput_old hmem_def)
    ultimately show ?thesis using Cons Some by (simp add: mark_offline_def)
  qed
qed simp

text \<open>A request whose answer does not come in time leaves its response channel registered, while an answered one
  removes it: the table of response channels grows with every time-out.\<close>

theorem timed_out_request_keeps_channel:
  assumes "bus_request send channel correlation_id ulid now sender receiver content timeout_secs meanwhile b = Some (res, b')"
    and quiet: "\<And>x. bs_responses (snd (meanwhile x)) = bs_responses x"
  shows "(res = Err (RequestTimeout timeout_secs) \<longrightarrow> hget (bs_responses b') correlation_id = Some channel)
    \<and> (\<forall>r. res = Ok r \<longrightarrow> hget (bs_responses b') correlation_id = None)"
proof -
  have frame: "bs_responses b2 = bs_responses b1" if "bus_publish send m b1 = Some (x, b2)" for m x b1 b2
    using that by (auto simp: bus_publish_def publish_sections Let_def split: if_splits option.splits)
  have no_error: "x \<noteq> Err e" if "bus_publish send m b1 = Some (x, b2)" for m x b1 b2 e
    using that by (auto simp: bus_publish_def publish_sections Let_def split: if_splits option.splits)
  let ?b1 = "b\<lparr> bs_responses := hput correlation_id channel (bs_responses b) \<rparr>"
  let ?m = "reply_to_channel correlation_id (with_correlation correlation_id
              (message_to receiver (message_task ulid now sender content)))"
  obtain x b2 where pub: "bus_publish send ?m ?b1 = Some (x, b2)"
    using assms(1) by (cases "bus_publish send ?m ?b1") (auto simp: bus_request_def Let_def)
  obtain n where x: "x = Ok n" using no_error [OF pub] by (cases x) auto
  obtain w b3 where mw: "meanwhile b2 = (w, b3)" by force
  have "bs_responses b3 = hput correlation_id channel (bs_responses b)" using frame [OF pub] quiet [of b2] mw by simp
  then show ?thesis using assms(1) by (cases w) (auto simp: bus_request_def Let_def pub x mw)
qed

text \<open>Channels for the witnesses: a number of free places, and what was taken.\<close>

definition sample_send :: "(nat \<times> agent_message list) send" where
  "sample_send m q = (if fst q = 0 then None else Some (True, fst q - 1, snd q @ [m]))"

definition sample_bus :: "(nat \<times> agent_message list) bus" where
  "sample_bus = snd (register_agent (1, []) 0 ''b'' ''B'' [] (snd (register_agent (1, []) 0 ''a'' ''A'' [] (bus_with_config heartbeat_default))))"

definition sample_message :: agent_message where
  "sample_message = (message_task ''id'' 0 ''a'' JNull)\<lparr> am_topic := Some ''news'' \<rparr>"

lemma sample_bus_wf: "bus_wf sample_bus"
  by (simp add: bus_wf_def sample_bus_def register_agent_def register_sections bus_with_config_def metrics_default_def Let_def hmem_def hmap_ok_def)

lemma publish_delivers_witness:
  "\<exists>b'. bus_publish sample_send sample_message sample_bus = Some (Ok 2, b')
     \<and> hget (bs_queues b') ''b'' = Some (0, [sample_message])"
proof -
  obtain res b' where p: "bus_publish sample_send sample_message sample_bus = Some (res, b')"
    by (cases "bus_publish sample_send sample_message sample_bus")
      (simp_all add: sample_bus_def sample_message_def message_task_def message_new_def sample_send_def register_agent_def register_sections
        bus_with_config_def bus_publish_def publish_sections receiver_sections Let_def hmem_def)
  have r: "set (determine_receivers sample_message sample_bus) = {''a'', ''b''}"
    "determine_receivers sample_message sample_bus = [''a'', ''b'']" "publish_others sample_message sample_bus = []"
    "sent_number sample_send True sample_message [''a'', ''b''] (bs_queues sample_bus) = 2"
    "sent_number sample_send False sample_message [] (bs_queues sample_bus) = 0"
    "hget (bs_queues sample_bus) ''b'' = Some (1, [])"
    by (simp_all add: sample_bus_def sample_message_def message_task_def message_new_def register_agent_def register_sections
        bus_with_config_def receiver_sections publish_others_def sent_number_def sample_send_def Let_def hmem_def, metis)
  show ?thesis
    using publish_delivers [OF sample_bus_wf p] p r by (auto simp: sent_queue_def sample_send_def)
qed

lemma topic_without_entry_reaches_everyone_witness:
  "\<exists>b'. bus_publish sample_send sample_message sample_bus = Some (Ok 2, b')
     \<and> hget (bs_queues b') ''a'' = Some (0, [sample_message])"
proof -
  obtain res b' where p: "bus_publish sample_send sample_message sample_bus = Some (res, b')" and res: "res = Ok 2"
    by (cases "bus_publish sample_send sample_message sample_bus")
      (simp_all add: sample_bus_def sample_message_def message_task_def message_new_def sample_send_def register_agent_def register_sections
        bus_with_config_def bus_publish_def publish_sections receiver_sections Let_def hmem_def)
  have m: "am_receiver sample_message = None" "am_topic sample_message = Some ''news''"
    by (simp_all add: sample_message_def message_task_def message_new_def)
  have q: "hget (bs_queues sample_bus) ''a'' = Some (1, [])" "hget (bs_topics sample_bus) ''news'' = None"
    by (simp_all add: sample_bus_def register_agent_def register_sections bus_with_config_def Let_def hmem_def)
  show ?thesis
    using topic_without_entry_reaches_everyone [OF sample_bus_wf m p] p res q by (auto simp: sample_send_def)
qed

lemma timed_out_request_keeps_channel_witness:
  "\<exists>b'. bus_request sample_send (1, []) ''c'' ''id'' 0 ''a'' ''b'' JNull 5 (\<lambda>b. (TimedOut, b)) sample_bus
     = Some (Err (RequestTimeout 5), b') \<and> hget (bs_responses b') ''c'' = Some (1, [])"
proof -
  obtain b' where p: "bus_request sample_send (1, []) ''c'' ''id'' 0 ''a'' ''b'' JNull 5 (\<lambda>b. (TimedOut, b)) sample_bus
     = Some (Err (RequestTimeout 5), b')"
    by (simp add: bus_request_def sample_bus_def message_task_def message_new_def sample_send_def register_agent_def register_sections
        message_to_def with_correlation_def reply_to_channel_def
        bus_with_config_def bus_publish_def publish_sections receiver_sections Let_def hmem_def)
  show ?thesis using timed_out_request_keeps_channel [OF p] p by auto
qed

end
