(* ===== verification/BusSections.thy ===== *)
theory BusSections
  imports MessageBus
begin

text \<open>The operations of the message bus in the order their tasks really run: an operation takes a lock, releases it and
  takes the next, and other tasks act in between. A task is at a point of its operation; advancing it runs one section,
  and any task can be the next. Locks that the code keeps over several sections (that of the topics while a message
  goes to its subscribers, that of the queues while one is full) are released here: more orders are admitted than the
  code has, and what holds for all of them holds for those of the code. Shown: the tables agree as long as no two tasks
  register, unregister or subscribe the same agent at once, and how they come apart when two do.\<close>

section \<open>Points of the operations\<close>

datatype 'q bus_point =
    AtRegister 'q int string string "string list"
  | AtRegisterInfo int string string "string list"
  | AtCount
  | AtUnregister string
  | AtUnregisterInfo string
  | AtUnregisterTopics string
  | AtHeartbeat int string
  | AtHeartbeatMetrics
  | AtMarkStale int
  | AtMarkOffline "agent_info list"
  | AtCountStale nat
  | AtSubscribe string string
  | AtSubscribeTopic string string
  | AtUnsubscribe string string
  | AtPublish agent_message
  | AtRoute agent_message
  | AtRouteAll agent_message
  | AtSend agent_message "string list" "string list" nat
  | AtBroadcast agent_message string "string list" nat
  | AtTopic agent_message string "string list" nat
  | AtSendOthers agent_message "string list" nat
  | AtOpenResponse string 'q
  | AtRespond agent_message
  | AtCloseResponse string
  | AtDeadLetter int agent_message string nat
  | AtClearDlq
  | AtReprocess string
  | AtMetrics

text \<open>One section: where the task goes on, if it does, and the bus afterwards; \<open>None\<close> while it has to wait for room in a
  channel. A request is the opening of a channel for the answer, a publication and the closing of the channel.\<close>

fun bus_advance :: "'q send \<Rightarrow> ('q \<Rightarrow> nat) \<Rightarrow> 'q bus_point \<Rightarrow> 'q bus \<Rightarrow> ('q bus_point option \<times> 'q bus) option" where
  "bus_advance send capacity (AtRegister q now k name caps) b = (case register_queue q k b of
     None \<Rightarrow> Some (None, b) | Some b' \<Rightarrow> Some (Some (AtRegisterInfo now k name caps), b'))"
| "bus_advance send capacity (AtRegisterInfo now k name caps) b = Some (Some AtCount, register_info now k name caps b)"
| "bus_advance send capacity AtCount b = Some (None, count_agents b)"
| "bus_advance send capacity (AtUnregister k) b = Some (Some (AtUnregisterInfo k), unregister_queue k b)"
| "bus_advance send capacity (AtUnregisterInfo k) b = Some (Some (AtUnregisterTopics k), unregister_info k b)"
| "bus_advance send capacity (AtUnregisterTopics k) b = Some (Some AtCount, unregister_topics k b)"
| "bus_advance send capacity (AtHeartbeat now k) b = (case heartbeat_agent now k b of
     None \<Rightarrow> Some (None, b) | Some b' \<Rightarrow> Some (Some AtHeartbeatMetrics, b'))"
| "bus_advance send capacity AtHeartbeatMetrics b = Some (None, heartbeat_metrics b)"
| "bus_advance send capacity (AtMarkStale now) b = Some (Some (AtMarkOffline (get_stale_agents now b)), b)"
| "bus_advance send capacity (AtMarkOffline stale) b =
     (case mark_agents_offline stale b of (n, b') \<Rightarrow> Some (Some (AtCountStale n), b'))"
| "bus_advance send capacity (AtCountStale n) b = Some (None, count_stale n b)"
| "bus_advance send capacity (AtSubscribe k t) b = Some (if hmem (bs_agents b) k then Some (AtSubscribeTopic k t) else None, b)"
| "bus_advance send capacity (AtSubscribeTopic k t) b = Some (None, subscribe_topic k t b)"
| "bus_advance send capacity (AtUnsubscribe k t) b = Some (None, snd (bus_unsubscribe k t b))"
| "bus_advance send capacity (AtPublish m) b = Some (Some (AtRoute m), count_sent b)"
| "bus_advance send capacity (AtRoute m) b = Some (Some (case named_receivers m b of
     None \<Rightarrow> AtRouteAll m | Some receivers \<Rightarrow> AtSend m receivers receivers 0), b)"
| "bus_advance send capacity (AtRouteAll m) b = Some (Some (AtSend m (hkeys (bs_queues b)) (hkeys (bs_queues b)) 0), b)"
| "bus_advance send capacity (AtSend m receivers (r # rest) sent) b =
     map_option (\<lambda>(n, qs). (Some (AtSend m receivers rest n), b\<lparr> bs_queues := qs \<rparr>)) (send_one send True m r (sent, bs_queues b))"
| "bus_advance send capacity (AtSend m receivers [] sent) b =
     Some (if receivers = [] then None else map_option (\<lambda>t. AtBroadcast m t receivers sent) (am_topic m), b)"
| "bus_advance send capacity (AtBroadcast m t receivers sent) b = Some (Some (AtTopic m t receivers sent), hand_to_broadcast m b)"
| "bus_advance send capacity (AtTopic m t receivers sent) b =
     Some (Some (AtSendOthers m (other_subscribers t receivers b) sent), b)"
| "bus_advance send capacity (AtSendOthers m (r # rest) sent) b =
     map_option (\<lambda>(n, qs). (Some (AtSendOthers m rest n), b\<lparr> bs_queues := qs \<rparr>)) (send_one send False m r (sent, bs_queues b))"
| "bus_advance send capacity (AtSendOthers m [] sent) b = Some (None, b)"
| "bus_advance send capacity (AtOpenResponse c q) b = Some (None, b\<lparr> bs_responses := hput c q (bs_responses b) \<rparr>)"
| "bus_advance send capacity (AtRespond m) b = map_option (\<lambda>(_, b'). (None, b')) (handle_response send m b)"
| "bus_advance send capacity (AtCloseResponse c) b = Some (None, b\<lparr> bs_responses := hdel c (bs_responses b) \<rparr>)"
| "bus_advance send capacity (AtDeadLetter now m reason n) b = Some (None, snd (send_to_dlq_with_retry now m reason n b))"
| "bus_advance send capacity AtClearDlq b = Some (None, snd (clear_dlq b))"
| "bus_advance send capacity (AtReprocess i) b = Some (None, snd (reprocess_dlq_message i b))"
| "bus_advance send capacity AtMetrics b = Some (None, snd (get_metrics capacity b))"

text \<open>Where an operation starts.\<close>

fun bus_entry :: "'q bus_point \<Rightarrow> bool" where
  "bus_entry (AtRegister q now k name caps) = True"
| "bus_entry (AtUnregister k) = True"
| "bus_entry (AtHeartbeat now k) = True"
| "bus_entry (AtMarkStale now) = True"
| "bus_entry (AtSubscribe k t) = True"
| "bus_entry (AtUnsubscribe k t) = True"
| "bus_entry (AtPublish m) = True"
| "bus_entry (AtOpenResponse c q) = True"
| "bus_entry (AtRespond m) = True"
| "bus_entry (AtCloseResponse c) = True"
| "bus_entry (AtDeadLetter now m reason n) = True"
| "bus_entry AtClearDlq = True"
| "bus_entry (AtReprocess i) = True"
| "bus_entry AtMetrics = True"
| "bus_entry p = False"

text \<open>The agent whose registration, end of registration or subscription is going on.\<close>

fun agent_of :: "'q bus_point \<Rightarrow> string option" where
  "agent_of (AtRegister q now k name caps) = Some k"
| "agent_of (AtRegisterInfo now k name caps) = Some k"
| "agent_of (AtUnregister k) = Some k"
| "agent_of (AtUnregisterInfo k) = Some k"
| "agent_of (AtUnregisterTopics k) = Some k"
| "agent_of (AtSubscribe k t) = Some k"
| "agent_of (AtSubscribeTopic k t) = Some k"
| "agent_of p = None"

text \<open>The bus and the tasks under way; \<open>admits\<close> says which task may start beside which others.\<close>

type_synonym 'q bus_state = "'q bus \<times> 'q bus_point list"

inductive bus_move :: "('q bus_point list \<Rightarrow> 'q bus_point \<Rightarrow> bool) \<Rightarrow> 'q send \<Rightarrow> ('q \<Rightarrow> nat) \<Rightarrow> 'q bus_state \<Rightarrow> 'q bus_state \<Rightarrow> bool"
  for admits send capacity
where
  start: "bus_entry p \<Longrightarrow> admits ts p \<Longrightarrow> bus_move admits send capacity (b, ts) (b, p # ts)"
| advance: "bus_advance send capacity p b = Some (nxt, b') \<Longrightarrow>
    bus_move admits send capacity (b, xs @ p # ys) (b', xs @ (case nxt of None \<Rightarrow> [] | Some q \<Rightarrow> [q]) @ ys)"

abbreviation bus_moves :: "('q bus_point list \<Rightarrow> 'q bus_point \<Rightarrow> bool) \<Rightarrow> 'q send \<Rightarrow> ('q \<Rightarrow> nat) \<Rightarrow> 'q bus_state \<Rightarrow> 'q bus_state \<Rightarrow> bool" where
  "bus_moves admits send capacity \<equiv> (bus_move admits send capacity)\<^sup>*\<^sup>*"


section \<open>A task on its own\<close>

text \<open>A task that nobody disturbs does what the operation does as it is defined for the whole.\<close>

abbreviation alone :: "'q send \<Rightarrow> ('q \<Rightarrow> nat) \<Rightarrow> 'q bus_point option \<times> 'q bus \<Rightarrow> 'q bus_point option \<times> 'q bus \<Rightarrow> bool" where
  "alone send capacity \<equiv> (\<lambda>(p, b) st. \<exists>q. p = Some q \<and> bus_advance send capacity q b = Some st)\<^sup>*\<^sup>*"

lemma alone_step: "bus_advance send capacity q b = Some st \<Longrightarrow> alone send capacity st st' \<Longrightarrow> alone send capacity (Some q, b) st'"
  by (rule converse_rtranclp_into_rtranclp) auto

lemma alone_end: "bus_advance send capacity q b = Some (None, b') \<Longrightarrow> alone send capacity (Some q, b) (None, b')"
  by (rule alone_step) auto

lemma alone_send_others:
  "send_to_all send False m ids (n, bs_queues b) = Some (n', qs') \<Longrightarrow>
     alone send capacity (Some (AtSendOthers m ids n), b) (None, b\<lparr> bs_queues := qs' \<rparr>)"
proof (induction ids arbitrary: n b)
  case Nil
  then show ?case by (intro alone_end) simp
next
  case (Cons r ids)
  then obtain n1 qs1 where 1: "send_one send False m r (n, bs_queues b) = Some (n1, qs1)"
    "send_to_all send False m ids (n1, qs1) = Some (n', qs')"
    by (cases "send_one send False m r (n, bs_queues b)") (auto simp del: send_one_eq)
  have "alone send capacity (Some (AtSendOthers m ids n1), b\<lparr> bs_queues := qs1 \<rparr>) (None, b\<lparr> bs_queues := qs' \<rparr>)"
    using Cons.IH [of n1 "b\<lparr> bs_queues := qs1 \<rparr>"] 1(2) by simp
  then show ?case by (rule alone_step [rotated]) (simp add: 1(1) del: send_one_eq)
qed

lemma alone_send:
  "send_to_all send True m ids (n, bs_queues b) = Some (n', qs') \<Longrightarrow>
     alone send capacity (Some (AtSend m receivers ids n), b) (Some (AtSend m receivers [] n'), b\<lparr> bs_queues := qs' \<rparr>)"
proof (induction ids arbitrary: n b)
  case Nil
  then have "bs_queues b = qs'" "n' = n" by auto
  then have "b\<lparr> bs_queues := qs' \<rparr> = b" by auto
  then show ?case by (simp add: \<open>n' = n\<close>)
next
  case (Cons r ids)
  then obtain n1 qs1 where 1: "send_one send True m r (n, bs_queues b) = Some (n1, qs1)"
    "send_to_all send True m ids (n1, qs1) = Some (n', qs')"
    by (cases "send_one send True m r (n, bs_queues b)") (auto simp del: send_one_eq)
  have "alone send capacity (Some (AtSend m receivers ids n1), b\<lparr> bs_queues := qs1 \<rparr>)
      (Some (AtSend m receivers [] n'), b\<lparr> bs_queues := qs' \<rparr>)"
    using Cons.IH [of n1 "b\<lparr> bs_queues := qs1 \<rparr>"] 1(2) by simp
  then show ?case by (rule alone_step [rotated]) (simp add: 1(1) del: send_one_eq)
qed

lemma alone_route:
  "alone send capacity (Some (AtSend m (determine_receivers m b) (determine_receivers m b) 0), b) st \<Longrightarrow>
     alone send capacity (Some (AtRoute m), b) st"
proof (cases "named_receivers m b")
  case None
  assume "alone send capacity (Some (AtSend m (determine_receivers m b) (determine_receivers m b) 0), b) st"
  then have "alone send capacity (Some (AtRouteAll m), b) st"
    by (rule alone_step [rotated]) (auto simp: None determine_receivers_def)
  then show ?thesis by (rule alone_step [rotated]) (auto simp: None determine_receivers_def)
next
  case (Some receivers)
  assume "alone send capacity (Some (AtSend m (determine_receivers m b) (determine_receivers m b) 0), b) st"
  then show ?thesis by (rule alone_step [rotated]) (auto simp: Some determine_receivers_def)
qed

lemma alone_publish:
  assumes "bus_publish send m b = Some (res, b')"
  shows "alone send capacity (Some (AtPublish m), b) (None, b')"
proof -
  let ?b1 = "count_sent b" and ?r = "determine_receivers m (count_sent b)"
  have "alone send capacity (Some (AtSend m ?r ?r 0), ?b1) (None, b')"
  proof (cases "?r = []")
    case True
    then show ?thesis using assms by (intro alone_end) (simp add: bus_publish_def Let_def)
  next
    case False
    then obtain n qs where s: "send_to_all send True m ?r (0, bs_queues ?b1) = Some (n, qs)"
      using assms by (auto simp: bus_publish_def Let_def split: option.splits)
    let ?b2 = "?b1\<lparr> bs_queues := qs \<rparr>"
    have "alone send capacity (Some (AtSend m ?r [] n), ?b2) (None, b')"
    proof (cases "am_topic m")
      case None
      then have "b' = ?b2" using assms s False by (auto simp: bus_publish_def Let_def)
      then show ?thesis using None by (intro alone_end) simp
    next
      case (Some topic)
      then obtain n' qs' where s': "send_to_all send False m (other_subscribers topic ?r ?b2) (n, qs) = Some (n', qs')"
        and b': "b' = (hand_to_broadcast m ?b2)\<lparr> bs_queues := qs' \<rparr>"
        using assms s False by (auto simp: bus_publish_def Let_def split: option.splits)
      let ?b3 = "hand_to_broadcast m ?b2"
      have same: "other_subscribers topic ?r ?b3 = other_subscribers topic ?r ?b2" by (simp add: publish_sections)
      have "alone send capacity (Some (AtSendOthers m (other_subscribers topic ?r ?b2) n), ?b3) (None, b')"
        unfolding b' by (rule alone_send_others [of _ _ _ _ _ n']) (simp add: s' hand_to_broadcast_def)
      then have "alone send capacity (Some (AtTopic m topic ?r n), ?b3) (None, b')"
        by (rule alone_step [rotated]) (simp add: same)
      then have "alone send capacity (Some (AtBroadcast m topic ?r n), ?b2) (None, b')" by (rule alone_step [rotated]) auto
      then show ?thesis by (rule alone_step [rotated]) (auto simp: False Some)
    qed
    then show ?thesis by (rule rtranclp_trans [OF alone_send [OF s]])
  qed
  then have "alone send capacity (Some (AtRoute m), ?b1) (None, b')" by (rule alone_route)
  then show ?thesis by (rule alone_step [rotated]) auto
qed

lemma alone_operations:
  "alone send capacity (Some (AtRegister q now k name caps), b) (None, snd (register_agent q now k name caps b))"
  "alone send capacity (Some (AtUnregister k), b) (None, snd (unregister_agent k b))"
  "alone send capacity (Some (AtHeartbeat now k), b) (None, snd (bus_heartbeat now k b))"
  "alone send capacity (Some (AtMarkStale now), b) (None, snd (mark_stale_offline now b))"
  "alone send capacity (Some (AtSubscribe k t), b) (None, snd (bus_subscribe k t b))"
proof -
  show "alone send capacity (Some (AtRegister q now k name caps), b) (None, snd (register_agent q now k name caps b))"
  proof (cases "register_queue q k b")
    case None
    then show ?thesis by (intro alone_end) (simp add: register_agent_def)
  next
    case (Some b1)
    have "alone send capacity (Some AtCount, register_info now k name caps b1) (None, count_agents (register_info now k name caps b1))"
      by (intro alone_end) simp
    then have "alone send capacity (Some (AtRegisterInfo now k name caps), b1) (None, count_agents (register_info now k name caps b1))"
      by (rule alone_step [rotated]) auto
    then have "alone send capacity (Some (AtRegister q now k name caps), b) (None, count_agents (register_info now k name caps b1))"
      by (rule alone_step [rotated]) (auto simp: Some)
    then show ?thesis using Some by (simp add: register_agent_def)
  qed
  let ?b1 = "unregister_queue k b" and ?b2 = "unregister_info k (unregister_queue k b)"
  have "alone send capacity (Some AtCount, unregister_topics k ?b2) (None, count_agents (unregister_topics k ?b2))"
    by (intro alone_end) simp
  then have "alone send capacity (Some (AtUnregisterTopics k), ?b2) (None, count_agents (unregister_topics k ?b2))"
    by (rule alone_step [rotated]) auto
  then have "alone send capacity (Some (AtUnregisterInfo k), ?b1) (None, count_agents (unregister_topics k ?b2))"
    by (rule alone_step [rotated]) auto
  then have "alone send capacity (Some (AtUnregister k), b) (None, count_agents (unregister_topics k ?b2))"
    by (rule alone_step [rotated]) auto
  then show "alone send capacity (Some (AtUnregister k), b) (None, snd (unregister_agent k b))"
    by (simp add: unregister_agent_def)
  show "alone send capacity (Some (AtHeartbeat now k), b) (None, snd (bus_heartbeat now k b))"
  proof (cases "heartbeat_agent now k b")
    case (Some b1)
    have "alone send capacity (Some AtHeartbeatMetrics, b1) (None, heartbeat_metrics b1)" by (intro alone_end) simp
    then have "alone send capacity (Some (AtHeartbeat now k), b) (None, heartbeat_metrics b1)"
      by (rule alone_step [rotated]) (auto simp: Some)
    then show ?thesis using Some by (simp add: bus_heartbeat_def)
  qed (auto simp: bus_heartbeat_def intro: alone_end)
  obtain n b1 where m: "mark_agents_offline (get_stale_agents now b) b = (n, b1)" by force
  have "alone send capacity (Some (AtCountStale n), b1) (None, count_stale n b1)" by (intro alone_end) simp
  then have "alone send capacity (Some (AtMarkOffline (get_stale_agents now b)), b) (None, count_stale n b1)"
    by (rule alone_step [rotated]) (auto simp: m)
  then have "alone send capacity (Some (AtMarkStale now), b) (None, count_stale n b1)"
    by (rule alone_step [rotated]) auto
  then show "alone send capacity (Some (AtMarkStale now), b) (None, snd (mark_stale_offline now b))"
    using m by (simp add: mark_stale_offline_def)
  show "alone send capacity (Some (AtSubscribe k t), b) (None, snd (bus_subscribe k t b))"
  proof (cases "hmem (bs_agents b) k")
    case True
    have "alone send capacity (Some (AtSubscribeTopic k t), b) (None, subscribe_topic k t b)" by (intro alone_end) simp
    then have "alone send capacity (Some (AtSubscribe k t), b) (None, subscribe_topic k t b)"
      by (rule alone_step [rotated]) (auto simp: True)
    then show ?thesis using True by (simp add: bus_subscribe_def)
  qed (auto simp: bus_subscribe_def intro: alone_end)
qed

section \<open>The invariant of the tables\<close>

text \<open>What is known of one agent while nobody is halfway through registering or unregistering it, and at each point where
  somebody is.\<close>

definition subscribed :: "'q bus \<Rightarrow> string \<Rightarrow> bool" where
  "subscribed b k = (\<exists>(t, s)\<in>set (bs_topics b). k \<in> set s)"










section \<open>What a section keeps\<close>



lemma subscribed_frame [simp]:
  "subscribed (b\<lparr> bs_queues := qs \<rparr>) k = subscribed b k" "subscribed (b\<lparr> bs_agents := ags \<rparr>) k = subscribed b k"
  "subscribed (b\<lparr> bs_metrics := m \<rparr>) k = subscribed b k"
  by (simp_all add: subscribed_def)









lemma topic_sections [simp]:
  "bs_queues (subscribe_topic k t b) = bs_queues b" "bs_agents (subscribe_topic k t b) = bs_agents b"
  "bs_dlq (subscribe_topic k t b) = bs_dlq b" "bm_dlq_size (bs_metrics (subscribe_topic k t b)) = bm_dlq_size (bs_metrics b)"
  "bm_registered_agents (bs_metrics (subscribe_topic k t b)) = bm_registered_agents (bs_metrics b)"
  "bs_queues (unregister_topics k b) = bs_queues b" "bs_agents (unregister_topics k b) = bs_agents b"
  "bs_dlq (unregister_topics k b) = bs_dlq b" "bs_metrics (unregister_topics k b) = bs_metrics b"
  by (simp_all add: subscribe_topic_def unregister_topics_def Let_def)






text \<open>At most one task acts for an agent.\<close>

definition acting :: "'q bus_point list \<Rightarrow> string list" where
  "acting ts = concat (map (\<lambda>p. case agent_of p of None \<Rightarrow> [] | Some k \<Rightarrow> [k]) ts)"

lemma acting_simps [simp]:
  "acting [] = []" "acting (p # ts) = (case agent_of p of None \<Rightarrow> [] | Some k \<Rightarrow> [k]) @ acting ts"
  "acting (xs @ ys) = acting xs @ acting ys"
  by (simp_all add: acting_def)



abbreviation going_on :: "'q bus_point option \<Rightarrow> 'q bus_point list" where
  "going_on nxt \<equiv> (case nxt of None \<Rightarrow> [] | Some q \<Rightarrow> [q])"







section \<open>Schedules\<close>

text \<open>A schedule that can be computed: which task starts, or which of those under way takes its next section.\<close>

datatype 'q bus_event = Begin "'q bus_point" | Advance nat

fun bus_schedule :: "('q bus_point list \<Rightarrow> 'q bus_point \<Rightarrow> bool) \<Rightarrow> 'q send \<Rightarrow> ('q \<Rightarrow> nat) \<Rightarrow> 'q bus_event list
    \<Rightarrow> 'q bus_state \<Rightarrow> 'q bus_state option" where
  "bus_schedule admits send capacity [] st = Some st"
| "bus_schedule admits send capacity (Begin p # es) (b, ts) =
     (if bus_entry p \<and> admits ts p then bus_schedule admits send capacity es (b, p # ts) else None)"
| "bus_schedule admits send capacity (Advance i # es) (b, ts) =
     (if i < length ts then
        (case bus_advance send capacity (ts ! i) b of
           None \<Rightarrow> None
         | Some (nxt, b') \<Rightarrow> bus_schedule admits send capacity es (b', take i ts @ going_on nxt @ drop (Suc i) ts))
      else None)"

lemma schedule_moves: "bus_schedule admits send capacity es st = Some st' \<Longrightarrow> bus_moves admits send capacity st st'"
proof (induction admits send capacity es st rule: bus_schedule.induct)
  case (2 admits send capacity p es b ts)
  then have "bus_move admits send capacity (b, ts) (b, p # ts)" "bus_moves admits send capacity (b, p # ts) st'"
    by (auto intro: bus_move.start split: if_splits)
  then show ?case by (rule converse_rtranclp_into_rtranclp)
next
  case (3 admits send capacity i es b ts)
  then obtain nxt b' where a: "i < length ts" "bus_advance send capacity (ts ! i) b = Some (nxt, b')"
    and rest: "bus_schedule admits send capacity es (b', take i ts @ going_on nxt @ drop (Suc i) ts) = Some st'"
    by (auto split: if_splits option.splits prod.splits)
  have "bus_move admits send capacity (b, take i ts @ ts ! i # drop (Suc i) ts) (b', take i ts @ going_on nxt @ drop (Suc i) ts)"
    by (rule bus_move.advance [OF a(2)])
  then have "bus_move admits send capacity (b, ts) (b', take i ts @ going_on nxt @ drop (Suc i) ts)"
    using a(1) by (simp add: id_take_nth_drop [symmetric])
  moreover have "bus_moves admits send capacity (b', take i ts @ going_on nxt @ drop (Suc i) ts) st'"
    using 3 a rest by auto
  ultimately show ?case by (rule converse_rtranclp_into_rtranclp)
qed simp

abbreviation new_bus :: "(nat \<times> agent_message list) bus_state" where
  "new_bus \<equiv> (bus_with_config heartbeat_default, [])"

abbreviation register_task :: "string \<Rightarrow> (nat \<times> agent_message list) bus_point" where
  "register_task k \<equiv> AtRegister (1, []) 0 k [] []"



text \<open>Nothing in the code keeps tasks for one agent apart. An agent that is unregistered between the two sections of its
  subscription stays a subscriber; one that is unregistered while it registers is listed without a queue; and one that is
  registered again while it is unregistered keeps a queue and is not listed.\<close>

lemma unregister_within_subscribe:
  "\<exists>b. bus_moves (\<lambda>_ _. True) sample_send fst new_bus (b, []) \<and> subscribed b ''a'' \<and> \<not> hmem (bs_agents b) ''a''"
proof -
  let ?es = "[Begin (register_task ''a''), Advance 0, Advance 0, Advance 0, Begin (AtSubscribe ''a'' ''news''), Advance 0,
    Begin (AtUnregister ''a''), Advance 0, Advance 0, Advance 0, Advance 0, Advance 0]"
  obtain b where "bus_schedule (\<lambda>_ _. True) sample_send fst ?es new_bus = Some (b, [])"
    "subscribed b ''a''" "\<not> hmem (bs_agents b) ''a''"
    by (simp add: register_sections subscribe_topic_def unregister_queue_def unregister_info_def unregister_topics_def
        bus_with_config_def subscribed_def Let_def hmem_def)
  then show ?thesis using schedule_moves by blast
qed

lemma unregister_within_register:
  "\<exists>b. bus_moves (\<lambda>_ _. True) sample_send fst new_bus (b, []) \<and> hmem (bs_agents b) ''a'' \<and> \<not> hmem (bs_queues b) ''a''"
proof -
  let ?es = "[Begin (register_task ''a''), Advance 0, Begin (AtUnregister ''a''), Advance 0, Advance 0, Advance 0, Advance 0,
    Advance 0, Advance 0]"
  obtain b where "bus_schedule (\<lambda>_ _. True) sample_send fst ?es new_bus = Some (b, [])"
    "hmem (bs_agents b) ''a''" "\<not> hmem (bs_queues b) ''a''"
    by (simp add: register_sections unregister_queue_def unregister_info_def unregister_topics_def
        bus_with_config_def Let_def hmem_def)
  then show ?thesis using schedule_moves by blast
qed

lemma register_within_unregister:
  "\<exists>b. bus_moves (\<lambda>_ _. True) sample_send fst new_bus (b, []) \<and> hmem (bs_queues b) ''a'' \<and> \<not> hmem (bs_agents b) ''a''"
proof -
  let ?es = "[Begin (register_task ''a''), Advance 0, Advance 0, Advance 0, Begin (AtUnregister ''a''), Advance 0,
    Begin (register_task ''a''), Advance 0, Advance 0, Advance 0, Advance 0, Advance 0, Advance 0]"
  obtain b where "bus_schedule (\<lambda>_ _. True) sample_send fst ?es new_bus = Some (b, [])"
    "hmem (bs_queues b) ''a''" "\<not> hmem (bs_agents b) ''a''"
    by (simp add: register_sections unregister_queue_def unregister_info_def unregister_topics_def
        bus_with_config_def Let_def hmem_def)
  then show ?thesis using schedule_moves by blast
qed

end
