(* ===== verification/AgentRegistry.thy ===== *)
theory AgentRegistry
  imports SecretLeases
begin

text \<open>The registry of running agents (\<open>src/src/coordination/agent_registry.rs\<close> with the records of
  \<open>src/src/domain/agent.rs\<close>) and what the start and the end of a task do to the leases of an agent in the engine
  of \<open>SecretLeases\<close>. Times are in nanoseconds; an operation is one step. The event bus is the list of what is
  published.\<close>

section \<open>Agents\<close>

record agent_metadata =
  amd_name :: "string option"
  amd_capabilities :: "string list"
  amd_role :: "string option"
  amd_endpoint :: "string option"

record agent_entry =
  ae_agent_id :: string
  ae_session_id :: string
  ae_last_heartbeat :: int
  ae_metadata :: agent_metadata

datatype task_event =
    AgentTaskStarted string string
  | AgentTaskCompleted string string
  | AgentTaskFailed string string string

record agent_registry =
  rg_agents :: "(string, agent_entry) hmap"
  rg_engine :: "lease_engine option"
  rg_events :: "task_event list option"

definition registry_new :: "lease_engine option \<Rightarrow> task_event list option \<Rightarrow> agent_registry" where
  "registry_new secrets_engine event_bus = \<lparr> rg_agents = [], rg_engine = secrets_engine, rg_events = event_bus \<rparr>"

definition registry_register :: "int \<Rightarrow> string \<Rightarrow> string \<Rightarrow> agent_metadata \<Rightarrow> agent_registry \<Rightarrow> bool \<times> agent_registry" where
  "registry_register now agent_id session_id metadata r =
     (True, r\<lparr> rg_agents := hput agent_id \<lparr> ae_agent_id = agent_id, ae_session_id = session_id,
                               ae_last_heartbeat = now, ae_metadata = metadata \<rparr> (rg_agents r) \<rparr>)"

definition registry_unregister :: "string \<Rightarrow> agent_registry \<Rightarrow> bool \<times> agent_registry" where
  "registry_unregister agent_id r = (hmem (rg_agents r) agent_id, r\<lparr> rg_agents := hdel agent_id (rg_agents r) \<rparr>)"

definition registry_heartbeat :: "int \<Rightarrow> string \<Rightarrow> agent_registry \<Rightarrow> bool \<times> agent_registry" where
  "registry_heartbeat now agent_id r = (case hget (rg_agents r) agent_id of
     Some entry \<Rightarrow> (True, r\<lparr> rg_agents := hput agent_id (entry\<lparr> ae_last_heartbeat := now \<rparr>) (rg_agents r) \<rparr>)
   | None \<Rightarrow> (False, r))"

text \<open>\<open>num_seconds\<close> cuts the fraction off, towards zero.\<close>

definition num_seconds :: "int \<Rightarrow> int" where
  "num_seconds d = (if 0 \<le> d then d div 1000000000 else - ((- d) div 1000000000))"

definition get_active_agents :: "int \<Rightarrow> agent_registry \<Rightarrow> agent_entry list" where
  "get_active_agents now r = filter (\<lambda>entry. num_seconds (now - ae_last_heartbeat entry) < 300) (hvalues (rg_agents r))"

definition registry_get :: "string \<Rightarrow> agent_registry \<Rightarrow> agent_entry option" where
  "registry_get agent_id r = hget (rg_agents r) agent_id"

definition list_ids :: "agent_registry \<Rightarrow> string list" where
  "list_ids r = hkeys (rg_agents r)"

section \<open>Tasks\<close>

definition registry_publish :: "task_event \<Rightarrow> agent_registry \<Rightarrow> agent_registry" where
  "registry_publish ev r = r\<lparr> rg_events := map_option (\<lambda>evs. evs @ [ev]) (rg_events r) \<rparr>"

definition on_task_start :: "lease_env \<Rightarrow> string \<Rightarrow> string \<Rightarrow> agent_registry \<Rightarrow> agent_registry" where
  "on_task_start env agent_id task_id r =
     (let r1 = registry_publish (AgentTaskStarted agent_id task_id) r
      in r1\<lparr> rg_engine := map_option (\<lambda>e. snd (renew_for_agent env e agent_id 3600)) (rg_engine r1) \<rparr>)"

definition on_task_complete :: "lease_env \<Rightarrow> string \<Rightarrow> string \<Rightarrow> (unit, string) result \<Rightarrow> agent_registry \<Rightarrow> agent_registry" where
  "on_task_complete env agent_id task_id result r =
     (let r1 = (case result of
                  Ok _ \<Rightarrow> registry_publish (AgentTaskCompleted agent_id task_id) r
                | Err e \<Rightarrow> registry_publish (AgentTaskFailed agent_id task_id e) r)
      in r1\<lparr> rg_engine := map_option (\<lambda>e. snd (revoke_for_agent env e agent_id ''Task Ended'')) (rg_engine r1) \<rparr>)"

section \<open>The end of a task\<close>

lemma revoke_for_agent_leases:
  "le_leases (snd (revoke_for_agent env e agent_id reason)) =
     filter (\<lambda>(_, l). sl_agent_id l \<noteq> agent_id) (le_leases (ensure_restored env e))"
  unfolding revoke_for_agent_def drop_leases_def by (simp add: Let_def foldl_persist)

text \<open>C36: In a run in which the database has always answered and every time is read back, when a task of an agent ends,
  however it ends, the agent has no lease left, in the engine or in the table a restart would load, and the
  leases of other agents are as before.\<close>

theorem task_end_revokes_leases:
  fixes agent_id task_id :: string and result :: "(unit, string) result"
  assumes "e = lease_run steps (lease_engine_new exfil tab)" and "hmap_ok tab" and "rows_exact T tab"
    and "exact_run T steps (lease_engine_new exfil tab)" and "env_db env" and "env_text env = T" and "rg_engine r = Some e"
  defines "e' \<equiv> the (rg_engine (on_task_complete env agent_id task_id result r))"
  shows "(\<forall>tok l. hget (le_leases e') tok = Some l \<longrightarrow> sl_agent_id l \<noteq> agent_id)
    \<and> (\<forall>tok row. active (le_table e') tok = Some row \<longrightarrow> lr_agent_id row \<noteq> agent_id)
    \<and> (\<forall>tok l. sl_agent_id l \<noteq> agent_id \<longrightarrow>
         hget (le_leases e') tok = Some l \<longleftrightarrow> hget (le_leases (ensure_restored env e)) tok = Some l)"
proof -
  have e': "e' = snd (revoke_for_agent env e agent_id ''Task Ended'')"
    using assms(7) by (simp add: e'_def on_task_complete_def registry_publish_def Let_def split: sum.split)
  have sync: "synced T e" using assms(1-4) by (simp add: synced_run)
  note here = synced_ensure [OF sync assms(5,6)]
  have step: "e' = lease_step (env, OpRevokeAgent agent_id ''Task Ended'') e" by (simp add: e')
  have "leases_exact T e'"
    using here by (auto simp: synced_def leases_exact_def list_all_iff e' revoke_for_agent_leases)
  then have sync': "synced T e'"
    using synced_step [OF sync, of "(env, OpRevokeAgent agent_id ''Task Ended'')"] assms(5,6) by (simp add: step)
  have restored: "le_restored e'"
    using revoke_for_agent_steps [of env e agent_id "''Task Ended''"] by (simp add: e' steps_to_def)
  have ok: "hmap_ok (le_leases (ensure_restored env e))"
    using here by (simp add: synced_def leases_ok_def)
  have leases: "hget (le_leases e') tok = (case hget (le_leases (ensure_restored env e)) tok of None \<Rightarrow> None
      | Some l \<Rightarrow> if sl_agent_id l \<noteq> agent_id then Some l else None)" for tok
    by (simp add: e' revoke_for_agent_leases hget_filter [OF ok] split: option.split)
  have rows: "active (le_table e') tok = map_option (row_of_lease T) (hget (le_leases e') tok)" for tok
    using sync' restored by (simp add: synced_def)
  show ?thesis
    by (auto simp: leases rows row_of_lease_def split: option.splits if_splits)
qed

lemma task_end_revokes_leases_witness:
  "\<exists>env e. hget (le_leases e) ''t'' \<noteq> None
     \<and> hget (le_leases (the (rg_engine (on_task_complete env ''bot'' ''job'' (Ok ()) (registry_new (Some e) None))))) ''t'' = None"
proof -
  let ?env = "env_at True 0 ''t''"
  let ?row = "row_of_lease sample_text \<lparr> sl_token = ''t'', sl_secret_name = ''k'', sl_secret_value = None, sl_agent_id = ''bot'',
    sl_expires_at = 100, sl_created_at = 0 \<rparr>"
  let ?tab = "[(''t'', ?row)]"
  let ?l = "\<lparr> sl_token = ''t'', sl_secret_name = ''k'', sl_secret_value = None, sl_agent_id = ''bot'',
    sl_expires_at = 100, sl_created_at = 0 \<rparr>"
  let ?e = "lease_run [(?env, OpGet ''t'')] (lease_engine_new None ?tab)"
  have t: "exact sample_text 0" "exact sample_text 100" by (simp_all add: nanos_def)
  then have load: "load_row sample_text ?row = Some \<lparr> ld_secret_name = ''k'', ld_agent_id = ''bot'', ld_created_at = 0, ld_expires_at = 100 \<rparr>"
    by (subst load_row_of_lease) simp_all
  have unrevoked: "\<not> lr_revoked ?row" by (simp add: row_of_lease_def)
  have leases: "le_leases ?e = [(''t'', ?l)]" "le_restored ?e"
    using load unrevoked by (simp_all add: lease_eval lease_of_row_def)
  then have 1: "hget (le_leases ?e) ''t'' \<noteq> None" by simp
  have bot: "hget (le_leases (ensure_restored ?env ?e)) ''t'' = Some ?l" "sl_agent_id ?l = ''bot''"
    using leases by (simp_all add: ensure_restored_def)
  have rows: "rows_exact sample_text ?tab" by (simp add: rows_exact_def active_def row_of_lease_def) (use t in blast)
  have "exact_run sample_text [(?env, OpGet ''t'')] (lease_engine_new None ?tab)"
    using leases(1) t by (simp add: lease_run_def leases_exact_def) (simp add: lease_engine_new_def)
  let ?r = "registry_new (Some ?e) None"
  let ?after = "the (rg_engine (on_task_complete ?env ''bot'' ''job'' (Ok ()) ?r))"
  have p: "hmap_ok ?tab" "env_db ?env" "env_text ?env = sample_text" "rg_engine ?r = Some ?e"
    by (simp_all add: registry_new_def hmap_ok_def)
  note spec = task_end_revokes_leases [OF refl p(1) rows \<open>exact_run _ _ _\<close> p(2-4), of "''bot''" "''job''" "Ok ()"]
  have "hget (le_leases (the (rg_engine (on_task_complete ?env ''bot'' ''job'' (Ok ()) (registry_new (Some ?e) None))))) ''t'' = None"
  proof (rule ccontr)
    assume "hget (le_leases ?after) ''t'' \<noteq> None"
    then obtain l where l: "hget (le_leases ?after) ''t'' = Some l" by blast
    have n: "sl_agent_id l \<noteq> ''bot''" by (rule spec [THEN conjunct1, rule_format, OF l])
    then have "hget (le_leases (ensure_restored ?env ?e)) ''t'' = Some l"
      by (rule spec [THEN conjunct2, THEN conjunct2, rule_format, THEN iffD1, OF _ l])
    then show False using bot n by simp
  qed
  then show ?thesis using 1 by blast
qed

end
