(* ===== verification/Checkpoints.thy ===== *)
theory Checkpoints
  imports MemoryStore
begin

text \<open>The checkpoint manager of \<open>src/src/checkpoint/mod.rs\<close>, a cache over the store trait. It is a client of the locale
  \<open>checkpoint_store\<close>, which the in-memory store and the file store of \<open>MemoryStore\<close> interpret.\<close>

section \<open>The manager\<close>

text \<open>The operations of the trait are arguments; the environment \<open>e\<close> of a write says how it turns out.\<close>

type_synonym ('e, 's) cp_save = "'e \<Rightarrow> 's \<Rightarrow> string \<Rightarrow> checkpoint \<Rightarrow> (unit, string) result \<times> 's"
type_synonym 's cp_load = "'s \<Rightarrow> string \<Rightarrow> string \<Rightarrow> string \<Rightarrow> (checkpoint option, string) result"
type_synonym 's cp_list = "'s \<Rightarrow> string \<Rightarrow> string \<Rightarrow> (checkpoint list, string) result"
type_synonym ('e, 's) cp_delete = "'e \<Rightarrow> 's \<Rightarrow> string \<Rightarrow> string \<Rightarrow> string \<Rightarrow> (unit, string) result \<times> 's"

record 's manager =
  mg_cache :: "(string, checkpoint) hmap"
  mg_store :: "(string \<times> 's) option"

definition manager_new :: "'s manager" where
  "manager_new = \<lparr> mg_cache = [], mg_store = None \<rparr>"

definition manager_with_store :: "string \<Rightarrow> 's \<Rightarrow> 's manager" where
  "manager_with_store workspace_id store = \<lparr> mg_cache = [], mg_store = Some (workspace_id, store) \<rparr>"

definition manager_key :: "string \<Rightarrow> string \<Rightarrow> string" where
  "manager_key task_id name = task_id @ ''::'' @ name"

definition cache_checkpoint :: "checkpoint \<Rightarrow> (string, checkpoint) hmap \<Rightarrow> (string, checkpoint) hmap" where
  "cache_checkpoint c cache = hput (manager_key (cp_task_id c) (cp_name c)) c cache"

definition manager_save :: "('e, 's) cp_save \<Rightarrow> 'e \<Rightarrow> checkpoint \<Rightarrow> 's manager \<Rightarrow> (unit, string) result \<times> 's manager" where
  "manager_save save e c m =
     (let m1 = m\<lparr> mg_cache := cache_checkpoint c (mg_cache m) \<rparr>
      in case mg_store m1 of
           None \<Rightarrow> (Ok (), m1)
         | Some (wid, store) \<Rightarrow>
             (let (res, store') = save e store wid c in (res, m1\<lparr> mg_store := Some (wid, store') \<rparr>)))"

definition manager_load :: "'s cp_load \<Rightarrow> string \<Rightarrow> string \<Rightarrow> 's manager \<Rightarrow> (checkpoint option, string) result \<times> 's manager" where
  "manager_load load task_id name m =
     (case hget (mg_cache m) (manager_key task_id name) of
        Some c \<Rightarrow> (Ok (Some c), m)
      | None \<Rightarrow> (case mg_store m of
          None \<Rightarrow> (Ok None, m)
        | Some (wid, store) \<Rightarrow> (case load store wid task_id name of
            Err e \<Rightarrow> (Err e, m)
          | Ok None \<Rightarrow> (Ok None, m)
          | Ok (Some c) \<Rightarrow> (Ok (Some c), m\<lparr> mg_cache := hput (manager_key task_id name) c (mg_cache m) \<rparr>))))"

definition manager_list :: "'s cp_list \<Rightarrow> string \<Rightarrow> 's manager \<Rightarrow> (checkpoint list, string) result \<times> 's manager" where
  "manager_list listing task_id m =
     (case mg_store m of
        Some (wid, store) \<Rightarrow> (case listing store wid task_id of
            Err e \<Rightarrow> (Err e, m)
          | Ok cs \<Rightarrow> (Ok cs, m\<lparr> mg_cache := fold cache_checkpoint cs (mg_cache m) \<rparr>))
      | None \<Rightarrow> (Ok (filter (\<lambda>c. cp_task_id c = task_id) (hvalues (mg_cache m))), m))"

definition manager_delete :: "('e, 's) cp_delete \<Rightarrow> 'e \<Rightarrow> string \<Rightarrow> string \<Rightarrow> 's manager \<Rightarrow> (unit, string) result \<times> 's manager" where
  "manager_delete remove e task_id name m =
     (let m1 = m\<lparr> mg_cache := hdel (manager_key task_id name) (mg_cache m) \<rparr>
      in case mg_store m1 of
           None \<Rightarrow> (Ok (), m1)
         | Some (wid, store) \<Rightarrow>
             (let (res, store') = remove e store wid task_id name in (res, m1\<lparr> mg_store := Some (wid, store') \<rparr>)))"

datatype 'e manager_op = MSave 'e checkpoint | MLoad string string | MList string | MDelete 'e string string

definition manager_step :: "('e, 's) cp_save \<Rightarrow> 's cp_load \<Rightarrow> 's cp_list \<Rightarrow> ('e, 's) cp_delete
    \<Rightarrow> 'e manager_op \<Rightarrow> 's manager \<Rightarrow> bool \<times> 's manager" where
  "manager_step save load listing remove a m = (case a of
     MSave e c \<Rightarrow> (let (r, m') = manager_save save e c m in (is_ok r, m'))
   | MLoad t n \<Rightarrow> (let (r, m') = manager_load load t n m in (is_ok r, m'))
   | MList t \<Rightarrow> (let (r, m') = manager_list listing t m in (is_ok r, m'))
   | MDelete e t n \<Rightarrow> (let (r, m') = manager_delete remove e t n m in (is_ok r, m')))"

text \<open>The manager after operations that all succeed; \<open>None\<close> when one of them reports an error.\<close>

fun manager_run :: "('e, 's) cp_save \<Rightarrow> 's cp_load \<Rightarrow> 's cp_list \<Rightarrow> ('e, 's) cp_delete
    \<Rightarrow> 'e manager_op list \<Rightarrow> 's manager \<Rightarrow> 's manager option" where
  "manager_run save load listing remove [] m = Some m"
| "manager_run save load listing remove (a # as) m =
     (let (ok, m') = manager_step save load listing remove a m
      in if ok then manager_run save load listing remove as m' else None)"

text \<open>Operations on tasks whose identifier has no colon, and what an operation means for the checkpoint stored under
  a task and a name.\<close>

fun plain_op :: "'e manager_op \<Rightarrow> bool" where
  "plain_op (MSave e c) = (CHR '':'' \<notin> set (cp_task_id c))"
| "plain_op (MLoad t n) = (CHR '':'' \<notin> set t)"
| "plain_op (MList t) = (CHR '':'' \<notin> set t)"
| "plain_op (MDelete e t n) = (CHR '':'' \<notin> set t)"

type_synonym checkpoint_map = "string \<times> string \<Rightarrow> (checkpoint option, string) result"

fun manager_effect :: "'e manager_op \<Rightarrow> checkpoint_map \<Rightarrow> checkpoint_map" where
  "manager_effect (MSave e c) f = f((cp_task_id c, cp_name c) := Ok (Some c))"
| "manager_effect (MDelete e t n) f = f((t, n) := Ok None)"
| "manager_effect (MLoad t n) f = f"
| "manager_effect (MList t) f = f"

section \<open>What the manager relies on\<close>

locale checkpoint_store =
  fixes save :: "('e, 's) cp_save"
    and load :: "'s cp_load"
    and listing :: "'s cp_list"
    and remove :: "('e, 's) cp_delete"
    and ok :: "'s \<Rightarrow> bool"
  assumes load_after_save: "save e s w c = (Ok (), s') \<Longrightarrow>
      load s' w t n = (if t = cp_task_id c \<and> n = cp_name c then Ok (Some c) else load s w t n)"
    and load_after_remove: "remove e s w t n = (Ok (), s') \<Longrightarrow>
      load s' w t' n' = (if t' = t \<and> n' = n then Ok None else load s w t' n')"
    and ok_save: "ok s \<Longrightarrow> ok (snd (save e s w c))"
    and ok_remove: "ok s \<Longrightarrow> ok (snd (remove e s w t n))"
    and load_names: "load s w t n = Ok (Some c) \<Longrightarrow> cp_task_id c = t \<and> cp_name c = n"
    and list_loads: "ok s \<Longrightarrow> listing s w t = Ok cs \<Longrightarrow> c \<in> set cs \<Longrightarrow>
      cp_task_id c = t \<and> load s w t (cp_name c) = Ok (Some c)"
begin

text \<open>Every cached checkpoint is under its own key, belongs to a task without a colon, and is what the store has.\<close>

definition coherent :: "'s manager \<Rightarrow> bool" where
  "coherent m \<longleftrightarrow> (\<exists>w s. mg_store m = Some (w, s) \<and> ok s
     \<and> (\<forall>k c. hget (mg_cache m) k = Some c \<longrightarrow> k = manager_key (cp_task_id c) (cp_name c)
          \<and> CHR '':'' \<notin> set (cp_task_id c) \<and> load s w (cp_task_id c) (cp_name c) = Ok (Some c)))"

lemma coherentI:
  assumes "mg_store m = Some (w, s)" "ok s"
    and "\<And>k c. hget (mg_cache m) k = Some c \<Longrightarrow> k = manager_key (cp_task_id c) (cp_name c)
       \<and> CHR '':'' \<notin> set (cp_task_id c) \<and> load s w (cp_task_id c) (cp_name c) = Ok (Some c)"
  shows "coherent m"
  unfolding coherent_def using assms by blast

lemma key_inj:
  assumes "CHR '':'' \<notin> set t" "CHR '':'' \<notin> set t'" "manager_key t n = manager_key t' n'"
  shows "t = t' \<and> n = n'"
proof -
  have colon: "takeWhile (\<lambda>x. x \<noteq> CHR '':'') (manager_key u v) = u" if "CHR '':'' \<notin> set u" for u v
    unfolding manager_key_def using that by (subst takeWhile_append2) auto
  then have "t = t'" using assms by metis
  then show ?thesis using assms(3) by (simp add: manager_key_def)
qed

lemma load_reads_store:
  assumes "coherent m" "CHR '':'' \<notin> set t" "mg_store m = Some (w, s)"
  shows "fst (manager_load load t n m) = load s w t n"
proof (cases "hget (mg_cache m) (manager_key t n)")
  case None
  then show ?thesis using assms(3)
    by (simp add: manager_load_def split: sum.split option.split)
next
  case (Some c)
  then have c: "manager_key t n = manager_key (cp_task_id c) (cp_name c)" "CHR '':'' \<notin> set (cp_task_id c)"
    "load s w (cp_task_id c) (cp_name c) = Ok (Some c)"
    using assms(1,3) unfolding coherent_def by auto
  then show ?thesis using Some key_inj [OF assms(2) c(2) c(1)] by (simp add: manager_load_def)
qed

lemma coherent_fold_cache:
  assumes "\<forall>c\<in>set cs. P (manager_key (cp_task_id c) (cp_name c)) c" and "\<And>k c. hget cache k = Some c \<Longrightarrow> P k c"
  shows "hget (fold cache_checkpoint cs cache) k = Some c \<Longrightarrow> P k c"
  using assms
proof (induction cs arbitrary: cache)
  case (Cons a cs)
  have "P j x" if "hget (cache_checkpoint a cache) j = Some x" for j x
    using that Cons.prems(2,3) by (auto simp: cache_checkpoint_def split: if_splits)
  then show ?case using Cons.IH [of "cache_checkpoint a cache"] Cons.prems(1,2) by simp
qed simp

lemma coherent_step:
  assumes coh: "coherent m" and step: "manager_step save load listing remove a m = (True, m')"
    and plain: "plain_op a"
  shows "coherent m'"
proof -
  obtain w s where s: "mg_store m = Some (w, s)" "ok s"
    and cache: "\<And>k c. hget (mg_cache m) k = Some c \<Longrightarrow> k = manager_key (cp_task_id c) (cp_name c)
      \<and> CHR '':'' \<notin> set (cp_task_id c) \<and> load s w (cp_task_id c) (cp_name c) = Ok (Some c)"
    using coh unfolding coherent_def by blast
  show ?thesis
  proof (cases a)
    case (MSave e c)
    obtain r s' where r: "save e s w c = (r, s')" by force
    then have r': "save e s w c = (Ok (), s')" and m': "m' = \<lparr> mg_cache = cache_checkpoint c (mg_cache m), mg_store = Some (w, s') \<rparr>"
      using step s MSave by (auto simp: manager_step_def manager_save_def Let_def is_ok_iff)
    have "ok s'" using ok_save [OF s(2), of e w c] r by simp
    moreover have "k = manager_key (cp_task_id d) (cp_name d) \<and> CHR '':'' \<notin> set (cp_task_id d)
        \<and> load s' w (cp_task_id d) (cp_name d) = Ok (Some d)"
      if "hget (cache_checkpoint c (mg_cache m)) k = Some d" for k d
    proof (cases "k = manager_key (cp_task_id c) (cp_name c)")
      case True
      then show ?thesis using that plain MSave load_after_save [OF r'] by (simp add: cache_checkpoint_def)
    next
      case False
      then have "hget (mg_cache m) k = Some d" using that by (simp add: cache_checkpoint_def)
      note d = cache [OF this]
      then have "load s' w (cp_task_id d) (cp_name d) = load s w (cp_task_id d) (cp_name d)"
        using False load_after_save [OF r', of "cp_task_id d" "cp_name d"] by metis
      then show ?thesis using d by simp
    qed
    ultimately show ?thesis by (intro coherentI [of _ w s']) (simp_all add: m')
  next
    case (MLoad t n)
    then have m': "m' = snd (manager_load load t n m)" using step by (simp add: manager_step_def split: prod.splits)
    show ?thesis
      using plain MLoad s cache load_names
      by (intro coherentI [of _ w s])
        (auto simp: m' manager_load_def split: option.splits sum.splits if_splits)
  next
    case (MList t)
    then obtain cs where cs: "listing s w t = Ok cs" and m': "m' = m\<lparr> mg_cache := fold cache_checkpoint cs (mg_cache m) \<rparr>"
      using step s by (auto simp: manager_step_def manager_list_def split: sum.splits)
    have "\<forall>c\<in>set cs. manager_key (cp_task_id c) (cp_name c) = manager_key (cp_task_id c) (cp_name c)
      \<and> CHR '':'' \<notin> set (cp_task_id c) \<and> load s w (cp_task_id c) (cp_name c) = Ok (Some c)"
      using list_loads [OF s(2) cs] plain MList by auto
    note cached = coherent_fold_cache [where P = "\<lambda>k c. k = manager_key (cp_task_id c) (cp_name c)
      \<and> CHR '':'' \<notin> set (cp_task_id c) \<and> load s w (cp_task_id c) (cp_name c) = Ok (Some c)", OF this cache]
    show ?thesis using s cached by (intro coherentI [of _ w s]) (simp_all add: m')
  next
    case (MDelete e t n)
    obtain r s' where r: "remove e s w t n = (r, s')" by force
    then have r': "remove e s w t n = (Ok (), s')"
      and m': "m' = \<lparr> mg_cache = hdel (manager_key t n) (mg_cache m), mg_store = Some (w, s') \<rparr>"
      using step s MDelete by (auto simp: manager_step_def manager_delete_def Let_def is_ok_iff)
    have "ok s'" using ok_remove [OF s(2), of e w t n] r by simp
    then show ?thesis
      using cache by (intro coherentI [of _ w s']) (auto simp: m' load_after_remove [OF r'] split: if_splits)
  qed
qed

lemma step_effect:
  assumes "manager_step save load listing remove a m = (True, m')" and s: "mg_store m = Some (w, s)"
  obtains s' where "mg_store m' = Some (w, s')"
    and "(\<lambda>(t, n). load s' w t n) = manager_effect a (\<lambda>(t, n). load s w t n)"
    and "s' = s \<or> (\<exists>e c. save e s w c = (Ok (), s')) \<or> (\<exists>e t n. remove e s w t n = (Ok (), s'))"
proof (cases a)
  case (MSave e c)
  obtain r s' where r: "save e s w c = (r, s')" by force
  then have r': "save e s w c = (Ok (), s')" and m': "mg_store m' = Some (w, s')"
    using assms MSave by (auto simp: manager_step_def manager_save_def Let_def is_ok_iff)
  show ?thesis
    by (rule that [OF m']) (use MSave r' in \<open>auto simp: load_after_save [OF r'] fun_eq_iff\<close>)
next
  case (MLoad t n)
  then have "mg_store m' = Some (w, s)"
    using assms by (auto simp: manager_step_def manager_load_def split: option.splits sum.splits)
  then show ?thesis by (rule that) (simp_all add: MLoad)
next
  case (MList t)
  then have "mg_store m' = Some (w, s)"
    using assms by (auto simp: manager_step_def manager_list_def split: sum.splits)
  then show ?thesis by (rule that) (simp_all add: MList)
next
  case (MDelete e t n)
  obtain r s' where r: "remove e s w t n = (r, s')" by force
  then have r': "remove e s w t n = (Ok (), s')" and m': "mg_store m' = Some (w, s')"
    using assms MDelete by (auto simp: manager_step_def manager_delete_def Let_def is_ok_iff)
  show ?thesis
    by (rule that [OF m']) (use MDelete r' in \<open>auto simp: load_after_remove [OF r'] fun_eq_iff\<close>)
qed

text \<open>A run of successful operations acts on the store as on a map, keeps what its writes keep, and leaves a cache
  that agrees with the store.\<close>

lemma run_effect:
  assumes "manager_run save load listing remove as m0 = Some m" and "coherent m0" "\<forall>a\<in>set as. plain_op a"
    and "mg_store m0 = Some (w, s0)" "I s0"
    and "\<And>s s' e c. I s \<Longrightarrow> save e s w c = (Ok (), s') \<Longrightarrow> I s'"
    and "\<And>s s' e t n. I s \<Longrightarrow> remove e s w t n = (Ok (), s') \<Longrightarrow> I s'"
  shows "\<exists>s. mg_store m = Some (w, s) \<and> I s \<and> coherent m
    \<and> (\<lambda>(t, n). load s w t n) = fold manager_effect as (\<lambda>(t, n). load s0 w t n)"
  using assms(1-5)
proof (induction as arbitrary: m0 s0)
  case (Cons a as)
  then obtain m1 where m1: "manager_step save load listing remove a m0 = (True, m1)"
    and run: "manager_run save load listing remove as m1 = Some m"
    by (auto simp: Let_def split: prod.splits if_splits)
  obtain s1 where s1: "mg_store m1 = Some (w, s1)"
    "(\<lambda>(t, n). load s1 w t n) = manager_effect a (\<lambda>(t, n). load s0 w t n)"
    "s1 = s0 \<or> (\<exists>e c. save e s0 w c = (Ok (), s1)) \<or> (\<exists>e t n. remove e s0 w t n = (Ok (), s1))"
    using step_effect [OF m1 Cons.prems(4)] by blast
  have "I s1" using s1(3) Cons.prems(5) assms(6,7) by blast
  moreover have "coherent m1" using coherent_step [OF Cons.prems(2) m1] Cons.prems(3) by simp
  ultimately show ?case using Cons.IH [OF run _ _ s1(1)] Cons.prems(3) s1(2) by simp
qed simp

lemma fresh_coherent: "ok s \<Longrightarrow> coherent (manager_with_store w s)"
  by (intro coherentI [of _ w s]) (simp_all add: manager_with_store_def)

lemma fresh_load: "fst (manager_load load t n (manager_with_store w s)) = load s w t n"
  by (simp add: manager_load_def manager_with_store_def split: sum.split option.split)

end

section \<open>The stores\<close>

text \<open>A workspace has no two checkpoints of one task and name.\<close>

definition names_unique :: "durable_store \<Rightarrow> bool" where
  "names_unique st = (\<forall>(wid, w)\<in>set st. distinct (map (\<lambda>c. (cp_task_id c, cp_name c)) (ws_checkpoints w)))"

lemma names_unique_hput:
  "names_unique st \<Longrightarrow> distinct (map (\<lambda>c. (cp_task_id c, cp_name c)) (ws_checkpoints w)) \<Longrightarrow> names_unique (hput wid w st)"
  unfolding names_unique_def by (induction st) (auto split: if_splits)

lemma names_unique_workspace:
  assumes "names_unique st"
  shows "distinct (map (\<lambda>c. (cp_task_id c, cp_name c)) (ws_checkpoints (workspace_of st wid)))"
proof (cases "hget st wid")
  case (Some w)
  then have "(wid, w) \<in> set st" by (rule map_of_SomeD)
  then show ?thesis using assms Some by (auto simp: names_unique_def workspace_of_Some)
qed (simp add: workspace_of_None)

lemma find_filter_other:
  "find (same_checkpoint t n) (filter (\<lambda>c. \<not> same_checkpoint t' n' c) cs) =
     (if t = t' \<and> n = n' then None else find (same_checkpoint t n) cs)"
  by (induction cs) (auto simp: same_checkpoint_def [abs_def])

lemma mem_load_eq:
  "mem_load_checkpoint st wid t n = Ok (find (same_checkpoint t n) (ws_checkpoints (workspace_of st wid)))"
  by (simp add: mem_load_checkpoint_def workspace_of_def split: option.split)

lemma mem_list_eq:
  "mem_list_checkpoints st wid t = Ok (filter (\<lambda>c. cp_task_id c = t) (ws_checkpoints (workspace_of st wid)))"
  by (simp add: mem_list_checkpoints_def workspace_of_def split: option.split)

lemma find_put_checkpoint:
  "find (same_checkpoint t n) (ws_checkpoints (put_checkpoint c w)) =
     (if t = cp_task_id c \<and> n = cp_name c then Some c else find (same_checkpoint t n) (ws_checkpoints w))"
  by (simp add: put_checkpoint_def find_append find_filter_other) (simp add: same_checkpoint_def split: option.split)

lemma distinct_put_checkpoint:
  "distinct (map (\<lambda>c. (cp_task_id c, cp_name c)) (ws_checkpoints w)) \<Longrightarrow>
     distinct (map (\<lambda>c. (cp_task_id c, cp_name c)) (ws_checkpoints (put_checkpoint c w)))"
  by (auto simp: put_checkpoint_def same_checkpoint_def distinct_map inj_on_def)

lemma listed_found:
  "distinct (map (\<lambda>c. (cp_task_id c, cp_name c)) cs) \<Longrightarrow> c \<in> set cs \<Longrightarrow>
     find (same_checkpoint (cp_task_id c) (cp_name c)) cs = Some c"
  by (induction cs) (auto simp: same_checkpoint_def [abs_def] image_iff)

lemma found_name: "find (same_checkpoint t n) cs = Some c \<Longrightarrow> cp_task_id c = t \<and> cp_name c = n"
  by (auto dest: find_SomeD simp: same_checkpoint_def)

lemma names_unique_save: "names_unique st \<Longrightarrow> names_unique (workspace_mut wid (put_checkpoint c) st)"
  unfolding workspace_mut_def by (intro names_unique_hput distinct_put_checkpoint names_unique_workspace)

lemma names_unique_drop:
  "names_unique st \<Longrightarrow> names_unique (workspace_mut wid (\<lambda>w. w\<lparr> ws_checkpoints := filter P (ws_checkpoints w) \<rparr>) st)"
  unfolding workspace_mut_def
  by (intro names_unique_hput) (auto simp: distinct_map_filter names_unique_workspace)

lemma load_after_workspace_mut:
  "mem_load_checkpoint (workspace_mut wid f st) wid t n =
     Ok (find (same_checkpoint t n) (ws_checkpoints (f (workspace_of st wid))))"
  by (simp add: mem_load_eq workspace_mut_def workspace_of_def)

lemma mem_delete_checkpoint_load:
  "mem_load_checkpoint (snd (mem_delete_checkpoint st wid t n)) wid t' n' =
     (if t' = t \<and> n' = n then Ok None else mem_load_checkpoint st wid t' n')"
  by (cases "hget st wid")
    (auto simp: mem_delete_checkpoint_def mem_load_checkpoint_def find_filter_other)

interpretation mem_checkpoints: checkpoint_store "\<lambda>_. mem_save_checkpoint" mem_load_checkpoint mem_list_checkpoints
  "\<lambda>_. mem_delete_checkpoint" names_unique
proof (unfold_locales, goal_cases)
  case (1 e s w c s' t n)
  then show ?case by (auto simp: mem_save_checkpoint_def load_after_workspace_mut find_put_checkpoint mem_load_eq)
next
  case (2 e s w t n s' t' n')
  then show ?case using mem_delete_checkpoint_load [of s w t n t' n'] by simp
next
  case (3 s e w c)
  then show ?case by (simp add: mem_save_checkpoint_def names_unique_save)
next
  case (4 s e w t n)
  then show ?case
    using names_unique_drop [OF 4, of w "\<lambda>c. \<not> same_checkpoint t n c"]
    by (cases "hget s w") (simp_all add: mem_delete_checkpoint_def workspace_mut_def workspace_of_Some)
next
  case (5 s w t n c)
  then show ?case by (auto simp: mem_load_eq dest: found_name)
next
  case (6 s w t cs c)
  then show ?case using listed_found [OF names_unique_workspace [OF 6(1), of w], of c] by (auto simp: mem_load_eq mem_list_eq)
qed

interpretation file_checkpoints: checkpoint_store file_save_checkpoint file_load_checkpoint file_list_checkpoints
  file_delete_checkpoint "\<lambda>fs. names_unique (fs_state fs)"
proof (unfold_locales, goal_cases)
  case (1 e s w c s' t n)
  then show ?case
    by (auto simp: file_save_checkpoint_def file_load_checkpoint_def persist_def load_after_workspace_mut
        find_put_checkpoint mem_load_eq split: if_splits)
next
  case (2 e s w t n s' t' n')
  then show ?case
    by (auto simp: file_delete_checkpoint_def file_load_checkpoint_def persist_def load_after_workspace_mut
        find_filter_other mem_load_eq split: if_splits)
next
  case (3 s e w c)
  then show ?case by (simp add: file_save_checkpoint_def names_unique_save)
next
  case (4 s e w t n)
  then show ?case by (simp add: file_delete_checkpoint_def names_unique_drop)
next
  case (5 s w t n c)
  then show ?case by (simp add: file_load_checkpoint_def mem_checkpoints.load_names)
next
  case (6 s w t cs c)
  then show ?case by (simp add: file_load_checkpoint_def file_list_checkpoints_def mem_checkpoints.list_loads)
qed

lemma file_write_synced:
  "file_save_checkpoint e fs w c = (Ok (), fs') \<Longrightarrow> fs_disk fs' = Some (fs_state fs')"
  "file_delete_checkpoint e fs w t n = (Ok (), fs') \<Longrightarrow> fs_disk fs' = Some (fs_state fs')"
  by (auto simp: file_save_checkpoint_def file_delete_checkpoint_def persist_def split: if_splits)

section \<open>Properties of the manager\<close>

text \<open>After operations of the manager that all succeed, over a file store and on tasks whose identifiers have no
  colon, a load returns what the last save or delete of that task and name left, else what the file had at the
  start; a new manager over a store reopened from the file returns the same.\<close>

theorem manager_refines_map:
  fixes t n :: string
  assumes run: "manager_run file_save_checkpoint file_load_checkpoint file_list_checkpoints file_delete_checkpoint as
      (manager_with_store wid (file_store_new disk)) = Some m"
    and uniq: "names_unique (fs_state (file_store_new disk))"
    and plain: "\<forall>a\<in>set as. plain_op a" "CHR '':'' \<notin> set t"
  defines "expected \<equiv> fold manager_effect as (\<lambda>(t, n). file_load_checkpoint (file_store_new disk) wid t n) (t, n)"
  shows "fst (manager_load file_load_checkpoint t n m) = expected
    \<and> (\<exists>fs. mg_store m = Some (wid, fs) \<and>
         fst (manager_load file_load_checkpoint t n (manager_with_store wid (file_store_new (fs_disk fs)))) = expected)"
proof -
  let ?I = "\<lambda>fs. fs_state (file_store_new (fs_disk fs)) = fs_state fs"
  obtain fs where fs: "mg_store m = Some (wid, fs)" "?I fs" "file_checkpoints.coherent m"
    "(\<lambda>(t, n). file_load_checkpoint fs wid t n) =
       fold manager_effect as (\<lambda>(t, n). file_load_checkpoint (file_store_new disk) wid t n)"
    using file_checkpoints.run_effect [OF run file_checkpoints.fresh_coherent [OF uniq] plain(1), of wid _ ?I]
    by (auto simp: manager_with_store_def file_store_new_def file_write_synced)
  have "file_load_checkpoint fs wid t n = expected" using fun_cong [OF fs(4), of "(t, n)"] by (simp add: expected_def)
  moreover have "file_load_checkpoint (file_store_new (fs_disk fs)) wid t n = file_load_checkpoint fs wid t n"
    using fs(2) by (simp add: file_load_checkpoint_def)
  ultimately show ?thesis
    using fs(1) file_checkpoints.load_reads_store [OF fs(3) plain(2) fs(1)] by (simp add: file_checkpoints.fresh_load)
qed

definition cp_sample :: "string \<Rightarrow> string \<Rightarrow> json \<Rightarrow> checkpoint" where
  "cp_sample t n d = \<lparr> cp_task_id = t, cp_name = n, cp_data = d \<rparr>"

lemma manager_refines_map_witness:
  "\<exists>m. manager_run file_save_checkpoint file_load_checkpoint file_list_checkpoints file_delete_checkpoint
        [MSave True (cp_sample ''t'' ''a'' JNull), MLoad ''t'' ''a'', MSave True (cp_sample ''t'' ''a'' (JBool True)),
         MDelete True ''t'' ''b'', MList ''t''] (manager_with_store ''w'' (file_store_new None)) = Some m
     \<and> fst (manager_load file_load_checkpoint ''t'' ''a'' m) = Ok (Some (cp_sample ''t'' ''a'' (JBool True)))"
proof -
  let ?as = "[MSave True (cp_sample ''t'' ''a'' JNull), MLoad ''t'' ''a'', MSave True (cp_sample ''t'' ''a'' (JBool True)),
         MDelete True ''t'' ''b'', MList ''t'']"
  let ?run = "manager_run file_save_checkpoint file_load_checkpoint file_list_checkpoints file_delete_checkpoint ?as
    (manager_with_store ''w'' (file_store_new None))"
  have "?run \<noteq> None" by code_simp
  then obtain m where m: "?run = Some m" by blast
  have "fst (manager_load file_load_checkpoint ''t'' ''a'' m) =
      fold manager_effect ?as (\<lambda>(t, n). file_load_checkpoint (file_store_new None) ''w'' t n) (''t'', ''a'')"
    by (rule manager_refines_map [OF m, THEN conjunct1]) (simp_all add: file_store_new_def names_unique_def cp_sample_def)
  also have "\<dots> = Ok (Some (cp_sample ''t'' ''a'' (JBool True)))" by (simp add: cp_sample_def)
  finally show ?thesis using m by blast
qed

text \<open>With colons in an identifier two checkpoints share a cache key: a load returns a checkpoint of another task
  that the store does not have under these names.\<close>

lemma colon_ids_share_keys:
  "fst (manager_load mem_load_checkpoint ''a'' ''b::c''
     (snd (manager_save (\<lambda>_. mem_save_checkpoint) () (cp_sample ''a::b'' ''c'' d) (manager_with_store ''w'' []))))
       = Ok (Some (cp_sample ''a::b'' ''c'' d))
   \<and> mem_load_checkpoint (snd (mem_save_checkpoint [] ''w'' (cp_sample ''a::b'' ''c'' d))) ''w'' ''a'' ''b::c'' = Ok None"
  by (simp add: manager_load_def manager_save_def manager_with_store_def mem_save_checkpoint_def cache_checkpoint_def
      manager_key_def cp_sample_def load_after_workspace_mut put_checkpoint_def same_checkpoint_def workspace_of_None)

end
