(* ===== verification/SessionCheckpoints.thy ===== *)
theory SessionCheckpoints
  imports Prelude "HOL-Library.List_Lexorder" "HOL-Library.Char_ord" "HOL-Library.Sublist"
begin

text \<open>Checkpoints of sessions: the files of \<open>src/src/checkpoint/state.rs\<close> with their rotation, and the summaries of
  \<open>src/src/checkpoint/session.rs\<close>, which are shortened until they fit. The JSON encoder and decoder, the format of
  time stamps and the outcome of each access to the file system are arguments.\<close>

section \<open>Checkpoint files\<close>

datatype message_role = RoleUser | RoleAssistant | RoleSystem

record conversation_message =
  cm_id :: string
  cm_role :: message_role
  cm_content :: string
  cm_timestamp :: int

record checkpoint_state =
  cs_session_id :: string
  cs_messages :: "conversation_message list"
  cs_task_queue :: "string list"
  cs_tools_state :: "(string, json) hmap"
  cs_timestamp :: int

text \<open>A directory maps names to files with their text, and to other entries.\<close>

datatype dir_entry = Regular string | OtherEntry

type_synonym session_dir = "(string, dir_entry) hmap"
type_synonym checkpoint_root = "(string, session_dir) hmap"

text \<open>How the file system answers: a failed write may leave anything under the name of the file.\<close>

record cp_io =
  io_mkdir :: bool
  io_write_fails :: "dir_entry option option"
  io_list :: bool
  io_remove :: "string \<Rightarrow> bool"
  io_read :: bool

definition session_id_char :: "char \<Rightarrow> bool" where
  "session_id_char c = (let n = of_char c :: nat in
     (48 \<le> n \<and> n \<le> 57) \<or> (65 \<le> n \<and> n \<le> 90) \<or> (97 \<le> n \<and> n \<le> 122) \<or> c = CHR ''-'' \<or> c = CHR ''_'')"

definition validate_session_id :: "string \<Rightarrow> (unit, string) result" where
  "validate_session_id session_id =
     (if session_id = [] then Err ''session_id cannot be empty''
      else if \<not> list_all session_id_char session_id then Err ''session_id contains unsupported characters''
      else Ok ())"

text \<open>\<open>Path::extension\<close>: what follows the last dot, unless the dot is the first character.\<close>

definition path_extension :: "string \<Rightarrow> string option" where
  "path_extension name =
     (let ext = rev (takeWhile (\<lambda>c. c \<noteq> CHR ''.'') (rev name));
          stem = drop (Suc (length ext)) (rev name)
      in if CHR ''.'' \<notin> set name \<or> stem = [] then None else Some ext)"

definition is_checkpoint_file :: "string \<times> dir_entry \<Rightarrow> bool" where
  "is_checkpoint_file entry = (case entry of (name, Regular _) \<Rightarrow> path_extension name = Some ''json'' | _ \<Rightarrow> False)"

definition checkpoint_names :: "session_dir \<Rightarrow> string list" where
  "checkpoint_names dir = rev (sort (map fst (filter is_checkpoint_file dir)))"

definition checkpoint_files_sorted :: "cp_io \<Rightarrow> session_dir option \<Rightarrow> (string list, string) result" where
  "checkpoint_files_sorted io dir = (case dir of
     None \<Rightarrow> Ok []
   | Some d \<Rightarrow> if io_list io then Ok (checkpoint_names d) else Err ''failed to read checkpoint directory'')"

definition latest_checkpoint_path :: "cp_io \<Rightarrow> session_dir option \<Rightarrow> (string option, string) result" where
  "latest_checkpoint_path io dir = (case checkpoint_files_sorted io dir of
     Err e \<Rightarrow> Err e
   | Ok names \<Rightarrow> Ok (case names of [] \<Rightarrow> None | n # _ \<Rightarrow> Some n))"

text \<open>Removes file after file; the first that cannot be removed ends the loop.\<close>

fun remove_files :: "cp_io \<Rightarrow> string list \<Rightarrow> session_dir \<Rightarrow> (unit, string) result \<times> session_dir" where
  "remove_files io [] d = (Ok (), d)"
| "remove_files io (n # ns) d =
     (if io_remove io n then remove_files io ns (hdel n d) else (Err ''failed to remove old checkpoint'', d))"

definition rotate_checkpoints :: "cp_io \<Rightarrow> session_dir \<Rightarrow> (unit, string) result \<times> session_dir" where
  "rotate_checkpoints io d = (case checkpoint_files_sorted io (Some d) of
     Err e \<Rightarrow> (Err e, d)
   | Ok names \<Rightarrow> remove_files io (drop 3 names) d)"

definition save_checkpoint_in_dir :: "cp_io \<Rightarrow> (int \<Rightarrow> string) \<Rightarrow> (checkpoint_state \<Rightarrow> string option)
    \<Rightarrow> checkpoint_state \<Rightarrow> checkpoint_root \<Rightarrow> (string, string) result \<times> checkpoint_root" where
  "save_checkpoint_in_dir io format_timestamp ser state root =
     (case validate_session_id (cs_session_id state) of
        Err e \<Rightarrow> (Err e, root)
      | Ok _ \<Rightarrow>
          if \<not> io_mkdir io then (Err ''failed to create checkpoint directory'', root)
          else
            (let sid = cs_session_id state;
                 d = (case hget root sid of Some d \<Rightarrow> d | None \<Rightarrow> []);
                 root1 = hput sid d root;
                 filename = format_timestamp (cs_timestamp state) @ ''.json''
             in case ser state of
                  None \<Rightarrow> (Err ''failed to serialize checkpoint state'', root1)
                | Some payload \<Rightarrow> (case io_write_fails io of
                    Some None \<Rightarrow> (Err ''failed to write checkpoint file'', root1)
                  | Some (Some left) \<Rightarrow>
                      (Err ''failed to write checkpoint file'', hput sid (hput filename left d) root1)
                  | None \<Rightarrow> (case rotate_checkpoints io (hput filename (Regular payload) d) of
                        (Err e, d') \<Rightarrow> (Err e, hput sid d' root1)
                      | (Ok _, d') \<Rightarrow> (Ok filename, hput sid d' root1)))))"

definition load_latest_checkpoint_in_dir :: "cp_io \<Rightarrow> (string \<Rightarrow> checkpoint_state option) \<Rightarrow> string \<Rightarrow> checkpoint_root
    \<Rightarrow> (checkpoint_state, string) result" where
  "load_latest_checkpoint_in_dir io de session_id root =
     (case validate_session_id session_id of
        Err e \<Rightarrow> Err e
      | Ok _ \<Rightarrow> (case latest_checkpoint_path io (hget root session_id) of
            Err e \<Rightarrow> Err e
          | Ok None \<Rightarrow> Err (''no checkpoints found for session '' @ session_id)
          | Ok (Some name) \<Rightarrow> (case the (hget (the (hget root session_id)) name) of
                OtherEntry \<Rightarrow> Err ''failed to read checkpoint file''
              | Regular payload \<Rightarrow>
                  if \<not> io_read io then Err ''failed to read checkpoint file''
                  else (case de payload of
                          None \<Rightarrow> Err ''failed to deserialize checkpoint file''
                        | Some state \<Rightarrow> Ok state))))"

definition is_session_restorable_in_dir :: "cp_io \<Rightarrow> string \<Rightarrow> checkpoint_root \<Rightarrow> (bool, string) result" where
  "is_session_restorable_in_dir io session_id root =
     (case validate_session_id session_id of
        Err e \<Rightarrow> Err e
      | Ok _ \<Rightarrow> (case latest_checkpoint_path io (hget root session_id) of
            Err e \<Rightarrow> Err e
          | Ok latest \<Rightarrow> Ok (latest \<noteq> None)))"

section \<open>The newest names\<close>

text \<open>Insertion into a strictly descending list, the effect of a save on the names of a directory.\<close>

fun insert_desc :: "'a::linorder \<Rightarrow> 'a list \<Rightarrow> 'a list" where
  "insert_desc x [] = [x]"
| "insert_desc x (y # ys) = (if x < y then y # insert_desc x ys else if x = y then y # ys else x # y # ys)"

lemma set_insert_desc [simp]: "set (insert_desc x ys) = insert x (set ys)"
  by (induction ys) auto

lemma sorted_insert_desc [simp]: "sorted_wrt (>) ys \<Longrightarrow> sorted_wrt (>) (insert_desc x ys)"
  by (induction ys) (auto simp: not_less order.strict_iff_order)

lemma take_insert_desc [simp]: "take k (insert_desc x (take k ys)) = take k (insert_desc x ys)"
proof (induction ys arbitrary: k)
  case (Cons y ys)
  then show ?case by (cases k) (auto simp: take_Cons' min_def)
qed simp

lemma take_fold_insert_desc: "take k (fold insert_desc xs (take k ys)) = take k (fold insert_desc xs ys)"
proof (induction xs arbitrary: ys)
  case (Cons x xs)
  have "take k (fold insert_desc xs (insert_desc x (take k ys))) =
      take k (fold insert_desc xs (take k (insert_desc x (take k ys))))"
    by (simp only: Cons.IH)
  then show ?case by (simp add: Cons.IH)
qed simp

lemma desc_unique: "sorted_wrt (>) xs \<Longrightarrow> sorted_wrt (>) ys \<Longrightarrow> set xs = set ys \<Longrightarrow> xs = (ys :: 'a::linorder list)"
  using strict_sorted_equal [of "rev xs" "rev ys"] by (simp add: sorted_wrt_rev strict_sorted_iff)

lemma desc_of_set: "finite A \<Longrightarrow> sorted_wrt (>) (rev (sorted_list_of_set (A :: 'a::linorder set)))"
  by (simp add: sorted_wrt_rev)

lemma fold_insert_desc:
  "sorted_wrt (>) ys \<Longrightarrow> sorted_wrt (>) (fold insert_desc xs ys) \<and> set (fold insert_desc xs ys) = set ys \<union> set xs"
  by (induction xs arbitrary: ys) auto

lemma fold_insert_desc_set:
  "fold insert_desc xs [] = rev (sorted_list_of_set (set (xs :: 'a::linorder list)))"
  using fold_insert_desc [of "[]" xs] by (intro desc_unique) (simp_all add: desc_of_set)

lemma newest_first:
  assumes "finite A" "A \<noteq> {}"
  shows "\<exists>xs. rev (sorted_list_of_set A) = Max A # xs"
proof (cases "rev (sorted_list_of_set A)")
  case Nil
  then show ?thesis using assms by simp
next
  case (Cons x xs)
  then have A: "A = set (x # xs)" using assms(1) by (metis set_rev set_sorted_list_of_set)
  have "\<forall>y\<in>set xs. y < x" using desc_of_set [OF assms(1)] Cons by simp
  then have "Max A = x" unfolding A by (intro Max_eqI) auto
  then show ?thesis using Cons by simp
qed

section \<open>The names of a directory\<close>

lemma checkpoint_names_set: "set (checkpoint_names d) = {n. \<exists>e. (n, e) \<in> set d \<and> is_checkpoint_file (n, e)}"
  by (force simp: checkpoint_names_def)

lemma checkpoint_names_desc: "hmap_ok d \<Longrightarrow> sorted_wrt (>) (checkpoint_names d)"
  by (simp add: checkpoint_names_def sorted_wrt_rev hmap_ok_def distinct_map_filter strict_sorted_iff)

lemma checkpoint_file_iff: "is_checkpoint_file (n, e) \<longleftrightarrow> path_extension n = Some ''json'' \<and> (\<exists>t. e = Regular t)"
  by (cases e) (simp_all add: is_checkpoint_file_def)

lemma in_checkpoint_names:
  "hmap_ok d \<Longrightarrow> n \<in> set (checkpoint_names d) \<longleftrightarrow> path_extension n = Some ''json'' \<and> (\<exists>t. hget d n = Some (Regular t))"
  by (auto simp: checkpoint_names_set checkpoint_file_iff hget_eq_Some_iff)

lemma checkpoint_names_put:
  assumes "hmap_ok d" "path_extension n = Some ''json''"
  shows "checkpoint_names (hput n (Regular t) d) = insert_desc n (checkpoint_names d)"
  using assms by (intro desc_unique) (auto simp: checkpoint_names_desc in_checkpoint_names split: if_splits)

lemma checkpoint_names_remove:
  assumes "hmap_ok d"
  shows "checkpoint_names (hdel n d) = filter (\<lambda>x. x \<noteq> n) (checkpoint_names d)"
  using assms
  by (intro desc_unique) (auto simp: checkpoint_names_desc in_checkpoint_names sorted_wrt_filter split: if_splits)

lemma remove_files_ok:
  assumes "\<And>n. io_remove io n" and "hmap_ok d"
  shows "\<exists>d'. remove_files io ns d = (Ok (), d') \<and> hmap_ok d'
    \<and> (\<forall>n. hget d' n = (if n \<in> set ns then None else hget d n))
    \<and> checkpoint_names d' = filter (\<lambda>x. x \<notin> set ns) (checkpoint_names d)"
  using assms
proof (induction ns arbitrary: d)
  case (Cons n ns)
  obtain d' where d': "remove_files io ns (hdel n d) = (Ok (), d')" "hmap_ok d'"
    "\<forall>k. hget d' k = (if k \<in> set ns then None else hget (hdel n d) k)"
    "checkpoint_names d' = filter (\<lambda>x. x \<notin> set ns) (checkpoint_names (hdel n d))"
    using Cons.IH [OF Cons.prems(1), of "hdel n d"] Cons.prems(2) by auto
  then show ?case using Cons.prems by (auto simp: checkpoint_names_remove intro!: filter_cong)
qed auto

lemma filter_not_drop: "distinct xs \<Longrightarrow> filter (\<lambda>x. x \<notin> set (drop k xs)) xs = take k xs"
proof -
  let ?P = "\<lambda>x. x \<notin> set (drop k xs)"
  assume d: "distinct xs"
  have "filter ?P xs = filter ?P (take k xs) @ filter ?P (drop k xs)"
    by (metis append_take_drop_id filter_append)
  moreover have "filter ?P (take k xs) = take k xs"
    using set_take_disj_set_drop_if_distinct [OF d, of k k] by (auto intro: filter_True)
  ultimately show ?thesis by simp
qed

lemma rotate_ok:
  assumes "\<And>n. io_remove io n" "io_list io" "hmap_ok d"
  shows "\<exists>d'. rotate_checkpoints io d = (Ok (), d') \<and> hmap_ok d'
    \<and> (\<forall>n. hget d' n = (if n \<in> set (drop 3 (checkpoint_names d)) then None else hget d n))
    \<and> checkpoint_names d' = take 3 (checkpoint_names d)"
proof -
  have "distinct (checkpoint_names d)"
    using checkpoint_names_desc [OF assms(3)] by (metis distinct_rev sorted_wrt_rev strict_sorted_iff)
  then show ?thesis
    using remove_files_ok [OF assms(1,3), of "drop 3 (checkpoint_names d)"] assms(2)
    by (simp add: rotate_checkpoints_def checkpoint_files_sorted_def filter_not_drop)
qed

section \<open>Saving over and over\<close>

definition checkpoint_name :: "(int \<Rightarrow> string) \<Rightarrow> checkpoint_state \<Rightarrow> string" where
  "checkpoint_name format_timestamp s = format_timestamp (cs_timestamp s) @ ''.json''"

definition io_fine :: "cp_io \<Rightarrow> bool" where
  "io_fine io = (io_mkdir io \<and> io_write_fails io = None \<and> io_list io \<and> (\<forall>n. io_remove io n) \<and> io_read io)"

definition save_run :: "(int \<Rightarrow> string) \<Rightarrow> (checkpoint_state \<Rightarrow> string option) \<Rightarrow> (cp_io \<times> checkpoint_state) list
    \<Rightarrow> checkpoint_root \<Rightarrow> checkpoint_root" where
  "save_run format_timestamp ser steps root =
     fold (\<lambda>(io, s) r. snd (save_checkpoint_in_dir io format_timestamp ser s r)) steps root"

lemma path_extension_json: "x \<noteq> [] \<Longrightarrow> path_extension (x @ ''.json'') = Some ''json''"
  by (simp add: path_extension_def)

lemma checkpoint_name_json: "\<forall>t. fmt t \<noteq> [] \<Longrightarrow> path_extension (checkpoint_name fmt s) = Some ''json''"
  by (simp add: checkpoint_name_def path_extension_json)

text \<open>A save on a working disk: the names are those before and the new one, of which the three largest stay.\<close>

lemma save_fine:
  assumes "io_fine io" "validate_session_id (cs_session_id s) = Ok ()" "ser s = Some p" "\<forall>t. fmt t \<noteq> []"
    and d: "d = (case hget root (cs_session_id s) of Some d \<Rightarrow> d | None \<Rightarrow> [])" "hmap_ok d"
  shows "\<exists>d'. save_checkpoint_in_dir io fmt ser s root = (Ok (checkpoint_name fmt s), hput (cs_session_id s) d' (hput (cs_session_id s) d root))
    \<and> hmap_ok d' \<and> checkpoint_names d' = take 3 (insert_desc (checkpoint_name fmt s) (checkpoint_names d))
    \<and> (\<forall>n\<in>set (checkpoint_names d'). hget d' n = (if n = checkpoint_name fmt s then Some (Regular p) else hget d n))"
proof -
  let ?n = "checkpoint_name fmt s"
  let ?d1 = "hput ?n (Regular p) d"
  have names: "checkpoint_names ?d1 = insert_desc ?n (checkpoint_names d)"
    using checkpoint_names_put [OF d(2) checkpoint_name_json [OF assms(4)]] .
  obtain d' where d': "rotate_checkpoints io ?d1 = (Ok (), d')" "hmap_ok d'"
    "\<forall>n. hget d' n = (if n \<in> set (drop 3 (checkpoint_names ?d1)) then None else hget ?d1 n)"
    "checkpoint_names d' = take 3 (checkpoint_names ?d1)"
    using rotate_ok [of io ?d1] assms(1) d(2) by (auto simp: io_fine_def)
  have "save_checkpoint_in_dir io fmt ser s root = (Ok ?n, hput (cs_session_id s) d' (hput (cs_session_id s) d root))"
    using assms(1-3) d'(1) d(1) by (simp add: save_checkpoint_in_dir_def io_fine_def checkpoint_name_def Let_def)
  moreover have "hget d' n = (if n = ?n then Some (Regular p) else hget d n)" if "n \<in> set (checkpoint_names d')" for n
  proof -
    have "hget d' n \<noteq> None" using that in_checkpoint_names [OF d'(2)] by auto
    then show ?thesis using d'(3) by (auto split: if_splits)
  qed
  ultimately show ?thesis using d'(2,4) names by (intro exI [of _ d'] conjI ballI) simp_all
qed

lemma save_run_names:
  assumes "validate_session_id sid = Ok ()" and "\<forall>t. fmt t \<noteq> []" and "hget root sid = None"
    and "\<forall>(io, s)\<in>set steps. io_fine io \<and> cs_session_id s = sid \<and> ser s \<noteq> None" and "steps \<noteq> []"
  shows "\<exists>d. hget (save_run fmt ser steps root) sid = Some d \<and> hmap_ok d
    \<and> checkpoint_names d = take 3 (fold insert_desc (map (\<lambda>a. checkpoint_name fmt (snd a)) steps) [])
    \<and> (\<forall>n\<in>set (checkpoint_names d).
         hget d n = Some (Regular (the (ser (last (filter (\<lambda>s. checkpoint_name fmt s = n) (map snd steps)))))))
    \<and> (\<forall>sid'. sid' \<noteq> sid \<longrightarrow> hget (save_run fmt ser steps root) sid' = hget root sid')"
  using assms(4,5)
proof (induction steps rule: rev_induct)
  case (snoc step steps)
  obtain io s where step: "step = (io, s)" by force
  then have s: "io_fine io" "cs_session_id s = sid" and "ser s \<noteq> None" using snoc.prems by auto
  then obtain p where p: "ser s = Some p" by blast
  let ?r = "save_run fmt ser steps root"
  define d where "d = (case hget ?r sid of Some d \<Rightarrow> d | None \<Rightarrow> [])"
  have d: "hmap_ok d \<and> checkpoint_names d = take 3 (fold insert_desc (map (\<lambda>a. checkpoint_name fmt (snd a)) steps) [])
    \<and> (\<forall>n\<in>set (checkpoint_names d).
         hget d n = Some (Regular (the (ser (last (filter (\<lambda>s. checkpoint_name fmt s = n) (map snd steps)))))))
    \<and> (\<forall>sid'. sid' \<noteq> sid \<longrightarrow> hget ?r sid' = hget root sid')"
  proof (cases "steps = []")
    case True
    then show ?thesis using assms(3) by (simp add: d_def save_run_def checkpoint_names_def)
  next
    case False
    moreover have "\<forall>(io, s)\<in>set steps. io_fine io \<and> cs_session_id s = sid \<and> ser s \<noteq> None" using snoc.prems(1) by simp
    ultimately obtain d1 where "hget ?r sid = Some d1" "hmap_ok d1"
      "checkpoint_names d1 = take 3 (fold insert_desc (map (\<lambda>a. checkpoint_name fmt (snd a)) steps) [])"
      "\<forall>n\<in>set (checkpoint_names d1).
         hget d1 n = Some (Regular (the (ser (last (filter (\<lambda>s. checkpoint_name fmt s = n) (map snd steps))))))"
      "\<forall>sid'. sid' \<noteq> sid \<longrightarrow> hget ?r sid' = hget root sid'"
      using snoc.IH by blast
    then show ?thesis by (simp add: d_def)
  qed
  obtain d' where d': "save_checkpoint_in_dir io fmt ser s ?r = (Ok (checkpoint_name fmt s), hput sid d' (hput sid d ?r))"
    "hmap_ok d'" "checkpoint_names d' = take 3 (insert_desc (checkpoint_name fmt s) (checkpoint_names d))"
    "\<forall>n\<in>set (checkpoint_names d'). hget d' n = (if n = checkpoint_name fmt s then Some (Regular p) else hget d n)"
    using save_fine [of io s ser p fmt d ?r] s p assms(1,2) d by (auto simp: d_def)
  have run: "save_run fmt ser (steps @ [step]) root = hput sid d' (hput sid d ?r)"
    using d'(1) by (simp add: save_run_def step)
  have "hget d' n = Some (Regular (the (ser (last (filter (\<lambda>s. checkpoint_name fmt s = n) (map snd (steps @ [step])))))))"
    if "n \<in> set (checkpoint_names d')" for n
  proof (cases "n = checkpoint_name fmt s")
    case True
    then show ?thesis using d'(4) that p step by simp
  next
    case False
    then have "n \<in> set (checkpoint_names d)" using that d'(3) by (auto dest: in_set_takeD)
    then show ?thesis using False d'(4) that d step by auto
  qed
  then show ?case using run d d'(2,3) step by simp
qed simp

text \<open>After saves of one new session on a working disk, in any order of their time stamps, the directory holds the
  three newest of the names ever written, a load returns the last state saved under the newest name, and the files
  of other sessions are as before.\<close>

theorem rotation_keeps_newest:
  fixes fmt :: "int \<Rightarrow> string"
  assumes valid: "validate_session_id sid = Ok ()" and fmt: "\<forall>t. fmt t \<noteq> []" and new: "hget root sid = None"
    and steps: "\<forall>(io, s)\<in>set steps. io_fine io \<and> cs_session_id s = sid \<and> (\<exists>p. ser s = Some p \<and> de p = Some s)"
    and some: "steps \<noteq> []" and fine: "io_fine io'"
  defines "root' \<equiv> save_run fmt ser steps root" and "names \<equiv> checkpoint_name fmt ` snd ` set steps"
  shows "(\<exists>d. hget root' sid = Some d \<and> checkpoint_names d = take 3 (rev (sorted_list_of_set names)))
    \<and> load_latest_checkpoint_in_dir io' de sid root' =
        Ok (last (filter (\<lambda>s. checkpoint_name fmt s = Max names) (map snd steps)))
    \<and> (\<forall>sid'. sid' \<noteq> sid \<longrightarrow> hget root' sid' = hget root sid')"
proof -
  have fin: "finite names" "names \<noteq> {}" using some by (simp_all add: names_def)
  have "set (map (\<lambda>a. checkpoint_name fmt (snd a)) steps) = names" by (auto simp: names_def)
  then have fold: "fold insert_desc (map (\<lambda>a. checkpoint_name fmt (snd a)) steps) [] = rev (sorted_list_of_set names)"
    by (simp add: fold_insert_desc_set del: set_map)
  have "\<forall>(io, s)\<in>set steps. io_fine io \<and> cs_session_id s = sid \<and> ser s \<noteq> None" using steps by auto
  from save_run_names [OF valid fmt new this some] fold
  obtain d where d: "hget root' sid = Some d" "checkpoint_names d = take 3 (rev (sorted_list_of_set names))"
    "\<forall>n\<in>set (checkpoint_names d).
       hget d n = Some (Regular (the (ser (last (filter (\<lambda>s. checkpoint_name fmt s = n) (map snd steps))))))"
    "\<forall>sid'. sid' \<noteq> sid \<longrightarrow> hget root' sid' = hget root sid'"
    unfolding root'_def by auto
  obtain ns where ns: "checkpoint_names d = Max names # ns"
    using d(2) newest_first [OF fin] by (metis take_Suc_Cons numeral_3_eq_3)
  let ?s = "last (filter (\<lambda>s. checkpoint_name fmt s = Max names) (map snd steps))"
  have "Max names \<in> names" using fin by simp
  then have "filter (\<lambda>s. checkpoint_name fmt s = Max names) (map snd steps) \<noteq> []"
    by (force simp: names_def filter_empty_conv)
  from last_in_set [OF this] have "?s \<in> snd ` set steps" by auto
  then obtain p where p: "ser ?s = Some p" "de p = Some ?s" using steps by auto
  have "load_latest_checkpoint_in_dir io' de sid root' = Ok ?s"
    using d(1,3) ns p fine valid
    by (simp add: load_latest_checkpoint_in_dir_def latest_checkpoint_path_def checkpoint_files_sorted_def io_fine_def)
  then show ?thesis using d by blast
qed

definition cs_sample :: "int \<Rightarrow> checkpoint_state" where
  "cs_sample t = \<lparr> cs_session_id = ''s1'', cs_messages = [], cs_task_queue = [], cs_tools_state = [], cs_timestamp = t \<rparr>"

definition working_io :: cp_io where
  "working_io = \<lparr> io_mkdir = True, io_write_fails = None, io_list = True, io_remove = (\<lambda>_. True), io_read = True \<rparr>"

definition fmt_sample :: "int \<Rightarrow> string" where
  "fmt_sample t = (if t = 1 then ''1'' else ''2'')"

lemma rotation_keeps_newest_witness:
  "load_latest_checkpoint_in_dir working_io (\<lambda>p. Some (cs_sample (if p = ''1'' then 1 else 2))) ''s1''
     (save_run fmt_sample (\<lambda>s. Some (fmt_sample (cs_timestamp s)))
        [(working_io, cs_sample 2), (working_io, cs_sample 1)] []) = Ok (cs_sample 2)"
proof -
  let ?steps = "[(working_io, cs_sample 2), (working_io, cs_sample 1)]"
  have max: "Max (checkpoint_name fmt_sample ` snd ` set ?steps) = checkpoint_name fmt_sample (cs_sample 2)"
    by (simp add: checkpoint_name_def fmt_sample_def cs_sample_def max_def)
  have "load_latest_checkpoint_in_dir working_io (\<lambda>p. Some (cs_sample (if p = ''1'' then 1 else 2))) ''s1''
      (save_run fmt_sample (\<lambda>s. Some (fmt_sample (cs_timestamp s))) ?steps []) =
    Ok (last (filter (\<lambda>s. checkpoint_name fmt_sample s = Max (checkpoint_name fmt_sample ` snd ` set ?steps)) (map snd ?steps)))"
    by (rule rotation_keeps_newest [THEN conjunct2, THEN conjunct1])
      (simp_all add: validate_session_id_def session_id_char_def working_io_def io_fine_def fmt_sample_def cs_sample_def)
  also have "\<dots> = Ok (cs_sample 2)"
    unfolding max by (simp add: checkpoint_name_def fmt_sample_def cs_sample_def)
  finally show ?thesis .
qed

text \<open>A state older than the three in the directory is written and removed again; the save reports success.\<close>

lemma older_state_is_removed_at_once:
  assumes "io_fine io" "validate_session_id (cs_session_id s) = Ok ()" "ser s = Some p" "\<forall>t. fmt t \<noteq> []"
    and "hget root (cs_session_id s) = Some d" "hmap_ok d" "checkpoint_names d = [n1, n2, n3]"
    and "checkpoint_name fmt s < n3"
  shows "\<exists>root' d'. save_checkpoint_in_dir io fmt ser s root = (Ok (checkpoint_name fmt s), root')
    \<and> hget root' (cs_session_id s) = Some d' \<and> checkpoint_names d' = [n1, n2, n3] \<and> checkpoint_name fmt s \<notin> {n1, n2, n3}"
proof -
  let ?n = "checkpoint_name fmt s"
  obtain d' where d': "save_checkpoint_in_dir io fmt ser s root = (Ok ?n, hput (cs_session_id s) d' (hput (cs_session_id s) d root))"
    "hmap_ok d'" "checkpoint_names d' = take 3 (insert_desc ?n (checkpoint_names d))"
    using save_fine [of io s ser p fmt d root] assms(1-6) by auto
  have desc: "n3 < n2" "n2 < n1" using checkpoint_names_desc [OF assms(6)] assms(7) by simp_all
  have "checkpoint_names d' = [n1, n2, n3]" "?n \<notin> {n1, n2, n3}"
    using d'(3) assms(7,8) desc by (auto simp: numeral_3_eq_3)
  then show ?thesis using d'(1) by auto
qed

section \<open>Session summaries\<close>

text \<open>Text the code measures both in characters and in bytes is a list of code points.\<close>

type_synonym utext = "nat list"

definition utf8_len :: "nat \<Rightarrow> nat" where
  "utf8_len c = (if c < 128 then 1 else if c < 2048 then 2 else if c < 65536 then 3 else 4)"

definition byte_len :: "utext \<Rightarrow> nat" where
  "byte_len t = sum_list (map utf8_len t)"

text \<open>The code points \<open>char::is_whitespace\<close> accepts.\<close>

definition unicode_space :: "nat \<Rightarrow> bool" where
  "unicode_space c = ((9 \<le> c \<and> c \<le> 13) \<or> c \<in> {32, 133, 160, 5760, 8232, 8233, 8239, 8287, 12288}
     \<or> (8192 \<le> c \<and> c \<le> 8202))"

definition trim_text :: "utext \<Rightarrow> utext" where
  "trim_text t = rev (dropWhile unicode_space (rev (dropWhile unicode_space t)))"

record session_input =
  si_summary :: utext
  si_file_edits :: "utext list"
  si_git_operations :: "utext list"
  si_tasks :: "utext list"

record session_checkpoint =
  sc_session_id :: string
  sc_timestamp :: "64 word"
  sc_summary :: utext
  sc_file_edits :: "utext list"
  sc_git_operations :: "utext list"
  sc_tasks :: "utext list"

definition truncate_text :: "utext \<Rightarrow> nat \<Rightarrow> utext" where
  "truncate_text value max_chars =
     (if length value \<le> max_chars then value
      else if max_chars \<le> 3 then replicate max_chars 46
      else take (max_chars - 3) value @ [46, 46, 46])"

definition normalize_items :: "utext list \<Rightarrow> utext list" where
  "normalize_items items =
     take 10 (map (\<lambda>trimmed. truncate_text trimmed 120) (filter (\<lambda>trimmed. trimmed \<noteq> []) (map trim_text items)))"

text \<open>\<open>max_by_key\<close> returns the last of the longest.\<close>

definition longest_index :: "utext list \<Rightarrow> (nat \<times> utext) option" where
  "longest_index vals =
     fold (\<lambda>(i, v) best. case best of
             None \<Rightarrow> Some (i, v)
           | Some (j, w) \<Rightarrow> if byte_len w \<le> byte_len v then Some (i, v) else Some (j, w))
       (enumerate 0 vals) None"

text \<open>\<open>None\<close> when there is nothing to remove.\<close>

definition pop_longest :: "utext list \<Rightarrow> utext list option" where
  "pop_longest vals = (case longest_index vals of
     None \<Rightarrow> None
   | Some (index, _) \<Rightarrow> Some (take index vals @ drop (Suc index) vals))"

definition compact_step :: "session_checkpoint \<Rightarrow> session_checkpoint option" where
  "compact_step c = (case pop_longest (sc_tasks c) of
     Some tasks \<Rightarrow> Some (c\<lparr> sc_tasks := tasks \<rparr>)
   | None \<Rightarrow> (case pop_longest (sc_git_operations c) of
       Some ops \<Rightarrow> Some (c\<lparr> sc_git_operations := ops \<rparr>)
     | None \<Rightarrow> (case pop_longest (sc_file_edits c) of
         Some edits \<Rightarrow> Some (c\<lparr> sc_file_edits := edits \<rparr>)
       | None \<Rightarrow>
           if byte_len (sc_summary c) > 48
           then Some (c\<lparr> sc_summary := truncate_text (sc_summary c) (max (byte_len (sc_summary c) * 3 div 4) 48) \<rparr>)
           else None)))"

text \<open>The loop of \<open>compact_to_fit\<close>; \<open>json_len\<close> is the length of the JSON text. A loop that does not end is \<open>None\<close>.\<close>

partial_function (option) compact_loop :: "(session_checkpoint \<Rightarrow> nat) \<Rightarrow> session_checkpoint
    \<Rightarrow> (session_checkpoint, string) result option" where
  "compact_loop json_len c =
     (if json_len c > 2048 then
        (case compact_step c of
           Some c' \<Rightarrow> compact_loop json_len c'
         | None \<Rightarrow> Some (Err ''unable to compact session checkpoint below 2048 bytes''))
      else Some (Ok c))"

definition compact_to_fit :: "(session_checkpoint \<Rightarrow> nat) \<Rightarrow> session_checkpoint
    \<Rightarrow> (session_checkpoint, string) result option" where
  "compact_to_fit json_len c = (if json_len c \<le> 2048 then Some (Ok c) else compact_loop json_len c)"

definition initial_summary :: "64 word \<Rightarrow> string \<Rightarrow> session_input \<Rightarrow> session_checkpoint" where
  "initial_summary now session_id input =
     \<lparr> sc_session_id = session_id, sc_timestamp = now, sc_summary = truncate_text (si_summary input) 320,
       sc_file_edits = normalize_items (si_file_edits input), sc_git_operations = normalize_items (si_git_operations input),
       sc_tasks = normalize_items (si_tasks input) \<rparr>"

definition session_checkpoint_new :: "(session_checkpoint \<Rightarrow> nat) \<Rightarrow> 64 word \<Rightarrow> string \<Rightarrow> session_input
    \<Rightarrow> (session_checkpoint, string) result option" where
  "session_checkpoint_new json_len now session_id input = (case validate_session_id session_id of
     Err e \<Rightarrow> Some (Err e)
   | Ok _ \<Rightarrow> compact_to_fit json_len (initial_summary now session_id input))"

definition session_checkpoint_from_bytes :: "(session_checkpoint \<Rightarrow> nat) \<Rightarrow> ('b \<Rightarrow> session_checkpoint option) \<Rightarrow> 'b
    \<Rightarrow> (session_checkpoint, string) result" where
  "session_checkpoint_from_bytes json_len decode bytes = (case decode bytes of
     None \<Rightarrow> Err ''failed to deserialize session checkpoint''
   | Some c \<Rightarrow> (case validate_session_id (sc_session_id c) of
       Err e \<Rightarrow> Err e
     | Ok _ \<Rightarrow> if json_len c > 2048 then Err ''session checkpoint exceeds 2048 bytes'' else Ok c))"

section \<open>Shortening ends\<close>

lemma fold_longest_in:
  "fold (\<lambda>(i, v) best. case best of None \<Rightarrow> Some (i, v)
      | Some (j, w) \<Rightarrow> if byte_len w \<le> byte_len v then Some (i, v) else Some (j, w)) xs (Some b)
   \<in> Some ` insert b (set xs)"
  by (induction xs arbitrary: b) (auto split: prod.splits)

lemma longest_index_spec:
  "case longest_index vals of None \<Rightarrow> vals = [] | Some (i, v) \<Rightarrow> i < length vals \<and> vals ! i = v"
proof (cases vals)
  case (Cons a as)
  have "longest_index vals \<in> Some ` set (enumerate 0 vals)"
    using fold_longest_in [of "enumerate 1 as" "(0, a)"] by (simp add: longest_index_def Cons)
  then show ?thesis by (auto simp: in_set_enumerate_eq)
qed (simp add: longest_index_def)

lemma pop_longest_spec:
  "case pop_longest vals of None \<Rightarrow> vals = []
   | Some vals' \<Rightarrow> length vals = Suc (length vals') \<and> subseq vals' vals"
proof (cases "longest_index vals")
  case (Some iv)
  then have i: "fst iv < length vals" using longest_index_spec [of vals] by auto
  have "subseq (take (fst iv) vals @ drop (Suc (fst iv)) vals) (take (fst iv) vals @ drop (fst iv) vals)"
    using i by (intro list_emb_append_mono) (auto simp: Cons_nth_drop_Suc [symmetric])
  then show ?thesis using Some i by (cases iv) (simp add: pop_longest_def)
qed (use longest_index_spec [of vals] in \<open>simp add: pop_longest_def\<close>)

definition ascii_text :: "utext \<Rightarrow> bool" where
  "ascii_text t = (\<forall>c\<in>set t. c < 128)"

lemma byte_len_ascii: "ascii_text t \<Longrightarrow> byte_len t = length t"
  unfolding ascii_text_def byte_len_def by (induction t) (auto simp: utf8_len_def)

lemma ascii_truncate: "ascii_text t \<Longrightarrow> ascii_text (truncate_text t n)"
  by (auto simp: ascii_text_def truncate_text_def dest: in_set_takeD)

definition summary_measure :: "session_checkpoint \<Rightarrow> nat" where
  "summary_measure c = length (sc_tasks c) + length (sc_git_operations c) + length (sc_file_edits c) + length (sc_summary c)"

definition shorter :: "session_checkpoint \<Rightarrow> session_checkpoint \<Rightarrow> bool" where
  "shorter c' c \<longleftrightarrow> sc_session_id c' = sc_session_id c \<and> sc_timestamp c' = sc_timestamp c
     \<and> length (sc_summary c') \<le> length (sc_summary c) \<and> subseq (sc_tasks c') (sc_tasks c)
     \<and> subseq (sc_git_operations c') (sc_git_operations c) \<and> subseq (sc_file_edits c') (sc_file_edits c)"

lemma shorter_refl: "shorter c c" by (simp add: shorter_def)

lemma shorter_trans: "shorter a b \<Longrightarrow> shorter b c \<Longrightarrow> shorter a c"
  unfolding shorter_def using subseq_order.trans by fastforce

lemma compact_step_spec:
  "case compact_step c of
     None \<Rightarrow> sc_tasks c = [] \<and> sc_git_operations c = [] \<and> sc_file_edits c = [] \<and> byte_len (sc_summary c) \<le> 48
   | Some c' \<Rightarrow> shorter c' c \<and> (ascii_text (sc_summary c) \<longrightarrow> ascii_text (sc_summary c') \<and> summary_measure c' < summary_measure c)"
  using pop_longest_spec [of "sc_tasks c"] pop_longest_spec [of "sc_git_operations c"] pop_longest_spec [of "sc_file_edits c"]
  by (auto simp: compact_step_def shorter_def summary_measure_def byte_len_ascii ascii_truncate split: option.splits)
    (auto simp: truncate_text_def)

text \<open>What shortening ends with: a result that fits, or the failure to make even a bare summary fit.\<close>

definition shortened :: "(session_checkpoint \<Rightarrow> nat) \<Rightarrow> session_checkpoint \<Rightarrow> (session_checkpoint, string) result \<Rightarrow> bool" where
  "shortened json_len c r \<longleftrightarrow> (case r of
      Ok c' \<Rightarrow> json_len c' \<le> 2048 \<and> shorter c' c
    | Err e \<Rightarrow> e = ''unable to compact session checkpoint below 2048 bytes'' \<and> (\<exists>c'. shorter c' c \<and> 2048 < json_len c'
        \<and> sc_tasks c' = [] \<and> sc_git_operations c' = [] \<and> sc_file_edits c' = [] \<and> byte_len (sc_summary c') \<le> 48))"

lemma compact_loop_ends:
  assumes "ascii_text (sc_summary c)"
  shows "\<exists>r. compact_loop json_len c = Some r \<and> shortened json_len c r"
  using assms
proof (induction "summary_measure c" arbitrary: c rule: less_induct)
  case less
  show ?case
  proof (cases "json_len c \<le> 2048")
    case True
    then show ?thesis by (simp add: compact_loop.simps shorter_refl shortened_def)
  next
    case False
    show ?thesis
    proof (cases "compact_step c")
      case None
      then show ?thesis using False compact_step_spec [of c] shorter_refl [of c]
        by (auto simp: compact_loop.simps [of _ c] shortened_def)
    next
      case (Some c1)
      then have c1: "shorter c1 c" "ascii_text (sc_summary c1)" "summary_measure c1 < summary_measure c"
        using compact_step_spec [of c] less.prems by auto
      have "compact_loop json_len c = compact_loop json_len c1" using False Some by (simp add: compact_loop.simps [of _ c])
      then obtain r where r: "compact_loop json_len c = Some r" "shortened json_len c1 r"
        using less.hyps [OF c1(3,2)] by auto
      have "shortened json_len c r" using r(2) shorter_trans [OF _ c1(1)] by (cases r) (auto simp: shortened_def)
      then show ?thesis using r(1) by blast
    qed
  qed
qed

text \<open>A summary of ASCII text is always turned into a result: the error of a refused identifier, the unshortened
  checkpoint if it fits, else one of at most 2048 bytes with some of its items and no longer summary, or an error, and
  then not even a bare summary of 48 bytes fits.\<close>

theorem session_checkpoint_terminates:
  fixes json_len :: "session_checkpoint \<Rightarrow> nat" and now :: "64 word" and sid :: string
  assumes "ascii_text (si_summary input)"
  defines "c0 \<equiv> initial_summary now sid input"
  shows "\<exists>r. session_checkpoint_new json_len now sid input = Some r
    \<and> (case validate_session_id sid of
          Err e \<Rightarrow> r = Err e
        | Ok _ \<Rightarrow> if json_len c0 \<le> 2048 then r = Ok c0 else shortened json_len c0 r)"
proof (cases "validate_session_id sid")
  case (Inl e)
  then show ?thesis by (simp add: session_checkpoint_new_def)
next
  case (Inr u)
  have "ascii_text (sc_summary c0)" using assms by (simp add: c0_def initial_summary_def ascii_truncate)
  from compact_loop_ends [OF this, of json_len] Inr show ?thesis
    by (auto simp: session_checkpoint_new_def compact_to_fit_def c0_def [symmetric])
qed

lemma session_checkpoint_terminates_witness:
  "\<exists>r. session_checkpoint_new (\<lambda>c. 2000 + length (sc_summary c)) 0 ''s1''
     \<lparr> si_summary = replicate 400 97, si_file_edits = [], si_git_operations = [], si_tasks = [[98], [99]] \<rparr> = Some r"
proof -
  have "ascii_text (si_summary \<lparr> si_summary = replicate 400 97, si_file_edits = [], si_git_operations = [], si_tasks = [[98], [99]] \<rparr>)"
    by (simp add: ascii_text_def)
  from session_checkpoint_terminates [OF this] show ?thesis by blast
qed

text \<open>Not so for other text: the limit computed from the bytes of the summary is compared with its characters, so a
  summary with many bytes for few characters stays as it is. The length of the JSON text is at least that of the
  identifier and the summary it contains.\<close>

lemma wide_summary_never_returns:
  assumes len: "\<And>c. length (sc_session_id c) + byte_len (sc_summary c) \<le> json_len c"
    and sid: "validate_session_id sid = Ok ()"
    and wide: "48 < byte_len (si_summary input)" "length (si_summary input) \<le> max (byte_len (si_summary input) * 3 div 4) 48"
    and "length (si_summary input) \<le> 320" and big: "2048 < length sid + byte_len (si_summary input)"
  shows "session_checkpoint_new json_len now sid input = None"
proof -
  let ?stuck = "\<lambda>c. sc_session_id c = sid \<and> sc_summary c = si_summary input"
  have size: "2048 < json_len c" if "?stuck c" for c using len [of c] big that by simp
  have step: "\<exists>c'. compact_step c = Some c' \<and> ?stuck c'" if "?stuck c" for c
    using that wide by (auto simp: compact_step_def truncate_text_def split: option.split)
  have "\<not> ?stuck c" if "compact_loop json_len c = Some r" for c r
  proof (rule compact_loop.raw_induct [OF _ that, of "\<lambda>j c r. j = json_len \<longrightarrow> \<not> ?stuck c", THEN mp, OF _ refl])
    show "j = json_len \<longrightarrow> \<not> ?stuck c"
      if "\<And>j c r. f j c = Some r \<Longrightarrow> j = json_len \<longrightarrow> \<not> ?stuck c"
        and "(if 2048 < j c then case compact_step c of None \<Rightarrow> Some (Err ''unable to compact session checkpoint below 2048 bytes'')
              | Some c' \<Rightarrow> f j c' else Some (Ok c)) = Some r" for f j c r
      using that size [of c] step [of c] by (auto split: if_splits)
  qed
  moreover have "?stuck (initial_summary now sid input)"
    using assms by (simp add: initial_summary_def truncate_text_def)
  ultimately have "compact_loop json_len (initial_summary now sid input) = None" by (metis not_Some_eq)
  then show ?thesis
    using size \<open>?stuck _\<close> sid by (simp add: session_checkpoint_new_def compact_to_fit_def not_le)
qed

end
