(* ===== verification/Float64.thy ===== *)
theory Float64
  imports Prelude "HOL-Library.Log_Nat" Complex_Main
begin

text \<open>The \<open>f64\<close> arithmetic of the program: a finite number is its rational value, an operation is the exact one
  followed by rounding to 53 significant bits, ties to even. Exponents are not bounded: overflow to infinity, values
  below the normal range and NaN are outside the model.\<close>

section \<open>Rounding\<close>

text \<open>The exponent of the leading bit of a positive number.\<close>

definition exponent_of :: "rat \<Rightarrow> int" where
  "exponent_of x = (case quotient_of x of (p, q) \<Rightarrow>
     (let e = bitlen p - bitlen q in if 2 powi e \<le> x then e else e - 1))"

definition round_even :: "rat \<Rightarrow> int" where
  "round_even x = (let f = \<lfloor>x\<rfloor>; d = x - of_int f in
     if d < 1 / 2 then f else if 1 / 2 < d then f + 1 else if even f then f else f + 1)"

definition rnd :: "rat \<Rightarrow> rat" where
  "rnd x = (if x = 0 then 0 else (let u = 2 powi (exponent_of \<bar>x\<bar> - 52) in of_int (round_even (x / u)) * u))"

definition fadd :: "rat \<Rightarrow> rat \<Rightarrow> rat" where "fadd x y = rnd (x + y)"
definition fmul :: "rat \<Rightarrow> rat \<Rightarrow> rat" where "fmul x y = rnd (x * y)"
definition fdiv :: "rat \<Rightarrow> rat \<Rightarrow> rat" where "fdiv x y = rnd (x / y)"

text \<open>\<open>n as f64\<close> for an unsigned integer, and \<open>x as u64\<close>, \<open>x as u32\<close>, which cut off the fraction and saturate.\<close>

definition f64_of_nat :: "nat \<Rightarrow> rat" where "f64_of_nat n = rnd (of_nat n)"

definition saturate :: "nat \<Rightarrow> rat \<Rightarrow> nat" where
  "saturate w x = (if x < 0 then 0 else min (nat \<lfloor>x\<rfloor>) (2 ^ w - 1))"

section \<open>What rounding keeps\<close>

lemma bitlen_powi:
  assumes "0 < p"
  shows "2 powi (bitlen p - 1) \<le> (of_int p :: rat)" "(of_int p :: rat) < 2 powi bitlen p"
proof -
  have b: "1 \<le> bitlen p" using assms bitlen_eq_zero_iff [of p] bitlen_nonneg [of p] by linarith
  have 1: "2 ^ nat (bitlen p - 1) \<le> p" and 2: "p < 2 ^ nat (bitlen p)" using bitlen_bounds [OF assms] by auto
  have "(of_int (2 ^ nat (bitlen p - 1)) :: rat) \<le> of_int p" using 1 by (simp only: of_int_le_iff)
  then show "2 powi (bitlen p - 1) \<le> (of_int p :: rat)" using b by (simp add: power_int_nonneg_exp)
  have "(of_int p :: rat) < of_int (2 ^ nat (bitlen p))" using 2 by (simp only: of_int_less_iff)
  then show "(of_int p :: rat) < 2 powi bitlen p" using b by (simp add: power_int_nonneg_exp)
qed

lemma exponent_bounds:
  assumes "0 < x"
  shows "2 powi exponent_of x \<le> x \<and> x < 2 powi (exponent_of x + 1)"
proof -
  obtain p q where pq: "quotient_of x = (p, q)" by force
  have q: "0 < q" and x: "x = of_int p / of_int q" using pq quotient_of_denom_pos quotient_of_div by auto
  then have p: "0 < p" using assms by (simp add: zero_less_divide_iff)
  let ?e = "bitlen p - bitlen q"
  have bounds: "2 powi (bitlen p - 1) \<le> (of_int p :: rat)" "(of_int p :: rat) < 2 powi bitlen p"
    "2 powi (bitlen q - 1) \<le> (of_int q :: rat)" "(of_int q :: rat) < 2 powi bitlen q"
    using bitlen_powi p q by auto
  have "x < 2 powi bitlen p / 2 powi (bitlen q - 1)"
    unfolding x using bounds p q by (intro frac_less) auto
  then have hi: "x < 2 powi (?e + 1)" by (simp add: power_int_diff [symmetric] algebra_simps)
  have "2 powi (bitlen p - 1) / 2 powi bitlen q \<le> x"
    unfolding x using bounds p q by (intro frac_le) auto
  then have lo: "2 powi (?e - 1) \<le> x" by (simp add: power_int_diff [symmetric] algebra_simps)
  show ?thesis using hi lo pq by (simp add: exponent_of_def Let_def)
qed

lemma exponent_unique:
  assumes "2 powi e \<le> x" "x < 2 powi (e + 1)"
  shows "exponent_of x = e"
proof -
  have "0 < x" using assms(1) by (rule order.strict_trans2 [rotated]) simp
  note b = exponent_bounds [OF this]
  have "e < exponent_of x + 1"
  proof (rule ccontr)
    assume "\<not> e < exponent_of x + 1"
    then have "(2 :: rat) powi (exponent_of x + 1) \<le> 2 powi e" by (intro power_int_increasing) auto
    then show False using b assms by linarith
  qed
  moreover have "exponent_of x < e + 1"
  proof (rule ccontr)
    assume "\<not> exponent_of x < e + 1"
    then have "(2 :: rat) powi (e + 1) \<le> 2 powi exponent_of x" by (intro power_int_increasing) auto
    then show False using b assms by linarith
  qed
  ultimately show ?thesis by simp
qed

lemma exponent_mono:
  assumes "0 < x" "x \<le> y"
  shows "exponent_of x \<le> exponent_of y"
proof (rule ccontr)
  assume "\<not> exponent_of x \<le> exponent_of y"
  then have "(2 :: rat) powi (exponent_of y + 1) \<le> 2 powi exponent_of x" by (intro power_int_increasing) auto
  then show False using exponent_bounds [of x] exponent_bounds [of y] assms by linarith
qed

lemma round_even_near: "of_int (round_even x) \<le> x + 1 / 2" "x - 1 / 2 \<le> of_int (round_even x)"
  unfolding round_even_def Let_def by (linarith | auto)+

lemma round_even_int [simp]: "round_even (of_int n) = n"
  by (simp add: round_even_def)

lemma round_even_below:
  assumes "of_int m \<le> y" "y < of_int m + 1 / 2"
  shows "round_even y = m"
proof -
  have "\<lfloor>y\<rfloor> = m" using assms by (intro floor_unique) auto
  then show ?thesis using assms(2) by (simp add: round_even_def Let_def)
qed

lemma round_even_0 [simp]: "round_even 0 = 0"
  by (simp add: round_even_def)

lemma round_even_mono:
  assumes "x \<le> y"
  shows "round_even x \<le> round_even y"
proof (cases "\<lfloor>x\<rfloor> = \<lfloor>y\<rfloor>")
  case True
  then show ?thesis using assms by (simp add: round_even_def Let_def)
next
  case False
  then have "\<lfloor>x\<rfloor> + 1 \<le> \<lfloor>y\<rfloor>" using floor_mono [OF assms] by linarith
  then show ?thesis by (simp add: round_even_def Let_def)
qed

text \<open>The unit in the last place, and the scaled number, which has 53 bits before the point.\<close>

lemma scaled_bounds:
  assumes "0 < x"
  shows "2 ^ 52 \<le> x / 2 powi (exponent_of x - 52)" "x / 2 powi (exponent_of x - 52) < 2 ^ 53"
proof -
  have u: "(2 :: rat) powi exponent_of x = 2 ^ 52 * 2 powi (exponent_of x - 52)"
    "(2 :: rat) powi (exponent_of x + 1) = 2 ^ 53 * 2 powi (exponent_of x - 52)"
    by (simp_all add: power_int_diff power_int_add)
  show "2 ^ 52 \<le> x / 2 powi (exponent_of x - 52)" "x / 2 powi (exponent_of x - 52) < 2 ^ 53"
    using exponent_bounds [OF assms] unfolding u by (simp_all add: pos_le_divide_eq pos_divide_less_eq)
qed

lemma rnd_bounds:
  assumes "0 < x"
  shows "2 powi exponent_of x \<le> rnd x" "rnd x \<le> 2 powi (exponent_of x + 1)"
proof -
  let ?u = "(2 :: rat) powi (exponent_of x - 52)"
  have u: "(2 :: rat) powi exponent_of x = of_int (2 ^ 52) * ?u" "(2 :: rat) powi (exponent_of x + 1) = of_int (2 ^ 53) * ?u"
    by (simp_all add: power_int_diff power_int_add)
  have "round_even (of_int (2 ^ 52)) \<le> round_even (x / ?u)" "round_even (x / ?u) \<le> round_even (of_int (2 ^ 53))"
    using scaled_bounds [OF assms] by (auto intro!: round_even_mono)
  then have "2 ^ 52 \<le> round_even (x / ?u)" "round_even (x / ?u) \<le> 2 ^ 53" unfolding round_even_int .
  then have r: "(of_int (2 ^ 52) :: rat) \<le> of_int (round_even (x / ?u))" "of_int (round_even (x / ?u)) \<le> (of_int (2 ^ 53) :: rat)"
    by (simp_all only: of_int_le_iff)
  have "rnd x = of_int (round_even (x / ?u)) * ?u" using assms by (simp add: rnd_def Let_def)
  then show "2 powi exponent_of x \<le> rnd x" "rnd x \<le> 2 powi (exponent_of x + 1)"
    using r unfolding u by (simp_all only: mult_right_mono zero_le_power_int zero_le_numeral)
qed

lemma rnd_nonneg [simp]: "0 \<le> x \<Longrightarrow> 0 \<le> rnd x"
  using rnd_bounds(1) [of x] by (cases "x = 0") (auto simp: rnd_def intro: order.trans [rotated])

lemma rnd_pos [simp]: "0 < x \<Longrightarrow> 0 < rnd x"
  using rnd_bounds(1) [of x] by (auto intro: order.strict_trans2 [rotated])

lemma rnd_mono:
  assumes "0 \<le> x" "x \<le> y"
  shows "rnd x \<le> rnd y"
proof (cases "x = 0")
  case True
  then show ?thesis using assms by (simp add: rnd_def [of 0])
next
  case False
  then have x: "0 < x" "0 < y" using assms by auto
  show ?thesis
  proof (cases "exponent_of x = exponent_of y")
    case True
    let ?u = "(2 :: rat) powi (exponent_of y - 52)"
    have "round_even (x / ?u) \<le> round_even (y / ?u)" using assms by (intro round_even_mono divide_right_mono) auto
    then show ?thesis using x True by (simp add: rnd_def Let_def mult_right_mono)
  next
    case False
    then have "exponent_of x + 1 \<le> exponent_of y" using exponent_mono [OF x(1) assms(2)] by simp
    then have "(2 :: rat) powi (exponent_of x + 1) \<le> 2 powi exponent_of y" by (intro power_int_increasing) auto
    then show ?thesis using rnd_bounds [OF x(1)] rnd_bounds [OF x(2)] by linarith
  qed
qed

text \<open>Numbers of 53 bits are kept, in particular integers up to \<open>2 ^ 53\<close>.\<close>

lemma rnd_dyadic:
  assumes "0 < m" "m \<le> 2 ^ 53"
  shows "rnd (of_int m * 2 powi k) = of_int m * 2 powi k"
proof -
  let ?x = "of_int m * 2 powi k :: rat"
  have x: "0 < ?x" using assms by simp
  have m: "(of_int m :: rat) \<le> 2 ^ 53" using assms(2) by (metis of_int_le_iff of_int_numeral of_int_power)
  then have hi: "?x \<le> 2 powi (53 + k)" by (simp add: power_int_add mult_right_mono)
  have e: "exponent_of ?x \<le> 53 + k"
  proof (rule ccontr)
    assume "\<not> exponent_of ?x \<le> 53 + k"
    then have "(2 :: rat) powi (53 + k + 1) \<le> 2 powi exponent_of ?x" by (intro power_int_increasing) auto
    moreover have "(2 :: rat) powi (53 + k) < 2 powi (53 + k + 1)" by (intro power_int_strict_increasing) auto
    ultimately show False using exponent_bounds [OF x] hi by linarith
  qed
  let ?u = "(2 :: rat) powi (exponent_of ?x - 52)"
  have "\<exists>n. ?x / ?u = of_int n"
  proof (cases "exponent_of ?x = 53 + k")
    case True
    then have "2 powi (53 + k) \<le> ?x" using exponent_bounds [OF x] by simp
    then have "?x = 2 powi (53 + k)" using hi by simp
    moreover have "(2 :: rat) powi (53 + k) = 2 ^ 52 * 2 powi (1 + k)" by (simp add: power_int_add)
    ultimately have "?x / ?u = of_int (2 ^ 52)" using True by simp
    then show ?thesis by blast
  next
    case False
    then have "0 \<le> 52 + k - exponent_of ?x" using e by simp
    moreover have "?x / ?u = of_int m * 2 powi (52 + k - exponent_of ?x)" by (simp add: power_int_diff power_int_add)
    ultimately have "?x / ?u = of_int (m * 2 ^ nat (52 + k - exponent_of ?x))" by (simp add: power_int_nonneg_exp)
    then show ?thesis by blast
  qed
  then obtain n where n: "?x / ?u = of_int n" by blast
  have "rnd ?x = of_int (round_even (?x / ?u)) * ?u" using x by (simp add: rnd_def Let_def)
  also have "\<dots> = ?x / ?u * ?u" unfolding n by simp
  finally show ?thesis by simp
qed

lemma rnd_of_nat: "n \<le> 2 ^ 53 \<Longrightarrow> rnd (of_nat n) = of_nat n"
  using rnd_dyadic [of "int n" 0] by (cases "n = 0") (simp_all add: rnd_def [of 0])

lemma rnd_numeral: "(numeral n :: nat) \<le> 2 ^ 53 \<Longrightarrow> rnd (numeral n) = numeral n"
  using rnd_of_nat [of "numeral n"] by simp

lemma rnd_error:
  assumes "0 < x"
  shows "\<bar>rnd x - x\<bar> \<le> x / 2 ^ 53"
proof -
  let ?u = "(2 :: rat) powi (exponent_of x - 52)"
  have "\<bar>of_int (round_even (x / ?u)) - x / ?u\<bar> \<le> 1 / 2" using round_even_near [of "x / ?u"] by linarith
  then have "\<bar>of_int (round_even (x / ?u)) - x / ?u\<bar> * ?u \<le> 1 / 2 * ?u" by (intro mult_right_mono) auto
  moreover have "\<bar>of_int (round_even (x / ?u)) - x / ?u\<bar> * ?u = \<bar>(of_int (round_even (x / ?u)) - x / ?u) * ?u\<bar>"
    by (simp add: abs_mult)
  moreover have "(of_int (round_even (x / ?u)) - x / ?u) * ?u = rnd x - x"
    using assms by (simp add: rnd_def Let_def algebra_simps)
  ultimately have "\<bar>rnd x - x\<bar> \<le> ?u / 2" by simp
  moreover have "?u / 2 = 2 powi exponent_of x / 2 ^ 53" by (simp add: power_int_diff)
  moreover have "2 powi exponent_of x / 2 ^ 53 \<le> x / (2 ^ 53 :: rat)" using exponent_bounds [OF assms] by (simp add: divide_right_mono)
  ultimately show ?thesis by linarith
qed

lemma rnd_near: "0 < x \<Longrightarrow> rnd x \<le> x + x / 2 ^ 53" "0 < x \<Longrightarrow> x - x / 2 ^ 53 \<le> rnd x"
  using rnd_error [of x] by linarith+

lemma rnd_le_nat: "0 \<le> x \<Longrightarrow> x \<le> of_nat n \<Longrightarrow> n \<le> 2 ^ 53 \<Longrightarrow> rnd x \<le> of_nat n"
  using rnd_mono [of x "of_nat n"] by (simp add: rnd_of_nat)

lemma rnd_ge_nat: "of_nat n \<le> x \<Longrightarrow> n \<le> 2 ^ 53 \<Longrightarrow> of_nat n \<le> rnd x"
  using rnd_mono [of "of_nat n" x] by (simp add: rnd_of_nat)

lemma f64_of_nat_nonneg [simp]: "0 \<le> f64_of_nat n"
  by (simp add: f64_of_nat_def)

lemma f64_of_nat_pos: "0 < n \<Longrightarrow> 0 < f64_of_nat n"
  by (simp add: f64_of_nat_def)

lemma f64_of_nat_mono: "m \<le> n \<Longrightarrow> f64_of_nat m \<le> f64_of_nat n"
  unfolding f64_of_nat_def by (rule rnd_mono) simp_all

lemma f64_of_nat_0 [simp]: "f64_of_nat 0 = 0"
  by (simp add: f64_of_nat_def rnd_def)

lemma saturate_mono: "x \<le> y \<Longrightarrow> saturate w x \<le> saturate w y"
  unfolding saturate_def using nat_mono [OF floor_mono, of x y] by (auto intro: min.mono order.trans [OF min.cobounded1])

lemma saturate_less: "saturate w x < 2 ^ w"
  by (simp add: saturate_def min.strict_coboundedI2)

end
