(* ===== verification/TokenWallet.thy ===== *)
theory TokenWallet
  imports Float64 TextCodes
begin

text \<open>The token wallets of the mesh: \<open>src/src/mesh/tokenomics/wallet.rs\<close> (wallets, investment tiers and the wallets of
  several owners with their registry) and \<open>src/src/mesh/tokenomics/vesting.rs\<close>. Amounts are 64-bit words, and an
  addition that is too large wraps, as in a release build. The clock and the fresh identifiers of an operation are
  read from its environment, by the position of the reading.\<close>

section \<open>Tiers\<close>

datatype investment_tier = TierBase | TierBronze | TierSilver | TierGold | TierPlatinum | TierDiamond | TierSovereign

definition tier_apy :: "investment_tier \<Rightarrow> rat" where
  "tier_apy t = (case t of TierBase \<Rightarrow> 5 | TierBronze \<Rightarrow> 15 / 2 | TierSilver \<Rightarrow> 10 | TierGold \<Rightarrow> 25 / 2
     | TierPlatinum \<Rightarrow> 35 / 2 | TierDiamond \<Rightarrow> 25 | TierSovereign \<Rightarrow> 40)"

definition min_investment_usd :: "investment_tier \<Rightarrow> 64 word" where
  "min_investment_usd t = (case t of TierBase \<Rightarrow> 0 | TierBronze \<Rightarrow> 1000 | TierSilver \<Rightarrow> 5000 | TierGold \<Rightarrow> 10000
     | TierPlatinum \<Rightarrow> 25000 | TierDiamond \<Rightarrow> 50000 | TierSovereign \<Rightarrow> 100000)"

definition cliff_months :: "investment_tier \<Rightarrow> 32 word" where
  "cliff_months t = (case t of TierBase \<Rightarrow> 0 | TierBronze \<Rightarrow> 2 | TierSilver \<Rightarrow> 4 | TierGold \<Rightarrow> 6
     | TierPlatinum \<Rightarrow> 9 | TierDiamond \<Rightarrow> 12 | TierSovereign \<Rightarrow> 18)"

definition release_50_month :: "investment_tier \<Rightarrow> 32 word" where
  "release_50_month t = (case t of TierBase \<Rightarrow> 0 | TierBronze \<Rightarrow> 2 | TierSilver \<Rightarrow> 2 | TierGold \<Rightarrow> 3
     | TierPlatinum \<Rightarrow> 4 | TierDiamond \<Rightarrow> 6 | TierSovereign \<Rightarrow> 8)"

definition release_100_month :: "investment_tier \<Rightarrow> 32 word" where
  "release_100_month t = (case t of TierBase \<Rightarrow> 0 | TierBronze \<Rightarrow> 4 | TierSilver \<Rightarrow> 6 | TierGold \<Rightarrow> 9
     | TierPlatinum \<Rightarrow> 12 | TierDiamond \<Rightarrow> 18 | TierSovereign \<Rightarrow> 24)"

section \<open>Wallets\<close>

datatype transaction_kind = TkReward | TkTransfer string | TkStake "64 word" | TkUnstake | TkRedemption | TkFee

record transaction =
  tr_id :: nat
  tr_kind :: transaction_kind
  tr_amount :: "64 word"
  tr_timestamp :: int
  tr_description :: string
  tr_counterparty :: "string option"

record vesting_state =
  vs_tier :: investment_tier
  vs_amount_total :: "64 word"
  vs_amount_released :: "64 word"
  vs_start_timestamp :: int
  vs_last_claim_timestamp :: int

record wallet_balance =
  wb_xp_balance :: "64 word"
  wb_staked_xp :: "64 word"
  wb_lifetime_earned :: "64 word"
  wb_tier :: investment_tier

record token_wallet =
  wl_node_id :: string
  wl_balance :: wallet_balance
  wl_vesting :: "vesting_state option"
  wl_transactions :: "transaction list"
  wl_created_at :: int
  wl_last_updated :: int

record token_env =
  te_now :: "nat \<Rightarrow> int"
  te_uuid :: "nat \<Rightarrow> nat"

definition token_wallet_new :: "int \<Rightarrow> string \<Rightarrow> token_wallet" where
  "token_wallet_new now node_id =
     \<lparr> wl_node_id = node_id,
       wl_balance = \<lparr> wb_xp_balance = 0, wb_staked_xp = 0, wb_lifetime_earned = 0, wb_tier = TierBase \<rparr>,
       wl_vesting = None, wl_transactions = [], wl_created_at = now, wl_last_updated = now \<rparr>"

definition ledger_entry :: "token_env \<Rightarrow> nat \<Rightarrow> transaction_kind \<Rightarrow> 64 word \<Rightarrow> string \<Rightarrow> transaction" where
  "ledger_entry env i kind amount description =
     \<lparr> tr_id = te_uuid env i, tr_kind = kind, tr_amount = amount, tr_timestamp = te_now env 0,
       tr_description = description, tr_counterparty = None \<rparr>"

definition wallet_credit :: "token_env \<Rightarrow> 64 word \<Rightarrow> transaction_kind \<Rightarrow> string \<Rightarrow> token_wallet \<Rightarrow> token_wallet" where
  "wallet_credit env amount kind description w =
     w\<lparr> wl_balance := (wl_balance w)\<lparr> wb_xp_balance := wb_xp_balance (wl_balance w) + amount,
                                     wb_lifetime_earned := wb_lifetime_earned (wl_balance w) + amount \<rparr>,
        wl_last_updated := te_now env 0,
        wl_transactions := wl_transactions w @ [ledger_entry env 0 kind amount description] \<rparr>"

definition wallet_debit :: "token_env \<Rightarrow> 64 word \<Rightarrow> transaction_kind \<Rightarrow> string \<Rightarrow> token_wallet
    \<Rightarrow> (unit, string) result \<times> token_wallet" where
  "wallet_debit env amount kind description w =
     (let have = wb_xp_balance (wl_balance w)
      in if have < amount then
           (Err (''Insufficient XP balance: have '' @ nat_dec (unat have) @ '', need '' @ nat_dec (unat amount)), w)
         else (Ok (),
           w\<lparr> wl_balance := (wl_balance w)\<lparr> wb_xp_balance := have - amount \<rparr>,
              wl_last_updated := te_now env 0,
              wl_transactions := wl_transactions w @ [ledger_entry env 0 kind amount description] \<rparr>))"

definition wallet_stake :: "token_env \<Rightarrow> 64 word \<Rightarrow> 64 word \<Rightarrow> token_wallet \<Rightarrow> (unit, string) result \<times> token_wallet" where
  "wallet_stake env amount days w =
     (let have = wb_xp_balance (wl_balance w)
      in if have < amount then
           (Err (''Insufficient XP to stake: have '' @ nat_dec (unat have) @ '', need '' @ nat_dec (unat amount)), w)
         else (Ok (),
           w\<lparr> wl_balance := (wl_balance w)\<lparr> wb_xp_balance := have - amount,
                                           wb_staked_xp := wb_staked_xp (wl_balance w) + amount \<rparr>,
              wl_last_updated := te_now env 0,
              wl_transactions := wl_transactions w @ [ledger_entry env 0 (TkStake days) amount
                (''Staked '' @ nat_dec (unat amount) @ '' XP for '' @ nat_dec (unat days) @ '' days'')] \<rparr>))"

text \<open>\<open>(amount as f64 * 0.05).ceil() as u64\<close>; the numbers are below \<open>2 ^ 64\<close>, so the cast does not saturate.\<close>

definition unstake_fee :: "64 word \<Rightarrow> 64 word" where
  "unstake_fee amount = of_nat (saturate 64 (of_int \<lceil>fmul (f64_of_nat (unat amount)) (rnd (1 / 20))\<rceil>))"

definition wallet_unstake :: "token_env \<Rightarrow> 64 word \<Rightarrow> token_wallet \<Rightarrow> (unit, string) result \<times> token_wallet" where
  "wallet_unstake env amount w =
     (let staked = wb_staked_xp (wl_balance w)
      in if staked < amount then
           (Err (''Insufficient staked XP to unstake: have '' @ nat_dec (unat staked) @ '', need '' @ nat_dec (unat amount)), w)
         else
           (let fee = unstake_fee amount;
                net = amount - fee
            in (Ok (),
              w\<lparr> wl_balance := (wl_balance w)\<lparr> wb_staked_xp := staked - amount,
                                              wb_xp_balance := wb_xp_balance (wl_balance w) + net \<rparr>,
                 wl_last_updated := te_now env 0,
                 wl_transactions := wl_transactions w
                   @ [ledger_entry env 0 TkUnstake net
                        (''Unstaked '' @ nat_dec (unat amount) @ '' XP (5% fee: '' @ nat_dec (unat fee) @ '' XP)'')]
                   @ (if fee > 0 then [ledger_entry env 1 TkFee fee
                        (''Protocol fee for unstaking: '' @ nat_dec (unat fee) @ '' XP'')] else []) \<rparr>)))"

definition get_effective_balance :: "token_wallet \<Rightarrow> 64 word" where
  "get_effective_balance w = wb_xp_balance (wl_balance w) + wb_staked_xp (wl_balance w)"

definition list_transactions :: "nat \<Rightarrow> token_wallet \<Rightarrow> transaction list" where
  "list_transactions limit w = take limit (rev (wl_transactions w))"

section \<open>Vesting\<close>

text \<open>\<open>month_index\<close> is twelve times the calendar year of a time plus its month, \<open>None\<close> for a time stamp that chrono does
  not represent; \<open>now\<close> stands in for it then. A negative difference of months counts as none.\<close>

definition calculate_releasable :: "(int \<Rightarrow> int option) \<Rightarrow> int \<Rightarrow> vesting_state \<Rightarrow> 64 word" where
  "calculate_releasable month_index now s =
     (let this_month = the (month_index now);
          start_month = (case month_index (vs_start_timestamp s) of Some m \<Rightarrow> m | None \<Rightarrow> this_month);
          months_passed = nat (max (this_month - start_month) 0);
          total_eligible =
            (if unat (release_100_month (vs_tier s)) \<le> months_passed then vs_amount_total s
             else if unat (release_50_month (vs_tier s)) \<le> months_passed then vs_amount_total s div 2
             else 0)
      in if total_eligible < vs_amount_released s then 0 else total_eligible - vs_amount_released s)"

section \<open>Wallets of several owners\<close>

datatype multisig_proposal =
    MsTransfer string "64 word" string
  | MsStake "64 word" "64 word"
  | MsUnstake "64 word"

text \<open>The set of signatures is a list without repetitions.\<close>

record multisig_transaction =
  mt_id :: nat
  mt_proposal :: multisig_proposal
  mt_signatures :: "string list"
  mt_executed :: bool

record multisig_wallet =
  ms_address :: string
  ms_owners :: "string list"
  ms_threshold :: "8 word"
  ms_wallet :: token_wallet
  ms_transactions :: "(nat, multisig_transaction) hmap"

type_synonym multisig_registry = "(string, multisig_wallet) hmap"

text \<open>\<open>uuid_head\<close> is the first eight characters of the text of an identifier; an unwrapped error would be \<open>undefined\<close>.\<close>

definition multisig_wallet_new :: "token_env \<Rightarrow> (nat \<Rightarrow> string) \<Rightarrow> string list \<Rightarrow> 8 word \<Rightarrow> multisig_wallet" where
  "multisig_wallet_new env uuid_head owners threshold =
     \<lparr> ms_address = ''multisig_'' @ uuid_head (te_uuid env 0), ms_owners = owners, ms_threshold = threshold,
       ms_wallet = token_wallet_new (te_now env 0)
         (case node_id_parse ''xv1-multisig0000000'' of Ok node_id \<Rightarrow> node_id | Err _ \<Rightarrow> undefined),
       ms_transactions = [] \<rparr>"

definition create_multisig :: "token_env \<Rightarrow> (nat \<Rightarrow> string) \<Rightarrow> string list \<Rightarrow> 8 word \<Rightarrow> multisig_registry
    \<Rightarrow> string \<times> multisig_registry" where
  "create_multisig env uuid_head owners threshold reg =
     (let w = multisig_wallet_new env uuid_head owners threshold in (ms_address w, hput (ms_address w) w reg))"

definition get_multisig_wallet :: "string \<Rightarrow> multisig_registry \<Rightarrow> multisig_wallet option" where
  "get_multisig_wallet address reg = hget reg address"

text \<open>The copy the caller holds replaces the one in the registry, if there is one.\<close>

definition sync_multisig :: "multisig_wallet \<Rightarrow> multisig_registry \<Rightarrow> multisig_registry" where
  "sync_multisig w reg = (if hmem reg (ms_address w) then hput (ms_address w) w reg else reg)"

definition submit_tx :: "token_env \<Rightarrow> multisig_proposal \<Rightarrow> string \<Rightarrow> multisig_wallet \<times> multisig_registry
    \<Rightarrow> (nat, string) result \<times> multisig_wallet \<times> multisig_registry" where
  "submit_tx env tx signer state = (case state of (w, reg) \<Rightarrow>
     (if signer \<notin> set (ms_owners w) then (Err ''Signer is not an owner of this multisig wallet'', w, reg)
      else
        (let tx_id = te_uuid env 0;
             w' = w\<lparr> ms_transactions := hput tx_id \<lparr> mt_id = tx_id, mt_proposal = tx, mt_signatures = [signer],
                                                    mt_executed = False \<rparr> (ms_transactions w) \<rparr>
         in (Ok tx_id, w', sync_multisig w' reg))))"

definition sign_tx :: "nat \<Rightarrow> string \<Rightarrow> multisig_wallet \<times> multisig_registry
    \<Rightarrow> (unit, string) result \<times> multisig_wallet \<times> multisig_registry" where
  "sign_tx tx_id signer state = (case state of (w, reg) \<Rightarrow>
     (if signer \<notin> set (ms_owners w) then (Err ''Signer is not an owner of this multisig wallet'', w, reg)
      else (case hget (ms_transactions w) tx_id of
              None \<Rightarrow> (Err ''Transaction not found'', w, reg)
            | Some tx \<Rightarrow>
                if mt_executed tx then (Err ''Transaction already executed'', w, reg)
                else
                  (let w' = w\<lparr> ms_transactions := hput tx_id (tx\<lparr> mt_signatures := List.insert signer (mt_signatures tx) \<rparr>)
                                                     (ms_transactions w) \<rparr>
                   in (Ok (), w', sync_multisig w' reg)))))"

text \<open>What a proposal does to the wallet, and, for a transfer, to the wallet registered under the target address.\<close>

definition execute_proposal_on :: "token_env \<Rightarrow> token_env \<Rightarrow> multisig_proposal \<Rightarrow> multisig_wallet \<times> multisig_registry
    \<Rightarrow> (unit, string) result \<times> multisig_wallet \<times> multisig_registry" where
  "execute_proposal_on env env' proposal state = (case state of (w, reg) \<Rightarrow> (case proposal of
     MsTransfer target amount description \<Rightarrow>
       (case wallet_debit env amount TkRedemption description (ms_wallet w) of
          (Err e, _) \<Rightarrow> (Err e, w, reg)
        | (Ok _, wl) \<Rightarrow> (Ok (), w\<lparr> ms_wallet := wl \<rparr>,
            (case hget reg target of
               None \<Rightarrow> reg
             | Some t \<Rightarrow>
                 hput target (t\<lparr> ms_wallet := wallet_credit env' amount TkReward description (ms_wallet t) \<rparr>) reg)))
   | MsStake amount duration_days \<Rightarrow>
       (case wallet_stake env amount duration_days (ms_wallet w) of
          (Err e, _) \<Rightarrow> (Err e, w, reg)
        | (Ok _, wl) \<Rightarrow> (Ok (), w\<lparr> ms_wallet := wl \<rparr>, reg))
   | MsUnstake amount \<Rightarrow>
       (case wallet_unstake env amount (ms_wallet w) of
          (Err e, _) \<Rightarrow> (Err e, w, reg)
        | (Ok _, wl) \<Rightarrow> (Ok (), w\<lparr> ms_wallet := wl \<rparr>, reg))))"

definition execute_tx :: "token_env \<Rightarrow> token_env \<Rightarrow> nat \<Rightarrow> multisig_wallet \<times> multisig_registry
    \<Rightarrow> (unit, string) result \<times> multisig_wallet \<times> multisig_registry" where
  "execute_tx env env' tx_id state = (case state of (w, reg) \<Rightarrow>
     (case hget (ms_transactions w) tx_id of
        None \<Rightarrow> (Err ''Transaction not found'', w, reg)
      | Some tx \<Rightarrow>
          if mt_executed tx then (Err ''Transaction already executed'', w, reg)
          else if length (mt_signatures tx) < unat (ms_threshold w) then
            (Err (''Threshold not reached: have '' @ nat_dec (length (mt_signatures tx)) @ '', need ''
                  @ nat_dec (unat (ms_threshold w))), w, reg)
          else (case execute_proposal_on env env' (mt_proposal tx) (w, reg) of
              (Err e, s) \<Rightarrow> (Err e, s)
            | (Ok _, w1, reg1) \<Rightarrow>
                (let w' = w1\<lparr> ms_transactions := hput tx_id (tx\<lparr> mt_executed := True \<rparr>) (ms_transactions w1) \<rparr>
                 in (Ok (), w', sync_multisig w' reg1)))))"

section \<open>What unstaking costs\<close>

text \<open>The constant \<open>0.05\<close> is \<open>3602879701896397 / 2 ^ 56\<close>, a little more than a twentieth.\<close>

lemma rnd_twentieth: "rnd (1 / 20) = 1 / 20 * (1 + 1 / 2 ^ 54)"
  by code_simp

text \<open>A product that exceeds an integer by a factor of \<open>1 / 2 ^ 54\<close> is rounded back to it.\<close>

lemma rnd_slightly_above:
  assumes "0 < q" "q < 2 ^ 53"
  shows "rnd (of_nat q * (1 + 1 / 2 ^ 54)) = of_nat q"
proof -
  let ?q = "of_nat q :: rat" and ?e = "exponent_of (of_nat q)"
  let ?x = "?q * (1 + 1 / 2 ^ 54)" and ?u = "(2 :: rat) powi (?e - 52)"
  have q: "2 powi ?e \<le> ?q" "?q < 2 powi (?e + 1)" using exponent_bounds [of ?q] assms(1) by auto
  have q53: "?q < 2 ^ 53" using assms(2) by (metis of_nat_less_iff of_nat_numeral of_nat_power)
  have e: "0 \<le> ?e" "?e \<le> 52"
  proof -
    have "\<not> 2 powi (?e + 1) \<le> (1 :: rat)" using q(2) assms(1) by (simp add: not_le order.strict_trans1 [of 1 ?q])
    then have "\<not> ?e + 1 \<le> 0" using power_int_increasing [of "?e + 1" 0 "2 :: rat"] by auto
    then show "0 \<le> ?e" by simp
    have "\<not> (2 :: rat) powi 53 \<le> 2 powi ?e" using q(1) q53 by simp
    then have "\<not> 53 \<le> ?e" using power_int_increasing [of 53 ?e "2 :: rat"] by auto
    then show "?e \<le> 52" by simp
  qed
  have "(2 :: rat) powi (?e + 1) = of_nat (2 ^ nat (?e + 1))" using e(1) by (simp add: power_int_nonneg_exp)
  then have "q < 2 ^ nat (?e + 1)" using q(2) by (simp only: of_nat_less_iff)
  then have "?q + 1 \<le> 2 powi (?e + 1)"
    using \<open>(2 :: rat) powi (?e + 1) = of_nat (2 ^ nat (?e + 1))\<close> by (metis Suc_leI of_nat_Suc of_nat_le_iff add.commute)
  moreover have x: "?x = ?q + ?q / 2 ^ 54" by (simp add: algebra_simps)
  moreover have "?q / 2 ^ 54 < 1" using q53 by simp
  ultimately have "2 powi ?e \<le> ?x" "?x < 2 powi (?e + 1)" using q(1) by auto
  then have ex: "exponent_of ?x = ?e" by (rule exponent_unique)
  obtain m where m: "?q / ?u = of_int m"
  proof -
    have "?q / ?u = ?q * 2 powi (52 - ?e)" by (simp add: power_int_diff)
    also have "\<dots> = of_int (int q * 2 ^ nat (52 - ?e))" using e(2) by (simp add: power_int_nonneg_exp)
    finally show ?thesis by (rule that)
  qed
  have "?q / ?u < 2 ^ 53" using scaled_bounds(2) [of ?q] assms(1) by simp
  then have m53: "(of_int m :: rat) < 2 ^ 53" by (simp only: m)
  have m0: "0 \<le> (of_int m :: rat)" unfolding m [symmetric] by simp
  have "?x / ?u = of_int m + of_int m / 2 ^ 54" unfolding x add_divide_distrib m [symmetric] by simp
  then have "round_even (?x / ?u) = m" using m53 m0 by (intro round_even_below) auto
  moreover have "rnd ?x = of_int (round_even (?x / ?u)) * ?u"
    using ex assms(1) by (simp add: rnd_def Let_def)
  ultimately have "rnd ?x = ?q / ?u * ?u" using m by simp
  then show ?thesis by simp
qed

text \<open>The fee as a natural number.\<close>

lemma fee_value:
  fixes n :: nat
  assumes "0 < n"
  defines "y \<equiv> fmul (f64_of_nat n) (rnd (1 / 20))"
  shows "0 \<le> \<lceil>y\<rceil>" "\<lceil>y\<rceil> \<le> int n" "n \<le> 2 ^ 52 \<Longrightarrow> \<lceil>y\<rceil> = int ((n + 19) div 20)"
proof -
  let ?n = "of_nat n :: rat" and ?c = "rnd (1 / 20)"
  have n: "0 < ?n" using assms(1) by simp
  have "0 \<le> y" by (simp add: y_def fmul_def f64_of_nat_def rnd_twentieth)
  then show "0 \<le> \<lceil>y\<rceil>" by linarith
  have "rnd ?n \<le> 2 * ?n" using rnd_near(1) [OF n] n by simp
  then have "rnd ?n * ?c \<le> ?n / 4" using n unfolding rnd_twentieth by simp
  moreover have "0 < rnd ?n * ?c" using n by (simp add: rnd_twentieth)
  ultimately have "y \<le> ?n" using rnd_near(1) [of "rnd ?n * ?c"] n by (simp add: y_def fmul_def f64_of_nat_def)
  then show "\<lceil>y\<rceil> \<le> int n" by (simp add: ceiling_le_iff)
  show "\<lceil>y\<rceil> = int ((n + 19) div 20)" if small: "n \<le> 2 ^ 52"
  proof -
    define q where "q = (n + 19) div 20"
    have q: "20 * q < n + 20" "n \<le> 20 * q" "0 < q" using assms(1) unfolding q_def by linarith+
    have q48: "q \<le> 2 ^ 48" using small q(1) by simp
    then have q48': "(of_nat q :: rat) \<le> 2 ^ 48" by (metis of_nat_le_iff of_nat_numeral of_nat_power)
    have y: "y = rnd (?n * ?c)" using small by (simp add: y_def fmul_def f64_of_nat_def rnd_of_nat)
    have "y \<le> of_nat q"
    proof (cases "n = 20 * q")
      case True
      then have "?n * ?c = of_nat q * (1 + 1 / 2 ^ 54)" by (simp add: rnd_twentieth)
      moreover have "rnd (of_nat q * (1 + 1 / 2 ^ 54)) = of_nat q" using q(3) q48 by (intro rnd_slightly_above) auto
      ultimately show ?thesis using y by (simp only: order.refl)
    next
      case False
      then have "n + 1 \<le> 20 * q" using q(2) by simp
      then have "(of_nat (n + 1) :: rat) \<le> of_nat (20 * q)" by (simp only: of_nat_le_iff)
      then have "?n * ?c \<le> of_nat q" using q48' unfolding rnd_twentieth by simp
      then show ?thesis using y q48 by (simp add: rnd_le_nat rnd_twentieth)
    qed
    moreover have "of_nat q - 1 < y"
    proof -
      have "(of_nat (20 * q + 1) :: rat) \<le> of_nat (n + 20)" using q(1) by (simp only: of_nat_le_iff)
      then have lo: "of_nat q - 19 / 20 \<le> ?n * ?c" unfolding rnd_twentieth by simp
      have "?n \<le> of_nat (20 * q)" using q(2) by (simp only: of_nat_le_iff)
      then have "?n * ?c \<le> 3 * 2 ^ 47" using q48' unfolding rnd_twentieth by simp
      moreover have "0 < ?n * ?c" using n by (simp add: rnd_twentieth)
      ultimately have "?n * ?c - 3 / 64 \<le> y" using rnd_near(2) [of "?n * ?c"] y by simp
      then show ?thesis using lo by simp
    qed
    ultimately show ?thesis by (intro ceiling_unique) (simp_all add: q_def)
  qed
qed

lemma unstake_fee_ceiling:
  assumes "unat a \<noteq> 0"
  shows "int (unat (unstake_fee a)) = \<lceil>fmul (f64_of_nat (unat a)) (rnd (1 / 20))\<rceil>"
proof -
  define n where "n = unat a"
  let ?c = "\<lceil>fmul (f64_of_nat n) (rnd (1 / 20))\<rceil>"
  have n: "0 < n" "n < 2 ^ 64" using assms unsigned_less [of a] by (simp_all add: n_def)
  note v = fee_value [OF n(1)]
  obtain k where k: "?c = int k" using v(1) by (metis nonneg_int_cases)
  then have "k < 2 ^ 64" using n(2) v(2) by simp
  then have "unat (unstake_fee a) = k"
    unfolding unstake_fee_def n_def [symmetric] k by (simp add: saturate_def unat_of_nat min_def take_bit_nat_eq_self)
  then show ?thesis using k unfolding n_def [symmetric] by simp
qed

lemma unstake_fee_0: "unstake_fee 0 = 0"
  by (simp add: unstake_fee_def f64_of_nat_def fmul_def rnd_def [of 0] saturate_def)

lemma unstake_fee_le: "unstake_fee a \<le> a"
proof (cases "unat a = 0")
  case True
  then show ?thesis using unstake_fee_0 by (simp add: unat_eq_zero)
next
  case False
  then show ?thesis using unstake_fee_ceiling [OF False] fee_value(2) [of "unat a"] by (simp add: word_le_def)
qed

section \<open>What the ledger says\<close>

datatype wallet_op =
    WReward "64 word" string
  | WSpend "64 word" "string option" string
  | WStake "64 word" "64 word"
  | WUnstake "64 word"

definition spend_kind :: "string option \<Rightarrow> transaction_kind" where
  "spend_kind target = (case target of None \<Rightarrow> TkRedemption | Some node \<Rightarrow> TkTransfer node)"

definition wallet_op_step :: "token_env \<times> wallet_op \<Rightarrow> token_wallet \<Rightarrow> token_wallet" where
  "wallet_op_step a w = (case a of
     (env, WReward amount description) \<Rightarrow> wallet_credit env amount TkReward description w
   | (env, WSpend amount target description) \<Rightarrow> snd (wallet_debit env amount (spend_kind target) description w)
   | (env, WStake amount days) \<Rightarrow> snd (wallet_stake env amount days w)
   | (env, WUnstake amount) \<Rightarrow> snd (wallet_unstake env amount w))"

definition wallet_run :: "(token_env \<times> wallet_op) list \<Rightarrow> token_wallet \<Rightarrow> token_wallet" where
  "wallet_run steps w = fold wallet_op_step steps w"

text \<open>The total of the ledger entries of some kinds.\<close>

definition ledger_sum :: "(transaction_kind \<Rightarrow> bool) \<Rightarrow> token_wallet \<Rightarrow> nat" where
  "ledger_sum P w = sum_list (map (\<lambda>t. unat (tr_amount t)) (filter (\<lambda>t. P (tr_kind t)) (wl_transactions w)))"

definition is_spend :: "transaction_kind \<Rightarrow> bool" where
  "is_spend k = (case k of TkRedemption \<Rightarrow> True | TkTransfer _ \<Rightarrow> True | _ \<Rightarrow> False)"

definition is_stake :: "transaction_kind \<Rightarrow> bool" where
  "is_stake k = (case k of TkStake _ \<Rightarrow> True | _ \<Rightarrow> False)"

definition ledger_explains :: "token_wallet \<Rightarrow> bool" where
  "ledger_explains w \<longleftrightarrow>
     unat (wb_lifetime_earned (wl_balance w)) = ledger_sum (\<lambda>k. k = TkReward) w
   \<and> unat (wb_xp_balance (wl_balance w)) + ledger_sum is_spend w + ledger_sum is_stake w
       = ledger_sum (\<lambda>k. k = TkReward) w + ledger_sum (\<lambda>k. k = TkUnstake) w
   \<and> unat (wb_staked_xp (wl_balance w)) + ledger_sum (\<lambda>k. k = TkUnstake) w + ledger_sum (\<lambda>k. k = TkFee) w
       = ledger_sum is_stake w"

lemmas wallet_ops = wallet_credit_def wallet_debit_def wallet_stake_def wallet_unstake_def ledger_entry_def

lemma reward_mono: "ledger_sum P w \<le> ledger_sum P (wallet_op_step a w)"
  by (auto simp: wallet_op_step_def wallet_ops ledger_sum_def Let_def split: prod.split wallet_op.split)

lemma reward_mono_run: "ledger_sum P w \<le> ledger_sum P (wallet_run steps w)"
  unfolding wallet_run_def by (induction steps arbitrary: w) (auto intro: order.trans [OF reward_mono])

lemma unat_add_small: "unat (x :: 64 word) + unat y < 2 ^ 64 \<Longrightarrow> unat (x + y) = unat x + unat y"
  using unat_add_lem [of x y] by simp

lemma ledger_step:
  assumes "ledger_explains w" and "ledger_sum (\<lambda>k. k = TkReward) (wallet_op_step a w) < 2 ^ 64"
  shows "ledger_explains (wallet_op_step a w)"
proof -
  obtain env op where a: "a = (env, op)" by force
  have total: "unat (wb_xp_balance (wl_balance w)) + unat (wb_staked_xp (wl_balance w)) + ledger_sum is_spend w
      + ledger_sum (\<lambda>k. k = TkFee) w = ledger_sum (\<lambda>k. k = TkReward) w"
    using assms(1) by (simp add: ledger_explains_def)
  show ?thesis
  proof (cases op)
    case (WReward amount description)
    then have "ledger_sum (\<lambda>k. k = TkReward) w + unat amount < 2 ^ 64"
      using assms(2) by (simp add: a wallet_op_step_def wallet_ops ledger_sum_def)
    then have "unat (wb_xp_balance (wl_balance w) + amount) = unat (wb_xp_balance (wl_balance w)) + unat amount"
      "unat (wb_lifetime_earned (wl_balance w) + amount) = unat (wb_lifetime_earned (wl_balance w)) + unat amount"
      using total assms(1) unat_add_small [of "wb_xp_balance (wl_balance w)" amount]
        unat_add_small [of "wb_lifetime_earned (wl_balance w)" amount]
      by (simp_all add: ledger_explains_def)
    then show ?thesis using assms(1) WReward
      by (simp add: a wallet_op_step_def wallet_ops ledger_explains_def ledger_sum_def is_spend_def is_stake_def)
  next
    case (WSpend amount target description)
    show ?thesis
    proof (cases "wb_xp_balance (wl_balance w) < amount")
      case False
      then have "unat (wb_xp_balance (wl_balance w) - amount) = unat (wb_xp_balance (wl_balance w)) - unat amount"
        "unat amount \<le> unat (wb_xp_balance (wl_balance w))"
        by (simp_all add: unat_sub word_le_nat_alt not_less)
      then show ?thesis using assms(1) WSpend False
        by (cases target) (simp_all add: a wallet_op_step_def wallet_ops ledger_explains_def ledger_sum_def is_spend_def
            is_stake_def spend_kind_def Let_def)
    qed (use assms(1) WSpend in \<open>simp add: a wallet_op_step_def wallet_ops\<close>)
  next
    case (WStake amount days)
    show ?thesis
    proof (cases "wb_xp_balance (wl_balance w) < amount")
      case False
      then have le: "unat (wb_xp_balance (wl_balance w) - amount) = unat (wb_xp_balance (wl_balance w)) - unat amount"
        "unat amount \<le> unat (wb_xp_balance (wl_balance w))"
        by (simp_all add: unat_sub word_le_nat_alt not_less)
      have "ledger_sum (\<lambda>k. k = TkReward) w < 2 ^ 64" using reward_mono [of _ w a] assms(2) by (rule order.strict_trans1)
      then have "unat (wb_staked_xp (wl_balance w) + amount) = unat (wb_staked_xp (wl_balance w)) + unat amount"
        using total le(2) by (intro unat_add_small) simp
      then show ?thesis using assms(1) WStake False le
        by (simp add: a wallet_op_step_def wallet_ops ledger_explains_def ledger_sum_def is_spend_def is_stake_def Let_def)
    qed (use assms(1) WStake in \<open>simp add: a wallet_op_step_def wallet_ops\<close>)
  next
    case (WUnstake amount)
    show ?thesis
    proof (cases "wb_staked_xp (wl_balance w) < amount")
      case False
      let ?fee = "unstake_fee amount"
      have le: "unat (wb_staked_xp (wl_balance w) - amount) = unat (wb_staked_xp (wl_balance w)) - unat amount"
        "unat amount \<le> unat (wb_staked_xp (wl_balance w))"
        "unat (amount - ?fee) = unat amount - unat ?fee" "unat ?fee \<le> unat amount"
        using False unstake_fee_le [of amount] by (simp_all add: unat_sub word_le_nat_alt not_less)
      have "ledger_sum (\<lambda>k. k = TkReward) w < 2 ^ 64" using reward_mono [of _ w a] assms(2) by (rule order.strict_trans1)
      then have "unat (wb_xp_balance (wl_balance w) + (amount - ?fee)) = unat (wb_xp_balance (wl_balance w)) + (unat amount - unat ?fee)"
        using total le by (subst unat_add_small) auto
      moreover have "?fee = 0" if "\<not> ?fee > 0" using that by (simp add: word_gt_0)
      ultimately show ?thesis using assms(1) WUnstake False le
        by (auto simp: a wallet_op_step_def wallet_ops ledger_explains_def ledger_sum_def is_spend_def is_stake_def Let_def)
    qed (use assms(1) WUnstake in \<open>simp add: a wallet_op_step_def wallet_ops\<close>)
  qed
qed

section \<open>Several owners\<close>

datatype multisig_action =
    MsCreate "string list" "8 word"
  | MsSubmit string multisig_proposal string
  | MsSign string nat string
  | MsExecute string nat

text \<open>An owner takes the wallet from the registry and acts on it; what the registry holds afterwards.\<close>

definition multisig_step :: "(nat \<Rightarrow> string) \<Rightarrow> token_env \<times> token_env \<times> multisig_action \<Rightarrow> multisig_registry
    \<Rightarrow> multisig_registry" where
  "multisig_step uuid_head a reg = (case a of (env, env', act) \<Rightarrow> (case act of
     MsCreate owners threshold \<Rightarrow> snd (create_multisig env uuid_head owners threshold reg)
   | MsSubmit address tx signer \<Rightarrow> (case get_multisig_wallet address reg of
       None \<Rightarrow> reg | Some w \<Rightarrow> snd (snd (submit_tx env tx signer (w, reg))))
   | MsSign address tx_id signer \<Rightarrow> (case get_multisig_wallet address reg of
       None \<Rightarrow> reg | Some w \<Rightarrow> snd (snd (sign_tx tx_id signer (w, reg))))
   | MsExecute address tx_id \<Rightarrow> (case get_multisig_wallet address reg of
       None \<Rightarrow> reg | Some w \<Rightarrow> snd (snd (execute_tx env env' tx_id (w, reg))))))"

definition multisig_run :: "(nat \<Rightarrow> string) \<Rightarrow> (token_env \<times> token_env \<times> multisig_action) list \<Rightarrow> multisig_registry
    \<Rightarrow> multisig_registry" where
  "multisig_run uuid_head steps reg = fold (multisig_step uuid_head) steps reg"

text \<open>The signatures of a transaction are of different owners, and an executed one has enough of them.\<close>

definition approved :: "multisig_wallet \<Rightarrow> multisig_transaction \<Rightarrow> bool" where
  "approved w tx \<longleftrightarrow> unat (ms_threshold w) \<le> card (set (mt_signatures tx) \<inter> set (ms_owners w))"

definition tx_ok :: "multisig_wallet \<Rightarrow> multisig_transaction \<Rightarrow> bool" where
  "tx_ok w tx \<longleftrightarrow> distinct (mt_signatures tx) \<and> set (mt_signatures tx) \<subseteq> set (ms_owners w)
     \<and> (mt_executed tx \<longrightarrow> unat (ms_threshold w) \<le> length (mt_signatures tx))"

definition multisig_ok :: "multisig_registry \<Rightarrow> bool" where
  "multisig_ok reg \<longleftrightarrow> hmap_ok reg \<and> (\<forall>address w. hget reg address = Some w \<longrightarrow> ms_address w = address
     \<and> (\<forall>i tx. hget (ms_transactions w) i = Some tx \<longrightarrow> tx_ok w tx))"

definition wallet_value :: "token_wallet \<Rightarrow> nat" where
  "wallet_value w = unat (wb_xp_balance (wl_balance w)) + unat (wb_staked_xp (wl_balance w))"

definition registry_total :: "multisig_registry \<Rightarrow> nat" where
  "registry_total reg = sum_list (map (\<lambda>w. wallet_value (ms_wallet w)) (hvalues reg))"

lemma multisig_ok_put:
  "multisig_ok reg \<Longrightarrow> ms_address w = address \<Longrightarrow> (\<And>i tx. hget (ms_transactions w) i = Some tx \<Longrightarrow> tx_ok w tx)
     \<Longrightarrow> multisig_ok (hput address w reg)"
  by (auto simp: multisig_ok_def)

lemma multisig_okD:
  "multisig_ok reg \<Longrightarrow> hget reg address = Some w \<Longrightarrow> ms_address w = address"
  "multisig_ok reg \<Longrightarrow> hget reg address = Some w \<Longrightarrow> hget (ms_transactions w) i = Some tx \<Longrightarrow> tx_ok w tx"
  by (auto simp: multisig_ok_def)

lemma tx_ok_update [simp]:
  "tx_ok (w\<lparr> ms_wallet := x \<rparr>) tx = tx_ok w tx" "tx_ok (w\<lparr> ms_transactions := y \<rparr>) tx = tx_ok w tx"
  by (simp_all add: tx_ok_def)

lemma tx_ok_cong:
  "ms_owners w' = ms_owners w \<Longrightarrow> ms_threshold w' = ms_threshold w \<Longrightarrow> tx_ok w' tx = tx_ok w tx"
  by (simp add: tx_ok_def)

lemma new_tx_ok: "signer \<in> set (ms_owners w)
    \<Longrightarrow> tx_ok w \<lparr> mt_id = i, mt_proposal = p, mt_signatures = [signer], mt_executed = False \<rparr>"
  by (simp add: tx_ok_def)

lemma tx_ok_sign: "tx_ok w tx \<Longrightarrow> \<not> mt_executed tx \<Longrightarrow> signer \<in> set (ms_owners w)
    \<Longrightarrow> tx_ok w (tx\<lparr> mt_signatures := List.insert signer (mt_signatures tx) \<rparr>)"
  by (simp add: tx_ok_def)

lemma tx_ok_execute: "tx_ok w tx \<Longrightarrow> unat (ms_threshold w) \<le> length (mt_signatures tx) \<Longrightarrow> tx_ok w (tx\<lparr> mt_executed := True \<rparr>)"
  by (simp add: tx_ok_def)

lemma multisig_ok_sync:
  "multisig_ok reg \<Longrightarrow> (\<And>i tx. hget (ms_transactions w) i = Some tx \<Longrightarrow> tx_ok w tx) \<Longrightarrow> multisig_ok (sync_multisig w reg)"
  by (auto simp: sync_multisig_def intro: multisig_ok_put)

lemma approved_iff: "tx_ok w tx \<Longrightarrow> approved w tx \<longleftrightarrow> unat (ms_threshold w) \<le> length (mt_signatures tx)"
  by (simp add: approved_def tx_ok_def distinct_card Int_absorb2)

lemma execute_proposal_keeps:
  assumes "execute_proposal_on env env' p (w, reg) = (r, w', reg')" "multisig_ok reg"
  shows "ms_address w' = ms_address w \<and> ms_owners w' = ms_owners w \<and> ms_threshold w' = ms_threshold w
    \<and> ms_transactions w' = ms_transactions w \<and> multisig_ok reg'"
  using assms
  by (auto simp: execute_proposal_on_def multisig_okD intro!: multisig_ok_put
      split: multisig_proposal.splits prod.splits sum.splits option.splits if_splits)

lemma multisig_ok_step:
  assumes "multisig_ok reg"
  shows "multisig_ok (multisig_step uuid_head a reg)"
proof -
  obtain env env' act where a: "a = (env, env', act)" by (cases a) auto
  show ?thesis
  proof (cases act)
    case (MsCreate owners threshold)
    then show ?thesis using assms
      by (auto simp: a multisig_step_def create_multisig_def Let_def multisig_wallet_new_def intro!: multisig_ok_put)
  next
    case (MsSubmit address tx signer)
    then show ?thesis using assms
      by (auto simp: a multisig_step_def get_multisig_wallet_def submit_tx_def Let_def
          multisig_okD new_tx_ok intro!: multisig_ok_sync split: option.split if_splits)
  next
    case (MsSign address tx_id signer)
    then show ?thesis using assms
      by (auto simp: a multisig_step_def get_multisig_wallet_def sign_tx_def Let_def multisig_okD tx_ok_sign
          intro!: multisig_ok_sync split: option.split if_splits)
  next
    case (MsExecute address tx_id)
    show ?thesis
    proof (cases "hget reg address")
      case (Some w)
      then have w: "\<And>i tx. hget (ms_transactions w) i = Some tx \<Longrightarrow> tx_ok w tx" using assms by (auto simp: multisig_ok_def)
      have "multisig_ok (snd (snd (execute_tx env env' tx_id (w, reg))))"
      proof (cases "hget (ms_transactions w) tx_id")
        case (Some tx)
        obtain r w1 reg1 where e: "execute_proposal_on env env' (mt_proposal tx) (w, reg) = (r, w1, reg1)"
          by (cases "execute_proposal_on env env' (mt_proposal tx) (w, reg)") auto
        note keeps = execute_proposal_keeps [OF e assms]
        then have "tx_ok w1 t = tx_ok w t" for t by (intro tx_ok_cong) auto
        then show ?thesis using Some e keeps w assms
          by (auto simp: execute_tx_def Let_def tx_ok_execute intro!: multisig_ok_sync split: sum.split if_splits)
      qed (simp add: execute_tx_def assms)
      then show ?thesis using Some MsExecute by (simp add: a multisig_step_def get_multisig_wallet_def)
    qed (simp add: a multisig_step_def get_multisig_wallet_def MsExecute assms)
  qed
qed

text \<open>Totals.\<close>

abbreviation ms_value :: "multisig_wallet \<Rightarrow> nat" where "ms_value w \<equiv> wallet_value (ms_wallet w)"

lemma registry_total_put:
  "hmap_ok reg \<Longrightarrow> registry_total (hput k v reg) + (case hget reg k of Some w \<Rightarrow> ms_value w | None \<Rightarrow> 0)
     = registry_total reg + ms_value v"
proof (induction reg)
  case (Cons p reg)
  obtain k' w where p: "p = (k', w)" by force
  then have "hmap_ok reg" "k' \<notin> set (hkeys reg)" using Cons.prems by (simp_all add: hmap_ok_Cons)
  then show ?case using Cons.IH by (auto simp: p registry_total_def map_of_eq_None_iff split: option.splits)
qed (simp add: registry_total_def)

lemma ms_value_le_total: "hget reg k = Some w \<Longrightarrow> ms_value w \<le> registry_total reg"
  unfolding registry_total_def by (induction reg) (auto split: if_splits)

lemma two_values_le_total:
  assumes "hmap_ok reg" "hget reg k = Some w" "hget reg k' = Some w'" "k \<noteq> k'"
  shows "ms_value w + ms_value w' \<le> registry_total reg"
proof -
  let ?empty = "w\<lparr> ms_wallet := token_wallet_new 0 [] \<rparr>"
  have "ms_value ?empty = 0" by (simp add: wallet_value_def token_wallet_new_def)
  then have "registry_total (hput k ?empty reg) + ms_value w = registry_total reg"
    using registry_total_put [OF assms(1), of k ?empty] assms(2) by simp
  moreover have "ms_value w' \<le> registry_total (hput k ?empty reg)"
    using assms(3,4) by (intro ms_value_le_total [of _ k']) simp
  ultimately show ?thesis by simp
qed

lemma unat_add_le: "unat (x + y :: 64 word) \<le> unat x + unat y"
  by (simp add: unat_word_ariths)

lemma wallet_credit_value:
  "wallet_value (wallet_credit env a kind d w) \<le> wallet_value w + unat a"
  "wallet_value w + unat a < 2 ^ 64 \<Longrightarrow> wallet_value (wallet_credit env a kind d w) = wallet_value w + unat a"
  using unat_add_le [of "wb_xp_balance (wl_balance w)" a] unat_add_small [of "wb_xp_balance (wl_balance w)" a]
  by (simp_all add: wallet_value_def wallet_credit_def)

lemma wallet_debit_value:
  "wallet_debit env a kind d w = (Ok (), w') \<Longrightarrow> wallet_value w' + unat a = wallet_value w"
  by (auto simp: wallet_debit_def Let_def wallet_value_def unat_sub word_le_nat_alt not_less split: if_splits)

lemma wallet_stake_value:
  "wallet_stake env a days w = (Ok (), w') \<Longrightarrow> wallet_value w' \<le> wallet_value w"
  using unat_add_le [of "wb_staked_xp (wl_balance w)" a]
  by (auto simp: wallet_stake_def Let_def wallet_value_def unat_sub word_le_nat_alt not_less split: if_splits)

lemma wallet_unstake_value:
  "wallet_unstake env a w = (Ok (), w') \<Longrightarrow> wallet_value w' \<le> wallet_value w"
  using unat_add_le [of "wb_xp_balance (wl_balance w)" "a - unstake_fee a"] unstake_fee_le [of a]
  by (auto simp: wallet_unstake_def Let_def wallet_value_def unat_sub word_le_nat_alt not_less split: if_splits)

lemma execute_proposal_total:
  assumes "multisig_ok reg" "hget reg address = Some w" "execute_proposal_on env env' p (w, reg) = (Ok (), w', reg')"
    and v: "ms_wallet v = ms_wallet w'"
  shows "registry_total (hput address v reg') \<le> registry_total reg"
proof -
  have ok: "hmap_ok reg" using assms(1) by (simp add: multisig_ok_def)
  note put = registry_total_put [OF ok, of address v, unfolded assms(2), simplified]
  show ?thesis
  proof (cases p)
    case (MsTransfer target amount d)
    then obtain wl where wl: "wallet_debit env amount TkRedemption d (ms_wallet w) = (Ok (), wl)" "ms_wallet w' = wl"
      and reg': "reg' = (case hget reg target of None \<Rightarrow> reg | Some t \<Rightarrow>
        hput target (t\<lparr> ms_wallet := wallet_credit env' amount TkReward d (ms_wallet t) \<rparr>) reg)"
      using assms(3) by (auto simp: execute_proposal_on_def split: prod.splits sum.splits)
    have debit: "ms_value v + unat amount = ms_value w" using wallet_debit_value [OF wl(1)] v wl(2) by simp
    show ?thesis
    proof (cases "hget reg target")
      case None
      then show ?thesis using put debit reg' by simp
    next
      case (Some t)
      let ?t = "t\<lparr> ms_wallet := wallet_credit env' amount TkReward d (ms_wallet t) \<rparr>"
      have credit: "ms_value ?t \<le> ms_value t + unat amount" using wallet_credit_value(1) by simp
      have "registry_total (hput target ?t reg) + ms_value t = registry_total reg + ms_value ?t"
        using registry_total_put [OF ok, of target ?t] Some by simp
      moreover have "registry_total (hput address v reg') + (if address = target then ms_value ?t else ms_value w)
          = registry_total (hput target ?t reg) + ms_value v"
        using registry_total_put [of "hput target ?t reg" address v] ok reg' Some assms(2) by (simp split: if_splits)
      moreover have "address = target \<Longrightarrow> t = w" using Some assms(2) by simp
      ultimately show ?thesis using debit credit by (auto split: if_splits)
    qed
  next
    case (MsStake amount days)
    then show ?thesis using assms(3) v put wallet_stake_value [of env amount days "ms_wallet w"]
      by (auto simp: execute_proposal_on_def split: prod.splits sum.splits)
  next
    case (MsUnstake amount)
    then show ?thesis using assms(3) v put wallet_unstake_value [of env amount "ms_wallet w"]
      by (auto simp: execute_proposal_on_def split: prod.splits sum.splits)
  qed
qed

lemma same_wallet_total:
  assumes "hmap_ok reg" "hget reg address = Some w" "ms_wallet v = ms_wallet w"
  shows "registry_total (hput address v reg) = registry_total reg"
  using registry_total_put [OF assms(1), of address v] assms(2,3) by simp

lemma sync_own [simp]: "hget reg (ms_address w) = Some x \<Longrightarrow> sync_multisig w reg = hput (ms_address w) w reg"
  by (simp add: sync_multisig_def hmem_def)

text \<open>What executing a transaction comes to.\<close>

lemma execute_tx_cases:
  assumes ok: "multisig_ok reg" and w: "hget reg address = Some w"
  shows "snd (snd (execute_tx env env' i (w, reg))) = reg
    \<or> (\<exists>tx w1 reg1. hget (ms_transactions w) i = Some tx \<and> \<not> mt_executed tx \<and> approved w tx
        \<and> execute_proposal_on env env' (mt_proposal tx) (w, reg) = (Ok (), w1, reg1)
        \<and> snd (snd (execute_tx env env' i (w, reg))) =
            hput address (w1\<lparr> ms_transactions := hput i (tx\<lparr> mt_executed := True \<rparr>) (ms_transactions w1) \<rparr>) reg1)"
proof (cases "hget (ms_transactions w) i")
  case (Some tx)
  obtain r w1 reg1 where e: "execute_proposal_on env env' (mt_proposal tx) (w, reg) = (r, w1, reg1)"
    by (cases "execute_proposal_on env env' (mt_proposal tx) (w, reg)") auto
  have addr: "ms_address w1 = address" using execute_proposal_keeps [OF e ok] multisig_okD(1) [OF ok w] by simp
  have "hget reg1 address \<noteq> None"
    using e w by (auto simp: execute_proposal_on_def split: multisig_proposal.splits prod.splits sum.splits option.splits)
  then obtain x where x: "hget reg1 address = Some x" by blast
  have "\<not> is_ok r \<Longrightarrow> reg1 = reg"
    using e by (auto simp: execute_proposal_on_def split: multisig_proposal.splits prod.splits sum.splits)
  then show ?thesis
    using Some e addr x approved_iff [OF multisig_okD(2) [OF ok w Some]]
    by (cases r) (auto simp: execute_tx_def Let_def sync_multisig_def hmem_def)
qed (simp add: execute_tx_def)

lemma multisig_total_step:
  assumes ok: "multisig_ok reg"
  shows "registry_total (multisig_step uuid_head a reg) \<le> registry_total reg"
proof -
  obtain env env' act where a: "a = (env, env', act)" by (cases a) auto
  have h: "hmap_ok reg" using ok by (simp add: multisig_ok_def)
  show ?thesis
  proof (cases act)
    case (MsCreate owners threshold)
    let ?w = "multisig_wallet_new env uuid_head owners threshold"
    have "ms_value ?w = 0" by (simp add: multisig_wallet_new_def wallet_value_def token_wallet_new_def)
    then show ?thesis using registry_total_put [OF h, of "ms_address ?w" ?w] MsCreate
      by (simp add: a multisig_step_def create_multisig_def Let_def)
  next
    case (MsSubmit address tx signer)
    then show ?thesis using same_wallet_total [OF h] multisig_okD(1) [OF ok]
      by (auto simp: a multisig_step_def get_multisig_wallet_def submit_tx_def Let_def sync_multisig_def split: option.split)
  next
    case (MsSign address i signer)
    then show ?thesis using same_wallet_total [OF h] multisig_okD(1) [OF ok]
      by (auto simp: a multisig_step_def get_multisig_wallet_def sign_tx_def Let_def sync_multisig_def split: option.split)
  next
    case (MsExecute address i)
    show ?thesis
    proof (cases "hget reg address")
      case (Some w)
      from execute_tx_cases [OF ok Some, of env env' i] show ?thesis
        using execute_proposal_total [OF ok Some] MsExecute Some
        by (auto simp: a multisig_step_def get_multisig_wallet_def)
    qed (simp add: a multisig_step_def get_multisig_wallet_def MsExecute)
  qed
qed

text \<open>A wallet only loses value when one of its own transactions is executed, or a new wallet takes its address.\<close>

lemma multisig_loss:
  assumes ok: "multisig_ok reg" and small: "registry_total reg < 2 ^ 64" and w: "hget reg address = Some w"
    and w': "hget (multisig_step uuid_head (env, env', act) reg) address = Some w'" and loss: "ms_value w' < ms_value w"
  shows "(\<exists>i tx. act = MsExecute address i \<and> hget (ms_transactions w) i = Some tx \<and> \<not> mt_executed tx \<and> approved w tx)
    \<or> (\<exists>owners threshold. act = MsCreate owners threshold
         \<and> address = fst (create_multisig env uuid_head owners threshold reg))"
proof (cases act)
  case (MsCreate owners threshold)
  then show ?thesis using assms by (auto simp: multisig_step_def create_multisig_def Let_def split: if_splits)
next
  case (MsSubmit ad tx signer)
  then have "ms_wallet w' = ms_wallet w" using w w' multisig_okD(1) [OF ok]
    by (auto simp: multisig_step_def get_multisig_wallet_def submit_tx_def Let_def sync_multisig_def
        split: option.splits if_splits)
  then show ?thesis using loss by simp
next
  case (MsSign ad i signer)
  then have "ms_wallet w' = ms_wallet w" using w w' multisig_okD(1) [OF ok]
    by (auto simp: multisig_step_def get_multisig_wallet_def sign_tx_def Let_def sync_multisig_def
        split: option.splits if_splits)
  then show ?thesis using loss by simp
next
  case (MsExecute ad i)
  have "hget reg ad \<noteq> None"
    using w w' loss MsExecute by (auto simp: multisig_step_def get_multisig_wallet_def split: option.splits)
  then obtain x where x: "hget reg ad = Some x" by blast
  have step: "multisig_step uuid_head (env, env', act) reg = snd (snd (execute_tx env env' i (x, reg)))"
    using MsExecute x by (simp add: multisig_step_def get_multisig_wallet_def)
  then have "snd (snd (execute_tx env env' i (x, reg))) \<noteq> reg" using w w' loss by auto
  then obtain tx w1 reg1 where tx: "hget (ms_transactions x) i = Some tx" "\<not> mt_executed tx" "approved x tx"
    and e: "execute_proposal_on env env' (mt_proposal tx) (x, reg) = (Ok (), w1, reg1)"
    and reg': "snd (snd (execute_tx env env' i (x, reg))) =
            hput ad (w1\<lparr> ms_transactions := hput i (tx\<lparr> mt_executed := True \<rparr>) (ms_transactions w1) \<rparr>) reg1"
    using execute_tx_cases [OF ok x, of env env' i] by auto
  show ?thesis
  proof (cases "address = ad")
    case True
    then show ?thesis using MsExecute tx x w by auto
  next
    case False
    then have "hget reg1 address = Some w'" using w' step reg' by simp
    moreover have "hget reg1 address \<noteq> Some w"
      using calculation loss by auto
    ultimately obtain amount d where p: "mt_proposal tx = MsTransfer address amount d"
      and w'': "w' = w\<lparr> ms_wallet := wallet_credit env' amount TkReward d (ms_wallet w) \<rparr>"
      and wl: "\<exists>wl. wallet_debit env amount TkRedemption d (ms_wallet x) = (Ok (), wl)"
      using e w by (auto simp: execute_proposal_on_def split: multisig_proposal.splits prod.splits sum.splits option.splits if_splits)
    have "unat amount \<le> ms_value x" using wl wallet_debit_value by fastforce
    moreover have "ms_value w + ms_value x \<le> registry_total reg"
      using two_values_le_total [OF _ w x False] ok by (simp add: multisig_ok_def)
    ultimately have "ms_value w' = ms_value w + unat amount"
      using wallet_credit_value(2) [of "ms_wallet w" amount env' TkReward d] small unfolding w'' by simp
    then show ?thesis using loss by simp
  qed
qed

section \<open>Properties\<close>

text \<open>The fee of an unstake, computed in floating point, is at most the amount, and for amounts up to \<open>2 ^ 52\<close> it is
  exactly a twentieth rounded up.\<close>

theorem unstake_fee_spec:
  "unstake_fee a \<le> a \<and> (unat a \<le> 2 ^ 52 \<longrightarrow> unat (unstake_fee a) = (unat a + 19) div 20)"
proof (cases "unat a = 0")
  case True
  then show ?thesis using unstake_fee_0 unstake_fee_le by (simp add: unat_eq_zero)
next
  case False
  have "unat (unstake_fee a) = (unat a + 19) div 20" if "unat a \<le> 2 ^ 52"
    using unstake_fee_ceiling [OF False] fee_value(3) [OF _ that] False by (metis of_nat_eq_iff neq0_conv)
  then show ?thesis using unstake_fee_le by blast
qed

lemma unstake_fee_spec_witness: "unat (unstake_fee 101) = 6"
  using unstake_fee_spec [of 101] by simp

text \<open>C33: For a new wallet that is credited only with rewards and debited only for redemptions and transfers, as the code
  outside the tests does, and that stakes and unstakes: as long as the rewards stay below \<open>2 ^ 64\<close>, its ledger explains
  its balances. What was earned is the sum of the rewards, what is available and staked is the rewards less what was
  spent and the fees, and what is staked is the stakes less what was unstaked and the fees.\<close>

theorem wallet_ledger_spec:
  assumes "w = wallet_run steps (token_wallet_new now node)" and "ledger_sum (\<lambda>k. k = TkReward) w < 2 ^ 64"
  shows "unat (wb_lifetime_earned (wl_balance w)) = ledger_sum (\<lambda>k. k = TkReward) w
    \<and> unat (get_effective_balance w) + ledger_sum is_spend w + ledger_sum (\<lambda>k. k = TkFee) w = ledger_sum (\<lambda>k. k = TkReward) w
    \<and> unat (wb_staked_xp (wl_balance w)) + ledger_sum (\<lambda>k. k = TkUnstake) w + ledger_sum (\<lambda>k. k = TkFee) w
        = ledger_sum is_stake w"
proof -
  have "ledger_explains w' \<Longrightarrow> ledger_sum (\<lambda>k. k = TkReward) (wallet_run steps w') < 2 ^ 64 \<Longrightarrow> ledger_explains (wallet_run steps w')"
    for w'
  proof (induction steps arbitrary: w')
    case (Cons a steps)
    have "ledger_sum (\<lambda>k. k = TkReward) (wallet_op_step a w') < 2 ^ 64"
      using Cons.prems(2) reward_mono_run [of "\<lambda>k. k = TkReward" "wallet_op_step a w'" steps] by (simp add: wallet_run_def)
    from Cons.IH [OF ledger_step [OF Cons.prems(1) this]] Cons.prems(2) show ?case by (simp add: wallet_run_def)
  qed (simp add: wallet_run_def)
  moreover have "ledger_explains (token_wallet_new now node)"
    by (simp add: ledger_explains_def token_wallet_new_def ledger_sum_def)
  ultimately have e: "ledger_explains w" using assms by blast
  then have "unat (get_effective_balance w) = unat (wb_xp_balance (wl_balance w)) + unat (wb_staked_xp (wl_balance w))"
    unfolding get_effective_balance_def using assms(2) by (intro unat_add_small) (simp add: ledger_explains_def)
  then show ?thesis using e by (simp add: ledger_explains_def)
qed

definition sample_token_env :: token_env where
  "sample_token_env = \<lparr> te_now = (\<lambda>_. 0), te_uuid = id \<rparr>"

lemma wallet_ledger_spec_witness:
  "unat (get_effective_balance (wallet_run [(sample_token_env, WReward 100 []), (sample_token_env, WStake 40 30),
     (sample_token_env, WUnstake 20), (sample_token_env, WSpend 5 None [])] (token_wallet_new 0 []))) = 94"
proof -
  let ?steps = "[(sample_token_env, WReward 100 []), (sample_token_env, WStake 40 30),
     (sample_token_env, WUnstake 20), (sample_token_env, WSpend 5 None [])]"
  let ?w = "wallet_run ?steps (token_wallet_new 0 [])"
  have "int (unat (unstake_fee 20)) = 1" using unstake_fee_ceiling [of 20] fee_value(3) [of 20] by simp
  then have fee: "unstake_fee 20 = 1" by (simp add: word_uint_eq_iff)
  have "ledger_sum (\<lambda>k. k = TkReward) ?w = 100" "ledger_sum is_spend ?w = 5" "ledger_sum (\<lambda>k. k = TkFee) ?w = 1"
    by (simp_all add: wallet_run_def wallet_op_step_def wallet_ops token_wallet_new_def ledger_sum_def is_spend_def
        spend_kind_def fee Let_def)
  then show ?thesis using wallet_ledger_spec [OF refl, of ?steps 0 "[]"] by simp
qed

text \<open>C32: From a consistent registry whose total is below \<open>2 ^ 64\<close>, by actions that each take a fresh copy of the wallet from the
  registry, act on it and put it back: every executed transaction has the signatures of as many different owners as
  the threshold asks for, the total of all wallets never grows, and the next action lowers the value of a wallet only
  by executing one of its approved transactions, once, or by creating a wallet of its address. (A copy that has become
  stale creates tokens: \<open>stale_copy_creates_tokens\<close>.)\<close>

theorem multisig_spends_only_approved:
  assumes "multisig_ok reg0" "registry_total reg0 < 2 ^ 64" and "reg = multisig_run uuid_head steps reg0"
  shows "(\<forall>address w i tx. hget reg address = Some w \<longrightarrow> hget (ms_transactions w) i = Some tx \<longrightarrow> mt_executed tx \<longrightarrow> approved w tx)
    \<and> registry_total reg \<le> registry_total reg0
    \<and> (\<forall>env env' act address w w'. hget reg address = Some w \<longrightarrow>
         hget (multisig_step uuid_head (env, env', act) reg) address = Some w' \<longrightarrow> ms_value w' < ms_value w \<longrightarrow>
         (\<exists>i tx. act = MsExecute address i \<and> hget (ms_transactions w) i = Some tx \<and> \<not> mt_executed tx \<and> approved w tx)
         \<or> (\<exists>owners threshold. act = MsCreate owners threshold
              \<and> address = fst (create_multisig env uuid_head owners threshold reg)))"
proof -
  have run: "multisig_ok reg \<and> registry_total reg \<le> registry_total reg0"
    unfolding assms(3) multisig_run_def using assms(1)
  proof (induction steps arbitrary: reg0)
    case (Cons a steps)
    then show ?case using Cons.IH [OF multisig_ok_step [OF Cons.prems], of uuid_head a]
        multisig_total_step [OF Cons.prems, of uuid_head a] by auto
  qed simp
  then have "approved w tx" if "hget reg address = Some w" "hget (ms_transactions w) i = Some tx" "mt_executed tx" for address w i tx
    using multisig_okD(2) [of reg, OF _ that(1,2)] approved_iff that(3) by (auto simp: tx_ok_def)
  then show ?thesis using multisig_loss [of reg] run assms(2) by auto
qed

definition funded_wallet :: "string \<Rightarrow> multisig_wallet" where
  "funded_wallet address = \<lparr> ms_address = address, ms_owners = [''ann'', ''bob''], ms_threshold = 2,
     ms_wallet = wallet_credit sample_token_env 100 TkReward [] (token_wallet_new 0 []), ms_transactions = [] \<rparr>"

lemma multisig_spends_only_approved_witness:
  "\<exists>reg. hget (ms_transactions (the (hget reg ''m1''))) 0 \<noteq> None \<and> registry_total reg \<le> 100"
proof -
  let ?steps = "[(sample_token_env, sample_token_env, MsSubmit ''m1'' (MsTransfer ''m2'' 30 []) ''ann''),
    (sample_token_env, sample_token_env, MsSign ''m1'' 0 ''bob''), (sample_token_env, sample_token_env, MsExecute ''m1'' 0)]"
  let ?reg0 = "[(''m1'', funded_wallet ''m1'')]"
  have "multisig_ok ?reg0" by (simp add: multisig_ok_def funded_wallet_def hmap_ok_def)
  moreover have total: "registry_total ?reg0 = 100" by code_simp
  ultimately have "registry_total (multisig_run (\<lambda>_. []) ?steps ?reg0) \<le> 100"
    using multisig_spends_only_approved [of ?reg0 _ "\<lambda>_. []" ?steps] by simp
  moreover have "hget (ms_transactions (the (hget (multisig_run (\<lambda>_. []) ?steps ?reg0) ''m1''))) 0 \<noteq> None" by code_simp
  ultimately show ?thesis by blast
qed

text \<open>A copy of a wallet taken before the execution executes the transaction again: the target is credited twice, and the
  registry, which the copy overwrites, shows one debit.\<close>

lemma stale_copy_creates_tokens:
  "let signed = multisig_run (\<lambda>_. []) [(sample_token_env, sample_token_env, MsSubmit ''m1'' (MsTransfer ''m2'' 30 []) ''ann''),
         (sample_token_env, sample_token_env, MsSign ''m1'' 0 ''bob'')] [(''m1'', funded_wallet ''m1''), (''m2'', funded_wallet ''m2'')];
       copy = the (get_multisig_wallet ''m1'' signed);
       once = snd (snd (execute_tx sample_token_env sample_token_env 0 (copy, signed)));
       twice = snd (snd (execute_tx sample_token_env sample_token_env 0 (copy, once)))
   in registry_total signed = 200 \<and> registry_total once = 200 \<and> registry_total twice = 230"
  by code_simp

text \<open>A transfer of a wallet to itself destroys the amount.\<close>

lemma self_transfer_destroys_tokens:
  "let signed = multisig_run (\<lambda>_. []) [(sample_token_env, sample_token_env, MsSubmit ''m1'' (MsTransfer ''m1'' 30 []) ''ann''),
         (sample_token_env, sample_token_env, MsSign ''m1'' 0 ''bob'')] [(''m1'', funded_wallet ''m1'')]
   in registry_total signed = 100
    \<and> registry_total (multisig_step (\<lambda>_. []) (sample_token_env, sample_token_env, MsExecute ''m1'' 0) signed) = 70"
  by code_simp

text \<open>What can be released and what was released is at most the whole, and waiting never lowers it.\<close>

lemma releasable_bounds:
  assumes "vs_amount_released s \<le> vs_amount_total s"
  shows "unat (calculate_releasable mi now s) + unat (vs_amount_released s) \<le> unat (vs_amount_total s)"
proof -
  have "unat (vs_amount_total s div 2) \<le> unat (vs_amount_total s)" by (simp add: unat_div)
  then show ?thesis using assms
    by (auto simp: calculate_releasable_def Let_def unat_sub word_le_nat_alt not_less word_less_nat_alt)
qed

end
