(* ===== verification/TokenRewards.thy ===== *)
theory TokenRewards
  imports TokenWallet
begin

text \<open>Rewards and reputation: \<open>src/src/mesh/tokenomics/rewards.rs\<close> (rewards for contributions under a daily cap,
  penalties of validators), \<open>accounting.rs\<close> (reputation of peers) and \<open>economy.rs\<close>. The powers \<open>powi\<close> and \<open>powf\<close>,
  whose precision the language leaves open, are arguments.\<close>

section \<open>Penalties of validators\<close>

record penalty_tracker =
  pt_false_positive_counts :: "(string, 32 word) hmap"
  pt_base_penalty :: "64 word"
  pt_damping_factor :: rat

definition penalty_tracker_new :: penalty_tracker where
  "penalty_tracker_new = \<lparr> pt_false_positive_counts = [], pt_base_penalty = 10, pt_damping_factor = 3 / 2 \<rparr>"

definition calculate_dampened_penalty :: "(rat \<Rightarrow> int \<Rightarrow> rat) \<Rightarrow> 32 word \<Rightarrow> penalty_tracker \<Rightarrow> 64 word" where
  "calculate_dampened_penalty powi' count t =
     (if count = 0 then 0
      else
        (let scaled = fmul (f64_of_nat (unat (pt_base_penalty t))) (powi' (pt_damping_factor t) (sint (count - 1)))
         in max (of_nat (saturate 64 (of_int \<lfloor>scaled\<rfloor>))) (pt_base_penalty t)))"

definition get_false_positive_count :: "string \<Rightarrow> penalty_tracker \<Rightarrow> 32 word" where
  "get_false_positive_count validator_id t =
     (case hget (pt_false_positive_counts t) validator_id of Some count \<Rightarrow> count | None \<Rightarrow> 0)"

definition record_false_positive :: "(rat \<Rightarrow> int \<Rightarrow> rat) \<Rightarrow> string \<Rightarrow> penalty_tracker \<Rightarrow> 64 word \<times> penalty_tracker" where
  "record_false_positive powi' validator_id t =
     (let count = get_false_positive_count validator_id t + 1;
          t' = t\<lparr> pt_false_positive_counts := hput validator_id count (pt_false_positive_counts t) \<rparr>
      in (calculate_dampened_penalty powi' count t', t'))"

definition record_valid_claim :: "string \<Rightarrow> penalty_tracker \<Rightarrow> penalty_tracker" where
  "record_valid_claim validator_id t = (case hget (pt_false_positive_counts t) validator_id of
     None \<Rightarrow> t
   | Some count \<Rightarrow>
       if count > 0 then t\<lparr> pt_false_positive_counts := hput validator_id (count - 1) (pt_false_positive_counts t) \<rparr> else t)"

section \<open>Rewards\<close>

datatype contribution_type =
    StorageProvided "64 word" "64 word"
  | BandwidthProvided "64 word"
  | ComputeProvided "64 word"
  | PeerDiscovery "32 word"
  | DataValidated "32 word"

record reward_event =
  rv_event_id :: nat
  rv_contribution :: contribution_type
  rv_xp_awarded :: "64 word"
  rv_timestamp :: int

record reward_engine =
  re_wallet :: token_wallet
  re_reward_rate :: rat
  re_daily_cap :: "64 word"
  re_today_earned :: "64 word"
  re_last_reset :: int
  re_tracker :: penalty_tracker

definition reward_engine_new :: "int \<Rightarrow> token_wallet \<Rightarrow> reward_engine" where
  "reward_engine_new now w =
     \<lparr> re_wallet = w, re_reward_rate = 1, re_daily_cap = 10000, re_today_earned = 0, re_last_reset = now,
       re_tracker = penalty_tracker_new \<rparr>"

definition with_rate :: "rat \<Rightarrow> reward_engine \<Rightarrow> reward_engine" where
  "with_rate rate e = e\<lparr> re_reward_rate := rate \<rparr>"

definition with_daily_cap :: "64 word \<Rightarrow> reward_engine \<Rightarrow> reward_engine" where
  "with_daily_cap cap e = e\<lparr> re_daily_cap := cap \<rparr>"

definition calculate_reward :: "contribution_type \<Rightarrow> investment_tier \<Rightarrow> reward_engine \<Rightarrow> 64 word" where
  "calculate_reward contribution tier e =
     (let apy_multiplier = fdiv (tier_apy tier) 5;
          rate = re_reward_rate e;
          raw = (case contribution of
              StorageProvided bytes duration_secs \<Rightarrow>
                fmul (fmul (fdiv (fmul (f64_of_nat (unat bytes)) (f64_of_nat (unat duration_secs))) 1000000) rate) apy_multiplier
            | BandwidthProvided bytes \<Rightarrow> fmul (fmul (fdiv (f64_of_nat (unat bytes)) 1000000) rate) apy_multiplier
            | ComputeProvided cycles \<Rightarrow> fmul (fmul (fdiv (f64_of_nat (unat cycles)) 100000) rate) apy_multiplier
            | PeerDiscovery peers \<Rightarrow> fmul (fmul (f64_of_nat (unat peers)) 10) apy_multiplier
            | DataValidated records \<Rightarrow> fmul (fmul (f64_of_nat (unat records)) 5) apy_multiplier)
      in if raw > 0 then max (of_nat (saturate 64 (of_int \<lfloor>raw\<rfloor>))) 1 else 0)"

definition apply_false_positive_penalty :: "(rat \<Rightarrow> int \<Rightarrow> rat) \<Rightarrow> string \<Rightarrow> reward_engine \<Rightarrow> 64 word \<times> reward_engine" where
  "apply_false_positive_penalty powi' validator_id e =
     (let (penalty, t) = record_false_positive powi' validator_id (re_tracker e) in (penalty, e\<lparr> re_tracker := t \<rparr>))"

definition daily_reset :: "int \<Rightarrow> reward_engine \<Rightarrow> reward_engine" where
  "daily_reset now e =
     (if now - re_last_reset e > 86400 then e\<lparr> re_today_earned := 0, re_last_reset := now \<rparr> else e)"

text \<open>The two halves of \<open>process_contribution\<close>: what is awarded, judged by the counter as it is read, and the award
  itself, which waits for the lock of the wallet in between.\<close>

definition award_for :: "contribution_type \<Rightarrow> reward_engine \<Rightarrow> (64 word, string) result" where
  "award_for contribution e =
     (let balance = wl_balance (re_wallet e);
          inflation_adj = fadd 1 (min (fdiv (f64_of_nat (unat (wb_lifetime_earned balance))) 10000000) (rnd (1 / 50)));
          xp = of_nat (saturate 64 (fmul (f64_of_nat (unat (calculate_reward contribution (wb_tier balance) e))) inflation_adj));
          earned_today = re_today_earned e
      in if xp = 0 then Err ''Contribution too small to earn XP''
         else if earned_today \<ge> re_daily_cap e then
           Err (''Daily XP cap reached ('' @ nat_dec (unat earned_today) @ '' / '' @ nat_dec (unat (re_daily_cap e))
                @ ''). Try again tomorrow.'')
         else
           (let xp_awarded = min xp (re_daily_cap e - earned_today)
            in if xp_awarded = 0 then Err ''No XP available under daily cap'' else Ok xp_awarded))"

definition burn_amount :: "64 word \<Rightarrow> 64 word" where
  "burn_amount xp_awarded = of_nat (saturate 64 (fmul (f64_of_nat (unat xp_awarded)) (rnd (1 / 20))))"

definition grant_award :: "token_env \<Rightarrow> string \<Rightarrow> 64 word \<Rightarrow> reward_engine \<Rightarrow> reward_engine" where
  "grant_award env description xp_awarded e =
     (let net_xp = (if xp_awarded < burn_amount xp_awarded then 0 else xp_awarded - burn_amount xp_awarded)
      in e\<lparr> re_wallet := wallet_credit env net_xp TkReward description (re_wallet e),
            re_today_earned := re_today_earned e + xp_awarded \<rparr>)"

definition process_contribution :: "int \<Rightarrow> token_env \<Rightarrow> contribution_type \<Rightarrow> string \<Rightarrow> reward_engine
    \<Rightarrow> (reward_event, string) result \<times> reward_engine" where
  "process_contribution now env contribution description e =
     (let e1 = daily_reset now e
      in case award_for contribution e1 of
           Err err \<Rightarrow> (Err err, e1)
         | Ok xp_awarded \<Rightarrow>
             (Ok \<lparr> rv_event_id = te_uuid env 1, rv_contribution = contribution, rv_xp_awarded = xp_awarded,
                   rv_timestamp = te_now env 1 \<rparr>,
              grant_award env description xp_awarded e1))"

section \<open>Reputation\<close>

record peer_account =
  pa_storage_contributed :: "64 word"
  pa_storage_consumed :: "64 word"
  pa_bandwidth_contributed :: "64 word"
  pa_bandwidth_consumed :: "64 word"
  pa_compute_contributed :: "64 word"
  pa_compute_consumed :: "64 word"
  pa_quality_contributions :: "32 word"
  pa_manual_penalties :: "32 word"
  pa_reputation_score :: "32 word"

definition peer_account_new :: peer_account where
  "peer_account_new =
     \<lparr> pa_storage_contributed = 0, pa_storage_consumed = 0, pa_bandwidth_contributed = 0, pa_bandwidth_consumed = 0,
       pa_compute_contributed = 0, pa_compute_consumed = 0, pa_quality_contributions = 0, pa_manual_penalties = 0,
       pa_reputation_score = 500 \<rparr>"

definition resource_ratio_score :: "64 word \<Rightarrow> 64 word \<Rightarrow> rat" where
  "resource_ratio_score contributed consumed =
     (if consumed = 0 then if contributed > 0 then 1 else 5 / 8
      else min (fdiv (f64_of_nat (unat contributed)) (f64_of_nat (unat consumed))) 1)"

definition base_score :: "peer_account \<Rightarrow> 32 word" where
  "base_score a =
     (let s = resource_ratio_score (pa_storage_contributed a) (pa_storage_consumed a);
          b = resource_ratio_score (pa_bandwidth_contributed a) (pa_bandwidth_consumed a);
          c = resource_ratio_score (pa_compute_contributed a) (pa_compute_consumed a)
      in of_nat (saturate 32 (fmul (fdiv (fadd (fadd s b) c) 3) 800)))"

definition quality_bonus :: "peer_account \<Rightarrow> 32 word" where
  "quality_bonus a = min (pa_quality_contributions a * 5) 200"

definition update_reputation :: "peer_account \<Rightarrow> peer_account" where
  "update_reputation a =
     (let score = base_score a + quality_bonus a;
          left = (if score < pa_manual_penalties a then 0 else score - pa_manual_penalties a)
      in a\<lparr> pa_reputation_score := min left 1000 \<rparr>)"

record resource_accounting =
  ra_accounts :: "(string, peer_account) hmap"
  ra_penalty_threshold :: "32 word"

definition accounting_new :: resource_accounting where
  "accounting_new = \<lparr> ra_accounts = [], ra_penalty_threshold = 300 \<rparr>"

definition get_account :: "string \<Rightarrow> resource_accounting \<Rightarrow> peer_account" where
  "get_account node_id r = (case hget (ra_accounts r) node_id of Some a \<Rightarrow> a | None \<Rightarrow> peer_account_new)"

definition record_contribution :: "string \<Rightarrow> 64 word \<Rightarrow> 64 word \<Rightarrow> 64 word \<Rightarrow> resource_accounting \<Rightarrow> resource_accounting" where
  "record_contribution node_id storage bandwidth compute r =
     (let a = get_account node_id r
      in r\<lparr> ra_accounts := hput node_id (update_reputation
             (a\<lparr> pa_storage_contributed := pa_storage_contributed a + storage,
                 pa_bandwidth_contributed := pa_bandwidth_contributed a + bandwidth,
                 pa_compute_contributed := pa_compute_contributed a + compute \<rparr>)) (ra_accounts r) \<rparr>)"

definition record_consumption :: "string \<Rightarrow> 64 word \<Rightarrow> 64 word \<Rightarrow> 64 word \<Rightarrow> resource_accounting \<Rightarrow> resource_accounting" where
  "record_consumption node_id storage bandwidth compute r =
     (let a = get_account node_id r
      in r\<lparr> ra_accounts := hput node_id (update_reputation
             (a\<lparr> pa_storage_consumed := pa_storage_consumed a + storage,
                 pa_bandwidth_consumed := pa_bandwidth_consumed a + bandwidth,
                 pa_compute_consumed := pa_compute_consumed a + compute \<rparr>)) (ra_accounts r) \<rparr>)"

definition record_quality_contribution :: "string \<Rightarrow> resource_accounting \<Rightarrow> resource_accounting" where
  "record_quality_contribution node_id r =
     (let a = get_account node_id r
      in r\<lparr> ra_accounts := hput node_id (update_reputation
             (a\<lparr> pa_quality_contributions := pa_quality_contributions a + 1 \<rparr>)) (ra_accounts r) \<rparr>)"

definition is_freeloader :: "string \<Rightarrow> resource_accounting \<Rightarrow> bool" where
  "is_freeloader node_id r = (case hget (ra_accounts r) node_id of
     Some a \<Rightarrow> pa_reputation_score a < ra_penalty_threshold r
   | None \<Rightarrow> False)"

definition apply_penalty :: "string \<Rightarrow> 32 word \<Rightarrow> resource_accounting \<Rightarrow> resource_accounting" where
  "apply_penalty node_id amount r =
     (let a = get_account node_id r
      in r\<lparr> ra_accounts := hput node_id (update_reputation
             (a\<lparr> pa_manual_penalties := pa_manual_penalties a + amount \<rparr>)) (ra_accounts r) \<rparr>)"

section \<open>The economy engine\<close>

record economy_engine =
  ee_reserve_ratio :: rat
  ee_protocol_owned_liquidity_ratio :: rat
  ee_burn_rate :: rat
  ee_annual_inflation :: rat

definition economy_new :: economy_engine where
  "economy_new = \<lparr> ee_reserve_ratio = 1 / 4, ee_protocol_owned_liquidity_ratio = rnd (1 / 5), ee_burn_rate = rnd (1 / 20),
     ee_annual_inflation = rnd (1 / 50) \<rparr>"

definition calculate_purchase_return :: "(rat \<Rightarrow> rat \<Rightarrow> rat) \<Rightarrow> rat \<Rightarrow> rat \<Rightarrow> rat \<Rightarrow> economy_engine \<Rightarrow> rat" where
  "calculate_purchase_return powf supply reserve_balance deposit_amount e =
     (if ee_reserve_ratio e = 1 then fmul deposit_amount (fdiv supply reserve_balance)
      else fmul supply (fadd (powf (fadd 1 (fdiv deposit_amount reserve_balance)) (ee_reserve_ratio e)) (- 1)))"

datatype circuit_breaker_level = BreakerNone | BreakerLevel1 | BreakerLevel2 | BreakerLevel3

definition check_circuit_breakers :: "rat \<Rightarrow> circuit_breaker_level" where
  "check_circuit_breakers price_drop_24h =
     (if price_drop_24h \<ge> rnd (2 / 5) then BreakerLevel3
      else if price_drop_24h \<ge> 1 / 4 then BreakerLevel2
      else if price_drop_24h \<ge> rnd (3 / 20) then BreakerLevel1
      else BreakerNone)"

section \<open>The daily cap\<close>

type_synonym reward_step = "int \<times> token_env \<times> contribution_type \<times> string"

text \<open>The awards of a sequence of contributions, with the times at which they are processed.\<close>

fun reward_run :: "reward_step list \<Rightarrow> reward_engine \<Rightarrow> (int \<times> nat) list \<times> reward_engine" where
  "reward_run [] e = ([], e)"
| "reward_run ((now, env, contribution, description) # steps) e =
     (let (r, e1) = process_contribution now env contribution description e;
          (awards, e2) = reward_run steps e1
      in ((case r of Ok ev \<Rightarrow> [(now, unat (rv_xp_awarded ev))] | Err _ \<Rightarrow> []) @ awards, e2))"

definition awarded_between :: "int \<Rightarrow> int \<Rightarrow> (int \<times> nat) list \<Rightarrow> nat" where
  "awarded_between lo hi awards = sum_list (map snd (filter (\<lambda>(t, _). lo \<le> t \<and> t \<le> hi) awards))"

definition award_of :: "(reward_event, string) result \<Rightarrow> nat" where
  "award_of r = (case r of Ok ev \<Rightarrow> unat (rv_xp_awarded ev) | Err _ \<Rightarrow> 0)"

lemma daily_reset_keeps [simp]:
  "re_daily_cap (daily_reset now e) = re_daily_cap e" "re_wallet (daily_reset now e) = re_wallet e"
  by (simp_all add: daily_reset_def)

lemma award_for_le:
  assumes "award_for contribution e = Ok xp" "re_today_earned e \<le> re_daily_cap e"
  shows "unat xp \<le> unat (re_daily_cap e) - unat (re_today_earned e)"
proof -
  have "xp \<le> re_daily_cap e - re_today_earned e"
    using assms(1) by (auto simp: award_for_def Let_def split: if_splits)
  then have "unat xp \<le> unat (re_daily_cap e - re_today_earned e)" by (simp add: word_le_nat_alt)
  also have "\<dots> = unat (re_daily_cap e) - unat (re_today_earned e)" using assms(2) by (rule unat_sub)
  finally show ?thesis .
qed

text \<open>One contribution: what it awards is added to the counter, which stays within the cap.\<close>

lemma process_step:
  assumes "process_contribution now env contribution description e = (r, e')"
    and "re_today_earned e \<le> re_daily_cap e"
  shows "re_daily_cap e' = re_daily_cap e" "re_last_reset e' = re_last_reset (daily_reset now e)"
    "re_today_earned e' \<le> re_daily_cap e'" "unat (re_today_earned e') \<le> unat (re_daily_cap e)"
    "unat (re_today_earned e') = unat (re_today_earned (daily_reset now e)) + award_of r"
proof -
  let ?e1 = "daily_reset now e"
  have le: "re_today_earned ?e1 \<le> re_daily_cap ?e1" using assms(2) by (simp add: daily_reset_def)
  have "re_daily_cap e' = re_daily_cap e \<and> re_last_reset e' = re_last_reset ?e1 \<and> re_today_earned e' \<le> re_daily_cap e'
    \<and> unat (re_today_earned e') = unat (re_today_earned ?e1) + award_of r"
  proof (cases "award_for contribution ?e1")
    case (Inl err)
    then show ?thesis using assms(1) le by (auto simp: process_contribution_def Let_def award_of_def)
  next
    case (Inr xp)
    have "unat xp \<le> unat (re_daily_cap ?e1) - unat (re_today_earned ?e1)" by (rule award_for_le [OF Inr le])
    then have sum: "unat (re_today_earned ?e1) + unat xp \<le> unat (re_daily_cap ?e1)" using le by (simp add: word_le_nat_alt)
    have "unat (re_daily_cap ?e1) < 2 ^ 64" using unsigned_less [of "re_daily_cap ?e1"] by simp
    then have "unat (re_today_earned ?e1 + xp) = unat (re_today_earned ?e1) + unat xp"
      using sum by (intro unat_add_small) simp
    then show ?thesis using assms(1) Inr sum
      by (auto simp: process_contribution_def Let_def award_of_def grant_award_def word_le_nat_alt)
  qed
  then show "re_daily_cap e' = re_daily_cap e" "re_last_reset e' = re_last_reset ?e1" "re_today_earned e' \<le> re_daily_cap e'"
    "unat (re_today_earned e') \<le> unat (re_daily_cap e)"
    "unat (re_today_earned e') = unat (re_today_earned ?e1) + award_of r"
    by (auto simp: word_le_nat_alt)
qed

lemma reward_run_Cons:
  assumes "process_contribution now env contribution description e = (r, e1)" "reward_run steps e1 = (awards, e2)"
  shows "awarded_between lo hi (fst (reward_run ((now, env, contribution, description) # steps) e)) =
    (if lo \<le> now \<and> now \<le> hi then award_of r else 0) + awarded_between lo hi awards"
  using assms by (cases r) (simp_all add: awarded_between_def award_of_def)

text \<open>Until the next reset is due the counter bounds the awards.\<close>

lemma awards_before_reset:
  assumes "re_today_earned e \<le> re_daily_cap e" "hi - re_last_reset e \<le> 86400"
    and "sorted_wrt (\<le>) (map fst steps)" "\<forall>s\<in>set steps. lo \<le> fst s"
  shows "awarded_between lo hi (fst (reward_run steps e)) \<le> unat (re_daily_cap e) - unat (re_today_earned e)"
  using assms
proof (induction steps arbitrary: e)
  case (Cons s steps)
  obtain now env c d where s: "s = (now, env, c, d)" by (cases s) auto
  obtain r e1 where p: "process_contribution now env c d e = (r, e1)" by force
  obtain awards e2 where run: "reward_run steps e1 = (awards, e2)" by force
  note st = process_step [OF p Cons.prems(1)]
  show ?case
  proof (cases "now \<le> hi")
    case True
    then have "\<not> now - re_last_reset e > 86400" using Cons.prems(2) by simp
    then have e1: "re_last_reset e1 = re_last_reset e" "unat (re_today_earned e1) = unat (re_today_earned e) + award_of r"
      using st(2,5) by (simp_all add: daily_reset_def)
    have "awarded_between lo hi (fst (reward_run steps e1)) \<le> unat (re_daily_cap e1) - unat (re_today_earned e1)"
      using Cons.prems(2-4) by (intro Cons.IH [OF st(3)]) (auto simp: e1)
    then show ?thesis using st(1,4) e1(2) run unfolding s reward_run_Cons [OF p run] by auto
  next
    case False
    then have "\<forall>x\<in>set steps. hi < fst x" using Cons.prems(3) s by auto
    then have "awarded_between lo hi (fst (reward_run steps e1)) = 0"
    proof (induction steps arbitrary: e1)
      case (Cons x steps)
      obtain n en c d where x: "x = (n, en, c, d)" by (cases x) auto
      obtain r e2 where p: "process_contribution n en c d e1 = (r, e2)" by force
      obtain aw e3 where run: "reward_run steps e2 = (aw, e3)" by force
      show ?case using Cons.IH [of e2] Cons.prems run unfolding x reward_run_Cons [OF p run] by (auto simp: x)
    qed (simp add: awarded_between_def)
    then show ?thesis using False run unfolding s reward_run_Cons [OF p run] by simp
  qed
qed (simp add: awarded_between_def)

lemma awards_with_reset:
  assumes "re_today_earned e \<le> re_daily_cap e" "hi - lo \<le> 86400"
    and "sorted_wrt (\<le>) (map fst steps)" "\<forall>s\<in>set steps. lo \<le> fst s"
  shows "awarded_between lo hi (fst (reward_run steps e)) \<le> 2 * unat (re_daily_cap e) - unat (re_today_earned e)"
  using assms
proof (induction steps arbitrary: e)
  case (Cons s steps)
  obtain now env c d where s: "s = (now, env, c, d)" by (cases s) auto
  obtain r e1 where p: "process_contribution now env c d e = (r, e1)" by force
  obtain awards e2 where run: "reward_run steps e1 = (awards, e2)" by force
  note st = process_step [OF p Cons.prems(1)]
  have cap: "unat (re_today_earned e) \<le> unat (re_daily_cap e)" using Cons.prems(1) by (simp add: word_le_nat_alt)
  have later: "sorted_wrt (\<le>) (map fst steps)" "\<forall>x\<in>set steps. lo \<le> fst x" "lo \<le> now" using Cons.prems(3,4) s by auto
  show ?case
  proof (cases "now - re_last_reset e > 86400")
    case True
    then have e1: "re_last_reset e1 = now" "unat (re_today_earned e1) = award_of r"
      using st(2,5) by (simp_all add: daily_reset_def)
    have "awarded_between lo hi (fst (reward_run steps e1)) \<le> unat (re_daily_cap e1) - unat (re_today_earned e1)"
      using Cons.prems(2) later by (intro awards_before_reset [OF st(3)]) (simp_all add: e1)
    then show ?thesis using st(1,4) e1(2) cap run unfolding s reward_run_Cons [OF p run] by auto
  next
    case False
    then have "unat (re_today_earned e1) = unat (re_today_earned e) + award_of r" using st(5) by (simp add: daily_reset_def)
    moreover have "awarded_between lo hi (fst (reward_run steps e1)) \<le> 2 * unat (re_daily_cap e1) - unat (re_today_earned e1)"
      using Cons.prems(2) later by (intro Cons.IH [OF st(3)]) simp_all
    ultimately show ?thesis using st(1,4) cap run unfolding s reward_run_Cons [OF p run] by auto
  qed
qed (simp add: awarded_between_def)

lemma burn_le: "(if xp < burn_amount xp then 0 else xp - burn_amount xp) \<le> xp"
  by (auto simp: word_le_nat_alt unat_sub not_less)

lemma lifetime_step:
  assumes "process_contribution now env contribution description e = (r, e')"
  shows "unat (wb_lifetime_earned (wl_balance (re_wallet e'))) \<le>
    unat (wb_lifetime_earned (wl_balance (re_wallet e))) + award_of r"
proof (cases "award_for contribution (daily_reset now e)")
  case (Inr xp)
  let ?net = "if xp < burn_amount xp then 0 else xp - burn_amount xp"
  have "unat (wb_lifetime_earned (wl_balance (re_wallet e)) + ?net) \<le> unat (wb_lifetime_earned (wl_balance (re_wallet e))) + unat xp"
    using unat_add_le [of "wb_lifetime_earned (wl_balance (re_wallet e))" ?net] burn_le [of xp, unfolded word_le_nat_alt]
    by linarith
  then show ?thesis using assms Inr
    by (auto simp: process_contribution_def Let_def award_of_def grant_award_def wallet_credit_def)
qed (use assms in \<open>auto simp: process_contribution_def Let_def award_of_def\<close>)

text \<open>When contributions are processed one after the other, by a clock that does not go back, the counter stays within
  the daily cap, the awards of any span of a day come to at most twice the cap, and the wallet earns at most what is
  awarded.\<close>

theorem daily_awards_bound:
  assumes "sorted_wrt (\<le>) (map fst steps)" and "re_today_earned e \<le> re_daily_cap e"
    and "reward_run steps e = (awards, e')"
  shows "re_today_earned e' \<le> re_daily_cap e \<and> awarded_between lo (lo + 86400) awards \<le> 2 * unat (re_daily_cap e)
    \<and> unat (wb_lifetime_earned (wl_balance (re_wallet e'))) \<le>
        unat (wb_lifetime_earned (wl_balance (re_wallet e))) + sum_list (map snd awards)"
  using assms
proof (induction steps arbitrary: e awards)
  case (Cons s steps)
  obtain now env c d where s: "s = (now, env, c, d)" by (cases s) auto
  obtain r e1 where p: "process_contribution now env c d e = (r, e1)" by force
  obtain aw e2 where run: "reward_run steps e1 = (aw, e2)" by force
  note st = process_step [OF p Cons.prems(2)]
  have e2: "e2 = e'" and awards: "sum_list (map snd awards) = award_of r + sum_list (map snd aw)"
    "awards = fst (reward_run (s # steps) e)"
    using Cons.prems(3) p run s by (auto simp: award_of_def split: sum.splits)
  have ih: "re_today_earned e' \<le> re_daily_cap e1" "awarded_between lo (lo + 86400) aw \<le> 2 * unat (re_daily_cap e1)"
    "unat (wb_lifetime_earned (wl_balance (re_wallet e'))) \<le>
        unat (wb_lifetime_earned (wl_balance (re_wallet e1))) + sum_list (map snd aw)"
    using Cons.IH [OF _ st(3), of aw] Cons.prems(1) run e2 by auto
  have "awarded_between lo (lo + 86400) awards \<le> 2 * unat (re_daily_cap e)"
  proof (cases "lo \<le> now")
    case True
    then have "\<forall>x\<in>set (s # steps). lo \<le> fst x" using Cons.prems(1) s by auto
    from awards_with_reset [OF Cons.prems(2) _ Cons.prems(1) this, of "lo + 86400"] show ?thesis by (simp add: awards(2))
  next
    case False
    then show ?thesis using ih(2) st(1) unfolding awards(2) s reward_run_Cons [OF p run] by simp
  qed
  then show ?case using ih(1,3) st(1) lifetime_step [OF p] awards(1) by simp
qed (simp add: awarded_between_def)

lemma daily_awards_bound_witness:
  "re_today_earned (snd (reward_run [(0, sample_token_env, DataValidated 3000, []), (5, sample_token_env, DataValidated 1, [])]
     (reward_engine_new 0 (token_wallet_new 0 [])))) \<le> 10000"
proof -
  let ?e = "reward_engine_new 0 (token_wallet_new 0 [])"
  let ?steps = "[(0 :: int, sample_token_env, DataValidated 3000, [] :: string), (5, sample_token_env, DataValidated 1, [])]"
  have "sorted_wrt (\<le>) (map fst ?steps)" "re_today_earned ?e \<le> re_daily_cap ?e" by (simp_all add: reward_engine_new_def)
  from daily_awards_bound [OF this prod.collapse [symmetric]] show ?thesis by (simp add: reward_engine_new_def)
qed

text \<open>Two contributions that both read the counter before either adds to it together exceed the cap.\<close>

lemma concurrent_awards_exceed_cap:
  assumes "award_for c1 e = Ok x1" "award_for c2 e = Ok x2"
    and "unat (re_today_earned e) + unat x1 + unat x2 < 2 ^ 64" "unat (re_daily_cap e) < unat (re_today_earned e) + unat x1 + unat x2"
  shows "re_daily_cap e < re_today_earned (grant_award env2 d2 x2 (grant_award env1 d1 x1 e))"
proof -
  have "unat (re_today_earned e + x1) = unat (re_today_earned e) + unat x1" using assms(3) by (intro unat_add_small) simp
  moreover have "unat (re_today_earned e + x1 + x2) = unat (re_today_earned e + x1) + unat x2"
    using assms(3) calculation by (intro unat_add_small) simp
  ultimately show ?thesis using assms(4) by (simp add: grant_award_def Let_def word_less_nat_alt)
qed

section \<open>Reputation\<close>

datatype accounting_op =
    OpContribution string "64 word" "64 word" "64 word"
  | OpConsumption string "64 word" "64 word" "64 word"
  | OpQuality string
  | OpPenalty string "32 word"

definition accounting_step :: "accounting_op \<Rightarrow> resource_accounting \<Rightarrow> resource_accounting" where
  "accounting_step op r = (case op of
     OpContribution n s b c \<Rightarrow> record_contribution n s b c r
   | OpConsumption n s b c \<Rightarrow> record_consumption n s b c r
   | OpQuality n \<Rightarrow> record_quality_contribution n r
   | OpPenalty n a \<Rightarrow> apply_penalty n a r)"

definition accounting_run :: "accounting_op list \<Rightarrow> resource_accounting \<Rightarrow> resource_accounting" where
  "accounting_run ops r = fold accounting_step ops r"

lemma ratio_bounds: "0 \<le> resource_ratio_score a b" "resource_ratio_score a b \<le> 1"
  by (simp_all add: resource_ratio_score_def fdiv_def)

lemma rnd_le_small: "0 \<le> x \<Longrightarrow> x \<le> numeral n \<Longrightarrow> (numeral n :: nat) \<le> 2 ^ 53 \<Longrightarrow> rnd x \<le> numeral n"
  using rnd_mono [of x "numeral n"] rnd_numeral [of n] by simp

lemma rnd_1: "rnd 1 = 1"
  using rnd_of_nat [of 1] by simp

lemma ratio_generous:
  assumes "b \<le> a"
  shows "5 / 8 \<le> resource_ratio_score a b"
proof (cases "b = 0")
  case False
  then have "0 < unat b" "unat b \<le> unat a" using assms by (simp_all add: word_le_nat_alt unat_gt_0)
  then have "0 < f64_of_nat (unat b)" "f64_of_nat (unat b) \<le> f64_of_nat (unat a)"
    by (simp_all add: f64_of_nat_pos f64_of_nat_mono)
  then have "1 \<le> f64_of_nat (unat a) / f64_of_nat (unat b)" by (simp add: le_divide_eq)
  then have "1 \<le> fdiv (f64_of_nat (unat a)) (f64_of_nat (unat b))" using rnd_mono [of 1] by (simp add: fdiv_def rnd_1)
  then show ?thesis using False by (simp add: resource_ratio_score_def)
qed (simp add: resource_ratio_score_def)

lemma ratio_consumer: "b \<noteq> 0 \<Longrightarrow> resource_ratio_score 0 b = 0"
  by (simp add: resource_ratio_score_def fdiv_def rnd_def [of 0])

text \<open>The base score as a number: at most 800, at least 500 with three ratios of 5/8, nothing with three of 0.\<close>

definition base_sum :: "peer_account \<Rightarrow> rat" where
  "base_sum a = fmul (fdiv (fadd (fadd (resource_ratio_score (pa_storage_contributed a) (pa_storage_consumed a))
     (resource_ratio_score (pa_bandwidth_contributed a) (pa_bandwidth_consumed a)))
     (resource_ratio_score (pa_compute_contributed a) (pa_compute_consumed a))) 3) 800"

lemma base_score_sum: "base_score a = of_nat (saturate 32 (base_sum a))"
  by (simp add: base_score_def base_sum_def Let_def)

lemma base_sum_le: "base_sum a \<le> 800"
proof -
  let ?s = "resource_ratio_score (pa_storage_contributed a) (pa_storage_consumed a)"
    and ?b = "resource_ratio_score (pa_bandwidth_contributed a) (pa_bandwidth_consumed a)"
    and ?c = "resource_ratio_score (pa_compute_contributed a) (pa_compute_consumed a)"
  have r: "0 \<le> ?s" "?s \<le> 1" "0 \<le> ?b" "?b \<le> 1" "0 \<le> ?c" "?c \<le> 1" by (simp_all add: ratio_bounds)
  have 1: "0 \<le> fadd ?s ?b" "fadd ?s ?b \<le> 2" using r by (auto simp: fadd_def intro!: rnd_le_small)
  then have 2: "0 \<le> fadd (fadd ?s ?b) ?c" "fadd (fadd ?s ?b) ?c \<le> 3"
    using r unfolding fadd_def [of "fadd ?s ?b"] by (auto intro!: rnd_le_small)
  then have 3: "0 \<le> fdiv (fadd (fadd ?s ?b) ?c) 3" "fdiv (fadd (fadd ?s ?b) ?c) 3 \<le> 1"
    using rnd_le_nat [of "fadd (fadd ?s ?b) ?c / 3" 1] by (auto simp: fdiv_def)
  then show ?thesis unfolding base_sum_def fmul_def by (intro rnd_le_small) auto
qed

lemma rnd_eighths: "rnd (5 / 4) = 5 / 4" "rnd (15 / 8) = 15 / 8" "rnd (5 / 8) = 5 / 8" "rnd 500 = 500"
  using rnd_dyadic [of 5 "-2"] rnd_dyadic [of 15 "-3"] rnd_dyadic [of 5 "-3"] rnd_dyadic [of 500 0]
  by (simp_all add: power_int_minus field_simps)

lemma base_sum_ge:
  assumes "5 / 8 \<le> resource_ratio_score (pa_storage_contributed a) (pa_storage_consumed a)"
    and "5 / 8 \<le> resource_ratio_score (pa_bandwidth_contributed a) (pa_bandwidth_consumed a)"
    and "5 / 8 \<le> resource_ratio_score (pa_compute_contributed a) (pa_compute_consumed a)"
  shows "500 \<le> base_sum a"
proof -
  let ?s = "resource_ratio_score (pa_storage_contributed a) (pa_storage_consumed a)"
    and ?b = "resource_ratio_score (pa_bandwidth_contributed a) (pa_bandwidth_consumed a)"
    and ?c = "resource_ratio_score (pa_compute_contributed a) (pa_compute_consumed a)"
  have 1: "5 / 4 \<le> fadd ?s ?b" using rnd_mono [of "5 / 4" "?s + ?b"] assms by (simp add: fadd_def rnd_eighths)
  then have 2: "15 / 8 \<le> fadd (fadd ?s ?b) ?c"
    using rnd_mono [of "15 / 8" "fadd ?s ?b + ?c"] assms by (simp add: fadd_def [of "fadd ?s ?b"] rnd_eighths)
  then have 3: "5 / 8 \<le> fdiv (fadd (fadd ?s ?b) ?c) 3"
    using rnd_mono [of "5 / 8" "fadd (fadd ?s ?b) ?c / 3"] by (simp add: fdiv_def rnd_eighths)
  then show ?thesis
    using rnd_mono [of 500 "fdiv (fadd (fadd ?s ?b) ?c) 3 * 800"] unfolding base_sum_def fmul_def by (simp add: rnd_eighths)
qed

lemma base_score_bounds:
  "unat (base_score a) \<le> 800" "500 \<le> base_sum a \<Longrightarrow> 500 \<le> unat (base_score a)" "base_sum a = 0 \<Longrightarrow> base_score a = 0"
proof -
  have "saturate 32 (base_sum a) \<le> saturate 32 800" by (rule saturate_mono [OF base_sum_le])
  then have le: "saturate 32 (base_sum a) \<le> 800" by (simp add: saturate_def)
  then have u: "unat (base_score a) = saturate 32 (base_sum a)"
    unfolding base_score_sum by (simp add: unat_of_nat take_bit_nat_eq_self)
  then show "unat (base_score a) \<le> 800" using le by simp
  show "500 \<le> unat (base_score a)" if "500 \<le> base_sum a"
    using saturate_mono [OF that, of 32] u by (simp add: saturate_def [of _ 500])
  show "base_score a = 0" if "base_sum a = 0" using that by (simp add: base_score_sum saturate_def)
qed

lemma quality_bonus_le: "unat (quality_bonus a) \<le> 200"
proof -
  have "quality_bonus a \<le> 200" by (simp add: quality_bonus_def)
  then show ?thesis by (simp add: word_le_nat_alt)
qed

lemma reputation_value:
  "unat (pa_reputation_score (update_reputation a)) =
     unat (base_score a) + unat (quality_bonus a) - unat (pa_manual_penalties a)"
proof -
  have "unat (base_score a) + unat (quality_bonus a) \<le> 1000"
    using base_score_bounds(1) [of a] quality_bonus_le [of a] by simp
  then have "unat (base_score a + quality_bonus a) = unat (base_score a) + unat (quality_bonus a)"
    using unat_add_lem [of "base_score a" "quality_bonus a"] by simp
  then show ?thesis
    using \<open>unat (base_score a) + unat (quality_bonus a) \<le> 1000\<close>
    by (auto simp: update_reputation_def Let_def min_def word_le_nat_alt word_less_nat_alt unat_sub not_less)
qed

lemma update_reputation_again:
  "update_reputation (update_reputation a) = update_reputation a"
proof -
  obtain s where s: "update_reputation a = a\<lparr> pa_reputation_score := s \<rparr>" by (simp add: update_reputation_def Let_def)
  have "base_score (a\<lparr> pa_reputation_score := s \<rparr>) = base_score a" "quality_bonus (a\<lparr> pa_reputation_score := s \<rparr>) = quality_bonus a"
    by (simp_all add: base_score_def quality_bonus_def)
  then have "update_reputation (a\<lparr> pa_reputation_score := s \<rparr>) = update_reputation a"
    by (simp add: update_reputation_def [of "a\<lparr> pa_reputation_score := s \<rparr>"] update_reputation_def [of a] Let_def)
  then show ?thesis using s by simp
qed

lemma accounting_invariant:
  assumes "r = accounting_run ops accounting_new" "hget (ra_accounts r) node = Some a"
  shows "a = update_reputation a" "ra_penalty_threshold r = 300"
proof -
  let ?I = "\<lambda>r. ra_penalty_threshold r = 300 \<and> (\<forall>n a. hget (ra_accounts r) n = Some a \<longrightarrow> a = update_reputation a)"
  have step: "?I (accounting_step op r)" if "?I r" for op r
    using that
    by (auto simp: accounting_step_def record_contribution_def record_consumption_def record_quality_contribution_def
        apply_penalty_def Let_def update_reputation_again split: accounting_op.split)
  have "?I r \<Longrightarrow> ?I (accounting_run ops r)" for r
  proof (induction ops arbitrary: r)
    case (Cons op ops)
    show ?case using Cons.IH [OF step [OF Cons.prems]] by (simp add: accounting_run_def)
  qed (simp add: accounting_run_def)
  moreover have "?I accounting_new" by (simp add: accounting_new_def)
  ultimately have "?I r" using assms(1) by blast
  then show "a = update_reputation a" "ra_penalty_threshold r = 300" using assms(2) by blast+
qed

text \<open>After any accounting operations the score of a peer is the sum of its base score of at most 800 and a bonus of at
  most 200, less its penalties; a peer without penalties that consumed no more than it contributed of each resource has
  at least the 500 of a new peer and is no freeloader; one that only consumed, of each resource, is one.\<close>

theorem reputation_spec:
  fixes r :: resource_accounting
  assumes "r = accounting_run ops accounting_new" and "hget (ra_accounts r) node = Some a"
  shows "unat (pa_reputation_score a) = unat (base_score a) + unat (quality_bonus a) - unat (pa_manual_penalties a)
    \<and> unat (base_score a) \<le> 800 \<and> unat (quality_bonus a) \<le> 200
    \<and> (pa_storage_consumed a \<le> pa_storage_contributed a \<and> pa_bandwidth_consumed a \<le> pa_bandwidth_contributed a
        \<and> pa_compute_consumed a \<le> pa_compute_contributed a \<and> pa_manual_penalties a = 0
        \<longrightarrow> 500 \<le> unat (pa_reputation_score a) \<and> \<not> is_freeloader node r)
    \<and> (pa_storage_contributed a = 0 \<and> pa_bandwidth_contributed a = 0 \<and> pa_compute_contributed a = 0
        \<and> pa_storage_consumed a \<noteq> 0 \<and> pa_bandwidth_consumed a \<noteq> 0 \<and> pa_compute_consumed a \<noteq> 0 \<longrightarrow> is_freeloader node r)"
proof -
  note inv = accounting_invariant [OF assms]
  have score: "unat (pa_reputation_score a) = unat (base_score a) + unat (quality_bonus a) - unat (pa_manual_penalties a)"
    using reputation_value [of a] inv(1) by simp
  have free: "is_freeloader node r \<longleftrightarrow> unat (pa_reputation_score a) < 300"
    using assms(2) inv(2) by (simp add: is_freeloader_def word_less_nat_alt)
  have "500 \<le> base_sum a" if "pa_storage_consumed a \<le> pa_storage_contributed a"
    "pa_bandwidth_consumed a \<le> pa_bandwidth_contributed a" "pa_compute_consumed a \<le> pa_compute_contributed a"
    using that by (intro base_sum_ge ratio_generous)
  moreover have "base_sum a = 0" if "pa_storage_contributed a = 0" "pa_bandwidth_contributed a = 0" "pa_compute_contributed a = 0"
    "pa_storage_consumed a \<noteq> 0" "pa_bandwidth_consumed a \<noteq> 0" "pa_compute_consumed a \<noteq> 0"
    using that by (simp add: base_sum_def ratio_consumer fadd_def fdiv_def fmul_def rnd_def [of 0])
  ultimately show ?thesis
    using score free base_score_bounds [of a] quality_bonus_le [of a] by auto
qed

lemma reputation_spec_witness:
  "\<not> is_freeloader ''a'' (accounting_run [OpContribution ''a'' 10 0 0, OpConsumption ''a'' 10 0 0, OpQuality ''a''] accounting_new)"
proof -
  let ?ops = "[OpContribution ''a'' 10 0 0, OpConsumption ''a'' 10 0 0, OpQuality ''a'']"
  let ?r = "accounting_run ?ops accounting_new"
  obtain a where a: "hget (ra_accounts ?r) ''a'' = Some a" "pa_storage_consumed a = 10" "pa_storage_contributed a = 10"
    "pa_bandwidth_consumed a = 0" "pa_compute_consumed a = 0" "pa_manual_penalties a = 0"
    by (simp add: accounting_run_def accounting_step_def record_contribution_def record_consumption_def
        record_quality_contribution_def accounting_new_def get_account_def peer_account_new_def update_reputation_def Let_def)
  show ?thesis using reputation_spec [OF refl a(1)] a(2-6) by simp
qed

end
