(* ===== verification/MeshNetworks.thy ===== *)
theory MeshNetworks
  imports Prelude
begin

text \<open>Networks of the mesh with their access lists: \<open>src/src/mesh/network.rs\<close>, and the permissions of
  \<open>src/src/enterprise/rbac.rs\<close> they use. The clock and fresh identifiers are arguments. Shown: who is permitted what, and
  that pruning the list of grants changes no answer at the time of the pruning or later.\<close>

datatype permission = PmRead | PmWrite | PmDelete | PmShare | PmManage

section \<open>Grants\<close>

record cross_grant =
  cg_id :: string
  cg_resource_id :: string
  cg_target_node :: string
  cg_permission :: permission
  cg_expires_at :: "int option"
  cg_revoked :: bool
  cg_created_at :: int

definition grant_is_active :: "int \<Rightarrow> cross_grant \<Rightarrow> bool" where
  "grant_is_active now g =
     (if cg_revoked g then False
      else case cg_expires_at g of Some e \<Rightarrow> \<not> e < now | None \<Rightarrow> True)"

record network_acl =
  na_default_permission :: "permission option"
  na_grants :: "cross_grant list"

fun grants_permit :: "int \<Rightarrow> string \<Rightarrow> string \<Rightarrow> permission \<Rightarrow> cross_grant list \<Rightarrow> bool" where
  "grants_permit now node resource required [] = False"
| "grants_permit now node resource required (g # gs) =
     (if cg_target_node g = node \<and> cg_resource_id g = resource \<and> cg_permission g = required \<and> grant_is_active now g then True
      else if cg_target_node g = node \<and> cg_resource_id g = ''*'' \<and> cg_permission g = required \<and> grant_is_active now g then True
      else grants_permit now node resource required gs)"

definition acl_has_permission :: "int \<Rightarrow> network_acl \<Rightarrow> string \<Rightarrow> string \<Rightarrow> permission \<Rightarrow> bool" where
  "acl_has_permission now acl node resource required = grants_permit now node resource required (na_grants acl)"

section \<open>Networks\<close>

record mesh_network =
  mn_id :: string
  mn_name :: string
  mn_owner_node :: string
  mn_members :: "string list"
  mn_acl :: network_acl
  mn_created_at :: int
  mn_updated_at :: int

definition create_network :: "int \<Rightarrow> string \<Rightarrow> string \<Rightarrow> string \<Rightarrow> mesh_network" where
  "create_network now nid name owner_node =
     \<lparr> mn_id = nid, mn_name = name, mn_owner_node = owner_node, mn_members = [owner_node],
       mn_acl = \<lparr> na_default_permission = None, na_grants = [] \<rparr>, mn_created_at = now, mn_updated_at = now \<rparr>"

definition network_add_member :: "int \<Rightarrow> string \<Rightarrow> mesh_network \<Rightarrow> (unit, string) result \<times> mesh_network" where
  "network_add_member now node_id net =
     (if node_id \<in> set (mn_members net)
      then (Err (''Node '' @ node_id @ '' is already a member of network '' @ mn_id net), net)
      else (Ok (), net\<lparr> mn_members := mn_members net @ [node_id], mn_updated_at := now \<rparr>))"

definition network_remove_member :: "int \<Rightarrow> string \<Rightarrow> mesh_network \<Rightarrow> (unit, string) result \<times> mesh_network" where
  "network_remove_member now node_id net =
     (if node_id = mn_owner_node net
      then (Err (''Cannot remove owner node '' @ node_id @ '' from network '' @ mn_id net), net)
      else if node_id \<notin> set (mn_members net)
      then (Err (''Node '' @ node_id @ '' is not a member of network '' @ mn_id net), net)
      else (Ok (), net\<lparr> mn_members := remove1 node_id (mn_members net), mn_updated_at := now \<rparr>))"

definition grant_cross :: "int \<Rightarrow> string \<Rightarrow> string \<Rightarrow> string \<Rightarrow> permission \<Rightarrow> int option \<Rightarrow> mesh_network \<Rightarrow> cross_grant \<times> mesh_network" where
  "grant_cross now ulid resource_id target_node perm expires_at net =
     (let g = \<lparr> cg_id = ulid, cg_resource_id = resource_id, cg_target_node = target_node, cg_permission = perm,
                cg_expires_at = expires_at, cg_revoked = False, cg_created_at = now \<rparr>
      in (g, net\<lparr> mn_acl := (mn_acl net)\<lparr> na_grants := na_grants (mn_acl net) @ [g] \<rparr>, mn_updated_at := now \<rparr>))"

fun revoke_first :: "string \<Rightarrow> cross_grant list \<Rightarrow> cross_grant list" where
  "revoke_first gid [] = []"
| "revoke_first gid (g # gs) = (if cg_id g = gid then g\<lparr> cg_revoked := True \<rparr> # gs else g # revoke_first gid gs)"

definition network_revoke_grant :: "int \<Rightarrow> string \<Rightarrow> mesh_network \<Rightarrow> (unit, string) result \<times> mesh_network" where
  "network_revoke_grant now gid net = (case find (\<lambda>g. cg_id g = gid) (na_grants (mn_acl net)) of
     None \<Rightarrow> (Err (''Grant '' @ gid @ '' not found in network '' @ mn_id net), net)
   | Some g \<Rightarrow>
       (if cg_revoked g then (Err (''Grant '' @ gid @ '' is already revoked''), net)
        else (Ok (), net\<lparr> mn_acl := (mn_acl net)\<lparr> na_grants := revoke_first gid (na_grants (mn_acl net)) \<rparr>,
                         mn_updated_at := now \<rparr>)))"

definition check_permission :: "int \<Rightarrow> mesh_network \<Rightarrow> string \<Rightarrow> string \<Rightarrow> permission \<Rightarrow> bool" where
  "check_permission now net node resource perm =
     (if node = mn_owner_node net then True
      else if acl_has_permission now (mn_acl net) node resource perm then True
      else if node \<in> set (mn_members net) then
        (case na_default_permission (mn_acl net) of Some d \<Rightarrow> d = perm | None \<Rightarrow> False)
      else False)"

definition check_permission_bool :: "int \<Rightarrow> mesh_network \<Rightarrow> string \<Rightarrow> string \<Rightarrow> bool" where
  "check_permission_bool now net node resource = check_permission now net node resource PmRead"

definition prune_keeps :: "int \<Rightarrow> cross_grant \<Rightarrow> bool" where
  "prune_keeps now g = (if cg_revoked g then False
     else case cg_expires_at g of Some e \<Rightarrow> (if e < now then False else True) | None \<Rightarrow> True)"

definition prune_expired_grants :: "int \<Rightarrow> mesh_network \<Rightarrow> nat \<times> mesh_network" where
  "prune_expired_grants now net =
     (let kept = filter (prune_keeps now) (na_grants (mn_acl net))
      in (length (na_grants (mn_acl net)) - length kept,
          net\<lparr> mn_acl := (mn_acl net)\<lparr> na_grants := kept \<rparr>, mn_updated_at := now \<rparr>))"

section \<open>The registry\<close>

type_synonym network_registry = "(string, mesh_network) hmap"

definition networks_create :: "int \<Rightarrow> string \<Rightarrow> string \<Rightarrow> string \<Rightarrow> network_registry \<Rightarrow> (mesh_network, string) result \<times> network_registry" where
  "networks_create now nid name owner_node reg =
     (if hmem reg nid then (Err (''Network '' @ nid @ '' already exists''), reg)
      else let net = create_network now nid name owner_node in (Ok net, hput nid net reg))"

definition networks_get :: "string \<Rightarrow> network_registry \<Rightarrow> mesh_network option" where
  "networks_get nid reg = hget reg nid"

definition list_for_node :: "string \<Rightarrow> network_registry \<Rightarrow> mesh_network list" where
  "list_for_node node reg = filter (\<lambda>n. node \<in> set (mn_members n) \<or> mn_owner_node n = node) (hvalues reg)"

definition networks_all :: "network_registry \<Rightarrow> mesh_network list" where
  "networks_all reg = hvalues reg"

section \<open>Who is permitted what\<close>

lemma grants_permit_iff:
  "grants_permit now node resource p gs \<longleftrightarrow> (\<exists>g\<in>set gs. cg_target_node g = node
     \<and> (cg_resource_id g = resource \<or> cg_resource_id g = ''*'') \<and> cg_permission g = p \<and> grant_is_active now g)"
  by (induction gs) auto

lemma check_permission_iff:
  "check_permission now net node resource p \<longleftrightarrow> node = mn_owner_node net
     \<or> (\<exists>g\<in>set (na_grants (mn_acl net)). cg_target_node g = node
          \<and> (cg_resource_id g = resource \<or> cg_resource_id g = ''*'') \<and> cg_permission g = p \<and> grant_is_active now g)
     \<or> (node \<in> set (mn_members net) \<and> na_default_permission (mn_acl net) = Some p)"
  by (auto simp: check_permission_def acl_has_permission_def grants_permit_iff split: option.splits)

lemma active_is_kept: "now \<le> t \<Longrightarrow> grant_is_active t g \<Longrightarrow> prune_keeps now g"
  by (auto simp: prune_keeps_def grant_is_active_def split: option.splits if_splits)

lemma revoke_first_active:
  "distinct (map cg_id gs) \<Longrightarrow>
   x \<in> set (revoke_first gid gs) \<and> grant_is_active t x \<longleftrightarrow> x \<in> set gs \<and> cg_id x \<noteq> gid \<and> grant_is_active t x"
proof (induction gs)
  case (Cons h gs)
  show ?case
  proof (cases "cg_id h = gid")
    case True
    then have "\<forall>y\<in>set gs. cg_id y \<noteq> gid" using Cons.prems by (auto simp: image_iff)
    then show ?thesis using True by (auto simp: grant_is_active_def)
  next
    case False
    then show ?thesis using Cons by (auto simp: image_iff)
  qed
qed simp

text \<open>A node is permitted exactly what it owns, what an active grant to it names (for the resource or for all), and,
  as a member, the default permission; pruning the grants changes no answer at that time or later; and a revoked grant
  permits nothing any more while the other grants permit what they did.\<close>

theorem network_permissions_spec:
  assumes "now \<le> t" "distinct (map cg_id (na_grants (mn_acl net)))"
    and "network_revoke_grant now gid net = (Ok (), net')"
  shows "(check_permission t net node resource p \<longleftrightarrow> node = mn_owner_node net
      \<or> (\<exists>g\<in>set (na_grants (mn_acl net)). cg_target_node g = node
           \<and> (cg_resource_id g = resource \<or> cg_resource_id g = ''*'') \<and> cg_permission g = p \<and> grant_is_active t g)
      \<or> (node \<in> set (mn_members net) \<and> na_default_permission (mn_acl net) = Some p))
    \<and> (check_permission t (snd (prune_expired_grants now net)) node resource p \<longleftrightarrow> check_permission t net node resource p)
    \<and> (check_permission t net' node resource p \<longleftrightarrow>
        check_permission t (net\<lparr> mn_acl := (mn_acl net)\<lparr> na_grants := filter (\<lambda>g. cg_id g \<noteq> gid) (na_grants (mn_acl net)) \<rparr> \<rparr>)
          node resource p)"
proof -
  have net': "mn_owner_node net' = mn_owner_node net" "mn_members net' = mn_members net"
    "mn_acl net' = (mn_acl net)\<lparr> na_grants := revoke_first gid (na_grants (mn_acl net)) \<rparr>"
    using assms(3) by (auto simp: network_revoke_grant_def split: option.splits if_splits)
  have "check_permission t (snd (prune_expired_grants now net)) node resource p \<longleftrightarrow> check_permission t net node resource p"
    using active_is_kept [OF assms(1)] by (auto simp: check_permission_iff prune_expired_grants_def Let_def)
  moreover have "check_permission t net' node resource p \<longleftrightarrow>
        check_permission t (net\<lparr> mn_acl := (mn_acl net)\<lparr> na_grants := filter (\<lambda>g. cg_id g \<noteq> gid) (na_grants (mn_acl net)) \<rparr> \<rparr>)
          node resource p"
    unfolding check_permission_iff net' using revoke_first_active [OF assms(2), of _ gid t] by simp blast
  ultimately show ?thesis using check_permission_iff by blast
qed

text \<open>A node that was given read access to everything and lost it, and another that keeps it.\<close>

definition sample_network :: mesh_network where
  "sample_network = snd (grant_cross 0 ''g2'' ''doc'' ''bob'' PmRead None (snd (grant_cross 0 ''g1'' ''*'' ''eve'' PmRead (Some 9)
     (create_network 0 ''n'' ''net'' ''ann''))))"

theorem network_permissions_spec_witness:
  "check_permission 5 sample_network ''eve'' ''doc'' PmRead
   \<and> \<not> check_permission 5 (snd (network_revoke_grant 4 ''g1'' sample_network)) ''eve'' ''doc'' PmRead"
proof
  show "check_permission 5 sample_network ''eve'' ''doc'' PmRead" by code_simp
  have d: "distinct (map cg_id (na_grants (mn_acl sample_network)))" by code_simp
  have r: "network_revoke_grant 4 ''g1'' sample_network = (Ok (), snd (network_revoke_grant 4 ''g1'' sample_network))"
    by code_simp
  have "check_permission 5 (snd (network_revoke_grant 4 ''g1'' sample_network)) ''eve'' ''doc'' PmRead
    \<longleftrightarrow> check_permission 5 (sample_network\<lparr> mn_acl := (mn_acl sample_network)\<lparr> na_grants :=
          filter (\<lambda>g. cg_id g \<noteq> ''g1'') (na_grants (mn_acl sample_network)) \<rparr> \<rparr>) ''eve'' ''doc'' PmRead"
    by (rule conjunct2 [OF conjunct2 [OF network_permissions_spec [OF _ d r]]]) simp
  moreover have "\<not> check_permission 5 (sample_network\<lparr> mn_acl := (mn_acl sample_network)\<lparr> na_grants :=
          filter (\<lambda>g. cg_id g \<noteq> ''g1'') (na_grants (mn_acl sample_network)) \<rparr> \<rparr>) ''eve'' ''doc'' PmRead"
    by code_simp
  ultimately show "\<not> check_permission 5 (snd (network_revoke_grant 4 ''g1'' sample_network)) ''eve'' ''doc'' PmRead"
    by blast
qed

text \<open>A member that is removed keeps the grants that name it.\<close>

lemma removed_member_keeps_grants:
  "check_permission t (snd (network_remove_member now node net)) node resource p \<longleftrightarrow>
   (if fst (network_remove_member now node net) = Ok () \<and> node \<notin> set (remove1 node (mn_members net))
    then acl_has_permission t (mn_acl net) node resource p else check_permission t net node resource p)"
  by (auto simp: network_remove_member_def check_permission_def acl_has_permission_def dest: set_remove1_subset [THEN subsetD]
      split: option.splits if_splits)

end
