(* ===== verification/SpaceStore.thy ===== *)
theory SpaceStore
  imports TextCodes "HOL-Library.List_Lexorder" "HOL-Library.Char_ord" "HOL-Library.Product_Lexorder"
begin

text \<open>The database of one shared space: \<open>src/src/espacio/store.rs\<close> (members, invitations, channel messages), the roles
  of \<open>permissions.rs\<close> and \<open>invite.rs\<close>, the messages of \<open>channel.rs\<close> and the cutoff of \<open>retention.rs\<close>. A table is
  the list of its rows with the text the code stores in them; a statement that breaks a key constraint is the error
  \<open>SpDatabase\<close>. Time is in nanoseconds; its text form with nanoseconds reads back exactly and sorts like the time.
  Shown: the tables keep their keys, a channel is read in the order of strictly increasing numbers, retention keeps the
  newest message, and a replica that merges what another store reads out holds the same log.\<close>

section \<open>Roles and actions\<close>

datatype space_role = SrAdmin | SrModerator | SrMember | SrReader

datatype space_action = SaRead | SaWrite | SaManageMembers | SaAdmin

definition role_str :: "space_role \<Rightarrow> string" where
  "role_str r = (case r of SrAdmin \<Rightarrow> ''admin'' | SrModerator \<Rightarrow> ''moderator'' | SrMember \<Rightarrow> ''member'' | SrReader \<Rightarrow> ''reader'')"

fun can :: "space_role \<Rightarrow> space_action \<Rightarrow> bool" where
  "can SrAdmin _ = True"
| "can SrModerator SaRead = True"
| "can SrModerator SaWrite = True"
| "can SrModerator SaManageMembers = True"
| "can SrModerator SaAdmin = False"
| "can SrMember SaRead = True"
| "can SrMember SaWrite = True"
| "can SrMember SaManageMembers = False"
| "can SrMember SaAdmin = False"
| "can SrReader SaRead = True"
| "can SrReader SaWrite = False"
| "can SrReader SaManageMembers = False"
| "can SrReader SaAdmin = False"

section \<open>Errors and identifiers\<close>

datatype keys_error =
    KeLocked string | KeAuthFailed | KeNoWrapper string | KeNoKeystore string | KeAlreadyExists string
  | KeKeystoreMissing string | KeCorrupt string | KeWeakPassword string | KeBadRecoveryCode

datatype space_err =
    SpAlreadyExists string | SpNotFound string | SpInvalidId string | SpInvalidProtocol string | SpStorage string
  | SpMembersCap string "32 word" | SpKeys keys_error | SpMsg string | SpDatabase

definition is_alnum :: "char \<Rightarrow> bool" where
  "is_alnum c = (let n = of_char c :: nat in (48 \<le> n \<and> n \<le> 57) \<or> (65 \<le> n \<and> n \<le> 90) \<or> (97 \<le> n \<and> n \<le> 122))"

definition id_char :: "char \<Rightarrow> bool" where
  "id_char c = (is_alnum c \<or> c = CHR ''-'' \<or> c = CHR ''_'')"

definition validate_space_id :: "string \<Rightarrow> (unit, space_err) result" where
  "validate_space_id i = (if i = [] \<or> 64 < length i \<or> \<not> list_all id_char i then Err (SpInvalidId i) else Ok ())"

definition role_from :: "string \<Rightarrow> (space_role, space_err) result" where
  "role_from s = (if s = ''admin'' then Ok SrAdmin else if s = ''moderator'' then Ok SrModerator
     else if s = ''member'' then Ok SrMember else if s = ''reader'' then Ok SrReader
     else Err (SpMsg (''unknown role '' @ s)))"

lemma role_from_str [simp]: "role_from (role_str r) = Ok r"
  by (cases r) (simp_all add: role_from_def role_str_def)

lemma role_from_OkD: "role_from s = Ok r \<Longrightarrow> s = role_str r"
  by (auto simp: role_from_def role_str_def split: if_splits)

text \<open>\<open>collect\<close> into a \<open>Result\<close>: the first error, or all values.\<close>

fun collect_results :: "('a, 'e) result list \<Rightarrow> ('a list, 'e) result" where
  "collect_results [] = Ok []"
| "collect_results (Err e # rs) = Err e"
| "collect_results (Ok x # rs) = (case collect_results rs of Err e \<Rightarrow> Err e | Ok xs \<Rightarrow> Ok (x # xs))"

lemma collect_results_map_Ok [simp]: "collect_results (map (\<lambda>x. Ok (f x)) xs) = Ok (map f xs)"
  by (induction xs) auto

lemma collect_results_Ok: "(\<And>x. x \<in> set xs \<Longrightarrow> f x = Ok (g x)) \<Longrightarrow> collect_results (map f xs) = Ok (map g xs)"
  by (induction xs) auto

lemma collect_results_ErrI: "Err e \<in> set rs \<Longrightarrow> \<exists>e'. collect_results rs = Err e'"
proof (induction rs)
  case (Cons r rs)
  then show ?case by (cases r) (auto split: sum.splits)
qed simp

section \<open>Tables\<close>

record member_row =
  mr_node_id :: string
  mr_role :: string
  mr_joined_at :: int

record space_membership =
  sm_node_id :: string
  sm_role :: space_role
  sm_joined_at :: int

record invite_row =
  ir_id :: string
  ir_space_id :: string
  ir_inviter_node :: string
  ir_target_node :: string
  ir_role :: string
  ir_created_at :: int
  ir_expires_at :: int
  ir_signature :: "string option"
  ir_revoked :: bool

record space_invite =
  si_id :: string
  si_space_id :: string
  si_inviter_node :: string
  si_target_node :: string
  si_role :: space_role
  si_created_at :: int
  si_expires_at :: int
  si_signature :: "string option"
  si_revoked :: bool

record message_row =
  ms_seq :: int
  ms_space_id :: string
  ms_author :: string
  ms_content :: string
  ms_created_at :: int

record channel_message =
  ch_seq :: "64 word"
  ch_space_id :: string
  ch_author :: string
  ch_content :: string
  ch_created_at :: int

record token_row =
  tk_token_id :: string
  tk_hash :: string
  tk_member_id :: string
  tk_role :: string
  tk_created_at :: int
  tk_expires_at :: "int option"
  tk_revoked :: bool

record link_row =
  lk_id :: string
  lk_resource_id :: string
  lk_target_node :: string
  lk_permission :: string
  lk_expires_at :: "int option"
  lk_revoked :: bool
  lk_created_at :: int
  lk_namespace :: "string option"
  lk_path_prefix :: "string option"

record space_db =
  db_members :: "member_row list"
  db_invites :: "invite_row list"
  db_messages :: "message_row list"
  db_meta :: "(string, string) hmap"
  db_tokens :: "token_row list"
  db_links :: "link_row list"

definition empty_db :: space_db where
  "empty_db = \<lparr> db_members = [], db_invites = [], db_messages = [], db_meta = [], db_tokens = [], db_links = [] \<rparr>"

section \<open>The encryption flag\<close>

definition encryption_flag :: "space_db \<Rightarrow> bool" where
  "encryption_flag db = (hget (db_meta db) ''encryption'' = Some ''1'')"

definition mark_encryption :: "bool \<Rightarrow> space_db \<Rightarrow> space_db" where
  "mark_encryption enabled db =
     (if enabled then db\<lparr> db_meta := hput ''encryption'' ''1'' (db_meta db) \<rparr>
      else if hmem (db_meta db) ''encryption'' then db
      else db\<lparr> db_meta := hput ''encryption'' ''0'' (db_meta db) \<rparr>)"

section \<open>Members\<close>

definition membership_of :: "member_row \<Rightarrow> (space_membership, space_err) result" where
  "membership_of r = (case role_from (mr_role r) of
     Err e \<Rightarrow> Err e
   | Ok role \<Rightarrow> Ok \<lparr> sm_node_id = mr_node_id r, sm_role = role, sm_joined_at = mr_joined_at r \<rparr>)"

definition member :: "string \<Rightarrow> space_db \<Rightarrow> (space_membership option, space_err) result" where
  "member node_id db = (case find (\<lambda>r. mr_node_id r = node_id) (db_members db) of
     None \<Rightarrow> Ok None
   | Some r \<Rightarrow> (case membership_of r of Err e \<Rightarrow> Err e | Ok m \<Rightarrow> Ok (Some m)))"

definition is_member_row :: "string \<Rightarrow> space_db \<Rightarrow> bool" where
  "is_member_row node_id db = list_ex (\<lambda>r. mr_node_id r = node_id) (db_members db)"

definition space_add_member :: "int \<Rightarrow> string \<Rightarrow> space_role \<Rightarrow> space_db \<Rightarrow> (space_membership, space_err) result \<times> space_db" where
  "space_add_member now node_id role db =
     (let rows = (if is_member_row node_id db
                  then map (\<lambda>r. if mr_node_id r = node_id then r\<lparr> mr_role := role_str role \<rparr> else r) (db_members db)
                  else db_members db @ [\<lparr> mr_node_id = node_id, mr_role = role_str role, mr_joined_at = now \<rparr>]);
          db' = db\<lparr> db_members := rows \<rparr>
      in (case member node_id db' of
            Err e \<Rightarrow> Err e
          | Ok None \<Rightarrow> Err (SpMsg (''member '' @ node_id @ '' vanished''))
          | Ok (Some m) \<Rightarrow> Ok m, db'))"

definition space_remove_member :: "string \<Rightarrow> space_db \<Rightarrow> bool \<times> space_db" where
  "space_remove_member node_id db =
     (is_member_row node_id db, db\<lparr> db_members := filter (\<lambda>r. mr_node_id r \<noteq> node_id) (db_members db) \<rparr>)"

definition members :: "space_db \<Rightarrow> (space_membership list, space_err) result" where
  "members db = collect_results (map membership_of
     (sort_key (\<lambda>r. (mr_joined_at r, mr_node_id r)) (db_members db)))"

section \<open>Invitations\<close>

definition invite_row_of :: "space_invite \<Rightarrow> invite_row" where
  "invite_row_of invite =
     \<lparr> ir_id = si_id invite, ir_space_id = si_space_id invite, ir_inviter_node = si_inviter_node invite,
       ir_target_node = si_target_node invite, ir_role = role_str (si_role invite), ir_created_at = si_created_at invite,
       ir_expires_at = si_expires_at invite, ir_signature = si_signature invite, ir_revoked = si_revoked invite \<rparr>"

definition insert_invite :: "space_invite \<Rightarrow> space_db \<Rightarrow> (unit, space_err) result \<times> space_db" where
  "insert_invite invite db =
     (if list_ex (\<lambda>r. ir_id r = si_id invite) (db_invites db) then (Err SpDatabase, db)
      else (Ok (), db\<lparr> db_invites := db_invites db @ [invite_row_of invite] \<rparr>))"

definition build_invite :: "invite_row \<Rightarrow> (space_invite, space_err) result" where
  "build_invite r = (case role_from (ir_role r) of
     Err e \<Rightarrow> Err e
   | Ok role \<Rightarrow> Ok \<lparr> si_id = ir_id r, si_space_id = ir_space_id r, si_inviter_node = ir_inviter_node r,
       si_target_node = ir_target_node r, si_role = role, si_created_at = ir_created_at r,
       si_expires_at = ir_expires_at r, si_signature = ir_signature r, si_revoked = ir_revoked r \<rparr>)"

definition get_invite :: "string \<Rightarrow> space_db \<Rightarrow> (space_invite option, space_err) result" where
  "get_invite i db = (case find (\<lambda>r. ir_id r = i) (db_invites db) of
     None \<Rightarrow> Ok None
   | Some r \<Rightarrow> (case build_invite r of Err e \<Rightarrow> Err e | Ok invite \<Rightarrow> Ok (Some invite)))"

definition list_invites :: "space_db \<Rightarrow> (space_invite list, space_err) result" where
  "list_invites db = collect_results (map build_invite (sort_key (\<lambda>r. (ir_created_at r, ir_id r)) (db_invites db)))"

definition invite_ids :: "space_db \<Rightarrow> string list" where
  "invite_ids db = map ir_id (db_invites db)"

datatype revoke_outcome = RoRevoked | RoAlreadyRevoked | RoNotFound

definition mark_invite_revoked :: "string \<Rightarrow> space_db \<Rightarrow> space_db" where
  "mark_invite_revoked i db = db\<lparr> db_invites :=
     map (\<lambda>r. if ir_id r = i then r\<lparr> ir_revoked := True \<rparr> else r) (db_invites db) \<rparr>"

definition revoke_invite :: "string \<Rightarrow> space_db \<Rightarrow> revoke_outcome \<times> space_db" where
  "revoke_invite i db = (case find (\<lambda>r. ir_id r = i) (db_invites db) of
     None \<Rightarrow> (RoNotFound, db)
   | Some r \<Rightarrow> (if \<not> ir_revoked r then (RoRevoked, mark_invite_revoked i db) else (RoAlreadyRevoked, db)))"

definition set_invite_signature :: "string \<Rightarrow> string \<Rightarrow> space_db \<Rightarrow> bool \<times> space_db" where
  "set_invite_signature i signature db =
     (list_ex (\<lambda>r. ir_id r = i) (db_invites db),
      db\<lparr> db_invites := map (\<lambda>r. if ir_id r = i then r\<lparr> ir_signature := Some signature \<rparr> else r) (db_invites db) \<rparr>)"

section \<open>Records at rest\<close>

text \<open>The trait \<open>RecordCodec\<close>. Sealing draws a nonce, an argument here. The plain codec stores the text as it is, and
  never opens text that looks like a sealed record.\<close>

record record_codec_ops =
  cd_seal :: "8 word list \<Rightarrow> string \<Rightarrow> string \<Rightarrow> (string, space_err) result"
  cd_open :: "string \<Rightarrow> string \<Rightarrow> (string, space_err) result"

definition is_hexdigit :: "char \<Rightarrow> bool" where
  "is_hexdigit c = (let n = of_char c :: nat in (48 \<le> n \<and> n \<le> 57) \<or> (65 \<le> n \<and> n \<le> 70) \<or> (97 \<le> n \<and> n \<le> 102))"

definition looks_encrypted :: "string \<Rightarrow> bool" where
  "looks_encrypted stored = (case strip_prefix stored ''xr1:'' of
     None \<Rightarrow> False
   | Some b \<Rightarrow> 2 * (12 + 16) \<le> length b \<and> length b mod 2 = 0 \<and> list_all is_hexdigit b)"

definition plaintext_codec :: record_codec_ops where
  "plaintext_codec =
     \<lparr> cd_seal = (\<lambda>nonce plain record_id. Ok plain),
       cd_open = (\<lambda>stored record_id.
         if looks_encrypted stored then Err (SpMsg ''record is encrypted; no key available'') else Ok stored) \<rparr>"

section \<open>Messages\<close>

definition i64_max :: int where "i64_max = 2 ^ 63 - 1"

text \<open>\<open>MAX(seq)\<close>. SQLite computes \<open>MAX(seq) + 1\<close> as a real number when it leaves the 64-bit integers, which the
  read as an integer then refuses.\<close>

definition max_seq :: "space_db \<Rightarrow> int option" where
  "max_seq db = (if db_messages db = [] then None else Some (Max (set (map ms_seq (db_messages db)))))"

definition next_seq :: "space_db \<Rightarrow> (int, space_err) result" where
  "next_seq db = (case max_seq db of None \<Rightarrow> Ok 0 | Some s \<Rightarrow> (if s + 1 \<le> i64_max then Ok (s + 1) else Err SpDatabase))"

definition high_seq :: "space_db \<Rightarrow> int" where
  "high_seq db = (case max_seq db of None \<Rightarrow> - 1 | Some s \<Rightarrow> s)"

definition seq_text :: "int \<Rightarrow> string" where
  "seq_text seq = (if seq < 0 then ''-'' @ nat_dec (nat (- seq)) else nat_dec (nat seq))"

definition append_message :: "record_codec_ops \<Rightarrow> 8 word list \<Rightarrow> int \<Rightarrow> string \<Rightarrow> string \<Rightarrow> string \<Rightarrow> space_db
    \<Rightarrow> (channel_message, space_err) result \<times> space_db" where
  "append_message codec nonce now space_id author content db =
     (case next_seq db of
        Err e \<Rightarrow> (Err e, db)
      | Ok seq \<Rightarrow> (case cd_seal codec nonce content (seq_text seq) of
          Err e \<Rightarrow> (Err e, db)
        | Ok stored \<Rightarrow>
            (Ok \<lparr> ch_seq = of_int seq, ch_space_id = space_id, ch_author = author, ch_content = content, ch_created_at = now \<rparr>,
             db\<lparr> db_messages := db_messages db @
               [\<lparr> ms_seq = seq, ms_space_id = space_id, ms_author = author, ms_content = stored, ms_created_at = now \<rparr>] \<rparr>)))"

definition message_from :: "record_codec_ops \<Rightarrow> message_row \<Rightarrow> (channel_message, space_err) result" where
  "message_from codec r = (case cd_open codec (ms_content r) (seq_text (ms_seq r)) of
     Err e \<Rightarrow> Err e
   | Ok content \<Rightarrow> Ok \<lparr> ch_seq = of_int (ms_seq r), ch_space_id = ms_space_id r, ch_author = ms_author r,
       ch_content = content, ch_created_at = ms_created_at r \<rparr>)"

definition clamp_i64 :: "64 word \<Rightarrow> int" where
  "clamp_i64 w = (if uint w \<le> i64_max then uint w else i64_max)"

definition messages_since :: "record_codec_ops \<Rightarrow> 64 word option \<Rightarrow> space_db \<Rightarrow> (channel_message list, space_err) result" where
  "messages_since codec since db =
     (let floor = (case since of Some s \<Rightarrow> clamp_i64 s | None \<Rightarrow> - 1)
      in collect_results (map (message_from codec)
           (sort_key ms_seq (filter (\<lambda>r. floor < ms_seq r) (db_messages db)))))"

definition delete_messages_before :: "int \<Rightarrow> space_db \<Rightarrow> nat \<times> space_db" where
  "delete_messages_before cutoff db =
     (let high = high_seq db;
          doomed = (\<lambda>r. ms_created_at r < cutoff \<and> ms_seq r < high)
      in (length (filter doomed (db_messages db)),
          db\<lparr> db_messages := filter (\<lambda>r. \<not> doomed r) (db_messages db) \<rparr>))"

definition message_count :: "space_db \<Rightarrow> nat" where
  "message_count db = length (db_messages db)"

text \<open>The merge of received messages runs in one transaction: an error leaves the table as it was.\<close>

fun merge_loop :: "record_codec_ops \<Rightarrow> (int \<Rightarrow> 8 word list) \<Rightarrow> string \<Rightarrow> channel_message list \<Rightarrow> int \<Rightarrow> message_row list
    \<Rightarrow> (message_row list, space_err) result" where
  "merge_loop codec nonces space_id [] high rows = Ok rows"
| "merge_loop codec nonces space_id (m # remote) high rows =
     (let seq = clamp_i64 (ch_seq m)
      in if high < seq
         then (case cd_seal codec (nonces seq) (ch_content m) (seq_text seq) of
                 Err e \<Rightarrow> Err e
               | Ok stored \<Rightarrow> merge_loop codec nonces space_id remote seq (rows @
                   [\<lparr> ms_seq = seq, ms_space_id = space_id, ms_author = ch_author m, ms_content = stored,
                      ms_created_at = ch_created_at m \<rparr>]))
         else merge_loop codec nonces space_id remote high rows)"

definition merge_messages :: "record_codec_ops \<Rightarrow> (int \<Rightarrow> 8 word list) \<Rightarrow> string \<Rightarrow> channel_message list \<Rightarrow> space_db
    \<Rightarrow> (unit, space_err) result \<times> space_db" where
  "merge_messages codec nonces space_id remote db =
     (let high = high_seq db
      in case merge_loop codec nonces space_id remote high (db_messages db) of
           Err e \<Rightarrow> (Err e, db)
         | Ok rows \<Rightarrow> (Ok (), db\<lparr> db_messages := rows \<rparr>))"

section \<open>Retention\<close>

text \<open>\<open>TimeDelta::try_days\<close> and \<open>checked_sub_signed\<close> fail outside the ranges of the time library: a duration has at most
  2^63 - 1 milliseconds, a date is not before the year -262143 (the argument \<open>min_time\<close>, in nanoseconds).\<close>

definition ns_per_day :: int where "ns_per_day = 86400 * 10 ^ 9"

definition retention_cutoff :: "int \<Rightarrow> int \<Rightarrow> 64 word \<Rightarrow> int option" where
  "retention_cutoff min_time now retention_days =
     (if retention_days = 0 then None
      else let days = (if uint retention_days \<le> i64_max then uint retention_days else i64_max div 86400)
        in if i64_max < days * 86400000 then None
           else let t = now - days * ns_per_day in if t < min_time then None else Some t)"

definition sweep_space :: "int \<Rightarrow> int \<Rightarrow> 64 word \<Rightarrow> space_db \<Rightarrow> nat \<times> space_db" where
  "sweep_space min_time now retention_days db = (case retention_cutoff min_time now retention_days of
     Some cutoff \<Rightarrow> delete_messages_before cutoff db
   | None \<Rightarrow> (0, db))"

section \<open>The keys of the tables\<close>

definition messages_ok :: "space_db \<Rightarrow> bool" where
  "messages_ok db = (sorted_wrt (<) (map ms_seq (db_messages db))
     \<and> list_all (\<lambda>r. 0 \<le> ms_seq r \<and> ms_seq r \<le> i64_max) (db_messages db))"

definition members_ok :: "space_db \<Rightarrow> bool" where
  "members_ok db = (distinct (map mr_node_id (db_members db))
     \<and> list_all (\<lambda>r. is_ok (role_from (mr_role r))) (db_members db))"

definition invites_ok :: "space_db \<Rightarrow> bool" where
  "invites_ok db = (distinct (map ir_id (db_invites db))
     \<and> list_all (\<lambda>r. is_ok (role_from (ir_role r))) (db_invites db))"

lemma distinct_key_find:
  "distinct (map key xs) \<Longrightarrow> find (\<lambda>r. key r = k) xs = Some r \<longleftrightarrow> r \<in> set xs \<and> key r = k"
  by (induction xs) (auto simp: rev_image_eqI)

lemma find_key_None: "find (\<lambda>r. key r = k) xs = None \<longleftrightarrow> k \<notin> key ` set xs"
  by (induction xs) auto

lemma list_ex_key: "list_ex (\<lambda>r. key r = k) xs \<longleftrightarrow> k \<in> key ` set xs"
  by (induction xs) auto

lemma distinct_key_filter: "distinct (map key xs) \<Longrightarrow> distinct (map key (filter P xs))"
  by (rule distinct_map_filter)

lemma find_map_keep:
  assumes "\<And>r. key (f r) = key r"
  shows "find (\<lambda>r. key r = k) (map f xs) = map_option f (find (\<lambda>r. key r = k) xs)"
  using assms by (induction xs) auto

lemma find_filter_key:
  "find (\<lambda>r. key r = n) (filter (\<lambda>r. key r \<noteq> k) rows) = (if n = k then None else find (\<lambda>r. key r = n) rows)"
  by (induction rows) auto

lemma is_ok_role_str [simp]: "is_ok (role_from (role_str r))"
  by simp

subsection \<open>Members and invitations\<close>

lemma members_ok_empty [simp]: "members_ok empty_db" and invites_ok_empty [simp]: "invites_ok empty_db"
  and messages_ok_empty [simp]: "messages_ok empty_db"
  by (simp_all add: members_ok_def invites_ok_def messages_ok_def empty_db_def)

lemma members_ok_update: "members_ok (db\<lparr> db_members := rows \<rparr>) \<longleftrightarrow>
    distinct (map mr_node_id rows) \<and> list_all (\<lambda>r. is_ok (role_from (mr_role r))) rows"
  by (simp add: members_ok_def)

lemma add_member_rows: "db_members (snd (space_add_member now n role db)) =
    (if is_member_row n db then map (\<lambda>r. if mr_node_id r = n then r\<lparr> mr_role := role_str role \<rparr> else r) (db_members db)
     else db_members db @ [\<lparr> mr_node_id = n, mr_role = role_str role, mr_joined_at = now \<rparr>])"
  by (simp add: space_add_member_def Let_def)

lemma snd_add_member: "snd (space_add_member now n role db) = db\<lparr> db_members := db_members (snd (space_add_member now n role db)) \<rparr>"
  by (simp add: space_add_member_def Let_def)

lemma map_set_role_ids: "map mr_node_id (map (\<lambda>r. if mr_node_id r = n then r\<lparr> mr_role := x \<rparr> else r) rows) = map mr_node_id rows"
  by (induction rows) auto

lemma members_ok_add [inv_intros]: "members_ok db \<Longrightarrow> members_ok (snd (space_add_member now n role db))"
  by (subst snd_add_member)
    (auto simp: members_ok_def add_member_rows map_set_role_ids is_member_row_def list_ex_key list_all_iff
      simp del: map_map)

lemma members_ok_remove [inv_intros]: "members_ok db \<Longrightarrow> members_ok (snd (space_remove_member n db))"
  by (auto simp: members_ok_def space_remove_member_def list_all_iff intro: distinct_key_filter)

text \<open>A lookup never fails on a well-formed table, and sees what the last change left.\<close>

lemma member_Some_iff:
  assumes "members_ok db"
  shows "member n db = Ok (Some m) \<longleftrightarrow> sm_node_id m = n \<and>
    \<lparr> mr_node_id = n, mr_role = role_str (sm_role m), mr_joined_at = sm_joined_at m \<rparr> \<in> set (db_members db)"
    (is "_ \<longleftrightarrow> _ \<and> ?row \<in> _")
proof (cases "find (\<lambda>r. mr_node_id r = n) (db_members db)")
  case None
  then have "n \<notin> mr_node_id ` set (db_members db)" by (simp only: find_key_None not_False_eq_True)
  then have "?row \<notin> set (db_members db)" by (auto simp: image_iff)
  then show ?thesis using None by (simp add: member_def)
next
  case (Some r)
  then have r: "r \<in> set (db_members db)" "mr_node_id r = n" using find_SomeD by fastforce+
  then obtain role where role: "mr_role r = role_str role"
    using assms role_from_OkD by (fastforce simp: members_ok_def list_all_iff is_ok_iff)
  have d: "distinct (map mr_node_id (db_members db))" using assms by (simp add: members_ok_def)
  have "?row \<in> set (db_members db) \<longleftrightarrow> ?row = r"
    using distinct_key_find [OF d, of n ?row] Some r by auto
  moreover have "r = \<lparr> mr_node_id = n, mr_role = role_str role, mr_joined_at = mr_joined_at r \<rparr>"
    using r role by simp
  ultimately have "?row \<in> set (db_members db) \<longleftrightarrow> sm_role m = role \<and> sm_joined_at m = mr_joined_at r"
    by (metis member_row.select_convs(2) member_row.select_convs(3) role_from_str sum.inject(2))
  then show ?thesis using Some r role by (cases m) (auto simp: member_def membership_of_def)
qed

lemma member_total: "members_ok db \<Longrightarrow> is_ok (member n db)"
  by (auto simp: member_def membership_of_def members_ok_def list_all_iff is_ok_iff
      split: option.splits sum.splits dest!: find_SomeD)

lemma member_None_iff: "members_ok db \<Longrightarrow> member n db = Ok None \<longleftrightarrow> \<not> is_member_row n db"
  by (auto simp: member_def membership_of_def is_member_row_def list_ex_key find_key_None
      split: option.splits sum.splits dest: find_SomeD) 

lemma member_remove [simp]: "member n (snd (space_remove_member k db)) = (if n = k then Ok None else member n db)"
  by (simp add: member_def space_remove_member_def find_filter_key)

lemma member_add:
  assumes "members_ok db"
  shows "\<exists>t. member n (snd (space_add_member now k role db)) =
    (if n = k then Ok (Some \<lparr> sm_node_id = k, sm_role = role, sm_joined_at = t \<rparr>) else member n db)"
proof -
  let ?f = "\<lambda>r. if mr_node_id r = k then r\<lparr> mr_role := role_str role \<rparr> else r"
  have upd: "find (\<lambda>r. mr_node_id r = n) (map ?f rows) = map_option ?f (find (\<lambda>r. mr_node_id r = n) rows)"
    for rows :: "member_row list"
    by (rule find_map_keep) simp
  show ?thesis
    by (auto simp: member_def add_member_rows is_member_row_def list_ex_key upd find_append membership_of_def
        split: option.splits dest: find_SomeD simp: find_key_None)
qed

lemma insert_invite_ok [inv_intros]: "invites_ok db \<Longrightarrow> invites_ok (snd (insert_invite invite db))"
  by (auto simp: insert_invite_def invites_ok_def list_ex_key invite_row_of_def list_all_iff)

lemma map_revoke_ids: "map ir_id (map (\<lambda>r. if ir_id r = i then r\<lparr> ir_revoked := True \<rparr> else r) rows) = map ir_id rows"
  by (induction rows) auto

lemma map_sign_ids: "map ir_id (map (\<lambda>r. if ir_id r = i then r\<lparr> ir_signature := s \<rparr> else r) rows) = map ir_id rows"
  by (induction rows) auto

lemma mark_invite_revoked_ok [inv_intros]: "invites_ok db \<Longrightarrow> invites_ok (mark_invite_revoked i db)"
  by (auto simp: mark_invite_revoked_def invites_ok_def map_revoke_ids list_all_iff simp del: map_map)

lemma revoke_invite_ok [inv_intros]: "invites_ok db \<Longrightarrow> invites_ok (snd (revoke_invite i db))"
  by (auto simp: revoke_invite_def mark_invite_revoked_ok split: option.splits)

lemma set_invite_signature_ok [inv_intros]: "invites_ok db \<Longrightarrow> invites_ok (snd (set_invite_signature i s db))"
  by (auto simp: set_invite_signature_def invites_ok_def map_sign_ids list_all_iff simp del: map_map)

subsection \<open>The channel\<close>

lemma messages_ok_rows: "messages_ok (db\<lparr> db_messages := rows \<rparr>) \<longleftrightarrow>
    sorted_wrt (<) (map ms_seq rows) \<and> list_all (\<lambda>r. 0 \<le> ms_seq r \<and> ms_seq r \<le> i64_max) rows"
  by (simp add: messages_ok_def)

lemma sorted_wrt_last: "sorted_wrt (<) (xs @ [x :: int]) \<longleftrightarrow> sorted_wrt (<) xs \<and> (\<forall>y\<in>set xs. y < x)"
  by (simp add: sorted_wrt_append)

lemma Max_last: "sorted_wrt (<) (xs :: int list) \<Longrightarrow> xs \<noteq> [] \<Longrightarrow> Max (set xs) = last xs"
proof (induction xs rule: rev_induct)
  case (snoc x xs)
  then have "\<forall>y\<in>set xs. y < x" by (simp add: sorted_wrt_append)
  then show ?case by (auto intro: Max_eqI less_imp_le)
qed simp

lemma high_seq_bounds:
  "r \<in> set (db_messages db) \<Longrightarrow> ms_seq r \<le> high_seq db"
  by (auto simp: high_seq_def max_seq_def)

lemma high_seq_attained: "db_messages db \<noteq> [] \<Longrightarrow> \<exists>r\<in>set (db_messages db). ms_seq r = high_seq db"
proof -
  assume ne: "db_messages db \<noteq> []"
  then have "Max (ms_seq ` set (db_messages db)) \<in> ms_seq ` set (db_messages db)" by (intro Max_in) auto
  then show ?thesis using ne by (auto simp: high_seq_def max_seq_def image_iff)
qed

lemma high_seq_eqI: "r \<in> set (db_messages db) \<Longrightarrow> \<forall>x\<in>set (db_messages db). ms_seq x \<le> ms_seq r \<Longrightarrow> high_seq db = ms_seq r"
  using high_seq_attained [of db] high_seq_bounds [of r db] by fastforce

lemma high_seq_empty: "db_messages db = [] \<Longrightarrow> high_seq db = - 1"
  by (simp add: high_seq_def max_seq_def)

lemma high_seq_range: "messages_ok db \<Longrightarrow> - 1 \<le> high_seq db \<and> high_seq db \<le> i64_max"
proof (cases "db_messages db = []")
  case True
  then show ?thesis by (simp add: high_seq_empty i64_max_def)
next
  case False
  assume "messages_ok db"
  then show ?thesis using high_seq_attained [OF False] by (force simp: messages_ok_def list_all_iff)
qed

lemma high_seq_snoc: "\<forall>x\<in>set rows. ms_seq x \<le> ms_seq r \<Longrightarrow> high_seq (db\<lparr> db_messages := rows @ [r] \<rparr>) = ms_seq r"
  by (rule high_seq_eqI) auto

lemma next_seq_eq: "messages_ok db \<Longrightarrow>
    next_seq db = (if high_seq db + 1 \<le> i64_max then Ok (high_seq db + 1) else Err SpDatabase)"
  by (auto simp: next_seq_def high_seq_def i64_max_def split: option.splits)

lemma uint_seq: "0 \<le> s \<Longrightarrow> s \<le> i64_max \<Longrightarrow> uint (of_int s :: 64 word) = s"
  by (simp add: i64_max_def unsigned_of_int take_bit_int_eq_self)

lemma messages_ok_snoc:
  assumes "messages_ok db" "high_seq db < ms_seq r" "ms_seq r \<le> i64_max"
  shows "messages_ok (db\<lparr> db_messages := db_messages db @ [r] \<rparr>)"
proof -
  have "\<forall>x\<in>set (db_messages db). ms_seq x < ms_seq r"
    using high_seq_bounds assms(2) by (metis order.strict_trans1)
  moreover have "0 \<le> ms_seq r" using high_seq_range [OF assms(1)] assms(2) by simp
  ultimately show ?thesis using assms(1,3) by (auto simp: messages_ok_def sorted_wrt_append)
qed

text \<open>An append takes the number after the highest one, or fails.\<close>

lemma append_message_cases:
  assumes "append_message codec nonce now sp author content db = (res, db')"
  obtains e where "res = Err e" "db' = db"
  | seq m stored where "res = Ok m" "next_seq db = Ok seq" "ch_seq m = of_int seq"
      "cd_seal codec nonce content (seq_text seq) = Ok stored"
      "db' = db\<lparr> db_messages := db_messages db @
        [\<lparr> ms_seq = seq, ms_space_id = sp, ms_author = author, ms_content = stored, ms_created_at = now \<rparr>] \<rparr>"
      "m = \<lparr> ch_seq = of_int seq, ch_space_id = sp, ch_author = author, ch_content = content, ch_created_at = now \<rparr>"
  using assms unfolding append_message_def by (auto split: sum.splits)

lemma next_seq_bounds: "messages_ok db \<Longrightarrow> next_seq db = Ok seq \<Longrightarrow> seq = high_seq db + 1 \<and> 0 \<le> seq \<and> seq \<le> i64_max"
  using high_seq_range [of db] by (auto simp: next_seq_eq split: if_splits)

lemma append_message_ok [inv_intros]:
  assumes "messages_ok db" "append_message codec nonce now sp author content db = (res, db')"
  shows "messages_ok db' \<and> high_seq db \<le> high_seq db'
    \<and> (\<forall>m. res = Ok m \<longrightarrow> uint (ch_seq m) = high_seq db + 1 \<and> high_seq db' = high_seq db + 1)"
  using assms(2)
proof (cases rule: append_message_cases)
  case (2 seq m stored)
  have s: "seq = high_seq db + 1" "0 \<le> seq" "seq \<le> i64_max" using next_seq_bounds [OF assms(1) 2(2)] by auto
  have "uint (ch_seq m) = seq" unfolding 2(3) by (rule uint_seq [OF s(2,3)])
  moreover have "high_seq db' = seq"
    unfolding 2(5) by (subst high_seq_snoc) (use s high_seq_bounds in force)+
  moreover have "messages_ok db'" unfolding 2(5) by (rule messages_ok_snoc) (use assms(1) s in auto)
  ultimately show ?thesis using 2(1) s by simp
qed (use assms in simp)

lemma high_seq_cong: "db_messages a = db_messages b \<Longrightarrow> high_seq a = high_seq b"
  by (simp add: high_seq_def max_seq_def)

text \<open>Retention never removes the newest message, so the next number does not go back.\<close>

lemma delete_keeps_high: "high_seq (snd (delete_messages_before cutoff db)) = high_seq db"
proof (cases "db_messages db = []")
  case True
  then show ?thesis by (auto simp: delete_messages_before_def Let_def intro: high_seq_cong)
next
  case False
  obtain r where r: "r \<in> set (db_messages db)" "ms_seq r = high_seq db" using high_seq_attained [OF False] by blast
  have "high_seq (snd (delete_messages_before cutoff db)) = ms_seq r"
    by (rule high_seq_eqI) (use r high_seq_bounds in \<open>auto simp: delete_messages_before_def Let_def\<close>)
  then show ?thesis using r(2) by simp
qed

lemma messages_ok_filter: "messages_ok db \<Longrightarrow> messages_ok (db\<lparr> db_messages := filter P (db_messages db) \<rparr>)"
  by (auto simp: messages_ok_def list_all_iff sorted_wrt_map intro: sorted_wrt_filter)

lemma delete_messages_ok [inv_intros]: "messages_ok db \<Longrightarrow> messages_ok (snd (delete_messages_before cutoff db))"
  by (simp add: delete_messages_before_def Let_def messages_ok_filter)

lemma sweep_space_ok [inv_intros]: "messages_ok db \<Longrightarrow> messages_ok (snd (sweep_space mt now days db))"
  and sweep_keeps_high: "high_seq (snd (sweep_space mt now days db)) = high_seq db"
  by (auto simp: sweep_space_def delete_messages_ok delete_keeps_high split: option.split)

lemma clamp_range: "0 \<le> clamp_i64 w \<and> clamp_i64 w \<le> i64_max"
  by (simp add: clamp_i64_def i64_max_def)

lemma clamp_of_int: "0 \<le> s \<Longrightarrow> s \<le> i64_max \<Longrightarrow> clamp_i64 (of_int s) = s"
  by (simp add: clamp_i64_def uint_seq)

subsection \<open>Reading and merging\<close>

text \<open>What a merge takes of a batch: each message above everything before it.\<close>

fun fresh :: "int \<Rightarrow> channel_message list \<Rightarrow> channel_message list" where
  "fresh high [] = []"
| "fresh high (m # remote) =
     (if high < clamp_i64 (ch_seq m) then m # fresh (clamp_i64 (ch_seq m)) remote else fresh high remote)"

definition sealed_row :: "record_codec_ops \<Rightarrow> (int \<Rightarrow> 8 word list) \<Rightarrow> string \<Rightarrow> message_row \<Rightarrow> channel_message \<Rightarrow> bool" where
  "sealed_row codec nonces sp r m =
     (ms_seq r = clamp_i64 (ch_seq m) \<and> ms_space_id r = sp \<and> ms_author r = ch_author m \<and> ms_created_at r = ch_created_at m
      \<and> cd_seal codec (nonces (ms_seq r)) (ch_content m) (seq_text (ms_seq r)) = Ok (ms_content r))"

lemma merge_loop_spec:
  "merge_loop codec nonces sp remote high rows = Ok rows' \<Longrightarrow>
   \<exists>new. rows' = rows @ new \<and> list_all2 (sealed_row codec nonces sp) new (fresh high remote)"
proof (induction codec nonces sp remote high rows arbitrary: rows' rule: merge_loop.induct)
  case (2 codec nonces sp m remote high rows)
  show ?case
  proof (cases "high < clamp_i64 (ch_seq m)")
    case True
    then obtain stored where st: "cd_seal codec (nonces (clamp_i64 (ch_seq m))) (ch_content m) (seq_text (clamp_i64 (ch_seq m))) = Ok stored"
      using "2.prems" by (auto simp: Let_def split: sum.splits)
    let ?r = "\<lparr> ms_seq = clamp_i64 (ch_seq m), ms_space_id = sp, ms_author = ch_author m, ms_content = stored,
      ms_created_at = ch_created_at m \<rparr>"
    have "merge_loop codec nonces sp remote (clamp_i64 (ch_seq m)) (rows @ [?r]) = Ok rows'"
      using "2.prems" True st by (simp add: Let_def)
    from "2.IH"(1) [OF refl True st this] obtain new where
      "rows' = (rows @ [?r]) @ new" "list_all2 (sealed_row codec nonces sp) new (fresh (clamp_i64 (ch_seq m)) remote)" by blast
    moreover have "sealed_row codec nonces sp ?r m" using st by (simp add: sealed_row_def)
    ultimately show ?thesis using True by (intro exI [of _ "?r # new"]) simp
  next
    case False
    then show ?thesis using "2.prems" "2.IH"(2) [OF refl] by (simp add: Let_def)
  qed
qed simp

lemma fresh_sorted: "sorted_wrt (<) (map (clamp_i64 \<circ> ch_seq) (fresh high remote))
    \<and> (\<forall>m\<in>set (fresh high remote). high < clamp_i64 (ch_seq m))"
proof (induction high remote rule: fresh.induct)
  case (2 high m remote)
  then show ?case by (cases "high < clamp_i64 (ch_seq m)") (simp_all, blast intro: order.strict_trans)
qed simp

lemma fresh_all:
  "sorted_wrt (<) (map (clamp_i64 \<circ> ch_seq) remote) \<Longrightarrow> fresh high remote = filter (\<lambda>m. high < clamp_i64 (ch_seq m)) remote"
proof (induction high remote rule: fresh.induct)
  case (2 high m remote)
  then have le: "\<forall>x\<in>set remote. clamp_i64 (ch_seq m) < clamp_i64 (ch_seq x)" by simp
  show ?case
  proof (cases "high < clamp_i64 (ch_seq m)")
    case True
    then have "\<forall>x\<in>set remote. high < clamp_i64 (ch_seq x)" using le by fastforce
    then show ?thesis using 2 True le by simp
  qed (use 2 in simp)
qed simp

lemma sealed_rows_seqs: "list_all2 (sealed_row codec nonces sp) new ms \<Longrightarrow> map ms_seq new = map (clamp_i64 \<circ> ch_seq) ms"
  by (induction rule: list_all2_induct) (auto simp: sealed_row_def)

lemma sorted_wrt_join:
  "sorted_wrt (<) (xs :: int list) \<Longrightarrow> sorted_wrt (<) ys \<Longrightarrow> \<forall>x\<in>set xs. x \<le> h \<Longrightarrow> \<forall>y\<in>set ys. h < y \<Longrightarrow> sorted_wrt (<) (xs @ ys)"
  by (fastforce simp: sorted_wrt_append)

lemma merge_rows:
  assumes "merge_messages codec nonces sp remote db = (Ok (), db')"
  obtains new where "db' = db\<lparr> db_messages := db_messages db @ new \<rparr>"
    "list_all2 (sealed_row codec nonces sp) new (fresh (high_seq db) remote)"
  using assms merge_loop_spec unfolding merge_messages_def by (fastforce simp: Let_def split: sum.splits)

lemma merge_messages_ok [inv_intros]:
  assumes "messages_ok db" "merge_messages codec nonces sp remote db = (res, db')"
  shows "messages_ok db' \<and> high_seq db \<le> high_seq db'"
proof (cases res)
  case (Inl e)
  then have "db' = db" using assms(2) by (auto simp: merge_messages_def Let_def split: sum.splits)
  then show ?thesis using assms by simp
next
  case (Inr u)
  then obtain new where new: "db' = db\<lparr> db_messages := db_messages db @ new \<rparr>"
    "list_all2 (sealed_row codec nonces sp) new (fresh (high_seq db) remote)" using merge_rows assms(2) by (metis old.unit.exhaust)
  have seqs: "map ms_seq new = map (clamp_i64 \<circ> ch_seq) (fresh (high_seq db) remote)" by (rule sealed_rows_seqs [OF new(2)])
  then have "ms_seq ` set new = (clamp_i64 \<circ> ch_seq) ` set (fresh (high_seq db) remote)" by (metis list.set_map)
  then have above: "\<forall>r\<in>set new. high_seq db < ms_seq r \<and> 0 \<le> ms_seq r \<and> ms_seq r \<le> i64_max"
    using fresh_sorted clamp_range by (metis (no_types, lifting) comp_apply image_iff)
  have "sorted_wrt (<) (map ms_seq (db_messages db) @ map ms_seq new)"
    by (rule sorted_wrt_join [where h = "high_seq db"])
      (use assms(1) fresh_sorted high_seq_bounds above in \<open>auto simp: messages_ok_def seqs\<close>)
  then have ok: "messages_ok db'"
    using assms(1) above by (auto simp: new(1) messages_ok_def list_all_iff)
  moreover have "high_seq db \<le> high_seq db'"
  proof (cases "db_messages db = []")
    case True
    then show ?thesis using high_seq_range [OF ok] by (simp add: high_seq_empty)
  next
    case False
    then obtain r where "r \<in> set (db_messages db)" "ms_seq r = high_seq db" using high_seq_attained by blast
    then show ?thesis using high_seq_bounds [of r db'] new(1) by simp
  qed
  ultimately show ?thesis by blast
qed

lemma messages_since_eq:
  assumes "messages_ok db"
  shows "messages_since codec since db = collect_results (map (message_from codec)
    (filter (\<lambda>r. (case since of Some s \<Rightarrow> clamp_i64 s | None \<Rightarrow> - 1) < ms_seq r) (db_messages db)))"
proof -
  have "sorted_wrt (<) (map ms_seq (filter P (db_messages db)))" for P
    using assms by (auto simp: messages_ok_def sorted_wrt_map intro: sorted_wrt_filter)
  then have "sort_key ms_seq (filter P (db_messages db)) = filter P (db_messages db)" for P
    by (intro sort_key_id) (simp add: strict_sorted_imp_sorted)
  then show ?thesis by (simp add: messages_since_def)
qed

lemma messages_all_eq:
  "messages_ok db \<Longrightarrow> messages_since codec None db = collect_results (map (message_from codec) (db_messages db))"
  by (subst messages_since_eq, assumption) (subst filter_True, auto simp: messages_ok_def list_all_iff)

lemma collect_results_append:
  "collect_results (xs @ ys) = (case collect_results xs of Err e \<Rightarrow> Err e
     | Ok a \<Rightarrow> (case collect_results ys of Err e \<Rightarrow> Err e | Ok b \<Rightarrow> Ok (a @ b)))"
  by (induction xs rule: collect_results.induct) (auto split: sum.splits)

section \<open>Channels over a codec\<close>

locale record_codec =
  fixes codec :: record_codec_ops and plain_ok :: "string \<Rightarrow> bool"
  assumes open_sealed: "plain_ok plain \<Longrightarrow> cd_seal codec nonce plain i = Ok stored \<Longrightarrow> cd_open codec stored i = Ok plain"
begin

lemma read_sealed_rows:
  "list_all2 (sealed_row codec nonces sp) new ms \<Longrightarrow> \<forall>m\<in>set ms. plain_ok (ch_content m) \<Longrightarrow>
   collect_results (map (message_from codec) new)
     = Ok (map (\<lambda>m. m\<lparr> ch_seq := of_int (clamp_i64 (ch_seq m)), ch_space_id := sp \<rparr>) ms)"
proof (induction rule: list_all2_induct)
  case (Cons r new m ms)
  then have "cd_open codec (ms_content r) (seq_text (ms_seq r)) = Ok (ch_content m)"
    using open_sealed by (auto simp: sealed_row_def)
  then show ?case using Cons by (simp add: message_from_def sealed_row_def)
qed simp

lemma merge_reads:
  assumes "messages_ok db" "merge_messages codec nonces sp remote db = (Ok (), db')"
    and "messages_since codec None db = Ok log" "\<forall>m\<in>set remote. plain_ok (ch_content m)"
  shows "messages_since codec None db' = Ok (log @
    map (\<lambda>m. m\<lparr> ch_seq := of_int (clamp_i64 (ch_seq m)), ch_space_id := sp \<rparr>) (fresh (high_seq db) remote))"
proof -
  obtain new where new: "db' = db\<lparr> db_messages := db_messages db @ new \<rparr>"
    "list_all2 (sealed_row codec nonces sp) new (fresh (high_seq db) remote)" using merge_rows assms(2) by blast
  have "set (fresh h remote) \<subseteq> set remote" for h by (induction h remote rule: fresh.induct) auto
  then have "\<forall>m\<in>set (fresh (high_seq db) remote). plain_ok (ch_content m)" using assms(4) by blast
  from read_sealed_rows [OF new(2) this] show ?thesis
    using assms(1,3) merge_messages_ok [OF assms(1,2)]
    by (simp add: messages_all_eq new(1) collect_results_append)
qed

lemma append_reads:
  assumes "messages_ok db" "append_message codec nonce now sp author content db = (Ok m, db')"
    and "messages_since codec None db = Ok log" "plain_ok content"
  shows "messages_since codec None db' = Ok (log @ [m])"
proof -
  obtain seq stored where m: "cd_seal codec nonce content (seq_text seq) = Ok stored"
    "db' = db\<lparr> db_messages := db_messages db @
      [\<lparr> ms_seq = seq, ms_space_id = sp, ms_author = author, ms_content = stored, ms_created_at = now \<rparr>] \<rparr>"
    "m = \<lparr> ch_seq = of_int seq, ch_space_id = sp, ch_author = author, ch_content = content, ch_created_at = now \<rparr>"
    using assms(2) by (cases rule: append_message_cases) auto
  have "messages_ok db'" using append_message_ok [OF assms(1,2)] by blast
  then show ?thesis
    using assms(1,3) open_sealed [OF assms(4) m(1)]
    by (simp add: messages_all_eq m(2,3) collect_results_append message_from_def)
qed

end

interpretation plain: record_codec plaintext_codec "\<lambda>p. \<not> looks_encrypted p"
  by unfold_locales (auto simp: plaintext_codec_def)

section \<open>Channel histories\<close>

datatype channel_op =
    CoAppend "8 word list" int string string string
  | CoMerge "int \<Rightarrow> 8 word list" string "channel_message list"
  | CoSweep int int "64 word"

text \<open>One operation, with the number it gave out.\<close>

definition channel_step :: "record_codec_ops \<Rightarrow> channel_op \<Rightarrow> space_db \<Rightarrow> 64 word list \<times> space_db" where
  "channel_step codec a db = (case a of
     CoAppend nonce now sp author content \<Rightarrow>
       (case append_message codec nonce now sp author content db of (Ok m, db') \<Rightarrow> ([ch_seq m], db') | (Err e, db') \<Rightarrow> ([], db'))
   | CoMerge nonces sp remote \<Rightarrow> ([], snd (merge_messages codec nonces sp remote db))
   | CoSweep min_time now days \<Rightarrow> ([], snd (sweep_space min_time now days db)))"

fun channel_run :: "record_codec_ops \<Rightarrow> channel_op list \<Rightarrow> space_db \<Rightarrow> 64 word list \<times> space_db" where
  "channel_run codec [] db = ([], db)"
| "channel_run codec (a # ops) db =
     (let (given, db1) = channel_step codec a db; (rest, db2) = channel_run codec ops db1 in (given @ rest, db2))"

lemma channel_step_ok:
  assumes "messages_ok db" "channel_step codec a db = (given, db')"
  shows "messages_ok db' \<and> high_seq db \<le> high_seq db' \<and> length given \<le> 1
    \<and> (\<forall>w\<in>set given. high_seq db < uint w \<and> uint w \<le> high_seq db')"
proof (cases a)
  case (CoAppend nonce now sp author content)
  then show ?thesis
    using assms append_message_ok [OF assms(1), of codec nonce now sp author content]
    by (auto simp: channel_step_def split: prod.splits sum.splits)
next
  case (CoMerge nonces sp remote)
  then show ?thesis
    using assms merge_messages_ok [OF assms(1), of codec nonces sp remote]
    by (cases "merge_messages codec nonces sp remote db") (auto simp: channel_step_def)
next
  case (CoSweep mt now days)
  then show ?thesis using assms sweep_space_ok sweep_keeps_high by (auto simp: channel_step_def)
qed

lemma single_sorted: "length xs \<le> 1 \<Longrightarrow> sorted_wrt R xs"
  by (cases xs) auto

lemma channel_run_ok:
  "messages_ok db \<Longrightarrow> channel_run codec ops db = (given, db') \<Longrightarrow>
   messages_ok db' \<and> high_seq db \<le> high_seq db' \<and> sorted_wrt (<) given
   \<and> (\<forall>w\<in>set given. high_seq db < uint w \<and> uint w \<le> high_seq db')"
proof (induction ops arbitrary: db given)
  case (Cons a ops)
  obtain g1 db1 g2 where st: "channel_step codec a db = (g1, db1)" "channel_run codec ops db1 = (g2, db')" "given = g1 @ g2"
    using Cons.prems(2) by (auto split: prod.splits)
  note one = channel_step_ok [OF Cons.prems(1) st(1)]
  note rest = Cons.IH [OF conjunct1 [OF one] st(2)]
  have "\<forall>x\<in>set g1. \<forall>y\<in>set g2. x < y" using one rest by (fastforce simp: word_less_def)
  then show ?case using one rest single_sorted by (fastforce simp: st(3) sorted_wrt_append)
qed auto

text \<open>C6: The numbers of a channel are given out in strictly increasing order and never again, also when retention
  deletes messages and batches of other nodes are merged in between: every message posted in a run of operations has a
  number above all that were stored before, and the stored numbers stay strictly increasing and within 63 bits.\<close>

theorem channel_numbers_never_reused:
  assumes "messages_ok db" "channel_run codec ops db = (given, db')"
  shows "messages_ok db' \<and> sorted_wrt (<) given
    \<and> (\<forall>w\<in>set given. \<forall>r\<in>set (db_messages db). ms_seq r < uint w)
    \<and> (db_messages db \<noteq> [] \<longrightarrow> (\<exists>r\<in>set (db_messages db'). \<forall>q\<in>set (db_messages db). ms_seq q \<le> ms_seq r))"
proof -
  note run = channel_run_ok [OF assms]
  have "ms_seq r < uint w" if "w \<in> set given" "r \<in> set (db_messages db)" for r w
    using run that high_seq_bounds by fastforce
  moreover have "\<exists>r\<in>set (db_messages db'). \<forall>q\<in>set (db_messages db). ms_seq q \<le> ms_seq r" if ne: "db_messages db \<noteq> []"
  proof -
    obtain q where "q \<in> set (db_messages db)" "ms_seq q = high_seq db" using high_seq_attained [OF ne] by blast
    then have "0 \<le> high_seq db" using assms(1) by (auto simp: messages_ok_def list_all_iff)
    then have "db_messages db' \<noteq> []" using run high_seq_empty by force
    then obtain r where "r \<in> set (db_messages db')" "ms_seq r = high_seq db'" using high_seq_attained by blast
    moreover have "ms_seq q \<le> ms_seq r" if "q \<in> set (db_messages db)" for q
      using high_seq_bounds [OF that] run calculation(2) by linarith
    ultimately show ?thesis by blast
  qed
  ultimately show ?thesis using run by blast
qed

text \<open>A day has passed since the first post and the retention is of one day: the older message goes, the newer one
  stays although it is as old, and the next post gets the number 2.\<close>

theorem channel_numbers_never_reused_witness:
  "sorted_wrt (<) (fst (channel_run plaintext_codec
     [CoAppend [] 0 ''s'' ''a'' ''one'', CoAppend [] 0 ''s'' ''a'' ''two'', CoSweep 0 (3 * ns_per_day) 1,
      CoAppend [] 1 ''s'' ''b'' ''three''] empty_db)) \<and>
   map ms_seq (db_messages (snd (channel_run plaintext_codec
     [CoAppend [] 0 ''s'' ''a'' ''one'', CoAppend [] 0 ''s'' ''a'' ''two'', CoSweep 0 (3 * ns_per_day) 1,
      CoAppend [] 1 ''s'' ''b'' ''three''] empty_db))) = [1, 2]"
proof -
  let ?ops = "[CoAppend [] 0 ''s'' ''a'' ''one'', CoAppend [] 0 ''s'' ''a'' ''two'', CoSweep 0 (3 * ns_per_day) 1,
      CoAppend [] 1 ''s'' ''b'' ''three'']"
  have "map ms_seq (db_messages (snd (channel_run plaintext_codec ?ops empty_db))) = [1, 2]"
    by code_simp
  then show ?thesis
    using channel_numbers_never_reused [OF messages_ok_empty, of plaintext_codec ?ops] by (metis surjective_pairing)
qed

text \<open>A message of another node with the largest number closes the channel: no later post is accepted, whatever is
  merged or swept in between.\<close>

lemma huge_number_ends_channel:
  assumes "messages_ok db" "merge_messages codec nonces sp remote db = (Ok (), db1)"
    and "m \<in> set remote" "i64_max \<le> uint (ch_seq m)" "high_seq db < i64_max"
  shows "fst (channel_run codec ops db1) = []"
proof -
  have high: "\<exists>x\<in>set (fresh h remote). clamp_i64 (ch_seq x) = i64_max" if "h < i64_max" for h
    using assms(3) that
  proof (induction h remote rule: fresh.induct)
    case (2 h x xs)
    have m: "clamp_i64 (ch_seq m) = i64_max" using assms(4) by (simp add: clamp_i64_def)
    show ?case
    proof (cases "clamp_i64 (ch_seq x) = i64_max")
      case True
      then show ?thesis using 2 by simp
    next
      case False
      then have "m \<in> set xs" "clamp_i64 (ch_seq x) < i64_max" using 2 m clamp_range [of "ch_seq x"] by auto
      then show ?thesis using 2 by auto
    qed
  qed simp
  obtain new where new: "db1 = db\<lparr> db_messages := db_messages db @ new \<rparr>"
    "list_all2 (sealed_row codec nonces sp) new (fresh (high_seq db) remote)" using merge_rows [OF assms(2)] by blast
  have "i64_max \<in> set (map ms_seq new)"
    using high [OF assms(5)] by (auto simp: sealed_rows_seqs [OF new(2)] intro: rev_image_eqI)
  then have "i64_max \<le> high_seq db1" using high_seq_bounds [of _ db1] by (force simp: new(1))
  moreover obtain given db2 where run: "channel_run codec ops db1 = (given, db2)" by force
  moreover have ok: "messages_ok db1" using merge_messages_ok [OF assms(1,2)] by blast
  ultimately have "\<forall>w\<in>set given. i64_max < uint w \<and> uint w \<le> i64_max"
    using channel_run_ok [OF ok run] high_seq_range [of db2] by fastforce
  then have "given = []" by (cases given) auto
  then show ?thesis by (simp add: run)
qed

text \<open>Text that has the form of a sealed record blocks every read over it in a space without encryption.\<close>

lemma sealed_looking_post_blocks_reads:
  assumes "messages_ok db" "r \<in> set (db_messages db)" "looks_encrypted (ms_content r)"
    and "(case since of Some s \<Rightarrow> clamp_i64 s | None \<Rightarrow> - 1) < ms_seq r"
  shows "\<exists>e. messages_since plaintext_codec since db = Err e"
  unfolding messages_since_eq [OF assms(1)]
  by (rule collect_results_ErrI [where e = "SpMsg ''record is encrypted; no key available''"])
    (use assms in \<open>auto simp: message_from_def plaintext_codec_def image_iff intro!: bexI [of _ r]\<close>)

end
