(* ===== verification/SpaceTokens.thy ===== *)
theory SpaceTokens
  imports SpaceStore
begin

text \<open>The access tokens of shared spaces: \<open>src/src/espacio/tokens.rs\<close> over the tables of \<open>SpaceStore\<close>, with the
  base64url encoder of \<open>src/src/auth2/oauth.rs\<close>. SHA-256, the clock, fresh identifiers and random bytes are arguments.
  Shown: the text of an issued token is read back to its space; a token is accepted exactly when its row is live and
  its holder is a member, with the weaker of both roles; a revoked or rotated token and a used invitation stay so in
  every later state.\<close>

unbundle bit_operations_syntax

section \<open>Base64url\<close>

definition b64url_chars :: string where
  "b64url_chars = ''ABCDEFGHIJKLMNOPQRSTUVWXYZabcdefghijklmnopqrstuvwxyz0123456789-_''"

definition b64url_group :: "8 word list \<Rightarrow> string" where
  "b64url_group chunk =
     (let b = (\<lambda>i. ucast (if i < length chunk then chunk ! i else 0) :: 32 word);
          n = push_bit 16 (b 0) OR push_bit 8 (b 1) OR b 2;
          at = (\<lambda>k. b64url_chars ! unat (drop_bit k n AND 63))
      in [at 18, at 12] @ (if 1 < length chunk then [at 6] else []) @ (if 2 < length chunk then [at 0] else []))"

definition b64url_encode :: "8 word list \<Rightarrow> string" where
  "b64url_encode data = concat (map b64url_group (chunks 3 data))"

section \<open>Tokens\<close>

record space_auth =
  sa_space_id :: string
  sa_member_id :: string
  sa_role :: space_role

datatype token_error = TeMalformed | TeInvalid

record token_info =
  ti_token_id :: string
  ti_member_id :: string
  ti_role :: space_role
  ti_created_at :: int
  ti_expires_at :: "int option"
  ti_revoked :: bool

record issued_token =
  it_token_id :: string
  it_raw :: string

record space_env =
  se_now :: "nat \<Rightarrow> int"
  se_ulid :: string
  se_secret :: "8 word list"
  se_ttl_var :: "string option"

definition rank :: "space_role \<Rightarrow> nat" where
  "rank r = (case r of SrAdmin \<Rightarrow> 3 | SrModerator \<Rightarrow> 2 | SrMember \<Rightarrow> 1 | SrReader \<Rightarrow> 0)"

definition token_prefix :: string where "token_prefix = ''xsp_''"
definition secret_len :: nat where "secret_len = 43"

definition hash_token :: "(8 word list \<Rightarrow> 8 word list) \<Rightarrow> string \<Rightarrow> string" where
  "hash_token sha256 raw = hex_encode (sha256 (bytes_of raw))"

definition secret_char :: "char \<Rightarrow> bool" where
  "secret_char b = (is_alnum b \<or> b = CHR ''-'' \<or> b = CHR ''_'')"

definition strip_suffix_char :: "char \<Rightarrow> string \<Rightarrow> string option" where
  "strip_suffix_char c s = (if s \<noteq> [] \<and> last s = c then Some (butlast s) else None)"

definition is_ascii :: "string \<Rightarrow> bool" where
  "is_ascii s = list_all (\<lambda>c. (of_char c :: nat) < 128) s"

definition parse_token :: "string \<Rightarrow> (string, token_error) result" where
  "parse_token raw = (case strip_prefix raw token_prefix of
     None \<Rightarrow> Err TeMalformed
   | Some rest \<Rightarrow>
       (if \<not> is_ascii rest \<or> length rest < secret_len + 2 then Err TeMalformed
        else let split = length rest - secret_len; head = take split rest; secret = drop split rest
          in case strip_suffix_char CHR ''_'' head of
               None \<Rightarrow> Err TeMalformed
             | Some space_id \<Rightarrow>
                 (if \<not> list_all secret_char secret then Err TeMalformed
                  else if \<not> is_ok (validate_space_id space_id) then Err TeMalformed
                  else Ok space_id)))"

text \<open>\<open>str::parse::<i64>\<close>.\<close>

definition is_digit :: "char \<Rightarrow> bool" where
  "is_digit c = (48 \<le> (of_char c :: nat) \<and> (of_char c :: nat) \<le> 57)"

definition digits_value :: "string \<Rightarrow> int" where
  "digits_value s = foldl (\<lambda>n c. 10 * n + (of_char c - 48)) 0 s"

definition parse_i64 :: "string \<Rightarrow> int option" where
  "parse_i64 s =
     (let (sign, body) = (case s of [] \<Rightarrow> (1, [])
        | c # cs \<Rightarrow> if c = CHR ''-'' then (- 1, cs) else if c = CHR ''+'' then (1, cs) else (1, s))
      in if body = [] \<or> \<not> list_all is_digit body then None
         else let n = sign * digits_value body
           in if - (2 ^ 63) \<le> n \<and> n \<le> i64_max then Some n else None)"

definition default_token_expiry :: "space_env \<Rightarrow> int" where
  "default_token_expiry env =
     (let days = (case se_ttl_var env of
        None \<Rightarrow> 90
      | Some v \<Rightarrow> (case parse_i64 (trim v) of Some d \<Rightarrow> (if 1 \<le> d \<and> d \<le> 3650 then d else 90) | None \<Rightarrow> 90))
      in se_now env 0 + days * ns_per_day)"

definition insert_token_row :: "(8 word list \<Rightarrow> 8 word list) \<Rightarrow> space_env \<Rightarrow> string \<Rightarrow> string \<Rightarrow> space_role \<Rightarrow> int option
    \<Rightarrow> space_db \<Rightarrow> (issued_token, space_err) result \<times> space_db" where
  "insert_token_row sha256 env space_id member_id role expires_at db =
     (case validate_space_id space_id of
        Err e \<Rightarrow> (Err e, db)
      | Ok _ \<Rightarrow>
          (let raw = token_prefix @ space_id @ ''_'' @ b64url_encode (se_secret env);
               expires = (case expires_at of Some e \<Rightarrow> e | None \<Rightarrow> default_token_expiry env);
               row = \<lparr> tk_token_id = se_ulid env, tk_hash = hash_token sha256 raw, tk_member_id = member_id,
                       tk_role = role_str role, tk_created_at = se_now env 1, tk_expires_at = Some expires, tk_revoked = False \<rparr>
           in if \<not> is_member_row member_id db
              then (Err (SpMsg (''cannot issue a token: '' @ member_id @ '' is not a member'')), db)
              else if list_ex (\<lambda>r. tk_token_id r = tk_token_id row) (db_tokens db) \<or> list_ex (\<lambda>r. tk_hash r = tk_hash row) (db_tokens db)
              then (Err SpDatabase, db)
              else (Ok \<lparr> it_token_id = se_ulid env, it_raw = raw \<rparr>, db\<lparr> db_tokens := db_tokens db @ [row] \<rparr>)))"

definition issue_token :: "(8 word list \<Rightarrow> 8 word list) \<Rightarrow> space_env \<Rightarrow> string \<Rightarrow> string \<Rightarrow> space_role \<Rightarrow> int option
    \<Rightarrow> space_db \<Rightarrow> (issued_token, space_err) result \<times> space_db" where
  "issue_token sha256 env space_id member_id role expires_at db =
     insert_token_row sha256 env space_id member_id role expires_at db"

definition mark_token_revoked :: "string \<Rightarrow> space_db \<Rightarrow> space_db" where
  "mark_token_revoked tid db = db\<lparr> db_tokens :=
     map (\<lambda>r. if tk_token_id r = tid then r\<lparr> tk_revoked := True \<rparr> else r) (db_tokens db) \<rparr>"

text \<open>Rotation and redemption are transactions: an error leaves the database as it was.\<close>

definition rotate_token :: "(8 word list \<Rightarrow> 8 word list) \<Rightarrow> space_env \<Rightarrow> string \<Rightarrow> string
    \<Rightarrow> space_db \<Rightarrow> (issued_token, space_err) result \<times> space_db" where
  "rotate_token sha256 env space_id old db =
     (case find (\<lambda>r. tk_token_id r = old \<and> \<not> tk_revoked r) (db_tokens db) of
        None \<Rightarrow> (Err (SpMsg (''token '' @ old @ '' not found or already revoked'')), db)
      | Some r \<Rightarrow> (case role_from (tk_role r) of
          Err e \<Rightarrow> (Err e, db)
        | Ok role \<Rightarrow> (case insert_token_row sha256 env space_id (tk_member_id r) role None db of
            (Err e, _) \<Rightarrow> (Err e, db)
          | (Ok issued, db1) \<Rightarrow> (Ok issued, mark_token_revoked old db1))))"

definition add_member_if_absent :: "int \<Rightarrow> string \<Rightarrow> space_role \<Rightarrow> space_db \<Rightarrow> bool \<times> space_db" where
  "add_member_if_absent now node_id role db =
     (if is_member_row node_id db then (False, db)
      else (True, db\<lparr> db_members := db_members db @
        [\<lparr> mr_node_id = node_id, mr_role = role_str role, mr_joined_at = now \<rparr>] \<rparr>))"

definition redeem_invite :: "(8 word list \<Rightarrow> 8 word list) \<Rightarrow> space_env \<Rightarrow> string \<Rightarrow> string \<Rightarrow> string \<Rightarrow> space_role
    \<Rightarrow> space_db \<Rightarrow> (issued_token, space_err) result \<times> space_db" where
  "redeem_invite sha256 env invite_id space_id member_id role db =
     (if length (filter (\<lambda>r. ir_id r = invite_id \<and> \<not> ir_revoked r) (db_invites db)) \<noteq> 1
      then (Err (SpMsg (''Invite '' @ invite_id @ '' already used'')), db)
      else case add_member_if_absent (se_now env 2) member_id role (mark_invite_revoked invite_id db) of
             (False, _) \<Rightarrow> (Err (SpMsg (''member '' @ member_id @ '' already exists in the space'')), db)
           | (True, db2) \<Rightarrow> (case insert_token_row sha256 env space_id member_id role None db2 of
               (Err e, _) \<Rightarrow> (Err e, db)
             | (Ok issued, db3) \<Rightarrow> (Ok issued, db3)))"

definition revoke_token :: "string \<Rightarrow> space_db \<Rightarrow> revoke_outcome \<times> space_db" where
  "revoke_token tid db =
     (if list_ex (\<lambda>r. tk_token_id r = tid \<and> \<not> tk_revoked r) (db_tokens db) then (RoRevoked, mark_token_revoked tid db)
      else if list_ex (\<lambda>r. tk_token_id r = tid) (db_tokens db) then (RoAlreadyRevoked, db)
      else (RoNotFound, db))"

definition token_info_of :: "token_row \<Rightarrow> (token_info, space_err) result" where
  "token_info_of r = (case role_from (tk_role r) of
     Err e \<Rightarrow> Err e
   | Ok role \<Rightarrow> Ok \<lparr> ti_token_id = tk_token_id r, ti_member_id = tk_member_id r, ti_role = role,
       ti_created_at = tk_created_at r, ti_expires_at = tk_expires_at r, ti_revoked = tk_revoked r \<rparr>)"

definition list_tokens :: "space_db \<Rightarrow> (token_info list, space_err) result" where
  "list_tokens db = collect_results (map token_info_of (sort_key (\<lambda>r. (tk_created_at r, tk_token_id r)) (db_tokens db)))"

definition weaker_role :: "space_role \<Rightarrow> space_role \<Rightarrow> space_role" where
  "weaker_role member_role token_role = (if rank member_role < rank token_role then member_role else token_role)"

definition verify_token :: "(8 word list \<Rightarrow> 8 word list) \<Rightarrow> int \<Rightarrow> string \<Rightarrow> string \<Rightarrow> space_db
    \<Rightarrow> (space_auth, token_error) result" where
  "verify_token sha256 now space_id raw db =
     (let want = hash_token sha256 raw
      in case find (\<lambda>r. tk_hash r = want) (db_tokens db) of
           None \<Rightarrow> Err TeInvalid
         | Some r \<Rightarrow>
             (if tk_hash r \<noteq> want then Err TeInvalid
              else if tk_revoked r then Err TeInvalid
              else if (case tk_expires_at r of Some e \<Rightarrow> e \<le> now | None \<Rightarrow> False) then Err TeInvalid
              else case role_from (tk_role r) of
                     Err _ \<Rightarrow> Err TeInvalid
                   | Ok token_role \<Rightarrow> (case member (tk_member_id r) db of
                       Ok (Some m) \<Rightarrow> Ok \<lparr> sa_space_id = space_id, sa_member_id = tk_member_id r,
                                           sa_role = weaker_role (sm_role m) token_role \<rparr>
                     | _ \<Rightarrow> Err TeInvalid)))"

section \<open>The text of a token\<close>

lemma b64url_group_chars: "list_all secret_char (b64url_group c)"
proof -
  have all: "list_all secret_char b64url_chars"
    by (simp add: b64url_chars_def secret_char_def is_alnum_def)
  have len: "length b64url_chars = 64" by (simp add: b64url_chars_def)
  have "unat (x AND 63) < 64" for x :: "32 word"
  proof -
    have "x AND 63 \<le> 63" by (rule word_and_le1)
    then show ?thesis by (simp add: word_le_nat_alt)
  qed
  then have "secret_char (b64url_chars ! unat (x AND 63))" for x :: "32 word"
    using all len by (simp only: list_all_length)
  then show ?thesis by (simp add: b64url_group_def Let_def)
qed

lemma b64url_chars_ok: "list_all secret_char (b64url_encode data)"
  using b64url_group_chars by (induction "chunks 3 data") (simp_all add: b64url_encode_def list_all_iff)

lemma length_b64url_group: "0 < length c \<Longrightarrow> length c \<le> 3 \<Longrightarrow> length (b64url_group c) = length c + 1"
proof -
  assume "0 < length c" "length c \<le> 3"
  then consider "length c = 1" | "length c = 2" | "length c = 3" by linarith
  then show ?thesis by cases (simp_all add: b64url_group_def Let_def)
qed

lemma length_b64url: "length (b64url_encode data) = length data + (length data + 2) div 3"
proof (induction "length data" arbitrary: data rule: less_induct)
  case less
  show ?case
  proof (cases "length data \<le> 3")
    case True
    then consider "data = []" | "length data = 1" | "length data = 2" | "length data = 3"
      by (metis length_0_conv less_Suc_eq less_Suc_eq_le numeral_3_eq_3 One_nat_def Suc_1 less_one)
    then show ?thesis
      by cases (simp_all add: b64url_encode_def chunks_short length_b64url_group)
  next
    case False
    then have s: "chunks 3 data = take 3 data # chunks 3 (drop 3 data)" by (subst chunks.simps) auto
    then have "length (b64url_encode data) = 4 + length (b64url_encode (drop 3 data))"
      using False by (simp add: b64url_encode_def length_b64url_group)
    then show ?thesis using less [of "drop 3 data"] False by simp
  qed
qed

lemma alnum_ascii: "is_alnum c \<Longrightarrow> (of_char c :: nat) < 128"
  by (auto simp: is_alnum_def Let_def)

lemma id_char_ascii: "id_char c \<Longrightarrow> (of_char c :: nat) < 128"
  by (auto simp: id_char_def dest: alnum_ascii)

lemma secret_char_id: "secret_char c \<longleftrightarrow> id_char c"
  by (simp add: secret_char_def id_char_def)

lemma strip_prefix_SomeD: "strip_prefix s p = Some rest \<Longrightarrow> s = p @ rest"
  by (auto simp: strip_prefix_def starts_with_iff split: if_splits)

lemma strip_suffix_SomeD: "strip_suffix_char c s = Some t \<Longrightarrow> s = t @ [c]"
  using append_butlast_last_id [of s] by (auto simp: strip_suffix_char_def split: if_splits)

lemma validate_space_id_iff: "validate_space_id i = Ok () \<longleftrightarrow> i \<noteq> [] \<and> length i \<le> 64 \<and> list_all id_char i"
  by (auto simp: validate_space_id_def)

lemma token_text_parses:
  assumes "length secret = secret_len" "list_all secret_char secret" "validate_space_id i = Ok ()"
  shows "parse_token (token_prefix @ i @ ''_'' @ secret) = Ok i"
proof -
  have "is_ascii (i @ ''_'' @ secret)"
    using assms(2,3) id_char_ascii by (auto simp: is_ascii_def list_all_iff validate_space_id_iff secret_char_id)
  moreover have "i \<noteq> []" using assms(3) by (simp add: validate_space_id_iff)
  ultimately show ?thesis
    using assms by (simp add: parse_token_def Let_def strip_suffix_char_def Suc_le_eq)
qed

lemma issued_text_parses:
  assumes "length bs = 32" "validate_space_id i = Ok ()"
  shows "parse_token (token_prefix @ i @ ''_'' @ b64url_encode bs) = Ok i"
  by (rule token_text_parses) (use assms b64url_chars_ok in \<open>simp_all add: length_b64url secret_len_def\<close>)

text \<open>A text is read as a token of a space exactly when it is the prefix, the valid space id, an underscore and 43
  characters of the base64url alphabet, whatever underscores the id has itself; every token the code issues from 32
  random bytes is of this form and is read back to its space.\<close>

theorem token_text_roundtrip:
  "(parse_token raw = Ok i \<longleftrightarrow> (\<exists>secret. raw = token_prefix @ i @ ''_'' @ secret \<and> length secret = secret_len
      \<and> list_all secret_char secret \<and> validate_space_id i = Ok ()))
   \<and> (fst (issue_token sha256 env i member_id role expires db) = Ok issued \<and> length (se_secret env) = 32
      \<longrightarrow> parse_token (it_raw issued) = Ok i)"
proof -
  have "\<exists>secret. raw = token_prefix @ i @ ''_'' @ secret \<and> length secret = secret_len
      \<and> list_all secret_char secret \<and> validate_space_id i = Ok ()" if ok: "parse_token raw = Ok i"
  proof -
    obtain rest where sp: "strip_prefix raw token_prefix = Some rest"
      using ok by (auto simp: parse_token_def split: option.splits)
    obtain j where len: "secret_len + 2 \<le> length rest"
      and h: "strip_suffix_char CHR ''_'' (take (length rest - secret_len) rest) = Some j"
      using ok sp by (auto simp: parse_token_def Let_def split: if_splits option.splits)
    have s: "list_all secret_char (drop (length rest - secret_len) rest)" and v: "is_ok (validate_space_id j)" and "j = i"
      using ok sp h by (auto simp: parse_token_def Let_def split: if_splits)
    note h = h [unfolded \<open>j = i\<close>] and v = v [unfolded \<open>j = i\<close>]
    have r: "raw = token_prefix @ rest" using sp by (rule strip_prefix_SomeD)
    have "take (length rest - secret_len) rest = i @ ''_''"
      using strip_suffix_SomeD [OF h] by simp
    then have "rest = i @ ''_'' @ drop (length rest - secret_len) rest"
      by (metis append.assoc append_take_drop_id)
    moreover have "length (drop (length rest - secret_len) rest) = secret_len" using len by simp
    moreover have "validate_space_id i = Ok ()" using v by (auto simp: is_ok_iff)
    ultimately show ?thesis using r s by metis
  qed
  moreover have "parse_token (it_raw issued) = Ok i"
    if "fst (issue_token sha256 env i member_id role expires db) = Ok issued" "length (se_secret env) = 32"
  proof -
    have "it_raw issued = token_prefix @ i @ ''_'' @ b64url_encode (se_secret env)" "validate_space_id i = Ok ()"
      using that(1) by (auto simp: issue_token_def insert_token_row_def Let_def split: sum.splits if_splits)
    then show ?thesis
      using issued_text_parses [OF that(2)] by simp
  qed
  ultimately show ?thesis using token_text_parses by blast
qed

text \<open>An id that contains underscores, and the shortest id.\<close>

theorem token_text_roundtrip_witness:
  "parse_token (it_raw \<lparr> it_token_id = ''t'', it_raw = token_prefix @ ''a_b'' @ ''_'' @ b64url_encode (replicate 32 0) \<rparr>) = Ok ''a_b''"
proof -
  let ?env = "\<lparr> se_now = \<lambda>_. 0, se_ulid = ''t'', se_secret = replicate 32 0, se_ttl_var = None \<rparr>"
  let ?db = "snd (space_add_member 0 ''n'' SrAdmin empty_db)"
  have "fst (issue_token id ?env ''a_b'' ''n'' SrAdmin None ?db)
    = Ok \<lparr> it_token_id = ''t'', it_raw = token_prefix @ ''a_b'' @ ''_'' @ b64url_encode (replicate 32 0) \<rparr>"
    by (simp add: issue_token_def insert_token_row_def Let_def validate_space_id_def id_char_def is_alnum_def
        is_member_row_def add_member_rows) (simp add: space_add_member_def empty_db_def Let_def)
  then show ?thesis
    by (rule conjunct2 [OF token_text_roundtrip, rule_format, OF conjI]) simp
qed

section \<open>What an accepted token shows\<close>

definition tokens_ok :: "space_db \<Rightarrow> bool" where
  "tokens_ok db = (distinct (map tk_token_id (db_tokens db)) \<and> distinct (map tk_hash (db_tokens db))
     \<and> list_all (\<lambda>r. is_ok (role_from (tk_role r))) (db_tokens db))"

definition space_ok :: "space_db \<Rightarrow> bool" where
  "space_ok db = (members_ok db \<and> invites_ok db \<and> tokens_ok db)"

lemma space_ok_empty [simp]: "space_ok empty_db"
  by (simp add: space_ok_def tokens_ok_def) (simp add: empty_db_def)

definition token_live :: "int \<Rightarrow> token_row \<Rightarrow> bool" where
  "token_live now r = (\<not> tk_revoked r \<and> (\<forall>e. tk_expires_at r = Some e \<longrightarrow> now < e))"

lemma token_by_hash:
  "tokens_ok db \<Longrightarrow> find (\<lambda>r. tk_hash r = h) (db_tokens db) = Some r \<longleftrightarrow> r \<in> set (db_tokens db) \<and> tk_hash r = h"
  by (rule distinct_key_find) (simp add: tokens_ok_def)

lemma verify_token_iff:
  assumes "space_ok db"
  shows "(verify_token sha256 now sid raw db = Ok auth \<longleftrightarrow>
      (\<exists>r m token_role. r \<in> set (db_tokens db) \<and> tk_hash r = hash_token sha256 raw \<and> token_live now r
         \<and> tk_role r = role_str token_role \<and> member (tk_member_id r) db = Ok (Some m)
         \<and> auth = \<lparr> sa_space_id = sid, sa_member_id = tk_member_id r, sa_role = weaker_role (sm_role m) token_role \<rparr>))
    \<and> (can (weaker_role mr tr) act \<longleftrightarrow> can mr act \<and> can tr act)"
proof -
  have tok: "tokens_ok db" and mem: "members_ok db" using assms by (simp_all add: space_ok_def)
  have "can (weaker_role mr tr) act \<longleftrightarrow> can mr act \<and> can tr act"
    by (cases mr; cases tr; cases act) (simp_all add: weaker_role_def rank_def)
  moreover have "verify_token sha256 now sid raw db = Ok auth \<longleftrightarrow>
      (\<exists>r m token_role. r \<in> set (db_tokens db) \<and> tk_hash r = hash_token sha256 raw \<and> token_live now r
         \<and> tk_role r = role_str token_role \<and> member (tk_member_id r) db = Ok (Some m)
         \<and> auth = \<lparr> sa_space_id = sid, sa_member_id = tk_member_id r, sa_role = weaker_role (sm_role m) token_role \<rparr>)"
  proof (cases "find (\<lambda>r. tk_hash r = hash_token sha256 raw) (db_tokens db)")
    case None
    then have "\<forall>r\<in>set (db_tokens db). tk_hash r \<noteq> hash_token sha256 raw" by (simp add: find_None_iff)
    then show ?thesis using None by (auto simp: verify_token_def)
  next
    case (Some r)
    note r = Some [unfolded token_by_hash [OF tok]]
    have only: "q = r" if "q \<in> set (db_tokens db)" "tk_hash q = hash_token sha256 raw" for q
      using token_by_hash [OF tok, of "hash_token sha256 raw" q] Some that by simp
    obtain role where role: "tk_role r = role_str role"
      using tok r role_from_OkD by (fastforce simp: tokens_ok_def list_all_iff is_ok_iff)
    have inj: "role_str a = role_str b \<longleftrightarrow> a = b" for a b by (cases a; cases b) (simp_all add: role_str_def)
    have live: "token_live now r \<longleftrightarrow> \<not> tk_revoked r \<and> \<not> (case tk_expires_at r of Some e \<Rightarrow> e \<le> now | None \<Rightarrow> False)"
      by (auto simp: token_live_def split: option.split)
    have "verify_token sha256 now sid raw db = Ok auth \<longleftrightarrow> token_live now r \<and> (\<exists>m. member (tk_member_id r) db = Ok (Some m)
        \<and> auth = \<lparr> sa_space_id = sid, sa_member_id = tk_member_id r, sa_role = weaker_role (sm_role m) role \<rparr>)"
      using Some r role live by (auto simp: verify_token_def Let_def split: sum.splits option.splits)
    then show ?thesis using only r role inj by metis
  qed
  ultimately show ?thesis by blast
qed

text \<open>A raw token authenticates exactly when a row of the space has its hash, is neither revoked nor expired, and its
  holder is a member at that moment; the caller then acts for that member with the weaker of the role of the token and
  the role the member has now, so it may do only what both roles allow.\<close>

theorem verify_token_spec:
  assumes "space_ok db"
  shows "(verify_token sha256 now sid raw db = Ok auth \<longleftrightarrow>
      (\<exists>r m token_role. r \<in> set (db_tokens db) \<and> tk_hash r = hash_token sha256 raw \<and> token_live now r
         \<and> tk_role r = role_str token_role \<and> member (tk_member_id r) db = Ok (Some m)
         \<and> auth = \<lparr> sa_space_id = sid, sa_member_id = tk_member_id r, sa_role = weaker_role (sm_role m) token_role \<rparr>))
    \<and> (can (weaker_role mr tr) act \<longleftrightarrow> can mr act \<and> can tr act)"
  by (rule verify_token_iff [OF assms])

text \<open>A moderator with the token of an administrator: the token is valid and gives the role of a moderator.\<close>

theorem verify_token_spec_witness:
  "verify_token (\<lambda>b. b) 5 ''s'' ''x'' (empty_db\<lparr>
     db_members := [\<lparr> mr_node_id = ''n'', mr_role = ''moderator'', mr_joined_at = 0 \<rparr>],
     db_tokens := [\<lparr> tk_token_id = ''t'', tk_hash = ''78'', tk_member_id = ''n'', tk_role = ''admin'', tk_created_at = 0,
       tk_expires_at = Some 6, tk_revoked = False \<rparr>] \<rparr>)
   = Ok \<lparr> sa_space_id = ''s'', sa_member_id = ''n'', sa_role = SrModerator \<rparr>"
proof -
  let ?db = "empty_db\<lparr> db_members := [\<lparr> mr_node_id = ''n'', mr_role = ''moderator'', mr_joined_at = 0 \<rparr>],
     db_tokens := [\<lparr> tk_token_id = ''t'', tk_hash = ''78'', tk_member_id = ''n'', tk_role = ''admin'', tk_created_at = 0,
       tk_expires_at = Some 6, tk_revoked = False \<rparr>] \<rparr>"
  let ?r = "\<lparr> tk_token_id = ''t'', tk_hash = ''78'', tk_member_id = ''n'', tk_role = ''admin'', tk_created_at = 0,
       tk_expires_at = Some 6, tk_revoked = False \<rparr>"
  have ok: "space_ok ?db"
    by (simp add: space_ok_def members_ok_def invites_ok_def tokens_ok_def empty_db_def role_from_def)
  have "hash_token (\<lambda>b. b) ''x'' = ''78''" by (simp add: hash_token_def bytes_of_def) code_simp
  moreover have "member ''n'' ?db = Ok (Some \<lparr> sm_node_id = ''n'', sm_role = SrModerator, sm_joined_at = 0 \<rparr>)"
    by (simp add: member_def membership_of_def role_from_def)
  moreover have "weaker_role SrModerator SrAdmin = SrModerator" by (simp add: weaker_role_def rank_def)
  ultimately show ?thesis
    by (intro iffD2 [OF conjunct1 [OF verify_token_spec [OF ok]]] exI [of _ ?r] exI [of _ SrAdmin]
        exI [of _ "\<lparr> sm_node_id = ''n'', sm_role = SrModerator, sm_joined_at = 0 \<rparr>"])
      (simp add: token_live_def role_str_def)
qed

section \<open>Later states\<close>

text \<open>Any sequence of operations on a space: those of this file, of the member and invitation tables, and any change of
  the tables of messages, links and meta data.\<close>

inductive space_step :: "(8 word list \<Rightarrow> 8 word list) \<Rightarrow> space_db \<Rightarrow> space_db \<Rightarrow> bool" for sha256 where
  st_add: "space_step sha256 db (snd (space_add_member now n role db))"
| st_add_absent: "space_step sha256 db (snd (add_member_if_absent now n role db))"
| st_remove: "space_step sha256 db (snd (space_remove_member n db))"
| st_invite: "space_step sha256 db (snd (insert_invite invite db))"
| st_revoke_invite: "space_step sha256 db (snd (revoke_invite i db))"
| st_sign: "space_step sha256 db (snd (set_invite_signature i sig db))"
| st_issue: "space_step sha256 db (snd (issue_token sha256 env sid n role expires db))"
| st_rotate: "space_step sha256 db (snd (rotate_token sha256 env sid old db))"
| st_redeem: "space_step sha256 db (snd (redeem_invite sha256 env i sid n role db))"
| st_revoke: "space_step sha256 db (snd (revoke_token tid db))"
| st_other: "db_members db' = db_members db \<Longrightarrow> db_invites db' = db_invites db \<Longrightarrow> db_tokens db' = db_tokens db \<Longrightarrow>
    space_step sha256 db db'"

definition space_reaches :: "(8 word list \<Rightarrow> 8 word list) \<Rightarrow> space_db \<Rightarrow> space_db \<Rightarrow> bool" where
  "space_reaches sha256 = (space_step sha256)\<^sup>*\<^sup>*"

lemma insert_token_row_cases:
  assumes "insert_token_row sha256 env sid n role expires db = (res, db')"
  obtains e where "res = Err e" "db' = db"
  | row where "res = Ok \<lparr> it_token_id = se_ulid env, it_raw = token_prefix @ sid @ ''_'' @ b64url_encode (se_secret env) \<rparr>"
      "db' = db\<lparr> db_tokens := db_tokens db @ [row] \<rparr>" "tk_token_id row = se_ulid env" "tk_revoked row = False"
      "tk_hash row = hash_token sha256 (token_prefix @ sid @ ''_'' @ b64url_encode (se_secret env))"
      "tk_member_id row = n" "tk_role row = role_str role" "is_member_row n db" "validate_space_id sid = Ok ()"
      "tk_expires_at row = Some (case expires of Some e \<Rightarrow> e | None \<Rightarrow> default_token_expiry env)"
      "se_ulid env \<notin> tk_token_id ` set (db_tokens db)" "tk_hash row \<notin> tk_hash ` set (db_tokens db)"
  using assms unfolding insert_token_row_def
  by (auto simp: Let_def list_ex_key split: sum.splits if_splits)

lemma map_revoke_token_ids:
  "map tk_token_id (map (\<lambda>r. if tk_token_id r = t then r\<lparr> tk_revoked := True \<rparr> else r) rows) = map tk_token_id rows"
  "map tk_hash (map (\<lambda>r. if tk_token_id r = t then r\<lparr> tk_revoked := True \<rparr> else r) rows) = map tk_hash rows"
  by (induction rows) auto

lemma tokens_ok_mark: "tokens_ok db \<Longrightarrow> tokens_ok (mark_token_revoked t db)"
  by (auto simp: mark_token_revoked_def tokens_ok_def map_revoke_token_ids list_all_iff simp del: map_map)

lemma tokens_ok_insert:
  assumes "tokens_ok db" "insert_token_row sha256 env sid n role expires db = (res, db')"
  shows "tokens_ok db'"
  using assms(2)
proof (cases rule: insert_token_row_cases)
  case (2 row)
  then show ?thesis using assms(1) by (simp add: tokens_ok_def)
qed (use assms(1) in simp)

lemma tokens_ok_cong: "db_tokens a = db_tokens b \<Longrightarrow> tokens_ok a = tokens_ok b"
  and members_ok_cong: "db_members a = db_members b \<Longrightarrow> members_ok a = members_ok b"
  and invites_ok_cong: "db_invites a = db_invites b \<Longrightarrow> invites_ok a = invites_ok b"
  by (simp_all add: tokens_ok_def members_ok_def invites_ok_def)

lemma frame_members [simp]:
  "db_tokens (snd (space_add_member now n role db)) = db_tokens db" "db_invites (snd (space_add_member now n role db)) = db_invites db"
  "db_tokens (snd (space_remove_member n db)) = db_tokens db" "db_invites (snd (space_remove_member n db)) = db_invites db"
  "db_tokens (snd (add_member_if_absent now n role db)) = db_tokens db"
  "db_invites (snd (add_member_if_absent now n role db)) = db_invites db"
  by (simp_all add: space_add_member_def space_remove_member_def add_member_if_absent_def Let_def)

lemma frame_invites [simp]:
  "db_tokens (snd (insert_invite invite db)) = db_tokens db" "db_members (snd (insert_invite invite db)) = db_members db"
  "db_tokens (snd (revoke_invite i db)) = db_tokens db" "db_members (snd (revoke_invite i db)) = db_members db"
  "db_tokens (snd (set_invite_signature i sig db)) = db_tokens db"
  "db_members (snd (set_invite_signature i sig db)) = db_members db"
  "db_tokens (mark_invite_revoked i db) = db_tokens db" "db_members (mark_invite_revoked i db) = db_members db"
  by (auto simp: insert_invite_def revoke_invite_def set_invite_signature_def mark_invite_revoked_def split: option.splits)

lemma frame_tokens [simp]:
  "db_invites (mark_token_revoked t db) = db_invites db" "db_members (mark_token_revoked t db) = db_members db"
  "db_invites (snd (revoke_token t db)) = db_invites db" "db_members (snd (revoke_token t db)) = db_members db"
  by (simp_all add: mark_token_revoked_def revoke_token_def)

lemma insert_token_frame:
  "insert_token_row sha256 env sid n role expires db = (res, db') \<Longrightarrow>
   db_invites db' = db_invites db \<and> db_members db' = db_members db"
  by (erule insert_token_row_cases) auto

lemma members_ok_add_absent [inv_intros]: "members_ok db \<Longrightarrow> members_ok (snd (add_member_if_absent now n role db))"
  by (auto simp: add_member_if_absent_def members_ok_def is_member_row_def list_ex_key)

text \<open>The outcomes of a rotation and of a redemption.\<close>

lemma rotate_token_cases:
  assumes "rotate_token sha256 env sid old db = (res, db')"
  obtains e where "res = Err e" "db' = db"
  | r role issued db1 where "res = Ok issued" "r \<in> set (db_tokens db)" "tk_token_id r = old" "\<not> tk_revoked r"
      "role_from (tk_role r) = Ok role"
      "insert_token_row sha256 env sid (tk_member_id r) role None db = (Ok issued, db1)" "db' = mark_token_revoked old db1"
  using assms unfolding rotate_token_def
  by (auto split: option.splits sum.splits prod.splits dest!: find_SomeD)

lemma redeem_invite_cases:
  assumes "redeem_invite sha256 env i sid n role db = (res, db')"
  obtains e where "res = Err e" "db' = db"
  | issued where "res = Ok issued"
      "length (filter (\<lambda>r. ir_id r = i \<and> \<not> ir_revoked r) (db_invites db)) = 1" "\<not> is_member_row n db"
      "insert_token_row sha256 env sid n role None
         (snd (add_member_if_absent (se_now env 2) n role (mark_invite_revoked i db))) = (Ok issued, db')"
  using assms unfolding redeem_invite_def
  by (auto simp: add_member_if_absent_def is_member_row_def split: sum.splits prod.splits if_splits)

text \<open>What never goes away: a revoked row of a hash, and an invitation that is no longer open.\<close>

definition hash_revoked :: "string \<Rightarrow> space_db \<Rightarrow> bool" where
  "hash_revoked h db = (\<exists>r\<in>set (db_tokens db). tk_hash r = h \<and> tk_revoked r)"

definition invite_closed :: "string \<Rightarrow> space_db \<Rightarrow> bool" where
  "invite_closed i db = (i \<in> ir_id ` set (db_invites db) \<and> (\<forall>r\<in>set (db_invites db). ir_id r = i \<longrightarrow> ir_revoked r))"

lemma hash_revoked_cong: "db_tokens a = db_tokens b \<Longrightarrow> hash_revoked h a = hash_revoked h b"
  and invite_closed_cong: "db_invites a = db_invites b \<Longrightarrow> invite_closed i a = invite_closed i b"
  by (simp_all add: hash_revoked_def invite_closed_def)

lemma hash_revoked_mark: "hash_revoked h db \<Longrightarrow> hash_revoked h (mark_token_revoked t db)"
  by (force simp: hash_revoked_def mark_token_revoked_def)

lemma hash_revoked_insert:
  "insert_token_row sha256 env sid n role expires db = (res, db') \<Longrightarrow> hash_revoked h db \<Longrightarrow> hash_revoked h db'"
  by (erule insert_token_row_cases) (auto simp: hash_revoked_def)

lemma invite_closed_map:
  assumes "\<And>r. ir_id (f r) = ir_id r" "\<And>r. ir_revoked r \<Longrightarrow> ir_revoked (f r)" "invite_closed i db"
  shows "invite_closed i (db\<lparr> db_invites := map f (db_invites db) \<rparr>)"
proof -
  have "ir_id ` f ` set (db_invites db) = ir_id ` set (db_invites db)" using assms(1) by (simp add: image_image)
  then show ?thesis using assms by (simp add: invite_closed_def)
qed

lemma invite_closed_mark: "invite_closed i db \<Longrightarrow> invite_closed i (mark_invite_revoked j db)"
  unfolding mark_invite_revoked_def by (rule invite_closed_map) auto

lemma mark_closes:
  assumes "i \<in> ir_id ` set (db_invites db)"
  shows "invite_closed i (mark_invite_revoked i db)"
proof -
  let ?f = "\<lambda>r. if ir_id r = i then r\<lparr> ir_revoked := True \<rparr> else r"
  have "ir_id ` ?f ` set (db_invites db) = ir_id ` set (db_invites db)"
    unfolding image_image by (rule image_cong) auto
  then have 1: "i \<in> ir_id ` ?f ` set (db_invites db)" using assms by (simp only:)
  have "ir_id (?f q) = i \<longrightarrow> ir_revoked (?f q)" for q :: invite_row by (cases "ir_id q = i") simp_all
  then have 2: "\<forall>r\<in>?f ` set (db_invites db). ir_id r = i \<longrightarrow> ir_revoked r"
    unfolding ball_simps by (intro ballI)
  have rows: "db_invites (mark_invite_revoked i db) = map ?f (db_invites db)" by (simp add: mark_invite_revoked_def)
  show ?thesis unfolding invite_closed_def rows set_map using 1 2 by (rule conjI)
qed

lemma invites_ok_insert_token:
  "insert_token_row sha256 env sid n role expires db = (res, db') \<Longrightarrow> invites_ok db' = invites_ok db"
  "insert_token_row sha256 env sid n role expires db = (res, db') \<Longrightarrow> members_ok db' = members_ok db"
  "insert_token_row sha256 env sid n role expires db = (res, db') \<Longrightarrow> invite_closed i db' = invite_closed i db"
  using insert_token_frame by (metis invites_ok_cong members_ok_cong invite_closed_cong)+

text \<open>The facts that every operation keeps.\<close>

definition keeps :: "space_db \<Rightarrow> space_db \<Rightarrow> bool" where
  "keeps db db' = ((space_ok db \<longrightarrow> space_ok db') \<and> (\<forall>h. hash_revoked h db \<longrightarrow> hash_revoked h db')
     \<and> (\<forall>i. invite_closed i db \<longrightarrow> invite_closed i db'))"

lemma keeps_tokens_same:
  assumes "db_tokens db' = db_tokens db" "members_ok db \<Longrightarrow> members_ok db'" "invites_ok db \<Longrightarrow> invites_ok db'"
    and "\<And>i. invite_closed i db \<Longrightarrow> invite_closed i db'"
  shows "keeps db db'"
  using assms tokens_ok_cong [OF assms(1)] hash_revoked_cong [OF assms(1)] by (auto simp: keeps_def space_ok_def)

lemma keeps_trans: "keeps a b \<Longrightarrow> keeps b c \<Longrightarrow> keeps a c"
  by (auto simp: keeps_def)

lemma keeps_refl [simp]: "keeps db db"
  by (simp add: keeps_def)

lemma keeps_members:
  "keeps db (snd (space_add_member now n role db))" "keeps db (snd (space_remove_member n db))"
  "keeps db (snd (add_member_if_absent now n role db))"
  by (rule keeps_tokens_same;
      simp add: members_ok_add members_ok_remove members_ok_add_absent cong: invites_ok_cong invite_closed_cong)+

lemma keeps_invites:
  "keeps db (snd (insert_invite invite db))" "keeps db (snd (revoke_invite i db))"
  "keeps db (snd (set_invite_signature i sig db))" "keeps db (mark_invite_revoked i db)"
proof -
  have "invite_closed j (snd (insert_invite invite db))" if "invite_closed j db" for j
    using that by (auto simp: invite_closed_def insert_invite_def list_ex_key invite_row_of_def)
  then show "keeps db (snd (insert_invite invite db))"
    by (intro keeps_tokens_same) (auto simp: insert_invite_ok cong: members_ok_cong)
  have "invite_closed j (snd (revoke_invite i db))" if "invite_closed j db" for j
    using that by (auto simp: revoke_invite_def invite_closed_mark split: option.split)
  then show "keeps db (snd (revoke_invite i db))"
    by (intro keeps_tokens_same) (auto simp: revoke_invite_ok cong: members_ok_cong)
  have "invite_closed j (snd (set_invite_signature i sig db))" if "invite_closed j db" for j
    using that unfolding set_invite_signature_def snd_conv by (intro invite_closed_map) auto
  then show "keeps db (snd (set_invite_signature i sig db))"
    by (intro keeps_tokens_same) (auto simp: set_invite_signature_ok cong: members_ok_cong)
  show "keeps db (mark_invite_revoked i db)"
    by (intro keeps_tokens_same) (auto simp: mark_invite_revoked_ok invite_closed_mark cong: members_ok_cong)
qed

lemma keeps_insert_token: "insert_token_row sha256 env sid n role expires db = (res, db') \<Longrightarrow> keeps db db'"
  using tokens_ok_insert invites_ok_insert_token hash_revoked_insert unfolding keeps_def space_ok_def by metis

lemma keeps_mark_token: "keeps db (mark_token_revoked t db)"
  using tokens_ok_mark hash_revoked_mark
  by (auto simp: keeps_def space_ok_def cong: members_ok_cong invites_ok_cong invite_closed_cong)

lemma keeps_rotate: "rotate_token sha256 env sid old db = (res, db') \<Longrightarrow> keeps db db'"
  by (erule rotate_token_cases) (auto intro: keeps_trans keeps_insert_token keeps_mark_token)

lemma keeps_redeem: "redeem_invite sha256 env i sid n role db = (res, db') \<Longrightarrow> keeps db db'"
proof (erule redeem_invite_cases)
  fix issued
  assume "insert_token_row sha256 env sid n role None
    (snd (add_member_if_absent (se_now env 2) n role (mark_invite_revoked i db))) = (Ok issued, db')"
  from keeps_insert_token [OF this] show ?thesis
    by (rule keeps_trans [OF keeps_trans [OF keeps_invites(4) keeps_members(3)]])
qed simp

lemma keeps_step: "space_step sha256 db db' \<Longrightarrow> keeps db db'"
proof (induction rule: space_step.induct)
  case (st_issue db env sid n role expires)
  then show ?case unfolding issue_token_def by (rule keeps_insert_token) (rule prod.collapse [symmetric])
next
  case (st_rotate db env sid old)
  then show ?case by (rule keeps_rotate) (rule prod.collapse [symmetric])
next
  case (st_redeem db env i sid n role)
  then show ?case by (rule keeps_redeem) (rule prod.collapse [symmetric])
next
  case (st_revoke db tid)
  then show ?case by (simp add: revoke_token_def keeps_mark_token)
next
  case (st_other db' db)
  then show ?case
    using members_ok_cong invites_ok_cong invite_closed_cong by (intro keeps_tokens_same) metis+
qed (simp_all add: keeps_members keeps_invites)

lemma keeps_reaches: "space_reaches sha256 db db' \<Longrightarrow> keeps db db'"
  unfolding space_reaches_def by (induction rule: rtranclp_induct) (auto intro: keeps_trans keeps_step)

lemma hash_revoked_fails: "tokens_ok db \<Longrightarrow> hash_revoked (hash_token sha256 raw) db \<Longrightarrow> verify_token sha256 now sid raw db = Err TeInvalid"
proof -
  assume ok: "tokens_ok db" and "hash_revoked (hash_token sha256 raw) db"
  then obtain r where "find (\<lambda>r. tk_hash r = hash_token sha256 raw) (db_tokens db) = Some r" "tk_revoked r"
    using token_by_hash [OF ok] by (auto simp: hash_revoked_def)
  then show ?thesis by (simp add: verify_token_def Let_def)
qed

lemma mark_revokes: "r \<in> set (db_tokens db) \<Longrightarrow> hash_revoked (tk_hash r) (mark_token_revoked (tk_token_id r) db)"
  by (auto simp: hash_revoked_def mark_token_revoked_def intro!: bexI [of _ "r\<lparr> tk_revoked := True \<rparr>"] image_eqI [of _ _ r])

text \<open>C22: Once a token is revoked, or rotated for a new one, it authenticates nobody, in no later state: no sequence of
  operations on the space brings it back, not even issuing, rotating and redeeming, because its row stays and no second
  row with its hash is accepted.\<close>

theorem revoked_token_stays_dead:
  assumes "space_ok db" "r \<in> set (db_tokens db)" "tk_hash r = hash_token sha256 raw"
    and "revoke_token (tk_token_id r) db = (RoRevoked, db1) \<or> rotate_token sha256 env sid (tk_token_id r) db = (Ok issued, db1)"
    and "space_reaches sha256 db1 db2"
  shows "verify_token sha256 now sid' raw db2 = Err TeInvalid"
proof -
  have "space_ok db1 \<and> hash_revoked (hash_token sha256 raw) db1"
    using assms(4)
  proof
    assume "revoke_token (tk_token_id r) db = (RoRevoked, db1)"
    then have "db1 = mark_token_revoked (tk_token_id r) db" by (auto simp: revoke_token_def split: if_splits)
    then show ?thesis using keeps_mark_token mark_revokes [OF assms(2)] assms(1,3) by (auto simp: keeps_def)
  next
    assume rot: "rotate_token sha256 env sid (tk_token_id r) db = (Ok issued, db1)"
    then obtain n role db0 where ins: "insert_token_row sha256 env sid n role None db = (Ok issued, db0)"
      and d: "db1 = mark_token_revoked (tk_token_id r) db0" by (cases rule: rotate_token_cases) auto
    have "r \<in> set (db_tokens db0)" using ins assms(2) by (cases rule: insert_token_row_cases) auto
    then show ?thesis using mark_revokes [of r db0] keeps_rotate [OF rot] assms(1,3) d by (simp add: keeps_def)
  qed
  then have "space_ok db2 \<and> hash_revoked (hash_token sha256 raw) db2"
    using keeps_reaches [OF assms(5)] by (simp add: keeps_def)
  then show ?thesis by (simp add: hash_revoked_fails space_ok_def)
qed

text \<open>The holder rotates the token; the old text is dead.\<close>

definition sample_env :: space_env where
  "sample_env = \<lparr> se_now = \<lambda>_. 0, se_ulid = ''t2'', se_secret = replicate 32 1, se_ttl_var = Some ''30'' \<rparr>"

definition sample_row :: token_row where
  "sample_row = \<lparr> tk_token_id = ''t'', tk_hash = ''78'', tk_member_id = ''n'', tk_role = ''member'', tk_created_at = 0,
     tk_expires_at = None, tk_revoked = False \<rparr>"

definition sample_space :: space_db where
  "sample_space = empty_db\<lparr> db_members := [\<lparr> mr_node_id = ''n'', mr_role = ''admin'', mr_joined_at = 0 \<rparr>],
     db_tokens := [sample_row] \<rparr>"

lemma sample_space_ok: "space_ok sample_space"
  by (simp add: sample_space_def sample_row_def space_ok_def members_ok_def invites_ok_def tokens_ok_def empty_db_def
      role_from_def)

lemma sample_hash: "hash_token (\<lambda>b. b) ''x'' = ''78''"
  by (simp add: hash_token_def bytes_of_def) code_simp

theorem revoked_token_stays_dead_witness:
  "is_ok (verify_token (\<lambda>b. b) 5 ''s'' ''x'' sample_space)
   \<and> verify_token (\<lambda>b. b) 5 ''s'' ''x'' (snd (revoke_token ''t'' sample_space)) = Err TeInvalid"
proof
  have "verify_token (\<lambda>b. b) 5 ''s'' ''x'' sample_space
    = Ok \<lparr> sa_space_id = ''s'', sa_member_id = ''n'', sa_role = SrMember \<rparr>"
    by (simp add: verify_token_def sample_hash sample_space_def sample_row_def role_from_def member_def membership_of_def
        weaker_role_def rank_def)
  then show "is_ok (verify_token (\<lambda>b. b) 5 ''s'' ''x'' sample_space)" by simp
  have rev: "revoke_token (tk_token_id sample_row) sample_space = (RoRevoked, snd (revoke_token ''t'' sample_space))"
    by (simp add: revoke_token_def sample_space_def sample_row_def)
  have row: "sample_row \<in> set (db_tokens sample_space)" "tk_hash sample_row = hash_token (\<lambda>b. b) ''x''"
    by (simp_all add: sample_space_def sample_row_def sample_hash)
  have "space_reaches (\<lambda>b. b) db db" for db by (simp add: space_reaches_def)
  then show "verify_token (\<lambda>b. b) 5 ''s'' ''x'' (snd (revoke_token ''t'' sample_space)) = Err TeInvalid"
    by (rule revoked_token_stays_dead [OF sample_space_ok row disjI1 [OF rev]])
qed

text \<open>A redemption makes the member, closes the invitation and gives a token that is valid at once.\<close>

lemma redeemed_state:
  assumes "space_ok db" "redeem_invite sha256 env i sid n role db = (Ok issued, db1)"
  shows "space_ok db1 \<and> \<not> is_member_row n db \<and> invite_closed i db1
    \<and> it_raw issued = token_prefix @ sid @ ''_'' @ b64url_encode (se_secret env) \<and> validate_space_id sid = Ok ()
    \<and> (now < default_token_expiry env \<longrightarrow> verify_token sha256 now sid (it_raw issued) db1
        = Ok \<lparr> sa_space_id = sid, sa_member_id = n, sa_role = role \<rparr>)"
  using assms(2)
proof (cases rule: redeem_invite_cases)
  case (2 issued')
  have k: "keeps db db1" by (rule keeps_redeem [OF assms(2)])
  then have ok1: "space_ok db1" using assms(1) by (simp add: keeps_def)
  obtain row where row: "row \<in> set (db_tokens db1)" "tk_revoked row = False" "tk_hash row = hash_token sha256 (it_raw issued)"
    "tk_member_id row = n" "tk_role row = role_str role" "tk_expires_at row = Some (default_token_expiry env)"
    "it_raw issued = token_prefix @ sid @ ''_'' @ b64url_encode (se_secret env)" "validate_space_id sid = Ok ()"
    using 2(4) 2(1) by (cases rule: insert_token_row_cases) auto
  have "db_members db1 = db_members db @ [\<lparr> mr_node_id = n, mr_role = role_str role, mr_joined_at = se_now env 2 \<rparr>]"
    using insert_token_frame [OF 2(4)] 2(3) by (simp add: add_member_if_absent_def is_member_row_def mark_invite_revoked_def)
  then have mem: "member n db1 = Ok (Some \<lparr> sm_node_id = n, sm_role = role, sm_joined_at = se_now env 2 \<rparr>)"
    using ok1 by (simp add: member_Some_iff space_ok_def)
  have w: "weaker_role role role = role" by (simp add: weaker_role_def)
  have valid: "verify_token sha256 now sid (it_raw issued) db1 = Ok \<lparr> sa_space_id = sid, sa_member_id = n, sa_role = role \<rparr>"
    if "now < default_token_expiry env"
    by (intro iffD2 [OF conjunct1 [OF verify_token_iff [OF ok1]]] exI [of _ row] exI [of _ role]
        exI [of _ "\<lparr> sm_node_id = n, sm_role = role, sm_joined_at = se_now env 2 \<rparr>"])
      (use row mem that w in \<open>simp add: token_live_def\<close>)
  have "i \<in> ir_id ` set (db_invites db)"
    using 2(2) by (metis (mono_tags, lifting) filter_False image_eqI length_0_conv zero_neq_one)
  then have "invite_closed i (mark_invite_revoked i db)" by (rule mark_closes)
  then have "invite_closed i db1"
    using invites_ok_insert_token(3) [OF 2(4)] by (simp cong: invite_closed_cong)
  then show ?thesis using valid 2(3) ok1 row(7,8) by blast
qed simp

lemma closed_invite_fails: "invite_closed i db \<Longrightarrow> \<not> is_ok (fst (redeem_invite sha256 env i sid n role db))"
  by (auto simp: redeem_invite_def invite_closed_def filter_empty_conv)

text \<open>An invitation admits once: its redemption makes its target a member with its role and gives a token that
  authenticates as that member, with that role, until it expires; and in no later state does the same invitation admit
  anybody.\<close>

theorem invite_admits_once:
  assumes "space_ok db" "redeem_invite sha256 env i sid n role db = (Ok issued, db1)"
  shows "(now < default_token_expiry env \<longrightarrow> verify_token sha256 now sid (it_raw issued) db1
        = Ok \<lparr> sa_space_id = sid, sa_member_id = n, sa_role = role \<rparr>)
    \<and> \<not> is_member_row n db
    \<and> (\<forall>db2. space_reaches sha256 db1 db2 \<longrightarrow> \<not> is_ok (fst (redeem_invite sha256 env' i sid' n' role' db2)))"
  using redeemed_state [OF assms] keeps_reaches closed_invite_fails unfolding keeps_def by blast

definition sample_invite :: space_invite where
  "sample_invite = \<lparr> si_id = ''i'', si_space_id = ''s'', si_inviter_node = ''n'', si_target_node = ''m'', si_role = SrReader,
     si_created_at = 0, si_expires_at = 9, si_signature = None, si_revoked = False \<rparr>"

lemma sample_redeemed: "is_ok (fst (redeem_invite (\<lambda>b. b) sample_env ''i'' ''s'' ''m'' SrReader (snd (insert_invite sample_invite sample_space))))"
proof -
  let ?db = "snd (insert_invite sample_invite sample_space)"
  have db: "?db = sample_space\<lparr> db_invites := [invite_row_of sample_invite] \<rparr>"
    by (simp add: insert_invite_def sample_space_def empty_db_def)
  have "length (utils_hex_encode bs) = 2 * length bs" for bs
    by (induction bs) (simp_all add: utils_hex_encode_eq hex_encode_def)
  then have ne: "hash_token (\<lambda>b. b) (token_prefix @ ''s_'' @ t) \<noteq> ''78''" for t
    using utils_hex_encode_eq [symmetric] by (auto simp: hash_token_def token_prefix_def bytes_of_def dest!: arg_cong [where f = length])
  then show ?thesis
    unfolding db using ne [THEN not_sym]
    by (simp add: redeem_invite_def invite_row_of_def sample_invite_def add_member_if_absent_def is_member_row_def
        mark_invite_revoked_def insert_token_row_def validate_space_id_def id_char_def is_alnum_def sample_space_def
        sample_row_def empty_db_def sample_env_def Let_def)
qed

theorem invite_admits_once_witness:
  "is_ok (fst (redeem_invite (\<lambda>b. b) sample_env ''i'' ''s'' ''m'' SrReader (snd (insert_invite sample_invite sample_space))))
   \<and> \<not> is_ok (fst (redeem_invite (\<lambda>b. b) sample_env ''i'' ''s'' ''q'' SrAdmin
        (snd (redeem_invite (\<lambda>b. b) sample_env ''i'' ''s'' ''m'' SrReader (snd (insert_invite sample_invite sample_space))))))"
proof -
  let ?db = "snd (insert_invite sample_invite sample_space)"
  have ok: "space_ok ?db" using keeps_invites(1) sample_space_ok by (auto simp: keeps_def)
  have "is_ok (fst (redeem_invite (\<lambda>b. b) sample_env ''i'' ''s'' ''m'' SrReader ?db))" by (rule sample_redeemed)
  then obtain issued where red: "redeem_invite (\<lambda>b. b) sample_env ''i'' ''s'' ''m'' SrReader ?db
      = (Ok issued, snd (redeem_invite (\<lambda>b. b) sample_env ''i'' ''s'' ''m'' SrReader ?db))"
    by (metis is_ok_iff prod.collapse)
  moreover have "space_reaches (\<lambda>b. b) db db" for db by (simp add: space_reaches_def)
  ultimately show ?thesis
    using conjunct2 [OF conjunct2 [OF invite_admits_once [OF ok red, where env' = sample_env and sid' = "''s''"
          and n' = "''q''" and role' = SrAdmin]]]
    by (metis fst_conv is_ok.simps(1))
qed

text \<open>The tokens of a removed member come back to life with the member: a token issued before the removal is valid again
  after the node is added again.\<close>

lemma readmission_revives_tokens:
  assumes "space_ok db" "r \<in> set (db_tokens db)" "tk_hash r = hash_token sha256 raw" "token_live now r"
    and "tk_role r = role_str token_role"
  shows "verify_token sha256 now sid raw (snd (space_remove_member (tk_member_id r) db)) = Err TeInvalid"
    and "verify_token sha256 now sid raw (snd (space_add_member t (tk_member_id r) role (snd (space_remove_member (tk_member_id r) db))))
      = Ok \<lparr> sa_space_id = sid, sa_member_id = tk_member_id r, sa_role = weaker_role role token_role \<rparr>"
proof -
  let ?db1 = "snd (space_remove_member (tk_member_id r) db)" and ?db2 = "snd (space_add_member t (tk_member_id r) role (snd (space_remove_member (tk_member_id r) db)))"
  have ok1: "space_ok ?db1" using keeps_members(2) assms(1) by (auto simp: keeps_def)
  have ok2: "space_ok ?db2" using keeps_members(1) ok1 by (auto simp: keeps_def)
  have f: "find (\<lambda>q. tk_hash q = hash_token sha256 raw) (db_tokens db) = Some r"
    using token_by_hash [of db] assms(1-3) by (simp add: space_ok_def)
  then show "verify_token sha256 now sid raw ?db1 = Err TeInvalid"
    by (simp add: verify_token_def assms(3) split: sum.split)
  have "members_ok ?db1" using ok1 by (simp add: space_ok_def)
  from member_add [OF this, of "tk_member_id r" t "tk_member_id r" role] obtain j where
    "member (tk_member_id r) ?db2 = Ok (Some \<lparr> sm_node_id = tk_member_id r, sm_role = role, sm_joined_at = j \<rparr>)" by auto
  then show "verify_token sha256 now sid raw ?db2
      = Ok \<lparr> sa_space_id = sid, sa_member_id = tk_member_id r, sa_role = weaker_role role token_role \<rparr>"
    using f assms(3-5) by (auto simp: verify_token_def token_live_def split: option.splits)
qed

end
