(* ===== verification/SpaceKeys.thy ===== *)
theory SpaceKeys
  imports SpaceTokens
begin

text \<open>Keys of shared spaces: \<open>src/src/espacio/keys.rs\<close>. The ring holds the keystore files of the spaces (a file that
  does not parse is its error text), the keys that are unlocked and the spaces known to be encrypted. AES-GCM, HKDF,
  Argon2, SHA-256, random bytes and the outcome of a write are arguments. Shown: the associated data of a record
  determines every field, a recovery code is read back from its display, every unlock method gives back the key that was
  created, also after a change of password, and a space known to be encrypted never stores or shows plain text.\<close>

type_synonym bytes = "8 word list"

record space_crypto =
  cr_seal :: "bytes \<Rightarrow> bytes \<Rightarrow> bytes \<Rightarrow> bytes \<Rightarrow> bytes"
  cr_open :: "bytes \<Rightarrow> bytes \<Rightarrow> bytes \<Rightarrow> bytes \<Rightarrow> bytes option"
  cr_hkdf :: "bytes \<Rightarrow> bytes \<Rightarrow> bytes"
  cr_argon :: "bytes \<Rightarrow> bytes \<Rightarrow> bytes"
  cr_sha256 :: "bytes \<Rightarrow> bytes"

section \<open>Text and bytes\<close>

definition text_of :: "bytes \<Rightarrow> string" where
  "text_of bs = map (\<lambda>b. char_of (unat b)) bs"

text \<open>\<open>String::from_utf8\<close>.\<close>

definition cont :: "8 word \<Rightarrow> bool" where
  "cont b = (0x80 \<le> b \<and> b \<le> 0xBF)"

fun utf8_valid :: "bytes \<Rightarrow> bool" where
  "utf8_valid [] = True"
| "utf8_valid (b0 # rest) =
     (if b0 < 0x80 then utf8_valid rest
      else if 0xC2 \<le> b0 \<and> b0 \<le> 0xDF then (case rest of b1 # r \<Rightarrow> cont b1 \<and> utf8_valid r | _ \<Rightarrow> False)
      else if 0xE0 \<le> b0 \<and> b0 \<le> 0xEF then
        (case rest of b1 # b2 # r \<Rightarrow> cont b1 \<and> cont b2 \<and> (b0 = 0xE0 \<longrightarrow> 0xA0 \<le> b1) \<and> (b0 = 0xED \<longrightarrow> b1 \<le> 0x9F) \<and> utf8_valid r
         | _ \<Rightarrow> False)
      else if 0xF0 \<le> b0 \<and> b0 \<le> 0xF4 then
        (case rest of b1 # b2 # b3 # r \<Rightarrow> cont b1 \<and> cont b2 \<and> cont b3 \<and> (b0 = 0xF0 \<longrightarrow> 0x90 \<le> b1)
           \<and> (b0 = 0xF4 \<longrightarrow> b1 \<le> 0x8F) \<and> utf8_valid r
         | _ \<Rightarrow> False)
      else False)"

definition char_count :: "string \<Rightarrow> nat" where
  "char_count s = length (filter (\<lambda>b. \<not> cont b) (bytes_of s))"

fun keys_hex_pairs :: "string \<Rightarrow> bytes option" where
  "keys_hex_pairs (c # d # rest) = (case hex_val c of
     None \<Rightarrow> None
   | Some hi \<Rightarrow> (case hex_val d of
       None \<Rightarrow> None
     | Some lo \<Rightarrow> (case keys_hex_pairs rest of None \<Rightarrow> None | Some out \<Rightarrow> Some ((hi * 16 + lo) # out))))"
| "keys_hex_pairs _ = Some []"

definition keys_hex_decode :: "string \<Rightarrow> bytes option" where
  "keys_hex_decode s = (if length s mod 2 \<noteq> 0 \<or> \<not> is_ascii s then None else keys_hex_pairs s)"

definition be32 :: "nat \<Rightarrow> bytes" where
  "be32 n = (let w = of_nat n :: 32 word in
     [ucast (drop_bit 24 w), ucast (drop_bit 16 w), ucast (drop_bit 8 w), ucast w])"

section \<open>Associated data\<close>

definition push_field :: "bytes \<Rightarrow> bytes \<Rightarrow> bytes" where
  "push_field out f = out @ be32 (length f) @ f"

definition encode_ad :: "bytes list \<Rightarrow> bytes" where
  "encode_ad fs = foldl push_field [] fs"

datatype unlock_mode = NodeUnlock | PasswordRequired

definition unlock_mode_str :: "unlock_mode \<Rightarrow> string" where
  "unlock_mode_str m = (case m of NodeUnlock \<Rightarrow> ''node_unlock'' | PasswordRequired \<Rightarrow> ''password_required'')"

datatype wrapper_kind = WkNode | WkPassword | WkRecovery

definition wrapper_kind_str :: "wrapper_kind \<Rightarrow> string" where
  "wrapper_kind_str k = (case k of WkNode \<Rightarrow> ''node'' | WkPassword \<Rightarrow> ''password'' | WkRecovery \<Rightarrow> ''recovery'')"

definition format_version :: "32 word" where "format_version = 1"

definition wrap_ad_parts :: "string \<Rightarrow> wrapper_kind \<Rightarrow> unlock_mode \<Rightarrow> bool \<Rightarrow> bytes" where
  "wrap_ad_parts sid kind mode encrypt =
     push_field (push_field (push_field (push_field (push_field (push_field []
       (bytes_of ''xavier-space-keywrap'')) (be32 1)) (bytes_of (wrapper_kind_str kind))) (bytes_of sid))
       (bytes_of (unlock_mode_str mode))) [if encrypt then 1 else 0]"

definition record_ad :: "string \<Rightarrow> string \<Rightarrow> string \<Rightarrow> bytes" where
  "record_ad sid kind rid =
     push_field (push_field (push_field (push_field (push_field []
       (bytes_of ''xavier-space-record'')) (be32 1)) (bytes_of sid)) (bytes_of kind)) (bytes_of rid)"

definition snapshot_node_ad_fields :: "string \<Rightarrow> string \<Rightarrow> string \<Rightarrow> string \<Rightarrow> bytes list" where
  "snapshot_node_ad_fields ws project session cid =
     [bytes_of ''xavier-conv-snapshot'', be32 1, bytes_of ''node'', bytes_of ws, bytes_of project, bytes_of session, bytes_of cid]"

section \<open>Sealing\<close>

text \<open>The nonce is an array of 12 bytes.\<close>

definition nonce12 :: "bytes \<Rightarrow> bytes" where
  "nonce12 n = take 12 (n @ replicate 12 0)"

definition aead_seal :: "space_crypto \<Rightarrow> bytes \<Rightarrow> bytes \<Rightarrow> bytes \<Rightarrow> bytes \<Rightarrow> (bytes \<times> bytes, space_err) result" where
  "aead_seal cr nonce key plain ad =
     (if length key \<noteq> 32 then Err (SpMsg ''AES key init'') else Ok (nonce12 nonce, cr_seal cr key (nonce12 nonce) plain ad))"

definition aead_open :: "space_crypto \<Rightarrow> bytes \<Rightarrow> bytes \<Rightarrow> bytes \<Rightarrow> bytes \<Rightarrow> (bytes, space_err) result" where
  "aead_open cr key nonce ct ad =
     (if length nonce \<noteq> 12 then Err (SpKeys KeAuthFailed)
      else if length key \<noteq> 32 then Err (SpMsg ''AES key init'')
      else case cr_open cr key nonce ct ad of None \<Rightarrow> Err (SpKeys KeAuthFailed) | Some p \<Rightarrow> Ok p)"

definition record_prefix :: string where "record_prefix = ''xr1:''"

definition seal_record_bytes :: "space_crypto \<Rightarrow> bytes \<Rightarrow> bytes \<Rightarrow> string \<Rightarrow> string \<Rightarrow> string \<Rightarrow> bytes \<Rightarrow> (string, space_err) result" where
  "seal_record_bytes cr nonce key sid kind rid plain =
     (case aead_seal cr nonce key plain (record_ad sid kind rid) of
        Err e \<Rightarrow> Err e
      | Ok (n, ct) \<Rightarrow> Ok (record_prefix @ hex_encode (n @ ct)))"

definition open_record_bytes :: "space_crypto \<Rightarrow> bytes \<Rightarrow> string \<Rightarrow> string \<Rightarrow> string \<Rightarrow> string \<Rightarrow> (bytes, space_err) result" where
  "open_record_bytes cr key sid kind rid stored =
     (case strip_prefix stored record_prefix of
        None \<Rightarrow> Err (SpMsg ''record is not encrypted (refusing plaintext)'')
      | Some body \<Rightarrow> (case keys_hex_decode body of
          None \<Rightarrow> Err (SpMsg ''record is corrupt'')
        | Some raw \<Rightarrow>
            (if length raw < 12 then Err (SpMsg ''record is corrupt'')
             else case aead_open cr key (take 12 raw) (drop 12 raw) (record_ad sid kind rid) of
                    Err _ \<Rightarrow> Err (SpMsg ''record failed authentication'')
                  | Ok p \<Rightarrow> Ok p)))"

definition seal_record :: "space_crypto \<Rightarrow> bytes \<Rightarrow> bytes \<Rightarrow> string \<Rightarrow> string \<Rightarrow> string \<Rightarrow> string \<Rightarrow> (string, space_err) result" where
  "seal_record cr nonce key sid kind rid plain = seal_record_bytes cr nonce key sid kind rid (bytes_of plain)"

definition open_record :: "space_crypto \<Rightarrow> bytes \<Rightarrow> string \<Rightarrow> string \<Rightarrow> string \<Rightarrow> string \<Rightarrow> (string, space_err) result" where
  "open_record cr key sid kind rid stored =
     (case open_record_bytes cr key sid kind rid stored of
        Err e \<Rightarrow> Err e
      | Ok pt \<Rightarrow> (if utf8_valid pt then Ok (text_of pt) else Err (SpMsg ''record is not valid UTF-8'')))"

definition seal_with_ad :: "space_crypto \<Rightarrow> bytes \<Rightarrow> bytes \<Rightarrow> bytes list \<Rightarrow> bytes \<Rightarrow> (bytes, space_err) result" where
  "seal_with_ad cr nonce key fs plain =
     (case aead_seal cr nonce key plain (encode_ad fs) of Err e \<Rightarrow> Err e | Ok (n, ct) \<Rightarrow> Ok (n @ ct))"

definition open_with_ad :: "space_crypto \<Rightarrow> bytes \<Rightarrow> bytes list \<Rightarrow> bytes \<Rightarrow> (bytes, space_err) result" where
  "open_with_ad cr key fs raw =
     (if length raw < 12 + 16 then Err (SpKeys KeAuthFailed)
      else aead_open cr key (take 12 raw) (drop 12 raw) (encode_ad fs))"

text \<open>The keyed digest of a record: HMAC over a subkey, the label with its length first.\<close>

definition verify_mac :: "space_crypto \<Rightarrow> bytes \<Rightarrow> string \<Rightarrow> bytes \<Rightarrow> string" where
  "verify_mac cr key label data =
     (let sub = cr_sha256 cr (bytes_of ''xavier-record-verify-v1'' @ key);
          pad = (\<lambda>c. map (\<lambda>i. if i < length sub then c XOR sub ! i else c) [0..<64]);
          inner = cr_sha256 cr (pad 0x36 @ be32 (length label) @ bytes_of label @ data)
      in hex_encode (cr_sha256 cr (pad 0x5c @ inner)))"

section \<open>Recovery codes\<close>

definition recovery_check :: "space_crypto \<Rightarrow> bytes \<Rightarrow> bytes" where
  "recovery_check cr code = take 2 (cr_sha256 cr (bytes_of ''xavier-recovery-check-v1'' @ code))"

definition recovery_display :: "space_crypto \<Rightarrow> bytes \<Rightarrow> string" where
  "recovery_display cr code =
     ''XRC1'' @ concat (map (\<lambda>chunk. CHR ''-'' # chunk) (chunks 8 (ascii_upper (hex_encode (code @ recovery_check cr code)))))"

definition recovery_parse :: "space_crypto \<Rightarrow> string \<Rightarrow> (bytes, space_err) result" where
  "recovery_parse cr input =
     (case strip_prefix (ascii_lower (filter (\<lambda>c. \<not> ascii_space c \<and> c \<noteq> CHR ''-'') input)) ''xrc1'' of
        None \<Rightarrow> Err (SpKeys KeBadRecoveryCode)
      | Some body \<Rightarrow> (case keys_hex_decode body of
          None \<Rightarrow> Err (SpKeys KeBadRecoveryCode)
        | Some raw \<Rightarrow>
            (if length raw \<noteq> 32 + 2 then Err (SpKeys KeBadRecoveryCode)
             else if recovery_check cr (take 32 raw) \<noteq> drop 32 raw then Err (SpKeys KeBadRecoveryCode)
             else Ok (take 32 raw))))"

section \<open>Key derivation and wrappers\<close>

definition node_info :: "string \<Rightarrow> bytes" where
  "node_info sid = bytes_of (''xavier-space-wrap-v1:'' @ sid)"

text \<open>The trait \<open>NodeKek\<close> is the argument \<open>node\<close>; this is the provider over a given master key.\<close>

definition static_node_kek :: "space_crypto \<Rightarrow> bytes \<Rightarrow> string \<Rightarrow> (bytes, space_err) result" where
  "static_node_kek cr master sid = Ok (cr_hkdf cr master (node_info sid))"

definition password_kek :: "space_crypto \<Rightarrow> string \<Rightarrow> bytes \<Rightarrow> bytes" where
  "password_kek cr password salt = cr_argon cr (bytes_of password) salt"

definition recovery_kek :: "space_crypto \<Rightarrow> bytes \<Rightarrow> string \<Rightarrow> bytes" where
  "recovery_kek cr code sid = cr_hkdf cr code (bytes_of (''xavier-space-recovery-v1:'' @ sid))"

definition check_password :: "string \<Rightarrow> (unit, space_err) result" where
  "check_password pw = (if char_count pw < 8 then Err (SpKeys (KeWeakPassword ''at least 8 characters required'')) else Ok ())"

record wrapper_record =
  wr_kind :: wrapper_kind
  wr_salt :: "string option"
  wr_nonce :: string
  wr_ct :: string

record keystore_file =
  kf_version :: "32 word"
  kf_space_id :: string
  kf_mode :: unlock_mode
  kf_encrypt_records :: bool
  kf_wrappers :: "wrapper_record list"
  kf_kek_source :: "string option"

definition make_wrapper :: "space_crypto \<Rightarrow> bytes \<Rightarrow> string \<times> unlock_mode \<times> bool \<Rightarrow> wrapper_kind \<Rightarrow> bytes \<Rightarrow> bytes option \<Rightarrow> bytes
    \<Rightarrow> (wrapper_record, space_err) result" where
  "make_wrapper cr nonce meta kind kek salt dek =
     (case meta of (sid, mode, encrypt) \<Rightarrow>
        (case aead_seal cr nonce kek dek (wrap_ad_parts sid kind mode encrypt) of
           Err e \<Rightarrow> Err e
         | Ok (n, ct) \<Rightarrow> Ok \<lparr> wr_kind = kind, wr_salt = map_option hex_encode salt, wr_nonce = hex_encode n, wr_ct = hex_encode ct \<rparr>))"

definition wrap_ad :: "keystore_file \<Rightarrow> wrapper_kind \<Rightarrow> bytes" where
  "wrap_ad kf kind = wrap_ad_parts (kf_space_id kf) kind (kf_mode kf) (kf_encrypt_records kf)"

definition open_wrapper :: "space_crypto \<Rightarrow> keystore_file \<Rightarrow> wrapper_record \<Rightarrow> bytes \<Rightarrow> (bytes, space_err) result" where
  "open_wrapper cr kf w kek =
     (case keys_hex_decode (wr_nonce w) of
        None \<Rightarrow> Err (SpKeys KeAuthFailed)
      | Some nonce \<Rightarrow> (case keys_hex_decode (wr_ct w) of
          None \<Rightarrow> Err (SpKeys KeAuthFailed)
        | Some ct \<Rightarrow> (case aead_open cr kek nonce ct (wrap_ad kf (wr_kind w)) of
            Err e \<Rightarrow> Err e
          | Ok dek \<Rightarrow> (if length dek \<noteq> 32 then Err (SpKeys KeAuthFailed) else Ok dek))))"

section \<open>The key ring\<close>

record space_keys =
  sk_encrypt_records :: bool
  sk_dek :: "bytes option"

record key_ring =
  kr_files :: "(string, (keystore_file, string) result) hmap"
  kr_state :: "(string, space_keys) hmap"
  kr_required :: "string list"

record ring_env =
  ke_dek :: bytes
  ke_code :: bytes
  ke_nonce :: "nat \<Rightarrow> bytes"
  ke_salt :: bytes
  ke_writes :: bool

definition key_ring_new :: "(string, (keystore_file, string) result) hmap \<Rightarrow> key_ring" where
  "key_ring_new fs = \<lparr> kr_files = fs, kr_state = [], kr_required = [] \<rparr>"

definition require_encryption :: "string \<Rightarrow> key_ring \<Rightarrow> key_ring" where
  "require_encryption sid kr = kr\<lparr> kr_required := List.insert sid (kr_required kr) \<rparr>"

definition is_required :: "key_ring \<Rightarrow> string \<Rightarrow> bool" where
  "is_required kr sid = list_ex (\<lambda>x. x = sid) (kr_required kr)"

definition read_keystore :: "key_ring \<Rightarrow> string \<Rightarrow> (keystore_file option, space_err) result" where
  "read_keystore kr sid = (case hget (kr_files kr) sid of
     None \<Rightarrow> Ok None
   | Some (Err e) \<Rightarrow> Err (SpKeys (KeCorrupt e))
   | Some (Ok kf) \<Rightarrow>
       (if kf_version kf \<noteq> format_version then Err (SpKeys (KeCorrupt ''unsupported version''))
        else if kf_space_id kf \<noteq> sid then Err (SpKeys (KeCorrupt ''space id mismatch''))
        else Ok (Some kf)))"

definition write_keystore :: "ring_env \<Rightarrow> string \<Rightarrow> keystore_file \<Rightarrow> key_ring \<Rightarrow> (unit, space_err) result \<times> key_ring" where
  "write_keystore env sid kf kr =
     (if ke_writes env then (Ok (), kr\<lparr> kr_files := hput sid (Ok kf) (kr_files kr) \<rparr>) else (Err (SpMsg ''write''), kr))"

definition ring_forget :: "string \<Rightarrow> key_ring \<Rightarrow> key_ring" where
  "ring_forget sid kr = kr\<lparr> kr_state := hdel sid (kr_state kr) \<rparr>"

definition discard_keys :: "string \<Rightarrow> key_ring \<Rightarrow> key_ring" where
  "discard_keys sid kr = (let kr1 = ring_forget sid kr in
     if is_ok (validate_space_id sid) then kr1\<lparr> kr_files := hdel sid (kr_files kr1) \<rparr> else kr1)"

text \<open>A keystore without a descriptor is renamed, so that no lookup finds it.\<close>

definition quarantine_orphan_keystore :: "bool \<Rightarrow> string \<Rightarrow> key_ring \<Rightarrow> (bool, space_err) result \<times> key_ring" where
  "quarantine_orphan_keystore has_descriptor sid kr =
     (case validate_space_id sid of
        Err e \<Rightarrow> (Err e, kr)
      | Ok _ \<Rightarrow> (if \<not> hmem (kr_files kr) sid \<or> has_descriptor then (Ok False, kr)
                 else (Ok True, ring_forget sid (kr\<lparr> kr_files := hdel sid (kr_files kr) \<rparr>))))"

definition password_wrapper :: "space_crypto \<Rightarrow> ring_env \<Rightarrow> string \<times> unlock_mode \<times> bool \<Rightarrow> string \<Rightarrow> bytes
    \<Rightarrow> (wrapper_record, space_err) result" where
  "password_wrapper cr env meta password dek =
     make_wrapper cr (ke_nonce env 1) meta WkPassword (password_kek cr password (ke_salt env)) (Some (ke_salt env)) dek"

definition build_wrappers :: "space_crypto \<Rightarrow> (string \<Rightarrow> (bytes, space_err) result) \<Rightarrow> ring_env \<Rightarrow> string \<times> unlock_mode \<times> bool
    \<Rightarrow> string option \<Rightarrow> (wrapper_record list, space_err) result" where
  "build_wrappers cr node env meta password =
     (case meta of (sid, mode, encrypt) \<Rightarrow>
        collect_results
          ((if mode = NodeUnlock
            then [case node sid of Err e \<Rightarrow> Err e
                  | Ok kek \<Rightarrow> make_wrapper cr (ke_nonce env 0) meta WkNode kek None (ke_dek env)]
            else [])
           @ (case password of Some pw \<Rightarrow> [password_wrapper cr env meta pw (ke_dek env)] | None \<Rightarrow> [])
           @ [make_wrapper cr (ke_nonce env 2) meta WkRecovery (recovery_kek cr (ke_code env) sid) None (ke_dek env)]))"

definition create_keys_with :: "space_crypto \<Rightarrow> (string \<Rightarrow> (bytes, space_err) result) \<Rightarrow> ring_env \<Rightarrow> string \<Rightarrow> unlock_mode
    \<Rightarrow> string option \<Rightarrow> bool \<Rightarrow> key_ring \<Rightarrow> (bytes \<times> string, space_err) result \<times> key_ring" where
  "create_keys_with cr node env sid mode password encrypt kr =
     (case validate_space_id sid of
        Err e \<Rightarrow> (Err e, kr)
      | Ok _ \<Rightarrow>
          (case (case password of
                   None \<Rightarrow> (if mode = PasswordRequired
                            then Err (SpKeys (KeWeakPassword ''password_required mode needs a password'')) else Ok ())
                 | Some pw \<Rightarrow> check_password pw) of
             Err e \<Rightarrow> (Err e, kr)
           | Ok _ \<Rightarrow>
               (if hmem (kr_files kr) sid then (Err (SpKeys (KeAlreadyExists sid)), kr)
                else case build_wrappers cr node env (sid, mode, encrypt) password of
                       Err e \<Rightarrow> (Err e, kr)
                     | Ok wrappers \<Rightarrow>
                         (case write_keystore env sid \<lparr> kf_version = format_version, kf_space_id = sid, kf_mode = mode,
                                 kf_encrypt_records = encrypt, kf_wrappers = wrappers, kf_kek_source = None \<rparr> kr of
                            (Err e, kr1) \<Rightarrow> (Err e, kr1)
                          | (Ok _, kr1) \<Rightarrow>
                              (Ok (ke_dek env, recovery_display cr (ke_code env)),
                               kr1\<lparr> kr_state := hput sid \<lparr> sk_encrypt_records = encrypt, sk_dek = Some (ke_dek env) \<rparr> (kr_state kr1) \<rparr>)))))"

definition create_keys :: "space_crypto \<Rightarrow> (string \<Rightarrow> (bytes, space_err) result) \<Rightarrow> ring_env \<Rightarrow> string \<Rightarrow> unlock_mode
    \<Rightarrow> string option \<Rightarrow> key_ring \<Rightarrow> (bytes \<times> string, space_err) result \<times> key_ring" where
  "create_keys cr node env sid mode password kr = create_keys_with cr node env sid mode password True kr"

definition record_kek_source :: "ring_env \<Rightarrow> string \<Rightarrow> string \<Rightarrow> key_ring \<Rightarrow> (unit, space_err) result \<times> key_ring" where
  "record_kek_source env sid source kr =
     (case validate_space_id sid of
        Err e \<Rightarrow> (Err e, kr)
      | Ok _ \<Rightarrow> (case read_keystore kr sid of
          Err e \<Rightarrow> (Err e, kr)
        | Ok None \<Rightarrow> (Err (SpKeys (KeNoKeystore sid)), kr)
        | Ok (Some kf) \<Rightarrow> write_keystore env sid (kf\<lparr> kf_kek_source := Some source \<rparr>) kr))"

definition kek_source :: "string \<Rightarrow> key_ring \<Rightarrow> (string option, space_err) result" where
  "kek_source sid kr = (case validate_space_id sid of
     Err e \<Rightarrow> Err e
   | Ok _ \<Rightarrow> (case read_keystore kr sid of
       Err e \<Rightarrow> Err e
     | Ok None \<Rightarrow> Ok None
     | Ok (Some kf) \<Rightarrow> Ok (kf_kek_source kf)))"

definition ensure_loaded :: "string \<Rightarrow> key_ring \<Rightarrow> (bool, space_err) result \<times> key_ring" where
  "ensure_loaded sid kr =
     (if hmem (kr_state kr) sid then (Ok True, kr)
      else case validate_space_id sid of
             Err e \<Rightarrow> (Err e, kr)
           | Ok _ \<Rightarrow> (case read_keystore kr sid of
               Err e \<Rightarrow> (Err e, kr)
             | Ok None \<Rightarrow> (if is_required kr sid then (Err (SpKeys (KeKeystoreMissing sid)), kr) else (Ok False, kr))
             | Ok (Some kf) \<Rightarrow>
                 (Ok True, kr\<lparr> kr_state := hput sid \<lparr> sk_encrypt_records = kf_encrypt_records kf, sk_dek = None \<rparr> (kr_state kr) \<rparr>)))"

definition unlock_with :: "space_crypto \<Rightarrow> string \<Rightarrow> wrapper_kind \<Rightarrow> (wrapper_record \<Rightarrow> (bytes, space_err) result)
    \<Rightarrow> key_ring \<Rightarrow> (bytes, space_err) result \<times> key_ring" where
  "unlock_with cr sid kind kek_for kr =
     (case validate_space_id sid of
        Err e \<Rightarrow> (Err e, kr)
      | Ok _ \<Rightarrow> (case read_keystore kr sid of
          Err e \<Rightarrow> (Err e, kr)
        | Ok None \<Rightarrow> (Err (SpKeys (KeNoKeystore sid)), kr)
        | Ok (Some kf) \<Rightarrow> (case find (\<lambda>w. wr_kind w = kind) (kf_wrappers kf) of
            None \<Rightarrow> (Err (SpKeys (KeNoWrapper sid)), kr)
          | Some w \<Rightarrow> (case kek_for w of
              Err e \<Rightarrow> (Err e, kr)
            | Ok kek \<Rightarrow> (case open_wrapper cr kf w kek of
                Err e \<Rightarrow> (Err e, kr)
              | Ok dek \<Rightarrow>
                  (Ok dek, kr\<lparr> kr_state := hput sid \<lparr> sk_encrypt_records = kf_encrypt_records kf, sk_dek = Some dek \<rparr>
                     (kr_state kr) \<rparr>))))))"

definition unlock_with_node :: "space_crypto \<Rightarrow> (string \<Rightarrow> (bytes, space_err) result) \<Rightarrow> string \<Rightarrow> key_ring
    \<Rightarrow> (bytes, space_err) result \<times> key_ring" where
  "unlock_with_node cr node sid kr = unlock_with cr sid WkNode (\<lambda>_. node sid) kr"

definition unlock_with_password :: "space_crypto \<Rightarrow> string \<Rightarrow> string \<Rightarrow> key_ring \<Rightarrow> (bytes, space_err) result \<times> key_ring" where
  "unlock_with_password cr sid password kr = unlock_with cr sid WkPassword (\<lambda>w.
     case Option.bind (wr_salt w) keys_hex_decode of
       None \<Rightarrow> Err (SpKeys KeAuthFailed)
     | Some salt \<Rightarrow> (if length salt \<noteq> 16 then Err (SpKeys KeAuthFailed) else Ok (password_kek cr password salt))) kr"

definition unlock_with_recovery :: "space_crypto \<Rightarrow> string \<Rightarrow> string \<Rightarrow> key_ring \<Rightarrow> (bytes, space_err) result \<times> key_ring" where
  "unlock_with_recovery cr sid code kr = (case recovery_parse cr code of
     Err e \<Rightarrow> (Err e, kr)
   | Ok c \<Rightarrow> unlock_with cr sid WkRecovery (\<lambda>_. Ok (recovery_kek cr c sid)) kr)"

definition current_dek :: "string \<Rightarrow> key_ring \<Rightarrow> (bytes, space_err) result \<times> key_ring" where
  "current_dek sid kr = (case ensure_loaded sid kr of
     (Err e, kr1) \<Rightarrow> (Err e, kr1)
   | (Ok False, kr1) \<Rightarrow> (Err (SpKeys (KeNoKeystore sid)), kr1)
   | (Ok True, kr1) \<Rightarrow> (case Option.bind (hget (kr_state kr1) sid) sk_dek of
       None \<Rightarrow> (Err (SpKeys (KeLocked sid)), kr1)
     | Some dek \<Rightarrow> (Ok dek, kr1)))"

fun replace_wrapper :: "wrapper_record \<Rightarrow> wrapper_record list \<Rightarrow> wrapper_record list" where
  "replace_wrapper w [] = [w]"
| "replace_wrapper w (v # vs) = (if wr_kind v = WkPassword then w # vs else v # replace_wrapper w vs)"

definition change_password :: "space_crypto \<Rightarrow> ring_env \<Rightarrow> string \<Rightarrow> bytes \<Rightarrow> string \<Rightarrow> key_ring
    \<Rightarrow> (unit, space_err) result \<times> key_ring" where
  "change_password cr env sid handle new_password kr =
     (case check_password new_password of
        Err e \<Rightarrow> (Err e, kr)
      | Ok _ \<Rightarrow> (case validate_space_id sid of
          Err e \<Rightarrow> (Err e, kr)
        | Ok _ \<Rightarrow> (case current_dek sid kr of
            (Err e, kr1) \<Rightarrow> (Err e, kr1)
          | (Ok current, kr1) \<Rightarrow>
              (if current \<noteq> handle then (Err (SpKeys KeAuthFailed), kr1)
               else case read_keystore kr1 sid of
                      Err e \<Rightarrow> (Err e, kr1)
                    | Ok None \<Rightarrow> (Err (SpKeys (KeNoKeystore sid)), kr1)
                    | Ok (Some kf) \<Rightarrow>
                        (case password_wrapper cr env (sid, kf_mode kf, kf_encrypt_records kf) new_password current of
                           Err e \<Rightarrow> (Err e, kr1)
                         | Ok w \<Rightarrow> write_keystore env sid (kf\<lparr> kf_wrappers := replace_wrapper w (kf_wrappers kf) \<rparr>) kr1)))))"

definition has_keys :: "string \<Rightarrow> key_ring \<Rightarrow> bool \<times> key_ring" where
  "has_keys sid kr = (case ensure_loaded sid kr of (Err _, kr1) \<Rightarrow> (True, kr1) | (Ok b, kr1) \<Rightarrow> (b, kr1))"

definition is_locked :: "string \<Rightarrow> key_ring \<Rightarrow> bool \<times> key_ring" where
  "is_locked sid kr = (case ensure_loaded sid kr of
     (Err _, kr1) \<Rightarrow> (True, kr1)
   | (Ok False, kr1) \<Rightarrow> (False, kr1)
   | (Ok True, kr1) \<Rightarrow> (case hget (kr_state kr1) sid of None \<Rightarrow> True | Some k \<Rightarrow> sk_dek k = None, kr1))"

definition check_unlocked :: "string \<Rightarrow> key_ring \<Rightarrow> (unit, space_err) result \<times> key_ring" where
  "check_unlocked sid kr = (case ensure_loaded sid kr of
     (Err (SpKeys (KeKeystoreMissing x)), kr1) \<Rightarrow> (Err (SpKeys (KeKeystoreMissing x)), kr1)
   | (_, kr1) \<Rightarrow> (case is_locked sid kr1 of
       (True, kr2) \<Rightarrow> (Err (SpKeys (KeLocked sid)), kr2)
     | (False, kr2) \<Rightarrow> (Ok (), kr2)))"

definition auto_unlock_one :: "space_crypto \<Rightarrow> (string \<Rightarrow> (bytes, space_err) result) \<Rightarrow> string \<Rightarrow> key_ring \<Rightarrow> key_ring" where
  "auto_unlock_one cr node sid kr =
     (if \<not> is_ok (validate_space_id sid) \<or> \<not> hmem (kr_files kr) sid then kr
      else case read_keystore kr sid of
             Ok (Some kf) \<Rightarrow> (case kf_mode kf of NodeUnlock \<Rightarrow> snd (unlock_with_node cr node sid kr) | PasswordRequired \<Rightarrow> kr)
           | Ok None \<Rightarrow> kr
           | Err _ \<Rightarrow> kr)"

definition auto_unlock_all :: "space_crypto \<Rightarrow> (string \<Rightarrow> (bytes, space_err) result) \<Rightarrow> string list \<Rightarrow> key_ring \<Rightarrow> key_ring" where
  "auto_unlock_all cr node dirs kr = fold (auto_unlock_one cr node) dirs kr"

datatype record_key = RkPlain | RkKey bytes

definition ring_record_key :: "string \<Rightarrow> key_ring \<Rightarrow> (record_key, space_err) result \<times> key_ring" where
  "ring_record_key sid kr = (case ensure_loaded sid kr of
     (Err e, kr1) \<Rightarrow> (Err e, kr1)
   | (Ok False, kr1) \<Rightarrow> (Ok RkPlain, kr1)
   | (Ok True, kr1) \<Rightarrow> (case hget (kr_state kr1) sid of
       None \<Rightarrow> (Err (SpKeys (KeLocked sid)), kr1)
     | Some k \<Rightarrow>
         (if \<not> sk_encrypt_records k
          then (if is_required kr1 sid
                then (Err (SpKeys (KeCorrupt ''encryption flag contradicts space metadata'')), kr1) else (Ok RkPlain, kr1))
          else case sk_dek k of Some dek \<Rightarrow> (Ok (RkKey dek), kr1) | None \<Rightarrow> (Err (SpKeys (KeLocked sid)), kr1))))"

definition record_handle :: "string \<Rightarrow> key_ring \<Rightarrow> (bytes option, space_err) result \<times> key_ring" where
  "record_handle sid kr = (case ring_record_key sid kr of
     (Err e, kr1) \<Rightarrow> (Err e, kr1)
   | (Ok RkPlain, kr1) \<Rightarrow> (Ok None, kr1)
   | (Ok (RkKey k), kr1) \<Rightarrow> (Ok (Some k), kr1))"

section \<open>The codec of a ring\<close>

text \<open>The codec asks the ring at each record; the entry that the question loads is not part of its result.\<close>

definition keyed_codec :: "space_crypto \<Rightarrow> key_ring \<Rightarrow> string \<Rightarrow> string \<Rightarrow> record_codec_ops" where
  "keyed_codec cr kr sid kind =
     \<lparr> cd_seal = (\<lambda>nonce plain rid. case fst (ring_record_key sid kr) of
         Err e \<Rightarrow> Err e
       | Ok RkPlain \<Rightarrow> Ok plain
       | Ok (RkKey k) \<Rightarrow> seal_record cr nonce k sid kind rid plain),
       cd_open = (\<lambda>stored rid. case fst (ring_record_key sid kr) of
         Err e \<Rightarrow> Err e
       | Ok RkPlain \<Rightarrow> (if looks_encrypted stored then Err (SpKeys (KeKeystoreMissing sid)) else Ok stored)
       | Ok (RkKey k) \<Rightarrow> open_record cr k sid kind rid stored) \<rparr>"

section \<open>The associated data is unambiguous\<close>

lemma be32_length [simp]: "length (be32 n) = 4"
  by (simp add: be32_def Let_def)

lemma word_of_bytes:
  fixes w :: "32 word"
  shows "w = push_bit 24 (ucast (ucast (drop_bit 24 w) :: 8 word)) OR push_bit 16 (ucast (ucast (drop_bit 16 w) :: 8 word))
    OR push_bit 8 (ucast (ucast (drop_bit 8 w) :: 8 word)) OR ucast (ucast w :: 8 word)"
proof (rule bit_word_eqI)
  fix n :: nat
  assume n: "n < LENGTH(32)"
  consider "n < 8" | "8 \<le> n" "n < 16" | "16 \<le> n" "n < 24" | "24 \<le> n" "n < 32" using n by fastforce
  then show "bit w n = bit (push_bit 24 (ucast (ucast (drop_bit 24 w) :: 8 word)) OR push_bit 16 (ucast (ucast (drop_bit 16 w) :: 8 word))
    OR push_bit 8 (ucast (ucast (drop_bit 8 w) :: 8 word)) OR ucast (ucast w :: 8 word) :: 32 word) n"
    by cases (auto simp: bit_simps)
qed

lemma be32_inject:
  assumes "be32 a = be32 b" "a < 2 ^ 32" "b < 2 ^ 32"
  shows "a = b"
proof -
  let ?v = "of_nat a :: 32 word" and ?w = "of_nat b :: 32 word"
  have b: "ucast (drop_bit 24 ?v) = (ucast (drop_bit 24 ?w) :: 8 word)" "ucast (drop_bit 16 ?v) = (ucast (drop_bit 16 ?w) :: 8 word)"
    "ucast (drop_bit 8 ?v) = (ucast (drop_bit 8 ?w) :: 8 word)" "ucast ?v = (ucast ?w :: 8 word)"
    using assms(1) unfolding be32_def Let_def by (blast dest: list.inject [THEN iffD1])+
  have "?v = ?w"
    by (rule word_of_bytes [of ?v, unfolded b, folded word_of_bytes])
  then have "unat ?v = unat ?w" by (rule arg_cong)
  then show ?thesis using assms(2,3) by (subst (asm) (1 2) unat_of_nat_small) simp_all
qed

lemma encode_ad_concat: "encode_ad fs = concat (map (\<lambda>f. be32 (length f) @ f) fs)"
proof -
  have "foldl push_field out fs = out @ concat (map (\<lambda>f. be32 (length f) @ f) fs)" for out
    by (induction fs arbitrary: out) (simp_all add: push_field_def)
  then show ?thesis by (simp add: encode_ad_def)
qed

lemma framed_inject:
  "concat (map (\<lambda>f. be32 (length f) @ f) fs) = concat (map (\<lambda>f. be32 (length f) @ f) gs) \<Longrightarrow>
   \<forall>f\<in>set fs. length f < 2 ^ 32 \<Longrightarrow> \<forall>f\<in>set gs. length f < 2 ^ 32 \<Longrightarrow> fs = gs"
proof (induction fs arbitrary: gs)
  case Nil
  then show ?case by (cases gs) (auto simp flip: length_0_conv)
next
  case (Cons f fs)
  then obtain g gs' where gs: "gs = g # gs'" by (cases gs) (auto simp flip: length_0_conv)
  have "be32 (length f) = be32 (length g)" and rest: "f @ concat (map (\<lambda>f. be32 (length f) @ f) fs) = g @ concat (map (\<lambda>f. be32 (length f) @ f) gs')"
    using Cons.prems(1) by (simp_all add: gs)
  then have "length f = length g" using Cons.prems(2,3) by (intro be32_inject) (simp_all add: gs)
  then show ?case using rest Cons by (simp add: gs)
qed

lemma record_ad_fields:
  "record_ad sid kind rid = encode_ad [bytes_of ''xavier-space-record'', be32 1, bytes_of sid, bytes_of kind, bytes_of rid]"
  by (simp add: record_ad_def encode_ad_def)

lemma wrap_ad_fields:
  "wrap_ad_parts sid kind mode encrypt = encode_ad [bytes_of ''xavier-space-keywrap'', be32 1, bytes_of (wrapper_kind_str kind),
     bytes_of sid, bytes_of (unlock_mode_str mode), [if encrypt then 1 else 0]]"
  by (simp add: wrap_ad_parts_def encode_ad_def)

text \<open>C40: The data that binds a sealed record or a wrapped key to its place determines the place: two lists of fields of
  less than 2^32 bytes each are encoded alike only if they are equal; so records of different spaces, kinds or ids, and
  wrappers of different spaces, kinds, modes or flags, never share their associated data, and no record shares it with a
  wrapper.\<close>

theorem associated_data_injective:
  assumes "\<forall>f\<in>set fs \<union> set gs. length f < 2 ^ 32" "\<forall>t\<in>{s, k, r, s', k', r'}. length t < 2 ^ 32"
  shows "(encode_ad fs = encode_ad gs \<longleftrightarrow> fs = gs)
    \<and> (record_ad s k r = record_ad s' k' r' \<longleftrightarrow> s = s' \<and> k = k' \<and> r = r')
    \<and> (wrap_ad_parts s wk m e = wrap_ad_parts s' wk' m' e' \<longleftrightarrow> s = s' \<and> wk = wk' \<and> m = m' \<and> e = e')
    \<and> record_ad s k r \<noteq> wrap_ad_parts s' wk m e"
proof -
  have inj: "encode_ad xs = encode_ad ys \<longleftrightarrow> xs = ys"
    if "\<forall>f\<in>set xs \<union> set ys. length f < 2 ^ 32" for xs ys
    using that by (auto simp: encode_ad_concat intro: framed_inject)
  have len: "length (bytes_of t) = length t" for t by (simp add: bytes_of_def)
  have k: "wrapper_kind_str a = wrapper_kind_str b \<longleftrightarrow> a = b" "length (wrapper_kind_str a) < 2 ^ 32" for a b
    by (cases a; cases b; simp add: wrapper_kind_str_def)+
  have m: "unlock_mode_str a = unlock_mode_str b \<longleftrightarrow> a = b" "length (unlock_mode_str a) < 2 ^ 32" for a b
    by (cases a; cases b; simp add: unlock_mode_str_def)+
  have "encode_ad fs = encode_ad gs \<longleftrightarrow> fs = gs" by (rule inj [OF assms(1)])
  moreover have "record_ad s k r = record_ad s' k' r' \<longleftrightarrow> s = s' \<and> k = k' \<and> r = r'"
    unfolding record_ad_fields by (subst inj) (use assms(2) in \<open>auto simp: len bytes_of_inject\<close>)
  moreover have "wrap_ad_parts s wk m e = wrap_ad_parts s' wk' m' e' \<longleftrightarrow> s = s' \<and> wk = wk' \<and> m = m' \<and> e = e'"
    unfolding wrap_ad_fields by (subst inj) (use assms(2) k m in \<open>auto simp: len bytes_of_inject\<close>)
  moreover have "record_ad s k r \<noteq> wrap_ad_parts s' wk m e"
    unfolding record_ad_fields wrap_ad_fields by (subst inj) (use assms(2) k m in \<open>auto simp: len bytes_of_inject\<close>)
  ultimately show ?thesis by blast
qed

text \<open>A record of the space \<open>ab\<close> and kind \<open>c\<close>, and one of the space \<open>a\<close> and kind \<open>bc\<close>.\<close>

theorem associated_data_injective_witness: "record_ad ''ab'' ''c'' ''1'' \<noteq> record_ad ''a'' ''bc'' ''1''"
  using conjunct1 [OF conjunct2 [OF associated_data_injective [of "[]" "[]" "''ab''" "''c''" "''1''" "''a''" "''bc''" "''1''"]]]
  by simp

section \<open>Recovery codes are read back\<close>

text \<open>What the parser keeps of a typed code.\<close>

definition typed_code :: "string \<Rightarrow> string" where
  "typed_code s = ascii_lower (filter (\<lambda>c. \<not> ascii_space c \<and> c \<noteq> CHR ''-'') s)"

lemma concat_chunks: "0 < n \<Longrightarrow> concat (chunks n xs) = xs"
proof (induction "length xs" arbitrary: xs rule: less_induct)
  case less
  show ?case
  proof (cases "xs = []")
    case False
    then have "chunks n xs = take n xs # chunks n (drop n xs)" using less.prems by (subst chunks.simps) simp
    then show ?thesis using less False by simp
  qed simp
qed

lemma hex_char_props:
  "n < 16 \<Longrightarrow> ascii_lower_char (ascii_upper_char (hex_chars ! n)) = hex_chars ! n"
  "n < 16 \<Longrightarrow> \<not> ascii_space (ascii_upper_char (hex_chars ! n)) \<and> ascii_upper_char (hex_chars ! n) \<noteq> CHR ''-''"
  "n < 16 \<Longrightarrow> (of_char (hex_chars ! n) :: nat) < 128"
proof -
  have "list_all (\<lambda>c. ascii_lower_char (ascii_upper_char c) = c \<and> \<not> ascii_space (ascii_upper_char c)
      \<and> ascii_upper_char c \<noteq> CHR ''-'' \<and> (of_char c :: nat) < 128) hex_chars"
    by (simp add: hex_chars_def ascii_lower_char_def ascii_upper_char_def ascii_space_def char_of_def bit_Suc_0_iff)
  moreover have "length hex_chars = 16" by (simp add: hex_chars_def)
  ultimately show "n < 16 \<Longrightarrow> ascii_lower_char (ascii_upper_char (hex_chars ! n)) = hex_chars ! n"
    "n < 16 \<Longrightarrow> \<not> ascii_space (ascii_upper_char (hex_chars ! n)) \<and> ascii_upper_char (hex_chars ! n) \<noteq> CHR ''-''"
    "n < 16 \<Longrightarrow> (of_char (hex_chars ! n) :: nat) < 128"
    by (simp_all add: list_all_length)
qed

lemma hex_encode_Nil [simp]: "hex_encode [] = []"
  by (simp add: hex_encode_def)

lemma hex_upper_lower: "ascii_lower (ascii_upper (hex_encode bs)) = hex_encode bs"
  using nibble_bounds by (induction bs) (simp_all add: hex_encode_Cons hex_char_props(1) ascii_lower_def ascii_upper_def)

lemma hex_upper_kept: "\<forall>c\<in>set (ascii_upper (hex_encode bs)). \<not> ascii_space c \<and> c \<noteq> CHR ''-''"
  using nibble_bounds hex_char_props(2)
  by (induction bs) (auto simp: hex_encode_Cons ascii_upper_def)

lemma typed_display: "typed_code (recovery_display cr code) = ''xrc1'' @ hex_encode (code @ recovery_check cr code)"
proof -
  let ?hex = "ascii_upper (hex_encode (code @ recovery_check cr code))"
  have sep: "filter (\<lambda>c. \<not> ascii_space c \<and> c \<noteq> CHR ''-'') (concat (map (\<lambda>chunk. CHR ''-'' # chunk) xs))
      = filter (\<lambda>c. \<not> ascii_space c \<and> c \<noteq> CHR ''-'') (concat xs)" for xs
    by (induction xs) auto
  have "filter (\<lambda>c. \<not> ascii_space c \<and> c \<noteq> CHR ''-'') ?hex = ?hex"
    using hex_upper_kept by (intro filter_True) blast
  moreover have "ascii_lower ''XRC1'' = ''xrc1''" by (simp add: ascii_lower_def ascii_lower_char_def char_of_def bit_Suc_0_iff)
  moreover have "filter (\<lambda>c. \<not> ascii_space c \<and> c \<noteq> CHR ''-'') ''XRC1'' = ''XRC1''" by (simp add: ascii_space_def)
  ultimately show ?thesis
    by (simp only: typed_code_def recovery_display_def filter_append sep concat_chunks [of 8, simplified])
      (simp add: ascii_lower_def hex_upper_lower [unfolded ascii_lower_def])
qed

lemma hex_lower_fixed: "ascii_lower (hex_encode bs) = hex_encode bs"
proof -
  have "list_all (\<lambda>c. ascii_lower_char c = c) hex_chars" by (simp add: hex_chars_def ascii_lower_char_def)
  moreover have "length hex_chars = 16" by (simp add: hex_chars_def)
  ultimately have "n < 16 \<Longrightarrow> ascii_lower_char (hex_chars ! n) = hex_chars ! n" for n by (simp add: list_all_length)
  then show ?thesis using nibble_bounds by (induction bs) (simp_all add: hex_encode_Cons ascii_lower_def)
qed

lemma keys_hex_pairs_encode: "keys_hex_pairs (hex_encode bs) = Some bs"
proof (induction bs)
  case (Cons b bs)
  have "drop_bit 4 b * 16 + (b AND 0x0f) = b"
  proof -
    have "(0x0f :: 8 word) = mask 4" by (simp add: mask_eq_exp_minus_1)
    then have "drop_bit 4 b * 2 ^ 4 + (b AND 0x0f) = b" using bits_ident [of 4 b] by (simp add: push_bit_eq_mult take_bit_eq_mask)
    then show ?thesis by simp
  qed
  then show ?case
    using Cons by (simp only: hex_encode_Cons keys_hex_pairs.simps hex_val_chars [OF nibble_bounds(1)]
        hex_val_chars [OF nibble_bounds(2)] nibble_words option.case)
qed simp

lemma hex_ascii: "is_ascii (hex_encode bs)"
  using nibble_bounds hex_char_props(3) by (induction bs) (simp_all add: hex_encode_Cons is_ascii_def)

lemma keys_hex_decode_encode [simp]: "keys_hex_decode (hex_encode bs) = Some bs"
  by (simp add: keys_hex_decode_def hex_ascii keys_hex_pairs_encode)

lemma hex_val_back:
  assumes "hex_val c = Some v" "ascii_lower_char c = c"
  shows "unat v < 16 \<and> hex_chars ! unat v = c"
proof -
  let ?n = "of_char c :: nat"
  have not_upper: "\<not> (65 \<le> ?n \<and> ?n \<le> 90)"
  proof
    assume u: "65 \<le> ?n \<and> ?n \<le> 90"
    then have "(of_char (ascii_lower_char c) :: nat) = ?n + 32" by (simp add: ascii_lower_char_def)
    then show False using assms(2) by simp
  qed
  have "48 \<le> ?n \<and> ?n < 58 \<or> 97 \<le> ?n \<and> ?n < 103"
    using assms(1) not_upper by (auto simp: hex_val_def Let_def split: if_splits)
  then have "?n \<in> set [48..<58] \<union> set [97..<103]" by (simp only: set_upt Un_iff atLeastLessThan_iff)
  then have "c \<in> char_of ` (set [48..<58] \<union> set [97..<103] :: nat set)" by (rule rev_image_eqI) simp
  also have "char_of ` (set [48..<58] \<union> set [97..<103] :: nat set) = set hex_chars"
    by (simp add: hex_chars_def upt_rec char_of_def bit_Suc_0_iff insert_commute)
  finally obtain k where "k < length hex_chars" "hex_chars ! k = c" by (metis in_set_conv_nth)
  then have k: "k < 16" "c = hex_chars ! k" by (simp_all add: hex_chars_def)
  then have "v = of_nat k" using assms(1) hex_val_chars by simp
  then show ?thesis using k by (simp add: unat_of_nat_small)
qed

lemma byte_of_nibbles:
  fixes hi lo :: "8 word"
  assumes "unat hi < 16" "unat lo < 16"
  shows "drop_bit 4 (hi * 16 + lo) = hi" "(hi * 16 + lo) AND 0x0f = lo"
proof -
  have u: "unat (hi * 16 + lo) = unat hi * 16 + unat lo"
    using assms by (simp add: unat_word_ariths)
  have "unat (drop_bit 4 (hi * 16 + lo)) = unat hi" using assms by (simp add: drop_bit_eq_div unat_div u)
  then show "drop_bit 4 (hi * 16 + lo) = hi" by (simp add: word_unat_eq_iff)
  have "x AND 0x0f = take_bit 4 x" for x :: "8 word" by (simp add: take_bit_eq_mask mask_eq_exp_minus_1)
  then have "unat ((hi * 16 + lo) AND 0x0f) = unat (hi * 16 + lo) mod 16"
    by (simp only: unsigned_take_bit_eq) (simp add: take_bit_eq_mod)
  then show "(hi * 16 + lo) AND 0x0f = lo" using assms by (simp add: u word_unat_eq_iff)
qed

lemma keys_hex_pairs_back:
  "keys_hex_pairs s = Some bs \<Longrightarrow> even (length s) \<Longrightarrow> ascii_lower s = s \<Longrightarrow> s = hex_encode bs"
proof (induction s arbitrary: bs rule: keys_hex_pairs.induct)
  case (1 c d rest)
  obtain hi lo out where v: "hex_val c = Some hi" "hex_val d = Some lo" "keys_hex_pairs rest = Some out"
    "bs = (hi * 16 + lo) # out" using "1.prems"(1) by (auto split: option.splits)
  have "unat hi < 16 \<and> hex_chars ! unat hi = c" "unat lo < 16 \<and> hex_chars ! unat lo = d"
    using v(1,2) hex_val_back "1.prems"(3) by (auto simp: ascii_lower_def)
  moreover have "rest = hex_encode out" using "1.IH" [OF v(1,2,3)] "1.prems" by (simp add: ascii_lower_def)
  ultimately show ?case by (simp add: v(4) hex_encode_Cons byte_of_nibbles)
qed auto

lemma typed_code_lower: "ascii_lower (typed_code s) = typed_code s"
proof -
  have "ascii_lower_char (ascii_lower_char c) = ascii_lower_char c" for c
    by (auto simp: ascii_lower_char_def Let_def)
  then show ?thesis by (simp add: typed_code_def ascii_lower_def)
qed

lemma recovery_parse_iff:
  assumes "\<And>x. length (cr_sha256 cr x) = 32"
  shows "recovery_parse cr s = Ok code \<longleftrightarrow> length code = 32 \<and> typed_code s = typed_code (recovery_display cr code)"
proof -
  have chk: "length (recovery_check cr c) = 2" for c using assms by (simp add: recovery_check_def)
  show ?thesis
  proof
    assume "length code = 32 \<and> typed_code s = typed_code (recovery_display cr code)"
    then have "typed_code s = ''xrc1'' @ hex_encode (code @ recovery_check cr code)" "length code = 32" by (simp_all add: typed_display)
    then show "recovery_parse cr s = Ok code"
      by (simp only: recovery_parse_def typed_code_def [symmetric] strip_prefix_append option.case keys_hex_decode_encode)
        (simp add: chk)
  next
    assume ok: "recovery_parse cr s = Ok code"
    then obtain body raw where b: "strip_prefix (typed_code s) ''xrc1'' = Some body" "keys_hex_decode body = Some raw"
      "length raw = 34" "recovery_check cr (take 32 raw) = drop 32 raw" "code = take 32 raw"
      by (auto simp: recovery_parse_def typed_code_def split: option.splits if_splits)
    have t: "typed_code s = ''xrc1'' @ body" using b(1) by (rule strip_prefix_SomeD)
    then have "ascii_lower body = body" using typed_code_lower [of s] by (simp add: ascii_lower_def)
    then have "body = hex_encode raw"
      using b(2) by (intro keys_hex_pairs_back) (auto simp: keys_hex_decode_def split: if_splits)
    moreover have "raw = code @ recovery_check cr code" using b by simp
    moreover have "length code = 32" using b by simp
    ultimately show "length code = 32 \<and> typed_code s = typed_code (recovery_display cr code)"
      using t by (simp only: typed_display)
  qed
qed

text \<open>A recovery code is accepted exactly when what was typed is, up to white space, hyphens and case, the display of
  a code of 32 bytes, and then it is that code: no other text is accepted, and no two codes share a display.\<close>

theorem recovery_code_roundtrip:
  assumes "\<And>x. length (cr_sha256 cr x) = 32"
  shows "recovery_parse cr s = Ok code \<longleftrightarrow> length code = 32 \<and> typed_code s = typed_code (recovery_display cr code)"
  using assms by (rule recovery_parse_iff)

theorem recovery_code_roundtrip_witness:
  "recovery_parse (\<lparr> cr_seal = \<lambda>k n p a. p, cr_open = \<lambda>k n c a. Some c, cr_hkdf = \<lambda>a b. a, cr_argon = \<lambda>a b. a, cr_sha256 = \<lambda>x. replicate 32 7 \<rparr>)
     (recovery_display \<lparr> cr_seal = \<lambda>k n p a. p, cr_open = \<lambda>k n c a. Some c, cr_hkdf = \<lambda>a b. a, cr_argon = \<lambda>a b. a,
        cr_sha256 = \<lambda>x. replicate 32 7 \<rparr> (replicate 32 5)) = Ok (replicate 32 5)"
  by (rule iffD2 [OF recovery_code_roundtrip]) simp_all

section \<open>Unlocking\<close>

text \<open>What AES-GCM promises to who has the key.\<close>

definition aead_law :: "space_crypto \<Rightarrow> bool" where
  "aead_law cr = (\<forall>k n p ad. cr_open cr k n (cr_seal cr k n p ad) ad = Some p)"

lemma nonce12_length [simp]: "length (nonce12 n) = 12"
  by (simp add: nonce12_def)

lemma text_of_bytes [simp]: "text_of (bytes_of s) = s"
proof -
  have "unat (of_char c :: 8 word) = (of_char c :: nat)" for c :: char
  proof -
    have "unat (of_nat (of_char c) :: 8 word) = (of_char c :: nat)" by (rule unat_of_nat_small) simp
    then show ?thesis by (simp only: of_nat_of_char)
  qed
  then show ?thesis by (simp add: text_of_def bytes_of_def map_idI)
qed

lemma seal_record_eq:
  "seal_record cr nonce key sid kind rid plain = Ok stored \<longleftrightarrow> length key = 32 \<and>
     stored = record_prefix @ hex_encode (nonce12 nonce @ cr_seal cr key (nonce12 nonce) (bytes_of plain) (record_ad sid kind rid))"
  by (auto simp: seal_record_def seal_record_bytes_def aead_seal_def)

lemma open_sealed_record:
  assumes "aead_law cr" "utf8_valid (bytes_of plain)" "seal_record cr nonce key sid kind rid plain = Ok stored"
  shows "open_record cr key sid kind rid stored = Ok plain"
  using assms by (simp add: seal_record_eq open_record_def open_record_bytes_def aead_open_def aead_law_def)

text \<open>The codec of a ring is a codec for channels.\<close>

definition keyed_plain_ok :: "space_crypto \<Rightarrow> key_ring \<Rightarrow> string \<Rightarrow> string \<Rightarrow> bool" where
  "keyed_plain_ok cr kr sid p = (case fst (ring_record_key sid kr) of
     Ok RkPlain \<Rightarrow> \<not> looks_encrypted p
   | _ \<Rightarrow> aead_law cr \<and> utf8_valid (bytes_of p))"

interpretation keyed: record_codec "keyed_codec cr kr sid kind" "keyed_plain_ok cr kr sid" for cr kr sid kind
  by unfold_locales
    (auto simp: keyed_codec_def keyed_plain_ok_def open_sealed_record split: sum.splits record_key.splits)

definition wrapped :: "space_crypto \<Rightarrow> keystore_file \<Rightarrow> wrapper_kind \<Rightarrow> bytes option \<Rightarrow> bytes \<Rightarrow> bytes \<Rightarrow> bool" where
  "wrapped cr kf kind salt kek dek = (\<exists>w. find (\<lambda>w. wr_kind w = kind) (kf_wrappers kf) = Some w
     \<and> wr_salt w = map_option hex_encode salt \<and> open_wrapper cr kf w kek = Ok dek)"

lemma make_wrapper_opens:
  assumes "aead_law cr" "make_wrapper cr nonce (kf_space_id kf, kf_mode kf, kf_encrypt_records kf) kind kek salt dek = Ok w"
    "length dek = 32"
  shows "wr_kind w = kind \<and> wr_salt w = map_option hex_encode salt \<and> open_wrapper cr kf w kek = Ok dek"
  using assms by (auto simp: make_wrapper_def aead_seal_def open_wrapper_def aead_open_def wrap_ad_def aead_law_def
      split: if_splits)

lemma unlock_with_wrapped:
  assumes "validate_space_id sid = Ok ()" "read_keystore kr sid = Ok (Some kf)" "wrapped cr kf kind salt kek dek"
    and "\<And>w. wr_salt w = map_option hex_encode salt \<Longrightarrow> kek_for w = Ok kek"
  shows "fst (unlock_with cr sid kind kek_for kr) = Ok dek"
  using assms by (auto simp: unlock_with_def wrapped_def)

lemma unlock_password_wrapped:
  assumes "validate_space_id sid = Ok ()" "read_keystore kr sid = Ok (Some kf)" "length salt = 16"
    and "wrapped cr kf WkPassword (Some salt) (password_kek cr pw salt) dek"
  shows "fst (unlock_with_password cr sid pw kr) = Ok dek"
  unfolding unlock_with_password_def by (rule unlock_with_wrapped [OF assms(1,2,4)]) (simp add: assms(3))

lemma unlock_recovery_wrapped:
  assumes "validate_space_id sid = Ok ()" "read_keystore kr sid = Ok (Some kf)" "length code = 32"
    and "\<And>x. length (cr_sha256 cr x) = 32" "wrapped cr kf WkRecovery None (recovery_kek cr code sid) dek"
  shows "fst (unlock_with_recovery cr sid (recovery_display cr code) kr) = Ok dek"
proof -
  have "recovery_parse cr (recovery_display cr code) = Ok code" by (rule iffD2 [OF recovery_parse_iff]) (use assms in simp_all)
  then show ?thesis unfolding unlock_with_recovery_def
    by (simp add: unlock_with_wrapped [OF assms(1,2,5)])
qed

lemma find_replace_password: "wr_kind w = WkPassword \<Longrightarrow> find (\<lambda>v. wr_kind v = WkPassword) (replace_wrapper w ws) = Some w"
  by (induction ws) auto

lemma find_replace_other: "wr_kind w = WkPassword \<Longrightarrow> kind \<noteq> WkPassword \<Longrightarrow>
    find (\<lambda>v. wr_kind v = kind) (replace_wrapper w ws) = find (\<lambda>v. wr_kind v = kind) ws"
  by (induction ws) auto

lemma collect_results_Cons_Ok:
  "collect_results (r # rs) = Ok ys \<longleftrightarrow> (\<exists>x xs. r = Ok x \<and> collect_results rs = Ok xs \<and> ys = x # xs)"
  by (cases r) (auto split: sum.splits)

text \<open>The file of a new space.\<close>

lemma created_file:
  assumes "aead_law cr" "length (ke_dek env) = 32"
    and "create_keys_with cr node env sid mode password encrypt kr = (Ok (dek, display), kr1)"
  obtains kf where "hget (kr_files kr1) sid = Some (Ok kf)" "kf_version kf = format_version" "kf_space_id kf = sid" "kf_mode kf = mode"
    "dek = ke_dek env" "display = recovery_display cr (ke_code env)" "validate_space_id sid = Ok ()"
    "hget (kr_state kr1) sid = Some \<lparr> sk_encrypt_records = encrypt, sk_dek = Some dek \<rparr>" "kf_encrypt_records kf = encrypt"
    "mode = NodeUnlock \<Longrightarrow> \<exists>kek. node sid = Ok kek \<and> wrapped cr kf WkNode None kek dek"
    "\<And>pw. password = Some pw \<Longrightarrow> wrapped cr kf WkPassword (Some (ke_salt env)) (password_kek cr pw (ke_salt env)) dek"
    "wrapped cr kf WkRecovery None (recovery_kek cr (ke_code env) sid) dek"
proof -
  obtain ws where ws: "build_wrappers cr node env (sid, mode, encrypt) password = Ok ws" and v: "validate_space_id sid = Ok ()"
    and d: "dek = ke_dek env" "display = recovery_display cr (ke_code env)"
    and r: "kr1 = kr\<lparr> kr_files := hput sid (Ok \<lparr> kf_version = format_version, kf_space_id = sid, kf_mode = mode,
              kf_encrypt_records = encrypt, kf_wrappers = ws, kf_kek_source = None \<rparr>) (kr_files kr),
            kr_state := hput sid \<lparr> sk_encrypt_records = encrypt, sk_dek = Some (ke_dek env) \<rparr> (kr_state kr) \<rparr>"
    using assms(3) unfolding create_keys_with_def write_keystore_def
    by (auto split: sum.splits option.splits if_splits)
  let ?kf = "\<lparr> kf_version = format_version, kf_space_id = sid, kf_mode = mode, kf_encrypt_records = encrypt, kf_wrappers = ws, kf_kek_source = None \<rparr>"
  have op: "wr_kind w = kind \<and> wr_salt w = map_option hex_encode salt \<and> open_wrapper cr ?kf w kek = Ok dek"
    if "make_wrapper cr nonce (sid, mode, encrypt) kind kek salt (ke_dek env) = Ok w" for nonce kind kek salt w
    using make_wrapper_opens [OF assms(1), of nonce ?kf kind kek salt "ke_dek env" w] that assms(2) d by simp
  obtain wr where wr: "make_wrapper cr (ke_nonce env 2) (sid, mode, encrypt) WkRecovery (recovery_kek cr (ke_code env) sid) None (ke_dek env) = Ok wr"
    using ws by (auto simp: build_wrappers_def collect_results_append collect_results_Cons_Ok split: sum.splits option.splits if_splits)
  have 1: "\<exists>kek. node sid = Ok kek \<and> wrapped cr ?kf WkNode None kek dek" if "mode = NodeUnlock"
    using ws that op by (auto simp: build_wrappers_def collect_results_append collect_results_Cons_Ok wrapped_def split: sum.splits option.splits)
  have 2: "wrapped cr ?kf WkPassword (Some (ke_salt env)) (password_kek cr pw (ke_salt env)) dek" if "password = Some pw" for pw
    using ws that op by (auto simp: build_wrappers_def collect_results_append collect_results_Cons_Ok password_wrapper_def wrapped_def split: sum.splits if_splits)
  have 3: "wrapped cr ?kf WkRecovery None (recovery_kek cr (ke_code env) sid) dek"
    using ws op by (auto simp: build_wrappers_def collect_results_append collect_results_Cons_Ok password_wrapper_def wrapped_def split: sum.splits option.splits if_splits)
  show thesis by (rule that [of ?kf]) (use r d v 1 2 3 in simp_all)
qed

text \<open>C24: A key is never lost by the way it is unlocked: after a space is created, a later ring over the same files gets
  back the very key from the node key if the space unlocks by itself, from the password if one was given, and from the
  recovery code that was displayed; after a change of password, the new password and the other two still do.\<close>

theorem every_unlock_gives_the_key:
  assumes "aead_law cr" "length (ke_dek env) = 32" "length (ke_code env) = 32" "length (ke_salt env) = 16" "length (ke_salt env') = 16"
    and "\<forall>x. length (cr_sha256 cr x) = 32"
    and "create_keys_with cr node env sid mode password encrypt kr = (Ok (dek, display), kr1)"
    and "(kr2 = kr1 \<and> current = password) \<or> (change_password cr env' sid dek new kr1 = (Ok (), kr2) \<and> current = Some new)"
    and "kr_files later = kr_files kr2"
  shows "(mode = NodeUnlock \<longrightarrow> fst (unlock_with_node cr node sid later) = Ok dek)
    \<and> (\<forall>pw. current = Some pw \<longrightarrow> fst (unlock_with_password cr sid pw later) = Ok dek)
    \<and> fst (unlock_with_recovery cr sid display later) = Ok dek"
proof -
  obtain kf where kf: "hget (kr_files kr1) sid = Some (Ok kf)" "kf_version kf = format_version" "kf_space_id kf = sid" "kf_mode kf = mode"
    "dek = ke_dek env" "display = recovery_display cr (ke_code env)" and v: "validate_space_id sid = Ok ()"
    and st: "hget (kr_state kr1) sid = Some \<lparr> sk_encrypt_records = encrypt, sk_dek = Some dek \<rparr>"
    and 1: "mode = NodeUnlock \<Longrightarrow> \<exists>kek. node sid = Ok kek \<and> wrapped cr kf WkNode None kek dek"
    and 2: "\<And>pw. password = Some pw \<Longrightarrow> wrapped cr kf WkPassword (Some (ke_salt env)) (password_kek cr pw (ke_salt env)) dek"
    and 3: "wrapped cr kf WkRecovery None (recovery_kek cr (ke_code env) sid) dek"
    by (rule created_file [OF assms(1,2,7)]) blast
  have final: ?thesis if rd: "read_keystore later sid = Ok (Some kg)"
    and node: "\<And>k. wrapped cr kf WkNode None k dek \<Longrightarrow> wrapped cr kg WkNode None k dek"
    and rec: "wrapped cr kg WkRecovery None (recovery_kek cr (ke_code env) sid) dek" and salt: "length salt = 16"
    and pass: "\<And>pw. current = Some pw \<Longrightarrow> wrapped cr kg WkPassword (Some salt) (password_kek cr pw salt) dek" for kg salt
  proof -
    have "fst (unlock_with_node cr node sid later) = Ok dek" if "mode = NodeUnlock"
      using 1 [OF that] node unfolding unlock_with_node_def by (auto intro!: unlock_with_wrapped [OF v rd])
    then show ?thesis
      using unlock_password_wrapped [OF v rd salt pass] unlock_recovery_wrapped [OF v rd assms(3) _ rec] assms(6) kf(6)
      by blast
  qed
  from assms(8) show ?thesis
  proof
    assume same: "kr2 = kr1 \<and> current = password"
    have "read_keystore later sid = Ok (Some kf)" using same assms(9) kf by (simp add: read_keystore_def)
    then show ?thesis by (rule final [where salt = "ke_salt env"]) (use same 2 3 assms(4) in auto)
  next
    assume ch: "change_password cr env' sid dek new kr1 = (Ok (), kr2) \<and> current = Some new"
    have cur: "current_dek sid kr1 = (Ok dek, kr1)" using st by (simp add: current_dek_def ensure_loaded_def hmem_def)
    have rd: "read_keystore kr1 sid = Ok (Some kf)" using kf by (simp add: read_keystore_def)
    obtain w where w: "password_wrapper cr env' (kf_space_id kf, kf_mode kf, kf_encrypt_records kf) new dek = Ok w"
      and k2: "kr_files kr2 = hput sid (Ok (kf\<lparr> kf_wrappers := replace_wrapper w (kf_wrappers kf) \<rparr>)) (kr_files kr1)"
      using ch cur rd kf(3) by (auto simp: change_password_def write_keystore_def split: sum.splits if_splits)
    let ?kg = "kf\<lparr> kf_wrappers := replace_wrapper w (kf_wrappers kf) \<rparr>"
    have wa: "wrap_ad ?kg x = wrap_ad kf x" for x by (simp add: wrap_ad_def)
    have ow: "open_wrapper cr ?kg u k = open_wrapper cr kf u k" for u k unfolding open_wrapper_def wa ..
    have nw: "wr_kind w = WkPassword \<and> wr_salt w = Some (hex_encode (ke_salt env'))
        \<and> open_wrapper cr kf w (password_kek cr new (ke_salt env')) = Ok dek"
      using make_wrapper_opens [OF assms(1) w [unfolded password_wrapper_def]] assms(2) kf(5) by simp
    have other: "wrapped cr ?kg kind s k d = wrapped cr kf kind s k d" if "kind \<noteq> WkPassword" for kind s k d
      using find_replace_other [OF conjunct1 [OF nw] that] by (simp add: wrapped_def ow)
    have pw: "wrapped cr ?kg WkPassword (Some (ke_salt env')) (password_kek cr new (ke_salt env')) dek"
      using nw find_replace_password [OF conjunct1 [OF nw]] by (simp add: wrapped_def ow)
    have "read_keystore later sid = Ok (Some ?kg)" using k2 assms(9) kf by (simp add: read_keystore_def)
    then show ?thesis
      by (rule final [where salt = "ke_salt env'"])
        (use other 3 assms(5) pw ch in auto)
  qed
qed

text \<open>A key ring that saw evidence of encryption.\<close>

lemma record_key_required:
  assumes "is_required kr sid" "fst (ring_record_key sid kr) = Ok rk"
  shows "\<exists>k. rk = RkKey k \<and> Option.bind (hget (kr_state kr) sid) sk_dek = Some k"
  using assms
  by (auto simp: ring_record_key_def ensure_loaded_def hmem_def is_required_def split: prod.splits sum.splits option.splits if_splits)

text \<open>C25: A space known to be encrypted stores nothing in plain text and shows no stored plain text: what its codec writes is
  the sealed form under the unlocked key, bound to space, kind and record; what it reads was opened by that key; and with
  the space locked or its keystore missing both fail.\<close>

theorem required_space_never_plain:
  assumes "is_required kr sid"
  shows "(cd_seal (keyed_codec cr kr sid kind) nonce plain rid = Ok stored \<longrightarrow>
      (\<exists>k. Option.bind (hget (kr_state kr) sid) sk_dek = Some k
        \<and> stored = record_prefix @ hex_encode (nonce12 nonce @ cr_seal cr k (nonce12 nonce) (bytes_of plain) (record_ad sid kind rid))))
    \<and> (cd_open (keyed_codec cr kr sid kind) stored rid = Ok text \<longrightarrow>
      (\<exists>k n ct p. Option.bind (hget (kr_state kr) sid) sk_dek = Some k \<and> cr_open cr k n ct (record_ad sid kind rid) = Some p
        \<and> text = text_of p \<and> strip_prefix stored record_prefix \<noteq> None))
    \<and> (Option.bind (hget (kr_state kr) sid) sk_dek = None \<longrightarrow>
      \<not> is_ok (cd_seal (keyed_codec cr kr sid kind) nonce plain rid) \<and> \<not> is_ok (cd_open (keyed_codec cr kr sid kind) stored rid))"
proof (cases "fst (ring_record_key sid kr)")
  case (Inl e)
  then show ?thesis by (simp add: keyed_codec_def)
next
  case (Inr rk)
  then obtain k where k: "rk = RkKey k" "Option.bind (hget (kr_state kr) sid) sk_dek = Some k"
    using record_key_required [OF assms] by blast
  have "\<exists>n ct p. cr_open cr k n ct (record_ad sid kind rid) = Some p \<and> text = text_of p \<and> strip_prefix stored record_prefix \<noteq> None"
    if "open_record cr k sid kind rid stored = Ok text"
    using that by (fastforce simp: open_record_def open_record_bytes_def aead_open_def split: option.splits sum.splits if_splits)
  then show ?thesis using Inr k by (auto simp: keyed_codec_def seal_record_eq)
qed

text \<open>A space of which only the flag in its meta data is known: locked, it refuses both ways.\<close>

text \<open>A cipher that keeps the text, with fixed key derivations.\<close>

definition sample_crypto :: space_crypto where
  "sample_crypto = \<lparr> cr_seal = \<lambda>k n p a. p, cr_open = \<lambda>k n c a. Some c, cr_hkdf = \<lambda>a b. replicate 32 1,
     cr_argon = \<lambda>a b. replicate 32 2, cr_sha256 = \<lambda>x. replicate 32 7 \<rparr>"

theorem required_space_never_plain_witness:
  "\<not> is_ok (cd_seal (keyed_codec sample_crypto (require_encryption ''s'' (key_ring_new [])) ''s'' ''message'') [] ''hi'' ''0'')
   \<and> \<not> is_ok (cd_open (keyed_codec sample_crypto (require_encryption ''s'' (key_ring_new [])) ''s'' ''message'') ''hi'' ''0'')"
proof -
  let ?kr = "require_encryption ''s'' (key_ring_new [])"
  have "is_required ?kr ''s''" by (simp add: is_required_def require_encryption_def key_ring_new_def)
  then show ?thesis
    using required_space_never_plain [of ?kr "''s''" sample_crypto] by (simp add: require_encryption_def key_ring_new_def)
qed

text \<open>A space that unlocks by itself, has a password and changes it.\<close>

definition sample_ring_env :: ring_env where
  "sample_ring_env = \<lparr> ke_dek = replicate 32 9, ke_code = replicate 32 5, ke_nonce = \<lambda>_. replicate 12 0,
     ke_salt = replicate 16 3, ke_writes = True \<rparr>"

theorem every_unlock_gives_the_key_witness:
  "fst (unlock_with_recovery sample_crypto ''s'' (recovery_display sample_crypto (replicate 32 5))
     (snd (create_keys_with sample_crypto (static_node_kek sample_crypto (replicate 32 4)) sample_ring_env ''s'' NodeUnlock None True
        (key_ring_new [])))) = Ok (replicate 32 9)"
proof -
  let ?node = "static_node_kek sample_crypto (replicate 32 4)"
  let ?kr1 = "snd (create_keys_with sample_crypto ?node sample_ring_env ''s'' NodeUnlock None True (key_ring_new []))"
  have created: "create_keys_with sample_crypto ?node sample_ring_env ''s'' NodeUnlock None True (key_ring_new [])
    = (Ok (replicate 32 9, recovery_display sample_crypto (replicate 32 5)), ?kr1)"
    by (simp add: create_keys_with_def validate_space_id_def id_char_def is_alnum_def key_ring_new_def hmem_def
        build_wrappers_def static_node_kek_def make_wrapper_def aead_seal_def sample_crypto_def sample_ring_env_def
        recovery_kek_def write_keystore_def)
  have law: "aead_law sample_crypto" by (simp add: aead_law_def sample_crypto_def)
  show ?thesis
    by (rule conjunct2 [OF conjunct2 [OF every_unlock_gives_the_key [OF law _ _ _ _ _ created, where env' = sample_ring_env
          and current = None and new = "[]" and ?kr2.0 = ?kr1]]])
      (simp_all add: sample_ring_env_def sample_crypto_def)
qed

end
