(* ===== verification/SpaceProtocol.thy ===== *)
theory SpaceProtocol
  imports Prelude
begin

text \<open>The protocol a space is created with: \<open>src/src/workspace/protocol.rs\<close>, its enumerations in
  \<open>src/src/workspace/config.rs\<close> and \<open>src/src/memory/store.rs\<close>, and what a space accepts of it
  (\<open>check_protocol\<close> of \<open>src/src/espacio/manager.rs\<close>). The dedup settings, which nothing here reads, are left out;
  whether the program was built with the feature \<open>mesh\<close> is an argument.\<close>

section \<open>The parts of a protocol\<close>

datatype memory_backend = MbAuto | MbFile | MbMemory | MbSqlite | MbVec | MbSupabase | MbPostgres | MbFallback

definition backend_str :: "memory_backend \<Rightarrow> string" where
  "backend_str b = (case b of MbAuto \<Rightarrow> ''auto'' | MbFile \<Rightarrow> ''file'' | MbMemory \<Rightarrow> ''memory'' | MbSqlite \<Rightarrow> ''sqlite''
     | MbVec \<Rightarrow> ''vec'' | MbSupabase \<Rightarrow> ''supabase'' | MbPostgres \<Rightarrow> ''postgres'' | MbFallback \<Rightarrow> ''fallback'')"

definition backend_from_env :: "string \<Rightarrow> memory_backend" where
  "backend_from_env v = (let s = ascii_lower (trim v) in
     if s = ''auto'' then MbAuto else if s = ''memory'' then MbMemory else if s = ''sqlite'' then MbSqlite
     else if s = ''vec'' \<or> s = ''sqlite-vec'' then MbVec else if s = ''supabase'' then MbSupabase
     else if s = ''postgres'' \<or> s = ''neon'' then MbPostgres else if s = ''file'' then MbFile
     else if s = ''fallback'' \<or> s = ''chain'' then MbFallback else MbFile)"

datatype sync_policy = SyLocalOnly | SyCloudMirror | SyMetadataOnly | SyCloudHotCache | SyGitChunk

datatype plan_tier = PtCommunity | PtFree | PtPersonal | PtPro

datatype embedding_mode = EmBringYourOwn | EmManaged

datatype transport_kind = TkLocalOnly | TkHttps | TkIroh | TkOnion

record storage_protocol =
  sg_backend :: memory_backend
  sg_encrypt_records :: bool

record sync_protocol =
  sy_policy :: sync_policy
  sy_mirror_target :: "string option"

record transport_protocol =
  tp_kind :: transport_kind
  tp_chain :: "transport_kind list"

record limits_protocol =
  lp_plan :: plan_tier
  lp_storage_limit_bytes :: "64 word option"
  lp_request_limit :: "64 word option"

record space_protocol =
  sp_version :: "32 word"
  sp_storage :: storage_protocol
  sp_sync :: sync_protocol
  sp_transport :: transport_protocol
  sp_limits :: limits_protocol
  sp_embedding_mode :: embedding_mode
  sp_members_cap :: "32 word"
  sp_invite_default_ttl_hours :: "32 word"
  sp_retention_days :: "64 word option"

definition protocol_version :: "32 word" where "protocol_version = 1"

definition default_protocol :: space_protocol where
  "default_protocol = \<lparr> sp_version = protocol_version,
     sp_storage = \<lparr> sg_backend = MbVec, sg_encrypt_records = True \<rparr>,
     sp_sync = \<lparr> sy_policy = SyLocalOnly, sy_mirror_target = None \<rparr>,
     sp_transport = \<lparr> tp_kind = TkLocalOnly, tp_chain = [] \<rparr>,
     sp_limits = \<lparr> lp_plan = PtCommunity, lp_storage_limit_bytes = None, lp_request_limit = None \<rparr>,
     sp_embedding_mode = EmBringYourOwn, sp_members_cap = 100, sp_invite_default_ttl_hours = 24, sp_retention_days = None \<rparr>"

section \<open>Validation\<close>

definition check_transport :: "bool \<Rightarrow> transport_kind \<Rightarrow> string \<Rightarrow> string list" where
  "check_transport mesh kind label = (case kind of
     TkOnion \<Rightarrow> [label @ '': onion transport is not supported (future)'']
   | TkIroh \<Rightarrow> (if \<not> mesh then [label @ '': iroh transport requires the `mesh` feature''] else [])
   | _ \<Rightarrow> [])"

text \<open>The errors in the order in which they are found; none when the protocol is valid.\<close>

definition protocol_errors :: "bool \<Rightarrow> space_protocol \<Rightarrow> string list" where
  "protocol_errors mesh p =
     (if sp_version p \<noteq> protocol_version
      then [''version '' @ nat_dec (unat (sp_version p)) @ '' is not supported (expected 1)''] else [])
   @ (if sg_backend (sp_storage p) \<in> {MbFile, MbSqlite, MbVec} then []
      else [''storage.backend '' @ [CHR 0x27] @ backend_str (sg_backend (sp_storage p)) @ [CHR 0x27]
            @ '' is not allowed (use file, sqlite or vec)''])
   @ (if sy_policy (sp_sync p) \<noteq> SyLocalOnly \<and> \<not> sg_encrypt_records (sp_storage p)
      then [''sync.policy other than local_only requires encrypt_records=true''] else [])
   @ (if sy_policy (sp_sync p) \<in> {SyCloudMirror, SyCloudHotCache, SyGitChunk}
        \<and> trim (case sy_mirror_target (sp_sync p) of Some t \<Rightarrow> t | None \<Rightarrow> []) = []
      then [''sync.mirror_target is required for this sync.policy''] else [])
   @ check_transport mesh (tp_kind (sp_transport p)) ''transport.kind''
   @ concat (map (\<lambda>kind. check_transport mesh kind ''transport.chain'') (tp_chain (sp_transport p)))
   @ (if lp_storage_limit_bytes (sp_limits p) = Some 0 then [''limits.storage_limit_bytes must be positive''] else [])
   @ (if lp_request_limit (sp_limits p) = Some 0 then [''limits.request_limit must be positive''] else [])
   @ (if sp_members_cap p = 0 then [''members_cap must be positive''] else [])
   @ (if sp_invite_default_ttl_hours p = 0 then [''invite_default_ttl_hours must be positive''] else [])"

definition protocol_validate :: "bool \<Rightarrow> space_protocol \<Rightarrow> (unit, string list) result" where
  "protocol_validate mesh p = (let errors = protocol_errors mesh p in if errors = [] then Ok () else Err errors)"

definition immutable_change :: "space_protocol \<Rightarrow> space_protocol \<Rightarrow> (unit, string) result" where
  "immutable_change old new =
     (if sg_backend (sp_storage old) \<noteq> sg_backend (sp_storage new)
      then Err (''storage.backend is immutable after creation ('' @ [CHR 0x27] @ backend_str (sg_backend (sp_storage old))
                @ [CHR 0x27] @ '' -> '' @ [CHR 0x27] @ backend_str (sg_backend (sp_storage new)) @ [CHR 0x27] @ '')'')
      else Ok ())"

fun join_semicolon :: "string list \<Rightarrow> string" where
  "join_semicolon [] = []"
| "join_semicolon [s] = s"
| "join_semicolon (s # t # ts) = s @ ''; '' @ join_semicolon (t # ts)"

definition check_protocol :: "bool \<Rightarrow> space_protocol \<Rightarrow> (unit, string) result" where
  "check_protocol mesh p = (case protocol_validate mesh p of
     Err es \<Rightarrow> Err (join_semicolon es)
   | Ok _ \<Rightarrow>
       (let unsupported =
          (if sy_policy (sp_sync p) \<noteq> SyLocalOnly then [''sync.policy must be local_only in this version''] else [])
          @ (if sy_mirror_target (sp_sync p) \<noteq> None then [''sync.mirror_target is not supported in this version''] else [])
          @ (if tp_kind (sp_transport p) \<noteq> TkLocalOnly \<or> tp_chain (sp_transport p) \<noteq> []
             then [''transport must be local_only in this version''] else [])
        in if unsupported = [] then Ok () else Err (join_semicolon unsupported)))"

text \<open>What is accepted stays on this node and has room for a member; the default is accepted.\<close>

lemma check_protocol_Ok:
  "check_protocol mesh p = Ok () \<longleftrightarrow> sp_version p = protocol_version \<and> sg_backend (sp_storage p) \<in> {MbFile, MbSqlite, MbVec}
    \<and> sp_sync p = \<lparr> sy_policy = SyLocalOnly, sy_mirror_target = None \<rparr>
    \<and> sp_transport p = \<lparr> tp_kind = TkLocalOnly, tp_chain = [] \<rparr>
    \<and> lp_storage_limit_bytes (sp_limits p) \<noteq> Some 0 \<and> lp_request_limit (sp_limits p) \<noteq> Some 0
    \<and> sp_members_cap p \<noteq> 0 \<and> sp_invite_default_ttl_hours p \<noteq> 0"
  by (cases "sp_sync p"; cases "sp_transport p")
    (auto simp: check_protocol_def protocol_validate_def protocol_errors_def Let_def check_transport_def split: if_splits)

lemma default_protocol_accepted: "check_protocol mesh default_protocol = Ok ()"
  unfolding check_protocol_Ok by (simp add: default_protocol_def)

end
