(* ===== verification/SpaceStores.thy ===== *)
theory SpaceStores
  imports SpaceKeys MeshNetworks SpaceProtocol
begin

text \<open>The stores of all spaces of a node: \<open>SpaceStores\<close> of \<open>src/src/espacio/store.rs\<close>, \<open>ChannelManager\<close> of
  \<open>channel.rs\<close>, the sweeps of \<open>retention.rs\<close> and the token lookup of \<open>tokens.rs\<close>. A persistent registry keeps the
  database and the descriptor of each space in its directory, one in memory only the databases it has open. File
  accesses succeed; clock, fresh identifiers, random bytes and the third-party cryptography are arguments.\<close>

section \<open>Descriptors\<close>

record legacy_workspace =
  lw_id :: string
  lw_workspace_root :: string
  lw_db_dir :: "string option"

record space_descriptor =
  sd_id :: string
  sd_name :: string
  sd_description :: string
  sd_owner_node :: string
  sd_is_public :: bool
  sd_created_at :: int
  sd_namespace :: string
  sd_encryption :: "(bool \<times> nat) option"
  sd_legacy :: bool
  sd_legacy_store :: "legacy_workspace option"
  sd_protocol :: "space_protocol option"

section \<open>Stores\<close>

record space_stores =
  ss_persistent :: bool
  ss_codec :: record_codec_ops
  ss_custom_codec :: bool
  ss_ring :: "key_ring option"
  ss_dbs :: "(string, space_db) hmap"
  ss_open :: "string list"
  ss_descriptors :: "(string, (space_descriptor, string) result) hmap"

definition stores_in_memory :: space_stores where
  "stores_in_memory = \<lparr> ss_persistent = False, ss_codec = plaintext_codec, ss_custom_codec = False, ss_ring = None,
     ss_dbs = [], ss_open = [], ss_descriptors = [] \<rparr>"

text \<open>The three ways to open a directory; its files are arguments.\<close>

definition stores_open :: "(string, space_db) hmap \<Rightarrow> (string, (space_descriptor, string) result) hmap \<Rightarrow> space_stores" where
  "stores_open dbs descs = \<lparr> ss_persistent = True, ss_codec = plaintext_codec, ss_custom_codec = False, ss_ring = None,
     ss_dbs = dbs, ss_open = [], ss_descriptors = descs \<rparr>"

definition stores_with_codec :: "(string, space_db) hmap \<Rightarrow> (string, (space_descriptor, string) result) hmap
    \<Rightarrow> record_codec_ops \<Rightarrow> space_stores" where
  "stores_with_codec dbs descs codec = (stores_open dbs descs)\<lparr> ss_codec := codec, ss_custom_codec := True \<rparr>"

definition stores_with_key_ring :: "(string, space_db) hmap \<Rightarrow> (string, (space_descriptor, string) result) hmap
    \<Rightarrow> key_ring \<Rightarrow> space_stores" where
  "stores_with_key_ring dbs descs ring = (stores_open dbs descs)\<lparr> ss_ring := Some ring \<rparr>"

definition codec_of :: "space_crypto \<Rightarrow> space_stores \<Rightarrow> string \<Rightarrow> record_codec_ops" where
  "codec_of cr ss sid = (case ss_ring ss of Some ring \<Rightarrow> keyed_codec cr ring sid ''message'' | None \<Rightarrow> ss_codec ss)"

definition encryption_evidence :: "space_stores \<Rightarrow> string \<Rightarrow> (bool, space_err) result" where
  "encryption_evidence ss sid =
     (if \<not> ss_persistent ss then Ok False
      else case hget (ss_descriptors ss) sid of
             Some (Err e) \<Rightarrow> Err (SpMsg e)
           | d \<Rightarrow>
               (if (case d of Some (Ok desc) \<Rightarrow> (case sd_encryption desc of Some (enabled, _) \<Rightarrow> enabled | None \<Rightarrow> False) | _ \<Rightarrow> False)
                then Ok True
                else case hget (ss_dbs ss) sid of
                       None \<Rightarrow> Ok False
                     | Some db \<Rightarrow>
                         (if encryption_flag db then Ok True
                          else if list_ex (\<lambda>r. looks_encrypted (ms_content r)) (db_messages db) then Ok True
                          else Ok False)))"

definition ring_check :: "string \<Rightarrow> space_stores \<Rightarrow> (unit, space_err) result \<times> space_stores" where
  "ring_check sid ss = (case ss_ring ss of
     None \<Rightarrow> (Ok (), ss)
   | Some ring \<Rightarrow> (case check_unlocked sid ring of (r, ring') \<Rightarrow> (r, ss\<lparr> ss_ring := Some ring' \<rparr>)))"

text \<open>The last part of \<open>get_inner\<close>: positive evidence of encryption needs a key ring, or a codec of the caller.\<close>

definition admit_evidence :: "string \<Rightarrow> space_stores \<Rightarrow> (unit, space_err) result \<times> space_stores" where
  "admit_evidence sid ss = (case encryption_evidence ss sid of
     Err e \<Rightarrow> (Err e, ss)
   | Ok False \<Rightarrow> (Ok (), ss)
   | Ok True \<Rightarrow> (case ss_ring ss of
       Some ring \<Rightarrow> ring_check sid (ss\<lparr> ss_ring := Some (require_encryption sid ring) \<rparr>)
     | None \<Rightarrow> (if \<not> ss_custom_codec ss then (Err (SpKeys (KeKeystoreMissing sid)), ss) else (Ok (), ss))))"

definition open_new :: "string \<Rightarrow> space_stores \<Rightarrow> space_stores" where
  "open_new sid ss = ss\<lparr> ss_dbs := (if hmem (ss_dbs ss) sid then ss_dbs ss else hput sid empty_db (ss_dbs ss)),
     ss_open := List.insert sid (ss_open ss) \<rparr>"

definition get_inner :: "string \<Rightarrow> bool \<Rightarrow> space_stores \<Rightarrow> (unit, space_err) result \<times> space_stores" where
  "get_inner sid create ss =
     (case validate_space_id sid of
        Err e \<Rightarrow> (Err e, ss)
      | Ok _ \<Rightarrow> (case ring_check sid ss of
          (Err e, ss1) \<Rightarrow> (Err e, ss1)
        | (Ok _, ss1) \<Rightarrow>
            (if sid \<in> set (ss_open ss1) then (Ok (), ss1)
             else if \<not> create \<and> \<not> (ss_persistent ss1 \<and> hmem (ss_dbs ss1) sid) then (Err (SpNotFound sid), ss1)
             else case admit_evidence sid ss1 of
                    (Err e, ss2) \<Rightarrow> (Err e, ss2)
                  | (Ok _, ss2) \<Rightarrow> (Ok (), open_new sid ss2))))"

definition stores_get :: "string \<Rightarrow> space_stores \<Rightarrow> (unit, space_err) result \<times> space_stores" where
  "stores_get sid ss = get_inner sid True ss"

definition stores_get_existing :: "string \<Rightarrow> space_stores \<Rightarrow> (bool, space_err) result \<times> space_stores" where
  "stores_get_existing sid ss = (case get_inner sid False ss of
     (Ok _, ss1) \<Rightarrow> (Ok True, ss1)
   | (Err (SpNotFound x), ss1) \<Rightarrow> (Ok False, ss1)
   | (Err e, ss1) \<Rightarrow> (Err e, ss1))"

text \<open>Closing a database in memory loses it.\<close>

definition stores_evict :: "string \<Rightarrow> space_stores \<Rightarrow> space_stores" where
  "stores_evict sid ss = ss\<lparr> ss_open := removeAll sid (ss_open ss),
     ss_dbs := (if ss_persistent ss \<or> sid \<notin> set (ss_open ss) then ss_dbs ss else hdel sid (ss_dbs ss)) \<rparr>"

definition known_space_ids :: "space_stores \<Rightarrow> string list" where
  "known_space_ids ss = sort (ss_open ss @ (if ss_persistent ss
     then filter (\<lambda>sid. is_ok (validate_space_id sid) \<and> sid \<notin> set (ss_open ss)) (hkeys (ss_dbs ss)) else []))"

definition prime_encryption :: "string \<Rightarrow> space_stores \<Rightarrow> space_stores" where
  "prime_encryption sid ss = (case ss_ring ss of
     None \<Rightarrow> ss
   | Some ring \<Rightarrow>
       (if \<not> ss_persistent ss \<or> \<not> is_ok (validate_space_id sid) \<or> hmem (kr_files ring) sid then ss
        else case encryption_evidence ss sid of
               Ok False \<Rightarrow> ss
             | _ \<Rightarrow> ss\<lparr> ss_ring := Some (require_encryption sid ring) \<rparr>))"

text \<open>The database behind an open handle, and an operation on it.\<close>

definition db_of :: "space_stores \<Rightarrow> string \<Rightarrow> space_db" where
  "db_of ss sid = (case hget (ss_dbs ss) sid of Some db \<Rightarrow> db | None \<Rightarrow> empty_db)"

definition set_db :: "string \<Rightarrow> space_db \<Rightarrow> space_stores \<Rightarrow> space_stores" where
  "set_db sid db ss = ss\<lparr> ss_dbs := hput sid db (ss_dbs ss) \<rparr>"

definition with_store :: "string \<Rightarrow> (space_stores \<Rightarrow> space_db \<Rightarrow> ('a, space_err) result \<times> space_db) \<Rightarrow> space_stores
    \<Rightarrow> ('a, space_err) result \<times> space_stores" where
  "with_store sid f ss = (case stores_get sid ss of
     (Err e, ss1) \<Rightarrow> (Err e, ss1)
   | (Ok _, ss1) \<Rightarrow> (case f ss1 (db_of ss1 sid) of (r, db) \<Rightarrow> (r, set_db sid db ss1)))"

text \<open>An operation on the store of a space that exists; \<open>None\<close> when it does not.\<close>

definition with_existing :: "string \<Rightarrow> (space_stores \<Rightarrow> space_db \<Rightarrow> ('a, space_err) result \<times> space_db) \<Rightarrow> space_stores
    \<Rightarrow> ('a option, space_err) result \<times> space_stores" where
  "with_existing sid f ss = (case stores_get_existing sid ss of
     (Err e, ss1) \<Rightarrow> (Err e, ss1)
   | (Ok False, ss1) \<Rightarrow> (Ok None, ss1)
   | (Ok True, ss1) \<Rightarrow> (case f ss1 (db_of ss1 sid) of
       (Err e, db) \<Rightarrow> (Err e, set_db sid db ss1)
     | (Ok x, db) \<Rightarrow> (Ok (Some x), set_db sid db ss1)))"

definition verify_in_stores :: "(8 word list \<Rightarrow> 8 word list) \<Rightarrow> int \<Rightarrow> string \<Rightarrow> space_stores
    \<Rightarrow> (space_auth, token_error) result \<times> space_stores" where
  "verify_in_stores sha256 now raw ss = (case parse_token raw of
     Err e \<Rightarrow> (Err e, ss)
   | Ok sid \<Rightarrow> (case stores_get_existing sid ss of
       (Err _, ss1) \<Rightarrow> (Err TeInvalid, ss1)
     | (Ok False, ss1) \<Rightarrow> (Err TeInvalid, ss1)
     | (Ok True, ss1) \<Rightarrow> (verify_token sha256 now sid raw (db_of ss1 sid), ss1)))"

section \<open>Channels\<close>

definition max_message_chars :: nat where "max_message_chars = 4096"

fun take_chars :: "nat \<Rightarrow> string \<Rightarrow> string" where
  "take_chars n [] = []"
| "take_chars n (c # cs) =
     (if cont (of_char c) then c # take_chars n cs
      else case n of 0 \<Rightarrow> [] | Suc k \<Rightarrow> c # take_chars k cs)"

definition try_post :: "space_crypto \<Rightarrow> 8 word list \<Rightarrow> int \<Rightarrow> string \<Rightarrow> string \<Rightarrow> string \<Rightarrow> space_stores
    \<Rightarrow> (channel_message, space_err) result \<times> space_stores" where
  "try_post cr nonce now sid author content ss =
     (if max_message_chars < char_count content then (Err (SpMsg ''channel message too long''), ss)
      else with_store sid (\<lambda>ss1. append_message (codec_of cr ss1 sid) nonce now sid author content) ss)"

definition channel_post :: "space_crypto \<Rightarrow> 8 word list \<Rightarrow> int \<Rightarrow> int \<Rightarrow> string \<Rightarrow> string \<Rightarrow> string \<Rightarrow> space_stores
    \<Rightarrow> channel_message \<times> space_stores" where
  "channel_post cr nonce now0 now sid author content ss =
     (let text = take_chars max_message_chars content;
          fallback = \<lparr> ch_seq = 0, ch_space_id = sid, ch_author = author, ch_content = text, ch_created_at = now0 \<rparr>
      in case try_post cr nonce now sid author text ss of
           (Ok m, ss1) \<Rightarrow> (m, ss1)
         | (Err _, ss1) \<Rightarrow> (fallback, ss1))"

definition channel_read :: "space_crypto \<Rightarrow> string \<Rightarrow> 64 word option \<Rightarrow> space_stores \<Rightarrow> channel_message list \<times> space_stores" where
  "channel_read cr sid since ss =
     (case with_existing sid (\<lambda>ss1 db. (messages_since (codec_of cr ss1 sid) since db, db)) ss of
        (Ok (Some ms), ss1) \<Rightarrow> (ms, ss1)
      | (Ok None, ss1) \<Rightarrow> ([], ss1)
      | (Err _, ss1) \<Rightarrow> ([], ss1))"

definition list_since :: "space_crypto \<Rightarrow> string \<Rightarrow> 64 word \<Rightarrow> space_stores \<Rightarrow> channel_message list \<times> space_stores" where
  "list_since cr sid since ss = channel_read cr sid (Some since) ss"

definition list_all_messages :: "space_crypto \<Rightarrow> string \<Rightarrow> space_stores \<Rightarrow> channel_message list \<times> space_stores" where
  "list_all_messages cr sid ss = channel_read cr sid None ss"

definition channel_merge :: "space_crypto \<Rightarrow> (int \<Rightarrow> 8 word list) \<Rightarrow> string \<Rightarrow> channel_message list \<Rightarrow> space_stores \<Rightarrow> space_stores" where
  "channel_merge cr nonces sid remote ss =
     (if remote = [] then ss
      else snd (with_store sid (\<lambda>ss1. merge_messages (codec_of cr ss1 sid) nonces sid remote) ss))"

definition channel_len :: "string \<Rightarrow> space_stores \<Rightarrow> nat \<times> space_stores" where
  "channel_len sid ss = (case with_existing sid (\<lambda>_ db. (Ok (message_count db), db)) ss of
     (Ok (Some n), ss1) \<Rightarrow> (n, ss1)
   | (_, ss1) \<Rightarrow> (0, ss1))"

section \<open>Retention of many spaces\<close>

fun sweep_spaces :: "int \<Rightarrow> string list \<Rightarrow> int \<Rightarrow> 64 word \<Rightarrow> space_stores \<Rightarrow> (string \<times> nat) list \<times> space_stores" where
  "sweep_spaces min_time [] now days ss = ([], ss)"
| "sweep_spaces min_time (sid # ids) now days ss =
     (case with_existing sid (\<lambda>_ db. (case sweep_space min_time now days db of (n, db') \<Rightarrow> (Ok n, db'))) ss of
        (Ok (Some n), ss1) \<Rightarrow> (case sweep_spaces min_time ids now days ss1 of (rs, ss2) \<Rightarrow> ((sid, n) # rs, ss2))
      | (_, ss1) \<Rightarrow> sweep_spaces min_time ids now days ss1)"

fun sweep_spaces_per_space :: "int \<Rightarrow> (string \<times> 64 word option) list \<Rightarrow> int \<Rightarrow> 64 word \<Rightarrow> space_stores
    \<Rightarrow> (string \<times> nat) list \<times> space_stores" where
  "sweep_spaces_per_space min_time [] now fallback ss = ([], ss)"
| "sweep_spaces_per_space min_time ((sid, days) # spaces) now fallback ss =
     (case sweep_spaces min_time [sid] now (case days of Some d \<Rightarrow> d | None \<Rightarrow> fallback) ss of
        (rs, ss1) \<Rightarrow> (case sweep_spaces_per_space min_time spaces now fallback ss1 of (rs', ss2) \<Rightarrow> (rs @ rs', ss2)))"

end
