(* ===== verification/SpaceSharing.thy ===== *)
theory SpaceSharing
  imports SpaceStores
begin

text \<open>How spaces are shared: the invitations of \<open>src/src/espacio/invite.rs\<close>, the one-way links of \<open>link.rs\<close> and the
  closed networks of \<open>p2p.rs\<close> with the channel batches they exchange. Signatures are an argument.\<close>

section \<open>Invitations\<close>

definition canonical_payload :: "space_invite \<Rightarrow> string" where
  "canonical_payload invite = si_id invite @ '':'' @ si_space_id invite @ '':'' @ si_inviter_node invite @ '':''
     @ si_target_node invite @ '':'' @ role_str (si_role invite)"

definition invite_is_signed :: "space_invite \<Rightarrow> bool" where
  "invite_is_signed invite = (si_signature invite \<noteq> None)"

type_synonym ed_verify = "string \<Rightarrow> string \<Rightarrow> bytes \<Rightarrow> bool"

definition invite_verify :: "ed_verify \<Rightarrow> string \<Rightarrow> space_invite \<Rightarrow> (unit, space_err) result" where
  "invite_verify ed trusted invite = (case si_signature invite of
     None \<Rightarrow> Err (SpMsg (''Invite '' @ si_id invite @ '' is unsigned''))
   | Some sig_hex \<Rightarrow> (case hex_decode sig_hex of
       Err _ \<Rightarrow> Err (SpMsg (''Invite '' @ si_id invite @ '' signature malformed''))
     | Ok bs \<Rightarrow>
         (if length bs \<noteq> 64 then Err (SpMsg (''Invite '' @ si_id invite @ '' signature malformed''))
          else if ed trusted (canonical_payload invite) bs then Ok ()
          else Err (SpMsg (''Invite '' @ si_id invite @ '' signature invalid'')))))"

definition invite_is_expired :: "int \<Rightarrow> space_invite \<Rightarrow> bool" where
  "invite_is_expired now invite = (si_expires_at invite < now)"

definition invite_is_valid :: "int \<Rightarrow> space_invite \<Rightarrow> bool" where
  "invite_is_valid now invite = (\<not> si_revoked invite \<and> \<not> invite_is_expired now invite)"

record accepted_invite =
  ai_space_id :: string
  ai_member_id :: string
  ai_role :: space_role
  ai_token_id :: string
  ai_token :: string

text \<open>The manager: the shared stores and the index from invitations to spaces.\<close>

record invite_manager =
  im_stores :: space_stores
  im_index :: "(string, string) hmap"

fun index_spaces :: "string list \<Rightarrow> space_stores \<Rightarrow> (string, string) hmap \<Rightarrow> space_stores \<times> (string, string) hmap" where
  "index_spaces [] ss index = (ss, index)"
| "index_spaces (sid # sids) ss index = (case stores_get sid ss of
     (Err _, ss1) \<Rightarrow> index_spaces sids ss1 index
   | (Ok _, ss1) \<Rightarrow> index_spaces sids ss1 (fold (\<lambda>i. hput i sid) (invite_ids (db_of ss1 sid)) index))"

definition invites_with_stores :: "space_stores \<Rightarrow> invite_manager" where
  "invites_with_stores ss = (case index_spaces (known_space_ids ss) ss [] of
     (ss1, index) \<Rightarrow> \<lparr> im_stores = ss1, im_index = index \<rparr>)"

definition invites_insert :: "space_invite \<Rightarrow> invite_manager \<Rightarrow> (unit, space_err) result \<times> invite_manager" where
  "invites_insert invite im = (case with_store (si_space_id invite) (\<lambda>_. insert_invite invite) (im_stores im) of
     (Err e, ss) \<Rightarrow> (Err e, im\<lparr> im_stores := ss \<rparr>)
   | (Ok _, ss) \<Rightarrow> (Ok (), im\<lparr> im_stores := ss, im_index := hput (si_id invite) (si_space_id invite) (im_index im) \<rparr>))"

definition invites_store_of :: "string \<Rightarrow> invite_manager \<Rightarrow> (string, space_err) result \<times> invite_manager" where
  "invites_store_of i im = (case hget (im_index im) i of
     None \<Rightarrow> (Err (SpMsg (''Invite '' @ i @ '' not found'')), im)
   | Some sid \<Rightarrow> (case stores_get sid (im_stores im) of
       (Err e, ss) \<Rightarrow> (Err e, im\<lparr> im_stores := ss \<rparr>)
     | (Ok _, ss) \<Rightarrow> (Ok sid, im\<lparr> im_stores := ss \<rparr>)))"

definition create_with_expiry :: "int \<Rightarrow> string \<Rightarrow> string \<Rightarrow> string \<Rightarrow> string \<Rightarrow> space_role \<Rightarrow> int \<Rightarrow> invite_manager
    \<Rightarrow> (space_invite, space_err) result \<times> invite_manager" where
  "create_with_expiry now ulid sid inviter target role expires im =
     (let invite = \<lparr> si_id = ulid, si_space_id = sid, si_inviter_node = inviter, si_target_node = target, si_role = role,
                     si_created_at = now, si_expires_at = expires, si_signature = None, si_revoked = False \<rparr>
      in case invites_insert invite im of (Err e, im1) \<Rightarrow> (Err e, im1) | (Ok _, im1) \<Rightarrow> (Ok invite, im1))"

definition create_invite :: "int \<Rightarrow> int \<Rightarrow> string \<Rightarrow> string \<Rightarrow> string \<Rightarrow> string \<Rightarrow> space_role \<Rightarrow> invite_manager
    \<Rightarrow> (space_invite, space_err) result \<times> invite_manager" where
  "create_invite now0 now ulid sid inviter target role im =
     create_with_expiry now ulid sid inviter target role (now0 + 24 * 3600 * 10 ^ 9) im"

definition invites_get :: "string \<Rightarrow> invite_manager \<Rightarrow> (space_invite, space_err) result \<times> invite_manager" where
  "invites_get i im = (case invites_store_of i im of
     (Err e, im1) \<Rightarrow> (Err e, im1)
   | (Ok sid, im1) \<Rightarrow> (case get_invite i (db_of (im_stores im1) sid) of
       Err e \<Rightarrow> (Err e, im1)
     | Ok None \<Rightarrow> (Err (SpMsg (''Invite '' @ i @ '' not found'')), im1)
     | Ok (Some invite) \<Rightarrow> (Ok invite, im1)))"

definition invites_validate :: "int \<Rightarrow> string \<Rightarrow> invite_manager \<Rightarrow> (space_invite, space_err) result \<times> invite_manager" where
  "invites_validate now i im = (case invites_get i im of
     (Err e, im1) \<Rightarrow> (Err e, im1)
   | (Ok invite, im1) \<Rightarrow>
       (if si_revoked invite then (Err (SpMsg (''Invite '' @ i @ '' revoked'')), im1)
        else if invite_is_expired now invite then (Err (SpMsg (''Invite '' @ i @ '' expired'')), im1)
        else (Ok invite, im1)))"

definition validate_trusted :: "ed_verify \<Rightarrow> int \<Rightarrow> string \<Rightarrow> string \<Rightarrow> bool \<Rightarrow> invite_manager
    \<Rightarrow> (space_invite, space_err) result \<times> invite_manager" where
  "validate_trusted ed now i trusted require_signed im = (case invites_validate now i im of
     (Err e, im1) \<Rightarrow> (Err e, im1)
   | (Ok invite, im1) \<Rightarrow>
       (if invite_is_signed invite then
          (case invite_verify ed trusted invite of Err e \<Rightarrow> (Err e, im1) | Ok _ \<Rightarrow> (Ok invite, im1))
        else if require_signed then (Err (SpMsg (''Invite '' @ i @ '' is unsigned'')), im1)
        else (Ok invite, im1)))"

definition is_control :: "char \<Rightarrow> bool" where
  "is_control c = ((of_char c :: nat) < 32 \<or> (of_char c :: nat) = 127)"

text \<open>Control characters are the ASCII ones and the two-byte forms of U+0080 to U+009F.\<close>

fun has_control :: "string \<Rightarrow> bool" where
  "has_control [] = False"
| "has_control (c # cs) = (is_control c
     \<or> ((of_char c :: nat) = 0xC2 \<and> (case cs of d # _ \<Rightarrow> 0x80 \<le> (of_char d :: nat) \<and> (of_char d :: nat) \<le> 0x9F | [] \<Rightarrow> False))
     \<or> has_control cs)"

definition accept_invite :: "(bytes \<Rightarrow> bytes) \<Rightarrow> ed_verify \<Rightarrow> space_env \<Rightarrow> int \<Rightarrow> string \<Rightarrow> string \<Rightarrow> string option \<Rightarrow> bool
    \<Rightarrow> invite_manager \<Rightarrow> (accepted_invite, space_err) result \<times> invite_manager" where
  "accept_invite sha256 ed env now i member_id trusted_key require_signed im =
     (if member_id = [] \<or> 128 < length member_id \<or> has_control member_id
      then (Err (SpMsg ''invalid member display name''), im)
      else case (case trusted_key of
                   Some key \<Rightarrow> validate_trusted ed now i key True im
                 | None \<Rightarrow> (if require_signed then (Err (SpMsg ''signature required but no trusted key supplied''), im)
                            else invites_validate now i im)) of
             (Err e, im1) \<Rightarrow> (Err e, im1)
           | (Ok invite, im1) \<Rightarrow>
               (if member_id \<noteq> si_target_node invite
                then (Err (SpMsg (''Invite '' @ i @ '' is not addressed to this identity'')), im1)
                else case with_store (si_space_id invite) (\<lambda>_. redeem_invite sha256 env i (si_space_id invite) member_id (si_role invite))
                            (im_stores im1) of
                       (Err e, ss) \<Rightarrow> (Err e, im1\<lparr> im_stores := ss \<rparr>)
                     | (Ok issued, ss) \<Rightarrow>
                         (Ok \<lparr> ai_space_id = si_space_id invite, ai_member_id = member_id, ai_role = si_role invite,
                               ai_token_id = it_token_id issued, ai_token = it_raw issued \<rparr>, im1\<lparr> im_stores := ss \<rparr>)))"

definition invites_revoke :: "string \<Rightarrow> invite_manager \<Rightarrow> (unit, space_err) result \<times> invite_manager" where
  "invites_revoke i im = (case invites_store_of i im of
     (Err e, im1) \<Rightarrow> (Err e, im1)
   | (Ok sid, im1) \<Rightarrow> (case revoke_invite i (db_of (im_stores im1) sid) of (out, db) \<Rightarrow>
       (case out of RoRevoked \<Rightarrow> Ok ()
        | RoAlreadyRevoked \<Rightarrow> Err (SpMsg (''Invite '' @ i @ '' already revoked''))
        | RoNotFound \<Rightarrow> Err (SpMsg (''Invite '' @ i @ '' not found'')),
        im1\<lparr> im_stores := set_db sid db (im_stores im1) \<rparr>)))"

definition list_for_space :: "string \<Rightarrow> invite_manager \<Rightarrow> space_invite list \<times> invite_manager" where
  "list_for_space sid im = (case with_existing sid (\<lambda>_ db. (list_invites db, db)) (im_stores im) of
     (Ok (Some v), ss) \<Rightarrow> (v, im\<lparr> im_stores := ss \<rparr>)
   | (_, ss) \<Rightarrow> ([], im\<lparr> im_stores := ss \<rparr>))"

definition attach_signature :: "string \<Rightarrow> string \<Rightarrow> invite_manager \<Rightarrow> (unit, space_err) result \<times> invite_manager" where
  "attach_signature i signature_hex im = (case invites_store_of i im of
     (Err e, im1) \<Rightarrow> (Err e, im1)
   | (Ok sid, im1) \<Rightarrow> (case set_invite_signature i signature_hex (db_of (im_stores im1) sid) of (found, db) \<Rightarrow>
       (if found then Ok () else Err (SpMsg (''Invite '' @ i @ '' not found'')),
        im1\<lparr> im_stores := set_db sid db (im_stores im1) \<rparr>)))"

section \<open>Links\<close>

record space_link =
  sl_grant :: cross_grant
  sl_namespace :: "string option"
  sl_path_prefix :: "string option"

definition link_target :: "string \<Rightarrow> string" where
  "link_target grantee = ''space:'' @ grantee"

definition link_resource :: "string \<Rightarrow> string" where
  "link_resource grantor = ''space:'' @ grantor @ ''/memory''"

definition grants_read :: "int \<Rightarrow> string \<Rightarrow> string \<Rightarrow> space_link \<Rightarrow> bool" where
  "grants_read now grantor caller l =
     (cg_target_node (sl_grant l) = link_target caller \<and> cg_resource_id (sl_grant l) = link_resource grantor
      \<and> cg_permission (sl_grant l) = PmRead \<and> grant_is_active now (sl_grant l))"

definition link_allows :: "space_link \<Rightarrow> string \<Rightarrow> json \<Rightarrow> bool" where
  "link_allows l path metadata =
     (if (case sl_path_prefix l of Some prefix \<Rightarrow> \<not> starts_with path prefix | None \<Rightarrow> False) then False
      else case sl_namespace l of
             None \<Rightarrow> True
           | Some ns \<Rightarrow>
               (let r = (case json_get metadata ''namespace'' of Some v \<Rightarrow> v | None \<Rightarrow> JNull)
                in json_as_str r = Some ns \<or> Option.bind (json_get r ''project'') json_as_str = Some ns))"

definition permission_from :: "string \<Rightarrow> permission option" where
  "permission_from s = (if s = ''read'' then Some PmRead else if s = ''write'' then Some PmWrite
     else if s = ''delete'' then Some PmDelete else if s = ''share'' then Some PmShare
     else if s = ''manage'' then Some PmManage else None)"

text \<open>A row that does not parse is dropped.\<close>

definition link_of_row :: "link_row \<Rightarrow> space_link option" where
  "link_of_row r = (case permission_from (lk_permission r) of
     None \<Rightarrow> None
   | Some perm \<Rightarrow> Some \<lparr>
       sl_grant = \<lparr> cg_id = lk_id r, cg_resource_id = lk_resource_id r, cg_target_node = lk_target_node r, cg_permission = perm,
                    cg_expires_at = lk_expires_at r, cg_revoked = lk_revoked r, cg_created_at = lk_created_at r \<rparr>,
       sl_namespace = lk_namespace r, sl_path_prefix = lk_path_prefix r \<rparr>)"

definition read_links :: "space_db \<Rightarrow> space_link list" where
  "read_links db = List.map_filter link_of_row (sort_key (\<lambda>r. (lk_created_at r, lk_id r)) (db_links db))"

definition insert_link :: "space_link \<Rightarrow> space_db \<Rightarrow> (unit, space_err) result \<times> space_db" where
  "insert_link l db =
     (if list_ex (\<lambda>r. lk_id r = cg_id (sl_grant l)) (db_links db) then (Err SpDatabase, db)
      else (Ok (), db\<lparr> db_links := db_links db @ [\<lparr> lk_id = cg_id (sl_grant l), lk_resource_id = cg_resource_id (sl_grant l),
        lk_target_node = cg_target_node (sl_grant l), lk_permission = ''read'', lk_expires_at = cg_expires_at (sl_grant l),
        lk_revoked = cg_revoked (sl_grant l), lk_created_at = cg_created_at (sl_grant l), lk_namespace = sl_namespace l,
        lk_path_prefix = sl_path_prefix l \<rparr>] \<rparr>))"

definition revoke_links_to :: "string \<Rightarrow> space_db \<Rightarrow> nat \<times> space_db" where
  "revoke_links_to grantee db =
     (length (filter (\<lambda>r. lk_target_node r = link_target grantee \<and> \<not> lk_revoked r) (db_links db)),
      db\<lparr> db_links := map (\<lambda>r. if lk_target_node r = link_target grantee \<and> \<not> lk_revoked r then r\<lparr> lk_revoked := True \<rparr> else r)
        (db_links db) \<rparr>)"

definition revoke_link :: "string \<Rightarrow> space_db \<Rightarrow> bool \<times> space_db" where
  "revoke_link i db = (list_ex (\<lambda>r. lk_id r = i) (db_links db),
     db\<lparr> db_links := map (\<lambda>r. if lk_id r = i then r\<lparr> lk_revoked := True \<rparr> else r) (db_links db) \<rparr>)"

definition get_link :: "string \<Rightarrow> space_db \<Rightarrow> space_link option" where
  "get_link i db = find (\<lambda>l. cg_id (sl_grant l) = i) (read_links db)"

text \<open>The links of a grantor, read from the file when the space is locked.\<close>

definition space_is_locked :: "string \<Rightarrow> space_stores \<Rightarrow> bool" where
  "space_is_locked sid ss = (case ss_ring ss of Some ring \<Rightarrow> fst (is_locked sid ring) | None \<Rightarrow> False)"

definition links_of :: "string \<Rightarrow> space_stores \<Rightarrow> space_link list option \<times> space_stores" where
  "links_of grantor ss = (case stores_get grantor ss of
     (Ok _, ss1) \<Rightarrow> (Some (read_links (db_of ss1 grantor)), ss1)
   | (Err _, ss1) \<Rightarrow>
       (if space_is_locked grantor ss1 \<and> ss_persistent ss1 \<and> hmem (ss_dbs ss1) grantor
        then (Some (read_links (db_of ss1 grantor)), ss1) else (None, ss1)))"

fun collect_inbound :: "int \<Rightarrow> string \<Rightarrow> string list \<Rightarrow> space_stores \<Rightarrow> (string \<times> space_link) list \<times> space_stores" where
  "collect_inbound now caller [] ss = ([], ss)"
| "collect_inbound now caller (g # gs) ss = (case links_of g ss of
     (None, ss1) \<Rightarrow> collect_inbound now caller gs ss1
   | (Some links, ss1) \<Rightarrow> (case collect_inbound now caller gs ss1 of
       (out, ss2) \<Rightarrow> (map (\<lambda>l. (g, l)) (filter (grants_read now g caller) links) @ out, ss2)))"

fun revoke_links_naming :: "string list \<Rightarrow> string \<Rightarrow> space_stores \<Rightarrow> nat \<times> space_stores" where
  "revoke_links_naming [] grantee ss = (0, ss)"
| "revoke_links_naming (g # gs) grantee ss =
     (if g = grantee then revoke_links_naming gs grantee ss
      else case (case stores_get g ss of
                   (Ok _, ss1) \<Rightarrow> (case revoke_links_to grantee (db_of ss1 g) of (k, db) \<Rightarrow> (k, set_db g db ss1))
                 | (Err _, ss1) \<Rightarrow>
                     (if space_is_locked g ss1 \<and> ss_persistent ss1 \<and> hmem (ss_dbs ss1) g
                      then (case revoke_links_to grantee (db_of ss1 g) of (k, db) \<Rightarrow> (k, set_db g db ss1))
                      else (0, ss1))) of
             (k, ss2) \<Rightarrow> (case revoke_links_naming gs grantee ss2 of (n, ss3) \<Rightarrow> (k + n, ss3)))"

definition linked_fetch_limit :: "64 word \<Rightarrow> 64 word" where
  "linked_fetch_limit limit = (let t = (if unat limit * 3 < 2 ^ 64 then limit * 3 else - 1)
     in max limit (min t (max limit 300)))"

section \<open>Closed networks\<close>

record closed_network =
  cn_space_id :: string
  cn_network_id :: string
  cn_members :: "string list"
  cn_created_at :: int

record encrypted_envelope =
  ee_network_id :: string
  ee_sender :: string
  ee_ciphertext_hex :: string

type_synonym closed_networks = "(string, closed_network) hmap"

definition envelope_ad :: "string \<Rightarrow> string \<Rightarrow> bytes" where
  "envelope_ad network_id sender =
     foldl (\<lambda>aad part. (aad @ be32 (length part)) @ bytes_of part) [1] [network_id, sender]"

definition net_create :: "int \<Rightarrow> string \<Rightarrow> string \<Rightarrow> string list \<Rightarrow> closed_networks \<Rightarrow> closed_network \<times> closed_networks" where
  "net_create now ulid sid ms nets =
     (let net = \<lparr> cn_space_id = sid, cn_network_id = ''net_'' @ ulid, cn_members = ms, cn_created_at = now \<rparr>
      in (net, hput (cn_network_id net) net nets))"

definition net_is_member :: "string \<Rightarrow> string \<Rightarrow> closed_networks \<Rightarrow> bool" where
  "net_is_member nid node nets = (case hget nets nid of Some n \<Rightarrow> node \<in> set (cn_members n) | None \<Rightarrow> False)"

definition net_add_member :: "string \<Rightarrow> string \<Rightarrow> closed_networks \<Rightarrow> (unit, string) result \<times> closed_networks" where
  "net_add_member nid node nets = (case hget nets nid of
     None \<Rightarrow> (Err ''network not found'', nets)
   | Some n \<Rightarrow> (if node \<in> set (cn_members n) then (Err ''already member'', nets)
                else (Ok (), hput nid (n\<lparr> cn_members := cn_members n @ [node] \<rparr>) nets)))"

definition net_list_for_space :: "string \<Rightarrow> closed_networks \<Rightarrow> closed_network list" where
  "net_list_for_space sid nets = filter (\<lambda>n. cn_space_id n = sid) (hvalues nets)"

definition derive_network_key :: "space_crypto \<Rightarrow> bytes \<Rightarrow> string \<Rightarrow> bytes" where
  "derive_network_key cr space_key network_id = cr_hkdf cr space_key (bytes_of ''xavier-espacio-net-v1'' @ bytes_of network_id)"

definition net_encrypt :: "space_crypto \<Rightarrow> bytes \<Rightarrow> string \<Rightarrow> string \<Rightarrow> bytes \<Rightarrow> bytes \<Rightarrow> encrypted_envelope" where
  "net_encrypt cr nonce network_id sender plaintext key =
     (let ct = cr_seal cr key (nonce12 nonce) plaintext (envelope_ad network_id sender)
      in \<lparr> ee_network_id = network_id, ee_sender = sender, ee_ciphertext_hex = hex_encode ([1] @ nonce12 nonce @ ct) \<rparr>)"

definition net_decrypt :: "space_crypto \<Rightarrow> encrypted_envelope \<Rightarrow> string \<Rightarrow> bytes \<Rightarrow> (bytes, string) result" where
  "net_decrypt cr env network_id key =
     (if ee_network_id env \<noteq> network_id then Err ''network id mismatch''
      else case hex_decode (ee_ciphertext_hex env) of
             Err e \<Rightarrow> Err e
           | Ok raw \<Rightarrow>
               (if length raw < 1 + 12 + 16 then Err ''ciphertext too short''
                else if raw ! 0 \<noteq> 1 then Err ''unsupported envelope version''
                else case cr_open cr key (take 12 (drop 1 raw)) (drop 13 raw) (envelope_ad network_id (ee_sender env)) of
                       None \<Rightarrow> Err ''authentication failed''
                     | Some p \<Rightarrow> Ok p))"

text \<open>The text form of a batch of messages is that of serde: \<open>to_json\<close> and \<open>from_json\<close> are arguments.\<close>

definition sync_channel_envelope :: "space_crypto \<Rightarrow> (channel_message list \<Rightarrow> bytes) \<Rightarrow> bytes \<Rightarrow> string \<Rightarrow> string \<Rightarrow> bytes
    \<Rightarrow> 64 word option \<Rightarrow> closed_networks \<Rightarrow> space_stores \<Rightarrow> (encrypted_envelope option, string) result \<times> space_stores" where
  "sync_channel_envelope cr to_json nonce network_id sender_node space_key since nets ss =
     (case hget nets network_id of
        None \<Rightarrow> (Err ''Network not found'', ss)
      | Some network \<Rightarrow>
          (if \<not> net_is_member network_id sender_node nets
           then (Err (''Sender is not a member of network '' @ network_id), ss)
           else case (case since of Some s \<Rightarrow> list_since cr (cn_space_id network) s ss
                      | None \<Rightarrow> list_all_messages cr (cn_space_id network) ss) of
                  (messages, ss1) \<Rightarrow>
                    (if messages = [] then (Ok None, ss1)
                     else (Ok (Some (net_encrypt cr nonce network_id sender_node (to_json messages)
                            (derive_network_key cr space_key network_id))), ss1))))"

definition receive_channel_batch :: "space_crypto \<Rightarrow> (bytes \<Rightarrow> (channel_message list, string) result) \<Rightarrow> (int \<Rightarrow> bytes) \<Rightarrow> string
    \<Rightarrow> string \<Rightarrow> encrypted_envelope \<Rightarrow> bytes \<Rightarrow> closed_networks \<Rightarrow> space_stores \<Rightarrow> (nat, string) result \<times> space_stores" where
  "receive_channel_batch cr from_json nonces network_id receiver_node env space_key nets ss =
     (if \<not> net_is_member network_id receiver_node nets then (Err ''receiver not a member'', ss)
      else if \<not> net_is_member network_id (ee_sender env) nets then (Err ''sender not a member'', ss)
      else case hget nets network_id of
             None \<Rightarrow> (Err ''network not found'', ss)
           | Some network \<Rightarrow>
               (case net_decrypt cr env network_id (derive_network_key cr space_key network_id) of
                  Err e \<Rightarrow> (Err e, ss)
                | Ok plaintext \<Rightarrow> (case from_json plaintext of
                    Err e \<Rightarrow> (Err e, ss)
                  | Ok messages \<Rightarrow>
                      (if list_ex (\<lambda>m. ch_space_id m \<noteq> cn_space_id network) messages
                       then (Err ''foreign space message rejected'', ss)
                       else (Ok (length messages), channel_merge cr nonces (cn_space_id network) messages ss)))))"

section \<open>An open space with its key\<close>

definition space_ready :: "space_stores \<Rightarrow> string \<Rightarrow> bytes \<Rightarrow> bool" where
  "space_ready ss sid k = (validate_space_id sid = Ok () \<and> sid \<in> set (ss_open ss) \<and> hmem (ss_dbs ss) sid \<and> length k = 32
     \<and> (case ss_ring ss of None \<Rightarrow> False
        | Some ring \<Rightarrow> hget (kr_state ring) sid = Some \<lparr> sk_encrypt_records = True, sk_dek = Some k \<rparr>))"

lemma ready_ring:
  assumes "space_ready ss sid k"
  obtains ring where "ss_ring ss = Some ring" "fst (ring_record_key sid ring) = Ok (RkKey k)" "check_unlocked sid ring = (Ok (), ring)"
proof -
  obtain ring where r: "ss_ring ss = Some ring" "hget (kr_state ring) sid = Some \<lparr> sk_encrypt_records = True, sk_dek = Some k \<rparr>"
    using assms by (auto simp: space_ready_def split: option.splits)
  then have "ensure_loaded sid ring = (Ok True, ring)" by (simp add: ensure_loaded_def hmem_def)
  then have "fst (ring_record_key sid ring) = Ok (RkKey k)" "check_unlocked sid ring = (Ok (), ring)"
    using r(2) by (simp_all add: ring_record_key_def check_unlocked_def is_locked_def)
  then show thesis using that r(1) by blast
qed

lemma ready_get [simp]: "space_ready ss sid k \<Longrightarrow> get_inner sid create ss = (Ok (), ss)"
proof -
  assume r: "space_ready ss sid k"
  then obtain ring where "ss_ring ss = Some ring" "check_unlocked sid ring = (Ok (), ring)" using ready_ring by metis
  then have "ring_check sid ss = (Ok (), ss)" by (simp add: ring_check_def)
  then show ?thesis using r by (simp add: get_inner_def space_ready_def)
qed

lemma ready_set_db [simp]: "space_ready ss sid k \<Longrightarrow> space_ready (set_db sid' db ss) sid k"
  by (auto simp: space_ready_def set_db_def)

lemma db_of_set_db [simp]: "db_of (set_db sid db ss) sid' = (if sid' = sid then db else db_of ss sid')"
  by (simp add: db_of_def set_db_def)

lemma codec_of_set_db [simp]: "codec_of cr (set_db sid db ss) = codec_of cr ss"
  by (auto simp: codec_of_def set_db_def fun_eq_iff split: option.split)

lemma ready_codec: "space_ready ss sid k \<Longrightarrow>
    \<exists>ring. codec_of cr ss sid = keyed_codec cr ring sid ''message'' \<and> fst (ring_record_key sid ring) = Ok (RkKey k)"
  by (erule ready_ring) (auto simp: codec_of_def)

lemma ready_channel_read: "space_ready ss sid k \<Longrightarrow> messages_since (codec_of cr ss sid) since (db_of ss sid) = Ok ms \<Longrightarrow>
    fst (channel_read cr sid since ss) = ms"
  by (simp add: channel_read_def with_existing_def stores_get_existing_def)

lemma ready_merge: "space_ready ss sid k \<Longrightarrow> remote \<noteq> [] \<Longrightarrow>
    channel_merge cr nonces sid remote ss = set_db sid (snd (merge_messages (codec_of cr ss sid) nonces sid remote (db_of ss sid))) ss"
  by (auto simp: channel_merge_def with_store_def stores_get_def split: prod.splits)

lemma keyed_merge_ok:
  assumes "fst (ring_record_key sid ring) = Ok (RkKey k)" "length k = 32"
  shows "\<exists>rows. merge_loop (keyed_codec cr ring sid kind) nonces sp remote high rows0 = Ok rows"
proof (induction remote arbitrary: high rows0)
  case (Cons m remote)
  have "\<exists>s. cd_seal (keyed_codec cr ring sid kind) n p i = Ok s" for n p i
    using assms by (simp add: keyed_codec_def seal_record_def seal_record_bytes_def aead_seal_def)
  then show ?case using Cons by (auto simp: Let_def split: sum.splits) (metis sum.simps(4))
qed simp

section \<open>Channels between nodes\<close>

lemma envelope_opens:
  assumes "aead_law cr" "\<forall>k n p ad. 16 \<le> length (cr_seal cr k n p ad)"
  shows "net_decrypt cr (net_encrypt cr nonce nid sender p key) nid key = Ok p"
proof -
  have "hex_decode (hex_encode bs) = Ok bs" for bs by (simp add: hex_decode_def hex_decode_loop_encode)
  then show ?thesis
    using assms(1) spec [OF spec [OF spec [OF spec [OF assms(2)]]], of key "nonce12 nonce" p "envelope_ad nid sender"]
    by (simp add: net_encrypt_def net_decrypt_def aead_law_def Let_def not_less)
qed

lemma messages_since_facts:
  assumes "messages_ok db" "messages_since codec since db = Ok ms"
  shows "sorted_wrt (<) (map (clamp_i64 \<circ> ch_seq) ms) \<and> (\<forall>m\<in>set ms. of_int (clamp_i64 (ch_seq m)) = ch_seq m
    \<and> (\<exists>r\<in>set (db_messages db). ms_space_id r = ch_space_id m \<and> clamp_i64 (ch_seq m) = ms_seq r))"
proof -
  let ?rows = "filter (\<lambda>r. (case since of Some s \<Rightarrow> clamp_i64 s | None \<Rightarrow> - 1) < ms_seq r) (db_messages db)"
  have "collect_results (map (message_from codec) rows) = Ok out \<Longrightarrow> set rows \<subseteq> set (db_messages db) \<Longrightarrow>
      map (clamp_i64 \<circ> ch_seq) out = map ms_seq rows \<and> (\<forall>m\<in>set out. of_int (clamp_i64 (ch_seq m)) = ch_seq m
        \<and> (\<exists>r\<in>set (db_messages db). ms_space_id r = ch_space_id m \<and> clamp_i64 (ch_seq m) = ms_seq r))" for rows out
  proof (induction rows arbitrary: out)
    case (Cons r rows)
    obtain m out' where m: "message_from codec r = Ok m" "collect_results (map (message_from codec) rows) = Ok out'" "out = m # out'"
      using Cons.prems(1) by (auto simp: collect_results_Cons_Ok)
    have "0 \<le> ms_seq r \<and> ms_seq r \<le> i64_max" using Cons.prems(2) assms(1) by (auto simp: messages_ok_def list_all_iff)
    then have "clamp_i64 (ch_seq m) = ms_seq r \<and> ch_space_id m = ms_space_id r \<and> ch_seq m = of_int (ms_seq r)"
      using m(1) clamp_of_int by (auto simp: message_from_def split: sum.splits)
    then show ?case using Cons.IH [OF m(2)] Cons.prems(2) m(3) by auto
  qed simp
  from this [of ?rows ms] have "map (clamp_i64 \<circ> ch_seq) ms = map ms_seq ?rows \<and> (\<forall>m\<in>set ms. of_int (clamp_i64 (ch_seq m)) = ch_seq m
        \<and> (\<exists>r\<in>set (db_messages db). ms_space_id r = ch_space_id m \<and> clamp_i64 (ch_seq m) = ms_seq r))"
    using assms by (simp add: messages_since_eq)
  moreover have "sorted_wrt (<) (map ms_seq ?rows)"
    using assms(1) by (auto simp: messages_ok_def sorted_wrt_map intro: sorted_wrt_filter)
  ultimately show ?thesis by metis
qed

text \<open>C21: A batch that a member of a closed network sends out arrives: the receiver, another member with the key of the
  space, then reads its old log followed by exactly the sent messages with a higher number, with number, author, text and
  time as at the sender; a batch for another network or from a stranger leaves its store alone.\<close>

theorem channel_batch_arrives:
  assumes law: "aead_law cr" "\<forall>k n p ad. 16 \<le> length (cr_seal cr k n p ad)" "from_json (to_json batch) = Ok batch"
    and net: "hget nets nid = Some network" "receiver \<in> set (cn_members network)"
    and sender: "space_ready origin (cn_space_id network) k1" "messages_ok (db_of origin (cn_space_id network))"
      "messages_since (codec_of cr origin (cn_space_id network)) since (db_of origin (cn_space_id network)) = Ok batch"
      "\<forall>r\<in>set (db_messages (db_of origin (cn_space_id network))). ms_space_id r = cn_space_id network"
    and sent: "fst (sync_channel_envelope cr to_json nonce nid node key since nets origin) = Ok (Some env)"
    and replica: "space_ready replica (cn_space_id network) k2" "messages_ok (db_of replica (cn_space_id network))"
      "messages_since (codec_of cr replica (cn_space_id network)) None (db_of replica (cn_space_id network)) = Ok log"
    and utf8: "\<forall>m\<in>set batch. utf8_valid (bytes_of (ch_content m))"
  shows "\<exists>replica'. receive_channel_batch cr from_json nonces nid receiver env key nets replica = (Ok (length batch), replica')
    \<and> fst (list_all_messages cr (cn_space_id network) replica')
        = log @ filter (\<lambda>m. high_seq (db_of replica (cn_space_id network)) < clamp_i64 (ch_seq m)) batch"
proof -
  let ?sid = "cn_space_id network" and ?db = "db_of replica (cn_space_id network)"
  have read: "fst (channel_read cr ?sid since origin) = batch" by (rule ready_channel_read [OF sender(1,3)])
  have batch: "fst (case since of Some s \<Rightarrow> list_since cr ?sid s origin | None \<Rightarrow> list_all_messages cr ?sid origin) = batch"
    using read by (cases since) (simp_all add: list_since_def list_all_messages_def)
  then have env: "env = net_encrypt cr nonce nid node (to_json batch) (derive_network_key cr key nid)"
    and node: "net_is_member nid node nets" and ne: "batch \<noteq> []"
    using sent net(1) by (auto simp: sync_channel_envelope_def Let_def split: if_splits prod.splits)
  note facts = messages_since_facts [OF sender(2,3)]
  have own: "\<forall>m\<in>set batch. ch_space_id m = ?sid" using facts sender(4) by metis
  have dec: "net_decrypt cr env nid (derive_network_key cr key nid) = Ok (to_json batch)"
    unfolding env by (rule envelope_opens [OF law(1,2)])
  have rcv: "receive_channel_batch cr from_json nonces nid receiver env key nets replica
      = (Ok (length batch), channel_merge cr nonces ?sid batch replica)"
    using net node dec law(3) own env by (auto simp: receive_channel_batch_def net_is_member_def net_encrypt_def Let_def list_ex_iff)
  obtain ring where ring: "codec_of cr replica ?sid = keyed_codec cr ring ?sid ''message''" "fst (ring_record_key ?sid ring) = Ok (RkKey k2)"
    using ready_codec [OF replica(1)] by blast
  have "length k2 = 32" using replica(1) by (simp add: space_ready_def)
  then obtain rows where "merge_loop (codec_of cr replica ?sid) nonces ?sid batch (high_seq ?db) (db_messages ?db) = Ok rows"
    using keyed_merge_ok [OF ring(2)] ring(1) by metis
  then obtain db' where mg: "merge_messages (codec_of cr replica ?sid) nonces ?sid batch ?db = (Ok (), db')"
    by (simp add: merge_messages_def)
  have ok: "keyed_plain_ok cr ring ?sid (ch_content m)" if "m \<in> set batch" for m
    using that utf8 law(1) ring(2) by (simp add: keyed_plain_ok_def)
  have "messages_since (codec_of cr replica ?sid) None db' = Ok (log @
      map (\<lambda>m. m\<lparr> ch_seq := of_int (clamp_i64 (ch_seq m)), ch_space_id := ?sid \<rparr>) (fresh (high_seq ?db) batch))"
    using keyed.merge_reads [OF replica(2) mg [unfolded ring(1)] replica(3) [unfolded ring(1)]] ok ring(1) by auto
  moreover have "fresh (high_seq ?db) batch = filter (\<lambda>m. high_seq ?db < clamp_i64 (ch_seq m)) batch"
    using facts by (intro fresh_all) blast
  moreover have "map (\<lambda>m. m\<lparr> ch_seq := of_int (clamp_i64 (ch_seq m)), ch_space_id := ?sid \<rparr>) ms = ms" if "set ms \<subseteq> set batch" for ms
    using that facts own by (intro map_idI) auto
  ultimately have read': "messages_since (codec_of cr replica ?sid) None db'
      = Ok (log @ filter (\<lambda>m. high_seq ?db < clamp_i64 (ch_seq m)) batch)" by simp
  have "fst (list_all_messages cr ?sid (channel_merge cr nonces ?sid batch replica))
      = log @ filter (\<lambda>m. high_seq ?db < clamp_i64 (ch_seq m)) batch"
    unfolding list_all_messages_def ready_merge [OF replica(1) ne] mg snd_conv
    by (rule ready_channel_read [where k = k2]) (use replica(1) read' in simp_all)
  then show ?thesis using rcv by blast
qed

text \<open>A cipher with a tag of 16 bytes, and two nodes of one network: the first has posted a message.\<close>

definition tag_crypto :: space_crypto where
  "tag_crypto = \<lparr> cr_seal = \<lambda>k n p a. p @ replicate 16 0, cr_open = \<lambda>k n c a. Some (take (length c - 16) c),
     cr_hkdf = \<lambda>a b. replicate 32 1, cr_argon = \<lambda>a b. replicate 32 2, cr_sha256 = \<lambda>x. replicate 32 7 \<rparr>"

definition ready_ring_sample :: key_ring where
  "ready_ring_sample = \<lparr> kr_files = [], kr_state = [(''s'', \<lparr> sk_encrypt_records = True, sk_dek = Some (replicate 32 1) \<rparr>)],
     kr_required = [] \<rparr>"

definition ready_stores :: "space_db \<Rightarrow> space_stores" where
  "ready_stores db = \<lparr> ss_persistent = True, ss_codec = plaintext_codec, ss_custom_codec = False, ss_ring = Some ready_ring_sample,
     ss_dbs = [(''s'', db)], ss_open = [''s''], ss_descriptors = [] \<rparr>"

definition posted_db :: space_db where
  "posted_db = snd (append_message (keyed_codec tag_crypto ready_ring_sample ''s'' ''message'') [] 0 ''s'' ''ann'' ''hi'' empty_db)"

definition sample_net :: closed_networks where
  "sample_net = [(''net'', \<lparr> cn_space_id = ''s'', cn_network_id = ''net'', cn_members = [''ann'', ''bob''], cn_created_at = 0 \<rparr>)]"

definition posted_message :: channel_message where
  "posted_message = \<lparr> ch_seq = 0, ch_space_id = ''s'', ch_author = ''ann'', ch_content = ''hi'', ch_created_at = 0 \<rparr>"

theorem channel_batch_arrives_witness:
  "\<exists>env replica'. fst (sync_channel_envelope tag_crypto (\<lambda>_. []) [] ''net'' ''ann'' [] None sample_net (ready_stores posted_db)) = Ok (Some env)
    \<and> receive_channel_batch tag_crypto (\<lambda>_. Ok [posted_message]) (\<lambda>_. []) ''net'' ''bob'' env [] sample_net (ready_stores empty_db)
        = (Ok 1, replica')
    \<and> fst (list_all_messages tag_crypto ''s'' replica') = [posted_message]"
proof -
  let ?codec = "keyed_codec tag_crypto ready_ring_sample ''s'' ''message''"
  let ?net = "\<lparr> cn_space_id = ''s'', cn_network_id = ''net'', cn_members = [''ann'', ''bob''], cn_created_at = 0 \<rparr>"
  have law: "aead_law tag_crypto" by (simp add: aead_law_def tag_crypto_def)
  have rk: "fst (ring_record_key ''s'' ready_ring_sample) = Ok (RkKey (replicate 32 1))"
    by (simp add: ring_record_key_def ensure_loaded_def hmem_def ready_ring_sample_def)
  have codec: "codec_of cr (ready_stores db) ''s'' = keyed_codec cr ready_ring_sample ''s'' ''message''" for cr db
    by (simp add: codec_of_def ready_stores_def)
  have ready: "space_ready (ready_stores db) ''s'' (replicate 32 1)" for db
    by (simp add: space_ready_def ready_stores_def ready_ring_sample_def hmem_def validate_space_id_def id_char_def is_alnum_def)
  have dbof: "db_of (ready_stores db) ''s'' = db" for db by (simp add: db_of_def ready_stores_def)
  have app: "append_message ?codec [] 0 ''s'' ''ann'' ''hi'' empty_db = (Ok posted_message, posted_db)"
    by (simp add: posted_db_def append_message_def next_seq_def max_seq_def empty_db_def posted_message_def
        keyed_codec_def rk seal_record_def seal_record_bytes_def aead_seal_def)
  have utf8: "utf8_valid (bytes_of ''hi'')" by (simp add: bytes_of_def)
  have empty: "messages_since ?codec None empty_db = Ok []" by (simp add: messages_since_def empty_db_def)
  have ok: "messages_ok posted_db" using append_message_ok [OF messages_ok_empty app] by blast
  have "messages_since ?codec None posted_db = Ok ([] @ [posted_message])"
    by (rule keyed.append_reads [OF messages_ok_empty app empty]) (simp add: keyed_plain_ok_def rk law utf8)
  then have reads: "messages_since ?codec None posted_db = Ok [posted_message]" by simp
  have own: "\<forall>r\<in>set (db_messages posted_db). ms_space_id r = ''s''"
    using app by (cases rule: append_message_cases) (auto simp: empty_db_def dest!: arg_cong [where f = db_messages])
  have "fst (list_all_messages tag_crypto ''s'' (ready_stores posted_db)) = [posted_message]"
    unfolding list_all_messages_def by (rule ready_channel_read [OF ready]) (simp add: codec dbof reads)
  then have sent: "fst (sync_channel_envelope tag_crypto (\<lambda>_. []) [] ''net'' ''ann'' [] None sample_net (ready_stores posted_db))
      = Ok (Some (net_encrypt tag_crypto [] ''net'' ''ann'' [] (derive_network_key tag_crypto [] ''net'')))"
    by (auto simp: sync_channel_envelope_def sample_net_def net_is_member_def Let_def split: prod.splits)
  have "\<exists>replica'. receive_channel_batch tag_crypto (\<lambda>_. Ok [posted_message]) (\<lambda>_. []) ''net'' ''bob''
        (net_encrypt tag_crypto [] ''net'' ''ann'' [] (derive_network_key tag_crypto [] ''net'')) [] sample_net (ready_stores empty_db)
        = (Ok (length [posted_message]), replica')
    \<and> fst (list_all_messages tag_crypto (cn_space_id ?net) replica')
        = [] @ filter (\<lambda>m. high_seq (db_of (ready_stores empty_db) (cn_space_id ?net)) < clamp_i64 (ch_seq m)) [posted_message]"
    by (rule channel_batch_arrives [OF law _ _ _ _ _ _ _ _ sent])
      (use ready ok reads own empty utf8 in \<open>simp_all add: tag_crypto_def sample_net_def codec dbof posted_message_def\<close>)
  moreover have "filter (\<lambda>m. high_seq (db_of (ready_stores empty_db) (cn_space_id ?net)) < clamp_i64 (ch_seq m)) [posted_message]
      = [posted_message]"
    by (simp add: dbof high_seq_empty empty_db_def clamp_i64_def posted_message_def i64_max_def)
  ultimately show ?thesis using sent by auto
qed

text \<open>In a space without encryption, one message whose text has the form of a sealed record blocks the channel: from
  then on every read of it comes back empty, and once the process is restarted the whole space is refused as one whose
  keystore is missing.\<close>

theorem sealed_looking_post_blocks_space:
  assumes "ss_persistent ss" "ss_ring ss = None" "\<not> ss_custom_codec ss" "ss_codec ss = plaintext_codec" "messages_ok (db_of ss sid)"
    and "looks_encrypted content" "try_post cr nonce now sid author content ss = (Ok m, ss')"
    and "case hget (ss_descriptors ss) sid of Some (Err _) \<Rightarrow> False | _ \<Rightarrow> True"
  shows "fst (list_all_messages cr sid ss') = []
    \<and> fst (stores_get sid (stores_open (ss_dbs ss') (ss_descriptors ss'))) = Err (SpKeys (KeKeystoreMissing sid))"
proof -
  obtain ss1 where g: "stores_get sid ss = (Ok (), ss1)" and p: "append_message (codec_of cr ss1 sid) nonce now sid author content (db_of ss1 sid) = (Ok m, db_of ss' sid)"
    and s': "ss' = set_db sid (db_of ss' sid) ss1"
    using assms(7) by (auto simp: try_post_def with_store_def split: prod.splits sum.splits if_splits)
  have v: "validate_space_id sid = Ok ()"
    using g by (auto simp: stores_get_def get_inner_def split: sum.splits)
  have ss1: "ss_persistent ss1" "ss_ring ss1 = None" "\<not> ss_custom_codec ss1" "ss_codec ss1 = plaintext_codec" "sid \<in> set (ss_open ss1)"
    "ss_descriptors ss1 = ss_descriptors ss" "db_of ss1 sid = db_of ss sid"
    using g assms(1-4) by (auto simp: stores_get_def get_inner_def ring_check_def admit_evidence_def open_new_def db_of_def hmem_def
        split: sum.splits if_splits prod.splits bool.splits option.splits)
  have codec: "codec_of cr ss1 sid = plaintext_codec" using ss1 by (simp add: codec_of_def)
  obtain seq where row: "db_messages (db_of ss' sid) = db_messages (db_of ss sid) @
      [\<lparr> ms_seq = seq, ms_space_id = sid, ms_author = author, ms_content = content, ms_created_at = now \<rparr>]" (is "_ = _ @ [?r]")
    using p unfolding codec ss1(7) by (cases rule: append_message_cases) (auto simp: plaintext_codec_def)
  have ok: "messages_ok (db_of ss' sid)" using append_message_ok [OF assms(5), of plaintext_codec] p by (simp add: codec ss1(7))
  have "0 \<le> seq" using ok by (simp add: messages_ok_def row)
  then have "\<exists>e. messages_since plaintext_codec None (db_of ss' sid) = Err e"
    by (intro sealed_looking_post_blocks_reads [OF ok, of ?r]) (use assms(6) row in simp_all)
  moreover have "get_inner sid False ss' = (Ok (), ss')"
    using ss1 v by (subst s') (simp add: get_inner_def ring_check_def set_db_def s' [symmetric], metis s' set_db_def)
  moreover have "codec_of cr ss' sid = plaintext_codec" by (subst s') (simp add: codec)
  ultimately have "fst (list_all_messages cr sid ss') = []"
    by (auto simp: list_all_messages_def channel_read_def with_existing_def stores_get_existing_def)
  moreover have "hget (ss_dbs ss') sid = Some (db_of ss' sid)" by (subst s') (simp add: set_db_def)
  moreover have "ss_descriptors ss' = ss_descriptors ss" by (subst s') (simp add: set_db_def ss1(6))
  ultimately show ?thesis
    using v assms(6,8) row
    by (auto simp: stores_get_def get_inner_def ring_check_def stores_open_def admit_evidence_def encryption_evidence_def
        split: option.splits sum.splits)
qed

definition sealed_look :: string where
  "sealed_look = ''xr1:'' @ replicate 56 CHR ''a''"

definition plain_stores :: space_stores where
  "plain_stores = (stores_open [] [])\<lparr> ss_descriptors := [] \<rparr>"

theorem sealed_looking_post_blocks_space_witness:
  "is_ok (fst (try_post tag_crypto [] 0 ''s'' ''eve'' sealed_look plain_stores))
   \<and> fst (list_all_messages tag_crypto ''s'' (snd (try_post tag_crypto [] 0 ''s'' ''eve'' sealed_look plain_stores))) = []"
proof -
  have v: "validate_space_id ''s'' = Ok ()" by (simp add: validate_space_id_def id_char_def is_alnum_def)
  have look: "looks_encrypted sealed_look"
    unfolding looks_encrypted_def sealed_look_def strip_prefix_append by (simp add: is_hexdigit_def list_all_iff)
  have short: "char_count sealed_look \<le> max_message_chars"
    using length_filter_le [of "\<lambda>b. \<not> cont b" "bytes_of sealed_look"]
    by (simp add: char_count_def max_message_chars_def sealed_look_def bytes_of_def)
  have get: "stores_get ''s'' plain_stores = (Ok (), open_new ''s'' plain_stores)"
    by (simp add: stores_get_def get_inner_def v ring_check_def admit_evidence_def encryption_evidence_def plain_stores_def stores_open_def)
  have posted: "is_ok (fst (try_post tag_crypto [] 0 ''s'' ''eve'' sealed_look plain_stores))"
    unfolding try_post_def with_store_def get using short by (simp add: append_message_def next_seq_def max_seq_def db_of_def open_new_def
        plain_stores_def stores_open_def empty_db_def codec_of_def plaintext_codec_def hmem_def)
  then obtain m where post: "try_post tag_crypto [] 0 ''s'' ''eve'' sealed_look plain_stores
      = (Ok m, snd (try_post tag_crypto [] 0 ''s'' ''eve'' sealed_look plain_stores))"
    by (metis is_ok_iff prod.collapse)
  have "messages_ok (db_of plain_stores ''s'')" by (simp add: db_of_def plain_stores_def stores_open_def)
  from conjunct1 [OF sealed_looking_post_blocks_space [OF _ _ _ _ this look post]] posted show ?thesis
    by (simp add: plain_stores_def stores_open_def)
qed

section \<open>Accepting an invitation\<close>

lemma ensure_loaded_idem: "ensure_loaded sid kr = (Ok b, kr1) \<Longrightarrow> ensure_loaded sid kr1 = (Ok b, kr1)"
  by (auto simp: ensure_loaded_def hmem_def split: if_splits sum.splits option.splits)

lemma ensure_loaded_err: "ensure_loaded sid kr = (Err e, kr1) \<Longrightarrow> kr1 = kr"
  by (auto simp: ensure_loaded_def split: if_splits sum.splits option.splits)

lemma is_locked_open: "is_locked sid kr = (False, kr1) \<Longrightarrow> is_locked sid kr1 = (False, kr1) \<and> (\<exists>b. ensure_loaded sid kr1 = (Ok b, kr1))"
  by (auto simp: is_locked_def ensure_loaded_idem split: prod.splits sum.splits bool.splits)

lemma check_unlocked_via_lock:
  assumes "check_unlocked sid kr = (Ok (), kr1)"
  obtains "is_locked sid (snd (ensure_loaded sid kr)) = (False, kr1)"
  using assms by (simp add: check_unlocked_def split: prod.splits sum.splits bool.splits space_err.splits keys_error.splits)

lemma check_unlocked_idem:
  assumes "check_unlocked sid kr = (Ok (), kr1)"
  shows "check_unlocked sid kr1 = (Ok (), kr1)"
proof -
  have "is_locked sid (snd (ensure_loaded sid kr)) = (False, kr1)" using check_unlocked_via_lock [OF assms] .
  then obtain b where "is_locked sid kr1 = (False, kr1)" "ensure_loaded sid kr1 = (Ok b, kr1)"
    using is_locked_open by blast
  then show ?thesis by (simp add: check_unlocked_def)
qed

lemma ring_check_idem: "ring_check sid ss = (Ok (), ss1) \<Longrightarrow> ring_check sid ss1 = (Ok (), ss1) \<and> ss_dbs ss1 = ss_dbs ss"
  using check_unlocked_idem by (auto simp: ring_check_def split: option.splits prod.splits)

lemma ring_check_cong: "ss_ring a = ss_ring b \<Longrightarrow> fst (ring_check sid a) = fst (ring_check sid b)"
  by (auto simp: ring_check_def split: option.splits prod.splits)

lemma ring_check_same: "ring_check sid ss = (Ok (), ss) \<Longrightarrow> ss_ring ss' = ss_ring ss \<Longrightarrow> ring_check sid ss' = (Ok (), ss')"
proof -
  assume a: "ring_check sid ss = (Ok (), ss)" "ss_ring ss' = ss_ring ss"
  show ?thesis
  proof (cases "ss_ring ss")
    case (Some ring)
    obtain r ring' where c: "check_unlocked sid ring = (r, ring')" by force
    then have "r = Ok ()" "ss\<lparr> ss_ring := Some ring' \<rparr> = ss" using a Some by (simp_all add: ring_check_def)
    then have "Some ring' = ss_ring ss" by (metis space_stores.select_convs(4) space_stores.surjective space_stores.update_convs(4))
    then have "ring' = ring" using Some by simp
    then show ?thesis using c a Some \<open>r = Ok ()\<close> by (simp add: ring_check_def)
  qed (use a in \<open>simp add: ring_check_def\<close>)
qed

lemma admit_evidence_cases:
  assumes "admit_evidence sid ss = (Ok (), ss1)"
  shows "ss1 = ss \<or> (\<exists>ss0. ss_dbs ss0 = ss_dbs ss \<and> ring_check sid ss0 = (Ok (), ss1))"
  using assms unfolding admit_evidence_def
  by (auto split: sum.splits bool.splits option.splits if_splits intro!: exI [of _ "ss\<lparr> ss_ring := Some kr \<rparr>" for kr])

text \<open>An opened store is open and readable without further ado.\<close>

lemma get_inner_opens:
  assumes "get_inner sid create ss = (Ok (), ss1)"
  shows "validate_space_id sid = Ok () \<and> sid \<in> set (ss_open ss1) \<and> ring_check sid ss1 = (Ok (), ss1) \<and> (\<forall>s. db_of ss1 s = db_of ss s)"
proof -
  obtain ss0 where v: "validate_space_id sid = Ok ()" and r: "ring_check sid ss = (Ok (), ss0)"
    using assms by (auto simp: get_inner_def split: sum.splits prod.splits)
  have i: "ring_check sid ss0 = (Ok (), ss0)" "ss_dbs ss0 = ss_dbs ss" using ring_check_idem [OF r] by auto
  show ?thesis
  proof (cases "sid \<in> set (ss_open ss0)")
    case True
    then show ?thesis using assms v r i by (auto simp: get_inner_def db_of_def)
  next
    case False
    then obtain ss2 where a: "admit_evidence sid ss0 = (Ok (), ss2)" "ss1 = open_new sid ss2"
      using assms v r by (auto simp: get_inner_def split: sum.splits prod.splits if_splits)
    have "ring_check sid ss2 = (Ok (), ss2) \<and> ss_dbs ss2 = ss_dbs ss0"
      using admit_evidence_cases [OF a(1)] i ring_check_idem by metis
    moreover have "ss_ring (open_new sid ss2) = ss_ring ss2" by (simp add: open_new_def)
    ultimately have "ring_check sid ss1 = (Ok (), ss1)" using ring_check_same a(2) by metis
    moreover have "db_of ss1 s = db_of ss s" for s
      using \<open>ring_check sid ss2 = (Ok (), ss2) \<and> ss_dbs ss2 = ss_dbs ss0\<close> i(2)
      by (auto simp: a(2) open_new_def db_of_def hmem_def)
    ultimately show ?thesis using v by (simp add: a(2) open_new_def)
  qed
qed

lemma open_store_get: "validate_space_id sid = Ok () \<Longrightarrow> sid \<in> set (ss_open ss) \<Longrightarrow> ring_check sid ss = (Ok (), ss) \<Longrightarrow>
    get_inner sid create ss = (Ok (), ss)"
  by (simp add: get_inner_def)

lemma invites_get_Ok:
  assumes "invites_get i im = (Ok invite, im1)"
  shows "im_index im1 = im_index im \<and> (\<exists>sid. hget (im_index im) i = Some sid \<and> get_invite i (db_of (im_stores im) sid) = Ok (Some invite))
    \<and> (\<forall>s. db_of (im_stores im1) s = db_of (im_stores im) s)"
proof -
  obtain sid ss where s: "hget (im_index im) i = Some sid" "stores_get sid (im_stores im) = (Ok (), ss)" "im1 = im\<lparr> im_stores := ss \<rparr>"
    "get_invite i (db_of ss sid) = Ok (Some invite)"
    using assms by (auto simp: invites_get_def invites_store_of_def split: option.splits sum.splits prod.splits)
  then show ?thesis using get_inner_opens [of sid True "im_stores im" ss] by (auto simp: stores_get_def)
qed

text \<open>An acceptance that succeeds leads to a redemption in the store of the space that the invitation names.\<close>

lemma accept_invite_Ok:
  assumes "accept_invite sha256 ed env now i m trusted require_signed im = (Ok acc, im')"
  obtains invite im1 ss1 issued db where "invites_get i im = (Ok invite, im1)" "invite_is_valid now invite"
    "\<forall>key. trusted = Some key \<longrightarrow> invite_verify ed key invite = Ok ()" "require_signed \<longrightarrow> trusted \<noteq> None" "si_target_node invite = m"
    "stores_get (si_space_id invite) (im_stores im1) = (Ok (), ss1)"
    "redeem_invite sha256 env i (si_space_id invite) m (si_role invite) (db_of ss1 (si_space_id invite)) = (Ok issued, db)"
    "acc = \<lparr> ai_space_id = si_space_id invite, ai_member_id = m, ai_role = si_role invite,
        ai_token_id = it_token_id issued, ai_token = it_raw issued \<rparr>"
    "im' = im1\<lparr> im_stores := set_db (si_space_id invite) db ss1 \<rparr>"
proof -
  obtain invite im1 ss issued where v: "invites_validate now i im = (Ok invite, im1)"
    and tr: "\<forall>key. trusted = Some key \<longrightarrow> invite_verify ed key invite = Ok ()" "require_signed \<longrightarrow> trusted \<noteq> None"
    and t: "si_target_node invite = m"
    and w: "with_store (si_space_id invite) (\<lambda>_. redeem_invite sha256 env i (si_space_id invite) m (si_role invite)) (im_stores im1) = (Ok issued, ss)"
    and acc: "acc = \<lparr> ai_space_id = si_space_id invite, ai_member_id = m, ai_role = si_role invite,
        ai_token_id = it_token_id issued, ai_token = it_raw issued \<rparr>" "im' = im1\<lparr> im_stores := ss \<rparr>"
    using assms unfolding accept_invite_def validate_trusted_def
    by (auto split: if_splits option.splits sum.splits prod.splits)
  obtain val: "invites_get i im = (Ok invite, im1)" "invite_is_valid now invite"
    using v by (auto simp: invites_validate_def invite_is_valid_def split: sum.splits prod.splits if_splits)
  obtain ss1 db where "stores_get (si_space_id invite) (im_stores im1) = (Ok (), ss1)"
    "redeem_invite sha256 env i (si_space_id invite) m (si_role invite) (db_of ss1 (si_space_id invite)) = (Ok issued, db)"
    "ss = set_db (si_space_id invite) db ss1"
    using w by (auto simp: with_store_def split: sum.splits prod.splits)
  with val tr t acc show ?thesis using that by blast
qed

text \<open>C23: An invitation admits the identity it names, once. Who accepts it gives that identity; the invitation is in the
  store, open, not expired, and signed by the trusted key when there is one (and there is one when a signature is
  required); the identity was no member and now has the role of the invitation, with a token that is accepted for that
  space, member and role until it expires; and in no later state of the store of that space does accepting the
  invitation admit anybody to it.\<close>

theorem accept_invite_spec:
  assumes "accept_invite sha256 ed env now i m trusted require_signed im = (Ok acc, im')"
    and "\<forall>s. space_ok (db_of (im_stores im) s)" "length (se_secret env) = 32"
  shows "(\<exists>sid invite. hget (im_index im) i = Some sid \<and> get_invite i (db_of (im_stores im) sid) = Ok (Some invite)
      \<and> invite_is_valid now invite \<and> si_target_node invite = m \<and> ai_role acc = si_role invite \<and> ai_space_id acc = si_space_id invite
      \<and> (\<forall>key. trusted = Some key \<longrightarrow> invite_verify ed key invite = Ok ()) \<and> (require_signed \<longrightarrow> trusted \<noteq> None))
    \<and> \<not> is_member_row m (db_of (im_stores im) (ai_space_id acc))
    \<and> (now' < default_token_expiry env \<longrightarrow> fst (verify_in_stores sha256 now' (ai_token acc) (im_stores im'))
        = Ok \<lparr> sa_space_id = ai_space_id acc, sa_member_id = m, sa_role = ai_role acc \<rparr>)
    \<and> (\<forall>im2 env2 now2 m2 trusted2 signed2 acc2.
        space_reaches sha256 (db_of (im_stores im') (ai_space_id acc)) (db_of (im_stores im2) (ai_space_id acc)) \<longrightarrow>
        fst (accept_invite sha256 ed env2 now2 i m2 trusted2 signed2 im2) = Ok acc2 \<longrightarrow> ai_space_id acc2 \<noteq> ai_space_id acc)"
  using assms(1)
proof (cases rule: accept_invite_Ok)
  case (1 invite im1 ss1 issued db)
  let ?sid = "si_space_id invite" and ?ss = "set_db (si_space_id invite) db ss1"
  note got = invites_get_Ok [OF 1(1)] and op = get_inner_opens [OF 1(6) [unfolded stores_get_def]]
  have same: "db_of ss1 ?sid = db_of (im_stores im) ?sid" using op got by simp
  then have "space_ok (db_of ss1 ?sid)" using assms(2) by simp
  note rs = redeemed_state [OF this 1(7), of now']
  have "ring_check ?sid ?ss = (Ok (), ?ss)" by (rule ring_check_same [of _ ss1]) (use op in \<open>simp_all add: set_db_def\<close>)
  then have ex: "stores_get_existing ?sid ?ss = (Ok True, ?ss)"
    using op by (simp add: stores_get_existing_def open_store_get set_db_def)
  have "parse_token (it_raw issued) = Ok ?sid"
    using rs issued_text_parses [OF assms(3), of ?sid] by metis
  then have token: "fst (verify_in_stores sha256 now' (it_raw issued) ?ss) = verify_token sha256 now' ?sid (it_raw issued) db"
    using ex by (simp add: verify_in_stores_def)
  have once: "ai_space_id acc2 \<noteq> ?sid"
    if "space_reaches sha256 db (db_of (im_stores im2) ?sid)" "accept_invite sha256 ed env2 now2 i m2 trusted2 signed2 im2 = (Ok acc2, im3)"
    for im2 env2 now2 m2 trusted2 signed2 acc2 im3
    using that(2)
  proof (cases rule: accept_invite_Ok)
    case (1 invite' im1' ss1' issued' db')
    have "db_of ss1' s = db_of (im_stores im2) s" for s
      using get_inner_opens [OF 1(6) [unfolded stores_get_def]] invites_get_Ok [OF 1(1)] by simp
    then have "is_ok (fst (redeem_invite sha256 env2 i (si_space_id invite') m2 (si_role invite') (db_of (im_stores im2) (si_space_id invite'))))"
      using 1(7) by simp
    moreover have "invite_closed i (db_of (im_stores im2) ?sid)" using rs keeps_reaches [OF that(1)] by (simp add: keeps_def)
    ultimately show ?thesis using closed_invite_fails 1(8) by fastforce
  qed
  have "ai_space_id acc2 \<noteq> ?sid"
    if "space_reaches sha256 db (db_of (im_stores im2) ?sid)" "fst (accept_invite sha256 ed env2 now2 i m2 trusted2 signed2 im2) = Ok acc2"
    for im2 env2 now2 m2 trusted2 signed2 acc2
    using once [OF that(1)] that(2) by (metis prod.collapse)
  then show ?thesis using rs got same token 1 by auto
qed

definition invite_host :: invite_manager where
  "invite_host = \<lparr> im_stores = plain_stores\<lparr> ss_dbs := [(''s'', snd (insert_invite sample_invite sample_space))], ss_open := [''s''] \<rparr>,
     im_index = [(''i'', ''s'')] \<rparr>"

theorem accept_invite_spec_witness:
  "\<exists>acc im'. accept_invite (\<lambda>b. b) (\<lambda>_ _ _. False) sample_env 0 ''i'' ''m'' None False invite_host = (Ok acc, im')
     \<and> ai_role acc = SrReader
     \<and> fst (verify_in_stores (\<lambda>b. b) 0 (ai_token acc) (im_stores im')) = Ok \<lparr> sa_space_id = ''s'', sa_member_id = ''m'', sa_role = SrReader \<rparr>"
proof -
  let ?db = "snd (insert_invite sample_invite sample_space)"
  let ?ss = "im_stores invite_host"
  have v: "validate_space_id ''s'' = Ok ()" by (simp add: validate_space_id_def id_char_def is_alnum_def)
  have get: "get_inner ''s'' create ?ss = (Ok (), ?ss)" for create
    by (simp add: get_inner_def v ring_check_def invite_host_def plain_stores_def stores_open_def)
  have dbof: "db_of ?ss s = (if s = ''s'' then ?db else empty_db)" for s by (simp add: db_of_def invite_host_def)
  have row: "get_invite ''i'' ?db = Ok (Some sample_invite)"
    by (simp add: insert_invite_def sample_space_def empty_db_def get_invite_def invite_row_of_def build_invite_def sample_invite_def role_from_def role_str_def)
  have idx: "hget (im_index invite_host) ''i'' = Some ''s''" by (simp add: invite_host_def)
  have "invites_get ''i'' invite_host = (Ok sample_invite, invite_host)"
    using row idx by (simp add: invites_get_def invites_store_of_def stores_get_def get dbof)
  then have val: "invites_validate 0 ''i'' invite_host = (Ok sample_invite, invite_host)"
    by (simp add: invites_validate_def sample_invite_def invite_is_expired_def)
  obtain issued db where red: "redeem_invite (\<lambda>b. b) sample_env ''i'' ''s'' ''m'' SrReader ?db = (Ok issued, db)"
    using sample_redeemed by (metis is_ok_iff prod.collapse)
  have "\<exists>acc im'. accept_invite (\<lambda>b. b) (\<lambda>_ _ _. False) sample_env 0 ''i'' ''m'' None False invite_host = (Ok acc, im')
      \<and> ai_role acc = SrReader \<and> ai_space_id acc = ''s''"
    using red by (simp add: accept_invite_def is_control_def char_of_def bit_Suc_0_iff val sample_invite_def with_store_def
        stores_get_def get dbof)
  then obtain acc im' where a: "accept_invite (\<lambda>b. b) (\<lambda>_ _ _. False) sample_env 0 ''i'' ''m'' None False invite_host = (Ok acc, im')"
    "ai_role acc = SrReader" "ai_space_id acc = ''s''" by blast
  have "space_ok (db_of ?ss s)" for s
    using keeps_invites(1) [of sample_space sample_invite] sample_space_ok
    by (auto simp: dbof keeps_def space_ok_def empty_db_def members_ok_def invites_ok_def tokens_ok_def)
  moreover have "0 < default_token_expiry sample_env"
    by (auto simp: default_token_expiry_def Let_def sample_env_def ns_per_day_def split: option.splits)
  ultimately show ?thesis using accept_invite_spec [OF a(1), of 0] a by (simp add: sample_env_def)
qed

text \<open>What is signed does not separate the names it joins, nor does it hold the time of expiry.\<close>

lemma signed_payload_ambiguous:
  "canonical_payload (sample_invite\<lparr> si_inviter_node := ''a:b'', si_target_node := ''c'' \<rparr>)
     = canonical_payload (sample_invite\<lparr> si_inviter_node := ''a'', si_target_node := ''b:c'' \<rparr>)"
  "canonical_payload (invite\<lparr> si_expires_at := t \<rparr>) = canonical_payload invite"
  by (simp_all add: canonical_payload_def sample_invite_def)

end
