(* ===== verification/SpaceManager.thy ===== *)
theory SpaceManager
  imports SpaceSharing
begin

text \<open>The registry of spaces: \<open>src/src/espacio/manager.rs\<close>, the legacy workspace of \<open>migrate.rs\<close>, and what \<open>link.rs\<close>,
  \<open>search.rs\<close> and \<open>tokens.rs\<close> ask it. The registry in memory is read from the descriptors when a directory is
  opened; an operation holds the lock of the registry and is one step.\<close>

section \<open>Data\<close>

record space_info =
  nf_id :: string
  nf_name :: string
  nf_description :: string
  nf_owner_node :: string
  nf_is_public :: bool
  nf_created_at :: int
  nf_namespace :: string
  nf_storage_path :: string

record legacy_space =
  ls_id :: string
  ls_name :: string
  ls_legacy :: bool
  ls_created_at :: int
  ls_store :: legacy_workspace

record key_options =
  ko_mode :: unlock_mode
  ko_password :: "string option"
  ko_encrypt_records :: bool
  ko_protocol :: "space_protocol option"

definition default_key_options :: key_options where
  "default_key_options = \<lparr> ko_mode = NodeUnlock, ko_password = None, ko_encrypt_records = True, ko_protocol = None \<rparr>"

record space_manager =
  sm_spaces :: "(string, space_info) hmap"
  sm_protocols :: "(string, space_protocol) hmap"
  sm_unavailable :: "(string, string) hmap"
  sm_base_dir :: string
  sm_stores :: space_stores
  sm_legacy :: "legacy_space option"
  sm_networks :: closed_networks

text \<open>What an operation meets: whether the program has the feature \<open>mesh\<close>, the cryptography and the key of the node, the
  clock at its readings, whether the directory can be made, the descriptor written and a directory moved, whether a
  directory is there although none of the files of the space is, and random bytes.\<close>

record manager_env =
  me_mesh :: bool
  me_crypto :: space_crypto
  me_node :: "string \<Rightarrow> (bytes, space_err) result"
  me_now :: "nat \<Rightarrow> int"
  me_dir_ok :: bool
  me_descriptor_ok :: bool
  me_dir_left :: bool
  me_move_ok :: bool
  me_ring :: ring_env

definition join_path :: "string \<Rightarrow> string \<Rightarrow> string" where
  "join_path dir name = (if dir = [] then name else dir @ ''/'' @ name)"

text \<open>The text of an error.\<close>

definition keys_error_text :: "keys_error \<Rightarrow> string" where
  "keys_error_text e = (case e of
     KeLocked s \<Rightarrow> ''space '' @ s @ '' is locked''
   | KeAuthFailed \<Rightarrow> ''unlock failed''
   | KeNoWrapper s \<Rightarrow> ''space '' @ s @ '' has no such unlock method''
   | KeNoKeystore s \<Rightarrow> ''space '' @ s @ '' has no keystore''
   | KeAlreadyExists s \<Rightarrow> ''keystore already exists for space '' @ s
   | KeKeystoreMissing s \<Rightarrow> ''space '' @ s @ '' is encrypted but its keystore is missing; refusing plaintext access''
   | KeCorrupt s \<Rightarrow> ''keystore corrupt: '' @ s
   | KeWeakPassword s \<Rightarrow> ''invalid password: '' @ s
   | KeBadRecoveryCode \<Rightarrow> ''invalid recovery code'')"

definition space_err_text :: "space_err \<Rightarrow> string" where
  "space_err_text e = (case e of
     SpAlreadyExists s \<Rightarrow> ''Space '' @ s @ '' already exists''
   | SpNotFound s \<Rightarrow> ''Space '' @ s @ '' not found''
   | SpInvalidId s \<Rightarrow> ''Invalid space id: '' @ s
   | SpInvalidProtocol s \<Rightarrow> ''Invalid space protocol: '' @ s
   | SpStorage s \<Rightarrow> ''Storage error: '' @ s
   | SpMembersCap s cap \<Rightarrow> ''space '' @ s @ '' reached members_cap '' @ nat_dec (unat cap)
   | SpKeys k \<Rightarrow> keys_error_text k
   | SpMsg s \<Rightarrow> s
   | SpDatabase \<Rightarrow> ''database error'')"

section \<open>Descriptors\<close>

definition descriptor_version :: nat where "descriptor_version = 1"
definition keystore_version :: nat where "keystore_version = 1"

definition descriptor_from_info :: "space_info \<Rightarrow> (bool \<times> nat) option \<Rightarrow> space_protocol option \<Rightarrow> space_descriptor" where
  "descriptor_from_info info encryption protocol = \<lparr> sd_id = nf_id info, sd_name = nf_name info,
     sd_description = nf_description info, sd_owner_node = nf_owner_node info, sd_is_public = nf_is_public info,
     sd_created_at = nf_created_at info, sd_namespace = nf_namespace info, sd_encryption = encryption, sd_legacy = False,
     sd_legacy_store = None, sd_protocol = protocol \<rparr>"

definition descriptor_into_info :: "space_descriptor \<Rightarrow> string \<Rightarrow> space_info" where
  "descriptor_into_info d path = \<lparr> nf_id = sd_id d, nf_name = sd_name d, nf_description = sd_description d,
     nf_owner_node = sd_owner_node d, nf_is_public = sd_is_public d, nf_created_at = sd_created_at d,
     nf_namespace = sd_namespace d, nf_storage_path = path \<rparr>"

section \<open>Opening a directory\<close>

record scan_state =
  sc_spaces :: "(string, space_info) hmap"
  sc_protocols :: "(string, space_protocol) hmap"
  sc_unavailable :: "(string, string) hmap"
  sc_encrypted :: "string list"
  sc_legacy :: "legacy_space option"

definition scan_load :: "bool \<Rightarrow> string \<Rightarrow> (space_descriptor, string) result \<Rightarrow> (space_descriptor, string) result" where
  "scan_load mesh name file_read = (case file_read of
     Err e \<Rightarrow> Err e
   | Ok d \<Rightarrow>
       (if sd_id d \<noteq> name then Err (''descriptor id '' @ [CHR 0x22] @ sd_id d @ [CHR 0x22] @ '' does not match directory'')
        else case sd_protocol d of
               None \<Rightarrow> Ok d
             | Some p \<Rightarrow> (case check_protocol mesh p of Err e \<Rightarrow> Err (''unsupported protocol: '' @ e) | Ok _ \<Rightarrow> Ok d)))"

definition scan_entry :: "bool \<Rightarrow> string \<Rightarrow> string \<times> (space_descriptor, string) result \<Rightarrow> scan_state \<Rightarrow> scan_state" where
  "scan_entry mesh base_dir e acc =
     (if starts_with (fst e) ''.'' \<or> \<not> is_ok (validate_space_id (fst e)) then acc
      else case scan_load mesh (fst e) (snd e) of
             Err reason \<Rightarrow> acc\<lparr> sc_unavailable := hput (fst e) reason (sc_unavailable acc) \<rparr>
           | Ok d \<Rightarrow>
               (if sd_legacy d
                then (case sd_legacy_store d of
                        Some store \<Rightarrow> acc\<lparr> sc_legacy := Some \<lparr> ls_id = sd_id d, ls_name = sd_name d, ls_legacy = True,
                                             ls_created_at = sd_created_at d, ls_store = store \<rparr> \<rparr>
                      | None \<Rightarrow> acc)
                else acc\<lparr> sc_spaces := hput (fst e) (descriptor_into_info d (join_path base_dir (fst e))) (sc_spaces acc),
                          sc_protocols := (case sd_protocol d of Some p \<Rightarrow> hput (fst e) p (sc_protocols acc) | None \<Rightarrow> sc_protocols acc),
                          sc_encrypted := (case sd_encryption d of
                             Some (True, _) \<Rightarrow> sc_encrypted acc @ [fst e] | _ \<Rightarrow> sc_encrypted acc) \<rparr>))"

definition scan :: "bool \<Rightarrow> string \<Rightarrow> space_stores \<Rightarrow> scan_state" where
  "scan mesh base_dir ss = fold (scan_entry mesh base_dir) (if ss_persistent ss then ss_descriptors ss else [])
     \<lparr> sc_spaces = [], sc_protocols = [], sc_unavailable = [], sc_encrypted = [], sc_legacy = None \<rparr>"

definition legacy_descriptor :: "int \<Rightarrow> legacy_workspace \<Rightarrow> space_descriptor" where
  "legacy_descriptor now legacy = \<lparr> sd_id = lw_id legacy, sd_name = ''default workspace (legacy)'',
     sd_description = ''Pre-espacio workspace, referenced in place; never moved or rewritten'',
     sd_owner_node = ''root'', sd_is_public = False, sd_created_at = now,
     sd_namespace = ''xavier://'' @ lw_id legacy @ ''/xavier/default'', sd_encryption = None, sd_legacy = True,
     sd_legacy_store = Some legacy, sd_protocol = None \<rparr>"

definition ensure_default_space :: "manager_env \<Rightarrow> legacy_workspace \<Rightarrow> space_stores \<Rightarrow> (bool, space_err) result \<times> space_stores" where
  "ensure_default_space env legacy ss =
     (if \<not> is_ok (validate_space_id (lw_id legacy))
      then (Err (SpMsg (''default workspace id '' @ [CHR 0x22] @ lw_id legacy @ [CHR 0x22] @ '' is not a valid space id'')), ss)
      else if hmem (ss_descriptors ss) (lw_id legacy) then (Ok False, ss)
      else if \<not> me_dir_ok env \<or> \<not> me_descriptor_ok env then (Err (SpMsg ''write''), ss)
      else (Ok True, ss\<lparr> ss_descriptors := hput (lw_id legacy) (Ok (legacy_descriptor (me_now env 0) legacy)) (ss_descriptors ss) \<rparr>))"

text \<open>Finding a space locked loads its keystore.\<close>

definition require_and_look :: "string \<Rightarrow> space_stores \<Rightarrow> space_stores" where
  "require_and_look sid ss = (case ss_ring ss of
     None \<Rightarrow> ss
   | Some ring \<Rightarrow> ss\<lparr> ss_ring := Some (snd (is_locked sid (require_encryption sid ring))) \<rparr>)"

definition open_with_stores_and_legacy :: "manager_env \<Rightarrow> string \<Rightarrow> legacy_workspace option \<Rightarrow> space_stores \<Rightarrow> space_manager" where
  "open_with_stores_and_legacy env base_dir legacy ss =
     (let ss1 = (case ss_ring ss of None \<Rightarrow> ss
                 | Some ring \<Rightarrow> ss\<lparr> ss_ring := Some (auto_unlock_all (me_crypto env) (me_node env) (hkeys (kr_files ring)) ring) \<rparr>);
          ss2 = (case legacy of None \<Rightarrow> ss1
                 | Some l \<Rightarrow> (if ss_persistent ss1 then snd (ensure_default_space env l ss1) else ss1));
          found = scan (me_mesh env) base_dir ss2;
          ss3 = (if ss_ring ss2 = None then ss2
                 else fold require_and_look (sc_encrypted found) (fold prime_encryption (hkeys (sc_spaces found)) ss2))
      in \<lparr> sm_spaces = sc_spaces found, sm_protocols = sc_protocols found, sm_unavailable = sc_unavailable found,
           sm_base_dir = base_dir, sm_stores = ss3, sm_legacy = sc_legacy found, sm_networks = [] \<rparr>)"

definition space_manager_new :: "string \<Rightarrow> space_manager" where
  "space_manager_new base_dir = \<lparr> sm_spaces = [], sm_protocols = [], sm_unavailable = [], sm_base_dir = base_dir,
     sm_stores = stores_in_memory, sm_legacy = None, sm_networks = [] \<rparr>"

section \<open>Looking up\<close>

definition spaces_unavailable :: "space_manager \<Rightarrow> (string \<times> string) list" where
  "spaces_unavailable mgr = sort (sm_unavailable mgr)"

definition spaces_protocol :: "space_manager \<Rightarrow> string \<Rightarrow> space_protocol" where
  "spaces_protocol mgr sid = (case hget (sm_protocols mgr) sid of Some p \<Rightarrow> p | None \<Rightarrow> default_protocol)"

definition spaces_get :: "space_manager \<Rightarrow> string \<Rightarrow> (space_info, space_err) result" where
  "spaces_get mgr sid = (case hget (sm_unavailable mgr) sid of
     Some reason \<Rightarrow> Err (SpStorage (''space '' @ sid @ '' is unavailable: '' @ reason))
   | None \<Rightarrow> (case hget (sm_spaces mgr) sid of Some info \<Rightarrow> Ok info | None \<Rightarrow> Err (SpNotFound sid)))"

definition spaces_list :: "space_manager \<Rightarrow> space_info list" where
  "spaces_list mgr = sort_key nf_created_at (hvalues (sm_spaces mgr))"

definition ensure_available :: "space_manager \<Rightarrow> string \<Rightarrow> (unit, space_err) result" where
  "ensure_available mgr sid = (case validate_space_id sid of
     Err e \<Rightarrow> Err e
   | Ok _ \<Rightarrow>
       (if hmem (sm_unavailable mgr) sid then Err (SpStorage (''space '' @ sid @ '' is unavailable (corrupt descriptor)''))
        else if \<not> hmem (sm_spaces mgr) sid then Err (SpNotFound sid)
        else Ok ()))"

definition are_isolated :: "space_manager \<Rightarrow> string \<Rightarrow> string \<Rightarrow> bool" where
  "are_isolated mgr a b = (case (hget (sm_spaces mgr) a, hget (sm_spaces mgr) b) of
     (Some sa, Some sb) \<Rightarrow> nf_storage_path sa \<noteq> nf_storage_path sb \<and> nf_id sa \<noteq> nf_id sb
   | _ \<Rightarrow> False)"

definition storage_path :: "space_manager \<Rightarrow> string \<Rightarrow> string" where
  "storage_path mgr sid = (if is_ok (validate_space_id sid) then join_path (sm_base_dir mgr) sid
     else join_path (sm_base_dir mgr) ''_invalid_space_id'')"

definition namespace_for :: "string \<Rightarrow> string \<Rightarrow> string \<Rightarrow> string" where
  "namespace_for sid app_id instance_id = ''xavier://'' @ sid @ ''/'' @ app_id @ ''/'' @ instance_id"

definition export_dek :: "space_manager \<Rightarrow> string \<Rightarrow> (bytes, space_err) result" where
  "export_dek mgr sid = (case ss_ring (sm_stores mgr) of
     None \<Rightarrow> Err (SpMsg ''No key ring enabled on this space manager'')
   | Some ring \<Rightarrow> (case fst (record_handle sid ring) of
       Err e \<Rightarrow> Err e
     | Ok None \<Rightarrow> Err (SpMsg (''Space '' @ sid @ '' is plain or unencrypted''))
     | Ok (Some k) \<Rightarrow> (if length k \<noteq> 32 then Err (SpMsg ''Key length is not 32 bytes'') else Ok k)))"

section \<open>Members\<close>

definition on_store :: "string \<Rightarrow> (space_db \<Rightarrow> ('a, space_err) result \<times> space_db) \<Rightarrow> space_manager
    \<Rightarrow> ('a, space_err) result \<times> space_manager" where
  "on_store sid f mgr = (case ensure_available mgr sid of
     Err e \<Rightarrow> (Err e, mgr)
   | Ok _ \<Rightarrow> (case with_store sid (\<lambda>_. f) (sm_stores mgr) of (r, ss) \<Rightarrow> (r, mgr\<lparr> sm_stores := ss \<rparr>)))"

definition capped_add :: "int \<Rightarrow> 32 word \<Rightarrow> string \<Rightarrow> string \<Rightarrow> space_role \<Rightarrow> space_db
    \<Rightarrow> (space_membership, space_err) result \<times> space_db" where
  "capped_add now cap sid node_id role db = (case member node_id db of
     Err e \<Rightarrow> (Err e, db)
   | Ok (Some _) \<Rightarrow> space_add_member now node_id role db
   | Ok None \<Rightarrow> (case members db of
       Err e \<Rightarrow> (Err e, db)
     | Ok ms \<Rightarrow> (if unat cap \<le> length ms then (Err (SpMembersCap sid cap), db) else space_add_member now node_id role db)))"

definition spaces_add_member :: "int \<Rightarrow> string \<Rightarrow> string \<Rightarrow> space_role \<Rightarrow> space_manager
    \<Rightarrow> (space_membership, space_err) result \<times> space_manager" where
  "spaces_add_member now sid node_id role mgr =
     on_store sid (capped_add now (sp_members_cap (spaces_protocol mgr sid)) sid node_id role) mgr"

definition spaces_remove_member :: "string \<Rightarrow> string \<Rightarrow> space_manager \<Rightarrow> (bool, space_err) result \<times> space_manager" where
  "spaces_remove_member sid node_id mgr =
     on_store sid (\<lambda>db. case space_remove_member node_id db of (b, db') \<Rightarrow> (Ok b, db')) mgr"

definition spaces_members :: "string \<Rightarrow> space_manager \<Rightarrow> (space_membership list, space_err) result \<times> space_manager" where
  "spaces_members sid mgr = on_store sid (\<lambda>db. (members db, db)) mgr"

definition sweep_retention :: "int \<Rightarrow> int \<Rightarrow> 64 word \<Rightarrow> space_manager \<Rightarrow> (string \<times> nat) list \<times> space_manager" where
  "sweep_retention min_time now fallback_days mgr =
     (case sweep_spaces_per_space min_time
             (map (\<lambda>s. (nf_id s, sp_retention_days (spaces_protocol mgr (nf_id s)))) (spaces_list mgr))
             now fallback_days (sm_stores mgr) of
        (rs, ss) \<Rightarrow> (rs, mgr\<lparr> sm_stores := ss \<rparr>))"

section \<open>Creating a space\<close>

definition check_options :: "manager_env \<Rightarrow> key_options \<Rightarrow> space_manager \<Rightarrow> (unit, space_err) result" where
  "check_options env opts mgr = (case ko_protocol opts of
     None \<Rightarrow> Ok ()
   | Some p \<Rightarrow> (case check_protocol (me_mesh env) p of
       Err e \<Rightarrow> Err (SpInvalidProtocol e)
     | Ok _ \<Rightarrow>
         (let encrypted = (ko_encrypt_records opts \<and> ss_ring (sm_stores mgr) \<noteq> None)
          in if sg_encrypt_records (sp_storage p) \<noteq> encrypted
             then Err (SpInvalidProtocol (''storage.encrypt_records must be '' @ (if encrypted then ''true'' else ''false'') @ '' for this space''))
             else if encrypted \<and> sg_backend (sp_storage p) \<noteq> MbVec
             then Err (SpInvalidProtocol ''an encrypting space requires storage.backend vec'')
             else Ok ())))"

text \<open>The keys of the new space, when there is a key ring.\<close>

definition make_keys :: "manager_env \<Rightarrow> key_options \<Rightarrow> string \<Rightarrow> space_stores \<Rightarrow> (string option, space_err) result \<times> space_stores" where
  "make_keys env opts sid ss = (case ss_ring ss of
     None \<Rightarrow> (Ok None, ss)
   | Some ring \<Rightarrow> (case quarantine_orphan_keystore (hmem (ss_descriptors ss) sid) sid ring of
       (Err e, ring1) \<Rightarrow> (Err e, ss\<lparr> ss_ring := Some ring1 \<rparr>)
     | (Ok _, ring1) \<Rightarrow>
         (case create_keys_with (me_crypto env) (me_node env) (me_ring env) sid (ko_mode opts) (ko_password opts) (ko_encrypt_records opts) ring1 of
            (Err e, ring2) \<Rightarrow> (Err e, ss\<lparr> ss_ring := Some ring2 \<rparr>)
          | (Ok (_, code), ring2) \<Rightarrow> (Ok (Some code), ss\<lparr> ss_ring := Some ring2 \<rparr>))))"

text \<open>The database with its owner first, the descriptor last.\<close>

definition persist_space :: "manager_env \<Rightarrow> key_options \<Rightarrow> space_info \<Rightarrow> (bool \<times> nat) option \<Rightarrow> space_stores
    \<Rightarrow> (unit, space_err) result \<times> space_stores" where
  "persist_space env opts info encryption ss =
     (case with_store (nf_id info) (\<lambda>_ db. space_add_member (me_now env 1) (nf_owner_node info) SrAdmin
             (case encryption of Some (enabled, _) \<Rightarrow> mark_encryption enabled db | None \<Rightarrow> db)) ss of
        (Err e, ss1) \<Rightarrow> (Err e, ss1)
      | (Ok _, ss1) \<Rightarrow>
          (if \<not> ss_persistent ss1 then (Ok (), ss1)
           else if \<not> me_descriptor_ok env then (Err (SpMsg ''write''), ss1)
           else (Ok (), ss1\<lparr> ss_descriptors := hput (nf_id info) (Ok (descriptor_from_info info encryption (ko_protocol opts)))
                               (ss_descriptors ss1) \<rparr>)))"

definition discard_in_ring :: "string \<Rightarrow> space_stores \<Rightarrow> space_stores" where
  "discard_in_ring sid ss = (case ss_ring ss of None \<Rightarrow> ss | Some ring \<Rightarrow> ss\<lparr> ss_ring := Some (discard_keys sid ring) \<rparr>)"

definition create_with_keys :: "manager_env \<Rightarrow> string \<Rightarrow> string \<Rightarrow> string \<Rightarrow> string \<Rightarrow> bool \<Rightarrow> key_options \<Rightarrow> space_manager
    \<Rightarrow> (space_info \<times> string option, space_err) result \<times> space_manager" where
  "create_with_keys env sid name description owner_node is_public opts mgr =
     (case validate_space_id sid of
        Err e \<Rightarrow> (Err e, mgr)
      | Ok _ \<Rightarrow>
          (if (case sm_legacy mgr of Some l \<Rightarrow> ls_id l = sid | None \<Rightarrow> False) then (Err (SpAlreadyExists sid), mgr)
           else case check_options env opts mgr of
                  Err e \<Rightarrow> (Err e, mgr)
                | Ok _ \<Rightarrow>
                    (if hmem (sm_spaces mgr) sid \<or> hmem (sm_unavailable mgr) sid then (Err (SpAlreadyExists sid), mgr)
                     else if \<not> me_dir_ok env then (Err (SpStorage ''create''), mgr)
                     else case make_keys env opts sid (sm_stores mgr) of
                            (Err e, ss) \<Rightarrow> (Err e, mgr\<lparr> sm_stores := ss \<rparr>)
                          | (Ok recovery, ss) \<Rightarrow>
                              (let encryption = (case recovery of Some _ \<Rightarrow> Some (ko_encrypt_records opts, keystore_version) | None \<Rightarrow> None);
                                   info = \<lparr> nf_id = sid, nf_name = name, nf_description = description, nf_owner_node = owner_node,
                                     nf_is_public = is_public, nf_created_at = me_now env 0,
                                     nf_namespace = namespace_for sid ''xavier'' ''default'',
                                     nf_storage_path = join_path (sm_base_dir mgr) sid \<rparr>
                               in case persist_space env opts info encryption ss of
                                    (Err e, ss1) \<Rightarrow> (Err (SpStorage (space_err_text e)),
                                      mgr\<lparr> sm_stores := discard_in_ring sid (stores_evict sid ss1) \<rparr>)
                                  | (Ok _, ss1) \<Rightarrow> (Ok (info, recovery),
                                      mgr\<lparr> sm_stores := ss1, sm_spaces := hput sid info (sm_spaces mgr),
                                           sm_protocols := (case ko_protocol opts of Some p \<Rightarrow> hput sid p (sm_protocols mgr)
                                                            | None \<Rightarrow> sm_protocols mgr) \<rparr>)))))"

definition create_space :: "manager_env \<Rightarrow> string \<Rightarrow> string \<Rightarrow> string \<Rightarrow> string \<Rightarrow> bool \<Rightarrow> space_manager
    \<Rightarrow> (space_info, space_err) result \<times> space_manager" where
  "create_space env sid name description owner_node is_public mgr =
     (case create_with_keys env sid name description owner_node is_public default_key_options mgr of
        (Err e, mgr1) \<Rightarrow> (Err e, mgr1)
      | (Ok (info, _), mgr1) \<Rightarrow> (Ok info, mgr1))"

section \<open>Deleting a space\<close>

text \<open>Moving the directory of a space takes its files out of the registry.\<close>

definition take_away :: "string \<Rightarrow> space_stores \<Rightarrow> space_stores" where
  "take_away sid ss = ss\<lparr> ss_dbs := hdel sid (ss_dbs ss), ss_descriptors := hdel sid (ss_descriptors ss),
     ss_ring := map_option (\<lambda>ring. ring\<lparr> kr_files := hdel sid (kr_files ring) \<rparr>) (ss_ring ss) \<rparr>"

definition dir_exists :: "manager_env \<Rightarrow> string \<Rightarrow> space_stores \<Rightarrow> bool" where
  "dir_exists env sid ss = (me_dir_left env \<or> (ss_persistent ss \<and> (hmem (ss_dbs ss) sid \<or> hmem (ss_descriptors ss) sid
     \<or> (case ss_ring ss of Some ring \<Rightarrow> hmem (kr_files ring) sid | None \<Rightarrow> False))))"

definition close_space :: "string \<Rightarrow> space_stores \<Rightarrow> space_stores" where
  "close_space sid ss = (let ss1 = stores_evict sid ss
     in case ss_ring ss1 of Some ring \<Rightarrow> ss1\<lparr> ss_ring := Some (ring_forget sid ring) \<rparr> | None \<Rightarrow> ss1)"

definition spaces_delete :: "manager_env \<Rightarrow> string \<Rightarrow> space_manager \<Rightarrow> (unit, space_err) result \<times> space_manager" where
  "spaces_delete env sid mgr =
     (case validate_space_id sid of
        Err e \<Rightarrow> (Err e, mgr)
      | Ok _ \<Rightarrow>
          (if hmem (sm_unavailable mgr) sid
           then (Err (SpStorage (''space '' @ sid @ '' is unavailable; refusing to delete its data'')), mgr)
           else case hget (sm_spaces mgr) sid of
                  None \<Rightarrow> (Err (SpNotFound sid), mgr)
                | Some info \<Rightarrow>
                    (let spaces = hdel sid (sm_spaces mgr); ss = close_space sid (sm_stores mgr)
                     in if dir_exists env sid ss \<and> \<not> me_move_ok env
                        then (Err (SpStorage (''could not move space '' @ sid @ '' to trash'')),
                              mgr\<lparr> sm_spaces := hput sid info spaces, sm_stores := ss \<rparr>)
                        else (Ok (), mgr\<lparr> sm_spaces := spaces, sm_protocols := hdel sid (sm_protocols mgr),
                               sm_stores := snd (revoke_links_naming (hkeys spaces) sid
                                 (if dir_exists env sid ss then take_away sid ss else ss)) \<rparr>))))"

section \<open>Links between registered spaces\<close>

definition non_empty :: "string option \<Rightarrow> string option" where
  "non_empty s = (if s = Some [] then None else s)"

definition create_link :: "int \<Rightarrow> string \<Rightarrow> string \<Rightarrow> string \<Rightarrow> string option \<Rightarrow> string option \<Rightarrow> int option \<Rightarrow> space_manager
    \<Rightarrow> (space_link, space_err) result \<times> space_manager" where
  "create_link now uuid grantor grantee namespace path_prefix expires_at mgr =
     (case (validate_space_id grantor, validate_space_id grantee) of
        (Err e, _) \<Rightarrow> (Err e, mgr)
      | (Ok _, Err e) \<Rightarrow> (Err e, mgr)
      | (Ok _, Ok _) \<Rightarrow>
          (if grantor = grantee then (Err (SpMsg ''a space cannot link to itself''), mgr)
           else case (spaces_get mgr grantor, spaces_get mgr grantee) of
                  (Err e, _) \<Rightarrow> (Err e, mgr)
                | (Ok _, Err e) \<Rightarrow> (Err e, mgr)
                | (Ok _, Ok _) \<Rightarrow>
                    (let link = \<lparr> sl_grant = \<lparr> cg_id = ''lnk_'' @ uuid, cg_resource_id = link_resource grantor,
                           cg_target_node = link_target grantee, cg_permission = PmRead, cg_expires_at = expires_at,
                           cg_revoked = False, cg_created_at = now \<rparr>,
                           sl_namespace = non_empty namespace, sl_path_prefix = non_empty path_prefix \<rparr>
                     in case with_store grantor (\<lambda>_. insert_link link) (sm_stores mgr) of
                          (Err e, ss) \<Rightarrow> (Err e, mgr\<lparr> sm_stores := ss \<rparr>)
                        | (Ok _, ss) \<Rightarrow> (Ok link, mgr\<lparr> sm_stores := ss \<rparr>))))"

definition inbound_links :: "int \<Rightarrow> space_manager \<Rightarrow> string \<Rightarrow> (string \<times> space_link) list \<times> space_manager" where
  "inbound_links now mgr caller =
     (case collect_inbound now caller (filter (\<lambda>i. i \<noteq> caller) (map nf_id (spaces_list mgr))) (sm_stores mgr) of
        (out, ss) \<Rightarrow> (out, mgr\<lparr> sm_stores := ss \<rparr>))"

definition visible_space_ids :: "int \<Rightarrow> space_manager \<Rightarrow> string \<Rightarrow> string list \<times> space_manager" where
  "visible_space_ids now mgr caller = (case inbound_links now mgr caller of
     (ls, mgr1) \<Rightarrow> (fold (\<lambda>l ids. if fst l \<in> set ids then ids else ids @ [fst l]) ls [caller], mgr1))"

section \<open>Tokens of registered spaces\<close>

definition verify_with_manager :: "(8 word list \<Rightarrow> 8 word list) \<Rightarrow> int \<Rightarrow> string \<Rightarrow> space_manager
    \<Rightarrow> (space_auth, token_error) result \<times> space_manager" where
  "verify_with_manager sha256 now raw mgr = (case parse_token raw of
     Err e \<Rightarrow> (Err e, mgr)
   | Ok sid \<Rightarrow> (case spaces_get mgr sid of
       Err _ \<Rightarrow> (Err TeInvalid, mgr)
     | Ok _ \<Rightarrow> (case verify_in_stores sha256 now raw (sm_stores mgr) of (r, ss) \<Rightarrow> (r, mgr\<lparr> sm_stores := ss \<rparr>))))"

definition create_space_with_owner_token :: "(8 word list \<Rightarrow> 8 word list) \<Rightarrow> manager_env \<Rightarrow> space_env \<Rightarrow> string \<Rightarrow> string \<Rightarrow> string
    \<Rightarrow> string \<Rightarrow> bool \<Rightarrow> space_manager \<Rightarrow> (space_info \<times> string, space_err) result \<times> space_manager" where
  "create_space_with_owner_token sha256 env tenv sid name description owner_node is_public mgr =
     (case create_space env sid name description owner_node is_public mgr of
        (Err e, mgr1) \<Rightarrow> (Err e, mgr1)
      | (Ok info, mgr1) \<Rightarrow>
          (case with_store sid (\<lambda>_. issue_token sha256 tenv sid owner_node SrAdmin None) (sm_stores mgr1) of
             (Ok t, ss) \<Rightarrow> (Ok (info, it_raw t), mgr1\<lparr> sm_stores := ss \<rparr>)
           | (Err e, ss) \<Rightarrow> (Err e, snd (spaces_delete env sid (mgr1\<lparr> sm_stores := ss \<rparr>)))))"

end
