(* ===== verification/SpaceRegistry.thy ===== *)
theory SpaceRegistry
  imports SpaceManager
begin

text \<open>What the registry of spaces keeps: it agrees with the files of its directory, so that a restart finds the same
  spaces, and a deleted space leaves no access to others behind. The last section shows where it fails.\<close>

section \<open>What a scan finds\<close>

definition found_at :: "bool \<Rightarrow> string \<Rightarrow> (space_descriptor, string) result \<Rightarrow> (space_descriptor, string) result option" where
  "found_at mesh k f = (if starts_with k ''.'' \<or> \<not> is_ok (validate_space_id k) then None else Some (scan_load mesh k f))"

definition space_at :: "bool \<Rightarrow> string \<Rightarrow> string \<Rightarrow> (space_descriptor, string) result \<Rightarrow> space_info option" where
  "space_at mesh base k f = (case found_at mesh k f of
     Some (Ok d) \<Rightarrow> if sd_legacy d then None else Some (descriptor_into_info d (join_path base k)) | _ \<Rightarrow> None)"

definition protocol_at :: "bool \<Rightarrow> string \<Rightarrow> (space_descriptor, string) result \<Rightarrow> space_protocol option" where
  "protocol_at mesh k f = (case found_at mesh k f of Some (Ok d) \<Rightarrow> if sd_legacy d then None else sd_protocol d | _ \<Rightarrow> None)"

definition reason_at :: "bool \<Rightarrow> string \<Rightarrow> (space_descriptor, string) result \<Rightarrow> string option" where
  "reason_at mesh k f = (case found_at mesh k f of Some (Err e) \<Rightarrow> Some e | _ \<Rightarrow> None)"

lemma scan_entry_gets:
  "hget (sc_spaces (scan_entry mesh base (n, f) acc)) k
     = (if k = n \<and> space_at mesh base n f \<noteq> None then space_at mesh base n f else hget (sc_spaces acc) k)"
  "hget (sc_protocols (scan_entry mesh base (n, f) acc)) k
     = (if k = n \<and> protocol_at mesh n f \<noteq> None then protocol_at mesh n f else hget (sc_protocols acc) k)"
  "hget (sc_unavailable (scan_entry mesh base (n, f) acc)) k
     = (if k = n \<and> reason_at mesh n f \<noteq> None then reason_at mesh n f else hget (sc_unavailable acc) k)"
  by (auto simp: scan_entry_def space_at_def protocol_at_def reason_at_def found_at_def split: sum.splits option.splits)

lemma fresh_key: "hmap_ok ((k, v) # m) \<longleftrightarrow> hget m k = None \<and> hmap_ok m"
  by (auto simp: hmap_ok_Cons map_of_eq_None_iff)

lemma fold_scan_gets:
  assumes "hmap_ok ds"
  shows "hget (sc_spaces (fold (scan_entry mesh base) ds acc)) k
      = (case Option.bind (hget ds k) (space_at mesh base k) of Some i \<Rightarrow> Some i | None \<Rightarrow> hget (sc_spaces acc) k)"
    and "hget (sc_protocols (fold (scan_entry mesh base) ds acc)) k
      = (case Option.bind (hget ds k) (protocol_at mesh k) of Some i \<Rightarrow> Some i | None \<Rightarrow> hget (sc_protocols acc) k)"
    and "hget (sc_unavailable (fold (scan_entry mesh base) ds acc)) k
      = (case Option.bind (hget ds k) (reason_at mesh k) of Some i \<Rightarrow> Some i | None \<Rightarrow> hget (sc_unavailable acc) k)"
  using assms
  by (induction ds arbitrary: acc) (auto simp: scan_entry_gets fresh_key split: option.split)

text \<open>The registry agrees with the files.\<close>

definition registry_agrees :: "bool \<Rightarrow> string \<Rightarrow> space_manager \<Rightarrow> bool" where
  "registry_agrees mesh base mgr = (sm_base_dir mgr = base \<and> ss_persistent (sm_stores mgr) \<and> hmap_ok (ss_descriptors (sm_stores mgr))
     \<and> (\<forall>k. hget (sm_spaces mgr) k = Option.bind (hget (ss_descriptors (sm_stores mgr)) k) (space_at mesh (sm_base_dir mgr) k))
     \<and> (\<forall>k. hget (sm_protocols mgr) k = Option.bind (hget (ss_descriptors (sm_stores mgr)) k) (protocol_at mesh k))
     \<and> (\<forall>k. hget (sm_unavailable mgr) k = Option.bind (hget (ss_descriptors (sm_stores mgr)) k) (reason_at mesh k)))"

section \<open>What opening and using stores leaves alone\<close>

text \<open>A relation that survives changes of the key ring and the opening of a database survives every lookup; one that
  survives writes to databases too survives every use.\<close>

locale store_frame =
  fixes R :: "space_stores \<Rightarrow> space_stores \<Rightarrow> bool"
  assumes R_refl: "R ss ss"
    and R_trans: "R a b \<Longrightarrow> R b c \<Longrightarrow> R a c"
    and R_ring: "ss_ring ss \<noteq> None \<Longrightarrow> R ss (ss\<lparr> ss_ring := Some ring \<rparr>)"
    and R_open: "R ss (open_new sid ss)"
begin

lemma ring_check: "ring_check sid ss = (r, ss') \<Longrightarrow> R ss ss'"
  using R_refl R_ring by (auto simp: ring_check_def split: option.splits prod.splits)

lemma admit_evidence:
  assumes "admit_evidence sid ss = (r, ss')" shows "R ss ss'"
proof -
  have "R ss ss' \<or> (\<exists>ring. ss_ring ss = Some ring \<and> ring_check sid (ss\<lparr> ss_ring := Some (require_encryption sid ring) \<rparr>) = (r, ss'))"
    using assms R_refl unfolding admit_evidence_def by (auto split: sum.splits bool.splits option.splits if_splits)
  then show ?thesis using R_trans R_ring ring_check by (metis option.discI)
qed

lemma get_inner:
  assumes "get_inner sid create ss = (r, ss')" shows "R ss ss'"
proof -
  obtain q ss1 where q: "ring_check sid ss = (q, ss1)" by force
  obtain p ss2 where p: "admit_evidence sid ss1 = (p, ss2)" by force
  have "ss' \<in> {ss, ss1, ss2, open_new sid ss2}"
    using assms unfolding get_inner_def q prod.case p by (auto split: sum.splits if_splits)
  moreover have "R ss ss1" "R ss1 ss2" using q p ring_check admit_evidence by blast+
  ultimately show ?thesis using R_refl R_trans R_open by (metis empty_iff insert_iff)
qed

lemma existing: "stores_get_existing sid ss = (r, ss') \<Longrightarrow> R ss ss'"
  by (auto simp: stores_get_existing_def split: prod.splits sum.splits space_err.splits dest: get_inner)

lemma verify_in_stores: "verify_in_stores sha256 now raw ss = (r, ss') \<Longrightarrow> R ss ss'"
  using R_refl by (auto simp: verify_in_stores_def split: prod.splits sum.splits bool.splits dest: existing)

lemma links_of: "links_of g ss = (r, ss') \<Longrightarrow> R ss ss'"
  by (auto simp: links_of_def stores_get_def split: prod.splits sum.splits if_splits dest: get_inner)

lemma collect_inbound: "collect_inbound now caller gs ss = (r, ss') \<Longrightarrow> R ss ss'"
proof (induction gs arbitrary: ss r)
  case (Cons g gs)
  obtain q ss1 where q: "links_of g ss = (q, ss1)" by force
  then have "\<exists>r. collect_inbound now caller gs ss1 = (r, ss')" using Cons.prems by (auto split: option.splits prod.splits)
  then show ?case using Cons.IH links_of [OF q] R_trans by blast
qed (simp add: R_refl)

end

locale store_writes = store_frame +
  assumes R_set: "R ss (set_db sid db ss)"
begin

lemma with_store:
  assumes "with_store sid f ss = (r, ss')" shows "R ss ss'"
proof -
  obtain q ss1 where q: "get_inner sid True ss = (q, ss1)" by force
  then have "ss' = ss1 \<or> (\<exists>db. ss' = set_db sid db ss1)"
    using assms by (auto simp: with_store_def stores_get_def split: sum.splits prod.splits)
  then show ?thesis using get_inner [OF q] R_trans R_set by blast
qed

lemma with_existing:
  assumes "with_existing sid f ss = (r, ss')" shows "R ss ss'"
proof -
  obtain q ss1 where q: "stores_get_existing sid ss = (q, ss1)" by force
  then have "ss' = ss1 \<or> (\<exists>db. ss' = set_db sid db ss1)"
    using assms by (auto simp: with_existing_def split: sum.splits prod.splits bool.splits)
  then show ?thesis using existing [OF q] R_trans R_set by blast
qed

lemma sweep_spaces: "sweep_spaces min_time ids now days ss = (r, ss') \<Longrightarrow> R ss ss'"
proof (induction ids arbitrary: ss r)
  case (Cons sid ids)
  obtain q ss1 where q: "with_existing sid (\<lambda>_ db. (case sweep_space min_time now days db of (n, db') \<Rightarrow> (Ok n, db'))) ss = (q, ss1)" by force
  then have "\<exists>r. sweep_spaces min_time ids now days ss1 = (r, ss')"
    using Cons.prems by (auto split: prod.splits sum.splits option.splits)
  then show ?case using Cons.IH with_existing [OF q] R_trans by blast
qed (simp add: R_refl)

lemma sweep_spaces_per_space: "sweep_spaces_per_space min_time spaces now fallback ss = (r, ss') \<Longrightarrow> R ss ss'"
proof (induction spaces arbitrary: ss r)
  case (Cons sp spaces)
  obtain sid days where sp: "sp = (sid, days)" by force
  obtain q ss1 where q: "sweep_spaces min_time [sid] now (case days of Some d \<Rightarrow> d | None \<Rightarrow> fallback) ss = (q, ss1)" by force
  then have "\<exists>r. sweep_spaces_per_space min_time spaces now fallback ss1 = (r, ss')"
    using Cons.prems unfolding sp sweep_spaces_per_space.simps q by (auto split: prod.splits)
  then show ?case using Cons.IH sweep_spaces [OF q] R_trans by blast
qed (simp add: R_refl)

lemma revoke_links_naming: "revoke_links_naming gs grantee ss = (r, ss') \<Longrightarrow> R ss ss'"
proof (induction gs arbitrary: ss r)
  case (Cons g gs)
  show ?case
  proof (cases "g = grantee")
    case True then show ?thesis using Cons by auto
  next
    case False
    obtain q ss1 where q: "get_inner g True ss = (q, ss1)" by force
    have "\<exists>ss2 r. (ss2 = ss1 \<or> (\<exists>db. ss2 = set_db g db ss1)) \<and> revoke_links_naming gs grantee ss2 = (r, ss')"
      using Cons.prems False unfolding revoke_links_naming.simps stores_get_def q
      by (auto split: sum.splits if_splits prod.splits)
    then show ?thesis using Cons.IH get_inner [OF q] R_trans R_set by metis
  qed
qed (simp add: R_refl)

end

text \<open>Descriptors are never written this way.\<close>

definition same_files :: "space_stores \<Rightarrow> space_stores \<Rightarrow> bool" where
  "same_files ss ss' = (ss_descriptors ss' = ss_descriptors ss \<and> ss_persistent ss' = ss_persistent ss
     \<and> ss_custom_codec ss' = ss_custom_codec ss \<and> (ss_ring ss' = None \<longleftrightarrow> ss_ring ss = None))"

interpretation files: store_writes same_files
  by unfold_locales (auto simp: same_files_def open_new_def set_db_def)

text \<open>Opening writes no database.\<close>

definition same_dbs :: "space_stores \<Rightarrow> space_stores \<Rightarrow> bool" where
  "same_dbs ss ss' = (\<forall>s. db_of ss' s = db_of ss s)"

interpretation dbs: store_frame same_dbs
  by unfold_locales (auto simp: same_dbs_def open_new_def db_of_def hmem_def)

section \<open>The registry and the files\<close>

lemma agrees_stores: "registry_agrees mesh base mgr \<Longrightarrow> same_files (sm_stores mgr) ss \<Longrightarrow> registry_agrees mesh base (mgr\<lparr> sm_stores := ss \<rparr>)"
  by (simp add: registry_agrees_def same_files_def)

lemma make_keys_files: "make_keys env opts sid ss = (r, ss') \<Longrightarrow> same_files ss ss'"
  by (auto simp: make_keys_def same_files_def split: option.splits prod.splits sum.splits)

text \<open>The name of a created space is valid, so that the next scan does not skip it, and so is its protocol.\<close>

lemma created_found:
  assumes "validate_space_id sid = Ok ()" "check_options env opts mgr = Ok ()" "nf_id info = sid"
  shows "found_at (me_mesh env) sid (Ok (descriptor_from_info info encryption (ko_protocol opts)))
    = Some (Ok (descriptor_from_info info encryption (ko_protocol opts)))"
proof -
  have "\<not> starts_with sid ''.''"
    using assms(1) by (cases sid) (auto simp: starts_with_def validate_space_id_iff id_char_def is_alnum_def Let_def)
  moreover have "case ko_protocol opts of Some p \<Rightarrow> check_protocol (me_mesh env) p = Ok () | None \<Rightarrow> True"
    using assms(2) by (auto simp: check_options_def split: option.splits sum.splits)
  ultimately show ?thesis
    using assms(1,3) by (auto simp: found_at_def scan_load_def descriptor_from_info_def split: option.split)
qed

lemma persist_space_cases:
  assumes "persist_space env opts info encryption ss = (r, ss')" "ss_persistent ss"
  obtains (failed) e where "r = Err e" "same_files ss ss'"
  | (written) ss1 where "r = Ok ()" "same_files ss ss1" "ss' = ss1\<lparr> ss_descriptors :=
      hput (nf_id info) (Ok (descriptor_from_info info encryption (ko_protocol opts))) (ss_descriptors ss1) \<rparr>"
proof -
  obtain q ss1 where q: "with_store (nf_id info) (\<lambda>_ db. space_add_member (me_now env 1) (nf_owner_node info) SrAdmin
      (case encryption of Some (enabled, _) \<Rightarrow> mark_encryption enabled db | None \<Rightarrow> db)) ss = (q, ss1)" by force
  have f: "same_files ss ss1" by (rule files.with_store [OF q])
  then have "ss_persistent ss1" using assms(2) by (simp add: same_files_def)
  then show thesis using assms(1) f failed written unfolding persist_space_def q
    by (auto split: sum.splits if_splits)
qed

lemma create_agrees:
  assumes "registry_agrees (me_mesh env) base mgr" "create_with_keys env sid name desc owner pub opts mgr = (r, mgr')"
  shows "registry_agrees (me_mesh env) base mgr'"
proof -
  have p: "ss_persistent (sm_stores mgr)" using assms(1) by (simp add: registry_agrees_def)
  show ?thesis
  proof (cases "mgr' = mgr")
    case False
    obtain k ss where k: "make_keys env opts sid (sm_stores mgr) = (k, ss)" by force
    note kf = make_keys_files [OF k]
    show ?thesis
    proof (cases "\<exists>e. k = Err e")
      case True
      then have "mgr' = mgr\<lparr> sm_stores := ss \<rparr>"
        using assms(2) False unfolding create_with_keys_def k by (auto split: sum.splits if_splits)
      then show ?thesis using agrees_stores [OF assms(1) kf] by simp
    next
      case notErr: False
      then obtain code where code: "k = Ok code" by (cases k) auto
      let ?enc = "case code of Some _ \<Rightarrow> Some (ko_encrypt_records opts, keystore_version) | None \<Rightarrow> None"
      let ?info = "\<lparr> nf_id = sid, nf_name = name, nf_description = desc, nf_owner_node = owner, nf_is_public = pub,
        nf_created_at = me_now env 0, nf_namespace = namespace_for sid ''xavier'' ''default'',
        nf_storage_path = join_path (sm_base_dir mgr) sid \<rparr>"
      obtain q ss1 where q: "persist_space env opts ?info ?enc ss = (q, ss1)" by force
      have v: "validate_space_id sid = Ok ()" "check_options env opts mgr = Ok ()" "\<not> hmem (sm_spaces mgr) sid" "hget (sm_unavailable mgr) sid = None"
        using assms(2) False unfolding create_with_keys_def by (auto simp: hmem_def split: sum.splits if_splits)
      have mgr': "mgr' = (case q of Err e \<Rightarrow> mgr\<lparr> sm_stores := discard_in_ring sid (stores_evict sid ss1) \<rparr>
        | Ok _ \<Rightarrow> mgr\<lparr> sm_stores := ss1, sm_spaces := hput sid ?info (sm_spaces mgr),
            sm_protocols := (case ko_protocol opts of Some p \<Rightarrow> hput sid p (sm_protocols mgr) | None \<Rightarrow> sm_protocols mgr) \<rparr>)"
        using assms(2) False unfolding create_with_keys_def k code by (auto simp: q Let_def split: sum.splits if_splits)
      have "ss_persistent ss" using kf p by (simp add: same_files_def)
      with q show ?thesis
      proof (cases rule: persist_space_cases)
        case (failed e)
        have "same_files (sm_stores mgr) ss1" using kf failed(2) files.R_trans by blast
        then have "same_files (sm_stores mgr) (discard_in_ring sid (stores_evict sid ss1))"
          by (auto simp: same_files_def discard_in_ring_def stores_evict_def split: option.split)
        then show ?thesis using agrees_stores [OF assms(1)] by (simp add: mgr' failed(1))
      next
        case (written ss2)
        have f: "same_files (sm_stores mgr) ss2" using kf written(2) files.R_trans by blast
        note found = created_found [OF v(1,2), of ?info ?enc, simplified]
        have pr: "hget (sm_protocols mgr) sid = None"
          using assms(1) v(3) by (auto simp: registry_agrees_def hmem_def space_at_def protocol_at_def bind_eq_None_conv
              split: Option.bind_splits option.splits sum.splits if_splits)
        show ?thesis
          using assms(1) f v(4) found pr unfolding mgr' written(1,3)
          by (auto simp: registry_agrees_def same_files_def space_at_def protocol_at_def reason_at_def descriptor_from_info_def
              descriptor_into_info_def split: option.splits)
      qed
    qed
  qed (use assms in simp)
qed

lemma take_away_files: "ss_descriptors (take_away sid ss) = hdel sid (ss_descriptors ss)" "ss_persistent (take_away sid ss) = ss_persistent ss"
  by (simp_all add: take_away_def)

lemma close_space_files: "same_files ss (close_space sid ss)"
  by (auto simp: close_space_def same_files_def stores_evict_def Let_def split: option.splits)

lemma delete_agrees:
  assumes "registry_agrees mesh base mgr" "spaces_delete env sid mgr = (r, mgr')"
  shows "registry_agrees mesh base mgr'"
proof (cases "mgr' = mgr")
  case False
  then obtain info where info: "hget (sm_spaces mgr) sid = Some info" "\<not> hmem (sm_unavailable mgr) sid"
    using assms(2) by (auto simp: spaces_delete_def split: sum.splits if_splits option.splits)
  let ?ss = "close_space sid (sm_stores mgr)"
  have f: "same_files (sm_stores mgr) ?ss" by (rule close_space_files)
  have "dir_exists env sid ?ss"
    using assms(1) info(1) f by (auto simp: registry_agrees_def dir_exists_def same_files_def hmem_def split: Option.bind_splits)
  then consider "mgr' = mgr\<lparr> sm_spaces := hput sid info (hdel sid (sm_spaces mgr)), sm_stores := ?ss \<rparr>"
    | n ss where "revoke_links_naming (hkeys (hdel sid (sm_spaces mgr))) sid (take_away sid ?ss) = (n, ss)"
      "mgr' = mgr\<lparr> sm_spaces := hdel sid (sm_spaces mgr), sm_protocols := hdel sid (sm_protocols mgr), sm_stores := ss \<rparr>"
    using assms(2) False info unfolding spaces_delete_def
    by (cases "revoke_links_naming (hkeys (hdel sid (sm_spaces mgr))) sid (take_away sid ?ss)")
      (auto simp: Let_def split: sum.splits if_splits)
  then show ?thesis
  proof cases
    case 1
    then show ?thesis using assms(1) info f by (auto simp: registry_agrees_def same_files_def)
  next
    case 2
    have "same_files (take_away sid ?ss) ss" by (rule files.revoke_links_naming [OF 2(1)])
    then have "ss_descriptors ss = hdel sid (ss_descriptors (sm_stores mgr))" "ss_persistent ss"
      using f assms(1) by (auto simp: same_files_def take_away_files registry_agrees_def)
    then show ?thesis using assms(1) info(2) by (auto simp: registry_agrees_def 2(2) hmem_def)
  qed
qed (use assms in simp)

section \<open>Restart\<close>

datatype manager_op =
    MoCreate string string string string bool key_options
  | MoOwned space_env string string string string bool
  | MoDelete string
  | MoAddMember int string string space_role
  | MoRemoveMember string string
  | MoSweep int int "64 word"
  | MoLink int string string string "string option" "string option" "int option"
  | MoVisible int string
  | MoVerify int string

definition spaces_step :: "(8 word list \<Rightarrow> 8 word list) \<Rightarrow> manager_env \<Rightarrow> manager_op \<Rightarrow> space_manager \<Rightarrow> space_manager" where
  "spaces_step sha256 env a mgr = (case a of
     MoCreate sid name desc owner pub opts \<Rightarrow> snd (create_with_keys env sid name desc owner pub opts mgr)
   | MoOwned tenv sid name desc owner pub \<Rightarrow> snd (create_space_with_owner_token sha256 env tenv sid name desc owner pub mgr)
   | MoDelete sid \<Rightarrow> snd (spaces_delete env sid mgr)
   | MoAddMember now sid node role \<Rightarrow> snd (spaces_add_member now sid node role mgr)
   | MoRemoveMember sid node \<Rightarrow> snd (spaces_remove_member sid node mgr)
   | MoSweep min_time now days \<Rightarrow> snd (sweep_retention min_time now days mgr)
   | MoLink now uuid g h ns prefix expires \<Rightarrow> snd (create_link now uuid g h ns prefix expires mgr)
   | MoVisible now caller \<Rightarrow> snd (visible_space_ids now mgr caller)
   | MoVerify now raw \<Rightarrow> snd (verify_with_manager sha256 now raw mgr))"

fun spaces_run :: "(8 word list \<Rightarrow> 8 word list) \<Rightarrow> (manager_env \<times> manager_op) list \<Rightarrow> space_manager \<Rightarrow> space_manager" where
  "spaces_run sha256 [] mgr = mgr"
| "spaces_run sha256 ((env, a) # as) mgr = spaces_run sha256 as (spaces_step sha256 env a mgr)"

lemma on_store_agrees:
  assumes "registry_agrees mesh base mgr" shows "registry_agrees mesh base (snd (on_store sid f mgr))"
proof -
  obtain r ss where "with_store sid (\<lambda>_. f) (sm_stores mgr) = (r, ss)" by force
  then show ?thesis
    using assms agrees_stores [OF assms files.with_store] by (auto simp: on_store_def split: sum.split)
qed

lemma create_link_cases:
  assumes "create_link now uuid g h ns prefix expires mgr = (r, mgr')"
  obtains "mgr' = mgr" | f and q :: "(unit, space_err) result" and ss where "with_store g f (sm_stores mgr) = (q, ss)" "mgr' = mgr\<lparr> sm_stores := ss \<rparr>"
proof -
  let ?link = "\<lparr> sl_grant = \<lparr> cg_id = ''lnk_'' @ uuid, cg_resource_id = link_resource g, cg_target_node = link_target h,
      cg_permission = PmRead, cg_expires_at = expires, cg_revoked = False, cg_created_at = now \<rparr>,
    sl_namespace = non_empty ns, sl_path_prefix = non_empty prefix \<rparr>"
  obtain q ss where q: "with_store g (\<lambda>_. insert_link ?link) (sm_stores mgr) = (q, ss)" by force
  have "mgr' = mgr \<or> mgr' = mgr\<lparr> sm_stores := ss \<rparr>"
    using assms unfolding create_link_def Let_def q by (simp split: sum.splits if_splits)
  then show thesis using that(1) that(2) [OF q] by (elim disjE)
qed

lemma create_link_agrees:
  assumes "registry_agrees mesh base mgr" shows "registry_agrees mesh base (snd (create_link now uuid g h ns prefix expires mgr))"
  by (cases rule: create_link_cases [OF prod.collapse [symmetric], of now uuid g h ns prefix expires mgr])
    (use assms agrees_stores [OF assms files.with_store] in auto)

lemma owned_agrees:
  assumes "registry_agrees (me_mesh env) base mgr"
  shows "registry_agrees (me_mesh env) base (snd (create_space_with_owner_token sha256 env tenv sid name desc owner pub mgr))"
proof -
  obtain r mgr1 where c: "create_space env sid name desc owner pub mgr = (r, mgr1)" by force
  then have "\<exists>r. create_with_keys env sid name desc owner pub default_key_options mgr = (r, mgr1)"
    by (auto simp: create_space_def split: prod.splits sum.splits)
  then have a1: "registry_agrees (me_mesh env) base mgr1" using create_agrees [OF assms] by blast
  obtain q ss where w: "with_store sid (\<lambda>_. issue_token sha256 tenv sid owner SrAdmin None) (sm_stores mgr1) = (q, ss)" by force
  note a2 = agrees_stores [OF a1 files.with_store [OF w]]
  have "registry_agrees (me_mesh env) base (snd (spaces_delete env sid (mgr1\<lparr> sm_stores := ss \<rparr>)))"
    by (rule delete_agrees [OF a2 prod.collapse [symmetric]])
  then show ?thesis using a1 a2 unfolding create_space_with_owner_token_def c by (auto simp: w split: sum.split)
qed

lemma step_agrees:
  assumes "registry_agrees (me_mesh env) base mgr"
  shows "registry_agrees (me_mesh env) base (spaces_step sha256 env a mgr)"
proof (cases a)
  case (MoCreate sid name desc owner pub opts)
  then show ?thesis using create_agrees [OF assms prod.collapse [symmetric]] by (simp add: spaces_step_def)
next
  case (MoOwned tenv sid name desc owner pub)
  then show ?thesis using owned_agrees [OF assms] by (simp add: spaces_step_def)
next
  case (MoDelete sid)
  then show ?thesis using delete_agrees [OF assms prod.collapse [symmetric]] by (simp add: spaces_step_def)
next
  case (MoAddMember now sid node role)
  then show ?thesis using on_store_agrees [OF assms] by (simp add: spaces_step_def spaces_add_member_def)
next
  case (MoRemoveMember sid node)
  then show ?thesis using on_store_agrees [OF assms] by (simp add: spaces_step_def spaces_remove_member_def)
next
  case (MoSweep min_time now days)
  then show ?thesis
    using agrees_stores [OF assms files.sweep_spaces_per_space]
    by (auto simp: spaces_step_def sweep_retention_def split: prod.split)
next
  case (MoLink now uuid g h ns prefix expires)
  then show ?thesis using create_link_agrees [OF assms] by (simp add: spaces_step_def)
next
  case (MoVisible now caller)
  then show ?thesis
    using agrees_stores [OF assms files.collect_inbound]
    by (auto simp: spaces_step_def visible_space_ids_def inbound_links_def split: prod.split)
next
  case (MoVerify now raw)
  then show ?thesis
    using assms agrees_stores [OF assms files.verify_in_stores]
    by (auto simp: spaces_step_def verify_with_manager_def split: prod.split sum.split)
qed

lemma run_agrees:
  "registry_agrees mesh base mgr \<Longrightarrow> \<forall>ea\<in>set as. me_mesh (fst ea) = mesh \<Longrightarrow> registry_agrees mesh base (spaces_run sha256 as mgr)"
proof (induction as arbitrary: mgr)
  case (Cons ea as)
  obtain env a where ea: "ea = (env, a)" by force
  then have mesh: "mesh = me_mesh env" using Cons.prems(2) by simp
  have "registry_agrees mesh base (spaces_step sha256 env a mgr)"
    unfolding mesh by (rule step_agrees) (use Cons.prems(1) mesh in simp)
  then show ?case using Cons.IH Cons.prems(2) by (simp add: ea)
qed simp

text \<open>Opening reads the descriptors, and changes none but that of the legacy workspace.\<close>

lemma same_files_fold: "(\<And>x s. same_files s (f x s)) \<Longrightarrow> same_files ss (fold f xs ss)"
  by (induction xs arbitrary: ss) (auto intro: files.R_trans simp: files.R_refl)

lemma fold_keeps: "(\<And>x s. g (f x s) = g s) \<Longrightarrow> g (fold f xs s) = g s"
  by (induction xs arbitrary: s) auto

lemma opening_files:
  "same_files s (prime_encryption sid s)" "same_files s (require_and_look sid s)"
  "ss_dbs (prime_encryption sid s) = ss_dbs s" "ss_dbs (require_and_look sid s) = ss_dbs s"
  by (auto simp: prime_encryption_def require_and_look_def same_files_def split: option.split sum.split bool.split)

definition legacy_added :: "(string, (space_descriptor, string) result) hmap \<Rightarrow> (string, (space_descriptor, string) result) hmap \<Rightarrow> bool" where
  "legacy_added old new = (new = old \<or> (\<exists>l now. \<not> hmem old (lw_id l) \<and> new = hput (lw_id l) (Ok (legacy_descriptor now l)) old))"

lemma legacy_added_binds:
  assumes "legacy_added old new"
  shows "Option.bind (hget new k) (space_at mesh base k) = Option.bind (hget old k) (space_at mesh base k)"
    and "Option.bind (hget new k) (protocol_at mesh k) = Option.bind (hget old k) (protocol_at mesh k)"
    and "Option.bind (hget new k) (reason_at mesh k) = Option.bind (hget old k) (reason_at mesh k)"
  using assms by (auto simp: legacy_added_def hmem_def space_at_def protocol_at_def reason_at_def found_at_def scan_load_def
      legacy_descriptor_def)

lemma opened:
  assumes "ss_persistent ss" "hmap_ok (ss_descriptors ss)"
  shows "registry_agrees (me_mesh env) base (open_with_stores_and_legacy env base legacy ss)
    \<and> ss_dbs (sm_stores (open_with_stores_and_legacy env base legacy ss)) = ss_dbs ss
    \<and> sm_base_dir (open_with_stores_and_legacy env base legacy ss) = base
    \<and> legacy_added (ss_descriptors ss) (ss_descriptors (sm_stores (open_with_stores_and_legacy env base legacy ss)))"
proof -
  define ss1 where "ss1 = (case ss_ring ss of None \<Rightarrow> ss
    | Some ring \<Rightarrow> ss\<lparr> ss_ring := Some (auto_unlock_all (me_crypto env) (me_node env) (hkeys (kr_files ring)) ring) \<rparr>)"
  define ss2 where "ss2 = (case legacy of None \<Rightarrow> ss1
    | Some l \<Rightarrow> (if ss_persistent ss1 then snd (ensure_default_space env l ss1) else ss1))"
  define found where "found = scan (me_mesh env) base ss2"
  define ss3 where "ss3 = (if ss_ring ss2 = None then ss2
    else fold require_and_look (sc_encrypted found) (fold prime_encryption (hkeys (sc_spaces found)) ss2))"
  have mgr: "open_with_stores_and_legacy env base legacy ss = \<lparr> sm_spaces = sc_spaces found, sm_protocols = sc_protocols found,
      sm_unavailable = sc_unavailable found, sm_base_dir = base, sm_stores = ss3, sm_legacy = sc_legacy found, sm_networks = [] \<rparr>"
    unfolding ss3_def found_def ss2_def ss1_def open_with_stores_and_legacy_def Let_def by (rule refl)
  have ss1: "ss_descriptors ss1 = ss_descriptors ss" "ss_persistent ss1" "ss_dbs ss1 = ss_dbs ss"
    using assms(1) by (auto simp: ss1_def split: option.split)
  have ss2: "ss_persistent ss2" "ss_dbs ss2 = ss_dbs ss" "legacy_added (ss_descriptors ss) (ss_descriptors ss2)"
    using ss1 by (auto simp: ss2_def ensure_default_space_def legacy_added_def split: option.split)
  have "same_files ss2 ss3"
    unfolding ss3_def using same_files_fold [where f = prime_encryption, OF opening_files(1)]
      same_files_fold [where f = require_and_look, OF opening_files(2)]
    by (auto intro: files.R_trans [OF _ _] simp: files.R_refl) (metis files.R_trans)
  then have ss3: "ss_descriptors ss3 = ss_descriptors ss2" "ss_persistent ss3" using ss2(1) by (auto simp: same_files_def)
  have dbs: "ss_dbs ss3 = ss_dbs ss"
    by (simp add: ss3_def fold_keeps [where g = ss_dbs and f = require_and_look, OF opening_files(4)]
        fold_keeps [where g = ss_dbs and f = prime_encryption, OF opening_files(3)] ss2(2))
  have ok: "hmap_ok (ss_descriptors ss2)" using ss2(3) assms(2) by (auto simp: legacy_added_def)
  have "registry_agrees (me_mesh env) base (open_with_stores_and_legacy env base legacy ss)"
    unfolding mgr registry_agrees_def
    using ok ss2(1) ss3 fold_scan_gets [OF ok, of "me_mesh env" base] by (auto simp: found_def scan_def split: option.split)
  then show ?thesis using dbs ss2(3) ss3(1) by (auto simp: mgr)
qed

text \<open>A restart keeps the files and loses the open handles and the loaded keys.\<close>

definition reopened :: "space_stores \<Rightarrow> space_stores" where
  "reopened ss = ss\<lparr> ss_open := [], ss_ring := map_option (\<lambda>ring. key_ring_new (kr_files ring)) (ss_ring ss) \<rparr>"

text \<open>C7: After any operations on a registry over a directory, a new process over its files has the same registry: every
  space with its description, protocol and database, and every directory it refuses for the same reason.\<close>

theorem restart_restores_registry:
  assumes "ss_persistent ss" "hmap_ok (ss_descriptors ss)"
    and "\<forall>ea\<in>set as. me_mesh (fst ea) = me_mesh env" "me_mesh env' = me_mesh env"
    and "mgr = spaces_run sha256 as (open_with_stores_and_legacy env base legacy ss)"
    and "mgr' = open_with_stores_and_legacy env' base legacy' (reopened (sm_stores mgr))"
  shows "spaces_get mgr' sid = spaces_get mgr sid \<and> spaces_protocol mgr' sid = spaces_protocol mgr sid
    \<and> db_of (sm_stores mgr') sid = db_of (sm_stores mgr) sid"
proof -
  have a: "registry_agrees (me_mesh env) base mgr"
    unfolding assms(5) by (rule run_agrees) (use opened [OF assms(1,2)] assms(3) in auto)
  then have re: "ss_persistent (reopened (sm_stores mgr))" "hmap_ok (ss_descriptors (reopened (sm_stores mgr)))"
    by (auto simp: registry_agrees_def reopened_def)
  note o = opened [OF re, of env' base legacy', folded assms(6)]
  have "legacy_added (ss_descriptors (sm_stores mgr)) (ss_descriptors (sm_stores mgr'))" using o by (simp add: reopened_def)
  note same = legacy_added_binds [OF this]
  have "hget (sm_spaces mgr') k = hget (sm_spaces mgr) k" "hget (sm_protocols mgr') k = hget (sm_protocols mgr) k"
    "hget (sm_unavailable mgr') k = hget (sm_unavailable mgr) k" for k
    using a o same by (simp_all add: registry_agrees_def assms(4))
  then show ?thesis using o by (auto simp: spaces_get_def spaces_protocol_def db_of_def reopened_def split: option.split)
qed

section \<open>A deleted space leaves no access behind\<close>

definition cut_off :: "string \<Rightarrow> space_db \<Rightarrow> bool" where
  "cut_off sid db = (\<forall>r\<in>set (db_links db). lk_target_node r = link_target sid \<longrightarrow> lk_revoked r)"

definition reachable_space :: "space_stores \<Rightarrow> string \<Rightarrow> bool" where
  "reachable_space ss g = (validate_space_id g = Ok () \<and> (case hget (ss_descriptors ss) g of Some (Err _) \<Rightarrow> False | _ \<Rightarrow> True))"

definition stores_able :: "space_stores \<Rightarrow> bool" where
  "stores_able ss = (case ss_ring ss of Some _ \<Rightarrow> ss_persistent ss | None \<Rightarrow> ss_custom_codec ss \<or> \<not> ss_persistent ss)"

lemma is_locked_closed: "is_locked sid kr = (True, kr1) \<Longrightarrow> is_locked sid kr1 = (True, kr1)"
proof -
  assume l: "is_locked sid kr = (True, kr1)"
  obtain r kr0 where e: "ensure_loaded sid kr = (r, kr0)" by force
  show ?thesis
  proof (cases r)
    case (Inl x)
    then have "kr0 = kr" using e ensure_loaded_err by simp
    then show ?thesis using l e Inl by (simp add: is_locked_def)
  next
    case (Inr b)
    then show ?thesis using l e by (auto simp: is_locked_def ensure_loaded_idem split: bool.splits)
  qed
qed

lemma check_unlocked_Err:
  assumes "check_unlocked sid kr = (Err e, kr1)" shows "is_locked sid kr1 = (True, kr1)"
proof (cases "\<exists>x. fst (ensure_loaded sid kr) = Err (SpKeys (KeKeystoreMissing x))")
  case True
  then obtain x kr0 where l: "ensure_loaded sid kr = (Err (SpKeys (KeKeystoreMissing x)), kr0)" by (metis prod.collapse)
  then have "kr1 = kr" "kr0 = kr" using assms ensure_loaded_err by (auto simp: check_unlocked_def)
  then show ?thesis using l by (simp add: is_locked_def)
next
  case False
  then have "is_locked sid (snd (ensure_loaded sid kr)) = (True, kr1)"
    using assms by (simp add: check_unlocked_def split: prod.splits sum.splits bool.splits space_err.splits keys_error.splits)
  then show ?thesis by (rule is_locked_closed)
qed

lemma ring_check_Err: "ring_check sid ss = (Err e, ss1) \<Longrightarrow> space_is_locked sid ss1"
  by (auto simp: ring_check_def space_is_locked_def split: option.splits prod.splits dest!: check_unlocked_Err)

lemma get_inner_Err:
  assumes "get_inner g True ss = (Err e, ss1)" "reachable_space ss g" "stores_able ss"
  shows "space_is_locked g ss1 \<and> ss_persistent ss1"
proof -
  have f: "same_files ss ss1" by (rule files.get_inner [OF assms(1)])
  obtain q ss0 where q: "ring_check g ss = (q, ss0)" by force
  have v: "validate_space_id g = Ok ()" using assms(2) by (simp add: reachable_space_def)
  have "space_is_locked g ss1"
  proof (cases q)
    case (Inl e')
    then show ?thesis using assms(1) v q ring_check_Err by (auto simp: get_inner_def)
  next
    case (Inr u)
    have f0: "same_files ss ss0" by (rule files.ring_check [OF q])
    have a: "admit_evidence g ss0 = (Err e, ss1)"
      using assms(1) v q Inr by (auto simp: get_inner_def split: if_splits prod.splits sum.splits)
    have "\<exists>b. encryption_evidence ss0 g = Ok b"
      using assms(2) f0 by (auto simp: encryption_evidence_def reachable_space_def same_files_def split: option.splits sum.splits)
    then obtain b where "encryption_evidence ss0 g = Ok b" by blast
    then show ?thesis
      using a assms(3) f0 ring_check_Err
      by (auto simp: admit_evidence_def stores_able_def same_files_def encryption_evidence_def split: bool.splits option.splits if_splits)
  qed
  moreover have "ss_persistent ss1"
    using calculation assms(3) f by (auto simp: space_is_locked_def stores_able_def same_files_def split: option.splits)
  ultimately show ?thesis by simp
qed

lemma revoke_links_to_cut: "cut_off sid (snd (revoke_links_to sid db))"
  by (auto simp: revoke_links_to_def cut_off_def)

lemma cut_off_empty [simp]: "cut_off sid empty_db"
  by (simp add: cut_off_def empty_db_def)

text \<open>One turn of the loop: the links of the grantor to the deleted space end, other databases stay.\<close>

lemma revoke_turn:
  assumes "reachable_space ss g" "stores_able ss" "g \<noteq> sid" "revoke_links_naming (g # gs) sid ss = (n, ss')"
  obtains ss2 k where "revoke_links_naming gs sid ss2 = (k, ss')" "same_files ss ss2" "cut_off sid (db_of ss2 g)"
    "\<And>h. h \<noteq> g \<Longrightarrow> db_of ss2 h = db_of ss h"
proof -
  obtain q ss1 where q: "get_inner g True ss = (q, ss1)" by force
  have f: "same_files ss ss1" by (rule files.get_inner [OF q])
  have d: "db_of ss1 h = db_of ss h" for h using dbs.get_inner [OF q] by (simp add: same_dbs_def)
  let ?db = "snd (revoke_links_to sid (db_of ss1 g))"
  define ss2 where "ss2 = (if is_ok q \<or> hmem (ss_dbs ss1) g then set_db g ?db ss1 else ss1)"
  have lock: "space_is_locked g ss1 \<and> ss_persistent ss1" if "\<not> is_ok q"
    using that q get_inner_Err [OF _ assms(1,2)] by (cases q) auto
  have "\<exists>k. revoke_links_naming gs sid ss2 = (k, ss')"
    using assms(3,4) lock unfolding revoke_links_naming.simps stores_get_def q ss2_def
    by (cases q) (auto split: prod.splits)
  moreover have "same_files ss ss2" using f files.R_trans files.R_set by (auto simp: ss2_def)
  moreover have "cut_off sid (db_of ss2 g)"
  proof (cases "is_ok q \<or> hmem (ss_dbs ss1) g")
    case False
    then show ?thesis by (simp add: ss2_def db_of_def hmem_def)
  qed (simp add: ss2_def revoke_links_to_cut)
  moreover have "db_of ss2 h = db_of ss h" if "h \<noteq> g" for h using that d by (simp add: ss2_def)
  ultimately show thesis using that by blast
qed

lemma revoke_all_cut:
  assumes "\<forall>g\<in>set gs. reachable_space ss g" "stores_able ss" "revoke_links_naming gs sid ss = (n, ss')"
  shows "(\<forall>g\<in>set gs. g \<noteq> sid \<longrightarrow> cut_off sid (db_of ss' g)) \<and> (\<forall>h. cut_off sid (db_of ss h) \<longrightarrow> cut_off sid (db_of ss' h))"
  using assms
proof (induction gs arbitrary: ss n)
  case (Cons g gs)
  show ?case
  proof (cases "g = sid")
    case True
    then show ?thesis using Cons.IH [of ss n] Cons.prems by simp
  next
    case False
    obtain ss2 k where r: "revoke_links_naming gs sid ss2 = (k, ss')" "same_files ss ss2" "cut_off sid (db_of ss2 g)"
      "\<And>h. h \<noteq> g \<Longrightarrow> db_of ss2 h = db_of ss h"
      using revoke_turn [OF _ Cons.prems(2) False Cons.prems(3)] Cons.prems(1) by auto
    have "\<forall>g\<in>set gs. reachable_space ss2 g" "stores_able ss2"
      using Cons.prems(1,2) r(2) by (auto simp: reachable_space_def stores_able_def same_files_def split: option.splits)
    from Cons.IH [OF this r(1)] show ?thesis using r(3,4) by (metis set_ConsD)
  qed
qed simp

lemma cut_off_inbound:
  assumes "\<forall>g\<in>set gs. cut_off sid (db_of ss g)" shows "fst (collect_inbound now sid gs ss) = []"
  using assms
proof (induction gs arbitrary: ss)
  case (Cons g gs)
  obtain q ss1 where q: "links_of g ss = (q, ss1)" by force
  have d: "db_of ss1 h = db_of ss h" for h using dbs.links_of [OF q] by (simp add: same_dbs_def)
  have "filter (grants_read now g sid) ls = []" if "q = Some ls" for ls
  proof -
    have "ls = read_links (db_of ss g)"
      using q that dbs.get_inner [where ss = ss] by (auto simp: links_of_def stores_get_def same_dbs_def split: prod.splits sum.splits if_splits)
    moreover have "cut_off sid (db_of ss g)" using Cons.prems by simp
    ultimately show ?thesis
      by (auto simp: filter_empty_conv read_links_def map_filter_def cut_off_def grants_read_def grant_is_active_def link_of_row_def
          split: option.splits)
  qed
  moreover have "fst (collect_inbound now sid gs ss1) = []" using Cons d by simp
  ultimately show ?case by (auto simp: q split: option.split prod.split)
qed simp

lemma visible_alone: "fst (inbound_links now mgr sid) = [] \<Longrightarrow> fst (visible_space_ids now mgr sid) = [sid]"
  by (auto simp: visible_space_ids_def split: prod.splits)

lemma inbound_alone:
  assumes "\<And>i. i \<in> nf_id ` set (hvalues (sm_spaces mgr)) \<Longrightarrow> i \<noteq> sid \<Longrightarrow> cut_off sid (db_of (sm_stores mgr) i)"
  shows "fst (visible_space_ids now mgr sid) = [sid]"
proof (rule visible_alone)
  have "fst (collect_inbound now sid (filter (\<lambda>i. i \<noteq> sid) (map nf_id (spaces_list mgr))) (sm_stores mgr)) = []"
    by (rule cut_off_inbound) (use assms in \<open>auto simp: spaces_list_def\<close>)
  then show "fst (inbound_links now mgr sid) = []" by (auto simp: inbound_links_def split: prod.split)
qed

text \<open>Creating a space writes to no other database.\<close>

lemma with_store_others:
  assumes "with_store sid f ss = (r, ss')" "h \<noteq> sid" shows "db_of ss' h = db_of ss h"
proof -
  obtain q ss1 where q: "get_inner sid True ss = (q, ss1)" by force
  have "db_of ss1 h = db_of ss h" using dbs.get_inner [OF q] by (simp add: same_dbs_def)
  moreover have "ss' = ss1 \<or> (\<exists>db. ss' = set_db sid db ss1)"
    using assms(1) q by (auto simp: with_store_def stores_get_def split: sum.splits prod.splits)
  ultimately show ?thesis using assms(2) by auto
qed

lemma make_keys_dbs: "make_keys env opts sid ss = (r, ss') \<Longrightarrow> ss_dbs ss' = ss_dbs ss"
  by (auto simp: make_keys_def split: option.splits prod.splits sum.splits)

lemma create_others:
  assumes "create_with_keys env sid name desc owner pub opts mgr = (r, mgr')" "h \<noteq> sid"
  shows "db_of (sm_stores mgr') h = db_of (sm_stores mgr) h"
    and "nf_id ` set (hvalues (sm_spaces mgr')) \<subseteq> insert sid (nf_id ` set (hvalues (sm_spaces mgr)))"
proof -
  obtain k ss where k: "make_keys env opts sid (sm_stores mgr) = (k, ss)" by force
  have kd: "db_of ss h = db_of (sm_stores mgr) h" using make_keys_dbs [OF k] by (simp add: db_of_def)
  have p: "db_of ss1 h = db_of ss h" if "persist_space env opts info enc ss = (q, ss1)" "nf_id info = sid" for info enc q ss1
    using that assms(2) with_store_others unfolding persist_space_def by (fastforce simp: db_of_def split: prod.splits sum.splits if_splits)
  have e: "db_of (discard_in_ring sid (stores_evict sid ss1)) h = db_of ss1 h" for ss1
    using assms(2) by (auto simp: discard_in_ring_def stores_evict_def db_of_def split: option.split)
  show "db_of (sm_stores mgr') h = db_of (sm_stores mgr) h"
    using assms(1) kd unfolding create_with_keys_def k
    by (auto simp: Let_def e dest!: p split: sum.splits if_splits prod.splits)
  show "nf_id ` set (hvalues (sm_spaces mgr')) \<subseteq> insert sid (nf_id ` set (hvalues (sm_spaces mgr)))"
    using assms(1) set_hput_subset [of sid _ "sm_spaces mgr"] unfolding create_with_keys_def k
    by (fastforce simp: Let_def split: sum.splits if_splits prod.splits)
qed

text \<open>C8: The id of a deleted space inherits nothing, when every registered space has a descriptor that can be read and the
  stores have their keys or need none: right after the deletion, and right after the next creation of a space under the
  id, the id reads no space but its own; locked spaces are reached too. (A space whose descriptor cannot be read at the time
  of the deletion is not reached: its links come back with its descriptor.)\<close>

theorem deleted_id_inherits_nothing:
  assumes "\<forall>(k, i)\<in>set (sm_spaces mgr). nf_id i = k \<and> reachable_space (sm_stores mgr) k" "stores_able (sm_stores mgr)"
    and "spaces_delete env sid mgr = (Ok (), mgr1)"
    and "create_with_keys env' sid name desc owner pub opts mgr1 = (r, mgr2)"
  shows "fst (visible_space_ids now mgr1 sid) = [sid] \<and> fst (visible_space_ids now mgr2 sid) = [sid]"
proof -
  let ?ss = "close_space sid (sm_stores mgr)"
  let ?ss' = "if dir_exists env sid ?ss then take_away sid ?ss else ?ss"
  obtain n ss where r: "revoke_links_naming (hkeys (hdel sid (sm_spaces mgr))) sid ?ss' = (n, ss)" by force
  have m1: "sm_stores mgr1 = ss" "sm_spaces mgr1 = hdel sid (sm_spaces mgr)"
    using assms(3) r unfolding spaces_delete_def by (auto simp: Let_def split: sum.splits if_splits option.splits)
  have "same_files (sm_stores mgr) ?ss" by (rule close_space_files)
  then have "stores_able ?ss'" "\<forall>k\<in>set (hkeys (hdel sid (sm_spaces mgr))). reachable_space ?ss' k"
    using assms(1,2) by (auto simp: stores_able_def reachable_space_def same_files_def take_away_def set_hdel split: option.splits)
  with revoke_all_cut [OF _ _ r] have "\<forall>g\<in>set (hkeys (hdel sid (sm_spaces mgr))). g \<noteq> sid \<longrightarrow> cut_off sid (db_of ss g)" by blast
  then have cut: "cut_off sid (db_of (sm_stores mgr1) i)" if "i \<in> nf_id ` set (hvalues (sm_spaces mgr1))" "i \<noteq> sid" for i
    using that assms(1) by (fastforce simp: m1 set_hdel)
  moreover have "cut_off sid (db_of (sm_stores mgr2) i)" if "i \<in> nf_id ` set (hvalues (sm_spaces mgr2))" "i \<noteq> sid" for i
    using create_others [OF assms(4) that(2)] cut that by auto
  ultimately show ?thesis using inbound_alone by blast
qed

section \<open>Examples and failures\<close>

definition sample_menv :: "bool \<Rightarrow> manager_env" where
  "sample_menv writes = \<lparr> me_mesh = False, me_crypto = sample_crypto, me_node = (\<lambda>_. Err SpDatabase), me_now = (\<lambda>_. 0), me_dir_ok = True,
     me_descriptor_ok = writes, me_dir_left = False, me_move_ok = True, me_ring = sample_ring_env \<rparr>"

lemma valid_s: "validate_space_id ''s'' = Ok ()" "validate_space_id ''t'' = Ok ()"
  by (simp_all add: validate_space_id_def id_char_def is_alnum_def)

lemma plain_get:
  assumes "validate_space_id sid = Ok ()" "ss_ring ss = None" "ss_persistent ss" "hget (ss_descriptors ss) sid = None"
    "case hget (ss_dbs ss) sid of None \<Rightarrow> True | Some db \<Rightarrow> db_messages db = [] \<and> \<not> encryption_flag db" "sid \<notin> set (ss_open ss)"
  shows "get_inner sid True ss = (Ok (), open_new sid ss)"
  using assms by (auto simp: get_inner_def ring_check_def admit_evidence_def encryption_evidence_def split: option.splits)

lemma add_owner_ok: "members_ok db \<Longrightarrow> is_ok (fst (space_add_member now n role db))"
proof -
  assume "members_ok db"
  then obtain j where "member n (snd (space_add_member now n role db)) = Ok (Some \<lparr> sm_node_id = n, sm_role = role, sm_joined_at = j \<rparr>)"
    using member_add [of db n now n role] by auto
  moreover have "fst (space_add_member now n role db) = (case member n (snd (space_add_member now n role db)) of
      Err e \<Rightarrow> Err e | Ok None \<Rightarrow> Err (SpMsg (''member '' @ n @ '' vanished'')) | Ok (Some m) \<Rightarrow> Ok m)"
    unfolding space_add_member_def Let_def snd_conv fst_conv by (rule refl)
  ultimately show ?thesis by simp
qed

lemma sample_created:
  assumes "sm_unavailable mgr = []" "sm_legacy mgr = None" "hget (sm_spaces mgr) ''s'' = None"
    "ss_ring (sm_stores mgr) = None" "ss_persistent (sm_stores mgr)" "hget (ss_descriptors (sm_stores mgr)) ''s'' = None"
    "db_messages (db_of (sm_stores mgr) ''s'') = []" "\<not> encryption_flag (db_of (sm_stores mgr) ''s'')"
    "members_ok (db_of (sm_stores mgr) ''s'')" "''s'' \<notin> set (ss_open (sm_stores mgr))"
  shows "\<exists>info mgr'. create_with_keys (sample_menv writes) ''s'' n d owner p default_key_options mgr
      = (if writes then Ok (info, None) else Err (SpStorage ''write''), mgr')
    \<and> (writes \<longrightarrow> hget (sm_spaces mgr') ''s'' = Some info)
    \<and> db_of (sm_stores mgr') ''s'' = snd (space_add_member 0 owner SrAdmin (db_of (sm_stores mgr) ''s''))
    \<and> sm_unavailable mgr' = [] \<and> sm_legacy mgr' = None \<and> ss_ring (sm_stores mgr') = None \<and> ss_persistent (sm_stores mgr')
    \<and> (\<not> writes \<longrightarrow> hget (sm_spaces mgr') ''s'' = None \<and> hget (ss_descriptors (sm_stores mgr')) ''s'' = None
        \<and> ''s'' \<notin> set (ss_open (sm_stores mgr')))"
proof -
  let ?ss = "sm_stores mgr"
  have g: "get_inner ''s'' True ?ss = (Ok (), open_new ''s'' ?ss)"
    by (rule plain_get) (use assms valid_s in \<open>auto simp: db_of_def split: option.splits\<close>)
  have d: "db_of (open_new ''s'' ?ss) ''s'' = db_of ?ss ''s''" by (simp add: open_new_def db_of_def hmem_def split: option.split)
  obtain m db where a: "space_add_member 0 owner SrAdmin (db_of ?ss ''s'') = (Ok m, db)"
    using add_owner_ok [OF assms(9)] by (metis is_ok_iff prod.collapse)
  show ?thesis
    using assms
    by (cases writes) (simp_all add: create_with_keys_def valid_s check_options_def default_key_options_def hmem_def sample_menv_def
        make_keys_def Let_def persist_space_def with_store_def stores_get_def g d a discard_in_ring_def stores_evict_def
        space_err_text_def, simp_all add: open_new_def set_db_def db_of_def)
qed

definition empty_manager :: space_manager where
  "empty_manager = open_with_stores_and_legacy (sample_menv True) ''d'' None plain_stores"

lemma empty_manager_simps:
  "sm_unavailable empty_manager = []" "sm_legacy empty_manager = None" "sm_spaces empty_manager = []" "sm_stores empty_manager = plain_stores"
  by (simp_all add: empty_manager_def open_with_stores_and_legacy_def plain_stores_def stores_open_def Let_def scan_def)

lemma empty_manager_ready:
  "ss_ring plain_stores = None" "ss_persistent plain_stores" "ss_descriptors plain_stores = []" "ss_open plain_stores = []"
  "db_of plain_stores sid = empty_db" "db_messages empty_db = []" "\<not> encryption_flag empty_db" "members_ok empty_db"
  by (simp_all add: plain_stores_def stores_open_def db_of_def empty_db_def encryption_flag_def members_ok_def)

theorem restart_restores_registry_witness:
  "\<exists>info. spaces_get (open_with_stores_and_legacy (sample_menv True) ''d'' None (reopened (sm_stores
      (spaces_run id [(sample_menv True, MoCreate ''s'' ''n'' [] ''o'' False default_key_options)] empty_manager)))) ''s'' = Ok info"
proof -
  let ?mgr = "spaces_run id [(sample_menv True, MoCreate ''s'' ''n'' [] ''o'' False default_key_options)] empty_manager"
  obtain info mgr' where c: "create_with_keys (sample_menv True) ''s'' ''n'' [] ''o'' False default_key_options empty_manager
      = (Ok (info, None), mgr')" "hget (sm_spaces mgr') ''s'' = Some info" "sm_unavailable mgr' = []"
    using sample_created [of empty_manager True "''n''" "[]" "''o''" False] by (auto simp: empty_manager_simps empty_manager_ready)
  have got: "spaces_get ?mgr ''s'' = Ok info" using c by (simp add: spaces_step_def spaces_get_def)
  let ?mgr0 = "spaces_run id [(sample_menv True, MoCreate ''s'' ''n'' [] ''o'' False default_key_options)]
    (open_with_stores_and_legacy (sample_menv True) ''d'' None plain_stores)"
  have same: "spaces_get (open_with_stores_and_legacy (sample_menv True) ''d'' None (reopened (sm_stores ?mgr0))) ''s''
      = spaces_get ?mgr0 ''s''"
    by (rule conjunct1 [OF restart_restores_registry [OF _ _ _ refl refl [of ?mgr0] refl]])
      (simp_all add: empty_manager_ready hmap_ok_def)
  show ?thesis by (rule exI, rule trans [OF same [folded empty_manager_def] got])
qed

text \<open>A create that fails at the descriptor leaves its database: its owner is an administrator of the space of the same id that
  somebody else creates later.\<close>

lemma failed_create_leaves_owner:
  "\<exists>mgr1 mgr2 info m. create_with_keys (sample_menv False) ''s'' ''n'' [] ''eve'' False default_key_options empty_manager
      = (Err (SpStorage ''write''), mgr1)
    \<and> create_with_keys (sample_menv True) ''s'' ''n'' [] ''bob'' False default_key_options mgr1 = (Ok (info, None), mgr2)
    \<and> member ''eve'' (db_of (sm_stores mgr2) ''s'') = Ok (Some m) \<and> sm_role m = SrAdmin"
proof -
  obtain mgr1 where c: "create_with_keys (sample_menv False) ''s'' ''n'' [] ''eve'' False default_key_options empty_manager
      = (Err (SpStorage ''write''), mgr1)" "db_of (sm_stores mgr1) ''s'' = snd (space_add_member 0 ''eve'' SrAdmin empty_db)"
    "sm_unavailable mgr1 = []" "sm_legacy mgr1 = None" "ss_ring (sm_stores mgr1) = None" "ss_persistent (sm_stores mgr1)"
    "hget (sm_spaces mgr1) ''s'' = None" "hget (ss_descriptors (sm_stores mgr1)) ''s'' = None" "''s'' \<notin> set (ss_open (sm_stores mgr1))"
    using sample_created [of empty_manager False "''n''" "[]" "''eve''" False] by (auto simp: empty_manager_simps empty_manager_ready)
  let ?db = "snd (space_add_member 0 ''eve'' SrAdmin empty_db)"
  have db: "?db = empty_db\<lparr> db_members := [\<lparr> mr_node_id = ''eve'', mr_role = ''admin'', mr_joined_at = 0 \<rparr>] \<rparr>"
    by (simp add: space_add_member_def Let_def is_member_row_def empty_db_def role_str_def)
  have ok: "db_messages ?db = []" "\<not> encryption_flag ?db" "members_ok ?db"
    unfolding db by (simp_all add: empty_db_def encryption_flag_def members_ok_def role_from_def)
  obtain info mgr2 where d: "create_with_keys (sample_menv True) ''s'' ''n'' [] ''bob'' False default_key_options mgr1 = (Ok (info, None), mgr2)"
    "db_of (sm_stores mgr2) ''s'' = snd (space_add_member 0 ''bob'' SrAdmin ?db)"
    using sample_created [of mgr1 True "''n''" "[]" "''bob''" False] c(3-9) ok by (auto simp: c(2))
  have "\<exists>m. member ''eve'' (db_of (sm_stores mgr2) ''s'') = Ok (Some m) \<and> sm_role m = SrAdmin"
    unfolding d(2) db by (simp add: space_add_member_def Let_def is_member_row_def member_def membership_of_def role_from_def role_str_def empty_db_def)
  then show ?thesis using c(1) d(1) by blast
qed

text \<open>A registry in memory where \<open>s\<close> lets \<open>t\<close> read it.\<close>

definition linked_row :: link_row where
  "linked_row = \<lparr> lk_id = ''l'', lk_resource_id = link_resource ''s'', lk_target_node = link_target ''t'', lk_permission = ''read'',
     lk_expires_at = None, lk_revoked = False, lk_created_at = 0, lk_namespace = None, lk_path_prefix = None \<rparr>"

definition info_of :: "string \<Rightarrow> space_info" where
  "info_of sid = \<lparr> nf_id = sid, nf_name = sid, nf_description = [], nf_owner_node = ''o'', nf_is_public = False, nf_created_at = 0,
     nf_namespace = namespace_for sid ''xavier'' ''default'', nf_storage_path = join_path ''d'' sid \<rparr>"

definition linked_manager :: space_manager where
  "linked_manager = (space_manager_new ''d'')\<lparr> sm_spaces := [(''s'', info_of ''s''), (''t'', info_of ''t'')],
     sm_stores := stores_in_memory\<lparr> ss_dbs := [(''s'', empty_db\<lparr> db_links := [linked_row] \<rparr>), (''t'', empty_db)],
       ss_open := [''s'', ''t''] \<rparr> \<rparr>"

theorem deleted_id_inherits_nothing_witness:
  "fst (visible_space_ids 0 linked_manager ''t'') = [''t'', ''s'']
   \<and> fst (visible_space_ids 0 (snd (spaces_delete (sample_menv True) ''t'' linked_manager)) ''t'') = [''t'']"
proof
  have g: "get_inner ''s'' True (sm_stores linked_manager) = (Ok (), sm_stores linked_manager)"
    by (simp add: get_inner_def valid_s ring_check_def linked_manager_def stores_in_memory_def)
  have l: "read_links (db_of (sm_stores linked_manager) ''s'') = [\<lparr> sl_grant = \<lparr> cg_id = ''l'', cg_resource_id = link_resource ''s'',
      cg_target_node = link_target ''t'', cg_permission = PmRead, cg_expires_at = None, cg_revoked = False, cg_created_at = 0 \<rparr>,
      sl_namespace = None, sl_path_prefix = None \<rparr>]"
    by (simp add: linked_manager_def db_of_def read_links_def linked_row_def link_of_row_def permission_from_def map_filter_simps)
  have "filter (\<lambda>i. i \<noteq> ''t'') (map nf_id (spaces_list linked_manager)) = [''s'']"
    by (simp add: spaces_list_def linked_manager_def info_of_def)
  then show "fst (visible_space_ids 0 linked_manager ''t'') = [''t'', ''s'']"
    using g l by (simp add: visible_space_ids_def inbound_links_def links_of_def stores_get_def grants_read_def grant_is_active_def)
  obtain mgr1 where d: "spaces_delete (sample_menv True) ''t'' linked_manager = (Ok (), mgr1)"
    by (simp add: spaces_delete_def valid_s linked_manager_def space_manager_new_def hmem_def sample_menv_def Let_def)
  obtain r mgr2 where c: "create_with_keys (sample_menv True) ''t'' [] [] ''o'' False default_key_options mgr1 = (r, mgr2)" by force
  have "\<forall>(k, i)\<in>set (sm_spaces linked_manager). nf_id i = k \<and> reachable_space (sm_stores linked_manager) k"
    by (simp add: linked_manager_def info_of_def reachable_space_def valid_s stores_in_memory_def)
  moreover have "stores_able (sm_stores linked_manager)" by (simp add: stores_able_def linked_manager_def stores_in_memory_def)
  ultimately show "fst (visible_space_ids 0 (snd (spaces_delete (sample_menv True) ''t'' linked_manager)) ''t'') = [''t'']"
    using deleted_id_inherits_nothing [OF _ _ d c] by (simp add: d)
qed

text \<open>The cap on members binds who is added by the registry, not who redeems an invitation.\<close>

lemma cap_binds_registry:
  assumes "capped_add now cap sid node role db = (Ok m, db')" "members_ok db"
  shows "is_member_row node db \<or> length (db_members db) < unat cap"
proof (cases "is_member_row node db")
  case False
  then have "member node db = Ok None"
    by (auto simp: member_def is_member_row_def list_ex_iff find_None_iff split: option.split dest!: find_SomeD)
  moreover have "members db = Ok ms \<Longrightarrow> length ms = length (db_members db)" for ms
  proof -
    have "collect_results rs = Ok out \<Longrightarrow> length out = length rs" for rs :: "(space_membership, space_err) result list" and out
      by (induction rs arbitrary: out) (auto simp: collect_results_Cons_Ok)
    then show "members db = Ok ms \<Longrightarrow> length ms = length (db_members db)" by (fastforce simp: members_def)
  qed
  ultimately show ?thesis using assms(1) by (auto simp: capped_add_def split: sum.splits if_splits)
qed simp

lemma redemption_ignores_cap:
  "fst (capped_add 0 1 ''s'' ''m'' SrReader (snd (insert_invite sample_invite sample_space))) = Err (SpMembersCap ''s'' 1)"
  "is_ok (fst (redeem_invite (\<lambda>b. b) sample_env ''i'' ''s'' ''m'' SrReader (snd (insert_invite sample_invite sample_space))))"
  by (simp add: capped_add_def insert_invite_def sample_space_def empty_db_def member_def members_def membership_of_def role_from_def)
    (rule sample_redeemed)

text \<open>A deletion whose move fails puts the space back, but not its key.\<close>

lemma failed_delete_forgets_key:
  assumes "spaces_delete env sid mgr = (Err e, mgr')" "hget (sm_spaces mgr) sid = Some info" "\<not> hmem (sm_unavailable mgr) sid"
    and "validate_space_id sid = Ok ()" "ss_ring (sm_stores mgr) = Some ring"
  shows "hget (sm_spaces mgr') sid = Some info
    \<and> ss_ring (sm_stores mgr') = Some (ring\<lparr> kr_state := hdel sid (kr_state ring) \<rparr>)"
  using assms by (auto simp: spaces_delete_def Let_def close_space_def stores_evict_def ring_forget_def split: if_splits)

text \<open>That an id was encrypted outlives its deletion: in a plain space created under it in the same process every
  message is refused.\<close>

lemma required_outlives_delete:
  assumes "spaces_delete env sid mgr = (Ok (), mgr1)" "ss_ring (sm_stores mgr) = Some ring" "is_required ring sid"
    "hkeys (hdel sid (sm_spaces mgr)) = []"
  shows "\<exists>ring1. ss_ring (sm_stores mgr1) = Some ring1 \<and> is_required ring1 sid"
  using assms by (auto simp: spaces_delete_def Let_def close_space_def stores_evict_def ring_forget_def take_away_def is_required_def
      split: sum.splits if_splits option.splits)

lemma plain_recreation_refused:
  assumes "is_required ring sid" "create_keys_with cr node renv sid mode password False ring = (Ok k, ring')"
  shows "fst (ring_record_key sid ring') = Err (SpKeys (KeCorrupt ''encryption flag contradicts space metadata''))"
  using assms by (auto simp: create_keys_with_def write_keystore_def ring_record_key_def ensure_loaded_def hmem_def is_required_def
      split: sum.splits if_splits option.splits)

end
