(* ===== verification/MarketConfig.thy ===== *)
theory MarketConfig
  imports Float64
begin

text \<open>The configuration of the market, \<open>src/crates/xavier-market/src/config.rs\<close>, and the errors of its store,
  \<open>error.rs\<close>. A configuration is read from a lookup of dotted keys. Decoding the text of a floating-point number
  is an argument; its value is \<open>None\<close> for text that is no number or not finite. Shown: every enumeration reads its
  own text back, and a configuration that was accepted is within its limits.\<close>

section \<open>Keys and limits\<close>

definition KEY_CURRENCY :: string where "KEY_CURRENCY = ''market.currency''"
definition KEY_SETTLEMENT :: string where "KEY_SETTLEMENT = ''market.settlement''"
definition KEY_LICENSES :: string where "KEY_LICENSES = ''market.licenses''"
definition KEY_LEGAL_TEXT_STATUS :: string where "KEY_LEGAL_TEXT_STATUS = ''market.legal_text_status''"
definition KEY_PRICE_FLOOR :: string where "KEY_PRICE_FLOOR = ''market.price_floor_credits''"
definition KEY_IVN_QUORUM_RATIO :: string where "KEY_IVN_QUORUM_RATIO = ''market.ivn.quorum_ratio''"
definition KEY_IVN_VALIDATORS_PER_REQUEST :: string where "KEY_IVN_VALIDATORS_PER_REQUEST = ''market.ivn.validators_per_request''"
definition KEY_GRANT_DEFAULT_TTL_SECONDS :: string where "KEY_GRANT_DEFAULT_TTL_SECONDS = ''market.grant_default_ttl_seconds''"
definition KEY_GRANT_MAX_TTL_SECONDS :: string where "KEY_GRANT_MAX_TTL_SECONDS = ''market.grant_max_ttl_seconds''"
definition KEY_ANCHOR_MODE :: string where "KEY_ANCHOR_MODE = ''market.anchor_mode''"

definition IVN_QUORUM_MIN_PERMILLE :: "32 word" where "IVN_QUORUM_MIN_PERMILLE = 500"
definition IVN_VALIDATORS_MAX :: "32 word" where "IVN_VALIDATORS_MAX = 25"
definition DEFAULT_GRANT_TTL_SECONDS :: "64 word" where "DEFAULT_GRANT_TTL_SECONDS = 86400"
definition DEFAULT_GRANT_MAX_TTL_SECONDS :: "64 word" where "DEFAULT_GRANT_MAX_TTL_SECONDS = 30 * 86400"

section \<open>Enumerations\<close>

datatype currency = InternalCredits | UsdPolar | SwalToken
datatype settlement_mode = OffChain | OnChain
datatype license = CcBy40 | CcByNc40 | SwalDataLicenseV0
datatype legal_status = LegalPlaceholder | LegalReviewed
datatype anchor_mode = DryRun | LiveAmoy

datatype config_error =
    UnknownValue string string | UnknownLicense string | NoLicenses | DuplicateLicense string
  | OnChainNotImplemented | SwalTokenNotEnabled | UsdRequiresReviewedTerms | LiveAmoyNotEnabled
  | OutOfRange string string

fun currency_str :: "currency \<Rightarrow> string" where
  "currency_str InternalCredits = ''internal_credits''"
| "currency_str UsdPolar = ''usd_polar''"
| "currency_str SwalToken = ''swal_token''"

definition currency_parse :: "string \<Rightarrow> (currency, config_error) result" where
  "currency_parse v = (let t = trim v in
     if t = ''internal_credits'' then Ok InternalCredits
     else if t = ''usd_polar'' then Ok UsdPolar
     else if t = ''swal_token'' then Ok SwalToken
     else Err (UnknownValue KEY_CURRENCY t))"

fun settlement_str :: "settlement_mode \<Rightarrow> string" where
  "settlement_str OffChain = ''off_chain''"
| "settlement_str OnChain = ''on_chain''"

definition settlement_parse :: "string \<Rightarrow> (settlement_mode, config_error) result" where
  "settlement_parse v = (let t = trim v in
     if t = ''off_chain'' then Ok OffChain
     else if t = ''on_chain'' then Ok OnChain
     else Err (UnknownValue KEY_SETTLEMENT t))"

definition license_menu :: "license list" where
  "license_menu = [CcBy40, CcByNc40, SwalDataLicenseV0]"

fun license_str :: "license \<Rightarrow> string" where
  "license_str CcBy40 = ''CC-BY-4.0''"
| "license_str CcByNc40 = ''CC-BY-NC-4.0''"
| "license_str SwalDataLicenseV0 = ''SWAL Data License v0''"

definition license_parse :: "string \<Rightarrow> (license, config_error) result" where
  "license_parse v = (let t = trim v in
     case List.find (\<lambda>l. license_str l = t) license_menu of
       Some l \<Rightarrow> Ok l
     | None \<Rightarrow> Err (UnknownLicense t))"

fun legal_status_str :: "legal_status \<Rightarrow> string" where
  "legal_status_str LegalPlaceholder = ''placeholder''"
| "legal_status_str LegalReviewed = ''reviewed''"

definition legal_status_parse :: "string \<Rightarrow> (legal_status, config_error) result" where
  "legal_status_parse v = (let t = trim v in
     if t = ''placeholder'' then Ok LegalPlaceholder
     else if t = ''reviewed'' then Ok LegalReviewed
     else Err (UnknownValue KEY_LEGAL_TEXT_STATUS t))"

fun anchor_mode_str :: "anchor_mode \<Rightarrow> string" where
  "anchor_mode_str DryRun = ''dry_run''"
| "anchor_mode_str LiveAmoy = ''live_amoy''"

definition anchor_mode_parse :: "string \<Rightarrow> (anchor_mode, config_error) result" where
  "anchor_mode_parse v = (let t = trim v in
     if t = ''dry_run'' then Ok DryRun
     else if t = ''live_amoy'' then Ok LiveAmoy
     else Err (UnknownValue KEY_ANCHOR_MODE t))"

section \<open>The configuration\<close>

record market_config =
  mc_currency :: currency
  mc_settlement :: settlement_mode
  mc_licenses :: "license list"
  mc_legal_text_status :: legal_status
  mc_price_floor_credits :: "64 word"
  mc_ivn_quorum_permille :: "32 word"
  mc_ivn_validators_per_request :: "32 word"
  mc_grant_default_ttl_seconds :: "64 word"
  mc_grant_max_ttl_seconds :: "64 word"
  mc_anchor_mode :: anchor_mode

definition market_config_default :: market_config where
  "market_config_default =
     \<lparr> mc_currency = InternalCredits, mc_settlement = OffChain, mc_licenses = license_menu,
       mc_legal_text_status = LegalPlaceholder, mc_price_floor_credits = 0, mc_ivn_quorum_permille = 800,
       mc_ivn_validators_per_request = 5, mc_grant_default_ttl_seconds = DEFAULT_GRANT_TTL_SECONDS,
       mc_grant_max_ttl_seconds = DEFAULT_GRANT_MAX_TTL_SECONDS, mc_anchor_mode = DryRun \<rparr>"

text \<open>\<open>str::parse\<close> for an unsigned type: an optional plus sign, then digits, refused when the value does not fit.\<close>

definition dec_digit :: "char \<Rightarrow> bool" where
  "dec_digit c = (48 \<le> (of_char c :: nat) \<and> (of_char c :: nat) \<le> 57)"

definition parse_unsigned :: "string \<Rightarrow> 'a::len word option" where
  "parse_unsigned s =
     (let ds = (case s of [] \<Rightarrow> [] | c # cs \<Rightarrow> if c = CHR ''+'' then cs else s) in
      if ds = [] \<or> \<not> list_all dec_digit ds then None
      else if dec_val ds < 2 ^ LENGTH('a) then Some (of_nat (dec_val ds)) else None)"

text \<open>\<open>f64::round\<close> of a number that is not negative rounds halves up, of a negative one halves down.\<close>

definition f64_round :: "rat \<Rightarrow> int" where
  "f64_round x = (if 0 \<le> x then \<lfloor>x + 1 / 2\<rfloor> else - \<lfloor>- x + 1 / 2\<rfloor>)"

definition parse_quorum_ratio :: "(string \<Rightarrow> rat option) \<Rightarrow> string \<Rightarrow> (32 word, config_error) result" where
  "parse_quorum_ratio parse_f64 v =
     (let t = trim v in
      case parse_f64 t of
        None \<Rightarrow> Err (UnknownValue KEY_IVN_QUORUM_RATIO t)
      | Some ratio \<Rightarrow>
          (let permille = f64_round (fmul ratio 1000) in
           if \<not> (uint IVN_QUORUM_MIN_PERMILLE \<le> permille \<and> permille \<le> 1000)
           then Err (OutOfRange KEY_IVN_QUORUM_RATIO t)
           else Ok (of_int permille)))"

fun duplicate_license :: "license list \<Rightarrow> license list \<Rightarrow> license option" where
  "duplicate_license seen [] = None"
| "duplicate_license seen (l # ls) = (if l \<in> set seen then Some l else duplicate_license (seen @ [l]) ls)"

definition validate_config :: "market_config \<Rightarrow> (unit, config_error) result" where
  "validate_config c =
     (if mc_settlement c = OnChain then Err OnChainNotImplemented
      else if mc_anchor_mode c = LiveAmoy then Err LiveAmoyNotEnabled
      else if mc_currency c = SwalToken then Err SwalTokenNotEnabled
      else if mc_currency c = UsdPolar \<and> mc_legal_text_status c \<noteq> LegalReviewed then Err UsdRequiresReviewedTerms
      else if mc_licenses c = [] then Err NoLicenses
      else case duplicate_license [] (mc_licenses c) of
        Some l \<Rightarrow> Err (DuplicateLicense (license_str l))
      | None \<Rightarrow>
          (if \<not> (IVN_QUORUM_MIN_PERMILLE \<le> mc_ivn_quorum_permille c \<and> mc_ivn_quorum_permille c \<le> 1000)
           then Err (OutOfRange KEY_IVN_QUORUM_RATIO (nat_dec (unat (mc_ivn_quorum_permille c))))
           else if \<not> (1 \<le> mc_ivn_validators_per_request c \<and> mc_ivn_validators_per_request c \<le> IVN_VALIDATORS_MAX)
           then Err (OutOfRange KEY_IVN_VALIDATORS_PER_REQUEST (nat_dec (unat (mc_ivn_validators_per_request c))))
           else if mc_grant_default_ttl_seconds c = 0
           then Err (OutOfRange KEY_GRANT_DEFAULT_TTL_SECONDS ''0'')
           else if mc_grant_max_ttl_seconds c = 0 \<or> mc_grant_max_ttl_seconds c < mc_grant_default_ttl_seconds c
           then Err (OutOfRange KEY_GRANT_MAX_TTL_SECONDS (nat_dec (unat (mc_grant_max_ttl_seconds c))))
           else Ok ()))"

text \<open>One key of \<open>from_lookup\<close>: absent keeps the default, a value that does not parse is an error.\<close>

definition read_key :: "(string \<Rightarrow> string option) \<Rightarrow> string \<Rightarrow> (string \<Rightarrow> ('v, config_error) result)
    \<Rightarrow> ('v \<Rightarrow> market_config \<Rightarrow> market_config) \<Rightarrow> (market_config, config_error) result
    \<Rightarrow> (market_config, config_error) result" where
  "read_key lookup key parse put r =
     (case r of
        Err e \<Rightarrow> Err e
      | Ok c \<Rightarrow> (case lookup key of
          None \<Rightarrow> Ok c
        | Some v \<Rightarrow> (case parse v of Err e \<Rightarrow> Err e | Ok x \<Rightarrow> Ok (put x c))))"

fun parse_all :: "(string \<Rightarrow> ('v, config_error) result) \<Rightarrow> string list \<Rightarrow> ('v list, config_error) result" where
  "parse_all parse [] = Ok []"
| "parse_all parse (s # ss) =
     (case parse s of
        Err e \<Rightarrow> Err e
      | Ok x \<Rightarrow> (case parse_all parse ss of Err e \<Rightarrow> Err e | Ok xs \<Rightarrow> Ok (x # xs)))"

definition parse_licenses :: "string \<Rightarrow> (license list, config_error) result" where
  "parse_licenses v = parse_all license_parse (filter (\<lambda>item. trim item \<noteq> []) (split_on CHR '','' v))"

definition parse_price_floor :: "string \<Rightarrow> (64 word, config_error) result" where
  "parse_price_floor v = (case parse_unsigned (trim v) of
     Some n \<Rightarrow> Ok n | None \<Rightarrow> Err (UnknownValue KEY_PRICE_FLOOR v))"

definition parse_count :: "string \<Rightarrow> string \<Rightarrow> ('a::len word, config_error) result" where
  "parse_count key v = (case parse_unsigned (trim v) of
     Some n \<Rightarrow> Ok n | None \<Rightarrow> Err (UnknownValue key (trim v)))"

definition config_from_lookup :: "(string \<Rightarrow> rat option) \<Rightarrow> (string \<Rightarrow> string option)
    \<Rightarrow> (market_config, config_error) result" where
  "config_from_lookup parse_f64 lookup =
     (let r0 = Ok market_config_default;
          r1 = read_key lookup KEY_CURRENCY currency_parse (\<lambda>x c. c\<lparr> mc_currency := x \<rparr>) r0;
          r2 = read_key lookup KEY_SETTLEMENT settlement_parse (\<lambda>x c. c\<lparr> mc_settlement := x \<rparr>) r1;
          r3 = read_key lookup KEY_LICENSES parse_licenses (\<lambda>x c. c\<lparr> mc_licenses := x \<rparr>) r2;
          r4 = read_key lookup KEY_LEGAL_TEXT_STATUS legal_status_parse (\<lambda>x c. c\<lparr> mc_legal_text_status := x \<rparr>) r3;
          r5 = read_key lookup KEY_PRICE_FLOOR parse_price_floor (\<lambda>x c. c\<lparr> mc_price_floor_credits := x \<rparr>) r4;
          r6 = read_key lookup KEY_IVN_QUORUM_RATIO (parse_quorum_ratio parse_f64)
                 (\<lambda>x c. c\<lparr> mc_ivn_quorum_permille := x \<rparr>) r5;
          r7 = read_key lookup KEY_IVN_VALIDATORS_PER_REQUEST (parse_count KEY_IVN_VALIDATORS_PER_REQUEST)
                 (\<lambda>x c. c\<lparr> mc_ivn_validators_per_request := x \<rparr>) r6;
          r8 = read_key lookup KEY_GRANT_DEFAULT_TTL_SECONDS (parse_count KEY_GRANT_DEFAULT_TTL_SECONDS)
                 (\<lambda>x c. c\<lparr> mc_grant_default_ttl_seconds := x \<rparr>) r7;
          r9 = read_key lookup KEY_GRANT_MAX_TTL_SECONDS (parse_count KEY_GRANT_MAX_TTL_SECONDS)
                 (\<lambda>x c. c\<lparr> mc_grant_max_ttl_seconds := x \<rparr>) r8;
          r10 = read_key lookup KEY_ANCHOR_MODE anchor_mode_parse (\<lambda>x c. c\<lparr> mc_anchor_mode := x \<rparr>) r9
      in case r10 of
           Err e \<Rightarrow> Err e
         | Ok c \<Rightarrow> (case validate_config c of Err e \<Rightarrow> Err e | Ok _ \<Rightarrow> Ok c))"

section \<open>Errors of the store\<close>

datatype audit_error = AeInvalidKind string | AeBroken int | AeSqlite | AeJson

datatype market_error =
    MeConfig config_error | MeInvalidInput string | MeLicenseNotEnabled string | MeListingNotFound string
  | MeListingRevoked string | MeIdentityRequestNotFound string | MeAccessGrantNotFound string
  | MeUnauthenticated string | MeForbidden string | MeConflict string | MeSchemaTooNew int
  | MeCorrupt string | MeSqlite | MeAudit audit_error

section \<open>What a configuration guarantees\<close>

lemma currency_roundtrip [simp]: "currency_parse (currency_str c) = Ok c"
  by (cases c; hypsubst_thin; code_simp)

lemma settlement_roundtrip [simp]: "settlement_parse (settlement_str c) = Ok c"
  by (cases c; hypsubst_thin; code_simp)

lemma license_roundtrip [simp]: "license_parse (license_str l) = Ok l"
  by (cases l; hypsubst_thin; code_simp)

lemma legal_status_roundtrip [simp]: "legal_status_parse (legal_status_str l) = Ok l"
  by (cases l; hypsubst_thin; code_simp)

lemma anchor_mode_roundtrip [simp]: "anchor_mode_parse (anchor_mode_str l) = Ok l"
  by (cases l; hypsubst_thin; code_simp)

lemma duplicate_license_None: "duplicate_license seen ls = None \<longleftrightarrow> distinct ls \<and> set ls \<inter> set seen = {}"
  by (induction ls arbitrary: seen) auto

definition config_in_limits :: "market_config \<Rightarrow> bool" where
  "config_in_limits c =
     (mc_settlement c = OffChain \<and> mc_anchor_mode c = DryRun \<and> mc_currency c \<noteq> SwalToken
      \<and> (mc_currency c = UsdPolar \<longrightarrow> mc_legal_text_status c = LegalReviewed)
      \<and> mc_licenses c \<noteq> [] \<and> distinct (mc_licenses c)
      \<and> 500 \<le> unat (mc_ivn_quorum_permille c) \<and> unat (mc_ivn_quorum_permille c) \<le> 1000
      \<and> 1 \<le> unat (mc_ivn_validators_per_request c) \<and> unat (mc_ivn_validators_per_request c) \<le> 25
      \<and> 0 < mc_grant_default_ttl_seconds c \<and> mc_grant_default_ttl_seconds c \<le> mc_grant_max_ttl_seconds c)"

lemma validate_config_iff: "validate_config c = Ok () \<longleftrightarrow> config_in_limits c"
proof -
  have off: "mc_settlement c \<noteq> OnChain \<longleftrightarrow> mc_settlement c = OffChain" by (cases "mc_settlement c") auto
  have dry: "mc_anchor_mode c \<noteq> LiveAmoy \<longleftrightarrow> mc_anchor_mode c = DryRun" by (cases "mc_anchor_mode c") auto
  have q: "IVN_QUORUM_MIN_PERMILLE \<le> w \<longleftrightarrow> 500 \<le> unat w" "w \<le> 1000 \<longleftrightarrow> unat w \<le> 1000"
      "1 \<le> w \<longleftrightarrow> 1 \<le> unat w" "w \<le> IVN_VALIDATORS_MAX \<longleftrightarrow> unat w \<le> 25" for w :: "32 word"
    by (auto simp: word_le_nat_alt IVN_QUORUM_MIN_PERMILLE_def IVN_VALIDATORS_MAX_def)
  have t: "\<not> (m = 0 \<or> m < d) \<longleftrightarrow> d \<le> m" if "d \<noteq> 0" for d m :: "64 word"
    using that by (metis not_less word_le_0_iff)
  show ?thesis
  proof (cases "duplicate_license [] (mc_licenses c)")
    case None
    then have "distinct (mc_licenses c)" by (simp add: duplicate_license_None)
    with None show ?thesis
      unfolding validate_config_def config_in_limits_def q
      by (cases "mc_grant_default_ttl_seconds c = 0") (auto simp: off dry t word_gt_0)
  next
    case (Some l)
    then have "\<not> distinct (mc_licenses c)" using duplicate_license_None [of "[]" "mc_licenses c"] by auto
    with Some show ?thesis by (auto simp: validate_config_def config_in_limits_def)
  qed
qed

lemma config_from_lookup_in_limits: "config_from_lookup p l = Ok c \<Longrightarrow> config_in_limits c"
  unfolding validate_config_iff [symmetric] config_from_lookup_def Let_def
  by (auto split: sum.splits)

lemma default_config_in_limits: "config_in_limits market_config_default"
  by (simp add: config_in_limits_def market_config_default_def license_menu_def DEFAULT_GRANT_TTL_SECONDS_def
      DEFAULT_GRANT_MAX_TTL_SECONDS_def)

lemma nothing_configured: "config_from_lookup p (\<lambda>_. None) = Ok market_config_default"
proof -
  have "validate_config market_config_default = Ok ()" using default_config_in_limits validate_config_iff by blast
  then show ?thesis by (simp add: config_from_lookup_def read_key_def)
qed

end
