(* ===== verification/MarketLedger.thy ===== *)
theory MarketLedger
  imports MarketConfig
begin

text \<open>The ledger of the market, \<open>src/crates/xavier-market/src/ledger.rs\<close>: balances in millionths of a credit, in a
  SQLite table whose column is a signed 64-bit integer that must not be negative. A stored value is an integer, or a
  floating-point number once a sum has left the range of the column, which cannot be read back as an integer; only
  amounts that are not negative are ever added to it, so its value does not matter. Shown: a sequence of credits and
  purchases refines accounts that are natural numbers, everything credited is held by an account or was taken as the
  share of the platform, and what happens to a balance beyond the range.\<close>

section \<open>The table\<close>

datatype cell = IntCell int | RealCell

type_synonym balances = "(string, cell) hmap"

definition i64_limit :: int where "i64_limit = 2 ^ 63 - 1"

datatype ledger_error =
    LeInsufficientBalance "64 word" "64 word"
  | LeSelfPurchase
  | LeInvalidSplit "32 word"
  | LeInvalidInput string
  | LeSqlite

record settlement =
  se_seller_micro :: "64 word"
  se_platform_micro :: "64 word"

definition MICRO_CREDITS_PER_CREDIT :: "64 word" where "MICRO_CREDITS_PER_CREDIT = 1000000"
definition MAX_SPLIT_BPS :: "32 word" where "MAX_SPLIT_BPS = 10000"

definition cell_add :: "cell \<Rightarrow> int \<Rightarrow> cell" where
  "cell_add c n = (case c of
     IntCell a \<Rightarrow> (if a + n \<le> i64_limit then IntCell (a + n) else RealCell)
   | RealCell \<Rightarrow> RealCell)"

text \<open>The insertion that adds to an existing row. The candidate row is checked before the conflict is found, so a
  negative amount is refused in either case.\<close>

definition upsert_balance :: "string \<Rightarrow> int \<Rightarrow> balances \<Rightarrow> balances option" where
  "upsert_balance account n db =
     (if n < 0 then None
      else Some (hput account (case hget db account of None \<Rightarrow> IntCell n | Some c \<Rightarrow> cell_add c n) db))"

text \<open>\<open>query_row\<close> of a balance, \<open>None\<close> when the value is no integer.\<close>

definition read_balance :: "balances \<Rightarrow> string \<Rightarrow> int option option" where
  "read_balance db account =
     (case hget db account of None \<Rightarrow> Some None | Some (IntCell n) \<Rightarrow> Some (Some n) | Some RealCell \<Rightarrow> None)"

definition debit_balance :: "string \<Rightarrow> int \<Rightarrow> balances \<Rightarrow> balances" where
  "debit_balance account n db =
     (case hget db account of Some (IntCell a) \<Rightarrow> hput account (IntCell (a - n)) db | _ \<Rightarrow> db)"

section \<open>Operations\<close>

definition check_account :: "string \<Rightarrow> (unit, ledger_error) result" where
  "check_account account =
     (if trim account = [] then Err (LeInvalidInput ''account cannot be blank'') else Ok ())"

definition ledger_credit :: "string \<Rightarrow> 64 word \<Rightarrow> balances \<Rightarrow> (unit, ledger_error) result \<times> balances" where
  "ledger_credit account micro db =
     (case check_account account of
        Err e \<Rightarrow> (Err e, db)
      | Ok _ \<Rightarrow> (case upsert_balance account (sint micro) db of
          None \<Rightarrow> (Err LeSqlite, db)
        | Some db' \<Rightarrow> (Ok (), db')))"

definition ledger_balance :: "string \<Rightarrow> balances \<Rightarrow> (64 word, ledger_error) result" where
  "ledger_balance account db =
     (case check_account account of
        Err e \<Rightarrow> Err e
      | Ok _ \<Rightarrow> (case read_balance db account of
          None \<Rightarrow> Err LeSqlite
        | Some micro \<Rightarrow> Ok (word_of_int (case micro of None \<Rightarrow> 0 | Some n \<Rightarrow> n))))"

definition platform_share :: "64 word \<Rightarrow> 32 word \<Rightarrow> 64 word" where
  "platform_share price_micro split_bps =
     ucast ((ucast price_micro * ucast split_bps :: 128 word) div 10000)"

definition ledger_purchase :: "string \<Rightarrow> string \<Rightarrow> 64 word \<Rightarrow> 32 word \<Rightarrow> balances
    \<Rightarrow> (settlement, ledger_error) result \<times> balances" where
  "ledger_purchase buyer seller price_micro split_bps db =
     (if buyer = seller then (Err LeSelfPurchase, db)
      else if MAX_SPLIT_BPS < split_bps then (Err (LeInvalidSplit split_bps), db)
      else case check_account buyer of Err e \<Rightarrow> (Err e, db) | Ok _ \<Rightarrow>
       (case check_account seller of Err e \<Rightarrow> (Err e, db) | Ok _ \<Rightarrow>
        (case read_balance db buyer of
           None \<Rightarrow> (Err LeSqlite, db)
         | Some b \<Rightarrow>
             (let buyer_bal = word_of_int (case b of None \<Rightarrow> 0 | Some n \<Rightarrow> n) in
              if buyer_bal < price_micro then (Err (LeInsufficientBalance price_micro buyer_bal), db)
              else let platform_micro = platform_share price_micro split_bps;
                       seller_micro = price_micro - platform_micro
                in case upsert_balance seller (sint seller_micro) (debit_balance buyer (sint price_micro) db) of
                     None \<Rightarrow> (Err LeSqlite, db)
                   | Some db' \<Rightarrow> (Ok \<lparr> se_seller_micro = seller_micro, se_platform_micro = platform_micro \<rparr>, db')))))"

section \<open>Runs\<close>

datatype ledger_op = LoCredit string "64 word" | LoPurchase string string "64 word" "32 word"

text \<open>The answer to an operation, the amount it brought in and the amount the platform took.\<close>

datatype ledger_answer = LaCredited "(unit, ledger_error) result" | LaBought "(settlement, ledger_error) result"

fun ledger_step :: "ledger_op \<Rightarrow> balances \<Rightarrow> ledger_answer \<times> balances" where
  "ledger_step (LoCredit a m) db = (case ledger_credit a m db of (r, db') \<Rightarrow> (LaCredited r, db'))"
| "ledger_step (LoPurchase b s p bps) db = (case ledger_purchase b s p bps db of (r, db') \<Rightarrow> (LaBought r, db'))"

fun ledger_run :: "ledger_op list \<Rightarrow> balances \<Rightarrow> ledger_answer list \<times> balances" where
  "ledger_run [] db = ([], db)"
| "ledger_run (x # xs) db =
     (case ledger_step x db of (r, db1) \<Rightarrow> (case ledger_run xs db1 of (rs, db2) \<Rightarrow> (r # rs, db2)))"

definition brought_in :: "ledger_op \<Rightarrow> nat" where
  "brought_in x = (case x of LoCredit a m \<Rightarrow> if trim a = [] then 0 else unat m | _ \<Rightarrow> 0)"

definition taken_by_platform :: "ledger_answer \<Rightarrow> nat" where
  "taken_by_platform r = (case r of LaBought (Inr s) \<Rightarrow> unat (se_platform_micro s) | _ \<Rightarrow> 0)"

section \<open>The accounts it promises\<close>

text \<open>Accounts are natural numbers, a credit adds, and a purchase moves the price less the share of the platform.\<close>

type_synonym accounts = "string \<Rightarrow> nat"

definition spec_credit :: "string \<Rightarrow> nat \<Rightarrow> accounts \<Rightarrow> (unit, ledger_error) result \<times> accounts" where
  "spec_credit a m f =
     (if trim a = [] then (Err (LeInvalidInput ''account cannot be blank''), f) else (Ok (), f(a := f a + m)))"

definition spec_purchase :: "string \<Rightarrow> string \<Rightarrow> nat \<Rightarrow> nat \<Rightarrow> accounts \<Rightarrow> (settlement, ledger_error) result \<times> accounts" where
  "spec_purchase b s p bps f =
     (if b = s then (Err LeSelfPurchase, f)
      else if 10000 < bps then (Err (LeInvalidSplit (of_nat bps)), f)
      else if trim b = [] \<or> trim s = [] then (Err (LeInvalidInput ''account cannot be blank''), f)
      else if f b < p then (Err (LeInsufficientBalance (of_nat p) (of_nat (f b))), f)
      else let fee = p * bps div 10000
        in (Ok \<lparr> se_seller_micro = of_nat (p - fee), se_platform_micro = of_nat fee \<rparr>,
            f(b := f b - p, s := f s + (p - fee))))"

fun spec_step :: "ledger_op \<Rightarrow> accounts \<Rightarrow> ledger_answer \<times> accounts" where
  "spec_step (LoCredit a m) f = (case spec_credit a (unat m) f of (r, f') \<Rightarrow> (LaCredited r, f'))"
| "spec_step (LoPurchase b s p bps) f = (case spec_purchase b s (unat p) (unat bps) f of (r, f') \<Rightarrow> (LaBought r, f'))"

fun spec_run :: "ledger_op list \<Rightarrow> accounts \<Rightarrow> ledger_answer list \<times> accounts" where
  "spec_run [] f = ([], f)"
| "spec_run (x # xs) f =
     (case spec_step x f of (r, f1) \<Rightarrow> (case spec_run xs f1 of (rs, f2) \<Rightarrow> (r # rs, f2)))"

definition account_of :: "balances \<Rightarrow> accounts" where
  "account_of db a = (case hget db a of Some (IntCell n) \<Rightarrow> nat n | _ \<Rightarrow> 0)"

definition cell_amount :: "cell \<Rightarrow> nat" where
  "cell_amount c = (case c of IntCell n \<Rightarrow> nat n | RealCell \<Rightarrow> 0)"

definition held :: "balances \<Rightarrow> nat" where
  "held db = sum_list (map (\<lambda>(a, c). cell_amount c) db)"

text \<open>Every stored value is an integer that is not negative.\<close>

definition cells_ok :: "balances \<Rightarrow> bool" where
  "cells_ok db = list_all (\<lambda>(a, c). case c of IntCell n \<Rightarrow> 0 \<le> n | RealCell \<Rightarrow> False) db"

section \<open>Amounts and cells\<close>

lemma sint_small:
  assumes "unat (m :: 64 word) < 2 ^ 63"
  shows "sint m = int (unat m)"
proof -
  have "uint m < 2 ^ 63" using assms by (metis of_nat_less_iff of_nat_numeral of_nat_power uint_nat)
  then have "signed_take_bit 63 (uint m) = uint m" by (intro signed_take_bit_int_eq_self) (simp_all add: order_trans [of _ 0])
  then show ?thesis by (simp add: sint_uint)
qed

lemma unat_platform_share:
  assumes "unat bps \<le> 10000"
  shows "unat (platform_share p bps) = unat p * unat bps div 10000" "unat p * unat bps div 10000 \<le> unat p"
proof -
  show le: "unat p * unat bps div 10000 \<le> unat p"
    using div_le_mono [OF mult_le_mono2 [OF assms, of "unat p"], of 10000] by simp
  have "unat p * unat bps < 2 ^ 64 * 2 ^ 32"
    using unsigned_less [of p] unsigned_less [of bps] by (intro mult_strict_mono) simp_all
  moreover have "unat p < 2 ^ 128" "unat bps < 2 ^ 128"
    by (rule order.strict_trans2 [OF unsigned_less], simp)+
  then have "take_bit 128 (unat p) = unat p" "take_bit 128 (unat bps) = unat bps"
    by (simp_all add: take_bit_nat_eq_self)
  ultimately have "unat (ucast p * ucast bps :: 128 word) = unat p * unat bps"
    by (simp add: unat_mult_lem [symmetric] unat_word_ariths unsigned_ucast_eq take_bit_nat_eq_self)
  then have "unat ((ucast p * ucast bps :: 128 word) div 10000) = unat p * unat bps div 10000"
    by (simp add: unat_div)
  moreover have "unat p * unat bps div 10000 < 2 ^ 64" 
    by (rule order.strict_trans1 [OF le]) (rule order.strict_trans2 [OF unsigned_less], simp)
  ultimately show "unat (platform_share p bps) = unat p * unat bps div 10000"
    by (simp add: platform_share_def unsigned_ucast_eq take_bit_nat_eq_self)
qed

lemma cells_ok_hget:
  "cells_ok db \<Longrightarrow> hget db a = Some c \<Longrightarrow> \<exists>n. c = IntCell (int n) \<and> account_of db a = n \<and> n \<le> held db"
  unfolding cells_ok_def held_def account_of_def
proof (induction db)
  case (Cons p db)
  then show ?case by (cases p; cases "snd p") (auto simp: cell_amount_def split: if_splits dest: nonneg_int_cases elim!: nonneg_int_cases)
qed simp

lemma account_le_held: "cells_ok db \<Longrightarrow> account_of db a \<le> held db"
proof (cases "hget db a")
  case None
  then show ?thesis by (simp add: account_of_def)
next
  case (Some c)
  assume "cells_ok db"
  then show ?thesis using cells_ok_hget [OF _ Some] by auto
qed

lemma cells_ok_hput: "cells_ok db \<Longrightarrow> cells_ok (hput a (IntCell (int n)) db)"
  unfolding cells_ok_def by (induction db) auto

lemma held_hput: "cells_ok db \<Longrightarrow> held (hput a (IntCell (int n)) db) + account_of db a = held db + n"
  unfolding cells_ok_def held_def account_of_def
  by (induction db) (auto simp: cell_amount_def split: cell.splits)

lemma account_of_hput: "account_of (hput a (IntCell (int n)) db) = (account_of db)(a := n)"
  by (auto simp: account_of_def fun_eq_iff)

lemma read_balance_ok:
  "cells_ok db \<Longrightarrow> \<exists>b. read_balance db a = Some b \<and> (case b of None \<Rightarrow> 0 | Some n \<Rightarrow> n) = int (account_of db a)"
proof (cases "hget db a")
  case None
  then show ?thesis by (simp add: read_balance_def account_of_def)
next
  case (Some c)
  assume "cells_ok db"
  then obtain k where "c = IntCell (int k)" "account_of db a = k" using cells_ok_hget [OF _ Some] by blast
  then show ?thesis using Some by (simp add: read_balance_def)
qed

lemma upsert_ok:
  assumes "cells_ok db" and "account_of db a + n < 2 ^ 63"
  shows "\<exists>db'. upsert_balance a (int n) db = Some db' \<and> cells_ok db' \<and> held db' = held db + n
           \<and> account_of db' = (account_of db)(a := account_of db a + n)"
proof -
  let ?db' = "hput a (IntCell (int (account_of db a + n))) db"
  have "upsert_balance a (int n) db = Some ?db'"
  proof (cases "hget db a")
    case None
    then show ?thesis by (simp add: upsert_balance_def account_of_def)
  next
    case (Some c)
    then obtain k where "c = IntCell (int k)" "account_of db a = k" using cells_ok_hget [OF assms(1)] by blast
    then show ?thesis using Some assms(2) by (simp add: upsert_balance_def cell_add_def i64_limit_def)
  qed
  then show ?thesis
    using cells_ok_hput [OF assms(1), of a "account_of db a + n"] held_hput [OF assms(1), of a "account_of db a + n"]
      account_of_hput [of a "account_of db a + n"] by auto
qed

lemma debit_ok:
  assumes "cells_ok db" and "n \<le> account_of db a"
  shows "cells_ok (debit_balance a (int n) db)" "held (debit_balance a (int n) db) + n = held db"
        "account_of (debit_balance a (int n) db) = (account_of db)(a := account_of db a - n)"
proof -
  have "cells_ok (debit_balance a (int n) db) \<and> held (debit_balance a (int n) db) + n = held db
      \<and> account_of (debit_balance a (int n) db) = (account_of db)(a := account_of db a - n)"
  proof (cases "hget db a")
    case None
    then show ?thesis using assms by (auto simp: debit_balance_def account_of_def)
  next
    case (Some c)
    then obtain k where k: "c = IntCell (int k)" "account_of db a = k" using cells_ok_hget [OF assms(1)] by blast
    then have d: "debit_balance a (int n) db = hput a (IntCell (int (k - n))) db"
      using Some assms(2) by (simp add: debit_balance_def of_nat_diff)
    show ?thesis
      unfolding d using cells_ok_hput [OF assms(1), of a "k - n"] held_hput [OF assms(1), of a "k - n"]
        account_of_hput [of a "k - n" db] k(2) assms(2) by (intro conjI; linarith?; simp)
  qed
  then show "cells_ok (debit_balance a (int n) db)" "held (debit_balance a (int n) db) + n = held db"
    "account_of (debit_balance a (int n) db) = (account_of db)(a := account_of db a - n)" by auto
qed

section \<open>The ledger keeps the accounts\<close>

lemma credit_step:
  assumes "cells_ok db" and "held db + brought_in (LoCredit a m) < 2 ^ 63"
  shows "\<exists>r db'. ledger_credit a m db = (r, db') \<and> spec_credit a (unat m) (account_of db) = (r, account_of db')
           \<and> cells_ok db' \<and> held db' = held db + brought_in (LoCredit a m)"
proof (cases "trim a = []")
  case True
  then show ?thesis using assms by (simp add: ledger_credit_def spec_credit_def check_account_def brought_in_def)
next
  case False
  then have b: "held db + unat m < 2 ^ 63" using assms(2) by (simp add: brought_in_def)
  have "account_of db a + unat m < 2 ^ 63" using account_le_held [OF assms(1), of a] b by simp
  from upsert_ok [OF assms(1) this] obtain db' where
    db': "upsert_balance a (int (unat m)) db = Some db'" "cells_ok db'" "held db' = held db + unat m"
         "account_of db' = (account_of db)(a := account_of db a + unat m)" by auto
  have s: "sint m = int (unat m)" by (rule sint_small) (use b in simp)
  have c: "ledger_credit a m db = (Ok (), db')" unfolding ledger_credit_def s using False db'(1) by (simp add: check_account_def)
  have sp: "spec_credit a (unat m) (account_of db) = (Ok (), account_of db')" using False db'(4) by (simp add: spec_credit_def)
  show ?thesis using c sp db'(2,3) False by (simp add: brought_in_def)
qed

lemma purchase_step:
  assumes "cells_ok db" and "held db < 2 ^ 63"
  shows "\<exists>r db'. ledger_purchase b s p bps db = (r, db')
           \<and> spec_purchase b s (unat p) (unat bps) (account_of db) = (r, account_of db')
           \<and> cells_ok db' \<and> held db' + taken_by_platform (LaBought r) = held db"
proof -
  have split: "MAX_SPLIT_BPS < bps \<longleftrightarrow> 10000 < unat bps" by (simp add: MAX_SPLIT_BPS_def word_less_nat_alt)
  have lt: "(of_nat (account_of db b) :: 64 word) < p \<longleftrightarrow> account_of db b < unat p"
    using account_le_held [OF assms(1), of b] assms(2) by (simp add: word_less_nat_alt unat_of_nat)
  have bal: "account_of db b < 2 ^ 63" using account_le_held [OF assms(1), of b] assms(2) by simp
  then have ub: "unat (of_nat (account_of db b) :: 64 word) = account_of db b" by (simp add: unat_of_nat)
  obtain rb where rb: "read_balance db b = Some rb" "(case rb of None \<Rightarrow> 0 | Some n \<Rightarrow> n) = int (account_of db b)"
    using read_balance_ok [OF assms(1)] by blast
  consider "b = s \<or> 10000 < unat bps \<or> trim b = [] \<or> trim s = [] \<or> account_of db b < unat p"
    | "b \<noteq> s" "unat bps \<le> 10000" "trim b \<noteq> []" "trim s \<noteq> []" "unat p \<le> account_of db b" by force
  then show ?thesis
  proof cases
    case 1
    then show ?thesis using assms rb
      by (auto simp: ledger_purchase_def spec_purchase_def check_account_def split taken_by_platform_def lt)
  next
    case 2
    let ?fee = "unat p * unat bps div 10000"
    note fee = unat_platform_share [OF 2(2), of p]
    have le: "platform_share p bps \<le> p" using fee by (simp add: word_le_nat_alt)
    then have sm: "unat (p - platform_share p bps) = unat p - ?fee" using fee(1) by (simp add: unat_sub)
    have sp: "sint p = int (unat p)" by (rule sint_small) (use 2(5) bal in simp)
    have ss: "sint (p - platform_share p bps) = int (unat p - ?fee)"
      using sint_small [of "p - platform_share p bps"] sm 2(5) bal by simp
    let ?d = "debit_balance b (int (unat p)) db"
    note d = debit_ok [OF assms(1) 2(5)]
    have "account_of ?d s + (unat p - ?fee) < 2 ^ 63"
      using account_le_held [OF d(1), of s] d(2) assms(2) by simp
    from upsert_ok [OF d(1) this] obtain db' where
      db': "upsert_balance s (int (unat p - ?fee)) ?d = Some db'" "cells_ok db'" "held db' = held ?d + (unat p - ?fee)"
           "account_of db' = (account_of ?d)(s := account_of ?d s + (unat p - ?fee))" by auto
    have words: "of_nat (unat p - ?fee) = p - platform_share p bps" "of_nat ?fee = platform_share p bps"
      by (metis sm of_nat_unat ucast_id, metis fee(1) of_nat_unat ucast_id)
    have nl: "\<not> (of_nat (account_of db b) :: 64 word) < p" using 2(5) by (simp add: word_less_nat_alt ub)
    let ?r = "Ok \<lparr> se_seller_micro = p - platform_share p bps, se_platform_micro = platform_share p bps \<rparr>"
    have "ledger_purchase b s p bps db = (?r, db')"
      using 2 rb db'(1) nl by (simp add: ledger_purchase_def split check_account_def sp ss Let_def)
    moreover have "spec_purchase b s (unat p) (unat bps) (account_of db) = (?r, account_of db')"
      using 2 db'(4) d(3) words by (auto simp: spec_purchase_def Let_def)
    moreover have "held db' + taken_by_platform (LaBought ?r) = held db"
      using db'(3) d(2) fee by (simp add: taken_by_platform_def)
    ultimately show ?thesis using db'(2) by blast
  qed
qed

section \<open>Sequences of operations\<close>

definition total_brought_in :: "ledger_op list \<Rightarrow> nat" where
  "total_brought_in ops = sum_list (map brought_in ops)"

lemma ledger_step_refines:
  assumes "cells_ok db" and "held db + brought_in x < 2 ^ 63"
  shows "\<exists>r db'. ledger_step x db = (r, db') \<and> spec_step x (account_of db) = (r, account_of db')
           \<and> cells_ok db' \<and> held db' + taken_by_platform r = held db + brought_in x"
proof (cases x)
  case (LoCredit a m)
  then show ?thesis using credit_step [OF assms(1), of a m] assms(2) by (auto simp: taken_by_platform_def)
next
  case (LoPurchase b s p bps)
  then show ?thesis using purchase_step [OF assms(1), of b s p bps] assms(2) by (auto simp: brought_in_def)
qed

lemma ledger_run_refines:
  "cells_ok db \<Longrightarrow> held db + total_brought_in ops < 2 ^ 63
   \<Longrightarrow> \<exists>rs db'. ledger_run ops db = (rs, db') \<and> spec_run ops (account_of db) = (rs, account_of db')
        \<and> cells_ok db' \<and> held db' + sum_list (map taken_by_platform rs) = held db + total_brought_in ops"
proof (induction ops arbitrary: db)
  case Nil
  then show ?case by (simp add: total_brought_in_def)
next
  case (Cons x xs)
  have total: "total_brought_in (x # xs) = brought_in x + total_brought_in xs" by (simp add: total_brought_in_def)
  then have "held db + brought_in x < 2 ^ 63" using Cons.prems(2) by simp
  from ledger_step_refines [OF Cons.prems(1) this] obtain r db1 where
    1: "ledger_step x db = (r, db1)" "spec_step x (account_of db) = (r, account_of db1)" "cells_ok db1"
       "held db1 + taken_by_platform r = held db + brought_in x" by blast
  have "held db1 + total_brought_in xs < 2 ^ 63" using 1(4) Cons.prems(2) total by simp
  from Cons.IH [OF 1(3) this] obtain rs db2 where
    2: "ledger_run xs db1 = (rs, db2)" "spec_run xs (account_of db1) = (rs, account_of db2)" "cells_ok db2"
       "held db2 + sum_list (map taken_by_platform rs) = held db1 + total_brought_in xs" by blast
  show ?case using 1 2 total by simp
qed

lemma read_account:
  assumes "cells_ok db" and "held db < 2 ^ 63" and "trim a \<noteq> []"
  shows "ledger_balance a db = Ok (of_nat (account_of db a))"
proof -
  obtain b where "read_balance db a = Some b" "(case b of None \<Rightarrow> 0 | Some n \<Rightarrow> n) = int (account_of db a)"
    using read_balance_ok [OF assms(1)] by blast
  then show ?thesis using assms(3) by (simp add: ledger_balance_def check_account_def)
qed

text \<open>C9: As long as less than \<open>2 ^ 63\<close> millionths were brought in, the ledger behaves like accounts of natural numbers: any
  sequence of credits and purchases, from an empty table, gives the answers of the accounts, the refusals included, and
  afterwards the balance of every account reads as the number the accounts hold.\<close>

theorem ledger_refines_accounts:
  assumes "total_brought_in ops < 2 ^ 63" and "ledger_run ops [] = (rs, db)" and "spec_run ops (\<lambda>_. 0) = (rs', f)"
  shows "rs = rs' \<and> (\<forall>a. trim a \<noteq> [] \<longrightarrow> ledger_balance a db = Ok (of_nat (f a)) \<and> f a < 2 ^ 63)"
proof -
  have none: "cells_ok []" "held [] = 0" "account_of [] = (\<lambda>_. 0)"
    by (auto simp: cells_ok_def held_def account_of_def)
  have run: "ledger_run ops [] = (rs, db) \<and> rs = rs' \<and> f = account_of db \<and> cells_ok db \<and> held db < 2 ^ 63"
    using ledger_run_refines [OF none(1), of ops] assms none by auto
  then show ?thesis using read_account [of db] account_le_held [of db] by (auto intro: le_less_trans)
qed

definition sample_ledger_ops :: "ledger_op list" where
  "sample_ledger_ops = [LoCredit ''b'' 1000, LoPurchase ''b'' ''s'' 1000 1000, LoPurchase ''b'' ''s'' 1 0]"

lemma sample_ledger_spec:
  "spec_run sample_ledger_ops (\<lambda>_. 0) =
     ([LaCredited (Ok ()), LaBought (Ok \<lparr> se_seller_micro = 900, se_platform_micro = 100 \<rparr>),
       LaBought (Err (LeInsufficientBalance 1 0))], (\<lambda>_. 0)(''s'' := 900))"
  by (simp add: sample_ledger_ops_def spec_credit_def spec_purchase_def trim_def ascii_space_def fun_eq_iff)

lemma sample_ledger_total: "total_brought_in sample_ledger_ops = 1000"
  by (simp add: sample_ledger_ops_def total_brought_in_def brought_in_def trim_def ascii_space_def)

theorem ledger_refines_accounts_witness:
  "ledger_balance ''s'' (snd (ledger_run sample_ledger_ops [])) = Ok 900"
proof -
  obtain rs db where r: "ledger_run sample_ledger_ops [] = (rs, db)" by force
  show ?thesis
    using ledger_refines_accounts [OF _ r sample_ledger_spec] sample_ledger_total r
    by (auto simp: trim_def ascii_space_def dest!: spec [of _ "''s''"])
qed

text \<open>C16: Everything brought in is accounted for: as long as less than \<open>2 ^ 63\<close> millionths were brought in, the balances
  of all accounts and the shares the platform took add up to exactly that amount, and every balance is an
  integer that is not negative.\<close>

theorem ledger_accounts_for_everything:
  assumes "total_brought_in ops < 2 ^ 63" and "ledger_run ops [] = (rs, db)"
  shows "held db + sum_list (map taken_by_platform rs) = total_brought_in ops \<and> cells_ok db"
proof -
  have "cells_ok []" "held [] = 0" by (auto simp: cells_ok_def held_def)
  then show ?thesis using ledger_run_refines [of "[]" ops] assms by auto
qed

theorem ledger_accounts_for_everything_witness:
  "held (snd (ledger_run sample_ledger_ops [])) + sum_list (map taken_by_platform (fst (ledger_run sample_ledger_ops []))) = 1000"
proof -
  obtain rs db where r: "ledger_run sample_ledger_ops [] = (rs, db)" by force
  show ?thesis using ledger_accounts_for_everything [OF _ r] sample_ledger_total r by simp
qed

text \<open>The share of the platform belongs to no account: a purchase takes it out of the ledger.\<close>

lemma platform_share_leaves_ledger:
  "ledger_purchase ''b'' ''s'' 1000 1000 [(''b'', IntCell 1000)]
   = (Ok \<lparr> se_seller_micro = 900, se_platform_micro = 100 \<rparr>, [(''b'', IntCell 0), (''s'', IntCell 900)])"
  by (simp add: ledger_purchase_def MAX_SPLIT_BPS_def check_account_def trim_def ascii_space_def read_balance_def
      platform_share_def Let_def debit_balance_def upsert_balance_def)

text \<open>A credit that leaves the range of the column is accepted, and afterwards the account can neither be read nor
  spend; an amount of \<open>2 ^ 63\<close> or more at once is refused.\<close>

lemma overflowing_credit_locks_account:
  "ledger_credit ''a'' 1 [(''a'', IntCell (2 ^ 63 - 1))] = (Ok (), [(''a'', RealCell)])"
  "ledger_balance ''a'' [(''a'', RealCell)] = Err LeSqlite"
  "ledger_purchase ''a'' ''s'' p 0 [(''a'', RealCell)] = (Err LeSqlite, [(''a'', RealCell)])"
  by (simp_all add: ledger_credit_def check_account_def trim_def ascii_space_def upsert_balance_def cell_add_def
      i64_limit_def ledger_balance_def read_balance_def ledger_purchase_def MAX_SPLIT_BPS_def)

lemma huge_credit_refused: "trim a \<noteq> [] \<Longrightarrow> ledger_credit a (2 ^ 63) db = (Err LeSqlite, db)"
  by (simp add: ledger_credit_def check_account_def upsert_balance_def)

end
