(* ===== verification/AuditChain.thy ===== *)
theory AuditChain
  imports MarketConfig TextCodes
begin

text \<open>The audit log of the market, \<open>src/crates/xavier-market/src/audit_chain.rs\<close>: rows that each carry the hash of the
  row before. The hexadecimal SHA-256 of a text and the printing of a JSON value are arguments. The table is the list
  of its rows, read in the order of the sequence number. The connection is public, so any table may be put to
  \<open>verify\<close>. Shown: appended entries verify, the hash of the newest row determines the whole log, and a log that lost
  its newest rows still verifies.\<close>

record audit_record =
  ar_seq :: int
  ar_prev_hash :: string
  ar_entry_json :: string
  ar_hash :: string

type_synonym audit_log = "audit_record list"

definition GENESIS_HASH :: string where "GENESIS_HASH = replicate 64 CHR ''0''"

definition ENTRY_KINDS :: "string list" where "ENTRY_KINDS = [''grant'', ''purchase'', ''receipt'']"

text \<open>64-bit addition of one.\<close>

definition next_i64 :: "int \<Rightarrow> int" where
  "next_i64 n = sint (word_of_int (n + 1) :: 64 word)"

definition chain_text :: "string \<Rightarrow> int \<Rightarrow> string \<Rightarrow> string" where
  "chain_text prev seq entry = prev @ CHR ''|'' # int_dec seq @ CHR ''|'' # entry"

definition audit_records :: "audit_log \<Rightarrow> audit_log" where
  "audit_records db = sort_key ar_seq db"

text \<open>The newest row: \<open>ORDER BY seq DESC LIMIT 1\<close>.\<close>

definition newest_record :: "audit_log \<Rightarrow> audit_record option" where
  "newest_record db = (if db = [] then None else Some (last (audit_records db)))"

definition audit_append :: "(string \<Rightarrow> string) \<Rightarrow> (json \<Rightarrow> string) \<Rightarrow> string \<Rightarrow> json \<Rightarrow> audit_log
    \<Rightarrow> (audit_record, audit_error) result \<times> audit_log" where
  "audit_append hash_hex to_text kind entry db =
     (if kind \<notin> set ENTRY_KINDS then (Err (AeInvalidKind kind), db)
      else let entry_json = to_text (JObj [(''entry'', entry), (''kind'', JStr kind)]);
               (p_seq, p_hash) = (case newest_record db of None \<Rightarrow> (0, GENESIS_HASH) | Some r \<Rightarrow> (ar_seq r, ar_hash r));
               seq = next_i64 p_seq;
               r = \<lparr> ar_seq = seq, ar_prev_hash = p_hash, ar_entry_json = entry_json,
                     ar_hash = hash_hex (chain_text p_hash seq entry_json) \<rparr>
        in if list_ex (\<lambda>x. ar_seq x = seq) db then (Err AeSqlite, db) else (Ok r, db @ [r]))"

fun verify_records :: "(string \<Rightarrow> string) \<Rightarrow> string \<Rightarrow> audit_log \<Rightarrow> (unit, audit_error) result" where
  "verify_records hash_hex expected_prev [] = Ok ()"
| "verify_records hash_hex expected_prev (r # rs) =
     (if ar_prev_hash r \<noteq> expected_prev then Err (AeBroken (ar_seq r))
      else if ar_hash r \<noteq> hash_hex (chain_text (ar_prev_hash r) (ar_seq r) (ar_entry_json r)) then Err (AeBroken (ar_seq r))
      else verify_records hash_hex (ar_hash r) rs)"

definition audit_verify :: "(string \<Rightarrow> string) \<Rightarrow> audit_log \<Rightarrow> (nat, audit_error) result" where
  "audit_verify hash_hex db =
     (case verify_records hash_hex GENESIS_HASH (audit_records db) of
        Err e \<Rightarrow> Err e
      | Ok _ \<Rightarrow> Ok (length (audit_records db)))"

section \<open>Appending\<close>

text \<open>What is relied on of the hash: it is written in hexadecimal, so that the mark between the parts of a hashed text is
  not in it.\<close>

definition digest_ok :: "(string \<Rightarrow> string) \<Rightarrow> bool" where
  "digest_ok hash_hex = (\<forall>t. CHR ''|'' \<notin> set (hash_hex t))"

definition newest_hash :: "audit_log \<Rightarrow> string" where
  "newest_hash db = (case newest_record db of None \<Rightarrow> GENESIS_HASH | Some r \<Rightarrow> ar_hash r)"

definition append_all :: "(string \<Rightarrow> string) \<Rightarrow> (json \<Rightarrow> string) \<Rightarrow> (string \<times> json) list \<Rightarrow> audit_log \<Rightarrow> audit_log" where
  "append_all hash_hex to_text entries db =
     foldl (\<lambda>d (kind, entry). snd (audit_append hash_hex to_text kind entry d)) db entries"

text \<open>The log as the code builds it: rows in the order of their numbers, which count up from one.\<close>

definition counted_rows :: "audit_log \<Rightarrow> bool" where
  "counted_rows db = (map ar_seq db = map int [1..<Suc (length db)])"

lemma counted_sorted: "counted_rows db \<Longrightarrow> audit_records db = db"
proof -
  assume "counted_rows db"
  then have "sorted (map ar_seq db)" by (simp add: counted_rows_def sorted_map sorted_wrt_upt del: upt_Suc)
  then show ?thesis by (simp add: audit_records_def sort_key_id)
qed

fun end_hash :: "string \<Rightarrow> audit_log \<Rightarrow> string" where
  "end_hash p [] = p"
| "end_hash p (r # rs) = end_hash (ar_hash r) rs"

lemma end_hash_snoc [simp]: "end_hash p (rs @ [r]) = ar_hash r"
  by (induction rs arbitrary: p) auto

lemma verify_records_snoc:
  "verify_records h p (rs @ [r]) = Ok () \<longleftrightarrow> verify_records h p rs = Ok () \<and> ar_prev_hash r = end_hash p rs
     \<and> ar_hash r = h (chain_text (ar_prev_hash r) (ar_seq r) (ar_entry_json r))"
  by (induction rs arbitrary: p) auto

lemma verify_records_append:
  "verify_records h p (rs @ ss) = Ok () \<Longrightarrow> verify_records h p rs = Ok ()"
  by (induction rs arbitrary: p) (auto split: if_splits)

lemma audit_verify_iff:
  "audit_verify h db = Ok n \<longleftrightarrow> verify_records h GENESIS_HASH (audit_records db) = Ok () \<and> n = length db"
  by (auto simp: audit_verify_def audit_records_def split: sum.splits)

lemma newest_hash_end: "newest_hash db = end_hash GENESIS_HASH (audit_records db)"
proof (cases "audit_records db" rule: rev_cases)
  case Nil
  then have "db = []" by (metis audit_records_def length_sort length_0_conv)
  with Nil show ?thesis by (simp add: newest_hash_def newest_record_def)
next
  case (snoc rs r)
  then have "db \<noteq> []" by (auto simp: audit_records_def)
  with snoc show ?thesis by (simp add: newest_hash_def newest_record_def)
qed

lemma counted_newest:
  assumes "counted_rows db"
  shows "newest_record db = (if db = [] then None else Some (last db))"
    and "db \<noteq> [] \<Longrightarrow> ar_seq (last db) = int (length db)"
proof -
  show "newest_record db = (if db = [] then None else Some (last db))"
    by (simp add: newest_record_def counted_sorted [OF assms])
  assume ne: "db \<noteq> []"
  then have "ar_seq (last db) = last (map ar_seq db)" by (simp add: last_map)
  also have "\<dots> = int (length db)" using assms ne by (cases db) (simp_all add: counted_rows_def last_map Suc_le_eq)
  finally show "ar_seq (last db) = int (length db)" .
qed

lemma audit_append_counted:
  assumes "counted_rows db" and "kind \<in> set ENTRY_KINDS" and "Suc (length db) < 2 ^ 63"
  shows "\<exists>r. audit_append h t kind entry db = (Ok r, db @ [r]) \<and> counted_rows (db @ [r])
           \<and> ar_prev_hash r = end_hash GENESIS_HASH db
           \<and> ar_hash r = h (chain_text (ar_prev_hash r) (ar_seq r) (ar_entry_json r))
           \<and> ar_entry_json r = t (JObj [(''entry'', entry), (''kind'', JStr kind)])"
proof -
  have next_seq: "next_i64 (int (length db)) = int (Suc (length db))"
  proof -
    have "signed_take_bit 63 (int (length db) + 1) = int (length db) + 1"
      using assms(3) by (intro signed_take_bit_int_eq_self) simp_all
    then show ?thesis by (simp add: next_i64_def sint_sbintrunc' del: of_int_add)
  qed
  have fresh: "\<not> list_ex (\<lambda>x. ar_seq x = int (Suc (length db))) db"
  proof
    assume "list_ex (\<lambda>x. ar_seq x = int (Suc (length db))) db"
    then have "int (Suc (length db)) \<in> set (map ar_seq db)" by (auto simp: list_ex_iff intro!: rev_image_eqI)
    then have "int (Suc (length db)) \<in> int ` {1..<Suc (length db)}" using assms(1) by (metis counted_rows_def set_map set_upt)
    then show False by auto
  qed
  let ?p = "case newest_record db of None \<Rightarrow> (0, GENESIS_HASH) | Some r \<Rightarrow> (ar_seq r, ar_hash r)"
  have p: "?p = (int (length db), end_hash GENESIS_HASH db)"
    using counted_newest [OF assms(1)] newest_hash_end [of db] counted_sorted [OF assms(1)]
    by (auto simp: newest_hash_def split: if_splits)
  have c: "counted_rows (db @ [r])" if "ar_seq r = int (Suc (length db))" for r
    using assms(1) that by (simp add: counted_rows_def)
  show ?thesis
    using assms(2) fresh c by (simp add: audit_append_def p Let_def next_seq)
qed

lemma audit_append_invalid: "kind \<notin> set ENTRY_KINDS \<Longrightarrow> audit_append h t kind entry db = (Err (AeInvalidKind kind), db)"
  by (simp add: audit_append_def)

definition entry_text :: "(json \<Rightarrow> string) \<Rightarrow> string \<times> json \<Rightarrow> string" where
  "entry_text t e = t (JObj [(''entry'', snd e), (''kind'', JStr (fst e))])"

abbreviation valid_entries :: "(string \<times> json) list \<Rightarrow> (string \<times> json) list" where
  "valid_entries es \<equiv> filter (\<lambda>(kind, entry). kind \<in> set ENTRY_KINDS) es"

lemma append_all_counted:
  "length es < 2 ^ 63 - 1 \<Longrightarrow> (let db = append_all h t es [] in counted_rows db
     \<and> verify_records h GENESIS_HASH db = Ok () \<and> map ar_entry_json db = map (entry_text t) (valid_entries es))"
proof (induction es rule: rev_induct)
  case Nil
  then show ?case by (simp add: append_all_def counted_rows_def)
next
  case (snoc e es)
  obtain k x where e: "e = (k, x)" by force
  let ?db = "append_all h t es []"
  have ih: "counted_rows ?db" "verify_records h GENESIS_HASH ?db = Ok ()" "map ar_entry_json ?db = map (entry_text t) (valid_entries es)"
    using snoc by (auto simp: Let_def)
  have step: "append_all h t (es @ [(k, x)]) [] = snd (audit_append h t k x ?db)" by (simp add: append_all_def)
  have "length ?db = length (valid_entries es)" using ih(3) by (metis length_map)
  then have len: "Suc (length ?db) < 2 ^ 63" 
    using le_less_trans [OF length_filter_le] snoc.prems by (simp add: le_less_trans [OF length_filter_le])
  show ?case
  proof (cases "k \<in> set ENTRY_KINDS")
    case True
    then show ?thesis
      using audit_append_counted [OF ih(1) True len, of h t x] ih e
      by (auto simp: step Let_def verify_records_snoc entry_text_def)
  next
    case False
    then show ?thesis using ih e by (simp add: step audit_append_invalid Let_def)
  qed
qed

section \<open>What the newest hash commits to\<close>

lemma chain_text_inj:
  assumes "CHR ''|'' \<notin> set p" "CHR ''|'' \<notin> set q" "chain_text p m x = chain_text q n y"
  shows "p = q \<and> m = n \<and> x = y"
proof -
  have bar: "CHR ''|'' \<notin> set (int_dec k)" for k by (rule int_dec_no_char) simp_all
  show ?thesis
    using assms(3) separator_unique [OF assms(1,2)] separator_unique [OF bar bar] by (simp add: chain_text_def int_dec_inj)
qed

text \<open>The texts that were hashed for a chain of rows. No hash can be injective on all texts; what a chain commits to rests
  on the texts of two chains having different hashes, and on none of them having the hash the first row starts from.\<close>

definition hashed_texts :: "audit_record list \<Rightarrow> string set" where
  "hashed_texts rs = (\<lambda>r. chain_text (ar_prev_hash r) (ar_seq r) (ar_entry_json r)) ` set rs"

definition no_collision :: "(string \<Rightarrow> string) \<Rightarrow> string set \<Rightarrow> bool" where
  "no_collision h texts = (inj_on h texts \<and> GENESIS_HASH \<notin> h ` texts)"

lemma no_collision_mono: "no_collision h B \<Longrightarrow> A \<subseteq> B \<Longrightarrow> no_collision h A"
  by (auto simp: no_collision_def inj_on_def)

lemma hashed_texts_snoc:
  "hashed_texts (rs @ [r]) = insert (chain_text (ar_prev_hash r) (ar_seq r) (ar_entry_json r)) (hashed_texts rs)"
  by (simp add: hashed_texts_def)

lemma end_hash_no_bar:
  assumes "digest_ok h" and "verify_records h GENESIS_HASH rs = Ok ()"
  shows "CHR ''|'' \<notin> set (end_hash GENESIS_HASH rs)"
  using assms by (cases rs rule: rev_cases) (auto simp: verify_records_snoc digest_ok_def GENESIS_HASH_def)

lemma end_hash_commits:
  assumes "digest_ok h"
  shows "verify_records h GENESIS_HASH rs = Ok () \<Longrightarrow> verify_records h GENESIS_HASH ss = Ok ()
     \<Longrightarrow> no_collision h (hashed_texts rs \<union> hashed_texts ss)
     \<Longrightarrow> end_hash GENESIS_HASH rs = end_hash GENESIS_HASH ss \<Longrightarrow> rs = ss"
proof (induction rs arbitrary: ss rule: rev_induct)
  case Nil
  then show ?case
    by (cases ss rule: rev_cases) (simp_all add: verify_records_snoc hashed_texts_snoc no_collision_def)
next
  case (snoc r rs)
  show ?case
  proof (cases ss rule: rev_cases)
    case Nil
    then show ?thesis using snoc.prems(1,3,4) by (simp add: verify_records_snoc hashed_texts_snoc no_collision_def)
  next
    case (snoc ss' s)
    note v = snoc.prems(1) [unfolded verify_records_snoc] snoc.prems(2) [unfolded snoc verify_records_snoc]
    have apart: "inj_on h (hashed_texts (rs @ [r]) \<union> hashed_texts (ss' @ [s]))"
      using snoc.prems(3) snoc by (simp add: no_collision_def)
    have "chain_text (ar_prev_hash r) (ar_seq r) (ar_entry_json r) = chain_text (ar_prev_hash s) (ar_seq s) (ar_entry_json s)"
      by (rule inj_onD [OF apart]) (use v snoc.prems(4) snoc in \<open>simp_all add: hashed_texts_snoc\<close>)
    moreover have "CHR ''|'' \<notin> set (ar_prev_hash r)" "CHR ''|'' \<notin> set (ar_prev_hash s)"
      using end_hash_no_bar [OF assms] v by auto
    ultimately have eq: "ar_prev_hash r = ar_prev_hash s" "ar_seq r = ar_seq s" "ar_entry_json r = ar_entry_json s"
      using chain_text_inj by blast+
    have "no_collision h (hashed_texts rs \<union> hashed_texts ss')"
      by (rule no_collision_mono [OF snoc.prems(3)]) (auto simp: snoc hashed_texts_snoc)
    then have "rs = ss'" using snoc.IH v eq(1) by simp
    moreover have "r = s" using eq v by simp
    ultimately show ?thesis using snoc by simp
  qed
qed

text \<open>C14: A log built by appending verifies with one row for each entry of a valid kind, holds their texts in order,
  and its newest hash commits to all of it: any other table that verifies and ends in the same hash has the same rows,
  unless two of the texts hashed for the two tables collide.\<close>

theorem audit_log_is_committed:
  assumes "digest_ok h" and "length es < 2 ^ 63 - 1" and "db = append_all h t es []"
  shows "audit_verify h db = Ok (length (valid_entries es))
     \<and> map ar_entry_json (audit_records db) = map (entry_text t) (valid_entries es)
     \<and> (\<forall>other n. audit_verify h other = Ok n \<and> newest_hash other = newest_hash db
          \<and> no_collision h (hashed_texts (audit_records other) \<union> hashed_texts (audit_records db))
          \<longrightarrow> audit_records other = audit_records db)"
proof -
  have built: "counted_rows db" "verify_records h GENESIS_HASH db = Ok ()" "map ar_entry_json db = map (entry_text t) (valid_entries es)"
    using append_all_counted [OF assms(2), of h t] assms(3) by (auto simp: Let_def)
  note records = counted_sorted [OF built(1)]
  have "length db = length (valid_entries es)" using built(3) by (metis length_map)
  then have "audit_verify h db = Ok (length (valid_entries es))" using built(2) by (simp add: audit_verify_iff records)
  moreover have "audit_records other = audit_records db"
    if "audit_verify h other = Ok n" "newest_hash other = newest_hash db"
      "no_collision h (hashed_texts (audit_records other) \<union> hashed_texts (audit_records db))" for other n
    using end_hash_commits [OF assms(1) _ _ that(3)] that built(2) by (simp add: audit_verify_iff newest_hash_end records)
  ultimately show ?thesis using built(3) records by simp
qed

text \<open>A hash of this form, without any collision: the text itself in hexadecimal, after a digit the first hash does not start with.\<close>

definition plain_digest :: "string \<Rightarrow> string" where
  "plain_digest s = CHR ''1'' # hex_encode (bytes_of s)"

lemma plain_digest_ok: "digest_ok plain_digest"
proof -
  have "CHR ''|'' \<notin> set (hex_encode bs)" for bs
    using hex_encode_set [of bs] by (auto simp: hex_chars_def)
  then show ?thesis by (simp add: digest_ok_def plain_digest_def)
qed

lemma plain_digest_no_collision: "no_collision plain_digest texts"
proof -
  have "inj hex_encode" by (rule injI) (metis hex_decode_loop_encode Inr_inject)
  moreover have "inj bytes_of" by (rule injI) (simp add: bytes_of_inject)
  ultimately have "inj plain_digest" by (auto simp: inj_def plain_digest_def)
  moreover have "GENESIS_HASH \<noteq> plain_digest t" for t
  proof -
    have "hd (plain_digest t) \<noteq> hd GENESIS_HASH" by (simp add: plain_digest_def GENESIS_HASH_def hd_replicate)
    then show ?thesis by metis
  qed
  ultimately show ?thesis by (auto simp: no_collision_def intro: inj_on_subset)
qed

definition sample_entries :: "(string \<times> json) list" where
  "sample_entries = [(''grant'', JStr ''a''), (''refund'', JStr ''b''), (''receipt'', JStr ''c'')]"

theorem audit_log_is_committed_witness:
  "audit_verify plain_digest (append_all plain_digest (\<lambda>_. ''x'') sample_entries []) = Ok 2"
  using audit_log_is_committed [OF plain_digest_ok _ refl, of sample_entries "\<lambda>_. ''x''"]
  by (simp add: sample_entries_def ENTRY_KINDS_def)

section \<open>What it does not show\<close>

text \<open>A log that lost its newest rows, or all of them, still verifies.\<close>

lemma truncated_log_verifies:
  assumes "audit_verify h db = Ok n"
  shows "audit_verify h (take k (audit_records db)) = Ok (min n k)"
proof -
  have v: "verify_records h GENESIS_HASH (take k (audit_records db)) = Ok ()"
    using assms verify_records_append [of h GENESIS_HASH "take k (audit_records db)" "drop k (audit_records db)"]
    by (simp add: audit_verify_iff)
  have "sorted (map ar_seq (take k (audit_records db)))"
    by (simp add: audit_records_def sorted_wrt_take flip: take_map)
  then have "audit_records (take k (audit_records db)) = take k (audit_records db)"
    by (metis audit_records_def sort_key_id)
  then show ?thesis using v assms by (simp add: audit_verify_iff audit_records_def min.commute)
qed

lemma emptied_log_verifies: "audit_verify h [] = Ok 0"
  by (simp add: audit_verify_def audit_records_def)

end
