(* ===== verification/IdentityVotes.thy ===== *)
theory IdentityVotes
  imports MarketConfig "HOL-Library.List_Lexorder" "HOL-Library.Char_ord" "HOL-Library.Product_Lexorder" "HOL-Library.Multiset"
begin

text \<open>The validator registry, identity requests and signed votes of \<open>src/crates/xavier-market/src/ivn.rs\<close>. The four tables
  are lists of rows in the order of insertion; a statement that breaks a key is the error \<open>MeSqlite\<close>. The libraries
  for hexadecimal text, Ed25519, SHA-256 and the debug form of a string are the fields of \<open>ivn_lib\<close>; the clock and
  fresh identifiers are arguments. Shown: what the evaluation of votes decides, that the stored status is that of the
  recorded votes, each by an assigned validator and signed with its key, and that a decided request never changes.\<close>

section \<open>Data\<close>

datatype vote_decision = VdCheck | VdReject | VdAbstain

datatype request_status = RsPending | RsPassed | RsRejected | RsQuorumNotMet

fun decision_str :: "vote_decision \<Rightarrow> string" where
  "decision_str VdCheck = ''check''"
| "decision_str VdReject = ''reject''"
| "decision_str VdAbstain = ''abstain''"

fun status_str :: "request_status \<Rightarrow> string" where
  "status_str RsPending = ''pending''"
| "status_str RsPassed = ''passed''"
| "status_str RsRejected = ''rejected''"
| "status_str RsQuorumNotMet = ''quorum_not_met''"

record validator =
  va_node_id :: string
  va_public_key :: string
  va_registered_at :: int

record ivn_vote =
  vo_validator_id :: string
  vo_decision :: vote_decision
  vo_signature :: string
  vo_cast_at :: int

record identity_request =
  id_id :: string
  id_applicant :: string
  id_status :: request_status
  id_validators :: "string list"
  id_votes :: "ivn_vote list"
  id_created_at :: int
  id_updated_at :: int

record cast_input =
  ci_request_id :: string
  ci_validator_id :: string
  ci_decision :: vote_decision
  ci_signature :: string

text \<open>Rows of the tables.\<close>

record request_row =
  rq_id :: string
  rq_applicant :: string
  rq_status :: string
  rq_created_at :: int
  rq_updated_at :: int

record vote_row =
  vr_request_id :: string
  vr_validator_id :: string
  vr_decision :: string
  vr_signature :: string
  vr_cast_at :: int

record ivn_db =
  db_validators :: "validator list"
  db_requests :: "request_row list"
  db_assigned :: "(string \<times> string) list"
  db_ballots :: "vote_row list"

definition ivn_empty :: ivn_db where
  "ivn_empty = \<lparr> db_validators = [], db_requests = [], db_assigned = [], db_ballots = [] \<rparr>"

record ivn_lib =
  il_hex_decode :: "string \<Rightarrow> 8 word list option"
  il_hex_encode :: "8 word list \<Rightarrow> string"
  il_key_ok :: "8 word list \<Rightarrow> bool"
  il_verify :: "8 word list \<Rightarrow> string \<Rightarrow> 8 word list \<Rightarrow> bool"
  il_hash_hex :: "string \<Rightarrow> string"
  il_debug :: "string \<Rightarrow> string"

section \<open>Evaluation\<close>

definition vote_message :: "string \<Rightarrow> string \<Rightarrow> vote_decision \<Rightarrow> string" where
  "vote_message request_id validator_id d =
     ''xavier-ivn-vote:v1'' @ [CHR 0x0A] @ request_id @ [CHR 0x0A] @ validator_id @ [CHR 0x0A] @ decision_str d"

definition count_votes :: "vote_decision \<Rightarrow> vote_decision list \<Rightarrow> 64 word" where
  "count_votes wanted ds = of_nat (length (filter (\<lambda>d. d = wanted) ds))"

definition evaluate_votes :: "nat \<Rightarrow> vote_decision list \<Rightarrow> 32 word \<Rightarrow> request_status" where
  "evaluate_votes validators decisions quorum_permille =
     (let assigned = of_nat validators :: 64 word;
          quorum = ucast quorum_permille :: 64 word;
          approvals = count_votes VdCheck decisions;
          rejects = count_votes VdReject decisions
      in if quorum * assigned \<le> approvals * 1000 then RsPassed
         else if sat_sub assigned rejects * 1000 < quorum * assigned then RsRejected
         else if assigned \<le> of_nat (length decisions) then RsQuorumNotMet
         else RsPending)"

section \<open>Reading and decoding\<close>

definition not_empty :: "string \<Rightarrow> string \<Rightarrow> (string, market_error) result" where
  "not_empty field v =
     (let t = trim v in if t = [] then Err (MeInvalidInput (field @ '' must not be empty'')) else Ok t)"

definition normalize_public_key :: "ivn_lib \<Rightarrow> string \<Rightarrow> (string, market_error) result" where
  "normalize_public_key L v =
     (case il_hex_decode L (trim v) of
        None \<Rightarrow> Err (MeInvalidInput ''public_key must be hex'')
      | Some bytes \<Rightarrow>
          (if length bytes \<noteq> 32 then Err (MeInvalidInput ''public_key must be 32 bytes'')
           else if \<not> il_key_ok L bytes then Err (MeInvalidInput ''public_key is not a valid Ed25519 key'')
           else Ok (il_hex_encode L bytes)))"

definition decode_verifying_key :: "ivn_lib \<Rightarrow> string \<Rightarrow> (8 word list, market_error) result" where
  "decode_verifying_key L v =
     (case il_hex_decode L v of
        None \<Rightarrow> Err (MeCorrupt ''stored validator key is not hex'')
      | Some bytes \<Rightarrow>
          (if length bytes \<noteq> 32 then Err (MeCorrupt ''stored validator key is not 32 bytes'')
           else if \<not> il_key_ok L bytes then Err (MeCorrupt ''stored validator key is not a valid Ed25519 key'')
           else Ok bytes))"

definition decode_signature :: "ivn_lib \<Rightarrow> string \<Rightarrow> (8 word list, market_error) result" where
  "decode_signature L v =
     (case il_hex_decode L (trim v) of
        None \<Rightarrow> Err (MeUnauthenticated ''vote signature is not valid'')
      | Some bytes \<Rightarrow>
          (if length bytes \<noteq> 64 then Err (MeUnauthenticated ''vote signature is not valid'') else Ok bytes))"

definition parse_decision :: "ivn_lib \<Rightarrow> string \<Rightarrow> (vote_decision, market_error) result" where
  "parse_decision L v =
     (if v = ''check'' then Ok VdCheck
      else if v = ''reject'' then Ok VdReject
      else if v = ''abstain'' then Ok VdAbstain
      else Err (MeCorrupt (''unknown vote decision '' @ il_debug L v)))"

definition parse_status :: "ivn_lib \<Rightarrow> string \<Rightarrow> (request_status, market_error) result" where
  "parse_status L v =
     (if v = ''pending'' then Ok RsPending
      else if v = ''passed'' then Ok RsPassed
      else if v = ''rejected'' then Ok RsRejected
      else if v = ''quorum_not_met'' then Ok RsQuorumNotMet
      else Err (MeCorrupt (''unknown request status '' @ il_debug L v)))"

fun parse_votes :: "ivn_lib \<Rightarrow> vote_row list \<Rightarrow> (ivn_vote list, market_error) result" where
  "parse_votes L [] = Ok []"
| "parse_votes L (r # rs) =
     (case parse_decision L (vr_decision r) of
        Err e \<Rightarrow> Err e
      | Ok d \<Rightarrow> (case parse_votes L rs of
          Err e \<Rightarrow> Err e
        | Ok vs \<Rightarrow> Ok (\<lparr> vo_validator_id = vr_validator_id r, vo_decision = d, vo_signature = vr_signature r,
                          vo_cast_at = vr_cast_at r \<rparr> # vs)))"

definition ballots_of :: "string \<Rightarrow> ivn_db \<Rightarrow> vote_row list" where
  "ballots_of request_id db =
     sort_key (\<lambda>r. (vr_cast_at r, vr_validator_id r)) (filter (\<lambda>r. vr_request_id r = request_id) (db_ballots db))"

definition assigned_to :: "string \<Rightarrow> ivn_db \<Rightarrow> string list" where
  "assigned_to request_id db = sort (map snd (filter (\<lambda>(q, v). q = request_id) (db_assigned db)))"

definition load_request :: "ivn_lib \<Rightarrow> ivn_db \<Rightarrow> string \<Rightarrow> (identity_request option, market_error) result" where
  "load_request L db request_id =
     (case List.find (\<lambda>r. rq_id r = request_id) (db_requests db) of
        None \<Rightarrow> Ok None
      | Some r \<Rightarrow>
          (case parse_votes L (ballots_of request_id db) of
             Err e \<Rightarrow> Err e
           | Ok vs \<Rightarrow>
               (case parse_status L (rq_status r) of
                  Err e \<Rightarrow> Err e
                | Ok s \<Rightarrow> Ok (Some \<lparr> id_id = rq_id r, id_applicant = rq_applicant r, id_status = s,
                                     id_validators = assigned_to request_id db, id_votes = vs,
                                     id_created_at = rq_created_at r, id_updated_at = rq_updated_at r \<rparr>))))"

section \<open>Operations\<close>

definition register_validator :: "ivn_lib \<Rightarrow> int \<Rightarrow> string \<Rightarrow> string \<Rightarrow> ivn_db
    \<Rightarrow> (validator, market_error) result \<times> ivn_db" where
  "register_validator L now node_id public_key db =
     (case not_empty ''node_id'' node_id of
        Err e \<Rightarrow> (Err e, db)
      | Ok n \<Rightarrow>
          (case normalize_public_key L public_key of
             Err e \<Rightarrow> (Err e, db)
           | Ok k \<Rightarrow>
               (let v = \<lparr> va_node_id = n, va_public_key = k, va_registered_at = now \<rparr> in
                if list_ex (\<lambda>x. va_node_id x = n) (db_validators db)
                then (Err (MeConflict (''validator '' @ n @ '' is already registered'')), db)
                else (Ok v, db\<lparr> db_validators := db_validators db @ [v] \<rparr>))))"

definition list_validators :: "ivn_db \<Rightarrow> validator list" where
  "list_validators db = sort_key va_registered_at (db_validators db)"

definition rank_validator :: "ivn_lib \<Rightarrow> string \<Rightarrow> string \<Rightarrow> string" where
  "rank_validator L request_id node_id = il_hash_hex L (request_id @ [CHR 0x0A] @ node_id)"

text \<open>The validators of a request: the first ones of the registry ranked by hash, in the order of their names.\<close>

definition choose_validators :: "ivn_lib \<Rightarrow> string \<Rightarrow> nat \<Rightarrow> ivn_db \<Rightarrow> string list" where
  "choose_validators L request_id needed db =
     sort (map snd (take needed (sort (map (\<lambda>v. (rank_validator L request_id (va_node_id v), va_node_id v)) (db_validators db)))))"

definition create_identity_request :: "ivn_lib \<Rightarrow> market_config \<Rightarrow> string \<Rightarrow> int \<Rightarrow> string \<Rightarrow> ivn_db
    \<Rightarrow> (identity_request, market_error) result \<times> ivn_db" where
  "create_identity_request L cfg uuid now applicant db =
     (case not_empty ''applicant'' applicant of
        Err e \<Rightarrow> (Err e, db)
      | Ok a \<Rightarrow>
          (let needed = unat (mc_ivn_validators_per_request cfg);
               request_id = ''ivn_req_'' @ uuid
           in if length (db_validators db) < needed
              then (Err (MeConflict (''an identity request needs '' @ nat_dec needed @ '' registered validators, have ''
                      @ nat_dec (length (db_validators db)))), db)
              else let validators = choose_validators L request_id needed db in
                if list_ex (\<lambda>r. rq_id r = request_id) (db_requests db) then (Err MeSqlite, db)
                else (Ok \<lparr> id_id = request_id, id_applicant = a, id_status = RsPending, id_validators = validators,
                           id_votes = [], id_created_at = now, id_updated_at = now \<rparr>,
                      db\<lparr> db_requests := db_requests db @ [\<lparr> rq_id = request_id, rq_applicant = a,
                              rq_status = status_str RsPending, rq_created_at = now, rq_updated_at = now \<rparr>],
                          db_assigned := db_assigned db @ map (\<lambda>v. (request_id, v)) validators \<rparr>)))"

definition get_identity_request :: "ivn_lib \<Rightarrow> ivn_db \<Rightarrow> string \<Rightarrow> (identity_request option, market_error) result" where
  "get_identity_request L db request_id = load_request L db request_id"

definition record_ballot :: "vote_row \<Rightarrow> ivn_db \<Rightarrow> ivn_db option" where
  "record_ballot b db =
     (if list_ex (\<lambda>r. vr_request_id r = vr_request_id b \<and> vr_validator_id r = vr_validator_id b) (db_ballots db)
         \<or> (vr_request_id b, vr_validator_id b) \<notin> set (db_assigned db)
      then None else Some (db\<lparr> db_ballots := db_ballots db @ [b] \<rparr>))"

definition set_status :: "string \<Rightarrow> request_status \<Rightarrow> int \<Rightarrow> ivn_db \<Rightarrow> ivn_db" where
  "set_status request_id s now db =
     db\<lparr> db_requests := map (\<lambda>r. if rq_id r = request_id then r\<lparr> rq_status := status_str s, rq_updated_at := now \<rparr> else r)
                          (db_requests db) \<rparr>"

text \<open>The check of the signature, which comes before anything else is looked at.\<close>

definition check_vote_signature :: "ivn_lib \<Rightarrow> cast_input \<Rightarrow> ivn_db \<Rightarrow> (8 word list, market_error) result" where
  "check_vote_signature L c db =
     (case List.find (\<lambda>v. va_node_id v = ci_validator_id c) (db_validators db) of
        None \<Rightarrow> Err (MeUnauthenticated ''vote is not signed by a registered validator'')
      | Some v \<Rightarrow>
          (case decode_verifying_key L (va_public_key v) of
             Err e \<Rightarrow> Err e
           | Ok key \<Rightarrow>
               (case decode_signature L (ci_signature c) of
                  Err e \<Rightarrow> Err e
                | Ok sig \<Rightarrow>
                    (if il_verify L key (vote_message (ci_request_id c) (ci_validator_id c) (ci_decision c)) sig then Ok sig
                     else Err (MeUnauthenticated ''vote signature does not verify'')))))"

definition ivn_cast_vote :: "ivn_lib \<Rightarrow> market_config \<Rightarrow> int \<Rightarrow> cast_input \<Rightarrow> ivn_db
    \<Rightarrow> (identity_request, market_error) result \<times> ivn_db" where
  "ivn_cast_vote L cfg now c db =
     (case check_vote_signature L c db of
        Err e \<Rightarrow> (Err e, db)
      | Ok sig \<Rightarrow>
      (case load_request L db (ci_request_id c) of
         Err e \<Rightarrow> (Err e, db)
       | Ok None \<Rightarrow> (Err (MeIdentityRequestNotFound (ci_request_id c)), db)
       | Ok (Some q) \<Rightarrow>
          (if ci_validator_id c \<notin> set (id_validators q)
           then (Err (MeForbidden (''validator '' @ ci_validator_id c @ '' is not assigned to request '' @ ci_request_id c)), db)
           else if id_status q \<noteq> RsPending
           then (Err (MeConflict (''request '' @ ci_request_id c @ '' is already '' @ status_str (id_status q))), db)
           else if list_ex (\<lambda>v. vo_validator_id v = ci_validator_id c) (id_votes q)
           then (Err (MeConflict (''validator '' @ ci_validator_id c @ '' has already voted on request '' @ ci_request_id c)), db)
           else
            (let b = \<lparr> vr_request_id = ci_request_id c, vr_validator_id = ci_validator_id c,
                       vr_decision = decision_str (ci_decision c), vr_signature = il_hex_encode L sig, vr_cast_at = now \<rparr>
             in case record_ballot b db of
                  None \<Rightarrow> (Err MeSqlite, db)
                | Some db1 \<Rightarrow>
                    (let decisions = map vo_decision (id_votes q) @ [ci_decision c];
                         s = evaluate_votes (length (id_validators q)) decisions (mc_ivn_quorum_permille cfg);
                         db2 = set_status (ci_request_id c) s now db1
                     in case load_request L db2 (ci_request_id c) of
                          Err e \<Rightarrow> (Err e, db)
                        | Ok None \<Rightarrow> (Err (MeCorrupt (''request '' @ ci_request_id c @ '' vanished mid-vote'')), db)
                        | Ok (Some updated) \<Rightarrow> (Ok updated, db2))))))"

section \<open>Runs\<close>

datatype ivn_op =
    IoRegister int string string
  | IoCreate string int string
  | IoVote int cast_input

definition ivn_step :: "ivn_lib \<Rightarrow> market_config \<Rightarrow> ivn_op \<Rightarrow> ivn_db \<Rightarrow> ivn_db" where
  "ivn_step L cfg x db =
     (case x of
        IoRegister now n k \<Rightarrow> snd (register_validator L now n k db)
      | IoCreate uuid now a \<Rightarrow> snd (create_identity_request L cfg uuid now a db)
      | IoVote now c \<Rightarrow> snd (ivn_cast_vote L cfg now c db))"

definition ivn_run :: "ivn_lib \<Rightarrow> market_config \<Rightarrow> ivn_op list \<Rightarrow> ivn_db \<Rightarrow> ivn_db" where
  "ivn_run L cfg xs db = foldl (\<lambda>d x. ivn_step L cfg x d) db xs"

section \<open>What a store of votes keeps\<close>

lemma decision_roundtrip [simp]: "parse_decision L (decision_str d) = Ok d"
  by (cases d) (simp_all add: parse_decision_def)

lemma status_roundtrip [simp]: "parse_status L (status_str s) = Ok s"
  by (cases s) (simp_all add: parse_status_def)

lemma status_str_inject [simp]: "status_str s = status_str s' \<longleftrightarrow> s = s'"
  by (cases s; cases s') simp_all

lemma decision_str_inject [simp]: "decision_str d = decision_str e \<longleftrightarrow> d = e"
  by (cases d; cases e) simp_all

text \<open>The decision of a row, and the vote it is read as.\<close>

definition decision_of :: "vote_row \<Rightarrow> vote_decision" where
  "decision_of r = (if vr_decision r = ''check'' then VdCheck else if vr_decision r = ''reject'' then VdReject else VdAbstain)"

definition vote_of :: "vote_row \<Rightarrow> ivn_vote" where
  "vote_of r = \<lparr> vo_validator_id = vr_validator_id r, vo_decision = decision_of r, vo_signature = vr_signature r,
                 vo_cast_at = vr_cast_at r \<rparr>"

lemma decision_of_str: "vr_decision r = decision_str d \<Longrightarrow> decision_of r = d"
  by (cases d) (simp_all add: decision_of_def)

lemma vote_of_simps [simp]: "vo_validator_id (vote_of r) = vr_validator_id r" "vo_decision (vote_of r) = decision_of r"
  "vo_signature (vote_of r) = vr_signature r" "vo_cast_at (vote_of r) = vr_cast_at r"
  by (simp_all add: vote_of_def)

lemma parse_votes_ok:
  "\<forall>r\<in>set rs. \<exists>d. vr_decision r = decision_str d \<Longrightarrow> parse_votes L rs = Ok (map vote_of rs)"
  by (induction rs) (auto simp: vote_of_def decision_of_str)

text \<open>The status a request has by its votes; none at all leave it pending.\<close>

definition status_by_votes :: "market_config \<Rightarrow> nat \<Rightarrow> vote_decision list \<Rightarrow> request_status" where
  "status_by_votes cfg n ds = (if ds = [] then RsPending else evaluate_votes n ds (mc_ivn_quorum_permille cfg))"

definition request_state :: "market_config \<Rightarrow> ivn_db \<Rightarrow> string \<Rightarrow> request_status" where
  "request_state cfg db q = status_by_votes cfg (length (assigned_to q db)) (map decision_of (ballots_of q db))"

definition registry_ok :: "market_config \<Rightarrow> ivn_db \<Rightarrow> bool" where
  "registry_ok cfg db =
     (distinct (map va_node_id (db_validators db)) \<and> distinct (map rq_id (db_requests db)) \<and> distinct (db_assigned db)
      \<and> (\<forall>(q, v)\<in>set (db_assigned db). q \<in> set (map rq_id (db_requests db)) \<and> v \<in> set (map va_node_id (db_validators db)))
      \<and> (\<forall>r\<in>set (db_requests db). length (assigned_to (rq_id r) db) = unat (mc_ivn_validators_per_request cfg)))"

definition authentic :: "ivn_lib \<Rightarrow> validator list \<Rightarrow> vote_row \<Rightarrow> bool" where
  "authentic L vs r =
     (\<exists>w\<in>set vs. va_node_id w = vr_validator_id r \<and> (\<exists>key sig. decode_verifying_key L (va_public_key w) = Ok key
        \<and> vr_signature r = il_hex_encode L sig
        \<and> il_verify L key (vote_message (vr_request_id r) (vr_validator_id r) (decision_of r)) sig))"

definition ballots_ok :: "ivn_lib \<Rightarrow> ivn_db \<Rightarrow> bool" where
  "ballots_ok L db =
     (distinct (map (\<lambda>r. (vr_request_id r, vr_validator_id r)) (db_ballots db))
      \<and> (\<forall>r\<in>set (db_ballots db). (vr_request_id r, vr_validator_id r) \<in> set (db_assigned db)
           \<and> (\<exists>d. vr_decision r = decision_str d) \<and> authentic L (db_validators db) r))"

definition statuses_ok :: "market_config \<Rightarrow> ivn_db \<Rightarrow> bool" where
  "statuses_ok cfg db = (\<forall>r\<in>set (db_requests db). rq_status r = status_str (request_state cfg db (rq_id r)))"

definition ivn_ok :: "ivn_lib \<Rightarrow> market_config \<Rightarrow> ivn_db \<Rightarrow> bool" where
  "ivn_ok L cfg db = (registry_ok cfg db \<and> ballots_ok L db \<and> statuses_ok cfg db)"

lemma ivn_ok_empty: "ivn_ok L cfg ivn_empty"
  by (simp add: ivn_ok_def registry_ok_def ballots_ok_def statuses_ok_def ivn_empty_def)

lemma set_ballots_of [simp]: "set (ballots_of q db) = {r \<in> set (db_ballots db). vr_request_id r = q}"
  by (auto simp: ballots_of_def)

lemma mset_ballots_of: "mset (ballots_of q db) = mset (filter (\<lambda>r. vr_request_id r = q) (db_ballots db))"
  by (simp add: ballots_of_def)

lemma set_assigned_to: "set (assigned_to q db) = {v. (q, v) \<in> set (db_assigned db)}"
  by (force simp: assigned_to_def)

lemma distinct_assigned_to: "distinct (db_assigned db) \<Longrightarrow> distinct (assigned_to q db)"
  by (auto simp: assigned_to_def distinct_map inj_on_def)

definition request_view :: "market_config \<Rightarrow> ivn_db \<Rightarrow> request_row \<Rightarrow> identity_request" where
  "request_view cfg db r =
     \<lparr> id_id = rq_id r, id_applicant = rq_applicant r, id_status = request_state cfg db (rq_id r),
       id_validators = assigned_to (rq_id r) db, id_votes = map vote_of (ballots_of (rq_id r) db),
       id_created_at = rq_created_at r, id_updated_at = rq_updated_at r \<rparr>"

lemma find_request: "List.find (\<lambda>r. rq_id r = q) rs = Some r \<Longrightarrow> r \<in> set rs \<and> rq_id r = q"
  by (auto simp: find_Some_iff)

lemma load_request_ok:
  assumes "ivn_ok L cfg db"
  shows "load_request L db q = Ok (map_option (request_view cfg db) (List.find (\<lambda>r. rq_id r = q) (db_requests db)))"
proof (cases "List.find (\<lambda>r. rq_id r = q) (db_requests db)")
  case None
  then show ?thesis by (simp add: load_request_def)
next
  case (Some r)
  then have r: "r \<in> set (db_requests db)" "rq_id r = q" using find_request by blast+
  have "parse_votes L (ballots_of q db) = Ok (map vote_of (ballots_of q db))"
    by (rule parse_votes_ok) (use assms in \<open>auto simp: ivn_ok_def ballots_ok_def\<close>)
  moreover have "rq_status r = status_str (request_state cfg db q)"
    using assms r by (auto simp: ivn_ok_def statuses_ok_def)
  ultimately show ?thesis using Some r(2) by (simp add: load_request_def request_view_def)
qed

section \<open>The evaluation does not depend on the order of votes\<close>

lemma evaluate_votes_perm: "mset ds = mset es \<Longrightarrow> evaluate_votes n ds k = evaluate_votes n es k"
proof -
  assume eq: "mset ds = mset es"
  have "length (filter P ds) = length (filter P es)" for P using eq by (metis mset_filter size_mset)
  moreover have "length ds = length es" using eq by (metis size_mset)
  ultimately show ?thesis by (simp add: evaluate_votes_def count_votes_def Let_def)
qed

lemma status_by_votes_perm: "mset ds = mset es \<Longrightarrow> status_by_votes cfg n ds = status_by_votes cfg n es"
  using evaluate_votes_perm [of ds es] by (auto simp: status_by_votes_def)

section \<open>Registration and requests\<close>

lemma register_cases:
  "snd (register_validator L now n k db) = db
   \<or> (\<exists>v. va_node_id v \<notin> set (map va_node_id (db_validators db))
        \<and> snd (register_validator L now n k db) = db\<lparr> db_validators := db_validators db @ [v] \<rparr>)"
proof (cases "not_empty ''node_id'' n")
  case (Inr m)
  show ?thesis
  proof (cases "normalize_public_key L k")
    case (Inr key)
    with \<open>not_empty ''node_id'' n = Ok m\<close> show ?thesis
      by (auto simp: register_validator_def Let_def list_ex_iff
          intro!: exI [of _ "\<lparr> va_node_id = m, va_public_key = key, va_registered_at = now \<rparr>"])
  qed (use \<open>not_empty ''node_id'' n = Ok m\<close> in \<open>simp add: register_validator_def\<close>)
qed (simp add: register_validator_def)

lemma register_ok: "ivn_ok L cfg db \<Longrightarrow> ivn_ok L cfg (snd (register_validator L now n k db))"
proof -
  assume ok: "ivn_ok L cfg db"
  have "ivn_ok L cfg (db\<lparr> db_validators := db_validators db @ [v] \<rparr>)"
    if "va_node_id v \<notin> set (map va_node_id (db_validators db))" for v
    using ok that
    by (auto simp: ivn_ok_def registry_ok_def ballots_ok_def statuses_ok_def request_state_def assigned_to_def ballots_of_def
        authentic_def)
  then show ?thesis using ok register_cases [of L now n k db] by auto
qed

lemma choose_validators_spec:
  assumes "distinct (map va_node_id (db_validators db))" and "needed \<le> length (db_validators db)"
  shows "length (choose_validators L q needed db) = needed" "distinct (choose_validators L q needed db)"
        "set (choose_validators L q needed db) \<subseteq> set (map va_node_id (db_validators db))"
proof -
  let ?ranked = "sort (map (\<lambda>v. (rank_validator L q (va_node_id v), va_node_id v)) (db_validators db))"
  have perm: "mset (map snd ?ranked) = mset (map va_node_id (db_validators db))"
    by (simp add: multiset.map_comp comp_def)
  have "distinct (map snd ?ranked)" using mset_eq_imp_distinct_iff [OF perm] assms(1) by blast
  moreover have "map snd (take needed ?ranked) = take needed (map snd ?ranked)" by (simp add: take_map)
  ultimately show "distinct (choose_validators L q needed db)" by (simp add: choose_validators_def)
  show "length (choose_validators L q needed db) = needed" using assms(2) by (simp add: choose_validators_def)
  have "set (map snd ?ranked) = set (map va_node_id (db_validators db))" by (rule mset_eq_setD [OF perm])
  moreover have "set (map snd (take needed ?ranked)) \<subseteq> set (map snd ?ranked)"
    by (rule image_mono [of "set (take needed ?ranked)" "set ?ranked" snd, unfolded set_map [symmetric]]) (rule set_take_subset)
  ultimately show "set (choose_validators L q needed db) \<subseteq> set (map va_node_id (db_validators db))"
    by (simp add: choose_validators_def)
qed

text \<open>The table after a request was opened.\<close>

definition open_request :: "request_row \<Rightarrow> string list \<Rightarrow> ivn_db \<Rightarrow> ivn_db" where
  "open_request r vs db = db\<lparr> db_requests := db_requests db @ [r], db_assigned := db_assigned db @ map (\<lambda>v. (rq_id r, v)) vs \<rparr>"

lemma create_cases:
  "snd (create_identity_request L cfg uuid now a db) = db
   \<or> (\<exists>r. rq_id r \<notin> set (map rq_id (db_requests db)) \<and> rq_status r = status_str RsPending
        \<and> unat (mc_ivn_validators_per_request cfg) \<le> length (db_validators db)
        \<and> snd (create_identity_request L cfg uuid now a db)
            = open_request r (choose_validators L (rq_id r) (unat (mc_ivn_validators_per_request cfg)) db) db)"
proof (cases "not_empty ''applicant'' a")
  case (Inr name)
  let ?r = "\<lparr> rq_id = ''ivn_req_'' @ uuid, rq_applicant = name, rq_status = status_str RsPending,
              rq_created_at = now, rq_updated_at = now \<rparr>"
  let ?n = "unat (mc_ivn_validators_per_request cfg)"
  show ?thesis
  proof (cases "length (db_validators db) < ?n \<or> rq_id ?r \<in> set (map rq_id (db_requests db))")
    case True
    then have "snd (create_identity_request L cfg uuid now a db) = db"
      using Inr by (auto simp: create_identity_request_def Let_def list_ex_iff)
    then show ?thesis ..
  next
    case False
    then have "\<not> list_ex (\<lambda>r. rq_id r = ''ivn_req_'' @ uuid) (db_requests db)" by (simp add: list_ex_map_key del: set_map)
    with False have "snd (create_identity_request L cfg uuid now a db) = open_request ?r (choose_validators L (rq_id ?r) ?n db) db"
      using Inr by (simp add: create_identity_request_def Let_def open_request_def)
    then show ?thesis using False by (intro disjI2 exI [of _ ?r]) simp
  qed
qed (simp add: create_identity_request_def)

lemma create_ok:
  assumes "ivn_ok L cfg db"
  shows "ivn_ok L cfg (snd (create_identity_request L cfg uuid now a db))"
proof -
  let ?n = "unat (mc_ivn_validators_per_request cfg)"
  have "ivn_ok L cfg (open_request r (choose_validators L (rq_id r) ?n db) db)"
    if r: "rq_id r \<notin> set (map rq_id (db_requests db))" "rq_status r = status_str RsPending" "?n \<le> length (db_validators db)" for r
  proof -
    let ?vs = "choose_validators L (rq_id r) ?n db"
    let ?db = "open_request r ?vs db"
    have reg: "registry_ok cfg db" and bal: "ballots_ok L db" and st: "statuses_ok cfg db" using assms by (auto simp: ivn_ok_def)
    note vs = choose_validators_spec [of db ?n L "rq_id r"]
    have d: "distinct (map va_node_id (db_validators db))" using reg by (simp add: registry_ok_def)
    have unassigned: "(rq_id r, v) \<notin> set (db_assigned db)" for v using reg r(1) by (auto simp: registry_ok_def)
    have none: "ballots_of (rq_id r) ?db = []"
    proof -
      have "set (ballots_of (rq_id r) db) = {}" using bal unassigned by (auto simp: ballots_ok_def)
      then show ?thesis by (simp add: ballots_of_def open_request_def)
    qed
    have new: "assigned_to (rq_id r) ?db = sort ?vs"
    proof -
      have "filter (\<lambda>(q, v). q = rq_id r) (db_assigned db) = []" using unassigned by (auto simp: filter_empty_conv)
      then show ?thesis by (simp add: assigned_to_def open_request_def comp_def)
    qed
    have old: "assigned_to q ?db = assigned_to q db" "ballots_of q ?db = ballots_of q db" if "q \<noteq> rq_id r" for q
      using that by (auto simp: assigned_to_def ballots_of_def open_request_def filter_empty_conv)
    have "registry_ok cfg ?db"
      unfolding registry_ok_def
    proof (intro conjI)
      show "distinct (map va_node_id (db_validators ?db))" "distinct (map rq_id (db_requests ?db))"
        using reg r(1) by (simp_all add: registry_ok_def open_request_def)
      show "\<forall>(q, v)\<in>set (db_assigned ?db). q \<in> set (map rq_id (db_requests ?db)) \<and> v \<in> set (map va_node_id (db_validators ?db))"
        using reg vs(3) [OF d r(3)] by (auto simp: registry_ok_def open_request_def)
      show "distinct (db_assigned ?db)"
        using reg unassigned vs(2) [OF d r(3)] by (auto simp: registry_ok_def open_request_def distinct_map inj_on_def)
      show "\<forall>ra\<in>set (db_requests ?db). length (assigned_to (rq_id ra) ?db) = ?n"
        using reg r(1) old new vs(1) [OF d r(3)]
        by (auto simp: registry_ok_def open_request_def image_iff)
    qed
    moreover have "ballots_ok L ?db" using bal by (auto simp: ballots_ok_def open_request_def)
    moreover have "statuses_ok cfg ?db"
      unfolding statuses_ok_def
    proof
      fix x assume "x \<in> set (db_requests ?db)"
      then consider "x = r" | "x \<in> set (db_requests db)" by (auto simp: open_request_def)
      then show "rq_status x = status_str (request_state cfg ?db (rq_id x))"
      proof cases
        case 1
        then show ?thesis using r(2) none by (simp add: request_state_def status_by_votes_def)
      next
        case 2
        then have "rq_id x \<noteq> rq_id r" using r(1) by (metis image_eqI set_map)
        then show ?thesis using 2 st old by (simp add: statuses_ok_def request_state_def)
      qed
    qed
    ultimately show ?thesis by (simp add: ivn_ok_def)
  qed
  then show ?thesis using create_cases [of L cfg uuid now a db] assms by auto
qed

section \<open>Votes\<close>

text \<open>The table after an accepted vote.\<close>

definition after_vote :: "vote_row \<Rightarrow> request_status \<Rightarrow> int \<Rightarrow> ivn_db \<Rightarrow> ivn_db" where
  "after_vote b s now db = set_status (vr_request_id b) s now (db\<lparr> db_ballots := db_ballots db @ [b] \<rparr>)"

lemma check_vote_signature_ok:
  assumes "check_vote_signature L c db = Ok sig"
  shows "authentic L (db_validators db) \<lparr> vr_request_id = ci_request_id c, vr_validator_id = ci_validator_id c,
           vr_decision = decision_str (ci_decision c), vr_signature = il_hex_encode L sig, vr_cast_at = now \<rparr>"
proof -
  from assms obtain w key where w: "List.find (\<lambda>v. va_node_id v = ci_validator_id c) (db_validators db) = Some w"
    "decode_verifying_key L (va_public_key w) = Ok key"
    "il_verify L key (vote_message (ci_request_id c) (ci_validator_id c) (ci_decision c)) sig"
    by (auto simp: check_vote_signature_def split: option.splits sum.splits if_splits)
  then have "w \<in> set (db_validators db)" "va_node_id w = ci_validator_id c" by (auto simp: find_Some_iff)
  then show ?thesis using w(2,3) by (auto simp: authentic_def decision_of_str)
qed

lemma cast_vote_cases:
  assumes "ivn_ok L cfg db" and "ivn_cast_vote L cfg now c db = (res, db')"
  shows "(\<exists>e. res = Err e) \<and> db' = db
    \<or> (\<exists>sig row b. check_vote_signature L c db = Ok sig
        \<and> List.find (\<lambda>r. rq_id r = ci_request_id c) (db_requests db) = Some row
        \<and> request_state cfg db (ci_request_id c) = RsPending
        \<and> ci_validator_id c \<in> set (assigned_to (ci_request_id c) db)
        \<and> ci_validator_id c \<notin> set (map vr_validator_id (ballots_of (ci_request_id c) db))
        \<and> b = \<lparr> vr_request_id = ci_request_id c, vr_validator_id = ci_validator_id c,
                vr_decision = decision_str (ci_decision c), vr_signature = il_hex_encode L sig, vr_cast_at = now \<rparr>
        \<and> db' = after_vote b (evaluate_votes (length (assigned_to (ci_request_id c) db))
                  (map decision_of (ballots_of (ci_request_id c) db) @ [ci_decision c]) (mc_ivn_quorum_permille cfg)) now db)"
proof -
  have comp: "map (vo_decision \<circ> vote_of) xs = map decision_of xs" for xs by simp
  have vid: "list_ex (\<lambda>v. vo_validator_id v = k) (map vote_of xs) \<longleftrightarrow> k \<in> set (map vr_validator_id xs)" for k xs
    by (simp add: list_ex_map_key comp_def)
  note load = load_request_ok [OF assms(1), of "ci_request_id c"]
  show ?thesis
  proof (cases "check_vote_signature L c db")
    case (Inl e)
    then show ?thesis using assms(2) by (auto simp: ivn_cast_vote_def)
  next
    case (Inr sig)
    show ?thesis
    proof (cases "List.find (\<lambda>r. rq_id r = ci_request_id c) (db_requests db)")
      case None
      then show ?thesis using assms(2) Inr load by (auto simp: ivn_cast_vote_def)
    next
      case (Some row)
      then have row: "rq_id row = ci_request_id c" using find_request by blast
      let ?b = "\<lparr> vr_request_id = ci_request_id c, vr_validator_id = ci_validator_id c,
                 vr_decision = decision_str (ci_decision c), vr_signature = il_hex_encode L sig, vr_cast_at = now \<rparr>"
      have load': "load_request L db (ci_request_id c) = Ok (Some (request_view cfg db row))" using load Some by simp
      let ?guards = "ci_validator_id c \<in> set (assigned_to (ci_request_id c) db) \<and> request_state cfg db (ci_request_id c) = RsPending
          \<and> ci_validator_id c \<notin> set (map vr_validator_id (ballots_of (ci_request_id c) db))"
      show ?thesis
      proof (cases ?guards)
        case False
        then have "db' = db \<and> (\<exists>e. res = Err e)"
          using assms(2) Inr load' row vid [of "ci_validator_id c" "ballots_of (ci_request_id c) db"]
          by (auto simp: ivn_cast_vote_def request_view_def split: if_splits)
        then show ?thesis by blast
      next
        case True
        let ?s = "evaluate_votes (length (assigned_to (ci_request_id c) db))
                  (map decision_of (ballots_of (ci_request_id c) db) @ [ci_decision c]) (mc_ivn_quorum_permille cfg)"
        have "ivn_cast_vote L cfg now c db =
          (case record_ballot ?b db of None \<Rightarrow> (Err MeSqlite, db)
           | Some db1 \<Rightarrow> (case load_request L (set_status (ci_request_id c) ?s now db1) (ci_request_id c) of
               Err e \<Rightarrow> (Err e, db)
             | Ok None \<Rightarrow> (Err (MeCorrupt (''request '' @ ci_request_id c @ '' vanished mid-vote'')), db)
             | Ok (Some updated) \<Rightarrow> (Ok updated, set_status (ci_request_id c) ?s now db1)))"
          using Inr load' row True vid [of "ci_validator_id c" "ballots_of (ci_request_id c) db"]
          by (cases "record_ballot ?b db") (simp_all add: ivn_cast_vote_def request_view_def Let_def comp)
        then have "(\<exists>e. res = Err e) \<and> db' = db \<or> db' = after_vote ?b ?s now db"
          using assms(2) by (auto simp: record_ballot_def after_vote_def split: if_splits sum.splits option.splits)
        then show ?thesis using Inr Some True by blast
      qed
    qed
  qed
qed

lemma after_vote_simps [simp]:
  "db_validators (after_vote b s now db) = db_validators db" "db_assigned (after_vote b s now db) = db_assigned db"
  "db_ballots (after_vote b s now db) = db_ballots db @ [b]"
  "map rq_id (db_requests (after_vote b s now db)) = map rq_id (db_requests db)"
  "assigned_to q (after_vote b s now db) = assigned_to q db"
  by (simp_all add: after_vote_def set_status_def assigned_to_def comp_def if_distrib [of rq_id] cong: if_cong)

lemma ballots_after_vote:
  "q \<noteq> vr_request_id b \<Longrightarrow> ballots_of q (after_vote b s now db) = ballots_of q db"
  "mset (map decision_of (ballots_of (vr_request_id b) (after_vote b s now db)))
     = mset (map decision_of (ballots_of (vr_request_id b) db) @ [decision_of b])"
proof -
  show "q \<noteq> vr_request_id b \<Longrightarrow> ballots_of q (after_vote b s now db) = ballots_of q db"
    by (simp add: ballots_of_def)
  show "mset (map decision_of (ballots_of (vr_request_id b) (after_vote b s now db)))
     = mset (map decision_of (ballots_of (vr_request_id b) db) @ [decision_of b])"
    by (simp add: mset_ballots_of)
qed

lemma after_vote_requests:
  "db_requests (after_vote b s now db) = map (\<lambda>r. if rq_id r = vr_request_id b
      then r\<lparr> rq_status := status_str s, rq_updated_at := now \<rparr> else r) (db_requests db)"
  by (simp add: after_vote_def set_status_def)

lemma after_vote_ok:
  assumes "ivn_ok L cfg db" and "authentic L (db_validators db) b" and "vr_decision b = decision_str d"
    and "vr_validator_id b \<in> set (assigned_to (vr_request_id b) db)"
    and "vr_validator_id b \<notin> set (map vr_validator_id (ballots_of (vr_request_id b) db))"
    and s: "s = evaluate_votes (length (assigned_to (vr_request_id b) db)) (map decision_of (ballots_of (vr_request_id b) db) @ [d])
           (mc_ivn_quorum_permille cfg)"
  shows "ivn_ok L cfg (after_vote b s now db)"
proof -
  let ?db = "after_vote b s now db"
  have reg: "registry_ok cfg db" and bal: "ballots_ok L db" and st: "statuses_ok cfg db" using assms(1) by (auto simp: ivn_ok_def)
  have d: "decision_of b = d" by (rule decision_of_str [OF assms(3)])
  have "registry_ok cfg ?db"
  proof -
    have ids: "set (map rq_id (db_requests ?db)) = set (map rq_id (db_requests db))" by (simp only: after_vote_simps)
    have "length (assigned_to (rq_id r) db) = unat (mc_ivn_validators_per_request cfg)" if "r \<in> set (db_requests ?db)" for r
    proof -
      have "rq_id r \<in> set (map rq_id (db_requests db))" using that ids by (metis image_eqI set_map)
      then show ?thesis using reg by (auto simp: registry_ok_def)
    qed
    then show ?thesis using reg unfolding registry_ok_def ids by (simp del: set_map)
  qed
  moreover have "ballots_ok L ?db"
    using bal assms(2-5) by (auto simp: ballots_ok_def set_assigned_to)
  moreover have "statuses_ok cfg ?db"
    unfolding statuses_ok_def
  proof
    fix x assume "x \<in> set (db_requests ?db)"
    then obtain r where r: "r \<in> set (db_requests db)" "x = (if rq_id r = vr_request_id b
        then r\<lparr> rq_status := status_str s, rq_updated_at := now \<rparr> else r)"
      by (auto simp: after_vote_requests)
    show "rq_status x = status_str (request_state cfg ?db (rq_id x))"
    proof (cases "rq_id r = vr_request_id b")
      case True
      have "request_state cfg ?db (vr_request_id b) = status_by_votes cfg (length (assigned_to (vr_request_id b) db))
          (map decision_of (ballots_of (vr_request_id b) db) @ [d])"
        using status_by_votes_perm [OF ballots_after_vote(2)] d by (simp add: request_state_def)
      then show ?thesis using True r(2) s by (simp add: status_by_votes_def)
    next
      case False
      then show ?thesis using r st ballots_after_vote(1) [OF False] by (simp add: statuses_ok_def request_state_def)
    qed
  qed
  ultimately show ?thesis by (simp add: ivn_ok_def)
qed

lemma cast_vote_ok: "ivn_ok L cfg db \<Longrightarrow> ivn_ok L cfg (snd (ivn_cast_vote L cfg now c db))"
proof -
  assume ok: "ivn_ok L cfg db"
  obtain res db' where c: "ivn_cast_vote L cfg now c db = (res, db')" by force
  from cast_vote_cases [OF ok c] show ?thesis
  proof (elim disjE conjE exE)
    assume "db' = db"
    then show ?thesis using c ok by simp
  next
    fix sig row b
    assume v: "check_vote_signature L c db = Ok sig" "ci_validator_id c \<in> set (assigned_to (ci_request_id c) db)"
      "ci_validator_id c \<notin> set (map vr_validator_id (ballots_of (ci_request_id c) db))"
      and b: "b = \<lparr> vr_request_id = ci_request_id c, vr_validator_id = ci_validator_id c,
                vr_decision = decision_str (ci_decision c), vr_signature = il_hex_encode L sig, vr_cast_at = now \<rparr>"
      and db': "db' = after_vote b (evaluate_votes (length (assigned_to (ci_request_id c) db))
                  (map decision_of (ballots_of (ci_request_id c) db) @ [ci_decision c]) (mc_ivn_quorum_permille cfg)) now db"
    have "authentic L (db_validators db) b" unfolding b by (rule check_vote_signature_ok [OF v(1)])
    then show ?thesis using after_vote_ok [OF ok _ _ _ _ refl, of b "ci_decision c" now] v b c db' by simp
  qed
qed

lemma ivn_step_ok: "ivn_ok L cfg db \<Longrightarrow> ivn_ok L cfg (ivn_step L cfg x db)"
  by (cases x) (simp_all add: ivn_step_def register_ok create_ok cast_vote_ok)

lemma ivn_run_ok: "ivn_ok L cfg db \<Longrightarrow> ivn_ok L cfg (ivn_run L cfg xs db)"
  unfolding ivn_run_def by (induction xs arbitrary: db) (simp_all add: ivn_step_ok)

section \<open>The stored status is that of the votes\<close>

text \<open>The vote carries a signature that verifies, with the key registered for its validator, over this request, this
  validator and this decision.\<close>

definition vote_signed :: "ivn_lib \<Rightarrow> ivn_db \<Rightarrow> string \<Rightarrow> ivn_vote \<Rightarrow> bool" where
  "vote_signed L db q v =
     (\<exists>w\<in>set (db_validators db). va_node_id w = vo_validator_id v
        \<and> (\<exists>key sig. decode_verifying_key L (va_public_key w) = Ok key \<and> vo_signature v = il_hex_encode L sig
             \<and> il_verify L key (vote_message q (vo_validator_id v) (vo_decision v)) sig))"

lemma authentic_signed: "authentic L (db_validators db) b \<Longrightarrow> vote_signed L db (vr_request_id b) (vote_of b)"
  by (simp add: authentic_def vote_signed_def)

lemma ballots_of_facts:
  assumes "ballots_ok L db"
  shows "distinct (map vr_validator_id (ballots_of q db))"
    and "b \<in> set (ballots_of q db) \<Longrightarrow> vr_validator_id b \<in> set (assigned_to q db) \<and> vote_signed L db q (vote_of b)"
proof -
  let ?bs = "filter (\<lambda>r. vr_request_id r = q) (db_ballots db)"
  have "distinct (map (\<lambda>r. (vr_request_id r, vr_validator_id r)) ?bs)"
    using assms by (simp add: ballots_ok_def distinct_map_filter)
  then have "distinct (map vr_validator_id ?bs)" by (auto simp: distinct_map inj_on_def)
  moreover have "mset (map vr_validator_id (ballots_of q db)) = mset (map vr_validator_id ?bs)" by (simp add: mset_ballots_of)
  ultimately show "distinct (map vr_validator_id (ballots_of q db))" using mset_eq_imp_distinct_iff by blast
  show "b \<in> set (ballots_of q db) \<Longrightarrow> vr_validator_id b \<in> set (assigned_to q db) \<and> vote_signed L db q (vote_of b)"
    using assms authentic_signed by (fastforce simp: ballots_ok_def set_assigned_to)
qed

text \<open>C10: Whatever is registered, opened and voted, a request can always be read, its status is that of evaluating the
  votes recorded for it (pending when there is none), it has exactly the configured number of different validators, each
  of them voted at most once, and every vote carries a signature that verifies, with the key registered for its
  validator, over this request, this validator and this decision.\<close>

theorem request_status_counts_votes:
  assumes "db = ivn_run L cfg xs ivn_empty"
  shows "\<exists>found. load_request L db q = Ok found \<and> (\<forall>r. found = Some r \<longrightarrow>
     id_status r = status_by_votes cfg (length (id_validators r)) (map vo_decision (id_votes r))
     \<and> distinct (id_validators r) \<and> length (id_validators r) = unat (mc_ivn_validators_per_request cfg)
     \<and> distinct (map vo_validator_id (id_votes r)) \<and> set (map vo_validator_id (id_votes r)) \<subseteq> set (id_validators r)
     \<and> (\<forall>v\<in>set (id_votes r). vote_signed L db q v))"
proof -
  have ok: "ivn_ok L cfg db" unfolding assms by (rule ivn_run_ok [OF ivn_ok_empty])
  then have reg: "registry_ok cfg db" and bal: "ballots_ok L db" by (auto simp: ivn_ok_def)
  have view: "id_status r = status_by_votes cfg (length (id_validators r)) (map vo_decision (id_votes r))
     \<and> distinct (id_validators r) \<and> length (id_validators r) = unat (mc_ivn_validators_per_request cfg)
     \<and> distinct (map vo_validator_id (id_votes r)) \<and> set (map vo_validator_id (id_votes r)) \<subseteq> set (id_validators r)
     \<and> (\<forall>v\<in>set (id_votes r). vote_signed L db q v)"
    if "List.find (\<lambda>r. rq_id r = q) (db_requests db) = Some x" "r = request_view cfg db x" for x r
  proof -
    have x: "x \<in> set (db_requests db)" "rq_id x = q" using find_request [OF that(1)] by auto
    have comp: "map vo_decision (map vote_of ys) = map decision_of ys" "map vo_validator_id (map vote_of ys) = map vr_validator_id ys" for ys
      by simp_all
    have "distinct (assigned_to q db)" "length (assigned_to q db) = unat (mc_ivn_validators_per_request cfg)"
      using reg distinct_assigned_to x by (auto simp: registry_ok_def)
    then show ?thesis
      using ballots_of_facts [OF bal, where q = q] x(2)
      unfolding that(2) request_view_def by (simp add: request_state_def comp del: map_map set_ballots_of) blast
  qed
  show ?thesis
    by (rule exI [of _ "map_option (request_view cfg db) (List.find (\<lambda>r. rq_id r = q) (db_requests db))"])
       (use load_request_ok [OF ok, of q] view in \<open>auto simp del: set_map\<close>)
qed

definition sample_ivn_lib :: ivn_lib where
  "sample_ivn_lib = \<lparr> il_hex_decode = (\<lambda>s. Some (replicate (if s = ''s'' then 64 else 32) 0)), il_hex_encode = (\<lambda>b. ''h''),
     il_key_ok = (\<lambda>_. True), il_verify = (\<lambda>k m s. True), il_hash_hex = (\<lambda>s. s), il_debug = (\<lambda>s. s) \<rparr>"

definition sample_ivn_config :: market_config where
  "sample_ivn_config = market_config_default\<lparr> mc_ivn_validators_per_request := 1 \<rparr>"

definition sample_ivn_ops :: "ivn_op list" where
  "sample_ivn_ops = [IoRegister 1 ''v'' ''k'', IoCreate ''u'' 2 ''a'',
     IoVote 3 \<lparr> ci_request_id = ''ivn_req_u'', ci_validator_id = ''v'', ci_decision = VdCheck, ci_signature = ''s'' \<rparr>]"

definition sample_ivn_db :: ivn_db where
  "sample_ivn_db = \<lparr> db_validators = [\<lparr> va_node_id = ''v'', va_public_key = ''h'', va_registered_at = 1 \<rparr>],
     db_requests = [\<lparr> rq_id = ''ivn_req_u'', rq_applicant = ''a'', rq_status = ''passed'', rq_created_at = 2, rq_updated_at = 3 \<rparr>],
     db_assigned = [(''ivn_req_u'', ''v'')],
     db_ballots = [\<lparr> vr_request_id = ''ivn_req_u'', vr_validator_id = ''v'', vr_decision = ''check'', vr_signature = ''h'',
                     vr_cast_at = 3 \<rparr>] \<rparr>"

lemmas sample_ivn_defs = sample_ivn_lib_def sample_ivn_config_def sample_ivn_db_def market_config_default_def

lemma sample_ivn_run: "ivn_run sample_ivn_lib sample_ivn_config sample_ivn_ops ivn_empty = sample_ivn_db"
  by (simp add: ivn_run_def sample_ivn_ops_def ivn_step_def sample_ivn_defs ivn_empty_def register_validator_def not_empty_def
      trim_def ascii_space_def normalize_public_key_def create_identity_request_def choose_validators_def ivn_cast_vote_def
      check_vote_signature_def decode_verifying_key_def decode_signature_def load_request_def ballots_of_def assigned_to_def
      parse_status_def parse_decision_def record_ballot_def set_status_def evaluate_votes_def count_votes_def Let_def)

theorem request_status_counts_votes_witness:
  "\<exists>r. load_request sample_ivn_lib sample_ivn_db ''ivn_req_u'' = Ok (Some r)
     \<and> id_status r = status_by_votes sample_ivn_config 1 [VdCheck] \<and> id_votes r \<noteq> []"
proof -
  have "load_request sample_ivn_lib sample_ivn_db ''ivn_req_u'' = Ok (Some \<lparr> id_id = ''ivn_req_u'', id_applicant = ''a'',
      id_status = RsPassed, id_validators = [''v''], id_votes = [\<lparr> vo_validator_id = ''v'', vo_decision = VdCheck,
      vo_signature = ''h'', vo_cast_at = 3 \<rparr>], id_created_at = 2, id_updated_at = 3 \<rparr>)"
    by (simp add: load_request_def sample_ivn_db_def ballots_of_def assigned_to_def parse_status_def parse_decision_def)
  with request_status_counts_votes [OF sample_ivn_run [symmetric], of "''ivn_req_u''"] show ?thesis by auto
qed

section \<open>A decided request stays as it is\<close>

lemma step_keeps_decided:
  assumes ok: "ivn_ok L cfg db" and found: "List.find (\<lambda>r. rq_id r = q) (db_requests db) = Some row"
    and decided: "request_state cfg db q \<noteq> RsPending"
  shows "List.find (\<lambda>r. rq_id r = q) (db_requests (ivn_step L cfg x db)) = Some row
     \<and> assigned_to q (ivn_step L cfg x db) = assigned_to q db \<and> ballots_of q (ivn_step L cfg x db) = ballots_of q db"
proof (cases x)
  case (IoRegister now n k)
  then show ?thesis using register_cases [of L now n k db] found
    by (auto simp: ivn_step_def assigned_to_def ballots_of_def)
next
  case (IoCreate uuid now a)
  have q: "q \<in> set (map rq_id (db_requests db))" using find_request [OF found] by auto
  from create_cases [of L cfg uuid now a db] show ?thesis
  proof (elim disjE exE conjE)
    assume "snd (create_identity_request L cfg uuid now a db) = db"
    then show ?thesis using IoCreate found by (simp add: ivn_step_def)
  next
    fix r assume r: "rq_id r \<notin> set (map rq_id (db_requests db))"
      and c: "snd (create_identity_request L cfg uuid now a db)
            = open_request r (choose_validators L (rq_id r) (unat (mc_ivn_validators_per_request cfg)) db) db"
    have "rq_id r \<noteq> q" using r q by auto
    then show ?thesis using IoCreate c found find_append_some [OF found]
      by (simp add: ivn_step_def open_request_def assigned_to_def ballots_of_def filter_empty_conv)
  qed
next
  case (IoVote now c)
  obtain res db' where cv: "ivn_cast_vote L cfg now c db = (res, db')" by force
  from cast_vote_cases [OF ok cv] show ?thesis
  proof (elim disjE exE conjE)
    assume "db' = db"
    then show ?thesis using IoVote cv found by (simp add: ivn_step_def)
  next
    fix sig rowc b s
    assume "request_state cfg db (ci_request_id c) = RsPending"
      and b: "b = \<lparr> vr_request_id = ci_request_id c, vr_validator_id = ci_validator_id c,
                vr_decision = decision_str (ci_decision c), vr_signature = il_hex_encode L sig, vr_cast_at = now \<rparr>"
      and db': "db' = after_vote b (evaluate_votes (length (assigned_to (ci_request_id c) db))
                  (map decision_of (ballots_of (ci_request_id c) db) @ [ci_decision c]) (mc_ivn_quorum_permille cfg)) now db"
    then have ne: "q \<noteq> vr_request_id b" using decided by auto
    have "List.find (\<lambda>r. rq_id r = q) (map (\<lambda>r. if rq_id r = vr_request_id b
        then r\<lparr> rq_status := st, rq_updated_at := t \<rparr> else r) rs) = List.find (\<lambda>r. rq_id r = q) rs"
      for st t and rs :: "request_row list"
      using ne by (induction rs) auto
    then show ?thesis using IoVote cv db' found ballots_after_vote(1) [OF ne]
      by (simp add: ivn_step_def after_vote_requests)
  qed
qed

lemma run_keeps_decided:
  assumes "ivn_ok L cfg db" and "List.find (\<lambda>r. rq_id r = q) (db_requests db) = Some row" and "request_state cfg db q \<noteq> RsPending"
  shows "load_request L (ivn_run L cfg xs db) q = load_request L db q"
  using assms
proof (induction xs arbitrary: db)
  case Nil
  then show ?case by (simp add: ivn_run_def)
next
  case (Cons x xs)
  let ?d = "ivn_step L cfg x db"
  note k = step_keeps_decided [OF Cons.prems, of x]
  have ok: "ivn_ok L cfg ?d" by (rule ivn_step_ok [OF Cons.prems(1)])
  have st: "request_state cfg ?d q = request_state cfg db q" using k by (simp add: request_state_def)
  have "load_request L (ivn_run L cfg xs ?d) q = load_request L ?d q"
    using Cons.IH [OF ok] k st Cons.prems(3) by simp
  moreover have "rq_id row = q" using find_request [OF Cons.prems(2)] by simp
  then have "load_request L ?d q = load_request L db q"
    using load_request_ok [OF ok, of q] load_request_ok [OF Cons.prems(1), of q] Cons.prems(2) k st by (simp add: request_view_def)
  ultimately show ?case by (simp add: ivn_run_def)
qed

text \<open>C15: A request that is no longer pending never changes: whatever follows, it reads as it did, its status, its votes
  and its times included.\<close>

theorem decided_request_is_final:
  assumes "db = ivn_run L cfg xs ivn_empty" and "load_request L db q = Ok (Some r)" and "id_status r \<noteq> RsPending"
  shows "load_request L (ivn_run L cfg later db) q = Ok (Some r)"
proof -
  have ok: "ivn_ok L cfg db" unfolding assms(1) by (rule ivn_run_ok [OF ivn_ok_empty])
  then obtain x where x: "List.find (\<lambda>r. rq_id r = q) (db_requests db) = Some x" "r = request_view cfg db x"
    using load_request_ok [OF ok, of q] assms(2)
    by (cases "List.find (\<lambda>r. rq_id r = q) (db_requests db)") auto
  then have "request_state cfg db q \<noteq> RsPending" using assms(3) find_request [OF x(1)] by (simp add: request_view_def)
  then show ?thesis using run_keeps_decided [OF ok x(1)] assms(2) by simp
qed

theorem decided_request_is_final_witness:
  "\<exists>r. id_status r = RsPassed \<and> load_request sample_ivn_lib (ivn_run sample_ivn_lib sample_ivn_config
     [IoVote 9 \<lparr> ci_request_id = ''ivn_req_u'', ci_validator_id = ''v'', ci_decision = VdReject, ci_signature = ''s'' \<rparr>]
     sample_ivn_db) ''ivn_req_u'' = Ok (Some r)"
proof -
  let ?r = "\<lparr> id_id = ''ivn_req_u'', id_applicant = ''a'',
      id_status = RsPassed, id_validators = [''v''], id_votes = [\<lparr> vo_validator_id = ''v'', vo_decision = VdCheck,
      vo_signature = ''h'', vo_cast_at = 3 \<rparr>], id_created_at = 2, id_updated_at = 3 \<rparr>"
  have "load_request sample_ivn_lib sample_ivn_db ''ivn_req_u'' = Ok (Some ?r)"
    by (simp add: load_request_def sample_ivn_db_def ballots_of_def assigned_to_def parse_status_def parse_decision_def)
  with decided_request_is_final [OF sample_ivn_run [symmetric] this] show ?thesis by (intro exI [of _ ?r]) simp
qed

section \<open>What the evaluation decides\<close>

abbreviation votes_for :: "vote_decision \<Rightarrow> vote_decision list \<Rightarrow> nat" where
  "votes_for d ds \<equiv> length (filter (\<lambda>x. x = d) ds)"

lemma unat_small_mult:
  assumes "a < 2 ^ 53" and "b \<le> 1000"
  shows "unat (of_nat a * of_nat b :: 64 word) = a * b"
proof -
  have "a * b \<le> 2 ^ 53 * 1000" using assms by (intro mult_le_mono) simp_all
  then have "a * b < 2 ^ LENGTH(64)" by simp
  then show ?thesis using unat_of_nat_small [of "a * b", where 'a = 64] by simp
qed

lemma evaluate_votes_nat:
  assumes "n < 2 ^ 32" and "unat k \<le> 1000" and "length ds \<le> n"
  shows "evaluate_votes n ds k =
     (if unat k * n \<le> votes_for VdCheck ds * 1000 then RsPassed
      else if (n - votes_for VdReject ds) * 1000 < unat k * n then RsRejected
      else if n \<le> length ds then RsQuorumNotMet else RsPending)"
proof -
  have small: "unat (of_nat m :: 64 word) = m" if "m \<le> n" for m
    by (rule unat_of_nat_small) (use that assms(1) in simp)
  have c: "votes_for d ds \<le> n" for d using assms(3) length_filter_le [of "\<lambda>x. x = d" ds] by linarith
  have k: "ucast k = (of_nat (unat k) :: 64 word)" by simp
  have q: "unat (ucast k * of_nat n :: 64 word) = unat k * n"
    using unat_small_mult [of n "unat k"] assms(1,2) by (simp add: mult.commute)
  have m: "unat (of_nat m * 1000 :: 64 word) = m * 1000" if "m \<le> n" for m
    using unat_small_mult [of m 1000] that assms(1) by simp
  have s: "sat_sub (of_nat n) (of_nat (votes_for VdReject ds) :: 64 word) = of_nat (n - votes_for VdReject ds)"
    using c [of VdReject] small [of n] small [of "votes_for VdReject ds"] by (auto simp: sat_sub_def word_le_nat_alt of_nat_diff)
  show ?thesis
    using m [OF c, of VdCheck] m [of "n - votes_for VdReject ds"] q small [of n] small [of "length ds"] assms(3)
    unfolding evaluate_votes_def count_votes_def Let_def s by (simp add: word_le_nat_alt word_less_nat_alt)
qed

lemma votes_partition: "votes_for VdCheck ds + votes_for VdReject ds \<le> length ds"
  by (induction ds) auto

text \<open>C17: What the evaluation of votes means, for up to \<open>2 ^ 32\<close> validators and a quorum of at most 1000 thousandths: a
  request passes exactly when its approvals reach the quorum, once passed it passes with any further votes, once rejected
  or short of the quorum no further votes make it pass, a request is pending only while votes are missing, and as long as nobody abstained it is pending only if
  the missing votes could still make it pass.\<close>

theorem evaluate_decides:
  assumes "n < 2 ^ 32" and "unat k \<le> 1000" and "length ds \<le> n"
  shows "(evaluate_votes n ds k = RsPassed \<longleftrightarrow> unat k * n \<le> 1000 * votes_for VdCheck ds)
     \<and> (\<forall>more. length (ds @ more) \<le> n \<longrightarrow>
          (evaluate_votes n ds k = RsPassed \<longrightarrow> evaluate_votes n (ds @ more) k = RsPassed)
          \<and> (evaluate_votes n ds k = RsRejected \<or> evaluate_votes n ds k = RsQuorumNotMet \<longrightarrow> evaluate_votes n (ds @ more) k \<noteq> RsPassed))
     \<and> (evaluate_votes n ds k = RsPending \<longrightarrow> length ds < n)
     \<and> (evaluate_votes n ds k = RsPending \<and> VdAbstain \<notin> set ds
          \<longrightarrow> evaluate_votes n (ds @ replicate (n - length ds) VdCheck) k = RsPassed)"
proof (intro conjI)
  note ev = evaluate_votes_nat [OF assms]
  show "evaluate_votes n ds k = RsPassed \<longleftrightarrow> unat k * n \<le> 1000 * votes_for VdCheck ds" by (simp add: ev mult.commute)
  show "\<forall>more. length (ds @ more) \<le> n \<longrightarrow>
          (evaluate_votes n ds k = RsPassed \<longrightarrow> evaluate_votes n (ds @ more) k = RsPassed)
          \<and> (evaluate_votes n ds k = RsRejected \<or> evaluate_votes n ds k = RsQuorumNotMet \<longrightarrow> evaluate_votes n (ds @ more) k \<noteq> RsPassed)"
  proof (intro allI impI)
    fix more assume len: "length (ds @ more) \<le> n"
    have "votes_for VdCheck (ds @ more) \<le> n - votes_for VdReject ds"
      using votes_partition [of "ds @ more"] len by simp
    then show "(evaluate_votes n ds k = RsPassed \<longrightarrow> evaluate_votes n (ds @ more) k = RsPassed)
          \<and> (evaluate_votes n ds k = RsRejected \<or> evaluate_votes n ds k = RsQuorumNotMet \<longrightarrow> evaluate_votes n (ds @ more) k \<noteq> RsPassed)"
      using len by (auto simp: ev evaluate_votes_nat [OF assms(1,2) len] split: if_splits)
  qed
  show "evaluate_votes n ds k = RsPending \<longrightarrow> length ds < n" by (simp add: ev)
  show "evaluate_votes n ds k = RsPending \<and> VdAbstain \<notin> set ds
          \<longrightarrow> evaluate_votes n (ds @ replicate (n - length ds) VdCheck) k = RsPassed"
  proof (intro impI, elim conjE)
    assume p: "evaluate_votes n ds k = RsPending" and na: "VdAbstain \<notin> set ds"
    have "votes_for VdCheck ds + votes_for VdReject ds = length ds" using na
    proof (induction ds)
      case (Cons d ds)
      then show ?case by (cases d) auto
    qed simp
    then have "votes_for VdCheck (ds @ replicate (n - length ds) VdCheck) = n - votes_for VdReject ds" using assms(3) by simp
    moreover have "length (ds @ replicate (n - length ds) VdCheck) \<le> n" using assms(3) by simp
    ultimately show "evaluate_votes n (ds @ replicate (n - length ds) VdCheck) k = RsPassed"
      using p evaluate_votes_nat [OF assms(1,2), of "ds @ replicate (n - length ds) VdCheck"] by (auto simp: ev split: if_splits)
  qed
qed

theorem evaluate_decides_witness:
  "evaluate_votes 5 ([VdCheck, VdReject] @ [VdCheck, VdCheck, VdCheck]) 800 = RsPassed"
proof -
  have p: "evaluate_votes 5 [VdCheck, VdReject] 800 = RsPending" by (simp add: evaluate_votes_nat)
  have r: "replicate (5 - length [VdCheck, VdReject]) VdCheck = [VdCheck, VdCheck, VdCheck]" by (simp add: numeral_eq_Suc)
  have "evaluate_votes 5 [VdCheck, VdReject] 800 = RsPending \<and> VdAbstain \<notin> set [VdCheck, VdReject]
          \<longrightarrow> evaluate_votes 5 ([VdCheck, VdReject] @ replicate (5 - length [VdCheck, VdReject]) VdCheck) 800 = RsPassed"
    by (rule evaluate_decides [THEN conjunct2, THEN conjunct2, THEN conjunct2]) simp_all
  then show ?thesis using p unfolding r by simp
qed

text \<open>The comment on \<open>Rejected\<close> is that the quorum can no longer be met. An abstention takes away an approval too, but
  the request stays pending: with five validators and four approvals needed, after two abstentions nothing makes it pass.\<close>

lemma hopeless_request_stays_pending:
  "evaluate_votes 5 [VdAbstain, VdAbstain] 800 = RsPending"
  "evaluate_votes 5 ([VdAbstain, VdAbstain] @ [VdCheck, VdCheck, VdCheck]) 800 = RsQuorumNotMet"
  by (simp_all add: evaluate_votes_nat)

text \<open>The applicant is not kept out: when there are just enough validators all of them are assigned, one with the name
  of the applicant too.\<close>

lemma applicant_may_be_assigned:
  assumes "distinct (map va_node_id (db_validators db))" and "length (db_validators db) = n"
  shows "set (choose_validators L q n db) = set (map va_node_id (db_validators db))"
proof -
  note c = choose_validators_spec [OF assms(1), of n L q]
  have "card (set (choose_validators L q n db)) = card (set (map va_node_id (db_validators db)))"
    using c(1,2) assms by (metis distinct_card length_map order_refl)
  then show ?thesis using c(3) assms(2) by (metis List.finite_set card_subset_eq order_refl)
qed

text \<open>A signature names its request, its validator and its decision, when the identifier of the request is on one line
  as the generated ones are.\<close>

lemma vote_message_unique:
  assumes "CHR 0x0A \<notin> set q" "CHR 0x0A \<notin> set q'"
  shows "vote_message q v d = vote_message q' v' d' \<longleftrightarrow> q = q' \<and> v = v' \<and> d = d'"
proof -
  have no_nl: "CHR 0x0A \<notin> set (rev (decision_str e))" for e by (cases e) simp_all
  have "v @ CHR 0x0A # decision_str d = v' @ CHR 0x0A # decision_str d' \<longleftrightarrow> v = v' \<and> d = d'"
  proof
    assume "v @ CHR 0x0A # decision_str d = v' @ CHR 0x0A # decision_str d'"
    then have "rev (v @ CHR 0x0A # decision_str d) = rev (v' @ CHR 0x0A # decision_str d')" by (rule arg_cong)
    then show "v = v' \<and> d = d'" using separator_unique [OF no_nl no_nl, where a = "rev v" and b = "rev v'"] by simp
  qed simp
  then show ?thesis using separator_unique [OF assms] by (simp add: vote_message_def)
qed

end
