(* ===== verification/MarketListings.thy ===== *)
theory MarketListings
  imports AuditChain "HOL-Library.List_Lexorder" "HOL-Library.Char_ord" "HOL-Library.Multiset"
begin

text \<open>Listings, receipts and offers of the market: \<open>src/crates/xavier-market/src/store.rs\<close>, \<open>model.rs\<close>, \<open>gossip.rs\<close> and
  the identity of a caller from \<open>auth.rs\<close>. The tables are lists of rows in the order of insertion, with the text and
  the signed integers the code stores. Fresh identifiers, the clock, Ed25519, SHA-256 and the debug form of a string
  are arguments. Shown: only its publisher changes a listing, a revoked one never changes and is never bought again, a
  receipt keeps the price of the moment for ever, and two books of offers that meet agree when no two offers for a
  listing have the same time.\<close>

section \<open>The caller of a request\<close>

definition MAX_CLOCK_SKEW_MS :: "64 word" where "MAX_CLOCK_SKEW_MS = 5 * 60 * 1000"

record signed_request =
  sr_public_key_hex :: string
  sr_signature_hex :: string
  sr_timestamp_ms :: "64 word"
  sr_method :: string
  sr_path :: string
  sr_body :: "8 word list"

record auth_lib =
  al_hex_decode :: "string \<Rightarrow> 8 word list option"
  al_hex_encode :: "8 word list \<Rightarrow> string"
  al_key_ok :: "8 word list \<Rightarrow> bool"
  al_verify :: "8 word list \<Rightarrow> string \<Rightarrow> 8 word list \<Rightarrow> bool"
  al_body_hash :: "8 word list \<Rightarrow> string"

definition request_message :: "auth_lib \<Rightarrow> string \<Rightarrow> string \<Rightarrow> 64 word \<Rightarrow> 8 word list \<Rightarrow> string" where
  "request_message A meth path timestamp_ms body =
     ''xavier-market/v2 request'' @ [CHR 0x0A] @ ascii_upper meth @ [CHR 0x0A] @ path @ [CHR 0x0A]
     @ int_dec (sint timestamp_ms) @ [CHR 0x0A] @ al_body_hash A body"

definition decode_fixed :: "auth_lib \<Rightarrow> nat \<Rightarrow> string \<Rightarrow> string \<Rightarrow> (8 word list, market_error) result" where
  "decode_fixed A n what v =
     (case al_hex_decode A v of
        None \<Rightarrow> Err (MeUnauthenticated (what @ '' is not valid hex''))
      | Some bytes \<Rightarrow>
          (if length bytes \<noteq> n then Err (MeUnauthenticated (what @ '' has the wrong length'')) else Ok bytes))"

text \<open>\<open>i64::abs\<close>, which wraps on the least value.\<close>

definition abs_i64 :: "64 word \<Rightarrow> 64 word" where
  "abs_i64 w = (if sint w < 0 then - w else w)"

text \<open>The identity is the publisher's key as hexadecimal text.\<close>

definition actor_verify :: "auth_lib \<Rightarrow> signed_request \<Rightarrow> 64 word \<Rightarrow> (string, market_error) result" where
  "actor_verify A r now_ms =
     (case decode_fixed A 32 ''public key'' (sr_public_key_hex r) of
        Err e \<Rightarrow> Err e
      | Ok key_bytes \<Rightarrow>
     (case decode_fixed A 64 ''signature'' (sr_signature_hex r) of
        Err e \<Rightarrow> Err e
      | Ok signature_bytes \<Rightarrow>
          (if sint MAX_CLOCK_SKEW_MS < sint (abs_i64 (now_ms - sr_timestamp_ms r))
           then Err (MeUnauthenticated ''request timestamp is outside the allowed window'')
           else if \<not> al_key_ok A key_bytes then Err (MeUnauthenticated ''public key is not a valid ed25519 key'')
           else if \<not> al_verify A key_bytes
                     (request_message A (sr_method r) (sr_path r) (sr_timestamp_ms r) (sr_body r)) signature_bytes
           then Err (MeUnauthenticated ''signature does not match the request'')
           else Ok (al_hex_encode A key_bytes))))"

section \<open>Tables\<close>

record listing =
  li_id :: string
  li_seller_id :: string
  li_title :: string
  li_license :: license
  li_price_credits :: "64 word"
  li_created_at :: int
  li_revoked_at :: "int option"

record new_listing =
  nl_seller_id :: string
  nl_title :: string
  nl_license :: license
  nl_price_credits :: "64 word"

record listing_update =
  lu_title :: "string option"
  lu_license :: "license option"
  lu_price_credits :: "64 word option"

record receipt =
  rc_id :: string
  rc_listing_id :: string
  rc_buyer_id :: string
  rc_amount_credits :: "64 word"
  rc_currency :: currency
  rc_created_at :: int

record raw_listing =
  rl_id :: string
  rl_seller_id :: string
  rl_title :: string
  rl_license :: string
  rl_price_credits :: int
  rl_created_at :: int
  rl_revoked_at :: "int option"

record raw_receipt =
  rr_id :: string
  rr_listing_id :: string
  rr_buyer_id :: string
  rr_amount_credits :: int
  rr_currency :: string
  rr_created_at :: int

record market_db =
  md_listings :: "raw_listing list"
  md_receipts :: "raw_receipt list"

definition into_listing :: "(string \<Rightarrow> string) \<Rightarrow> raw_listing \<Rightarrow> (listing, market_error) result" where
  "into_listing debug r =
     (case license_parse (rl_license r) of
        Err e \<Rightarrow> Err (MeCorrupt (''listing '' @ rl_id r @ '': unknown license '' @ debug (trim (rl_license r))
                   @ '': only the fixed menu is accepted''))
      | Ok l \<Rightarrow> Ok \<lparr> li_id = rl_id r, li_seller_id = rl_seller_id r, li_title = rl_title r, li_license = l,
                     li_price_credits = word_of_int (rl_price_credits r), li_created_at = rl_created_at r,
                     li_revoked_at = rl_revoked_at r \<rparr>)"

definition into_receipt :: "(string \<Rightarrow> string) \<Rightarrow> raw_receipt \<Rightarrow> (receipt, market_error) result" where
  "into_receipt debug r =
     (let done = (\<lambda>c. Ok \<lparr> rc_id = rr_id r, rc_listing_id = rr_listing_id r, rc_buyer_id = rr_buyer_id r,
                          rc_amount_credits = word_of_int (rr_amount_credits r), rc_currency = c,
                          rc_created_at = rr_created_at r \<rparr>)
      in if rr_currency r = ''internal_credits'' then done InternalCredits
         else if rr_currency r = ''usd_polar'' then done UsdPolar
         else if rr_currency r = ''swal_token'' then done SwalToken
         else Err (MeCorrupt (''receipt '' @ rr_id r @ '': unknown currency '' @ debug (rr_currency r))))"

fun collect_rows :: "('r \<Rightarrow> ('v, market_error) result) \<Rightarrow> 'r list \<Rightarrow> ('v list, market_error) result" where
  "collect_rows f [] = Ok []"
| "collect_rows f (r # rs) =
     (case f r of
        Err e \<Rightarrow> Err e
      | Ok x \<Rightarrow> (case collect_rows f rs of Err e \<Rightarrow> Err e | Ok xs \<Rightarrow> Ok (x # xs)))"

definition nonblank :: "string \<Rightarrow> string \<Rightarrow> (string, market_error) result" where
  "nonblank field v =
     (let t = trim v in if t = [] then Err (MeInvalidInput (field @ '' must not be empty'')) else Ok t)"

definition check_credits :: "64 word \<Rightarrow> (unit, market_error) result" where
  "check_credits price =
     (if 2 ^ 63 - 1 < unat price then Err (MeInvalidInput ''price_credits exceeds the storable range'') else Ok ())"

definition ensure_license_enabled :: "market_config \<Rightarrow> license \<Rightarrow> (unit, market_error) result" where
  "ensure_license_enabled cfg l =
     (if l \<in> set (mc_licenses cfg) then Ok () else Err (MeLicenseNotEnabled (license_str l)))"

definition raw_of :: "string \<Rightarrow> market_db \<Rightarrow> raw_listing option" where
  "raw_of i db = List.find (\<lambda>r. rl_id r = i) (md_listings db)"

definition query_listing :: "(string \<Rightarrow> string) \<Rightarrow> market_db \<Rightarrow> string \<Rightarrow> (listing option, market_error) result" where
  "query_listing debug db i =
     (case raw_of i db of
        None \<Rightarrow> Ok None
      | Some r \<Rightarrow> (case into_listing debug r of Err e \<Rightarrow> Err e | Ok l \<Rightarrow> Ok (Some l)))"

definition owned_listing :: "(string \<Rightarrow> string) \<Rightarrow> market_db \<Rightarrow> string \<Rightarrow> string \<Rightarrow> (listing, market_error) result" where
  "owned_listing debug db i actor =
     (case query_listing debug db i of
        Err e \<Rightarrow> Err e
      | Ok None \<Rightarrow> Err (MeListingNotFound i)
      | Ok (Some l) \<Rightarrow>
          (if li_seller_id l \<noteq> actor then Err (MeForbidden (''listing '' @ i @ '' belongs to another publisher'')) else Ok l))"

definition change_row :: "string \<Rightarrow> (raw_listing \<Rightarrow> raw_listing) \<Rightarrow> market_db \<Rightarrow> market_db" where
  "change_row i f db = db\<lparr> md_listings := map (\<lambda>r. if rl_id r = i then f r else r) (md_listings db) \<rparr>"

section \<open>Operations of the store\<close>

definition create_listing :: "market_config \<Rightarrow> string \<Rightarrow> string \<Rightarrow> int \<Rightarrow> new_listing \<Rightarrow> market_db
    \<Rightarrow> (listing, market_error) result \<times> market_db" where
  "create_listing cfg actor uuid now new db =
     (if ascii_lower (trim (nl_seller_id new)) \<noteq> ascii_lower actor
      then (Err (MeForbidden ''seller_id must be the id of the key that signed the request''), db)
      else case nonblank ''title'' (nl_title new) of Err e \<Rightarrow> (Err e, db) | Ok title \<Rightarrow>
      (case ensure_license_enabled cfg (nl_license new) of Err e \<Rightarrow> (Err e, db) | Ok _ \<Rightarrow>
      (case check_credits (nl_price_credits new) of Err e \<Rightarrow> (Err e, db) | Ok _ \<Rightarrow>
        (if nl_price_credits new < mc_price_floor_credits cfg
         then (Err (MeInvalidInput (''price_credits '' @ nat_dec (unat (nl_price_credits new)) @ '' is below the floor ''
                     @ nat_dec (unat (mc_price_floor_credits cfg)))), db)
         else if list_ex (\<lambda>r. rl_id r = uuid) (md_listings db) then (Err MeSqlite, db)
         else (Ok \<lparr> li_id = uuid, li_seller_id = actor, li_title = title, li_license = nl_license new,
                    li_price_credits = nl_price_credits new, li_created_at = now, li_revoked_at = None \<rparr>,
               db\<lparr> md_listings := md_listings db @ [\<lparr> rl_id = uuid, rl_seller_id = actor, rl_title = title,
                      rl_license = license_str (nl_license new), rl_price_credits = sint (nl_price_credits new),
                      rl_created_at = now, rl_revoked_at = None \<rparr>] \<rparr>)))))"

definition update_title :: "listing_update \<Rightarrow> (string option, market_error) result" where
  "update_title u =
     (case lu_title u of
        None \<Rightarrow> Ok None
      | Some t \<Rightarrow> (case nonblank ''title'' t of Err e \<Rightarrow> Err e | Ok t' \<Rightarrow> Ok (Some t')))"

text \<open>The fields present in the update take the place of those of the listing.\<close>

definition updated_listing :: "string option \<Rightarrow> listing_update \<Rightarrow> listing \<Rightarrow> listing" where
  "updated_listing title u l =
     (let l1 = (case title of None \<Rightarrow> l | Some t \<Rightarrow> l\<lparr> li_title := t \<rparr>);
          l2 = (case lu_license u of None \<Rightarrow> l1 | Some x \<Rightarrow> l1\<lparr> li_license := x \<rparr>)
      in (case lu_price_credits u of None \<Rightarrow> l2 | Some p \<Rightarrow> l2\<lparr> li_price_credits := p \<rparr>))"

definition update_listing :: "(string \<Rightarrow> string) \<Rightarrow> market_config \<Rightarrow> string \<Rightarrow> string \<Rightarrow> listing_update \<Rightarrow> market_db
    \<Rightarrow> (listing, market_error) result \<times> market_db" where
  "update_listing debug cfg actor i u db =
     (if lu_title u = None \<and> lu_license u = None \<and> lu_price_credits u = None
      then (Err (MeInvalidInput ''update must change at least one field''), db)
      else case update_title u of Err e \<Rightarrow> (Err e, db) | Ok title \<Rightarrow>
      (case (case lu_license u of None \<Rightarrow> Ok () | Some l \<Rightarrow> ensure_license_enabled cfg l) of
        Err e \<Rightarrow> (Err e, db) | Ok _ \<Rightarrow>
      (case (case lu_price_credits u of None \<Rightarrow> Ok () | Some p \<Rightarrow> check_credits p) of
        Err e \<Rightarrow> (Err e, db) | Ok _ \<Rightarrow>
      (case owned_listing debug db i actor of
        Err e \<Rightarrow> (Err e, db) | Ok l \<Rightarrow>
        (if li_revoked_at l \<noteq> None then (Err (MeListingRevoked i), db)
         else let new = updated_listing title u l
           in (Ok new, change_row (li_id new) (\<lambda>r. r\<lparr> rl_title := li_title new, rl_license := license_str (li_license new),
                        rl_price_credits := sint (li_price_credits new) \<rparr>) db))))))"

definition revoke_listing :: "(string \<Rightarrow> string) \<Rightarrow> string \<Rightarrow> string \<Rightarrow> int \<Rightarrow> market_db
    \<Rightarrow> (listing, market_error) result \<times> market_db" where
  "revoke_listing debug actor i now db =
     (case owned_listing debug db i actor of
        Err e \<Rightarrow> (Err e, db)
      | Ok l \<Rightarrow>
          (if li_revoked_at l = None
           then (Ok (l\<lparr> li_revoked_at := Some now \<rparr>), change_row (li_id l) (\<lambda>r. r\<lparr> rl_revoked_at := Some now \<rparr>) db)
           else (Ok l, db)))"

definition list_listings :: "(string \<Rightarrow> string) \<Rightarrow> market_db \<Rightarrow> (listing list, market_error) result" where
  "list_listings debug db = collect_rows (into_listing debug) (sort_key rl_created_at (md_listings db))"

definition record_receipt :: "market_config \<Rightarrow> string \<Rightarrow> int \<Rightarrow> string \<Rightarrow> string \<Rightarrow> market_db
    \<Rightarrow> (receipt, market_error) result \<times> market_db" where
  "record_receipt cfg uuid now listing_id buyer db =
     (case nonblank ''buyer_id'' buyer of
        Err e \<Rightarrow> (Err e, db)
      | Ok b \<Rightarrow>
          (case raw_of listing_id db of
             None \<Rightarrow> (Err (MeListingNotFound listing_id), db)
           | Some r \<Rightarrow>
               (if rl_revoked_at r \<noteq> None then (Err (MeListingRevoked listing_id), db)
                else let amount = word_of_int (rl_price_credits r) :: 64 word in
                  if list_ex (\<lambda>x. rr_id x = uuid) (md_receipts db) then (Err MeSqlite, db)
                  else (Ok \<lparr> rc_id = uuid, rc_listing_id = listing_id, rc_buyer_id = b, rc_amount_credits = amount,
                             rc_currency = mc_currency cfg, rc_created_at = now \<rparr>,
                        db\<lparr> md_receipts := md_receipts db @ [\<lparr> rr_id = uuid, rr_listing_id = listing_id, rr_buyer_id = b,
                             rr_amount_credits = sint amount, rr_currency = currency_str (mc_currency cfg),
                             rr_created_at = now \<rparr>] \<rparr>))))"

definition receipts_for_buyer :: "(string \<Rightarrow> string) \<Rightarrow> string \<Rightarrow> market_db \<Rightarrow> (receipt list, market_error) result" where
  "receipts_for_buyer debug b db =
     collect_rows (into_receipt debug) (sort_key rr_created_at (filter (\<lambda>r. rr_buyer_id r = b) (md_receipts db)))"

definition list_receipts :: "(string \<Rightarrow> string) \<Rightarrow> market_db \<Rightarrow> (receipt list, market_error) result" where
  "list_receipts debug db = collect_rows (into_receipt debug) (sort_key rr_created_at (md_receipts db))"

definition listing_leaf :: "(string \<Rightarrow> string) \<Rightarrow> listing \<Rightarrow> string" where
  "listing_leaf hash_hex l =
     hash_hex (''swal-merkle-listing-v1:'' @ li_id l @ ''|'' @ li_seller_id l @ ''|'' @ li_title l @ ''|''
       @ nat_dec (unat (li_price_credits l)) @ ''|'' @ int_dec (li_created_at l) @ ''|''
       @ int_dec (case li_revoked_at l of None \<Rightarrow> 0 | Some t \<Rightarrow> t))"

definition receipt_leaf :: "(string \<Rightarrow> string) \<Rightarrow> receipt \<Rightarrow> string" where
  "receipt_leaf hash_hex r =
     hash_hex (''swal-merkle-receipt-v1:'' @ rc_id r @ ''|'' @ rc_listing_id r @ ''|'' @ rc_buyer_id r @ ''|''
       @ nat_dec (unat (rc_amount_credits r)) @ ''|'' @ currency_str (rc_currency r) @ ''|'' @ int_dec (rc_created_at r))"

definition collect_merkle_leaves :: "(string \<Rightarrow> string) \<Rightarrow> (string \<Rightarrow> string) \<Rightarrow> audit_log \<Rightarrow> market_db
    \<Rightarrow> (string list, market_error) result" where
  "collect_merkle_leaves hash_hex debug chain db =
     (case list_listings debug db of
        Err e \<Rightarrow> Err e
      | Ok ls \<Rightarrow> (case list_receipts debug db of
          Err e \<Rightarrow> Err e
        | Ok rs \<Rightarrow> Ok (map ar_hash (audit_records chain) @ map (listing_leaf hash_hex) ls @ map (receipt_leaf hash_hex) rs)))"

section \<open>Offers\<close>

record offer =
  of_listing_id :: string
  of_seller_id :: string
  of_content_hash :: string
  of_license :: license
  of_price_credits :: "64 word"
  of_created_at :: int

definition offer_for :: "(string \<Rightarrow> string) \<Rightarrow> listing \<Rightarrow> offer" where
  "offer_for hash_hex l =
     \<lparr> of_listing_id = li_id l, of_seller_id = li_seller_id l,
       of_content_hash = hash_hex (''swal-offer-v1:'' @ li_id l @ ''|'' @ li_seller_id l @ ''|'' @ license_str (li_license l)
         @ ''|'' @ nat_dec (unat (li_price_credits l))),
       of_license = li_license l, of_price_credits = li_price_credits l, of_created_at = li_created_at l \<rparr>"

type_synonym offer_book = "(string, offer) hmap"

definition add_listings :: "(string \<Rightarrow> string) \<Rightarrow> listing list \<Rightarrow> offer_book \<Rightarrow> offer_book" where
  "add_listings hash_hex ls book =
     foldl (\<lambda>b l. let o1 = offer_for hash_hex l in hput (of_listing_id o1) o1 b) book ls"

text \<open>The offers of a book in the order of their keys.\<close>

definition book_offers :: "offer_book \<Rightarrow> offer list" where
  "book_offers book = map snd (sort_key fst book)"

fun merge_offers :: "offer list \<Rightarrow> offer_book \<Rightarrow> nat \<times> offer_book" where
  "merge_offers [] book = (0, book)"
| "merge_offers (x # xs) book =
     (case hget book (of_listing_id x) of
        Some existing \<Rightarrow>
          (if of_created_at existing < of_created_at x
           then (case merge_offers xs (hput (of_listing_id x) x book) of (n, b) \<Rightarrow> (Suc n, b))
           else merge_offers xs book)
      | None \<Rightarrow> (case merge_offers xs (hput (of_listing_id x) x book) of (n, b) \<Rightarrow> (Suc n, b)))"

definition exchange_offers :: "offer_book \<Rightarrow> offer_book \<Rightarrow> offer_book \<times> offer_book" where
  "exchange_offers a b = (let a_offers = book_offers a; b_offers = book_offers b
     in (snd (merge_offers b_offers a), snd (merge_offers a_offers b)))"

definition local_offers :: "(string \<Rightarrow> string) \<Rightarrow> (string \<Rightarrow> string) \<Rightarrow> market_db \<Rightarrow> (offer list, market_error) result" where
  "local_offers hash_hex debug db =
     (case list_listings debug db of Err e \<Rightarrow> Err e | Ok ls \<Rightarrow> Ok (map (offer_for hash_hex) ls))"

definition offer_book_of :: "(string \<Rightarrow> string) \<Rightarrow> (string \<Rightarrow> string) \<Rightarrow> offer_book \<Rightarrow> market_db
    \<Rightarrow> (offer_book, market_error) result" where
  "offer_book_of hash_hex debug book db =
     (case list_listings debug db of Err e \<Rightarrow> Err e | Ok ls \<Rightarrow> Ok (add_listings hash_hex ls book))"

section \<open>Runs\<close>

datatype market_op =
    MoCreate string string int new_listing
  | MoUpdate string string listing_update
  | MoRevoke string string int
  | MoReceipt string int string string

definition market_step :: "(string \<Rightarrow> string) \<Rightarrow> market_config \<Rightarrow> market_op \<Rightarrow> market_db \<Rightarrow> market_db" where
  "market_step debug cfg x db =
     (case x of
        MoCreate actor uuid now new \<Rightarrow> snd (create_listing cfg actor uuid now new db)
      | MoUpdate actor i u \<Rightarrow> snd (update_listing debug cfg actor i u db)
      | MoRevoke actor i now \<Rightarrow> snd (revoke_listing debug actor i now db)
      | MoReceipt uuid now i buyer \<Rightarrow> snd (record_receipt cfg uuid now i buyer db))"

definition market_run :: "(string \<Rightarrow> string) \<Rightarrow> market_config \<Rightarrow> market_op list \<Rightarrow> market_db \<Rightarrow> market_db" where
  "market_run debug cfg xs db = foldl (\<lambda>d x. market_step debug cfg x d) db xs"

text \<open>The publisher an operation on a listing acts for.\<close>

definition op_actor :: "market_op \<Rightarrow> string option" where
  "op_actor x = (case x of MoCreate a _ _ _ \<Rightarrow> Some a | MoUpdate a _ _ \<Rightarrow> Some a | MoRevoke a _ _ \<Rightarrow> Some a | MoReceipt _ _ _ _ \<Rightarrow> None)"

definition receipts_of :: "string \<Rightarrow> market_db \<Rightarrow> raw_receipt list" where
  "receipts_of i db = filter (\<lambda>r. rr_listing_id r = i) (md_receipts db)"

definition market_empty :: market_db where "market_empty = \<lparr> md_listings = [], md_receipts = [] \<rparr>"

section \<open>What a step changes\<close>

lemma raw_of_id: "raw_of i db = Some r \<Longrightarrow> rl_id r = i"
  by (auto simp: raw_of_def find_Some_iff)

lemma raw_of_change:
  assumes "\<And>r. rl_id (f r) = rl_id r"
  shows "raw_of i (change_row j f db) = (if i = j then map_option f (raw_of i db) else raw_of i db)"
proof -
  have "List.find (\<lambda>r. rl_id r = i) (map (\<lambda>r. if rl_id r = j then f r else r) rs)
    = (if i = j then map_option f (List.find (\<lambda>r. rl_id r = i) rs) else List.find (\<lambda>r. rl_id r = i) rs)" for rs
    using assms by (induction rs) auto
  then show ?thesis by (simp add: raw_of_def change_row_def)
qed

lemma find_snoc: "List.find P (xs @ [y]) = (case List.find P xs of Some x \<Rightarrow> Some x | None \<Rightarrow> if P y then Some y else None)"
  by (induction xs) auto

lemma owned_listing_ok:
  assumes "owned_listing debug db i actor = Ok l"
  shows "\<exists>r. raw_of i db = Some r \<and> into_listing debug r = Ok l \<and> rl_seller_id r = actor \<and> rl_id r = i
           \<and> li_id l = i \<and> li_revoked_at l = rl_revoked_at r"
proof -
  from assms obtain r where r: "raw_of i db = Some r" "into_listing debug r = Ok l" "li_seller_id l = actor"
    by (auto simp: owned_listing_def query_listing_def split: option.splits sum.splits if_splits)
  then show ?thesis using raw_of_id [OF r(1)] by (auto simp: into_listing_def split: sum.splits)
qed

lemma updated_listing_simps [simp]:
  "li_id (updated_listing t u l) = li_id l"
  "li_price_credits (updated_listing t u l) = (case lu_price_credits u of None \<Rightarrow> li_price_credits l | Some p \<Rightarrow> p)"
  by (simp_all add: updated_listing_def Let_def split: option.splits)

lemma update_cases:
  "snd (update_listing debug cfg actor i u db) = db
   \<or> (\<exists>r t x p. raw_of i db = Some r \<and> rl_seller_id r = actor \<and> rl_revoked_at r = None
        \<and> (p = word_of_int (rl_price_credits r) \<or> unat (p :: 64 word) < 2 ^ 63)
        \<and> snd (update_listing debug cfg actor i u db)
            = change_row i (\<lambda>r. r\<lparr> rl_title := t, rl_license := license_str x, rl_price_credits := sint p \<rparr>) db)"
proof (cases "owned_listing debug db i actor")
  case (Inl e)
  then have "snd (update_listing debug cfg actor i u db) = db"
    by (auto simp: update_listing_def split: sum.split)
  then show ?thesis ..
next
  case (Inr l)
  then obtain r where r: "raw_of i db = Some r" "into_listing debug r = Ok l" "rl_seller_id r = actor" "li_id l = i"
    "li_revoked_at l = rl_revoked_at r" using owned_listing_ok by blast
  have lp: "li_price_credits l = word_of_int (rl_price_credits r)" using r(2) by (auto simp: into_listing_def split: sum.splits)
  show ?thesis
  proof (cases "snd (update_listing debug cfg actor i u db) = db")
    case False
    obtain title where title: "update_title u = Ok title"
      using False by (cases "update_title u") (auto simp: update_listing_def)
    have lic: "(case lu_license u of None \<Rightarrow> Ok () | Some l \<Rightarrow> ensure_license_enabled cfg l) = Ok ()"
      using False title by (auto simp: update_listing_def split: sum.splits)
    have price: "(case lu_price_credits u of None \<Rightarrow> Ok () | Some p \<Rightarrow> check_credits p) = Ok ()"
      using False title lic by (auto simp: update_listing_def split: sum.splits)
    let ?new = "updated_listing title u l"
    have t: "rl_revoked_at r = None" "snd (update_listing debug cfg actor i u db)
        = change_row i (\<lambda>r. r\<lparr> rl_title := li_title ?new, rl_license := license_str (li_license ?new),
             rl_price_credits := sint (li_price_credits ?new) \<rparr>) db"
      using False title lic price Inr r(4,5) by (auto simp: update_listing_def Let_def split: if_splits)
    have "li_price_credits ?new = word_of_int (rl_price_credits r) \<or> unat (li_price_credits ?new) < 2 ^ 63"
      using price lp by (auto simp: check_credits_def split: option.splits if_splits)
    then show ?thesis using r(1,3) t by blast
  qed simp
qed

lemma revoke_cases:
  "snd (revoke_listing debug actor i now db) = db
   \<or> (\<exists>r. raw_of i db = Some r \<and> rl_seller_id r = actor \<and> rl_revoked_at r = None
        \<and> snd (revoke_listing debug actor i now db) = change_row i (\<lambda>r. r\<lparr> rl_revoked_at := Some now \<rparr>) db)"
proof (cases "owned_listing debug db i actor")
  case (Inr l)
  then show ?thesis using owned_listing_ok [OF Inr] by (auto simp: revoke_listing_def)
qed (simp add: revoke_listing_def)

lemma create_listing_cases:
  "snd (create_listing cfg actor uuid now new db) = db
   \<or> (\<exists>title. \<not> list_ex (\<lambda>r. rl_id r = uuid) (md_listings db) \<and> unat (nl_price_credits new) < 2 ^ 63
        \<and> snd (create_listing cfg actor uuid now new db) = db\<lparr> md_listings := md_listings db @
            [\<lparr> rl_id = uuid, rl_seller_id = actor, rl_title = title, rl_license = license_str (nl_license new),
               rl_price_credits = sint (nl_price_credits new), rl_created_at = now, rl_revoked_at = None \<rparr>] \<rparr>)"
  by (auto simp: create_listing_def check_credits_def split: sum.split)

lemma receipt_cases:
  "snd (record_receipt cfg uuid now i buyer db) = db
   \<or> (\<exists>b r. raw_of i db = Some r \<and> rl_revoked_at r = None \<and> \<not> list_ex (\<lambda>x. rr_id x = uuid) (md_receipts db)
        \<and> snd (record_receipt cfg uuid now i buyer db) = db\<lparr> md_receipts := md_receipts db @
            [\<lparr> rr_id = uuid, rr_listing_id = i, rr_buyer_id = b,
               rr_amount_credits = sint (word_of_int (rl_price_credits r) :: 64 word),
               rr_currency = currency_str (mc_currency cfg), rr_created_at = now \<rparr>] \<rparr>)"
  by (auto simp: record_receipt_def Let_def split: sum.split option.split)

section \<open>Who changes a listing\<close>

lemma market_step_row:
  assumes "raw_of i db = Some row"
  shows "\<exists>row'. raw_of i (market_step debug cfg x db) = Some row' \<and> rl_seller_id row' = rl_seller_id row
     \<and> rl_created_at row' = rl_created_at row
     \<and> (row' \<noteq> row \<longrightarrow> rl_revoked_at row = None \<and> op_actor x = Some (rl_seller_id row))
     \<and> (rl_revoked_at row \<noteq> None \<longrightarrow> receipts_of i (market_step debug cfg x db) = receipts_of i db)"
proof (cases x)
  case (MoCreate actor uuid now new)
  then show ?thesis using create_listing_cases [of cfg actor uuid now new db] assms
    by (auto simp: market_step_def raw_of_def find_snoc receipts_of_def)
next
  case (MoUpdate actor j u)
  then show ?thesis using update_cases [of debug cfg actor j u db] assms
    by (auto simp: market_step_def raw_of_change op_actor_def receipts_of_def) (auto simp: change_row_def)
next
  case (MoRevoke actor j now)
  then show ?thesis using revoke_cases [of debug actor j now db] assms
    by (auto simp: market_step_def raw_of_change op_actor_def receipts_of_def) (auto simp: change_row_def)
next
  case (MoReceipt uuid now j buyer)
  then show ?thesis using receipt_cases [of cfg uuid now j buyer db] assms
    by (auto simp: market_step_def raw_of_def receipts_of_def)
qed

text \<open>C13: A listing, once made, stays with its seller and its time of creation; as long as its publisher makes no request
  nothing of it changes, whoever else does; and once it is revoked nobody changes it and no receipt for it is ever added.\<close>

theorem publisher_controls_listing:
  assumes "raw_of i db = Some row"
  shows "(\<exists>row'. raw_of i (market_run debug cfg xs db) = Some row' \<and> rl_seller_id row' = rl_seller_id row
            \<and> rl_created_at row' = rl_created_at row)
     \<and> ((\<forall>x\<in>set xs. op_actor x \<noteq> Some (rl_seller_id row)) \<longrightarrow> raw_of i (market_run debug cfg xs db) = Some row)
     \<and> (rl_revoked_at row \<noteq> None \<longrightarrow> raw_of i (market_run debug cfg xs db) = Some row
            \<and> receipts_of i (market_run debug cfg xs db) = receipts_of i db)"
  using assms
proof (induction xs arbitrary: db row)
  case Nil
  then show ?case by (simp add: market_run_def)
next
  case (Cons x xs)
  let ?d = "market_step debug cfg x db"
  obtain row1 where r1: "raw_of i ?d = Some row1" "rl_seller_id row1 = rl_seller_id row" "rl_created_at row1 = rl_created_at row"
    "row1 \<noteq> row \<longrightarrow> rl_revoked_at row = None \<and> op_actor x = Some (rl_seller_id row)"
    "rl_revoked_at row \<noteq> None \<longrightarrow> receipts_of i ?d = receipts_of i db"
    using market_step_row [OF Cons.prems, of debug cfg x] by blast
  have run: "market_run debug cfg (x # xs) db = market_run debug cfg xs ?d" by (simp add: market_run_def)
  show ?case unfolding run using Cons.IH [OF r1(1)] r1(2-5) by (cases "row1 = row") auto
qed

definition sample_listing_row :: raw_listing where
  "sample_listing_row = \<lparr> rl_id = ''l'', rl_seller_id = ''s'', rl_title = ''t'', rl_license = ''CC-BY-4.0'',
     rl_price_credits = 5, rl_created_at = 1, rl_revoked_at = Some 2 \<rparr>"

theorem publisher_controls_listing_witness:
  "receipts_of ''l'' (market_run id market_config_default [MoReceipt ''r'' 3 ''l'' ''b'', MoRevoke ''x'' ''l'' 4]
     \<lparr> md_listings = [sample_listing_row], md_receipts = [] \<rparr>) = []"
proof -
  let ?db = "\<lparr> md_listings = [sample_listing_row], md_receipts = [] \<rparr>"
  have "raw_of ''l'' ?db = Some sample_listing_row" by (simp add: raw_of_def sample_listing_row_def)
  from publisher_controls_listing [OF this] show ?thesis by (simp add: sample_listing_row_def receipts_of_def)
qed

section \<open>Receipts\<close>

text \<open>Every row can be read back: licenses and currencies are those of the menu, amounts fit both integer types.\<close>

definition amount_ok :: "int \<Rightarrow> bool" where "amount_ok n = (0 \<le> n \<and> n < 2 ^ 63)"

definition market_ok :: "market_db \<Rightarrow> bool" where
  "market_ok db =
     (list_all (\<lambda>r. (\<exists>l. rl_license r = license_str l) \<and> amount_ok (rl_price_credits r)) (md_listings db)
      \<and> list_all (\<lambda>r. (\<exists>c. rr_currency r = currency_str c) \<and> amount_ok (rr_amount_credits r)) (md_receipts db))"

lemma amount_roundtrip: "amount_ok n \<Longrightarrow> sint (word_of_int n :: 64 word) = n"
  by (simp add: amount_ok_def sint_sbintrunc' signed_take_bit_int_eq_self)

lemma amount_ok_sint: "unat (p :: 64 word) < 2 ^ 63 \<Longrightarrow> amount_ok (sint p)"
proof -
  assume a: "unat p < 2 ^ 63"
  then have "uint p < 2 ^ 63" by (metis of_nat_less_iff of_nat_numeral of_nat_power uint_nat)
  then have "signed_take_bit 63 (uint p) = uint p" by (intro signed_take_bit_int_eq_self) (simp_all add: order_trans [of _ 0])
  then have "sint p = uint p" by (simp add: sint_uint)
  then show ?thesis using \<open>uint p < 2 ^ 63\<close> by (simp add: amount_ok_def)
qed

lemma raw_of_ok: "market_ok db \<Longrightarrow> raw_of i db = Some r \<Longrightarrow> amount_ok (rl_price_credits r)"
  by (auto simp: market_ok_def raw_of_def find_Some_iff list_all_iff)

lemma change_row_ok:
  assumes "market_ok db" and "\<And>r. (\<exists>l. rl_license r = license_str l) \<and> amount_ok (rl_price_credits r)
     \<Longrightarrow> (\<exists>l. rl_license (f r) = license_str l) \<and> amount_ok (rl_price_credits (f r))"
  shows "market_ok (change_row i f db)"
  using assms by (auto simp: market_ok_def change_row_def list_all_iff)

lemma market_step_ok: "market_ok db \<Longrightarrow> market_ok (market_step debug cfg x db)"
proof (cases x)
  case (MoCreate actor uuid now new)
  assume "market_ok db"
  then show ?thesis using create_listing_cases [of cfg actor uuid now new db] amount_ok_sint MoCreate
    by (auto simp: market_step_def market_ok_def)
next
  case (MoUpdate actor j u)
  assume ok: "market_ok db"
  consider "snd (update_listing debug cfg actor j u db) = db"
    | r t x' p where "raw_of j db = Some r" "p = word_of_int (rl_price_credits r) \<or> unat (p :: 64 word) < 2 ^ 63"
      "snd (update_listing debug cfg actor j u db)
        = change_row j (\<lambda>r. r\<lparr> rl_title := t, rl_license := license_str x', rl_price_credits := sint p \<rparr>) db"
    using update_cases [of debug cfg actor j u db] by blast
  then show ?thesis
  proof cases
    case 1
    then show ?thesis using ok MoUpdate by (simp add: market_step_def)
  next
    case 2
    have "amount_ok (sint p)" using 2(2) raw_of_ok [OF ok 2(1)] amount_ok_sint amount_roundtrip by auto
    then have "market_ok (change_row j (\<lambda>r. r\<lparr> rl_title := t, rl_license := license_str x', rl_price_credits := sint p \<rparr>) db)"
      by (intro change_row_ok [OF ok]) auto
    then show ?thesis using 2(3) MoUpdate by (simp add: market_step_def)
  qed
next
  case (MoRevoke actor j now)
  assume ok: "market_ok db"
  have "market_ok (change_row j (\<lambda>r. r\<lparr> rl_revoked_at := Some now \<rparr>) db)" by (rule change_row_ok [OF ok]) simp
  then show ?thesis using revoke_cases [of debug actor j now db] MoRevoke ok by (auto simp: market_step_def)
next
  case (MoReceipt uuid now j buyer)
  assume ok: "market_ok db"
  then show ?thesis using receipt_cases [of cfg uuid now j buyer db] raw_of_ok [OF ok] amount_roundtrip MoReceipt
    by (auto simp: market_step_def market_ok_def)
qed

lemma market_run_ok: "market_ok db \<Longrightarrow> market_ok (market_run debug cfg xs db)"
  unfolding market_run_def by (induction xs arbitrary: db) (simp_all add: market_step_ok)

lemma market_empty_ok: "market_ok market_empty"
  by (simp add: market_ok_def market_empty_def)

lemma receipts_grow: "\<exists>more. md_receipts (market_run debug cfg xs db) = md_receipts db @ more"
proof (induction xs arbitrary: db)
  case (Cons x xs)
  have "\<exists>more. md_receipts (market_step debug cfg x db) = md_receipts db @ more"
  proof (cases x)
    case (MoCreate a uuid now new)
    then show ?thesis using create_listing_cases [of cfg a uuid now new db] by (auto simp: market_step_def)
  next
    case (MoUpdate a j u)
    then show ?thesis using update_cases [of debug cfg a j u db] by (auto simp: market_step_def change_row_def)
  next
    case (MoRevoke a j now)
    then show ?thesis using revoke_cases [of debug a j now db] by (auto simp: market_step_def change_row_def)
  next
    case (MoReceipt uuid now j b)
    then show ?thesis using receipt_cases [of cfg uuid now j b db] by (auto simp: market_step_def)
  qed
  then show ?case using Cons.IH [of "market_step debug cfg x db"] by (auto simp: market_run_def)
qed (simp add: market_run_def)

lemma into_receipt_ok: "rr_currency r = currency_str c \<Longrightarrow> into_receipt debug r
   = Ok \<lparr> rc_id = rr_id r, rc_listing_id = rr_listing_id r, rc_buyer_id = rr_buyer_id r,
          rc_amount_credits = word_of_int (rr_amount_credits r), rc_currency = c, rc_created_at = rr_created_at r \<rparr>"
  by (cases c) (simp_all add: into_receipt_def Let_def)

lemma collect_rows_ok:
  "\<forall>r\<in>set rs. \<exists>x. f r = Ok x \<Longrightarrow> \<exists>xs. collect_rows f rs = Ok xs \<and> set xs = {x. \<exists>r\<in>set rs. f r = Ok x}"
  by (induction rs) force+

text \<open>C18: A receipt is for the price of its listing at that moment, in the currency of the store, and stays: whatever
  happens to the listing later, the receipts of that buyer can be read and this one is among them, unchanged.\<close>

theorem receipt_keeps_price:
  assumes "db = market_run debug cfg before market_empty" and "record_receipt cfg uuid now i buyer db = (Ok r, db')"
  shows "\<exists>row. raw_of i db = Some row \<and> rl_revoked_at row = None \<and> int (unat (rc_amount_credits r)) = rl_price_credits row
     \<and> rc_currency r = mc_currency cfg
     \<and> (\<exists>rs. receipts_for_buyer debug (rc_buyer_id r) (market_run debug cfg later db') = Ok rs \<and> r \<in> set rs)"
proof -
  have ok: "market_ok db" unfolding assms(1) by (rule market_run_ok [OF market_empty_ok])
  from assms(2) obtain b row where row: "raw_of i db = Some row" "rl_revoked_at row = None"
    and r: "r = \<lparr> rc_id = uuid, rc_listing_id = i, rc_buyer_id = b, rc_amount_credits = word_of_int (rl_price_credits row),
                 rc_currency = mc_currency cfg, rc_created_at = now \<rparr>"
    and db': "md_receipts db' = md_receipts db @ [\<lparr> rr_id = uuid, rr_listing_id = i, rr_buyer_id = b,
               rr_amount_credits = sint (word_of_int (rl_price_credits row) :: 64 word),
               rr_currency = currency_str (mc_currency cfg), rr_created_at = now \<rparr>]"
    by (auto simp: record_receipt_def Let_def split: sum.splits option.splits if_splits)
  have price: "amount_ok (rl_price_credits row)" by (rule raw_of_ok [OF ok row(1)])
  then have "uint (word_of_int (rl_price_credits row) :: 64 word) = rl_price_credits row"
    by (simp add: amount_ok_def uint_word_of_int)
  then have amount: "int (unat (rc_amount_credits r)) = rl_price_credits row" by (simp add: r)
  have "db' = market_step debug cfg (MoReceipt uuid now i buyer) db" by (simp add: market_step_def assms(2))
  then have late: "market_ok (market_run debug cfg later db')" by (simp add: market_run_ok market_step_ok ok)
  let ?rows = "sort_key rr_created_at (filter (\<lambda>x. rr_buyer_id x = b) (md_receipts (market_run debug cfg later db')))"
  have "\<forall>x\<in>set ?rows. \<exists>y. into_receipt debug x = Ok y"
    using late into_receipt_ok by (fastforce simp: market_ok_def list_all_iff)
  from collect_rows_ok [OF this] obtain rs where rs: "receipts_for_buyer debug b (market_run debug cfg later db') = Ok rs"
    "set rs = {x. \<exists>y\<in>set ?rows. into_receipt debug y = Ok x}" by (auto simp: receipts_for_buyer_def)
  obtain more where "md_receipts (market_run debug cfg later db') = md_receipts db' @ more" using receipts_grow by blast
  then have "r \<in> set rs" using db' r amount_roundtrip [OF price] by (auto simp: rs(2) into_receipt_ok)
  then show ?thesis using row amount rs(1) r by auto
qed

definition sample_market_ops :: "market_op list" where
  "sample_market_ops = [MoCreate ''s'' ''l'' 1 \<lparr> nl_seller_id = ''s'', nl_title = ''t'', nl_license = CcBy40, nl_price_credits = 5 \<rparr>]"

lemma sample_market_run:
  "market_run id market_config_default sample_market_ops market_empty
   = \<lparr> md_listings = [sample_listing_row\<lparr> rl_revoked_at := None \<rparr>], md_receipts = [] \<rparr>"
  by (simp add: market_run_def sample_market_ops_def market_step_def create_listing_def market_empty_def nonblank_def trim_def
      ascii_space_def ensure_license_enabled_def market_config_default_def license_menu_def check_credits_def sample_listing_row_def
      Let_def)

theorem receipt_keeps_price_witness:
  "\<exists>r rs. receipts_for_buyer id ''b'' (market_run id market_config_default
      [MoUpdate ''s'' ''l'' \<lparr> lu_title = None, lu_license = None, lu_price_credits = Some 9 \<rparr>]
      (snd (record_receipt market_config_default ''r'' 3 ''l'' ''b''
         (market_run id market_config_default sample_market_ops market_empty)))) = Ok rs
     \<and> r \<in> set rs \<and> int (unat (rc_amount_credits r)) = 5"
proof -
  let ?db = "market_run id market_config_default sample_market_ops market_empty"
  let ?r = "\<lparr> rc_id = ''r'', rc_listing_id = ''l'', rc_buyer_id = ''b'', rc_amount_credits = 5, rc_currency = InternalCredits,
              rc_created_at = 3 \<rparr>"
  have row: "raw_of ''l'' ?db = Some (sample_listing_row\<lparr> rl_revoked_at := None \<rparr>)"
    by (simp add: sample_market_run raw_of_def sample_listing_row_def)
  obtain db' where db': "record_receipt market_config_default ''r'' 3 ''l'' ''b'' ?db = (Ok ?r, db')"
  proof -
    have cur: "mc_currency market_config_default = InternalCredits" by (simp add: market_config_default_def)
    have "md_receipts ?db = []" by (simp add: sample_market_run)
    then have "fst (record_receipt market_config_default ''r'' 3 ''l'' ''b'' ?db) = Ok ?r"
      using row by (simp add: record_receipt_def nonblank_def trim_def ascii_space_def Let_def sample_listing_row_def cur)
    then show ?thesis using that by (metis prod.collapse)
  qed
  from receipt_keeps_price [OF refl db', of "[MoUpdate ''s'' ''l'' \<lparr> lu_title = None, lu_license = None, lu_price_credits = Some 9 \<rparr>]"]
  show ?thesis using row db' by (auto simp: sample_listing_row_def intro!: exI [of _ ?r])
qed

text \<open>The price floor holds for new listings only: an update goes below it.\<close>

lemma update_ignores_price_floor:
  "fst (create_listing (market_config_default\<lparr> mc_price_floor_credits := 5 \<rparr>) ''s'' ''n'' 1
     \<lparr> nl_seller_id = ''s'', nl_title = ''t'', nl_license = CcBy40, nl_price_credits = 4 \<rparr> market_empty)
     = Err (MeInvalidInput ''price_credits 4 is below the floor 5'')"
  "is_ok (fst (update_listing id (market_config_default\<lparr> mc_price_floor_credits := 5 \<rparr>) ''s'' ''l''
     \<lparr> lu_title = None, lu_license = None, lu_price_credits = Some 0 \<rparr>
     (market_run id market_config_default sample_market_ops market_empty)))"
proof -
  have d: "nat_dec 4 = ''4''" "nat_dec 5 = ''5''" by (subst nat_dec.simps, code_simp)+
  show "fst (create_listing (market_config_default\<lparr> mc_price_floor_credits := 5 \<rparr>) ''s'' ''n'' 1
     \<lparr> nl_seller_id = ''s'', nl_title = ''t'', nl_license = CcBy40, nl_price_credits = 4 \<rparr> market_empty)
     = Err (MeInvalidInput ''price_credits 4 is below the floor 5'')"
    by (simp add: create_listing_def nonblank_def trim_def ascii_space_def ensure_license_enabled_def market_config_default_def
        license_menu_def check_credits_def Let_def d)
  have "license_parse (license_str CcBy40) = Ok CcBy40" by (rule license_roundtrip)
  then show "is_ok (fst (update_listing id (market_config_default\<lparr> mc_price_floor_credits := 5 \<rparr>) ''s'' ''l''
     \<lparr> lu_title = None, lu_license = None, lu_price_credits = Some 0 \<rparr>
     (market_run id market_config_default sample_market_ops market_empty)))"
    by (simp add: sample_market_run update_listing_def update_title_def check_credits_def owned_listing_def query_listing_def
        raw_of_def sample_listing_row_def into_listing_def Let_def)
qed

text \<open>The leaf of a listing in an anchor does not cover its license.\<close>

lemma leaf_ignores_license: "listing_leaf h (l\<lparr> li_license := x \<rparr>) = listing_leaf h l"
  by (simp add: listing_leaf_def)

section \<open>The clock of a signed request\<close>

text \<open>A time within the window is accepted on either side. The difference is computed in 64 bits: at a distance of exactly
  \<open>2 ^ 63\<close> its absolute value is negative and passes the check.\<close>

lemma skew_check:
  fixes now t :: "64 word"
  assumes "sint now - sint t \<in> {- (2 ^ 63) .. 2 ^ 63 - 1}" and "sint now - sint t \<noteq> - (2 ^ 63)"
  shows "sint MAX_CLOCK_SKEW_MS < sint (abs_i64 (now - t)) \<longleftrightarrow> 300000 < \<bar>sint now - sint t\<bar>"
proof -
  have srange: "signed_take_bit 63 k = k" if "- (2 ^ 63) \<le> k" "k < 2 ^ 63" for k :: int
    using that by (intro signed_take_bit_int_eq_self) simp_all
  have d: "sint (now - t) = sint now - sint t"
  proof -
    have "sint (now - t) = signed_take_bit 63 (sint now - sint t)" by (simp add: sint_word_ariths)
    then show ?thesis using assms(1) srange by auto
  qed
  have "sint (- (now - t)) = - (sint now - sint t)"
  proof -
    have "sint (- (now - t)) = signed_take_bit 63 (- sint (now - t))" by (simp only: sint_word_ariths) simp
    then show ?thesis using assms srange [of "- (sint now - sint t)"] d by auto
  qed
  then show ?thesis using d by (auto simp: abs_i64_def MAX_CLOCK_SKEW_MS_def)
qed

lemma skew_check_wraps: "\<not> sint MAX_CLOCK_SKEW_MS < sint (abs_i64 (now - (now - 2 ^ 63)))"
  by (simp add: abs_i64_def MAX_CLOCK_SKEW_MS_def)

section \<open>Books of offers that meet\<close>

text \<open>The offer a book keeps of what it holds and what comes in: the newer one, its own when the times are equal.\<close>

definition keep_newer :: "offer option \<Rightarrow> offer option \<Rightarrow> offer option" where
  "keep_newer own other =
     (case own of None \<Rightarrow> other
      | Some x \<Rightarrow> (case other of None \<Rightarrow> Some x | Some y \<Rightarrow> if of_created_at x < of_created_at y then Some y else Some x))"

text \<open>A book as the code builds it: keyed by the listing of the offer.\<close>

definition book_ok :: "offer_book \<Rightarrow> bool" where
  "book_ok b = (hmap_ok b \<and> (\<forall>(k, x)\<in>set b. of_listing_id x = k))"

lemma book_ok_empty: "book_ok []"
  by (simp add: book_ok_def)

lemma book_ok_hput: "book_ok b \<Longrightarrow> book_ok (hput (of_listing_id x) x b)"
  unfolding book_ok_def using set_hput_subset [of "of_listing_id x" x b] by auto

lemma book_ok_merge: "book_ok b \<Longrightarrow> book_ok (snd (merge_offers xs b))"
proof (induction xs arbitrary: b)
  case (Cons x xs)
  have "snd (case r of (n, b) \<Rightarrow> (Suc n, b)) = snd r" for r :: "nat \<times> offer_book" by (cases r) simp
  then show ?case using Cons.IH [OF Cons.prems] Cons.IH [OF book_ok_hput [OF Cons.prems]] by (auto split: option.split)
qed simp

lemma book_ok_add_listings: "book_ok b \<Longrightarrow> book_ok (add_listings h ls b)"
  unfolding add_listings_def by (induction ls arbitrary: b) (auto simp: book_ok_hput Let_def)

lemma merge_offers_get:
  assumes "distinct (map of_listing_id xs)"
  shows "hget (snd (merge_offers xs b)) i = keep_newer (hget b i) (List.find (\<lambda>x. of_listing_id x = i) xs)"
  using assms
proof (induction xs arbitrary: b)
  case Nil
  then show ?case by (simp add: keep_newer_def split: option.split)
next
  case (Cons x xs)
  have none: "List.find (\<lambda>y. of_listing_id y = of_listing_id x) xs = None"
    using Cons.prems by (auto simp: find_None_iff image_iff)
  have ih: "hget (snd (merge_offers xs b')) i = keep_newer (hget b' i) (List.find (\<lambda>x. of_listing_id x = i) xs)" for b'
    using Cons by simp
  show ?case
    using ih [of b] ih [of "hput (of_listing_id x) x b"] none
    by (cases "of_listing_id x = i") (auto simp: keep_newer_def split: option.splits prod.splits)
qed

lemma book_offers_get:
  assumes "book_ok b"
  shows "distinct (map of_listing_id (book_offers b))" "List.find (\<lambda>x. of_listing_id x = i) (book_offers b) = hget b i"
proof -
  let ?s = "sort_key fst b"
  have keys: "map of_listing_id (map snd ?s) = map fst ?s" using assms by (auto simp: book_ok_def)
  have "mset (map fst ?s) = mset (map fst b)" by simp
  then have d: "distinct (map fst ?s)" using assms by (metis book_ok_def hmap_ok_def mset_eq_imp_distinct_iff)
  show "distinct (map of_listing_id (book_offers b))" unfolding book_offers_def keys by (rule d)
  have "List.find (\<lambda>x. of_listing_id x = i) (map snd ps) = map_of ps i" if "\<forall>(k, x)\<in>set ps. of_listing_id x = k" for ps :: offer_book
    using that by (induction ps) auto
  then have "List.find (\<lambda>x. of_listing_id x = i) (book_offers b) = map_of ?s i"
    using assms by (simp add: book_offers_def book_ok_def)
  also have "\<dots> = map_of b i"
  proof -
    have "map_of ?s = map_of b"
      by (rule map_of_inject_set [THEN iffD2]) (use assms d in \<open>simp_all add: book_ok_def hmap_ok_def\<close>)
    then show ?thesis by simp
  qed
  finally show "List.find (\<lambda>x. of_listing_id x = i) (book_offers b) = hget b i" .
qed

lemma exchange_get:
  assumes "book_ok a" and "book_ok b" and "exchange_offers a b = (a', b')"
  shows "hget a' i = keep_newer (hget a i) (hget b i)" "hget b' i = keep_newer (hget b i) (hget a i)"
  using assms book_offers_get [OF assms(1)] book_offers_get [OF assms(2)]
  by (auto simp: exchange_offers_def Let_def merge_offers_get)

text \<open>C27: When two books of offers meet and no two of their offers for one listing are different and equally old, both
  hold the same offers afterwards: for every listing either knew the newest offer either had, and for no other.
  Meeting again changes nothing.\<close>

theorem exchange_converges:
  assumes "book_ok a" and "book_ok b" and "exchange_offers a b = (a', b')"
    and "\<forall>i x y. hget a i = Some x \<and> hget b i = Some y \<and> of_created_at x = of_created_at y \<longrightarrow> x = y"
  shows "hget a' = hget b' \<and> book_ok a' \<and> book_ok b'
     \<and> (\<forall>i x. hget a' i = Some x \<longleftrightarrow> (hget a i = Some x \<or> hget b i = Some x)
          \<and> (\<forall>y. hget a i = Some y \<or> hget b i = Some y \<longrightarrow> of_created_at y \<le> of_created_at x))
     \<and> (\<forall>a2 b2 i. exchange_offers a' b' = (a2, b2) \<longrightarrow> hget a2 i = hget a' i \<and> hget b2 i = hget b' i)"
proof -
  note get = exchange_get [OF assms(1-3)]
  have eq: "hget a' i = hget b' i" for i
    using assms(4) [rule_format, of i] by (auto simp: get keep_newer_def split: option.splits)
  have ok: "book_ok a'" "book_ok b'"
    using assms(1-3) book_ok_merge by (auto simp: exchange_offers_def Let_def)
  have newest: "hget a' i = Some x \<longleftrightarrow> (hget a i = Some x \<or> hget b i = Some x)
          \<and> (\<forall>y. hget a i = Some y \<or> hget b i = Some y \<longrightarrow> of_created_at y \<le> of_created_at x)" for i x
  proof (cases "hget a i")
    case None
    then show ?thesis by (cases "hget b i") (auto simp: get keep_newer_def)
  next
    case (Some u)
    show ?thesis
    proof (cases "hget b i")
      case None
      with Some show ?thesis by (auto simp: get keep_newer_def)
    next
      fix v assume v: "hget b i = Some v"
      have "u = v \<or> of_created_at u < of_created_at v \<or> of_created_at v < of_created_at u"
        using assms(4) Some v by (metis linorder_less_linear)
      then show ?thesis using Some v by (auto simp: get keep_newer_def)
    qed
  qed
  have again: "hget a2 i = hget a' i \<and> hget b2 i = hget b' i" if "exchange_offers a' b' = (a2, b2)" for a2 b2 i
    using exchange_get [OF ok that, of i] eq [of i] by (auto simp: keep_newer_def split: option.splits)
  show ?thesis using eq ok newest again by blast
qed

definition sample_offer :: "int \<Rightarrow> offer" where
  "sample_offer t = \<lparr> of_listing_id = ''l'', of_seller_id = ''s'', of_content_hash = ''h'', of_license = CcBy40,
     of_price_credits = 5, of_created_at = t \<rparr>"

theorem exchange_converges_witness:
  "hget (fst (exchange_offers [(''l'', sample_offer 1)] [(''l'', sample_offer 2)])) ''l'' = Some (sample_offer 2)"
proof -
  obtain a' b' where e: "exchange_offers [(''l'', sample_offer 1)] [(''l'', sample_offer 2)] = (a', b')" by force
  let ?a = "[(''l'', sample_offer 1)]" and ?b = "[(''l'', sample_offer 2)]"
  have ok: "book_ok ?a" "book_ok ?b" by (simp_all add: book_ok_def hmap_ok_def sample_offer_def)
  have apart: "\<forall>i x y. hget ?a i = Some x \<and> hget ?b i = Some y \<and> of_created_at x = of_created_at y \<longrightarrow> x = y"
    by (auto simp: sample_offer_def split: if_splits)
  from exchange_converges [OF ok e apart]
  have "hget a' ''l'' = Some (sample_offer 2) \<longleftrightarrow> (hget ?a ''l'' = Some (sample_offer 2) \<or> hget ?b ''l'' = Some (sample_offer 2))
      \<and> (\<forall>y. hget ?a ''l'' = Some y \<or> hget ?b ''l'' = Some y \<longrightarrow> of_created_at y \<le> of_created_at (sample_offer 2))"
    by blast
  then have "hget a' ''l'' = Some (sample_offer 2)" by (auto simp: sample_offer_def)
  then show ?thesis using e by simp
qed

text \<open>An offer keeps the time its listing was made. A changed price is therefore not newer, and does not reach a book that
  knows the old one; two such books differ after every meeting.\<close>

lemma changed_price_does_not_spread:
  fixes l :: listing and h :: "string \<Rightarrow> string"
  assumes "p \<noteq> li_price_credits l"
  defines "old \<equiv> add_listings h [l] []" and "new \<equiv> add_listings h [l\<lparr> li_price_credits := p \<rparr>] []"
  shows "exchange_offers new old = (new, old)" "hget new (li_id l) \<noteq> hget old (li_id l)"
  using assms by (auto simp: exchange_offers_def add_listings_def offer_for_def book_offers_def Let_def)

end
