(* ===== verification/MarketGrants.thy ===== *)
theory MarketGrants
  imports MarketListings
begin

text \<open>Access grants of \<open>src/crates/xavier-market/src/grant.rs\<close>: the key of a data package, wrapped for one buyer, with a
  time limit and revocation. X25519, ChaCha20-Poly1305, Ed25519, SHA-256 and hexadecimal text are the fields of
  \<open>grant_lib\<close>; decoding gives the text of its error. Shown: what a stored grant satisfies, that the routes of grants never
  hand out the key of a grant that ended, and that the buyer gets back the key that was wrapped.\<close>

section \<open>Data\<close>

record access_grant =
  ag_id :: string
  ag_listing_id :: string
  ag_buyer_id :: string
  ag_seller_id :: string
  ag_ephemeral_pubkey_hex :: string
  ag_wrapped_key_hex :: string
  ag_nonce_hex :: string
  ag_created_at :: int
  ag_expires_at :: int
  ag_revoked_at :: "int option"
  ag_signature_hex :: string

datatype grant_error =
    GeNotFound string | GeExpired string | GeRevoked string | GeListingRevoked string | GeInvalidKey string
  | GeInvalidSignature string | GeDecryptionFailed | GeInvalidInput string | GeForbidden string

type_synonym octets = "8 word list"

record grant_lib =
  gl_hex_decode :: "string \<Rightarrow> (octets, string) result"
  gl_hex_encode :: "octets \<Rightarrow> string"
  gl_key_check :: "octets \<Rightarrow> (unit, string) result"
  gl_verify :: "octets \<Rightarrow> octets \<Rightarrow> octets \<Rightarrow> bool"
  gl_sha :: "octets \<Rightarrow> octets"
  gl_public :: "octets \<Rightarrow> octets"
  gl_shared :: "octets \<Rightarrow> octets \<Rightarrow> octets"
  gl_encrypt :: "octets \<Rightarrow> octets \<Rightarrow> octets \<Rightarrow> octets option"
  gl_decrypt :: "octets \<Rightarrow> octets \<Rightarrow> octets \<Rightarrow> octets option"

section \<open>One grant\<close>

definition is_active_at :: "access_grant \<Rightarrow> int \<Rightarrow> bool" where
  "is_active_at g now = (ag_revoked_at g = None \<and> now < ag_expires_at g)"

definition sanitized_if_inactive :: "access_grant \<Rightarrow> int \<Rightarrow> access_grant" where
  "sanitized_if_inactive g now =
     (if is_active_at g now then g
      else g\<lparr> ag_wrapped_key_hex := [], ag_ephemeral_pubkey_hex := [], ag_nonce_hex := [] \<rparr>)"

definition grant_signing_bytes :: "grant_lib \<Rightarrow> string \<Rightarrow> string \<Rightarrow> string \<Rightarrow> string \<Rightarrow> string \<Rightarrow> int \<Rightarrow> octets" where
  "grant_signing_bytes G listing_id buyer ephemeral wrapped nonce expires_at =
     gl_sha G (bytes_of (''xavier-market:access-grant:v1'' @ [CHR 0x0A] @ listing_id @ [CHR 0x0A] @ buyer @ [CHR 0x0A]
       @ ephemeral @ [CHR 0x0A] @ wrapped @ [CHR 0x0A] @ nonce @ [CHR 0x0A] @ int_dec expires_at))"

definition verify_grant_signature :: "grant_lib \<Rightarrow> access_grant \<Rightarrow> (unit, grant_error) result" where
  "verify_grant_signature G g =
     (case gl_hex_decode G (ag_seller_id g) of
        Err e \<Rightarrow> Err (GeInvalidKey (''invalid seller_id hex: '' @ e))
      | Ok pk \<Rightarrow>
          (if length pk \<noteq> 32 then Err (GeInvalidKey ''seller_id must be 32 bytes'')
           else case gl_key_check G pk of
             Err e \<Rightarrow> Err (GeInvalidKey (''invalid ed25519 verifying key: '' @ e))
           | Ok _ \<Rightarrow>
          (case gl_hex_decode G (ag_signature_hex g) of
             Err e \<Rightarrow> Err (GeInvalidSignature (''invalid signature hex: '' @ e))
           | Ok sig \<Rightarrow>
               (if length sig \<noteq> 64 then Err (GeInvalidSignature ''signature must be 64 bytes'')
                else if gl_verify G pk (grant_signing_bytes G (ag_listing_id g) (ag_buyer_id g) (ag_ephemeral_pubkey_hex g)
                          (ag_wrapped_key_hex g) (ag_nonce_hex g) (ag_expires_at g)) sig
                then Ok () else Err (GeInvalidSignature ''signature verification failed'')))))"

definition wrapping_key :: "grant_lib \<Rightarrow> octets \<Rightarrow> octets \<Rightarrow> octets \<Rightarrow> octets" where
  "wrapping_key G shared ephemeral buyer =
     gl_sha G (bytes_of ''XAVIER_MARKET_ACCESS_GRANT_KEY_WRAP_V1:'' @ shared @ ephemeral @ buyer)"

definition wrap_key_for_buyer :: "grant_lib \<Rightarrow> octets \<Rightarrow> octets \<Rightarrow> octets \<Rightarrow> octets
    \<Rightarrow> (string \<times> string \<times> string, grant_error) result" where
  "wrap_key_for_buyer G package_key buyer_pubkey ephemeral_seed nonce =
     (let ephemeral_public = gl_public G ephemeral_seed;
          shared = gl_shared G ephemeral_seed buyer_pubkey
      in case gl_encrypt G (wrapping_key G shared ephemeral_public buyer_pubkey) nonce package_key of
           None \<Rightarrow> Err GeDecryptionFailed
         | Some c \<Rightarrow> Ok (gl_hex_encode G c, gl_hex_encode G ephemeral_public, gl_hex_encode G nonce))"

definition unwrap_key_as_buyer :: "grant_lib \<Rightarrow> access_grant \<Rightarrow> octets \<Rightarrow> int \<Rightarrow> (octets, grant_error) result" where
  "unwrap_key_as_buyer G g buyer_secret now =
     (if ag_revoked_at g \<noteq> None then Err (GeRevoked (ag_id g))
      else if ag_expires_at g \<le> now then Err (GeExpired (ag_id g))
      else case gl_hex_decode G (ag_ephemeral_pubkey_hex g) of
        Err e \<Rightarrow> Err (GeInvalidKey (''invalid ephemeral_pubkey_hex: '' @ e))
      | Ok ephemeral \<Rightarrow>
          (if length ephemeral \<noteq> 32 then Err (GeInvalidKey ''ephemeral pubkey must be 32 bytes'')
           else let buyer_public = gl_public G buyer_secret;
                    derived = wrapping_key G (gl_shared G buyer_secret ephemeral) ephemeral buyer_public
             in case gl_hex_decode G (ag_wrapped_key_hex g) of
               Err e \<Rightarrow> Err (GeInvalidInput (''invalid wrapped_key_hex: '' @ e))
             | Ok ciphertext \<Rightarrow>
             (case gl_hex_decode G (ag_nonce_hex g) of
               Err e \<Rightarrow> Err (GeInvalidInput (''invalid nonce_hex: '' @ e))
             | Ok nonce \<Rightarrow>
                 (if length nonce \<noteq> 12 then Err (GeInvalidInput ''nonce must be 12 bytes'')
                  else case gl_decrypt G derived nonce ciphertext of
                    None \<Rightarrow> Err GeDecryptionFailed
                  | Some p \<Rightarrow> Ok p))))"

section \<open>The table of grants\<close>

type_synonym grant_table = "access_grant list"

text \<open>Hexadecimal input of a given length; \<open>text\<close> is the message on another length.\<close>

definition hex_input :: "grant_lib \<Rightarrow> string \<Rightarrow> (nat \<Rightarrow> bool) \<Rightarrow> string \<Rightarrow> string \<Rightarrow> (octets, market_error) result" where
  "hex_input G field len_ok message v =
     (case gl_hex_decode G v of
        Err e \<Rightarrow> Err (MeInvalidInput (field @ '' is not valid hex: '' @ e))
      | Ok b \<Rightarrow> (if len_ok (length b) then Ok b else Err (MeInvalidInput message)))"

record grant_request =
  gr_listing_id :: string
  gr_buyer :: string
  gr_ephemeral :: string
  gr_wrapped :: string
  gr_nonce :: string
  gr_expires_at :: int
  gr_signature :: string

text \<open>The trimmed fields, each of the stated form.\<close>

definition check_grant_request :: "grant_lib \<Rightarrow> grant_request \<Rightarrow> (grant_request \<times> octets, market_error) result" where
  "check_grant_request G q =
     (case nonblank ''listing_id'' (gr_listing_id q) of Err e \<Rightarrow> Err e | Ok li \<Rightarrow>
     (case nonblank ''buyer_x25519_pubkey_hex'' (gr_buyer q) of Err e \<Rightarrow> Err e | Ok bu \<Rightarrow>
     (case nonblank ''ephemeral_pubkey_hex'' (gr_ephemeral q) of Err e \<Rightarrow> Err e | Ok ep \<Rightarrow>
     (case nonblank ''wrapped_key_hex'' (gr_wrapped q) of Err e \<Rightarrow> Err e | Ok wr \<Rightarrow>
     (case nonblank ''nonce_hex'' (gr_nonce q) of Err e \<Rightarrow> Err e | Ok no \<Rightarrow>
     (case nonblank ''signature_hex'' (gr_signature q) of Err e \<Rightarrow> Err e | Ok si \<Rightarrow>
     (case hex_input G ''buyer_x25519_pubkey_hex'' (\<lambda>n. n = 32) ''buyer_x25519_pubkey_hex must be exactly 32 bytes'' bu of
        Err e \<Rightarrow> Err e | Ok _ \<Rightarrow>
     (case hex_input G ''ephemeral_pubkey_hex'' (\<lambda>n. n = 32) ''ephemeral_pubkey_hex must be exactly 32 bytes'' ep of
        Err e \<Rightarrow> Err e | Ok _ \<Rightarrow>
     (case hex_input G ''nonce_hex'' (\<lambda>n. n = 12) ''nonce_hex must be exactly 12 bytes'' no of
        Err e \<Rightarrow> Err e | Ok _ \<Rightarrow>
     (case hex_input G ''wrapped_key_hex'' (\<lambda>n. 16 \<le> n) ''wrapped_key_hex must contain at least 16 bytes of ciphertext'' wr of
        Err e \<Rightarrow> Err e | Ok _ \<Rightarrow>
     (case hex_input G ''signature_hex'' (\<lambda>n. n = 64) ''signature_hex must be exactly 64 bytes'' si of
        Err e \<Rightarrow> Err e | Ok sig \<Rightarrow>
        Ok (\<lparr> gr_listing_id = li, gr_buyer = bu, gr_ephemeral = ep, gr_wrapped = wr, gr_nonce = no,
              gr_expires_at = gr_expires_at q, gr_signature = si \<rparr>, sig))))))))))))"

definition check_expiry :: "market_config \<Rightarrow> int \<Rightarrow> int \<Rightarrow> (unit, market_error) result" where
  "check_expiry cfg now expires_at =
     (let max_ttl = mc_grant_max_ttl_seconds cfg; max_ms = sint max_ttl * 1000 in
      if expires_at \<le> now then Err (MeInvalidInput ''expires_at_ms must be in the future'')
      else if \<not> (- (2 ^ 63) \<le> max_ms \<and> max_ms < 2 ^ 63) then Err (MeInvalidInput ''grant_max_ttl overflow'')
      else if \<not> (- (2 ^ 63) \<le> now + max_ms \<and> now + max_ms < 2 ^ 63) then Err (MeInvalidInput ''expires_at overflow'')
      else if now + max_ms < expires_at
      then Err (MeInvalidInput (''expires_at_ms exceeds grant_max_ttl_seconds ('' @ nat_dec (unat max_ttl) @ '')''))
      else Ok ())"

definition check_seller_key :: "grant_lib \<Rightarrow> string \<Rightarrow> (octets, market_error) result" where
  "check_seller_key G actor =
     (case gl_hex_decode G actor of
        Err e \<Rightarrow> Err (MeInvalidInput (''seller actor id is not valid hex: '' @ e))
      | Ok pk \<Rightarrow>
          (if length pk \<noteq> 32 then Err (MeInvalidInput ''seller actor id must be 32 bytes'')
           else case gl_key_check G pk of
             Err e \<Rightarrow> Err (MeInvalidInput (''invalid ed25519 verifying key: '' @ e))
           | Ok _ \<Rightarrow> Ok pk))"

definition same_nonce :: "grant_request \<Rightarrow> access_grant \<Rightarrow> bool" where
  "same_nonce q g = (ag_listing_id g = gr_listing_id q \<and> ag_buyer_id g = gr_buyer q
     \<and> ag_ephemeral_pubkey_hex g = gr_ephemeral q \<and> ag_nonce_hex g = gr_nonce q)"

definition create_access_grant :: "grant_lib \<Rightarrow> market_config \<Rightarrow> string \<Rightarrow> string \<Rightarrow> int \<Rightarrow> grant_request \<Rightarrow> market_db
    \<Rightarrow> grant_table \<Rightarrow> (access_grant, market_error) result \<times> grant_table" where
  "create_access_grant G cfg actor uuid now q0 db gs =
     (case check_grant_request G q0 of Err e \<Rightarrow> (Err e, gs) | Ok (q, sig) \<Rightarrow>
     (case check_expiry cfg now (gr_expires_at q) of Err e \<Rightarrow> (Err e, gs) | Ok _ \<Rightarrow>
     (case raw_of (gr_listing_id q) db of None \<Rightarrow> (Err (MeListingNotFound (gr_listing_id q)), gs) | Some row \<Rightarrow>
       (if rl_revoked_at row \<noteq> None then (Err (MeListingRevoked (gr_listing_id q)), gs)
        else if ascii_lower (rl_seller_id row) \<noteq> ascii_lower actor
        then (Err (MeForbidden ''only the listing seller can issue access grants''), gs)
        else if list_ex (same_nonce q) gs
        then (Err (MeConflict ''grant with this ephemeral key and nonce already exists''), gs)
        else case check_seller_key G actor of Err e \<Rightarrow> (Err e, gs) | Ok pk \<Rightarrow>
          (let g = \<lparr> ag_id = ''grant_'' @ uuid, ag_listing_id = gr_listing_id q, ag_buyer_id = gr_buyer q, ag_seller_id = actor,
                     ag_ephemeral_pubkey_hex = gr_ephemeral q, ag_wrapped_key_hex = gr_wrapped q, ag_nonce_hex = gr_nonce q,
                     ag_created_at = now, ag_expires_at = gr_expires_at q, ag_revoked_at = None,
                     ag_signature_hex = gr_signature q \<rparr>
           in if \<not> gl_verify G pk (grant_signing_bytes G (gr_listing_id q) (gr_buyer q) (gr_ephemeral q) (gr_wrapped q)
                        (gr_nonce q) (gr_expires_at q)) sig
              then (Err (MeInvalidInput ''grant signature verification failed''), gs)
              else if list_ex (\<lambda>x. ag_id x = ag_id g) gs then (Err MeSqlite, gs)
              else (Ok g, gs @ [g]))))))"

definition query_grant :: "grant_table \<Rightarrow> string \<Rightarrow> access_grant option" where
  "query_grant gs i = List.find (\<lambda>g. ag_id g = i) gs"

definition list_grants_for_buyer :: "string \<Rightarrow> grant_table \<Rightarrow> grant_table" where
  "list_grants_for_buyer b gs = sort_key (\<lambda>g. - ag_created_at g) (filter (\<lambda>g. ag_buyer_id g = b) gs)"

definition list_grants_for_listing :: "string \<Rightarrow> grant_table \<Rightarrow> grant_table" where
  "list_grants_for_listing l gs = sort_key (\<lambda>g. - ag_created_at g) (filter (\<lambda>g. ag_listing_id g = l) gs)"

definition revoke_access_grant :: "string \<Rightarrow> string \<Rightarrow> int \<Rightarrow> grant_table \<Rightarrow> (access_grant, market_error) result \<times> grant_table" where
  "revoke_access_grant actor i now gs =
     (case query_grant gs i of
        None \<Rightarrow> (Err (MeAccessGrantNotFound i), gs)
      | Some g \<Rightarrow>
          (if ascii_lower (ag_seller_id g) \<noteq> ascii_lower actor
           then (Err (MeForbidden ''only the seller can revoke this access grant''), gs)
           else if ag_revoked_at g = None
           then (Ok (g\<lparr> ag_revoked_at := Some now \<rparr>),
                 map (\<lambda>x. if ag_id x = ag_id g then x\<lparr> ag_revoked_at := Some now \<rparr> else x) gs)
           else (Ok g, gs)))"

text \<open>What the routes answer for a grant: the grant as far as it is active. The actor has been authenticated; the clock is
  read once more for the answer.\<close>

definition read_grant :: "grant_table \<Rightarrow> string \<Rightarrow> int \<Rightarrow> access_grant option" where
  "read_grant gs i now = map_option (\<lambda>g. sanitized_if_inactive g now) (query_grant gs i)"

definition given_parameter :: "string option \<Rightarrow> string option" where
  "given_parameter q = (case q of None \<Rightarrow> None | Some s \<Rightarrow> if trim s = [] then None else Some (trim s))"

definition list_grants_handler :: "string option \<Rightarrow> string option \<Rightarrow> int \<Rightarrow> grant_table \<Rightarrow> (access_grant list, string) result" where
  "list_grants_handler buyer_id listing_id now gs =
     (case given_parameter buyer_id of
        Some b \<Rightarrow> Ok (map (\<lambda>g. sanitized_if_inactive g now) (list_grants_for_buyer b gs))
      | None \<Rightarrow> (case given_parameter listing_id of
          Some l \<Rightarrow> Ok (map (\<lambda>g. sanitized_if_inactive g now) (list_grants_for_listing l gs))
        | None \<Rightarrow> Err ''either buyer_id or listing_id query parameter is required''))"

definition revoke_grant_handler :: "string \<Rightarrow> string \<Rightarrow> int \<Rightarrow> int \<Rightarrow> grant_table \<Rightarrow> (access_grant, market_error) result \<times> grant_table" where
  "revoke_grant_handler actor i now answered gs =
     (case revoke_access_grant actor i now gs of
        (Ok g, gs') \<Rightarrow> (Ok (sanitized_if_inactive g answered), gs')
      | (Err e, gs') \<Rightarrow> (Err e, gs'))"

section \<open>Runs\<close>

datatype grant_op =
    GoCreate string string int grant_request
  | GoRevoke string string int
  | GoMarket market_op

type_synonym grant_state = "market_db \<times> grant_table"

definition grant_step :: "grant_lib \<Rightarrow> (string \<Rightarrow> string) \<Rightarrow> market_config \<Rightarrow> grant_op \<Rightarrow> grant_state \<Rightarrow> grant_state" where
  "grant_step G debug cfg x st =
     (case st of (db, gs) \<Rightarrow>
       (case x of
          GoCreate actor uuid now q \<Rightarrow> (db, snd (create_access_grant G cfg actor uuid now q db gs))
        | GoRevoke actor i now \<Rightarrow> (db, snd (revoke_access_grant actor i now gs))
        | GoMarket y \<Rightarrow> (market_step debug cfg y db, gs)))"

definition grant_run :: "grant_lib \<Rightarrow> (string \<Rightarrow> string) \<Rightarrow> market_config \<Rightarrow> grant_op list \<Rightarrow> grant_state \<Rightarrow> grant_state" where
  "grant_run G debug cfg xs st = foldl (\<lambda>s x. grant_step G debug cfg x s) st xs"

section \<open>What a stored grant satisfies\<close>

definition grant_nonce :: "access_grant \<Rightarrow> string \<times> string \<times> string \<times> string" where
  "grant_nonce g = (ag_listing_id g, ag_buyer_id g, ag_ephemeral_pubkey_hex g, ag_nonce_hex g)"

definition grant_ok :: "grant_lib \<Rightarrow> market_config \<Rightarrow> market_db \<Rightarrow> access_grant \<Rightarrow> bool" where
  "grant_ok G cfg db g =
     ((\<exists>row. raw_of (ag_listing_id g) db = Some row \<and> ascii_lower (rl_seller_id row) = ascii_lower (ag_seller_id g))
      \<and> verify_grant_signature G g = Ok ()
      \<and> ag_created_at g < ag_expires_at g
      \<and> ag_expires_at g \<le> ag_created_at g + sint (mc_grant_max_ttl_seconds cfg) * 1000)"

definition grants_ok :: "grant_lib \<Rightarrow> market_config \<Rightarrow> grant_state \<Rightarrow> bool" where
  "grants_ok G cfg st =
     (distinct (map ag_id (snd st)) \<and> distinct (map grant_nonce (snd st)) \<and> (\<forall>g\<in>set (snd st). grant_ok G cfg (fst st) g))"

lemma verify_signature_revoked [simp]: "verify_grant_signature G (g\<lparr> ag_revoked_at := r \<rparr>) = verify_grant_signature G g"
  by (cases g) (simp add: verify_grant_signature_def cong: sum.case_cong if_cong)

lemma grant_ok_revoked [simp]: "grant_ok G cfg db (g\<lparr> ag_revoked_at := r \<rparr>) = grant_ok G cfg db g"
  by (simp add: grant_ok_def)

lemma hex_input_ok: "hex_input G f l m v = Ok b \<Longrightarrow> gl_hex_decode G v = Ok b \<and> l (length b)"
  by (auto simp: hex_input_def split: sum.splits if_splits)

lemma check_grant_request_ok:
  "check_grant_request G q0 = Ok (q, sig) \<Longrightarrow> gl_hex_decode G (gr_signature q) = Ok sig \<and> length sig = 64 \<and> gr_expires_at q = gr_expires_at q0"
  unfolding check_grant_request_def by (auto split: sum.splits dest!: hex_input_ok)

lemma check_expiry_ok: "check_expiry cfg now e = Ok () \<Longrightarrow> now < e \<and> e \<le> now + sint (mc_grant_max_ttl_seconds cfg) * 1000"
  by (auto simp: check_expiry_def Let_def split: if_splits)

lemma check_seller_key_ok: "check_seller_key G a = Ok pk \<Longrightarrow> gl_hex_decode G a = Ok pk \<and> length pk = 32 \<and> gl_key_check G pk = Ok ()"
  by (auto simp: check_seller_key_def split: sum.splits if_splits)

text \<open>A grant that is created satisfies all of it, and the table gains exactly this grant.\<close>

lemma create_grant_cases:
  "snd (create_access_grant G cfg actor uuid now q0 db gs) = gs
   \<or> (\<exists>g. snd (create_access_grant G cfg actor uuid now q0 db gs) = gs @ [g] \<and> grant_ok G cfg db g
        \<and> ag_id g \<notin> set (map ag_id gs) \<and> grant_nonce g \<notin> set (map grant_nonce gs) \<and> ag_revoked_at g = None)"
proof -
  let ?c = "create_access_grant G cfg actor uuid now q0 db gs"
  show ?thesis
  proof (cases "snd ?c = gs")
    case False
    obtain q sig where q: "check_grant_request G q0 = Ok (q, sig)"
      using False by (cases "check_grant_request G q0") (auto simp: create_access_grant_def)
    have e: "check_expiry cfg now (gr_expires_at q) = Ok ()"
      using False q by (cases "check_expiry cfg now (gr_expires_at q)") (auto simp: create_access_grant_def)
    obtain row where row: "raw_of (gr_listing_id q) db = Some row"
      using False q e by (cases "raw_of (gr_listing_id q) db") (auto simp: create_access_grant_def)
    have guards: "rl_revoked_at row = None" "ascii_lower (rl_seller_id row) = ascii_lower actor" "\<not> list_ex (same_nonce q) gs"
      using False q e row by (auto simp: create_access_grant_def split: if_splits)
    obtain pk where pk: "check_seller_key G actor = Ok pk"
      using False q e row guards by (cases "check_seller_key G actor") (auto simp: create_access_grant_def)
    let ?g = "\<lparr> ag_id = ''grant_'' @ uuid, ag_listing_id = gr_listing_id q, ag_buyer_id = gr_buyer q, ag_seller_id = actor,
                     ag_ephemeral_pubkey_hex = gr_ephemeral q, ag_wrapped_key_hex = gr_wrapped q, ag_nonce_hex = gr_nonce q,
                     ag_created_at = now, ag_expires_at = gr_expires_at q, ag_revoked_at = None,
                     ag_signature_hex = gr_signature q \<rparr>"
    have rest: "gl_verify G pk (grant_signing_bytes G (gr_listing_id q) (gr_buyer q) (gr_ephemeral q) (gr_wrapped q)
                        (gr_nonce q) (gr_expires_at q)) sig" "\<not> list_ex (\<lambda>x. ag_id x = ag_id ?g) gs" "snd ?c = gs @ [?g]"
      using False q e row guards pk by (auto simp: create_access_grant_def Let_def split: if_splits)
    have "grant_ok G cfg db ?g"
      using row guards(2) rest(1) check_seller_key_ok [OF pk] check_grant_request_ok [OF q] check_expiry_ok [OF e]
      by (simp add: grant_ok_def verify_grant_signature_def)
    moreover have "grant_nonce ?g \<notin> set (map grant_nonce gs)"
      using guards(3) by (auto simp: list_ex_iff same_nonce_def grant_nonce_def)
    moreover have "ag_id ?g \<notin> set (map ag_id gs)" using rest(2) by (simp only: list_ex_map_key not_False_eq_True)
    ultimately show ?thesis using rest(3) by (intro disjI2 exI [of _ ?g]) simp
  qed simp
qed

lemma created_grant_is_new:
  assumes "fst (create_access_grant G cfg actor uuid now q0 db gs) = Ok g" and "x \<in> set gs"
  shows "ag_id x \<noteq> ag_id g"
proof -
  have "\<not> list_ex (\<lambda>x. ag_id x = ag_id g) gs"
    using assms(1) by (auto simp: create_access_grant_def Let_def split: sum.splits option.splits if_splits prod.splits)
  then show ?thesis using assms(2) by (auto simp: list_ex_iff)
qed

text \<open>The table after a revocation.\<close>

lemma revoke_grant_cases:
  "snd (revoke_access_grant actor i now gs) = gs
   \<or> (\<exists>g. query_grant gs i = Some g \<and> ascii_lower (ag_seller_id g) = ascii_lower actor \<and> ag_revoked_at g = None
        \<and> snd (revoke_access_grant actor i now gs) = map (\<lambda>x. if ag_id x = i then x\<lparr> ag_revoked_at := Some now \<rparr> else x) gs)"
proof (cases "query_grant gs i")
  case (Some g)
  then have "ag_id g = i" by (auto simp: query_grant_def find_Some_iff)
  then show ?thesis using Some by (auto simp: revoke_access_grant_def)
qed (simp add: revoke_access_grant_def)

lemma grant_step_ok: "grants_ok G cfg st \<Longrightarrow> grants_ok G cfg (grant_step G debug cfg x st)"
proof -
  obtain db gs where st: "st = (db, gs)" by force
  assume ok: "grants_ok G cfg st"
  show ?thesis
  proof (cases x)
    case (GoCreate actor uuid now q)
    then show ?thesis using ok st create_grant_cases [of G cfg actor uuid now q db gs]
      by (auto simp: grant_step_def grants_ok_def)
  next
    case (GoRevoke actor i now)
    let ?f = "\<lambda>x. if ag_id x = i then x\<lparr> ag_revoked_at := Some now \<rparr> else x"
    have "map ag_id (map ?f gs) = map ag_id gs" "map grant_nonce (map ?f gs) = map grant_nonce gs"
      by (auto simp: grant_nonce_def)
    then have "grants_ok G cfg (db, map ?f gs)" using ok st by (auto simp: grants_ok_def simp del: map_map)
    then show ?thesis using ok st GoRevoke revoke_grant_cases [of actor i now gs] by (auto simp: grant_step_def)
  next
    case (GoMarket y)
    have "grant_ok G cfg (market_step debug cfg y db) g" if "grant_ok G cfg db g" for g
      using that market_step_row [of "ag_listing_id g" db _ debug cfg y] by (fastforce simp: grant_ok_def)
    then show ?thesis using ok st GoMarket by (auto simp: grant_step_def grants_ok_def)
  qed
qed

lemma grants_ok_run: "grants_ok G cfg (grant_run G debug cfg xs (market_empty, []))"
proof -
  have "grants_ok G cfg (grant_run G debug cfg xs st)" if "grants_ok G cfg st" for st
    unfolding grant_run_def using that by (induction xs arbitrary: st) (simp_all add: grant_step_ok)
  moreover have "grants_ok G cfg (market_empty, [])" by (simp add: grants_ok_def)
  ultimately show ?thesis by blast
qed

text \<open>C11: Every grant in the store was issued by the seller of an existing listing: its listing exists and has the seller of the
  grant, the signature verifies with that seller's key over what the grant says, it runs out within the longest time
  the configuration allows, and no two grants share an identifier or the listing, buyer, key and nonce.\<close>

theorem stored_grants_are_the_sellers:
  assumes "grant_run G debug cfg xs (market_empty, []) = (db, gs)"
  shows "distinct (map ag_id gs) \<and> distinct (map grant_nonce gs)
     \<and> (\<forall>g\<in>set gs. (\<exists>row. raw_of (ag_listing_id g) db = Some row \<and> ascii_lower (rl_seller_id row) = ascii_lower (ag_seller_id g))
          \<and> verify_grant_signature G g = Ok () \<and> ag_created_at g < ag_expires_at g
          \<and> ag_expires_at g \<le> ag_created_at g + sint (mc_grant_max_ttl_seconds cfg) * 1000)"
  using grants_ok_run [of G cfg debug xs] by (auto simp: assms grants_ok_def grant_ok_def)

text \<open>A library for the witnesses: every signature verifies, keys are not secret, nothing is encrypted.\<close>

definition sample_grant_lib :: grant_lib where
  "sample_grant_lib = \<lparr> gl_hex_decode = hex_decode_loop, gl_hex_encode = hex_encode, gl_key_check = (\<lambda>_. Ok ()),
     gl_verify = (\<lambda>_ _ _. True), gl_sha = (\<lambda>b. b), gl_public = (\<lambda>_. replicate 32 0), gl_shared = (\<lambda>_ _. []),
     gl_encrypt = (\<lambda>_ _ p. Some p), gl_decrypt = (\<lambda>_ _ c. Some c) \<rparr>"

definition zeros :: "nat \<Rightarrow> string" where "zeros n = hex_encode (replicate n 0)"

definition sample_request :: grant_request where
  "sample_request = \<lparr> gr_listing_id = ''l'', gr_buyer = zeros 32, gr_ephemeral = zeros 32, gr_wrapped = zeros 16,
     gr_nonce = zeros 12, gr_expires_at = 9, gr_signature = zeros 64 \<rparr>"

definition sample_grant :: access_grant where
  "sample_grant = \<lparr> ag_id = ''grant_u'', ag_listing_id = ''l'', ag_buyer_id = zeros 32, ag_seller_id = zeros 32,
     ag_ephemeral_pubkey_hex = zeros 32, ag_wrapped_key_hex = zeros 16, ag_nonce_hex = zeros 12, ag_created_at = 2,
     ag_expires_at = 9, ag_revoked_at = None, ag_signature_hex = zeros 64 \<rparr>"

definition sample_grant_ops :: "grant_op list" where
  "sample_grant_ops = [GoMarket (MoCreate (zeros 32) ''l'' 1 \<lparr> nl_seller_id = zeros 32, nl_title = ''t'', nl_license = CcBy40,
     nl_price_credits = 5 \<rparr>), GoCreate (zeros 32) ''u'' 2 sample_request]"

lemma trim_zeros: "trim (zeros n) = zeros n"
  unfolding zeros_def by (rule trim_id [OF hex_encode_no_space])

lemma nonblank_zeros: "0 < n \<Longrightarrow> nonblank f (zeros n) = Ok (zeros n)"
proof -
  assume "0 < n"
  moreover have "length (zeros n) = 2 * n" by (simp add: zeros_def)
  ultimately have "zeros n \<noteq> []" by (metis length_0_conv mult_is_0 not_gr_zero zero_neq_numeral)
  then show ?thesis by (simp add: nonblank_def trim_zeros)
qed

lemma decode_zeros: "gl_hex_decode sample_grant_lib (zeros n) = Ok (replicate n 0)"
  by (simp add: sample_grant_lib_def zeros_def hex_decode_loop_encode)

lemma sample_grant_created:
  "snd (create_access_grant sample_grant_lib market_config_default (zeros 32) ''u'' 2 sample_request
     (market_step id market_config_default (MoCreate (zeros 32) ''l'' 1 \<lparr> nl_seller_id = zeros 32, nl_title = ''t'',
        nl_license = CcBy40, nl_price_credits = 5 \<rparr>) market_empty) []) = [sample_grant]"
proof -
  let ?db = "market_step id market_config_default (MoCreate (zeros 32) ''l'' 1 \<lparr> nl_seller_id = zeros 32, nl_title = ''t'',
        nl_license = CcBy40, nl_price_credits = 5 \<rparr>) market_empty"
  have row: "\<exists>row. raw_of ''l'' ?db = Some row \<and> rl_seller_id row = zeros 32 \<and> rl_revoked_at row = None"
    by (simp add: market_step_def create_listing_def trim_zeros nonblank_def trim_def [of "''t''"] ascii_space_def
        ensure_license_enabled_def market_config_default_def license_menu_def check_credits_def market_empty_def raw_of_def Let_def)
  have ttl: "sint (mc_grant_max_ttl_seconds market_config_default) = 2592000"
    by (simp add: market_config_default_def DEFAULT_GRANT_MAX_TTL_SECONDS_def)
  have blank: "nonblank f ''l'' = Ok ''l''" for f by (simp add: nonblank_def trim_def ascii_space_def)
  have req: "check_grant_request sample_grant_lib sample_request = Ok (sample_request, replicate 64 0)"
    unfolding check_grant_request_def sample_request_def by (simp add: blank nonblank_zeros hex_input_def decode_zeros)
  have exp: "check_expiry market_config_default 2 (gr_expires_at sample_request) = Ok ()"
    by (simp add: check_expiry_def ttl sample_request_def Let_def)
  have key: "check_seller_key sample_grant_lib (zeros 32) = Ok (replicate 32 0)"
    unfolding check_seller_key_def decode_zeros by (simp add: sample_grant_lib_def)
  have ver: "gl_verify sample_grant_lib a b c" for a b c by (simp add: sample_grant_lib_def)
  have fields: "gr_listing_id sample_request = ''l''" "gr_buyer sample_request = zeros 32" "gr_ephemeral sample_request = zeros 32"
    "gr_wrapped sample_request = zeros 16" "gr_nonce sample_request = zeros 12" "gr_expires_at sample_request = 9"
    "gr_signature sample_request = zeros 64" by (simp_all add: sample_request_def)
  from row obtain r where "raw_of ''l'' ?db = Some r" "rl_seller_id r = zeros 32" "rl_revoked_at r = None" by blast
  then show ?thesis unfolding create_access_grant_def req
    by (simp add: exp [unfolded fields] fields key ver Let_def sample_grant_def)
qed

theorem stored_grants_are_the_sellers_witness:
  "verify_grant_signature sample_grant_lib sample_grant = Ok () \<and> ag_expires_at sample_grant \<le> ag_created_at sample_grant + 2592000000"
proof -
  obtain db gs where run: "grant_run sample_grant_lib id market_config_default sample_grant_ops (market_empty, []) = (db, gs)" by force
  have "gs = [sample_grant]" using run sample_grant_created by (auto simp: grant_run_def sample_grant_ops_def grant_step_def)
  then show ?thesis using stored_grants_are_the_sellers [OF run]
    by (simp add: market_config_default_def DEFAULT_GRANT_MAX_TTL_SECONDS_def)
qed

section \<open>A grant that ended\<close>

text \<open>A later grant of the same identifier is the same but for a revocation, which only its seller made and which stays.\<close>

definition grant_later :: "access_grant \<Rightarrow> access_grant \<Rightarrow> bool" where
  "grant_later g g' = (g' = g\<lparr> ag_revoked_at := ag_revoked_at g' \<rparr>
     \<and> (ag_revoked_at g \<noteq> None \<longrightarrow> ag_revoked_at g' = ag_revoked_at g))"

lemma grant_later_refl: "grant_later g g"
  by (cases g) (simp add: grant_later_def)

lemma grant_later_revoked: "ag_revoked_at g = None \<Longrightarrow> grant_later g (g\<lparr> ag_revoked_at := r \<rparr>)"
  by (simp add: grant_later_def)

lemma grant_later_trans: "grant_later g g' \<Longrightarrow> grant_later g' g'' \<Longrightarrow> grant_later g g''"
  by (cases g; cases g'; cases g'') (auto simp: grant_later_def)

lemma grant_later_expiry: "grant_later g g' \<Longrightarrow> ag_expires_at g' = ag_expires_at g \<and> (ag_revoked_at g \<noteq> None \<longrightarrow> ag_revoked_at g' \<noteq> None)"
  by (cases g; cases g') (auto simp: grant_later_def)

lemma grant_step_later:
  assumes "query_grant (snd st) i = Some g"
  shows "\<exists>g'. query_grant (snd (grant_step G debug cfg x st)) i = Some g' \<and> grant_later g g'"
proof -
  obtain db gs where st: "st = (db, gs)" by force
  have g: "List.find (\<lambda>g. ag_id g = i) gs = Some g" using assms st by (simp add: query_grant_def)
  show ?thesis
  proof (cases x)
    case (GoCreate actor uuid now q)
    then show ?thesis using g find_append_some [OF g] st create_grant_cases [of G cfg actor uuid now q db gs]
      by (auto simp: grant_step_def query_grant_def intro: grant_later_refl)
  next
    case (GoRevoke actor j now)
    let ?f = "\<lambda>x. if ag_id x = j then x\<lparr> ag_revoked_at := Some now \<rparr> else x"
    have map: "List.find (\<lambda>g. ag_id g = i) (map ?f gs) = Some (?f g)" using g by (subst find_map_same) auto
    from revoke_grant_cases [of actor j now gs] show ?thesis
    proof (elim disjE exE conjE)
      assume "snd (revoke_access_grant actor j now gs) = gs"
      then show ?thesis using st GoRevoke g by (auto simp: grant_step_def query_grant_def intro: grant_later_refl)
    next
      fix h assume h: "query_grant gs j = Some h" "ag_revoked_at h = None"
        and r: "snd (revoke_access_grant actor j now gs) = map ?f gs"
      have "ag_id g = i" using g by (auto simp: find_Some_iff)
      then have "grant_later g (?f g)" using h g
        by (cases "i = j") (auto simp: query_grant_def grant_later_refl grant_later_revoked)
      then show ?thesis using st GoRevoke r map by (auto simp: grant_step_def query_grant_def)
    qed
  next
    case (GoMarket y)
    then show ?thesis using st g by (auto simp: grant_step_def query_grant_def intro: grant_later_refl)
  qed
qed

lemma grant_run_later:
  "query_grant (snd st) i = Some g \<Longrightarrow> \<exists>g'. query_grant (snd (grant_run G debug cfg xs st)) i = Some g' \<and> grant_later g g'"
proof (induction xs arbitrary: st g)
  case Nil
  then show ?case by (auto simp: grant_run_def intro: grant_later_refl)
next
  case (Cons x xs)
  from grant_step_later [OF Cons.prems] obtain g1 where
    1: "query_grant (snd (grant_step G debug cfg x st)) i = Some g1" "grant_later g g1" by blast
  from Cons.IH [OF 1(1)] show ?case using 1(2) grant_later_trans by (fastforce simp: grant_run_def)
qed

definition keyless :: "access_grant \<Rightarrow> bool" where
  "keyless g = (ag_wrapped_key_hex g = [] \<and> ag_ephemeral_pubkey_hex g = [] \<and> ag_nonce_hex g = [])"

lemma sanitized_keyless: "\<not> is_active_at g now \<Longrightarrow> keyless (sanitized_if_inactive g now)"
  by (simp add: sanitized_if_inactive_def keyless_def)

lemma sanitized_id [simp]: "ag_id (sanitized_if_inactive g now) = ag_id g"
  by (simp add: sanitized_if_inactive_def)

lemma find_key_distinct: "distinct (map f xs) \<Longrightarrow> x \<in> set xs \<Longrightarrow> List.find (\<lambda>y. f y = f x) xs = Some x"
  by (induction xs) (auto dest: imageI [of _ _ f])

text \<open>With identifiers that are never shared, every grant of the identifier that a list shows is the one that is stored.\<close>

lemma listed_is_stored:
  assumes "list_grants_handler b l now gs = Ok shown" and "x \<in> set shown" and "distinct (map ag_id gs)"
  shows "\<exists>h. query_grant gs (ag_id x) = Some h \<and> x = sanitized_if_inactive h now"
proof -
  obtain h where h: "h \<in> set gs" "x = sanitized_if_inactive h now"
    using assms(1,2) by (auto simp: list_grants_handler_def list_grants_for_buyer_def list_grants_for_listing_def split: option.splits)
  have "List.find (\<lambda>g. ag_id g = ag_id h) gs = Some h" using find_key_distinct [OF assms(3) h(1)] .
  then show ?thesis using h(2) by (auto simp: query_grant_def)
qed

text \<open>C12: Once a grant that the routes made has been revoked or has run out, it stays so: whatever happens afterwards, the
  routes that read it, list the grants of a buyer or of a listing, or revoke it answer without the wrapped key, the
  ephemeral key and the nonce, no grant issued later has its identifier, and its key is not unwrapped, whichever secret
  is tried. (The route of the audit records is another matter: it goes on showing the record of the grant's creation.)\<close>

theorem ended_grant_delivers_nothing:
  assumes "st = grant_run G debug cfg ys (market_empty, [])" and "query_grant (snd st) i = Some g"
    and "\<not> is_active_at g now" and "now \<le> later" and "grant_run G debug cfg xs st = (db, gs)"
  shows "(\<exists>g'. read_grant gs i later = Some g' \<and> keyless g')
     \<and> (\<forall>b l shown. list_grants_handler b l later gs = Ok shown \<longrightarrow> (\<forall>g'\<in>set shown. ag_id g' = i \<longrightarrow> keyless g'))
     \<and> (\<forall>actor t g'. fst (revoke_grant_handler actor i t later gs) = Ok g' \<longrightarrow> keyless g')
     \<and> (\<forall>actor uuid t q g'. fst (create_access_grant G cfg actor uuid t q db gs) = Ok g' \<longrightarrow> ag_id g' \<noteq> i)
     \<and> (\<forall>h secret. query_grant gs i = Some h
          \<longrightarrow> unwrap_key_as_buyer G h secret later \<in> {Err (GeRevoked (ag_id h)), Err (GeExpired (ag_id h))})"
proof -
  obtain h where h: "query_grant gs i = Some h" "grant_later g h"
    using grant_run_later [OF assms(2), of G debug cfg xs] assms(5) by auto
  then have dead: "\<not> is_active_at h later" using assms(3,4) grant_later_expiry [OF h(2)] by (auto simp: is_active_at_def)
  then have dead': "\<not> is_active_at (h\<lparr> ag_revoked_at := Some t \<rparr>) later" for t by (simp add: is_active_at_def)
  have "grant_run G debug cfg (ys @ xs) (market_empty, []) = (db, gs)" using assms(1,5) by (simp add: grant_run_def)
  then have dist: "distinct (map ag_id gs)" using grants_ok_run [of G cfg debug "ys @ xs"] by (simp add: grants_ok_def)
  have "fst (revoke_grant_handler actor i t later gs) = Ok g' \<Longrightarrow> keyless g'" for actor t g'
    using h(1) dead dead' by (auto simp: revoke_grant_handler_def revoke_access_grant_def sanitized_keyless split: if_splits)
  moreover have "keyless g'" if "list_grants_handler b l later gs = Ok shown" "g' \<in> set shown" "ag_id g' = i" for b l shown g'
    using listed_is_stored [OF that(1,2) dist] that(3) h(1) dead by (auto simp: sanitized_keyless)
  moreover have "ag_id g' \<noteq> i" if "fst (create_access_grant G cfg actor uuid t q db gs) = Ok g'" for actor uuid t q g'
    using created_grant_is_new [OF that, of h] find_SomeD [OF h(1) [unfolded query_grant_def]] by metis
  ultimately show ?thesis using h(1) dead
    by (auto simp: read_grant_def sanitized_keyless unwrap_key_as_buyer_def is_active_at_def)
qed

theorem ended_grant_delivers_nothing_witness:
  "\<exists>g'. read_grant (snd (grant_run sample_grant_lib id market_config_default [GoRevoke ''x'' ''grant_u'' 20]
     (grant_run sample_grant_lib id market_config_default sample_grant_ops (market_empty, [])))) ''grant_u'' 30 = Some g' \<and> keyless g'"
proof -
  let ?st = "grant_run sample_grant_lib id market_config_default sample_grant_ops (market_empty, [])"
  obtain db gs where run: "grant_run sample_grant_lib id market_config_default [GoRevoke ''x'' ''grant_u'' 20] ?st = (db, gs)" by force
  have "snd ?st = [sample_grant]" using sample_grant_created by (auto simp: grant_run_def sample_grant_ops_def grant_step_def)
  then have "query_grant (snd ?st) ''grant_u'' = Some sample_grant" by (simp add: query_grant_def sample_grant_def)
  moreover have "\<not> is_active_at sample_grant 10" by (simp add: is_active_at_def sample_grant_def)
  ultimately show ?thesis using ended_grant_delivers_nothing [OF refl _ _ _ run, where later = 30 and now = 10] run by auto
qed

section \<open>The buyer gets the key\<close>

text \<open>What is relied on of the libraries: text and bytes correspond, both sides of an exchange share the same secret, and
  what was encrypted is decrypted.\<close>

definition grant_lib_ok :: "grant_lib \<Rightarrow> bool" where
  "grant_lib_ok G =
     ((\<forall>b. gl_hex_decode G (gl_hex_encode G b) = Ok b)
      \<and> (\<forall>a b. gl_shared G a (gl_public G b) = gl_shared G b (gl_public G a))
      \<and> (\<forall>a. length (gl_public G a) = 32)
      \<and> (\<forall>k n p c. gl_encrypt G k n p = Some c \<longrightarrow> gl_decrypt G k n c = Some p))"

text \<open>A key wrapped for a buyer is what that buyer unwraps from any grant that carries it, as long as the grant is active,
  whoever else made and stored the grant.\<close>

theorem wrapped_key_roundtrip:
  assumes "grant_lib_ok G" and "length nonce = 12"
    and "wrap_key_for_buyer G key (gl_public G secret) seed nonce = Ok (w, e, n)"
    and "ag_wrapped_key_hex g = w" and "ag_ephemeral_pubkey_hex g = e" and "ag_nonce_hex g = n" and "is_active_at g now"
  shows "unwrap_key_as_buyer G g secret now = Ok key"
proof -
  have shared: "gl_shared G secret (gl_public G seed) = gl_shared G seed (gl_public G secret)"
    using assms(1) unfolding grant_lib_ok_def by blast
  from assms(3) obtain c where c: "gl_encrypt G (wrapping_key G (gl_shared G seed (gl_public G secret)) (gl_public G seed)
      (gl_public G secret)) nonce key = Some c" "w = gl_hex_encode G c" "e = gl_hex_encode G (gl_public G seed)" "n = gl_hex_encode G nonce"
    by (auto simp: wrap_key_for_buyer_def Let_def split: option.splits)
  have dec: "gl_decrypt G (wrapping_key G (gl_shared G seed (gl_public G secret)) (gl_public G seed) (gl_public G secret)) nonce c = Some key"
    using assms(1) c(1) by (simp add: grant_lib_ok_def)
  have hexes: "gl_hex_decode G (ag_ephemeral_pubkey_hex g) = Ok (gl_public G seed)" "gl_hex_decode G (ag_wrapped_key_hex g) = Ok c"
    "gl_hex_decode G (ag_nonce_hex g) = Ok nonce" "length (gl_public G seed) = 32"
    using assms(1,4-6) c(2-4) by (simp_all add: grant_lib_ok_def)
  show ?thesis
    using assms(2,7) dec hexes shared by (simp add: unwrap_key_as_buyer_def is_active_at_def Let_def)
qed

theorem wrapped_key_roundtrip_witness:
  "unwrap_key_as_buyer sample_grant_lib (sample_grant\<lparr> ag_wrapped_key_hex := hex_encode [7] \<rparr>) [1] 5 = Ok [7]"
proof (rule wrapped_key_roundtrip)
  show "grant_lib_ok sample_grant_lib"
    by (simp add: grant_lib_ok_def sample_grant_lib_def hex_decode_loop_encode)
  show "wrap_key_for_buyer sample_grant_lib [7] (gl_public sample_grant_lib [1]) [2] (replicate 12 0)
     = Ok (hex_encode [7], zeros 32, zeros 12)"
    by (simp add: wrap_key_for_buyer_def sample_grant_lib_def zeros_def)
qed (simp_all add: sample_grant_def is_active_at_def)

text \<open>The listing of a grant is not looked at when it is read: withdrawing a listing leaves its grants in force.\<close>

lemma revoked_listing_keeps_grants:
  "snd (grant_step G debug cfg (GoMarket (MoRevoke actor i now)) st) = snd st"
  by (simp add: grant_step_def split: prod.split)

end
