(* ===== verification/MarketPacks.thy ===== *)
theory MarketPacks
  imports TextCodes
begin

text \<open>Data packs of the market (\<open>src/crates/xavier-market/src/pack.rs\<close>): a file that starts with a magic line, the length of
  a manifest and the manifest in JSON, and goes on with the contents of its entries. The SHA-256 text of a
  content and the JSON of a manifest are those of libraries; the file format is the code's own.\<close>

definition PACK_MAGIC :: "8 word list" where "PACK_MAGIC = bytes_of (''SWALPACK1'' @ [CHR 0x0A])"

definition ALLOWED_ENTRIES :: "string list" where
  "ALLOWED_ENTRIES = [''memories.jsonl'', ''vectors.sqlite'', ''code_graph.jsonl'']"

record pack_entry =
  pe_name :: string
  pe_bytes :: "8 word list"

datatype pack_error =
  PkUnknownEntry string | PkDuplicateEntry string | PkEmpty | PkCorrupt string | PkTruncated | PkInvalidNamespace string
| PkMissingEntry string

record pack_manifest_entry =
  mf_name :: string
  mf_sha256 :: string
  mf_len :: "64 word"

record pack_manifest =
  pm_version :: "32 word"
  pm_entries :: "pack_manifest_entry list"
  pm_namespace :: "string option"

record pack_lib =
  pl_digest_hex :: "8 word list \<Rightarrow> string"
  pl_to_vec :: "pack_manifest \<Rightarrow> (8 word list, string) result"
  pl_from_slice :: "8 word list \<Rightarrow> (pack_manifest, string) result"

section \<open>Writing\<close>

definition be_bytes :: "64 word \<Rightarrow> 8 word list" where
  "be_bytes w = rev (le_bytes w)"

text \<open>The loop over the entries, with the names seen so far.\<close>

fun manifest_loop :: "pack_lib \<Rightarrow> string set \<Rightarrow> pack_entry list \<Rightarrow> (pack_manifest_entry list, pack_error) result" where
  "manifest_loop L names [] = Ok []"
| "manifest_loop L names (e # es) =
     (if pe_name e \<notin> set ALLOWED_ENTRIES then Err (PkUnknownEntry (pe_name e))
      else if pe_name e \<in> names then Err (PkDuplicateEntry (pe_name e))
      else case manifest_loop L (insert (pe_name e) names) es of
             Err x \<Rightarrow> Err x
           | Ok ms \<Rightarrow> Ok (\<lparr> mf_name = pe_name e, mf_sha256 = pl_digest_hex L (pe_bytes e),
                            mf_len = of_nat (length (pe_bytes e)) \<rparr> # ms))"

definition write_pack_with_namespace :: "pack_lib \<Rightarrow> pack_entry list \<Rightarrow> string option \<Rightarrow> (8 word list, pack_error) result" where
  "write_pack_with_namespace L entries namespace =
     (if entries = [] then Err PkEmpty
      else case manifest_loop L {} entries of
             Err e \<Rightarrow> Err e
           | Ok ms \<Rightarrow>
               (case pl_to_vec L \<lparr> pm_version = 1, pm_entries = ms, pm_namespace = namespace \<rparr> of
                  Err e \<Rightarrow> Err (PkCorrupt e)
                | Ok m_bytes \<Rightarrow>
                    Ok (PACK_MAGIC @ be_bytes (of_nat (length m_bytes)) @ m_bytes @ concat (map pe_bytes entries))))"

definition write_pack :: "pack_lib \<Rightarrow> pack_entry list \<Rightarrow> (8 word list, pack_error) result" where
  "write_pack L entries = write_pack_with_namespace L entries None"

section \<open>Reading\<close>

definition from_be_bytes :: "8 word list \<Rightarrow> 64 word" where
  "from_be_bytes bs = foldl (\<lambda>a b. push_bit 8 a OR ucast b) 0 bs"

text \<open>\<open>off.checked_add(len)\<close> and the comparison with the length: is there room for \<open>len\<close> bytes at \<open>off\<close>?\<close>

definition room_for :: "8 word list \<Rightarrow> nat \<Rightarrow> 64 word \<Rightarrow> bool" where
  "room_for bytes off len = (off + unat len < 2 ^ 64 \<and> off + unat len \<le> length bytes)"

fun read_entries :: "pack_lib \<Rightarrow> 8 word list \<Rightarrow> string set \<Rightarrow> nat \<Rightarrow> pack_manifest_entry list
    \<Rightarrow> (pack_entry list \<times> nat, pack_error) result" where
  "read_entries L bytes names off [] = Ok ([], off)"
| "read_entries L bytes names off (me # ms) =
     (if \<not> room_for bytes off (mf_len me) then Err PkTruncated
      else
        (let e_bytes = take (unat (mf_len me)) (drop off bytes) in
         if pl_digest_hex L e_bytes \<noteq> mf_sha256 me then Err (PkCorrupt ''hash'')
         else if mf_name me \<notin> set ALLOWED_ENTRIES then Err (PkUnknownEntry (mf_name me))
         else if mf_name me \<in> names then Err (PkDuplicateEntry (mf_name me))
         else case read_entries L bytes (insert (mf_name me) names) (off + unat (mf_len me)) ms of
                Err x \<Rightarrow> Err x
              | Ok (es, end) \<Rightarrow> Ok (\<lparr> pe_name = mf_name me, pe_bytes = e_bytes \<rparr> # es, end)))"

definition read_pack_info :: "pack_lib \<Rightarrow> 8 word list \<Rightarrow> (pack_entry list \<times> string option, pack_error) result" where
  "read_pack_info L bytes =
     (if length bytes < length PACK_MAGIC + 8 then Err PkTruncated
      else if take (length PACK_MAGIC) bytes \<noteq> PACK_MAGIC then Err (PkCorrupt ''bad magic'')
      else
        (let m_len = from_be_bytes (take 8 (drop (length PACK_MAGIC) bytes));
             off = length PACK_MAGIC + 8
          in if \<not> room_for bytes off m_len then Err PkTruncated
             else case pl_from_slice L (take (unat m_len) (drop off bytes)) of
                    Err e \<Rightarrow> Err (PkCorrupt e)
                  | Ok m \<Rightarrow>
                      (case read_entries L bytes {} (off + unat m_len) (pm_entries m) of
                         Err e \<Rightarrow> Err e
                       | Ok (es, end) \<Rightarrow> if end \<noteq> length bytes then Err (PkCorrupt ''trailing'') else Ok (es, pm_namespace m))))"

definition read_pack :: "pack_lib \<Rightarrow> 8 word list \<Rightarrow> (pack_entry list, pack_error) result" where
  "read_pack L bytes = (case read_pack_info L bytes of Err e \<Rightarrow> Err e | Ok (es, ns) \<Rightarrow> Ok es)"

definition pack_hash :: "pack_lib \<Rightarrow> 8 word list \<Rightarrow> string" where
  "pack_hash L bytes = pl_digest_hex L bytes"

section \<open>Packs of a namespace\<close>

record namespace_pack =
  np_namespace :: string
  np_memories :: "8 word list"
  np_vectors :: "8 word list"
  np_code_graph :: "8 word list option"

definition pack_entries_of :: "namespace_pack \<Rightarrow> pack_entry list" where
  "pack_entries_of p =
     [\<lparr> pe_name = ''memories.jsonl'', pe_bytes = np_memories p \<rparr>, \<lparr> pe_name = ''vectors.sqlite'', pe_bytes = np_vectors p \<rparr>]
     @ (case np_code_graph p of None \<Rightarrow> [] | Some cg \<Rightarrow> [\<lparr> pe_name = ''code_graph.jsonl'', pe_bytes = cg \<rparr>])"

definition export_namespace_pack :: "pack_lib \<Rightarrow> namespace_pack \<Rightarrow> (8 word list, pack_error) result" where
  "export_namespace_pack L p =
     (let ns = trim (np_namespace p) in
      if ns = [] then Err (PkInvalidNamespace ''namespace must not be empty'')
      else write_pack_with_namespace L (pack_entries_of p) (Some ns))"

text \<open>The loop that sorts the entries into the three fields.\<close>

fun place_entries :: "8 word list option \<times> 8 word list option \<times> 8 word list option \<Rightarrow> pack_entry list
    \<Rightarrow> (8 word list option \<times> 8 word list option \<times> 8 word list option, pack_error) result" where
  "place_entries (m, v, c) [] = Ok (m, v, c)"
| "place_entries (m, v, c) (e # es) =
     (if pe_name e = ''memories.jsonl'' then place_entries (Some (pe_bytes e), v, c) es
      else if pe_name e = ''vectors.sqlite'' then place_entries (m, Some (pe_bytes e), c) es
      else if pe_name e = ''code_graph.jsonl'' then place_entries (m, v, Some (pe_bytes e)) es
      else Err (PkUnknownEntry (pe_name e)))"

definition import_namespace_pack :: "pack_lib \<Rightarrow> 8 word list \<Rightarrow> (namespace_pack, pack_error) result" where
  "import_namespace_pack L bytes =
     (case read_pack_info L bytes of
        Err e \<Rightarrow> Err e
      | Ok (entries, namespace_opt) \<Rightarrow>
          (case map_option trim namespace_opt of
             None \<Rightarrow> Err (PkInvalidNamespace ''missing'')
           | Some namespace \<Rightarrow>
               (if namespace = [] then Err (PkInvalidNamespace ''missing'')
                else case place_entries (None, None, None) entries of
                       Err e \<Rightarrow> Err e
                     | Ok (None, v, c) \<Rightarrow> Err (PkMissingEntry ''memories.jsonl'')
                     | Ok (Some m, None, c) \<Rightarrow> Err (PkMissingEntry ''vectors.sqlite'')
                     | Ok (Some m, Some v, c) \<Rightarrow>
                         Ok \<lparr> np_namespace = namespace, np_memories = m, np_vectors = v, np_code_graph = c \<rparr>)))"

section \<open>Writing and reading agree\<close>

lemma octet_join: "push_bit 8 (drop_bit 8 v) OR ucast (ucast v :: 8 word) = v" for v :: "64 word"
  by (rule bit_word_eqI) (auto simp: bit_simps)

lemma be_bytes_length [simp]: "length (be_bytes w) = 8"
  by (simp add: be_bytes_def le_bytes_def)

lemma from_be_bytes_be_bytes [simp]: "from_be_bytes (be_bytes w) = w"
proof -
  have step: "push_bit 8 (drop_bit (n + 8) w) OR ucast (ucast (drop_bit n w) :: 8 word) = drop_bit n w" for n
    using octet_join [of "drop_bit n w"] by (simp add: drop_bit_drop_bit ac_simps)
  have "[0..<8] = [0, 1, 2, 3, 4, 5, 6, 7 :: nat]" by code_simp
  moreover have "ucast (ucast (drop_bit 56 w) :: 8 word) = drop_bit 56 w"
    by (rule bit_word_eqI) (auto simp: bit_simps dest: bit_imp_le_length)
  ultimately show ?thesis
    using step [of 0] step [of 8] step [of 16] step [of 24] step [of 32] step [of 40] step [of 48]
    by (simp add: from_be_bytes_def be_bytes_def le_bytes_def)
qed

text \<open>Small contents: a file holds less than \<open>2 ^ 64\<close> bytes, so that no length wraps around.\<close>

lemma manifest_loop_read:
  assumes "manifest_loop L names es = Ok ms" and "bytes = pre @ concat (map pe_bytes es) @ post" and "length bytes < 2 ^ 64"
  shows "read_entries L bytes names (length pre) ms = Ok (es, length pre + length (concat (map pe_bytes es)))"
  using assms
proof (induction es arbitrary: names ms pre)
  case Nil
  then show ?case by simp
next
  case (Cons e es)
  let ?n = "length (pe_bytes e)"
  have small: "unat (of_nat ?n :: 64 word) = ?n" using Cons.prems(2,3) by (intro unat_of_nat_small) simp
  from Cons.prems(1) obtain ms' where ok: "pe_name e \<in> set ALLOWED_ENTRIES" "pe_name e \<notin> names"
    "manifest_loop L (insert (pe_name e) names) es = Ok ms'"
    "ms = \<lparr> mf_name = pe_name e, mf_sha256 = pl_digest_hex L (pe_bytes e), mf_len = of_nat ?n \<rparr> # ms'"
    by (auto split: if_splits sum.splits)
  have rest: "read_entries L bytes (insert (pe_name e) names) (length (pre @ pe_bytes e)) ms'
      = Ok (es, length (pre @ pe_bytes e) + length (concat (map pe_bytes es)))"
    by (rule Cons.IH [OF ok(3)]) (use Cons.prems in simp_all)
  have room: "room_for bytes (length pre) (of_nat ?n)" using Cons.prems(2,3) small by (simp add: room_for_def)
  have body: "take ?n (drop (length pre) bytes) = pe_bytes e" using Cons.prems(2) by simp
  show ?case using ok rest room by (simp add: small body Let_def)
qed

text \<open>What is relied on of the JSON library: what it writes, it reads back.\<close>

definition manifest_codec :: "pack_lib \<Rightarrow> bool" where
  "manifest_codec L = (\<forall>m b. pl_to_vec L m = Ok b \<longrightarrow> pl_from_slice L b = Ok m)"

lemma written_pack_read:
  assumes "manifest_codec L" and "write_pack_with_namespace L entries namespace = Ok bytes" and "length bytes < 2 ^ 64"
  shows "read_pack_info L bytes = Ok (entries, namespace)"
proof -
  from assms(2) obtain ms m where ms: "manifest_loop L {} entries = Ok ms"
    and m: "pl_to_vec L \<lparr> pm_version = 1, pm_entries = ms, pm_namespace = namespace \<rparr> = Ok m"
    and bytes: "bytes = PACK_MAGIC @ be_bytes (of_nat (length m)) @ m @ concat (map pe_bytes entries)"
    by (auto simp: write_pack_with_namespace_def split: if_splits sum.splits)
  have small: "unat (of_nat (length m) :: 64 word) = length m" using assms(3) bytes by (intro unat_of_nat_small) simp
  have room: "room_for bytes (length PACK_MAGIC + 8) (of_nat (length m))"
    using assms(3) bytes small by (simp add: room_for_def)
  have body: "take (length m) (drop (length PACK_MAGIC + 8) bytes) = m"
    by (simp add: bytes)
  have "read_entries L bytes {} (length (PACK_MAGIC @ be_bytes (of_nat (length m)) @ m)) ms
      = Ok (entries, length (PACK_MAGIC @ be_bytes (of_nat (length m)) @ m) + length (concat (map pe_bytes entries)))"
    by (rule manifest_loop_read [OF ms]) (use bytes assms(3) in simp_all)
  then have rest: "read_entries L bytes {} (length PACK_MAGIC + 8 + length m) ms = Ok (entries, length bytes)"
    by (simp add: bytes ac_simps)
  have decoded: "pl_from_slice L m = Ok \<lparr> pm_version = 1, pm_entries = ms, pm_namespace = namespace \<rparr>"
    using assms(1) m by (simp add: manifest_codec_def)
  have len: "take 8 (drop (length PACK_MAGIC) bytes) = be_bytes (of_nat (length m))" "take (length PACK_MAGIC) bytes = PACK_MAGIC"
    "\<not> length bytes < length PACK_MAGIC + 8"
    by (simp_all add: bytes)
  show ?thesis unfolding read_pack_info_def Let_def using len room body decoded rest by (simp add: small)
qed

text \<open>What a pack was written from is read back, entry by entry and with its namespace.\<close>

theorem pack_roundtrip:
  assumes "manifest_codec L" and "write_pack_with_namespace L entries namespace = Ok bytes" and "length bytes < 2 ^ 64"
  shows "read_pack_info L bytes = Ok (entries, namespace)"
  by (rule written_pack_read [OF assms])

text \<open>A library that writes one manifest, that of a pack with the single entry \<open>memories.jsonl\<close> of three bytes.\<close>

definition sample_pack_entries :: "pack_entry list" where
  "sample_pack_entries = [\<lparr> pe_name = ''memories.jsonl'', pe_bytes = [7, 8, 9] \<rparr>]"

definition sample_pack_manifest :: pack_manifest where
  "sample_pack_manifest = \<lparr> pm_version = 1,
     pm_entries = [\<lparr> mf_name = ''memories.jsonl'', mf_sha256 = hex_encode [7, 8, 9], mf_len = 3 \<rparr>], pm_namespace = Some ''ns'' \<rparr>"

definition sample_pack_lib :: pack_lib where
  "sample_pack_lib = \<lparr> pl_digest_hex = hex_encode,
     pl_to_vec = (\<lambda>m. if m = sample_pack_manifest then Ok [123, 125] else Err ''e''),
     pl_from_slice = (\<lambda>b. if b = [123, 125] then Ok sample_pack_manifest else Err ''e'') \<rparr>"

definition sample_pack_bytes :: "8 word list" where
  "sample_pack_bytes = PACK_MAGIC @ be_bytes 2 @ [123, 125] @ [7, 8, 9]"

lemma sample_pack_written:
  "write_pack_with_namespace sample_pack_lib sample_pack_entries (Some ''ns'') = Ok sample_pack_bytes"
  by (simp add: write_pack_with_namespace_def sample_pack_entries_def sample_pack_lib_def sample_pack_manifest_def
      sample_pack_bytes_def ALLOWED_ENTRIES_def)

lemma sample_pack_codec: "manifest_codec sample_pack_lib"
  by (simp add: manifest_codec_def sample_pack_lib_def)

lemma sample_pack_small: "length sample_pack_bytes < 2 ^ 64"
  by (simp add: sample_pack_bytes_def PACK_MAGIC_def bytes_of_def)

theorem pack_roundtrip_witness:
  "read_pack_info sample_pack_lib sample_pack_bytes = Ok (sample_pack_entries, Some ''ns'')"
  by (rule pack_roundtrip [OF sample_pack_codec sample_pack_written sample_pack_small])

section \<open>What an accepted file is\<close>

lemma read_entries_account:
  assumes "read_entries L bytes names off ms = Ok (es, stop)" and "off \<le> length bytes"
  shows "off \<le> stop \<and> stop \<le> length bytes \<and> drop off bytes = concat (map pe_bytes es) @ drop stop bytes
     \<and> distinct (map pe_name es) \<and> set (map pe_name es) \<subseteq> set ALLOWED_ENTRIES - names
     \<and> map (\<lambda>e. (pe_name e, pl_digest_hex L (pe_bytes e), length (pe_bytes e))) es
       = map (\<lambda>me. (mf_name me, mf_sha256 me, unat (mf_len me))) ms"
  using assms
proof (induction ms arbitrary: names off es)
  case Nil
  then show ?case by simp
next
  case (Cons me ms)
  let ?n = "unat (mf_len me)"
  let ?e = "\<lparr> pe_name = mf_name me, pe_bytes = take ?n (drop off bytes) \<rparr>"
  from Cons.prems(1) obtain es' where ok: "room_for bytes off (mf_len me)" "pl_digest_hex L (pe_bytes ?e) = mf_sha256 me"
    "mf_name me \<in> set ALLOWED_ENTRIES" "mf_name me \<notin> names"
    "read_entries L bytes (insert (mf_name me) names) (off + ?n) ms = Ok (es', stop)" "es = ?e # es'"
    by (auto simp: Let_def split: if_splits sum.splits prod.splits)
  have within: "off + ?n \<le> length bytes" using ok(1) by (simp add: room_for_def)
  note ih = Cons.IH [OF ok(5) within]
  have "drop off bytes = take ?n (drop off bytes) @ drop (off + ?n) bytes"
    by (metis add.commute append_take_drop_id drop_drop)
  then have "drop off bytes = concat (map pe_bytes es) @ drop stop bytes" using ih ok(6) by simp
  then show ?case using ih ok within by auto
qed

lemma read_pack_account:
  assumes "read_pack_info L bytes = Ok (es, namespace)"
  shows "\<exists>len m_bytes m. bytes = PACK_MAGIC @ len @ m_bytes @ concat (map pe_bytes es)
     \<and> length len = 8 \<and> unat (from_be_bytes len) = length m_bytes
     \<and> pl_from_slice L m_bytes = Ok m \<and> pm_namespace m = namespace
     \<and> distinct (map pe_name es) \<and> set (map pe_name es) \<subseteq> set ALLOWED_ENTRIES
     \<and> map (\<lambda>e. (pe_name e, pl_digest_hex L (pe_bytes e), length (pe_bytes e))) es
       = map (\<lambda>me. (mf_name me, mf_sha256 me, unat (mf_len me))) (pm_entries m)"
proof -
  define k where "k = length PACK_MAGIC"
  define len where "len = take 8 (drop k bytes)"
  define n where "n = unat (from_be_bytes len)"
  define m_bytes where "m_bytes = take n (drop (k + 8) bytes)"
  from assms obtain m where head: "k + 8 \<le> length bytes" "take k bytes = PACK_MAGIC" "room_for bytes (k + 8) (from_be_bytes len)"
    and m: "pl_from_slice L m_bytes = Ok m" "pm_namespace m = namespace"
    and es: "read_entries L bytes {} (k + 8 + n) (pm_entries m) = Ok (es, length bytes)"
    by (auto simp: read_pack_info_def Let_def k_def len_def n_def m_bytes_def split: if_splits sum.splits prod.splits)
  have within: "k + 8 + n \<le> length bytes" using head(3) by (simp add: room_for_def n_def)
  note body = read_entries_account [OF es within]
  have "bytes = take k bytes @ drop k bytes" by simp
  also have "drop k bytes = len @ drop (k + 8) bytes" by (metis len_def add.commute append_take_drop_id drop_drop)
  also have "drop (k + 8) bytes = m_bytes @ drop (k + 8 + n) bytes"
    by (metis m_bytes_def add.commute append_take_drop_id drop_drop)
  also have "drop (k + 8 + n) bytes = concat (map pe_bytes es)" using body by simp
  finally have "bytes = PACK_MAGIC @ len @ m_bytes @ concat (map pe_bytes es)" using head(2) by simp
  moreover have "length len = 8" "unat (from_be_bytes len) = length m_bytes"
    using head(1) within by (simp_all add: len_def m_bytes_def n_def)
  ultimately show ?thesis using m body by blast
qed

text \<open>C20: A file that is accepted is accounted for to the last byte: the magic line, the length of the manifest, the manifest
  and the contents of the entries one after the other; the entries have different names of those allowed, and
  the hashes and lengths of their contents are those of the manifest, in its order.\<close>

theorem accepted_pack_accounts_for_bytes:
  assumes "read_pack_info L bytes = Ok (es, namespace)"
  shows "\<exists>len m_bytes m. bytes = PACK_MAGIC @ len @ m_bytes @ concat (map pe_bytes es)
     \<and> length len = 8 \<and> unat (from_be_bytes len) = length m_bytes
     \<and> pl_from_slice L m_bytes = Ok m \<and> pm_namespace m = namespace
     \<and> distinct (map pe_name es) \<and> set (map pe_name es) \<subseteq> set ALLOWED_ENTRIES
     \<and> map (\<lambda>e. (pe_name e, pl_digest_hex L (pe_bytes e), length (pe_bytes e))) es
       = map (\<lambda>me. (mf_name me, mf_sha256 me, unat (mf_len me))) (pm_entries m)"
  by (rule read_pack_account [OF assms])

theorem accepted_pack_accounts_for_bytes_witness:
  "\<exists>len m_bytes. sample_pack_bytes = PACK_MAGIC @ len @ m_bytes @ [7, 8, 9] \<and> unat (from_be_bytes len) = length m_bytes"
  using accepted_pack_accounts_for_bytes [OF written_pack_read [OF sample_pack_codec sample_pack_written sample_pack_small]]
  by (auto simp: sample_pack_entries_def)

text \<open>Reading asks neither for a version nor for an entry: a pack without any is accepted, though none such is written.\<close>

lemma empty_pack_is_read:
  assumes "length m < 2 ^ 63" and "pl_from_slice L m = Ok \<lparr> pm_version = v, pm_entries = [], pm_namespace = ns \<rparr>"
  shows "read_pack L (PACK_MAGIC @ be_bytes (of_nat (length m)) @ m) = Ok []" and "write_pack L [] = Err PkEmpty"
proof -
  have "unat (of_nat (length m) :: 64 word) = length m" using assms(1) by (intro unat_of_nat_small) simp
  then show "read_pack L (PACK_MAGIC @ be_bytes (of_nat (length m)) @ m) = Ok []"
    using assms by (simp add: read_pack_def read_pack_info_def Let_def room_for_def PACK_MAGIC_def bytes_of_def)
  show "write_pack L [] = Err PkEmpty" by (simp add: write_pack_def write_pack_with_namespace_def)
qed

section \<open>Namespaces come back\<close>

lemma trim_trim: "trim (trim s) = trim s"
proof -
  define t where "t = dropWhile ascii_space s"
  define u where "u = rev (dropWhile ascii_space (rev t))"
  have "t = u @ rev (takeWhile ascii_space (rev t))"
    unfolding u_def by (metis rev_append rev_rev_ident takeWhile_dropWhile_id)
  then have "u = [] \<or> \<not> ascii_space (hd u)" unfolding t_def by (metis hd_append2 hd_dropWhile append_is_Nil_conv)
  then have "dropWhile ascii_space u = u" by (cases u) auto
  moreover have "dropWhile ascii_space (rev u) = rev u" by (simp add: u_def)
  moreover have "trim s = u" by (simp add: trim_def t_def u_def)
  ultimately show ?thesis by (simp add: trim_def)
qed

lemma place_entries_of:
  "place_entries (None, None, None) (pack_entries_of p) = Ok (Some (np_memories p), Some (np_vectors p), np_code_graph p)"
  by (simp add: pack_entries_of_def split: option.splits)

text \<open>C19: What a namespace was exported from is imported again, but for the spaces around its name, and exporting what
  was imported gives the same file, so that both have the same hash.\<close>

theorem namespace_pack_roundtrip:
  assumes "manifest_codec L" and "export_namespace_pack L p = Ok bytes" and "length bytes < 2 ^ 64"
  shows "import_namespace_pack L bytes = Ok (p\<lparr> np_namespace := trim (np_namespace p) \<rparr>)
     \<and> export_namespace_pack L (p\<lparr> np_namespace := trim (np_namespace p) \<rparr>) = Ok bytes"
proof -
  let ?ns = "trim (np_namespace p)"
  from assms(2) have ns: "?ns \<noteq> []" and w: "write_pack_with_namespace L (pack_entries_of p) (Some ?ns) = Ok bytes"
    by (auto simp: export_namespace_pack_def Let_def split: if_splits)
  have read: "read_pack_info L bytes = Ok (pack_entries_of p, Some ?ns)"
    by (rule written_pack_read [OF assms(1) w assms(3)])
  have "import_namespace_pack L bytes = Ok (p\<lparr> np_namespace := ?ns \<rparr>)"
    using ns by (simp add: import_namespace_pack_def read place_entries_of trim_trim)
  moreover have "export_namespace_pack L (p\<lparr> np_namespace := ?ns \<rparr>) = Ok bytes"
    using ns w by (simp add: export_namespace_pack_def trim_trim pack_entries_of_def)
  ultimately show ?thesis by simp
qed

text \<open>A library for a pack with two empty contents.\<close>

definition sample_namespace :: namespace_pack where
  "sample_namespace = \<lparr> np_namespace = '' ns'', np_memories = [], np_vectors = [1], np_code_graph = None \<rparr>"

definition sample_ns_manifest :: pack_manifest where
  "sample_ns_manifest = \<lparr> pm_version = 1, pm_entries =
     [\<lparr> mf_name = ''memories.jsonl'', mf_sha256 = hex_encode [], mf_len = 0 \<rparr>,
      \<lparr> mf_name = ''vectors.sqlite'', mf_sha256 = hex_encode [1], mf_len = 1 \<rparr>], pm_namespace = Some ''ns'' \<rparr>"

definition sample_ns_lib :: pack_lib where
  "sample_ns_lib = \<lparr> pl_digest_hex = hex_encode,
     pl_to_vec = (\<lambda>m. if m = sample_ns_manifest then Ok [123, 125] else Err ''e''),
     pl_from_slice = (\<lambda>b. if b = [123, 125] then Ok sample_ns_manifest else Err ''e'') \<rparr>"

theorem namespace_pack_roundtrip_witness:
  "import_namespace_pack sample_ns_lib (PACK_MAGIC @ be_bytes 2 @ [123, 125] @ [1])
   = Ok \<lparr> np_namespace = ''ns'', np_memories = [], np_vectors = [1], np_code_graph = None \<rparr>"
proof -
  have t: "trim (np_namespace sample_namespace) = ''ns''" by (simp add: sample_namespace_def trim_def ascii_space_def)
  have codec: "manifest_codec sample_ns_lib" by (simp add: manifest_codec_def sample_ns_lib_def)
  have written: "export_namespace_pack sample_ns_lib sample_namespace = Ok (PACK_MAGIC @ be_bytes 2 @ [123, 125] @ [1])"
    by (simp add: export_namespace_pack_def t write_pack_with_namespace_def pack_entries_of_def ALLOWED_ENTRIES_def)
       (simp add: sample_ns_lib_def sample_ns_manifest_def sample_namespace_def)
  have "length (PACK_MAGIC @ be_bytes 2 @ [123, 125] @ [1]) < 2 ^ 64" by (simp add: PACK_MAGIC_def bytes_of_def)
  from namespace_pack_roundtrip [OF codec written this] show ?thesis unfolding t by (simp add: sample_namespace_def)
qed

end
