(* ===== verification/Spec2Isabelle.thy ===== *)
theory Spec2Isabelle
  imports Clearance RoleAcl InfoGroups RateLimiter WorkingMemory MemoryStore MemorySync Consent SecretLeases
    Governance MerkleProofs TextCodes OneTimeTokens RequestClearance MessageBus BusSections AgentRegistry Checkpoints SessionCheckpoints TokenWallet TokenRewards
    MeshNetworks SpaceStore SpaceTokens SpaceKeys SpaceProtocol SpaceStores SpaceSharing SpaceManager SpaceRegistry
    MarketConfig MarketLedger AuditChain IdentityVotes MarketListings MarketGrants MarketPacks
begin

text \<open>Xavier is a memory runtime for AI agents: agents store records in workspaces, read them back under a
  clearance regime, exchange them with peers, and borrow secrets. This development models the parts of it
  that decide what may be read, written, kept or sent.

  \<^bold>\<open>Parts and how they interact.\<close> A request carries a role and a level (\<open>Clearance\<close>), is admitted by the
  rate limiter (\<open>RateLimiter\<close>) and judged by the role hierarchy, its access groups (\<open>RoleAcl\<close>) and the
  membership of information groups (\<open>InfoGroups\<close>). Records live in a bounded working memory
  (\<open>WorkingMemory\<close>) and in durable stores behind one trait, which can be chained (\<open>MemoryStore\<close>). Stores of
  different nodes are reconciled by manifests and last-writer-wins merges under a clearance ceiling
  (\<open>MemorySync\<close>); a filter that follows the consent of the node (\<open>Consent\<close>) is there to be put before them. Secrets are lent to
  agents as leases with a durable table (\<open>SecretLeases\<close>), which end with the task of the agent (\<open>AgentRegistry\<close>);
  agents exchange messages over a bus (\<open>MessageBus\<close>). The level of a request comes from its role, the groups of
  its sender and the route it asks for (\<open>RequestClearance\<close>, over \<open>Clearance\<close> and \<open>InfoGroups\<close>). Nodes and wallets
  prove who they are with tokens that count once (\<open>OneTimeTokens\<close>) and names derived from their keys
  (\<open>TextCodes\<close>). Contributions to the mesh earn tokens and reputation
  (\<open>TokenRewards\<close>), kept in wallets (\<open>TokenWallet\<close>). Nodes share spaces: a space has members and tokens
  (\<open>SpaceStore\<close>, \<open>SpaceTokens\<close>) behind keys of its own (\<open>SpaceKeys\<close>), its stores are opened through the key
  ring (\<open>SpaceStores\<close>), and invitations, links and closed networks let others in (\<open>SpaceSharing\<close>); the registry of
  a node creates, finds at a restart and deletes them (\<open>SpaceManager\<close>, \<open>SpaceRegistry\<close>); networks of
  nodes have grants (\<open>MeshNetworks\<close>). Decisions of the mesh are votes (\<open>Governance\<close>). On its market
  publishers list offers and sell them under a configuration (\<open>MarketConfig\<close>, \<open>MarketListings\<close>), credits change hands in a ledger
  (\<open>MarketLedger\<close>), access is handed over by grants that carry a wrapped key (\<open>MarketGrants\<close>), validators vote on the
  identity of participants (\<open>IdentityVotes\<close>), every such event is appended to a chained log (\<open>AuditChain\<close>), and batches of records
  are committed to by Merkle roots (\<open>MerkleProofs\<close>).

  \<^bold>\<open>Theories.\<close>
  \<^item> \<open>Prelude\<close>: results, strings, hash maps as association lists, JSON values, words.
  \<^item> \<open>Clearance\<close>: \<open>src/crates/xavier-core-logic/src/types.rs\<close> (levels and their encodings),
    \<open>src/src/security/clearance.rs\<close> (read and write rules, parsers, filters, enforcer) and the role type of
    \<open>src/src/security/auth.rs\<close>. Shown: unknown text fails closed, encodings round trip, filters never elevate.
  \<^item> \<open>RoleAcl\<close>: \<open>src/src/security/acl/hierarchy.rs\<close> and \<open>mod.rs\<close>. The depth-first search for a cycle and the
    inheritance closure are functions with termination proofs; shown: an edge is refused exactly when it would
    close a cycle, the hierarchy stays acyclic, and the computed permissions are those of the closure.
  \<^item> \<open>InfoGroups\<close>: \<open>src/src/security/groups.rs\<close> and \<open>src/src/memory/segments.rs\<close>. Shown: access only by
    admission, document paths round trip, installing segments is idempotent, what a failed write leaves.
  \<^item> \<open>RateLimiter\<close>: \<open>src/src/security/rate_limiter/sliding_window.rs\<close>, counters on 64-bit words. Shown: the
    bound on any interval, its tightness at a window boundary, independence of keys.
  \<^item> \<open>WorkingMemory\<close>: \<open>src/src/memory/working.rs\<close>, with its queue, item map and position map as the code keeps
    them. Shown: the three agree after any operations, the eviction policy, when the capacity is kept.
  \<^item> \<open>MemoryStore\<close>: the records of \<open>src/src/domain/cycle_breaks/w30_12.rs\<close>, the in-memory and file stores of
    \<open>src/src/memory/store.rs\<close> and the chain of \<open>src/src/memory/fallback_store.rs\<close>. The locale
    \<open>record_store\<close> holds the laws of put, get and delete; both stores interpret it.
  \<^item> \<open>MemorySync\<close>: \<open>src/src/memory/sync/\<close> (\<open>manifest.rs\<close>, \<open>diff.rs\<close>, \<open>merge.rs\<close>, \<open>mod.rs\<close>). Its lemmas are proved
    in the locale \<open>record_store\<close>; a path is refined to a last-writer-wins register. Shown: convergence, which
    batches a ceiling admits and what they bring in and take away, what a difference of manifests transfers, and where
    deletions depart from the comments.
  \<^item> \<open>Consent\<close>: \<open>src/src/mesh/data_consent.rs\<close> and \<open>src/src/mesh/p2p/sync_filter.rs\<close>, which the synchroniser does not call yet.
    Shown: what passes the filter, that a revoked consent stays revoked, and that an override for a peer does not
    restrict what is sent of a payload.
  \<^item> \<open>SecretLeases\<close>: \<open>src/src/secrets/lending.rs\<close>, \<open>src/src/coordination/secrets.rs\<close> and
    \<open>src/src/secrets/audit.rs\<close>, whose table keeps times as text; writing and reading that text is an argument, and reading
    may fail. The operations are steps of a machine whose relation \<open>lease_change\<close> lists what a step does to leases and
    table. Shown: the lends of a minute, agreement of leases and table and restart for times that are read back, what
    one that is not does to the leases of all agents, revocation and leak detection.
  \<^item> \<open>Checkpoints\<close>: \<open>src/src/checkpoint/mod.rs\<close>, a cache over the store trait as a client of the locale
    \<open>checkpoint_store\<close>, which the stores of \<open>MemoryStore\<close> interpret. Shown: the manager refines a map.
  \<^item> \<open>SessionCheckpoints\<close>: \<open>src/src/checkpoint/state.rs\<close> and \<open>session.rs\<close>. Shown: the rotation keeps the newest
    files, shortening a summary ends on ASCII text, and a text on which it does not.
  \<^item> \<open>AgentRegistry\<close>: \<open>src/src/coordination/agent_registry.rs\<close>, over the engine of \<open>SecretLeases\<close>. Shown: the end
    of a task leaves its agent without leases and other agents with theirs.
  \<^item> \<open>MessageBus\<close>: \<open>src/src/coordination/message_bus/\<close>, over any channels. An operation is composed of its sections, one for
    each time it takes a lock. Shown: who receives a message, and how often; what a request leaves behind.
  \<^item> \<open>BusSections\<close>: the sections of any number of tasks, interleaved in any order (\<open>bus_move\<close>); a task on its own does what
    the operation of \<open>MessageBus\<close> does. Shown: the tables of agents, queues and subscriptions agree as long as no two tasks
    act for one agent at once, and three schedules after which they do not.
  \<^item> \<open>RequestClearance\<close>: \<open>src/src/adapters/inbound/http/middleware/clearance.rs\<close>, \<open>src/src/security/route_policy.rs\<close> and the caches of groups and
    policy. Shown: the level a request is let through with, what a route requires, that the caches are transparent.
  \<^item> \<open>OneTimeTokens\<close>: the replay table of the mesh, pairing secrets, wallet and node challenges. The four are instances of
    the locale \<open>one_time\<close>: what has been used stays used until it is out of date. Shown: nonces, secrets and
    challenges are accepted once, an accepted proof comes from the holder of the key, tables stay within bounds.
  \<^item> \<open>TextCodes\<close>: hexadecimal, base64 and the base32 of node identifiers, with their round trips.
  \<^item> \<open>Governance\<close>: \<open>src/src/governance/dao.rs\<close> and \<open>quadratic_voting.rs\<close>, votes and credits on 64- and 128-bit words.
    Shown: the Newton square root is exact, which ballots are accepted, what the tally counts, the life of a proposal.
  \<^item> \<open>MerkleProofs\<close>: \<open>src/crates/xavier-market/src/merkle.rs\<close> over any hash. Shown: every leaf has an accepted proof; two
    different sequences of leaves with the same root.
  \<^item> \<open>Float64\<close>: the \<open>f64\<close> arithmetic of the program, rational values rounded to 53 bits. Shown: rounding is monotone,
    keeps short numbers and errs by at most \<open>1 / 2 ^ 53\<close>.
  \<^item> \<open>TokenWallet\<close>: \<open>src/src/mesh/tokenomics/wallet.rs\<close> and \<open>vesting.rs\<close>. Shown: the ledger explains the balances, the
    fee computed in floating point is exact, wallets of several owners spend only with approval, and how a stale copy
    of one makes tokens.
  \<^item> \<open>TokenRewards\<close>: \<open>rewards.rs\<close>, \<open>accounting.rs\<close> and \<open>economy.rs\<close> beside it. Shown: the daily cap in sequence, how two
    contributions in flight break it, the bounds of a reputation.
  \<^item> \<open>MeshNetworks\<close>: \<open>src/src/mesh/network.rs\<close>. Shown: what a node is permitted, and that pruning changes no answer.
  \<^item> \<open>SpaceStore\<close>: the database of a shared space (\<open>src/src/espacio/store.rs\<close>, \<open>permissions.rs\<close>, \<open>retention.rs\<close>) as six
    tables with their keys. The locale \<open>record_codec\<close> states what sealing and opening a text must satisfy for a
    channel to read back what was written; the plain codec and the keyed codec of \<open>SpaceKeys\<close> interpret it. Shown: numbers of
    a channel are never given out twice.
  \<^item> \<open>SpaceTokens\<close>: \<open>tokens.rs\<close>. Steps of a space and what every step keeps. Shown: the text of a token is read
    back, a revoked token and a used invitation stay dead.
  \<^item> \<open>SpaceKeys\<close>: \<open>keys.rs\<close>, the keystore file of a space and the ring that unlocks it. Shown: the associated data
    determines the place of a record, every way to unlock gives the key, an encrypted space is never plain.
  \<^item> \<open>SpaceStores\<close>: the opening of stores by \<open>store.rs\<close>, \<open>channel.rs\<close> and the sweeps over spaces of \<open>retention.rs\<close>.
  \<^item> \<open>SpaceSharing\<close>: \<open>invite.rs\<close>, \<open>link.rs\<close>, \<open>p2p.rs\<close>. Shown: who is let in by an invitation, a batch
    of messages arrives at another node as it was sent, and a message that makes a space unreadable.
  \<^item> \<open>SpaceProtocol\<close>: \<open>src/src/workspace/protocol.rs\<close>, the versions of the protocol a space may ask for.
  \<^item> \<open>SpaceManager\<close>: \<open>manager.rs\<close> and \<open>migrate.rs\<close>, with the entry points of \<open>invite.rs\<close>, \<open>link.rs\<close> and \<open>tokens.rs\<close> that
    belong to the manager: registry, directories, key ring and stores as one state, each failing call a branch.
  \<^item> \<open>SpaceRegistry\<close>: what the manager guarantees, through the locales \<open>store_frame\<close> and \<open>store_writes\<close>, which the files
    and the databases interpret. Shown: a restart finds the registry again, a new space inherits nothing from a
    deleted one of the same id, and what failing calls leave behind.
  \<^item> \<open>MarketConfig\<close>: \<open>src/crates/xavier-market/src/config.rs\<close> and \<open>error.rs\<close>: the settings, how the environment changes
    them and which are refused. The theories below are other files of that crate, over tables as lists of rows.
  \<^item> \<open>MarketLedger\<close>: \<open>ledger.rs\<close>, balances as the integer or floating-point cells SQLite keeps. Shown: as long as less than
    \<open>2 ^ 63\<close> millionths come in, the ledger refines accounts over the natural numbers, and balances and the
    shares of the platform add up to what came in; a credit beyond that bound makes an account unreadable.
  \<^item> \<open>AuditChain\<close>: \<open>audit_chain.rs\<close>. Shown: the newest hash commits to the log, but a log cut short still verifies.
  \<^item> \<open>IdentityVotes\<close>: \<open>ivn.rs\<close>. Validators, requests, votes and their evaluation in permille on words. Shown: the status of a
    request is that of its votes after any operations, each by an assigned validator, signed and counted once;
    a decided request stays as it is; what the evaluation decides.
  \<^item> \<open>MarketListings\<close>: \<open>store.rs\<close>, \<open>model.rs\<close>, \<open>gossip.rs\<close> and \<open>auth.rs\<close>. Shown: only its publisher changes or revokes a
    listing, a receipt keeps the price of its time, two nodes that exchange offers agree.
  \<^item> \<open>MarketGrants\<close>: \<open>grant.rs\<close> over any cipher and signature scheme. Shown: every stored grant was signed by the seller of
    its listing within the longest time allowed, one that ended delivers no key
    by the routes of grants, and the buyer of an active one gets the key.
  \<^item> \<open>MarketPacks\<close>: \<open>pack.rs\<close>, the pack files data is handed over in, read and written byte by byte. Shown: an accepted file is accounted
    for to its last byte, and an exported namespace is imported as it was and exported again to the same file.
  \<^item> this theory: what the filter of \<open>Consent\<close> would not keep out, put before the merge of \<open>MemorySync\<close>.

  \<^bold>\<open>Conventions.\<close> A Rust string is the list of its bytes and its case and white-space operations act on
  ASCII. A \<open>HashMap\<close> is an association list with distinct keys, whose order stands for the iteration order the
  standard library leaves open. Fixed-width counters are words; times are integers. What an operation takes from
  its surroundings is an argument: the clock, fresh identifiers, environment variables, whether a file or
  database answers, SHA-256, the JSON decoder, \<open>normalize_metadata\<close>. Errors are the left side of a sum and
  carry the text of the code where callers see it. Except on the message bus, whose
  operations are taken apart into sections, locks are held for a whole modelled operation, so that an operation is
  one step. No fuel is used: every loop is structural or has a termination measure, but for the
  shortening of a session summary, which may run forever and is a partial function whose value is then \<open>None\<close>.

  \<^bold>\<open>Not modelled.\<close> Network and HTTP handlers (but for those that answer for grants of the market), the tool servers and the command line: they parse requests and call
  the components above, and their behaviour is that of third-party frameworks. SQL back ends and importers: their logic
  is in SQL texts and file formats of other programs. Search, ranking, embeddings, decay and the belief graph: floating-point scores
  of models outside the repository. Cryptographic primitives: libraries, here parameters. Of the market,
  credentials, settlement plans, telemetry and the ranking of offers. Task scheduling, sessions of the panel, the code-graph indexer and the page
  index are separate subsystems the modelled ones do not rest on.\<close>

section \<open>The filter and the merge\<close>

text \<open>A node that shares the namespace \<open>ws\<close> with its peer and nothing else.\<close>

definition ws_session :: filtered_session where
  "ws_session = \<lparr> session_filter = sync_filter_new (set_consent (consent_manager_new ''n'') ''ws'' FullConsent),
     session_peer = ''peer'' \<rparr>"

text \<open>The filter of a session is exported and not called by the synchroniser yet. Put before the merge, as its comments
  intend, it would not keep a peer out of a workspace: it judges a change by the namespace the sender states, but the
  merge stores the record in the workspace the record names, so that a record for a workspace the receiver shares with
  nobody is stored there when it comes under an allowed namespace.\<close>

theorem incoming_consent_by_stated_namespace:
  assumes "carried deser d = Some r"
    and "is_allowed (session_filter receiver) (cd_namespace d) (session_peer receiver)"
    and "\<not> is_allowed (session_filter receiver) (mr_workspace_id r) (session_peer receiver)"
    and "max (metadata_level nrm env (mr_path r) (mr_metadata r) (mr_workspace_id r)) (mr_clearance r) \<le> ceil"
    and "mem_get st (mr_workspace_id r) (mr_path r) = Ok None"
  shows "mem_get (fst (snd (apply_received_diffs deser nrm env mem_put mem_get mem_delete ceil
           (session_incoming receiver [d]) (st, n)))) (mr_workspace_id r) (mr_path r) = Ok (Some r)"
proof -
  have inc: "session_incoming receiver [d] = [d]"
    using assms(2) by (simp add: session_incoming_def filter_incoming_def is_allowed_def)
  have ok: "validate_changes_received deser nrm env ceil [d] = Ok ()"
    using assms(1) validated_write [OF assms(1,4)] by simp
  have none: "find (key_matches (mr_path r)) (mem_records st (mr_workspace_id r)) = None"
    using assms(5) by (simp add: mem_get_eq)
  then have "filter (key_matches (mr_path r)) (mem_records st (mr_workspace_id r)) = []"
    by (simp add: find_None_iff filter_empty_conv)
  then have one: "length (filter (key_matches (mr_path r)) (mem_records st (mr_workspace_id r))) \<le> 1" by simp
  have "fst (snd (apply_received_diffs deser nrm env mem_put mem_get mem_delete ceil [d] (st, n))) =
        fst (snd (apply_change deser mem_put mem_get mem_delete d (st, n)))"
    using ok mem_apply_ok [of deser "[d]" st n]
    by (auto simp: apply_received_diffs_def is_ok_iff split: prod.splits sum.splits)
  moreover have "find (key_matches (mr_path r)) (mem_records
      (fst (snd (apply_change deser mem_put mem_get mem_delete d (st, n)))) (mr_workspace_id r)) = Some r"
    using mem_store.apply_change_register [OF assms(1) one, of n] none by (simp add: lww_merge_def)
  ultimately show ?thesis unfolding inc by (simp add: mem_get_eq)
qed

lemma incoming_consent_by_stated_namespace_witness:
  "mem_get (fst (snd (apply_received_diffs (\<lambda>b. Some ((sample_record ''a'' ''p'')\<lparr> mr_workspace_id := ''private'' \<rparr>))
      (\<lambda>p m w. Some (JObj [(''clearance'', JStr ''UNCLASSIFIED'')])) (\<lambda>k. None) mem_put mem_get mem_delete TopSecret
      (session_incoming ws_session [add_diff [1]]) ([], 0)))) ''private'' ''p''
   = Ok (Some ((sample_record ''a'' ''p'')\<lparr> mr_workspace_id := ''private'' \<rparr>))"
proof -
  have "mem_get (fst (snd (apply_received_diffs (\<lambda>b. Some ((sample_record ''a'' ''p'')\<lparr> mr_workspace_id := ''private'' \<rparr>))
      (\<lambda>p m w. Some (JObj [(''clearance'', JStr ''UNCLASSIFIED'')])) (\<lambda>k. None) mem_put mem_get mem_delete TopSecret
      (session_incoming ws_session [add_diff [1]]) ([], 0))))
      (mr_workspace_id ((sample_record ''a'' ''p'')\<lparr> mr_workspace_id := ''private'' \<rparr>))
      (mr_path ((sample_record ''a'' ''p'')\<lparr> mr_workspace_id := ''private'' \<rparr>))
   = Ok (Some ((sample_record ''a'' ''p'')\<lparr> mr_workspace_id := ''private'' \<rparr>))"
    by (rule incoming_consent_by_stated_namespace) code_simp+
  then show ?thesis by (simp add: sample_record_def)
qed

end
